(* ===== verification/Ficant_Prelude.thy ===== *)
theory Ficant_Prelude
  imports Main "HOL-Library.Word" "HOL-Library.Char_ord" "HOL-Library.List_Lexorder"
    "HOL-Library.Product_Lexorder" "HOL-Library.Multiset"
begin

text \<open>
  The vocabulary every component shares: machine integer types, Rust's \<open>Result\<close> and the
  propagation of its errors, strings and their bytes, big-endian integers, the two-element
  windows and ordered maps the constructors use, and the general lemmas about them.

  A Rust \<open>String\<close> or \<open>&str\<close> is a HOL \<open>string\<close> whose characters are the bytes of its UTF-8
  encoding, so \<open>length\<close> is \<open>len()\<close> and the lexicographic order on strings is Rust's \<open>Ord\<close>.
  A \<open>Vec<u8>\<close> or \<open>&[u8]\<close> is a list of 8-bit words.
\<close>

section \<open>Machine integers and results\<close>

type_synonym u8 = "8 word"
type_synonym u16 = "16 word"
type_synonym u32 = "32 word"
type_synonym u64 = "64 word"
type_synonym u128 = "128 word"
type_synonym i32 = "32 word"
type_synonym i64 = "64 word"
type_synonym i128 = "128 word"
type_synonym byte = u8
type_synonym bytes = "byte list"

text \<open>
  \<open>i32\<close>, \<open>i64\<close> and \<open>i128\<close> are two's complement words and are read with \<open>sint\<close>. A collection
  length (\<open>usize\<close>) is a \<open>nat\<close>; \<open>usize_limit\<close> is the first value a 64-bit \<open>usize\<close> cannot hold.
\<close>

abbreviation usize_limit :: nat where
  "usize_limit \<equiv> 2 ^ 64"

datatype ('a, 'e) result = Ok 'a | Err 'e

text \<open>\<open>and_then\<close> is the \<open>?\<close> operator: the first error ends the computation.\<close>

fun and_then :: "('a, 'e) result \<Rightarrow> ('a \<Rightarrow> ('b, 'e) result) \<Rightarrow> ('b, 'e) result" where
  "and_then (Ok x) f = f x"
| "and_then (Err e) f = Err e"

fun map_err :: "('e \<Rightarrow> 'f) \<Rightarrow> ('a, 'e) result \<Rightarrow> ('a, 'f) result" where
  "map_err g (Ok x) = Ok x"
| "map_err g (Err e) = Err (g e)"

fun ok_or :: "'a option \<Rightarrow> 'e \<Rightarrow> ('a, 'e) result" where
  "ok_or (Some x) e = Ok x"
| "ok_or None e = Err e"

text \<open>\<open>require b e\<close> is \<open>if !b { return Err(e) }\<close>.\<close>

definition require :: "bool \<Rightarrow> 'e \<Rightarrow> (unit, 'e) result" where
  "require b e = (if b then Ok () else Err e)"

fun is_ok :: "('a, 'e) result \<Rightarrow> bool" where
  "is_ok (Ok x) = True"
| "is_ok (Err e) = False"

named_theorems result_simps \<open>inversion of fallible computations\<close>

lemma and_then_eq_Ok [result_simps]:
  "and_then r f = Ok y \<longleftrightarrow> (\<exists>x. r = Ok x \<and> f x = Ok y)"
  by (cases r) auto

lemma and_then_eq_Err [result_simps]:
  "and_then r f = Err e \<longleftrightarrow> r = Err e \<or> (\<exists>x. r = Ok x \<and> f x = Err e)"
  by (cases r) auto

lemma map_err_eq_Ok [result_simps]: "map_err g r = Ok y \<longleftrightarrow> r = Ok y"
  by (cases r) auto

lemma map_err_eq_Err [result_simps]: "map_err g r = Err f \<longleftrightarrow> (\<exists>e. r = Err e \<and> f = g e)"
  by (cases r) auto

lemma ok_or_eq_Ok [result_simps]: "ok_or opt e = Ok y \<longleftrightarrow> opt = Some y"
  by (cases opt) auto

lemma ok_or_eq_Err [result_simps]: "ok_or opt e = Err f \<longleftrightarrow> opt = None \<and> f = e"
  by (cases opt) auto

lemma require_eq_Ok [result_simps]: "require b e = Ok u \<longleftrightarrow> b"
  by (simp add: require_def)

lemma require_eq_Err [result_simps]: "require b e = Err f \<longleftrightarrow> \<not> b \<and> f = e"
  by (auto simp: require_def)

lemma require_simps [simp]: "require True e = Ok ()" "require False e = Err e"
  by (simp_all add: require_def)

lemma is_ok_iff: "is_ok r \<longleftrightarrow> (\<exists>x. r = Ok x)"
  by (cases r) auto

section \<open>Strings and bytes\<close>

definition byte_of_char :: "char \<Rightarrow> byte" where
  "byte_of_char c = word_of_nat (of_char c)"

definition char_of_byte :: "byte \<Rightarrow> char" where
  "char_of_byte b = char_of (unat b)"

definition as_bytes :: "string \<Rightarrow> bytes" where
  "as_bytes s = map byte_of_char s"

definition string_of_bytes :: "bytes \<Rightarrow> string" where
  "string_of_bytes bs = map char_of_byte bs"

lemma unat_bound: "unat (w :: 'a::len word) < 2 ^ LENGTH('a)"
  by (rule unsigned_less)

lemma unat_byte_bound [simp]: "unat (b :: byte) < 256"
  using unat_bound [of b] by simp

lemma unat_byte_of_char [simp]: "unat (byte_of_char c) = of_char c"
proof -
  have "(of_char c :: nat) < 256" by simp
  then show ?thesis by (simp add: byte_of_char_def unat_of_nat)
qed

lemma char_of_byte_of_char [simp]: "char_of_byte (byte_of_char c) = c"
  by (simp add: char_of_byte_def)

lemma byte_of_char_of_byte [simp]: "byte_of_char (char_of_byte b) = b"
  by (simp add: unsigned_word_eqI [where 'a = nat] char_of_byte_def)

lemma string_of_as_bytes [simp]: "string_of_bytes (as_bytes s) = s"
  by (simp add: string_of_bytes_def as_bytes_def comp_def)

lemma as_bytes_of_string [simp]: "as_bytes (string_of_bytes bs) = bs"
  by (simp add: string_of_bytes_def as_bytes_def comp_def)

lemma length_as_bytes [simp]: "length (as_bytes s) = length s"
  by (simp add: as_bytes_def)

lemma length_string_of_bytes [simp]: "length (string_of_bytes bs) = length bs"
  by (simp add: string_of_bytes_def)

lemma as_bytes_inject [simp]: "as_bytes s = as_bytes t \<longleftrightarrow> s = t"
  by (metis string_of_as_bytes)

lemma as_bytes_Nil [simp]: "as_bytes [] = []"
  by (simp add: as_bytes_def)

section \<open>Big-endian integers\<close>

text \<open>
  \<open>be_bytes n x\<close> are the \<open>n\<close> low-order bytes of \<open>x\<close>, most significant first;
  \<open>to_be_bytes\<close> is Rust's method at any width, and \<open>be_nat\<close> reads bytes back.
\<close>

fun be_bytes :: "nat \<Rightarrow> nat \<Rightarrow> bytes" where
  "be_bytes 0 x = []"
| "be_bytes (Suc n) x = be_bytes n (x div 256) @ [word_of_nat (x mod 256)]"

definition be_nat :: "bytes \<Rightarrow> nat" where
  "be_nat bs = foldl (\<lambda>n b. 256 * n + unat b) 0 bs"

definition to_be_bytes :: "'a::len word \<Rightarrow> bytes" where
  "to_be_bytes w = be_bytes (LENGTH('a) div 8) (unat w)"

definition from_be_bytes :: "bytes \<Rightarrow> 'a::len word" where
  "from_be_bytes bs = word_of_nat (be_nat bs)"

lemma length_be_bytes [simp]: "length (be_bytes n x) = n"
  by (induction n arbitrary: x) auto

lemma be_nat_snoc [simp]: "be_nat (bs @ [b]) = 256 * be_nat bs + unat b"
  by (simp add: be_nat_def)

lemma be_nat_Nil [simp]: "be_nat [] = 0"
  by (simp add: be_nat_def)

lemma unat_byte_mod: "unat (word_of_nat (x mod 256) :: byte) = x mod 256"
  by (simp add: unat_of_nat)

lemma be_nat_be_bytes: "x < 256 ^ n \<Longrightarrow> be_nat (be_bytes n x) = x"
proof (induction n arbitrary: x)
  case 0
  then show ?case by simp
next
  case (Suc n)
  from Suc.prems have "x div 256 < 256 ^ n" by (simp add: less_mult_imp_div_less mult.commute)
  with Suc.IH show ?case by (simp add: unat_byte_mod)
qed

lemma be_bytes_be_nat: "be_bytes (length bs) (be_nat bs) = bs"
proof (induction bs rule: rev_induct)
  case Nil
  then show ?case by simp
next
  case (snoc b bs)
  have b: "unat b < 256" by simp
  then have "(256 * be_nat bs + unat b) div 256 = be_nat bs" by simp
  with b snoc.IH show ?case by simp
qed

lemma be_nat_less: "be_nat bs < 256 ^ length bs"
proof (induction bs rule: rev_induct)
  case Nil
  then show ?case by simp
next
  case (snoc b bs)
  with unat_byte_bound [of b] show ?case
    unfolding be_nat_snoc length_append_singleton power_Suc by linarith
qed

lemma length_to_be_bytes [simp]:
  "length (to_be_bytes (w :: 'a::len word)) = LENGTH('a) div 8"
  by (simp add: to_be_bytes_def)

text \<open>The widths the program encodes: 16, 32, 64 and 128 bits.\<close>

lemma from_to_be_bytes_16 [simp]: "from_be_bytes (to_be_bytes (w :: u16)) = w"
  using unat_bound [of w] by (simp add: from_be_bytes_def to_be_bytes_def be_nat_be_bytes)

lemma from_to_be_bytes_32 [simp]: "from_be_bytes (to_be_bytes (w :: u32)) = w"
  using unat_bound [of w] by (simp add: from_be_bytes_def to_be_bytes_def be_nat_be_bytes)

lemma from_to_be_bytes_64 [simp]: "from_be_bytes (to_be_bytes (w :: u64)) = w"
  using unat_bound [of w] by (simp add: from_be_bytes_def to_be_bytes_def be_nat_be_bytes)

lemma to_from_be_bytes_64:
  assumes "length bs = 8"
  shows "to_be_bytes (from_be_bytes bs :: u64) = bs"
proof -
  have "unat (from_be_bytes bs :: u64) = be_nat bs"
    using be_nat_less [of bs] assms by (simp add: from_be_bytes_def unat_of_nat)
  then show ?thesis
    using be_bytes_be_nat [of bs] assms by (simp add: to_be_bytes_def)
qed

lemma to_from_be_bytes_32:
  assumes "length bs = 4"
  shows "to_be_bytes (from_be_bytes bs :: u32) = bs"
proof -
  have "unat (from_be_bytes bs :: u32) = be_nat bs"
    using be_nat_less [of bs] assms by (simp add: from_be_bytes_def unat_of_nat)
  then show ?thesis
    using be_bytes_be_nat [of bs] assms by (simp add: to_be_bytes_def)
qed

lemma to_be_bytes_inject_16 [simp]: "to_be_bytes (v :: u16) = to_be_bytes w \<longleftrightarrow> v = w"
  by (metis from_to_be_bytes_16)

lemma to_be_bytes_inject_32 [simp]: "to_be_bytes (v :: u32) = to_be_bytes w \<longleftrightarrow> v = w"
  by (metis from_to_be_bytes_32)

lemma to_be_bytes_inject_64 [simp]: "to_be_bytes (v :: u64) = to_be_bytes w \<longleftrightarrow> v = w"
  by (metis from_to_be_bytes_64)

lemma from_to_be_bytes_128 [simp]: "from_be_bytes (to_be_bytes (w :: u128)) = w"
  using unat_bound [of w] by (simp add: from_be_bytes_def to_be_bytes_def be_nat_be_bytes)

lemma to_be_bytes_inject_128 [simp]: "to_be_bytes (v :: u128) = to_be_bytes w \<longleftrightarrow> v = w"
  by (metis from_to_be_bytes_128)

lemma word64_of_nat_inject:
  "m < usize_limit \<Longrightarrow> n < usize_limit \<Longrightarrow> (word_of_nat m :: u64) = word_of_nat n \<longleftrightarrow> m = n"
proof -
  assume "m < usize_limit" and "n < usize_limit"
  then have "unat (word_of_nat m :: u64) = m" and "unat (word_of_nat n :: u64) = n"
    by (simp_all add: unat_of_nat)
  then show ?thesis by metis
qed

section \<open>Text checks of the standard library\<close>

text \<open>
  \<open>str::trim\<close> removes Unicode \<open>White_Space\<close> from both ends. \<open>whitespace_encodings\<close> are the
  UTF-8 encodings of those code points: U+0009 to U+000D, U+0020, U+0085, U+00A0, U+1680,
  U+2000 to U+200A, U+2028, U+2029, U+202F, U+205F and U+3000. In valid UTF-8 a code point is
  first (last) exactly when its encoding is a prefix (suffix) of the bytes.
\<close>

definition whitespace_encodings :: "string list" where
  "whitespace_encodings =
     [[CHR 0x09], [CHR 0x0A], [CHR 0x0B], [CHR 0x0C], [CHR 0x0D], [CHR 0x20],
      [CHR 0xC2, CHR 0x85], [CHR 0xC2, CHR 0xA0], [CHR 0xE1, CHR 0x9A, CHR 0x80]]
     @ map (\<lambda>c. [CHR 0xE2, CHR 0x80, c])
         [CHR 0x80, CHR 0x81, CHR 0x82, CHR 0x83, CHR 0x84, CHR 0x85, CHR 0x86, CHR 0x87,
          CHR 0x88, CHR 0x89, CHR 0x8A, CHR 0xA8, CHR 0xA9, CHR 0xAF]
     @ [[CHR 0xE2, CHR 0x81, CHR 0x9F], [CHR 0xE3, CHR 0x80, CHR 0x80]]"

fun strip_prefix :: "string \<Rightarrow> string \<Rightarrow> string option" where
  "strip_prefix [] s = Some s"
| "strip_prefix (p # ps) [] = None"
| "strip_prefix (p # ps) (c # s) = (if p = c then strip_prefix ps s else None)"

fun strip_any :: "string list \<Rightarrow> string \<Rightarrow> string option" where
  "strip_any [] s = None"
| "strip_any (w # ws) s =
     (if w = [] then strip_any ws s
      else (case strip_prefix w s of Some r \<Rightarrow> Some r | None \<Rightarrow> strip_any ws s))"

lemma strip_prefix_length: "strip_prefix p s = Some r \<Longrightarrow> length s = length p + length r"
  by (induction p s rule: strip_prefix.induct) (auto split: if_splits)

lemma strip_any_length: "strip_any ws s = Some r \<Longrightarrow> length r < length s"
  by (induction ws s rule: strip_any.induct)
    (auto dest: strip_prefix_length split: if_splits option.splits)

function strip_all :: "string list \<Rightarrow> string \<Rightarrow> string" where
  "strip_all ws s = (case strip_any ws s of Some r \<Rightarrow> strip_all ws r | None \<Rightarrow> s)"
  by pat_completeness auto
termination
  by (relation "measure (\<lambda>(ws, s). length s)") (auto dest: strip_any_length)

declare strip_all.simps [simp del]

definition trim_start :: "string \<Rightarrow> string" where
  "trim_start s = strip_all whitespace_encodings s"

definition trim_end :: "string \<Rightarrow> string" where
  "trim_end s = rev (strip_all (map rev whitespace_encodings) (rev s))"

definition trim :: "string \<Rightarrow> string" where
  "trim s = trim_end (trim_start s)"

text \<open>The check the constructors repeat: blank or padded text is refused.\<close>

definition blank_or_padded :: "string \<Rightarrow> bool" where
  "blank_or_padded s \<longleftrightarrow> trim s = [] \<or> s \<noteq> trim s"

lemma strip_prefix_hd: "p \<noteq> [] \<Longrightarrow> s \<noteq> [] \<Longrightarrow> hd p \<noteq> hd s \<Longrightarrow> strip_prefix p s = None"
  by (cases p; cases s) auto

lemma strip_any_hd: "s \<noteq> [] \<Longrightarrow> hd s \<notin> hd ` set ws \<Longrightarrow> strip_any ws s = None"
  by (induction ws) (force simp: strip_prefix_hd)+

lemma trim_id:
  assumes "s \<noteq> []" "hd s \<notin> hd ` set whitespace_encodings"
    "last s \<notin> hd ` set (map rev whitespace_encodings)"
  shows "trim s = s"
proof -
  have "trim_start s = s"
    using assms by (simp add: trim_start_def strip_all.simps [of _ s] strip_any_hd)
  moreover have "trim_end s = s"
    using assms by (simp add: trim_end_def strip_all.simps [of _ "rev s"] strip_any_hd hd_rev)
  ultimately show ?thesis by (simp add: trim_def)
qed

definition is_ascii_digit :: "char \<Rightarrow> bool" where
  "is_ascii_digit c \<longleftrightarrow> 48 \<le> (of_char c :: nat) \<and> (of_char c :: nat) \<le> 57"

definition is_ascii_lowercase :: "char \<Rightarrow> bool" where
  "is_ascii_lowercase c \<longleftrightarrow> 97 \<le> (of_char c :: nat) \<and> (of_char c :: nat) \<le> 122"

definition is_ascii_uppercase :: "char \<Rightarrow> bool" where
  "is_ascii_uppercase c \<longleftrightarrow> 65 \<le> (of_char c :: nat) \<and> (of_char c :: nat) \<le> 90"

definition is_ascii_whitespace :: "char \<Rightarrow> bool" where
  "is_ascii_whitespace c \<longleftrightarrow> (of_char c :: nat) \<in> {9, 10, 12, 13, 32}"

definition is_ascii :: "string \<Rightarrow> bool" where
  "is_ascii s \<longleftrightarrow> list_all (\<lambda>c. (of_char c :: nat) < 128) s"

text \<open>Every whitespace encoding starts and ends outside the printable ASCII range.\<close>

lemma whitespace_ends:
  "c \<in> hd ` set whitespace_encodings \<union> hd ` set (map rev whitespace_encodings) \<Longrightarrow>
     (of_char c :: nat) \<le> 32 \<or> 128 \<le> (of_char c :: nat)"
  by (auto simp: whitespace_encodings_def)

lemma trim_printable:
  assumes "s \<noteq> []" "\<And>c. c \<in> set s \<Longrightarrow> 32 < (of_char c :: nat) \<and> (of_char c :: nat) < 128"
  shows "trim s = s"
proof (rule trim_id)
  have "hd s \<in> set s" and "last s \<in> set s" using assms(1) by simp_all
  with assms(2) have hd: "\<not> ((of_char (hd s) :: nat) \<le> 32 \<or> 128 \<le> (of_char (hd s) :: nat))"
    and last: "\<not> ((of_char (last s) :: nat) \<le> 32 \<or> 128 \<le> (of_char (last s) :: nat))"
    by force+
  show "hd s \<notin> hd ` set whitespace_encodings" using hd whitespace_ends by blast
  show "last s \<notin> hd ` set (map rev whitespace_encodings)" using last whitespace_ends by blast
qed (fact assms(1))

text \<open>\<open>str::split\<close> at a one-byte character, and its inverse.\<close>

fun split_on :: "char \<Rightarrow> string \<Rightarrow> string list" where
  "split_on c [] = [[]]"
| "split_on c (x # xs) =
     (if x = c then [] # split_on c xs
      else (case split_on c xs of s # ss \<Rightarrow> (x # s) # ss | [] \<Rightarrow> [[x]]))"

fun join_with :: "char \<Rightarrow> string list \<Rightarrow> string" where
  "join_with c [] = []"
| "join_with c [s] = s"
| "join_with c (s # t # ss) = s @ c # join_with c (t # ss)"

lemma split_on_nonempty [simp]: "split_on c s \<noteq> []"
  by (induction c s rule: split_on.induct) (auto split: list.splits)

lemma join_with_split_on [simp]: "join_with c (split_on c s) = s"
proof (induction c s rule: split_on.induct)
  case (2 c x xs)
  then show ?case by (cases "split_on c xs" rule: remdups_adj.cases) auto
qed simp

lemma split_on_free: "t \<in> set (split_on c s) \<Longrightarrow> c \<notin> set t"
  by (induction c s arbitrary: t rule: split_on.induct) (auto split: if_splits list.splits)

lemma split_on_append: "c \<notin> set s \<Longrightarrow> split_on c (s @ c # r) = s # split_on c r"
  by (induction s) auto

lemma split_on_no_sep: "c \<notin> set s \<Longrightarrow> split_on c s = [s]"
  by (induction s) auto

lemma split_on_join_with:
  "ss \<noteq> [] \<Longrightarrow> \<forall>s \<in> set ss. c \<notin> set s \<Longrightarrow> split_on c (join_with c ss) = ss"
  by (induction c ss rule: join_with.induct) (auto simp: split_on_append split_on_no_sep)

lemma split_on_eq_iff:
  "split_on c s = ss \<longleftrightarrow> ss \<noteq> [] \<and> s = join_with c ss \<and> (\<forall>t \<in> set ss. c \<notin> set t)"
  by (metis join_with_split_on split_on_free split_on_join_with split_on_nonempty)

text \<open>
  \<open>String::from_utf8\<close> accepts exactly the well-formed byte sequences of the Unicode standard
  (no overlong form, no surrogate, nothing above U+10FFFF).
\<close>

definition continuation :: "byte \<Rightarrow> bool" where
  "continuation b \<longleftrightarrow> 0x80 \<le> b \<and> b \<le> 0xBF"

definition utf8_second :: "byte \<Rightarrow> byte \<Rightarrow> bool" where
  "utf8_second b c \<longleftrightarrow>
     (if b = 0xE0 then 0xA0 \<le> c \<and> c \<le> 0xBF
      else if b = 0xED then 0x80 \<le> c \<and> c \<le> 0x9F
      else if b = 0xF0 then 0x90 \<le> c \<and> c \<le> 0xBF
      else if b = 0xF4 then 0x80 \<le> c \<and> c \<le> 0x8F
      else continuation c)"

fun utf8_valid :: "bytes \<Rightarrow> bool" where
  "utf8_valid [] = True"
| "utf8_valid (b # bs) =
     (if b < 0x80 then utf8_valid bs
      else if 0xC2 \<le> b \<and> b \<le> 0xDF then
        (case bs of c # r \<Rightarrow> continuation c \<and> utf8_valid r | _ \<Rightarrow> False)
      else if 0xE0 \<le> b \<and> b \<le> 0xEF then
        (case bs of c # d # r \<Rightarrow> utf8_second b c \<and> continuation d \<and> utf8_valid r | _ \<Rightarrow> False)
      else if 0xF0 \<le> b \<and> b \<le> 0xF4 then
        (case bs of c # d # e # r \<Rightarrow>
           utf8_second b c \<and> continuation d \<and> continuation e \<and> utf8_valid r
         | _ \<Rightarrow> False)
      else False)"

definition from_utf8 :: "bytes \<Rightarrow> string option" where
  "from_utf8 bs = (if utf8_valid bs then Some (string_of_bytes bs) else None)"

lemma from_utf8_eq_Some [simp]:
  "from_utf8 bs = Some s \<longleftrightarrow> bs = as_bytes s \<and> utf8_valid bs"
  by (auto simp: from_utf8_def)

lemma byte_of_char_less_128: "byte_of_char c < 128 \<longleftrightarrow> (of_char c :: nat) < 128"
  by (simp add: word_less_nat_alt)

lemma ascii_utf8: "is_ascii s \<Longrightarrow> utf8_valid (as_bytes s)"
  by (induction s) (auto simp: is_ascii_def as_bytes_def byte_of_char_less_128)

section \<open>Sorted vectors, windows and ordered maps\<close>

text \<open>\<open>slice::get\<close>, and the bytes \<open>&bs[lo..hi]\<close>.\<close>

definition vec_get :: "'a list \<Rightarrow> nat \<Rightarrow> 'a option" where
  "vec_get xs i = (if i < length xs then Some (xs ! i) else None)"

definition subslice :: "nat \<Rightarrow> nat \<Rightarrow> 'a list \<Rightarrow> 'a list" where
  "subslice lo hi xs = take (hi - lo) (drop lo xs)"

lemma vec_get_eq_Some [simp]: "vec_get xs i = Some x \<longleftrightarrow> i < length xs \<and> xs ! i = x"
  by (simp add: vec_get_def)

lemma length_subslice [simp]: "length (subslice lo hi xs) = min (hi - lo) (length xs - lo)"
  by (simp add: subslice_def)

lemma subslice_append_skip: "length a \<le> lo \<Longrightarrow> subslice lo hi (a @ b) = subslice (lo - length a) (hi - length a) b"
  by (simp add: subslice_def)

lemma subslice_append_take: "subslice 0 (length a) (a @ b) = a"
  by (simp add: subslice_def)

lemma subslice_split: "lo \<le> mid \<Longrightarrow> mid \<le> hi \<Longrightarrow> subslice lo mid xs @ subslice mid hi xs = subslice lo hi xs"
proof -
  assume "lo \<le> mid" "mid \<le> hi"
  then have "subslice lo hi xs = take ((mid - lo) + (hi - mid)) (drop lo xs)" by (simp add: subslice_def)
  also have "\<dots> = subslice lo mid xs @ subslice mid hi xs"
    using \<open>lo \<le> mid\<close> unfolding take_add by (simp add: subslice_def add.commute)
  finally show ?thesis by simp
qed

lemma subslice_mid: "length a = lo \<Longrightarrow> lo + length b = hi \<Longrightarrow> subslice lo hi (a @ b @ c) = b"
  by (auto simp: subslice_def)

lemma subslice_one: "i < length xs \<Longrightarrow> subslice i (Suc i) xs = [xs ! i]"
  by (simp add: subslice_def take_Suc_conv_app_nth hd_drop_conv_nth)

lemma subslice_all: "subslice 0 (length xs) xs = xs"
  by (simp add: subslice_def)

text \<open>\<open>xs.windows(2).any(|pair| p(pair[0], pair[1]))\<close>.\<close>

fun windows2_any :: "('a \<Rightarrow> 'a \<Rightarrow> bool) \<Rightarrow> 'a list \<Rightarrow> bool" where
  "windows2_any p (x # y # zs) = (p x y \<or> windows2_any p (y # zs))"
| "windows2_any p xs = False"

text \<open>After sorting by a key, equal keys are neighbours: the window test finds every repetition.\<close>

lemma windows2_any_sorted:
  fixes f :: "'a \<Rightarrow> 'k::linorder"
  shows "sorted (map f xs) \<Longrightarrow> windows2_any (\<lambda>a b. f a = f b) xs \<longleftrightarrow> \<not> distinct (map f xs)"
proof (induction "\<lambda>a b. f a = f b" xs rule: windows2_any.induct)
  case (1 x y zs)
  then have IH: "windows2_any (\<lambda>a b. f a = f b) (y # zs) \<longleftrightarrow> \<not> distinct (map f (y # zs))"
    and le: "f x \<le> f y" "\<And>z. z \<in> set zs \<Longrightarrow> f y \<le> f z" by auto
  have "f x \<in> f ` set zs \<Longrightarrow> f x = f y" using le by fastforce
  with IH show ?case by auto
qed auto

lemma windows2_any_sort_key:
  "windows2_any (\<lambda>a b. f a = f b) (sort_key f xs) \<longleftrightarrow> \<not> distinct (map f xs)"
proof -
  have "mset (map f (sort_key f xs)) = mset (map f xs)" by simp
  then have "distinct (map f (sort_key f xs)) \<longleftrightarrow> distinct (map f xs)"
    by (metis mset_eq_imp_distinct_iff)
  then show ?thesis by (simp add: windows2_any_sorted)
qed

lemma sort_key_eq_Nil [simp]: "sort_key f xs = [] \<longleftrightarrow> xs = []"
  by (metis length_0_conv length_sort)

lemma sorted_wrt_sort_key:
  "distinct (map f xs) \<Longrightarrow> sorted_wrt (<) (map f (sort_key f xs))"
  by (simp add: strict_sorted_iff distinct_map)

text \<open>The sorted vector does not depend on the order in which the elements arrived.\<close>

lemma sort_key_perm:
  assumes "mset xs = mset ys" and "distinct (map f xs)"
  shows "sort_key f xs = sort_key f ys"
proof -
  have sets: "set xs = set ys" using assms(1) by (metis set_mset_mset)
  have dist: "distinct (map f ys)" using assms by (metis mset_eq_imp_distinct_iff mset_map)
  have dsort: "distinct (map f (sort_key f zs))" if "distinct (map f zs)" for zs :: "'a list"
    using that by (simp add: distinct_map)
  have "map f (sort_key f xs) = map f (sort_key f ys)"
    by (rule sorted_distinct_set_unique) (use dsort dist assms(2) sets in auto)
  moreover have "inj_on f (set (sort_key f xs) \<union> set (sort_key f ys))"
    using assms(2) sets by (simp add: distinct_map)
  ultimately show ?thesis by (simp add: inj_on_map_eq_map)
qed

section \<open>Iterations that may fail\<close>

text \<open>
  \<open>iter().map(f).collect::<Result<Vec<_>, _>>()\<close>, and a loop whose body uses \<open>?\<close>: the first
  error ends the iteration.
\<close>

fun try_map :: "('a \<Rightarrow> ('b, 'e) result) \<Rightarrow> 'a list \<Rightarrow> ('b list, 'e) result" where
  "try_map f [] = Ok []"
| "try_map f (x # xs) = and_then (f x) (\<lambda>y. and_then (try_map f xs) (\<lambda>ys. Ok (y # ys)))"

fun try_fold :: "('a \<Rightarrow> 's \<Rightarrow> ('s, 'e) result) \<Rightarrow> 'a list \<Rightarrow> 's \<Rightarrow> ('s, 'e) result" where
  "try_fold f [] s = Ok s"
| "try_fold f (x # xs) s = and_then (f x s) (try_fold f xs)"

lemma try_map_Ok: "try_map f xs = Ok ys \<longleftrightarrow> list_all2 (\<lambda>x y. f x = Ok y) xs ys"
proof (induction xs arbitrary: ys)
  case (Cons x xs)
  then show ?case by (cases ys) (auto simp: result_simps)
qed auto

lemma try_fold_append: "try_fold f (xs @ ys) s = and_then (try_fold f xs s) (try_fold f ys)"
proof (induction xs arbitrary: s)
  case (Cons x xs)
  then show ?case by (cases "f x s") auto
qed simp

text \<open>An invariant of the body is one of the loop.\<close>

lemma try_fold_invariant:
  assumes "try_fold f xs s = Ok t" "I s" "\<And>x s t. x \<in> set xs \<Longrightarrow> I s \<Longrightarrow> f x s = Ok t \<Longrightarrow> I t"
  shows "I t"
  using assms
proof (induction xs arbitrary: s)
  case (Cons x xs)
  then obtain u where "f x s = Ok u" "try_fold f xs u = Ok t" by (auto simp: result_simps)
  with Cons show ?case by (metis list.set_intros)
qed simp

text \<open>A loop whose body never fails from a state of the invariant does not fail.\<close>

lemma try_fold_progress:
  assumes "I s" "\<And>x s. x \<in> set xs \<Longrightarrow> I s \<Longrightarrow> \<exists>s'. f x s = Ok s'"
    and "\<And>x s s'. x \<in> set xs \<Longrightarrow> I s \<Longrightarrow> f x s = Ok s' \<Longrightarrow> I s'"
  shows "\<exists>s'. try_fold f xs s = Ok s'"
  using assms
proof (induction xs arbitrary: s)
  case (Cons x xs)
  obtain t where t: "f x s = Ok t" using Cons.prems(1,2) by (meson list.set_intros(1))
  then have "I t" using Cons.prems(1,3) by (meson list.set_intros(1))
  then obtain s' where "try_fold f xs t = Ok s'" using Cons.IH [of t] Cons.prems(2,3) by (meson list.set_intros(2))
  then show ?case using t by simp
qed simp

text \<open>Two loops in lockstep: related states stay related, and the second succeeds when the first does.\<close>

lemma try_fold_lockstep:
  assumes "list_all2 P xs ys" "Q a b" "try_fold f xs a = Ok a'"
    and "\<And>x y a b a'. P x y \<Longrightarrow> Q a b \<Longrightarrow> f x a = Ok a' \<Longrightarrow> \<exists>b'. g y b = Ok b' \<and> Q a' b'"
  shows "\<exists>b'. try_fold g ys b = Ok b' \<and> Q a' b'"
  using assms(1-3)
proof (induction xs ys arbitrary: a b rule: list_all2_induct)
  case (Cons x xs y ys)
  then obtain c where c: "f x a = Ok c" "try_fold f xs c = Ok a'" by (auto simp: result_simps)
  then obtain d where "g y b = Ok d" "Q c d" using assms(4) Cons by blast
  with Cons.IH c(2) show ?case by auto
qed simp

section \<open>Related lists\<close>

lemma list_all2_filter_related:
  assumes "list_all2 R xs ys" "\<And>x y. R x y \<Longrightarrow> P x \<longleftrightarrow> Q y"
  shows "list_all2 R (filter P xs) (filter Q ys)"
  using assms by (induction xs ys rule: list_all2_induct) auto

lemma list_all2_insort_related:
  assumes "list_all2 R xs ys" "R x y" "\<And>x y. R x y \<Longrightarrow> k x = k y"
  shows "list_all2 R (insort_key k x xs) (insort_key k y ys)"
  using assms by (induction xs ys rule: list_all2_induct) auto

lemma list_all2_sort_related:
  assumes "list_all2 R xs ys" "\<And>x y. R x y \<Longrightarrow> k x = k y"
  shows "list_all2 R (sort_key k xs) (sort_key k ys)"
  using assms by (induction xs ys rule: list_all2_induct) (auto simp: list_all2_insort_related)

lemma list_all2_map_related:
  assumes "list_all2 R xs ys" "\<And>x y. R x y \<Longrightarrow> f x = g y"
  shows "map f xs = map g ys"
  using assms by (induction xs ys rule: list_all2_induct) auto

lemma list_all2_eq_when:
  assumes "list_all2 R xs ys" "\<And>x y. x \<in> set xs \<Longrightarrow> R x y \<Longrightarrow> x = y"
  shows "xs = ys"
  using assms by (induction xs ys rule: list_all2_induct) auto

end
