(* ===== verification/Byte_Codes.thy ===== *)
theory Byte_Codes
  imports Ficant_Prelude
begin

text \<open>
  What makes the canonical encodings of the program identities: an encoding determines a part
  of the value it encodes (its \<open>content\<close>) and where it ends, whatever bytes follow. The locale
  \<open>determines\<close> states this; its instances compose, so the injectivity of each canonical byte
  string follows from the order of its fields.

  The bound \<open>usize_limit\<close> on the total length is the one every Rust \<open>Vec<u8>\<close> satisfies; it
  keeps the 64-bit length prefixes exact.
\<close>

section \<open>Encodings that determine a content\<close>

locale determines =
  fixes enc :: "'a \<Rightarrow> bytes" and content :: "'a \<Rightarrow> 'b"
  assumes splits:
    "enc x @ r = enc y @ s \<Longrightarrow> length (enc x @ r) < usize_limit \<Longrightarrow> content x = content y \<and> r = s"
begin

lemma content_eq: "enc x = enc y \<Longrightarrow> length (enc x) < usize_limit \<Longrightarrow> content x = content y"
  using splits [of x "[]" y "[]"] by simp

lemma weaken:
  assumes "\<And>x y. content x = content y \<Longrightarrow> f x = f y"
  shows "determines enc f"
  by unfold_locales (use splits assms in blast)

lemma precompose: "determines (\<lambda>x. enc (f x)) (\<lambda>x. content (f x))"
  by unfold_locales (use splits in blast)

lemma after: "determines (\<lambda>x. c @ enc x) content"
  by unfold_locales (use splits in auto)

lemma followed_by:
  assumes "determines b g"
  shows "determines (\<lambda>x. enc x @ b x) (\<lambda>x. (content x, g x))"
proof
  fix x r y s
  assume eq: "(enc x @ b x) @ r = (enc y @ b y) @ s"
    and len: "length ((enc x @ b x) @ r) < usize_limit"
  then have "content x = content y \<and> b x @ r = b y @ s" using splits by simp
  moreover have "length (b x @ r) < usize_limit" using len by simp
  ultimately show "(content x, g x) = (content y, g y) \<and> r = s"
    using determines.splits [OF assms, of x r y s] by simp
qed

end

text \<open>A prefix code determines the whole value.\<close>

abbreviation prefix_code :: "('a \<Rightarrow> bytes) \<Rightarrow> bool" where
  "prefix_code enc \<equiv> determines enc (\<lambda>x. x)"

named_theorems code_intros \<open>encodings that determine their content\<close>

lemma determines_append [code_intros]:
  "determines a f \<Longrightarrow> determines b g \<Longrightarrow> determines (\<lambda>x. a x @ b x) (\<lambda>x. (f x, g x))"
  by (rule determines.followed_by)

lemma determines_const [code_intros]: "determines (\<lambda>x. c) (\<lambda>x. ())"
  by unfold_locales auto

lemma prefix_code_inject:
  "prefix_code e \<Longrightarrow> e x = e y \<Longrightarrow> length (e x) < usize_limit \<Longrightarrow> x = y"
  by (rule determines.content_eq)

lemma prefix_code_of: "prefix_code e \<Longrightarrow> determines (\<lambda>x. e (f x)) f"
  by (rule determines.precompose)

lemma prefix_code_fixed:
  assumes "\<And>x. length (e x) = n" and "\<And>x y. e x = e y \<Longrightarrow> x = y"
  shows "prefix_code e"
proof
  fix x r y s
  assume "e x @ r = e y @ s"
  then have "e x = e y \<and> r = s" using assms(1) by (simp add: append_eq_append_conv)
  with assms(2) show "x = y \<and> r = s" by blast
qed

lemma determines_byte [code_intros]: "determines (\<lambda>x. [f x :: byte]) f"
  by unfold_locales auto

lemma determines_u16 [code_intros]: "determines (\<lambda>x. to_be_bytes (f x :: u16)) f"
  by (rule prefix_code_of, rule prefix_code_fixed [where n = 2]) simp_all

lemma determines_u32 [code_intros]: "determines (\<lambda>x. to_be_bytes (f x :: u32)) f"
  by (rule prefix_code_of, rule prefix_code_fixed [where n = 4]) simp_all

lemma determines_u64 [code_intros]: "determines (\<lambda>x. to_be_bytes (f x :: u64)) f"
  by (rule prefix_code_of, rule prefix_code_fixed [where n = 8]) simp_all

lemma determines_u128 [code_intros]: "determines (\<lambda>x. to_be_bytes (f x :: u128)) f"
  by (rule prefix_code_of, rule prefix_code_fixed [where n = 16]) simp_all

section \<open>Length prefixes, counted sequences, options\<close>

text \<open>\<open>push_u64\<close> is what \<open>push_u64(&mut bytes, value)\<close> appends, and so on.\<close>

definition push_u64 :: "u64 \<Rightarrow> bytes" where
  "push_u64 v = to_be_bytes v"

definition push_bytes :: "bytes \<Rightarrow> bytes" where
  "push_bytes bs = push_u64 (word_of_nat (length bs)) @ bs"

definition push_str :: "string \<Rightarrow> bytes" where
  "push_str s = push_u64 (word_of_nat (length s)) @ as_bytes s"

text \<open>A count followed by the encodings of the elements, in order.\<close>

definition push_each :: "('a \<Rightarrow> bytes) \<Rightarrow> 'a list \<Rightarrow> bytes" where
  "push_each e xs = push_u64 (word_of_nat (length xs)) @ concat (map e xs)"

definition push_optional :: "('a \<Rightarrow> bytes) \<Rightarrow> 'a option \<Rightarrow> bytes" where
  "push_optional e v = (case v of Some x \<Rightarrow> 1 # e x | None \<Rightarrow> [0])"

lemma length_push_u64 [simp]: "length (push_u64 v) = 8"
  by (simp add: push_u64_def)

lemma length_push_each: "length (push_each e xs) = 8 + sum_list (map (\<lambda>x. length (e x)) xs)"
  by (simp add: push_each_def length_concat comp_def)

lemma push_u64_inject [simp]: "push_u64 v = push_u64 w \<longleftrightarrow> v = w"
  by (simp add: push_u64_def)

lemma determines_push_u64 [code_intros]: "determines (\<lambda>x. push_u64 (f x)) f"
  unfolding push_u64_def by (rule determines_u64)

lemma push_u64_append_eq [simp]:
  "push_u64 v @ r = push_u64 w @ s \<longleftrightarrow> v = w \<and> r = s"
  by (simp add: append_eq_append_conv)

lemma prefix_code_push_bytes: "prefix_code push_bytes"
proof
  fix x r y s
  assume eq: "push_bytes x @ r = push_bytes y @ s"
    and len: "length (push_bytes x @ r) < usize_limit"
  have "length (push_bytes y @ s) < usize_limit" using eq len by metis
  with len have "length x < usize_limit" "length y < usize_limit"
    by (simp_all add: push_bytes_def)
  moreover have "(word_of_nat (length x) :: u64) = word_of_nat (length y)" and app: "x @ r = y @ s"
    using eq by (simp_all add: push_bytes_def)
  ultimately have "length x = length y" using word64_of_nat_inject by blast
  with app show "x = y \<and> r = s" by simp
qed

lemma push_str_push_bytes: "push_str s = push_bytes (as_bytes s)"
  by (simp add: push_str_def push_bytes_def)

lemma determines_push_bytes [code_intros]: "determines (\<lambda>x. push_bytes (f x)) f"
  by (rule prefix_code_of) (rule prefix_code_push_bytes)

lemma prefix_code_push_str: "prefix_code push_str"
  unfolding push_str_push_bytes
  by (rule determines.weaken [OF determines_push_bytes]) simp

lemma determines_push_str [code_intros]: "determines (\<lambda>x. push_str (f x)) f"
  by (rule prefix_code_of) (rule prefix_code_push_str)

lemma length_push_bytes [simp]: "length (push_bytes bs) = 8 + length bs"
  by (simp add: push_bytes_def)

lemma length_push_str [simp]: "length (push_str s) = 8 + length s"
  by (simp add: push_str_def)

lemma push_nonempty [simp]: "push_bytes bs \<noteq> []" "push_str s \<noteq> []"
  by (rule notI, drule arg_cong [of _ _ length], simp)+

text \<open>
  Elements one after the other: with as many on both sides, a prefix code separates them. The
  count makes the number known; that no element is empty bounds it by the length.
\<close>

lemma concat_prefix_code:
  assumes "prefix_code e"
  shows "length xs = length ys \<Longrightarrow> concat (map e xs) @ r = concat (map e ys) @ s \<Longrightarrow>
    length (concat (map e xs) @ r) < usize_limit \<Longrightarrow> xs = ys \<and> r = s"
proof (induction xs ys rule: list_induct2)
  case Nil
  then show ?case by simp
next
  case (Cons x xs y ys)
  from Cons.prems have "e x @ (concat (map e xs) @ r) = e y @ (concat (map e ys) @ s)"
    and len: "length (e x @ (concat (map e xs) @ r)) < usize_limit" by simp_all
  then have "x = y" and rest: "concat (map e xs) @ r = concat (map e ys) @ s"
    using determines.splits [OF assms] by blast+
  moreover have "length (concat (map e xs) @ r) < usize_limit" using len by simp
  ultimately show ?case using Cons.IH by simp
qed

lemma length_concat_nonempty:
  "(\<And>x. e x \<noteq> []) \<Longrightarrow> length xs \<le> length (concat (map e xs))"
proof (induction xs)
  case (Cons x xs)
  from Cons.prems have "Suc 0 \<le> length (e x)" by (simp add: Suc_le_eq)
  moreover have "length xs \<le> length (concat (map e xs))" using Cons by blast
  ultimately show ?case unfolding list.map concat.simps length_append list.size by linarith
qed simp

text \<open>The count may itself be written by any code of a 64-bit value.\<close>

lemma prefix_code_counted:
  assumes c: "prefix_code c" and e: "prefix_code e" and ne: "\<And>x. e x \<noteq> []"
  shows "prefix_code (\<lambda>xs. c (word_of_nat (length xs) :: u64) @ concat (map e xs))"
proof
  fix xs r ys s
  let ?enc = "\<lambda>xs. c (word_of_nat (length xs) :: u64) @ concat (map e xs)"
  assume eq: "?enc xs @ r = ?enc ys @ s" and len: "length (?enc xs @ r) < usize_limit"
  have len2: "length (?enc ys @ s) < usize_limit" using eq len by metis
  have "(word_of_nat (length xs) :: u64) = word_of_nat (length ys)"
    and app: "concat (map e xs) @ r = concat (map e ys) @ s"
    using determines.splits [OF c] eq len by (metis append.assoc)+
  moreover have "length xs < usize_limit" "length ys < usize_limit"
    using len len2 length_concat_nonempty [of e, OF ne, of xs]
      length_concat_nonempty [of e, OF ne, of ys] by simp_all
  ultimately have "length xs = length ys" using word64_of_nat_inject by blast
  moreover have "length (concat (map e xs) @ r) < usize_limit" using len by simp
  ultimately show "xs = ys \<and> r = s" using concat_prefix_code [OF e] app by blast
qed

lemma prefix_code_push_each:
  assumes "prefix_code e" and "\<And>x. e x \<noteq> []"
  shows "prefix_code (push_each e)"
  unfolding push_each_def
  by (rule prefix_code_counted [OF _ assms]) (rule determines_push_u64)

text \<open>Elements written through a projection: the sequence of projections is determined.\<close>

lemma determines_push_each_of:
  assumes "prefix_code e" and "\<And>x. e x \<noteq> []"
  shows "determines (\<lambda>x. push_each (\<lambda>y. e (f y)) (g x)) (\<lambda>x. map f (g x))"
proof -
  have "push_each (\<lambda>y. e (f y)) ys = push_each e (map f ys)" for ys
    by (simp add: push_each_def comp_def)
  then show ?thesis
    using prefix_code_of [OF prefix_code_push_each [OF assms]] by simp
qed

lemma prefix_code_push_optional:
  assumes "prefix_code e"
  shows "prefix_code (push_optional e)"
proof
  fix x r y s
  assume eq: "push_optional e x @ r = push_optional e y @ s"
    and len: "length (push_optional e x @ r) < usize_limit"
  show "x = y \<and> r = s"
  proof (cases x; cases y)
    fix a b
    assume xy: "x = Some a" "y = Some b"
    then have "e a @ r = e b @ s" "length (e a @ r) < usize_limit"
      using eq len by (simp_all add: push_optional_def)
    with xy show ?thesis using determines.splits [OF assms] by blast
  qed (use eq in \<open>simp_all add: push_optional_def\<close>)
qed

text \<open>An optional part behind a tag that is itself a length-prefixed field.\<close>

lemma determines_tagged_option:
  assumes e: "determines e c"
  shows "determines (\<lambda>x. case f x of Some v \<Rightarrow> push_bytes [1] @ e v | None \<Rightarrow> push_bytes [0])
    (\<lambda>x. map_option c (f x))"
proof
  fix x r y s
  let ?enc = "\<lambda>x. case f x of Some v \<Rightarrow> push_bytes [1] @ e v | None \<Rightarrow> push_bytes [0]"
  assume eq: "?enc x @ r = ?enc y @ s" and len: "length (?enc x @ r) < usize_limit"
  show "map_option c (f x) = map_option c (f y) \<and> r = s"
  proof (cases "f x"; cases "f y")
    fix v w assume xy: "f x = Some v" "f y = Some w"
    then have "e v @ r = e w @ s" "length (e v @ r) < usize_limit" using eq len by simp_all
    then have "c v = c w \<and> r = s" by (rule determines.splits [OF e])
    with xy show ?thesis by simp
  qed (use eq in \<open>simp_all add: push_bytes_def\<close>)
qed

text \<open>
  Sequences without a count: a prefix code separates the elements, and they end where no element
  starts. \<open>T\<close> are the possible tails.
\<close>

lemma sequence_then_tail:
  assumes e: "prefix_code e" and T: "\<And>x r. e x @ r \<notin> T"
  shows "concat (map e xs) @ r = concat (map e ys) @ s \<Longrightarrow> r \<in> T \<Longrightarrow> s \<in> T \<Longrightarrow>
    length (concat (map e xs) @ r) < usize_limit \<Longrightarrow> xs = ys \<and> r = s"
proof (induction xs arbitrary: ys)
  case Nil
  then show ?case using T by (cases ys) auto
next
  case (Cons x xs)
  then obtain y zs where ys: "ys = y # zs" using T by (cases ys) auto
  have eq: "e x @ (concat (map e xs) @ r) = e y @ (concat (map e zs) @ s)"
    and len: "length (e x @ (concat (map e xs) @ r)) < usize_limit"
    using Cons.prems ys by simp_all
  then have "x = y" and rest: "concat (map e xs) @ r = concat (map e zs) @ s"
    using determines.splits [OF e] by blast+
  moreover have "length (concat (map e xs) @ r) < usize_limit" using len by simp
  ultimately show ?case using Cons.IH [OF rest] Cons.prems ys by blast
qed

text \<open>A first field of another length makes two encodings different.\<close>

lemma push_bytes_neq:
  assumes "length a \<noteq> length b" "length (push_bytes a @ r) < usize_limit"
  shows "push_bytes a @ r \<noteq> push_bytes b @ s"
proof
  assume "push_bytes a @ r = push_bytes b @ s"
  then have "a = b" using determines.splits [OF prefix_code_push_bytes] assms(2) by blast
  with assms(1) show False by simp
qed

text \<open>A part with a fixed final part: two encodings of one type that start differently.\<close>

lemma append_tagged_neq: "length a = length b \<Longrightarrow> a \<noteq> b \<Longrightarrow> a @ r \<noteq> b @ s"
  by (simp add: append_eq_append_conv)

section \<open>Sequences of blocks\<close>

text \<open>
  Where every field is length-prefixed, the bytes are a sequence of blocks, and equal bytes are
  equal sequences.
\<close>

lemma blocks_inject:
  assumes "concat (map push_bytes xs) = concat (map push_bytes ys)"
    and "length (concat (map push_bytes xs)) < usize_limit"
  shows "xs = ys"
  using sequence_then_tail [OF prefix_code_push_bytes, of "{[]}" xs "[]" ys "[]"] assms by simp

lemma concat_map_concat: "concat (map f (concat (map g xs))) = concat (map (\<lambda>x. concat (map f (g x))) xs)"
  by (induction xs) simp_all

text \<open>
  Elements of a fixed number of blocks, one after the other without a count: they end where no
  element starts (\<open>S\<close> recognises a start, among the possible rests \<open>R\<close>).
\<close>

lemma block_sequence:
  assumes inj: "inj_on e A" and len: "\<And>x. length (e x) = n"
    and step: "\<And>x r. R r \<Longrightarrow> R (e x @ r) \<and> S (e x @ r)"
    and tails: "R r" "\<not> S r" "R s" "\<not> S s"
  shows "set xs \<subseteq> A \<Longrightarrow> set ys \<subseteq> A \<Longrightarrow> concat (map e xs) @ r = concat (map e ys) @ s \<Longrightarrow> xs = ys \<and> r = s"
proof (induction xs arbitrary: ys)
  have rests: "R (concat (map e xs) @ t)" if "R t" for xs t
    using that by (induction xs) (simp_all add: step)
  have starts: "S (concat (map e (x # xs)) @ t)" if "R t" for x xs t
    using step [of "concat (map e xs) @ t" x] rests [OF that, of xs] by simp
  {
    case Nil
    then show ?case using starts [OF tails(3)] tails(2) by (cases ys) auto
  next
    case (Cons x xs)
    then obtain y zs where ys: "ys = y # zs"
      using starts [OF tails(1), of x xs] tails(4) by (cases ys) auto
    have "e x @ (concat (map e xs) @ r) = e y @ (concat (map e zs) @ s)" using Cons.prems(3) ys by simp
    then have "e x = e y" and "concat (map e xs) @ r = concat (map e zs) @ s"
      using len by (simp_all add: append_eq_append_conv)
    with Cons inj show ?case by (auto simp: ys dest: inj_onD)
  }
qed

end
