(* ===== verification/Primitives.thy ===== *)
theory Primitives
  imports Byte_Codes
begin

text \<open>
  The validated values of \<open>ficant-domain/src/primitives\<close> and the error codes of
  \<open>ficant-domain/src/lib.rs\<close>: content hashes, ULIDs, versions, lineage references, market
  times. Code outside the repository enters as parameters: the SHA-256 function of the \<open>sha2\<close>
  crate, parsing followed by printing of the \<open>ulid\<close> crate, and the time zone database of
  \<open>chrono_tz\<close>.
\<close>

section \<open>Errors\<close>

datatype domain_error_code =
    InvalidId
  | InvalidUnit
  | InvalidEffectiveTime
  | VersionConflict
  | ContentHashMismatch
  | BrokenLineage
  | InvalidStateTransition
  | JournalSequenceConflict
  | InvalidValue

type_synonym 'a domain_result = "('a, domain_error_code) result"

section \<open>Content hashes\<close>

typedef content_hash = "{bs :: bytes. length bs = 32}"
  morphisms hash_bytes Content_Hash
proof
  show "replicate 32 0 \<in> {bs :: bytes. length bs = 32}" by simp
qed

text \<open>\<open>ContentHash::digest\<close> is the parameter \<open>sha256\<close> of every definition that hashes.\<close>

type_synonym sha256_fn = "bytes \<Rightarrow> content_hash"

lemma length_hash_bytes [simp]: "length (hash_bytes h) = 32"
  using hash_bytes [of h] by simp

lemma hash_bytes_eq [simp]: "hash_bytes g = hash_bytes h \<longleftrightarrow> g = h"
  by (rule hash_bytes_inject)

lemma hash_bytes_of [simp]: "length bs = 32 \<Longrightarrow> hash_bytes (Content_Hash bs) = bs"
  by (simp add: Content_Hash_inverse)

lemma Content_Hash_of [simp]: "Content_Hash (hash_bytes h) = h"
  by (rule hash_bytes_inverse)

instantiation content_hash :: equal
begin

definition equal_content_hash :: "content_hash \<Rightarrow> content_hash \<Rightarrow> bool" where
  "equal_content_hash g h \<longleftrightarrow> hash_bytes g = hash_bytes h"

instance
  by standard (simp add: equal_content_hash_def)

end

instantiation content_hash :: linorder
begin

definition less_eq_content_hash :: "content_hash \<Rightarrow> content_hash \<Rightarrow> bool" where
  "less_eq_content_hash g h \<longleftrightarrow> hash_bytes g \<le> hash_bytes h"

definition less_content_hash :: "content_hash \<Rightarrow> content_hash \<Rightarrow> bool" where
  "less_content_hash g h \<longleftrightarrow> hash_bytes g < hash_bytes h"

instance
  by standard (auto simp: less_eq_content_hash_def less_content_hash_def less_le)

end

definition content_hash_from_bytes :: "bytes \<Rightarrow> content_hash domain_result" where
  "content_hash_from_bytes bs =
     (if length bs = 32 then Ok (Content_Hash bs) else Err ContentHashMismatch)"

definition content_hash_verify :: "sha256_fn \<Rightarrow> content_hash \<Rightarrow> bytes \<Rightarrow> unit domain_result" where
  "content_hash_verify sha256 self bs =
     (if sha256 bs \<noteq> self then Err ContentHashMismatch else Ok ())"

definition zero_hash :: content_hash where
  "zero_hash = Content_Hash (replicate 32 0)"

definition collision :: "sha256_fn \<Rightarrow> bytes \<Rightarrow> bytes \<Rightarrow> bool" where
  "collision sha256 a b \<longleftrightarrow> a \<noteq> b \<and> sha256 a = sha256 b"

lemma content_hash_from_hash_bytes [simp]: "content_hash_from_bytes (hash_bytes h) = Ok h"
  by (simp add: content_hash_from_bytes_def)

lemma content_hash_from_bytes_Ok [result_simps]:
  "content_hash_from_bytes bs = Ok h \<longleftrightarrow> bs = hash_bytes h"
  by (auto simp: content_hash_from_bytes_def split: if_splits)

lemma determines_hash_bytes [code_intros]: "determines (\<lambda>x. hash_bytes (f x)) f"
  by (rule prefix_code_of, rule prefix_code_fixed [where n = 32]) simp_all

section \<open>Identifiers and versions\<close>

datatype ulid = Ulid (ulid_str: string)

instantiation ulid :: linorder
begin

definition less_eq_ulid :: "ulid \<Rightarrow> ulid \<Rightarrow> bool" where
  "less_eq_ulid a b \<longleftrightarrow> ulid_str a \<le> ulid_str b"

definition less_ulid :: "ulid \<Rightarrow> ulid \<Rightarrow> bool" where
  "less_ulid a b \<longleftrightarrow> ulid_str a < ulid_str b"

instance
  by standard (auto simp: less_eq_ulid_def less_ulid_def intro: ulid.expand)

end

text \<open>
  \<open>ulid_reparse s\<close> is \<open>s.parse::<ulid::Ulid>()\<close> followed by \<open>to_string()\<close>; \<open>None\<close> when parsing
  fails.
\<close>

definition ulid_new :: "(string \<Rightarrow> string option) \<Rightarrow> string \<Rightarrow> ulid domain_result" where
  "ulid_new ulid_reparse s =
     (case ulid_reparse s of
        None \<Rightarrow> Err InvalidId
      | Some parsed \<Rightarrow>
          if length s \<noteq> 26 \<or> \<not> is_ascii s \<or> parsed \<noteq> s then Err InvalidId else Ok (Ulid s))"

record owner_ref =
  tenant_id :: ulid
  owner_id :: ulid

datatype version = Version (version_get: u64)

instantiation version :: linorder
begin

definition less_eq_version :: "version \<Rightarrow> version \<Rightarrow> bool" where
  "less_eq_version a b \<longleftrightarrow> version_get a \<le> version_get b"

definition less_version :: "version \<Rightarrow> version \<Rightarrow> bool" where
  "less_version a b \<longleftrightarrow> version_get a < version_get b"

instance
  by standard (auto simp: less_eq_version_def less_version_def intro: version.expand)

end

definition version_new :: "u64 \<Rightarrow> version domain_result" where
  "version_new v = (if v = 0 then Err VersionConflict else Ok (Version v))"

record version_ref =
  vr_id :: ulid
  vr_version :: version

text \<open>\<open>u64::checked_add\<close>.\<close>

definition checked_add_u64 :: "u64 \<Rightarrow> u64 \<Rightarrow> u64 option" where
  "checked_add_u64 a b = (if unat a + unat b < 2 ^ 64 then Some (a + b) else None)"

definition ensure_next_version :: "ulid \<Rightarrow> version \<Rightarrow> ulid \<Rightarrow> version \<Rightarrow> unit domain_result" where
  "ensure_next_version current_identity current_version candidate_identity candidate_version =
     (case checked_add_u64 (version_get current_version) 1 of
        None \<Rightarrow> Err VersionConflict
      | Some expected_version \<Rightarrow>
          if current_identity \<noteq> candidate_identity
            \<or> version_get candidate_version \<noteq> expected_version
          then Err VersionConflict else Ok ())"

section \<open>Lineage references\<close>

record lineage_ref =
  lr_object_id :: ulid
  lr_version :: "version option"
  lr_content_hash :: "content_hash option"

definition lineage_ref_new ::
  "ulid \<Rightarrow> version option \<Rightarrow> content_hash option \<Rightarrow> lineage_ref domain_result" where
  "lineage_ref_new object_id version content_hash =
     (if version = None \<and> content_hash = None then Err BrokenLineage
      else Ok \<lparr>lr_object_id = object_id, lr_version = version, lr_content_hash = content_hash\<rparr>)"

definition lineage_ref_versioned :: "ulid \<Rightarrow> version \<Rightarrow> lineage_ref" where
  "lineage_ref_versioned object_id version =
     \<lparr>lr_object_id = object_id, lr_version = Some version, lr_content_hash = None\<rparr>"

definition lineage_ref_content_addressed :: "ulid \<Rightarrow> content_hash \<Rightarrow> lineage_ref" where
  "lineage_ref_content_addressed object_id content_hash =
     \<lparr>lr_object_id = object_id, lr_version = None, lr_content_hash = Some content_hash\<rparr>"

section \<open>Market time\<close>

text \<open>
  A \<open>chrono::DateTime<Utc>\<close> is the seconds since the epoch (\<open>timestamp\<close>, an \<open>i64\<close>) and the
  nanoseconds within the second; it is ordered by the instant. A \<open>chrono::NaiveDate\<close> is a year
  (\<open>i32\<close>), a month and a day; the last two always fit a byte.
\<close>

datatype utc_instant =
  UtcInstant (timestamp: i64) (timestamp_subsec_nanos: u32)

instantiation utc_instant :: linorder
begin

definition less_eq_utc_instant :: "utc_instant \<Rightarrow> utc_instant \<Rightarrow> bool" where
  "less_eq_utc_instant a b \<longleftrightarrow>
     (sint (timestamp a), timestamp_subsec_nanos a) \<le> (sint (timestamp b), timestamp_subsec_nanos b)"

definition less_utc_instant :: "utc_instant \<Rightarrow> utc_instant \<Rightarrow> bool" where
  "less_utc_instant a b \<longleftrightarrow>
     (sint (timestamp a), timestamp_subsec_nanos a) < (sint (timestamp b), timestamp_subsec_nanos b)"

instance
proof
  fix a b c :: utc_instant
  show "a < b \<longleftrightarrow> a \<le> b \<and> \<not> b \<le> a"
    unfolding less_eq_utc_instant_def less_utc_instant_def by (rule less_le_not_le)
  show "a \<le> a" unfolding less_eq_utc_instant_def by simp
  show "a \<le> c" if "a \<le> b" "b \<le> c"
    using that unfolding less_eq_utc_instant_def by (rule order_trans)
  show "a = b" if "a \<le> b" "b \<le> a"
  proof -
    have "(sint (timestamp a), timestamp_subsec_nanos a) = (sint (timestamp b), timestamp_subsec_nanos b)"
      using that unfolding less_eq_utc_instant_def by (rule order_antisym)
    then show "a = b" by (auto intro: utc_instant.expand simp: signed_word_eqI)
  qed
  show "a \<le> b \<or> b \<le> a" unfolding less_eq_utc_instant_def by (rule linear)
qed

end

datatype naive_date = NaiveDate (nd_year: i32) (nd_month: u8) (nd_day: u8)

record market_time =
  mt_instant :: utc_instant
  mt_timezone :: string
  mt_local_date :: naive_date

text \<open>
  \<open>tz_parse\<close> is \<open>parse::<Tz>()\<close> followed by \<open>name()\<close>; \<open>local_date tz i\<close> is the date of the
  instant \<open>i\<close> in the zone \<open>tz\<close>.
\<close>

definition market_time_new ::
  "(string \<Rightarrow> string option) \<Rightarrow> (string \<Rightarrow> utc_instant \<Rightarrow> naive_date) \<Rightarrow>
   utc_instant \<Rightarrow> string \<Rightarrow> naive_date \<Rightarrow> market_time domain_result" where
  "market_time_new tz_parse local_date instant market_timezone local_trading_date =
     (case tz_parse market_timezone of
        None \<Rightarrow> Err InvalidEffectiveTime
      | Some timezone \<Rightarrow>
          if local_date timezone instant \<noteq> local_trading_date then Err InvalidEffectiveTime
          else Ok \<lparr>mt_instant = instant, mt_timezone = timezone, mt_local_date = local_trading_date\<rparr>)"

record effective_period =
  ep_from :: market_time
  ep_to :: market_time

definition effective_period_new :: "market_time \<Rightarrow> market_time \<Rightarrow> effective_period domain_result" where
  "effective_period_new from to =
     (if mt_instant to \<le> mt_instant from then Err InvalidEffectiveTime
      else Ok \<lparr>ep_from = from, ep_to = to\<rparr>)"

section \<open>Facts about the primitives\<close>

lemma version_get_eq [simp]: "version_get v = version_get w \<longleftrightarrow> v = w"
  by (auto intro: version.expand)

lemma ulid_str_eq [simp]: "ulid_str a = ulid_str b \<longleftrightarrow> a = b"
  by (auto intro: ulid.expand)

lemma market_time_eqI:
  "timestamp (mt_instant a) = timestamp (mt_instant b) \<Longrightarrow>
   timestamp_subsec_nanos (mt_instant a) = timestamp_subsec_nanos (mt_instant b) \<Longrightarrow>
   mt_timezone a = mt_timezone b \<Longrightarrow> mt_local_date a = mt_local_date b \<Longrightarrow> a = (b :: market_time)"
  by (cases a; cases b) (auto intro: utc_instant.expand)

lemma ulid_new_Ok [result_simps]:
  "ulid_new p s = Ok u \<longleftrightarrow> u = Ulid s \<and> p s = Some s \<and> length s = 26 \<and> is_ascii s"
  by (auto simp: ulid_new_def split: option.splits if_splits)

text \<open>A ULID as its constructor leaves it, for the parser \<open>p\<close>.\<close>

definition ulid_ok :: "(string \<Rightarrow> string option) \<Rightarrow> ulid \<Rightarrow> bool" where
  "ulid_ok p u \<longleftrightarrow> ulid_new p (ulid_str u) = Ok u"

lemma ulid_ok_iff:
  "ulid_ok p u \<longleftrightarrow> p (ulid_str u) = Some (ulid_str u) \<and> length (ulid_str u) = 26 \<and> is_ascii (ulid_str u)"
  by (cases u) (auto simp: ulid_ok_def ulid_new_Ok)

lemma checked_add_u64_Some [result_simps]:
  "checked_add_u64 a b = Some c \<longleftrightarrow> unat a + unat b < 2 ^ 64 \<and> unat c = unat a + unat b"
proof -
  have "unat (a + b) = unat a + unat b" if "unat a + unat b < 2 ^ 64"
    using that unat_add_lem [of a b] by simp
  then show ?thesis
    by (auto simp: checked_add_u64_def intro: unsigned_word_eqI [where 'a = nat])
qed

lemma ensure_next_version_Ok [result_simps]:
  "ensure_next_version i v j w = Ok u \<longleftrightarrow> i = j \<and> unat (version_get w) = unat (version_get v) + 1"
proof (cases "checked_add_u64 (version_get v) 1")
  case None
  then show ?thesis
    using unat_bound [of "version_get w"]
    by (auto simp: ensure_next_version_def checked_add_u64_def split: if_splits)
next
  case (Some c)
  then have "unat c = unat (version_get v) + 1" by (simp add: result_simps)
  then have "version_get w = c \<longleftrightarrow> unat (version_get w) = unat (version_get v) + 1"
    by (metis unsigned_word_eqI)
  with Some show ?thesis by (auto simp: ensure_next_version_def)
qed

section \<open>Content-addressed objects\<close>

text \<open>
  The contract of the objects that carry a content hash: the constructor accepts an input only
  with the hash of its canonical bytes, and these bytes fix the object. Then the hash identifies
  the object up to a collision.
\<close>

locale hash_addressed =
  fixes build :: "sha256_fn \<Rightarrow> 'i \<Rightarrow> 'o domain_result"
    and enc :: "'i \<Rightarrow> bytes" and hash :: "'o \<Rightarrow> content_hash"
  assumes hash_of: "build sha256 i = Ok v \<Longrightarrow> hash v = sha256 (enc i)"
    and enc_fixes: "build sha256 i = Ok v \<Longrightarrow> build sha256 j = Ok w \<Longrightarrow> enc i = enc j \<Longrightarrow>
      length (enc i) < usize_limit \<Longrightarrow> v = w"
begin

lemma hash_identifies:
  assumes "build sha256 i = Ok v" "build sha256 j = Ok w" "hash v = hash w" "length (enc i) < usize_limit"
  shows "v = w \<or> collision sha256 (enc i) (enc j)"
proof (cases "enc i = enc j")
  case True
  then show ?thesis using enc_fixes assms by blast
next
  case False
  then show ?thesis using hash_of assms unfolding collision_def by metis
qed

end

text \<open>What is left to show when the canonical bytes determine a content of the input.\<close>

lemma hash_addressedI:
  fixes build :: "sha256_fn \<Rightarrow> 'i \<Rightarrow> 'o domain_result"
  assumes code: "determines enc content"
    and hash: "\<And>sha256 i v. build sha256 i = Ok v \<Longrightarrow> hash v = sha256 (enc i)"
    and content: "\<And>sha256 i v j w. build sha256 i = Ok v \<Longrightarrow> build sha256 j = Ok w \<Longrightarrow>
      content i = content j \<Longrightarrow> hash v = hash w \<Longrightarrow> v = w"
  shows "hash_addressed build enc hash"
proof
  show "hash v = sha256 (enc i)" if "build sha256 i = Ok v" for sha256 i v using hash that by blast
  show "v = w" if acc: "build sha256 i = Ok v" "build sha256 j = Ok w" and eq: "enc i = enc j"
    and len: "length (enc i) < usize_limit" for sha256 i v j w
    using content acc determines.content_eq [OF code eq len] hash eq by metis
qed

text \<open>A text form of dates with the property the encodings rely on: different dates, different text.\<close>

definition sample_date_text :: "naive_date \<Rightarrow> string" where
  "sample_date_text d = string_of_bytes (to_be_bytes (nd_year d) @ [nd_month d, nd_day d])"

lemma string_of_bytes_inject: "string_of_bytes a = string_of_bytes b \<longleftrightarrow> a = b"
  by (metis as_bytes_of_string)

lemma inj_sample_date_text: "inj sample_date_text"
  by (rule injI) (auto simp: sample_date_text_def string_of_bytes_inject append_eq_append_conv intro: naive_date.expand)

end
