(* ===== verification/Node_Contract.thy ===== *)
theory Node_Contract
  imports Primitives
begin

text \<open>
  Research node contracts (\<open>ficant-domain/src/research/research_graph.rs\<close>, first part): symbols,
  typed ports, resource limits and permissions, the canonical form of a contract and its digest.
  The theory shows that the constructor is insensitive to the order of ports and invariants, that
  port lookup by binary search finds exactly the declared ports, and that the digest identifies
  the contract up to a collision of the hash function.
\<close>

section \<open>Data\<close>

datatype determinism_class = Deterministic | Seeded

datatype filesystem_permission = NoFilesystem | TemporaryOnly

record node_permissions =
  np_network :: bool
  np_database :: bool
  np_filesystem :: filesystem_permission

record resource_limits =
  rl_cpu_cores :: u16
  rl_memory_mb :: u32
  rl_timeout_seconds :: u32

record typed_value =
  tv_type_id :: string
  tv_type_version :: version
  tv_schema_hash :: content_hash

record port_type =
  pt_port_name :: string
  pt_value_type :: typed_value

record research_node_contract =
  ct_contract_id :: string
  ct_contract_version :: version
  ct_input_types :: "port_type list"
  ct_output_types :: "port_type list"
  ct_state_schema :: content_hash
  ct_parameter_schema :: content_hash
  ct_determinism_class :: determinism_class
  ct_permissions :: node_permissions
  ct_resource_limits :: resource_limits
  ct_required_invariants :: "string list"
  ct_digest :: content_hash

record research_node_contract_input =
  ci_contract_id :: string
  ci_contract_version :: version
  ci_input_types :: "port_type list"
  ci_output_types :: "port_type list"
  ci_state_schema :: content_hash
  ci_parameter_schema :: content_hash
  ci_determinism_class :: determinism_class
  ci_permissions :: node_permissions
  ci_resource_limits :: resource_limits
  ci_required_invariants :: "string list"

section \<open>Operations\<close>

definition is_alphanumeric :: "char \<Rightarrow> bool" where
  "is_alphanumeric c \<longleftrightarrow> is_ascii_lowercase c \<or> is_ascii_digit c"

definition ensure_symbol :: "string \<Rightarrow> unit domain_result" where
  "ensure_symbol value =
     (if value = [] \<or> length value > 128
        \<or> \<not> (value \<noteq> [] \<and> is_alphanumeric (hd value))
        \<or> \<not> (value \<noteq> [] \<and> is_alphanumeric (last value))
        \<or> \<not> list_all (\<lambda>byte. is_alphanumeric byte \<or> byte \<in> set ''._-'') value
      then Err InvalidValue else Ok ())"

definition resource_limits_new :: "u16 \<Rightarrow> u32 \<Rightarrow> u32 \<Rightarrow> resource_limits domain_result" where
  "resource_limits_new cpu_cores memory_mb timeout_seconds =
     (if cpu_cores = 0 \<or> memory_mb = 0 \<or> timeout_seconds = 0 then Err InvalidValue
      else Ok \<lparr>rl_cpu_cores = cpu_cores, rl_memory_mb = memory_mb,
               rl_timeout_seconds = timeout_seconds\<rparr>)"

definition typed_value_new :: "string \<Rightarrow> version \<Rightarrow> content_hash \<Rightarrow> typed_value domain_result" where
  "typed_value_new type_id type_version schema_hash =
     and_then (ensure_symbol type_id)
       (\<lambda>_. Ok \<lparr>tv_type_id = type_id, tv_type_version = type_version, tv_schema_hash = schema_hash\<rparr>)"

definition port_type_new :: "string \<Rightarrow> typed_value \<Rightarrow> port_type domain_result" where
  "port_type_new port_name value_type =
     and_then (ensure_symbol port_name)
       (\<lambda>_. Ok \<lparr>pt_port_name = port_name, pt_value_type = value_type\<rparr>)"

definition canonical_ports :: "port_type list \<Rightarrow> port_type list domain_result" where
  "canonical_ports ports =
     (let ports = sort_key pt_port_name ports in
      if windows2_any (\<lambda>a b. pt_port_name a = pt_port_name b) ports then Err InvalidValue
      else Ok ports)"

fun ensure_symbols :: "string list \<Rightarrow> unit domain_result" where
  "ensure_symbols [] = Ok ()"
| "ensure_symbols (v # vs) = and_then (ensure_symbol v) (\<lambda>_. ensure_symbols vs)"

definition canonical_symbols :: "string list \<Rightarrow> string list domain_result" where
  "canonical_symbols values =
     and_then (ensure_symbols values)
       (\<lambda>_. let values = sort values in
            if windows2_any (=) values then Err InvalidValue else Ok values)"

text \<open>
  \<open>slice::binary_search_by\<close> over the half-open range from \<open>lo\<close> to \<open>hi\<close>; the library promises
  the matching position in a slice sorted without repetition, which the lemmas below show.
\<close>

function binary_search :: "('a \<Rightarrow> 'k::linorder) \<Rightarrow> 'a list \<Rightarrow> 'k \<Rightarrow> nat \<Rightarrow> nat \<Rightarrow> nat option" where
  "binary_search key xs k lo hi =
     (if lo \<ge> hi then None
      else let mid = lo + (hi - lo) div 2 in
        if key (xs ! mid) = k then Some mid
        else if key (xs ! mid) < k then binary_search key xs k (Suc mid) hi
        else binary_search key xs k lo mid)"
  by pat_completeness auto
termination
  by (relation "measure (\<lambda>(key, xs, k, lo, hi). hi - lo)") auto

declare binary_search.simps [simp del]

definition port :: "port_type list \<Rightarrow> string \<Rightarrow> port_type domain_result" where
  "port ports name =
     (case binary_search pt_port_name ports name 0 (length ports) of
        Some index \<Rightarrow> Ok (ports ! index)
      | None \<Rightarrow> Err BrokenLineage)"

definition push_typed_value :: "typed_value \<Rightarrow> bytes" where
  "push_typed_value v =
     push_str (tv_type_id v) @ push_u64 (version_get (tv_type_version v)) @ hash_bytes (tv_schema_hash v)"

definition push_port :: "port_type \<Rightarrow> bytes" where
  "push_port p = push_str (pt_port_name p) @ push_typed_value (pt_value_type p)"

definition push_ports :: "port_type list \<Rightarrow> bytes" where
  "push_ports ports = push_each push_port ports"

definition bool_byte :: "bool \<Rightarrow> byte" where
  "bool_byte b = (if b then 1 else 0)"

fun determinism_byte :: "determinism_class \<Rightarrow> byte" where
  "determinism_byte Deterministic = 1"
| "determinism_byte Seeded = 2"

fun filesystem_byte :: "filesystem_permission \<Rightarrow> byte" where
  "filesystem_byte NoFilesystem = 1"
| "filesystem_byte TemporaryOnly = 2"

definition contract_canonical_bytes :: "research_node_contract \<Rightarrow> bytes" where
  "contract_canonical_bytes c =
     as_bytes ''ficant/research-node-contract/v1''
     @ push_str (ct_contract_id c)
     @ push_u64 (version_get (ct_contract_version c))
     @ push_ports (ct_input_types c)
     @ push_ports (ct_output_types c)
     @ hash_bytes (ct_state_schema c)
     @ hash_bytes (ct_parameter_schema c)
     @ [determinism_byte (ct_determinism_class c)]
     @ [bool_byte (np_network (ct_permissions c))]
     @ [bool_byte (np_database (ct_permissions c))]
     @ [filesystem_byte (np_filesystem (ct_permissions c))]
     @ to_be_bytes (rl_cpu_cores (ct_resource_limits c))
     @ to_be_bytes (rl_memory_mb (ct_resource_limits c))
     @ to_be_bytes (rl_timeout_seconds (ct_resource_limits c))
     @ push_each push_str (ct_required_invariants c)"

definition contract_new ::
  "sha256_fn \<Rightarrow> research_node_contract_input \<Rightarrow> research_node_contract domain_result" where
  "contract_new sha256 input =
     and_then (ensure_symbol (ci_contract_id input)) (\<lambda>_.
     if ci_output_types input = [] \<or> ci_required_invariants input = [] then Err InvalidValue
     else
       and_then (canonical_ports (ci_input_types input)) (\<lambda>input_types.
       and_then (canonical_ports (ci_output_types input)) (\<lambda>output_types.
       and_then (canonical_symbols (ci_required_invariants input)) (\<lambda>required_invariants.
       let result =
         \<lparr>ct_contract_id = ci_contract_id input,
          ct_contract_version = ci_contract_version input,
          ct_input_types = input_types,
          ct_output_types = output_types,
          ct_state_schema = ci_state_schema input,
          ct_parameter_schema = ci_parameter_schema input,
          ct_determinism_class = ci_determinism_class input,
          ct_permissions = ci_permissions input,
          ct_resource_limits = ci_resource_limits input,
          ct_required_invariants = required_invariants,
          ct_digest = sha256 (as_bytes ''uninitialized'')\<rparr>
       in Ok (result\<lparr>ct_digest := sha256 (contract_canonical_bytes result)\<rparr>)))))"

section \<open>Sorted port lists\<close>

definition ports_ok :: "port_type list \<Rightarrow> bool" where
  "ports_ok ports \<longleftrightarrow> sorted_wrt (<) (map pt_port_name ports)"

lemma canonical_ports_Ok [result_simps]:
  "canonical_ports ports = Ok ps \<longleftrightarrow> distinct (map pt_port_name ports) \<and> ps = sort_key pt_port_name ports"
  by (auto simp: canonical_ports_def Let_def windows2_any_sort_key)

lemma canonical_ports_ok: "canonical_ports ports = Ok ps \<Longrightarrow> ports_ok ps"
  by (simp add: result_simps ports_ok_def sorted_wrt_sort_key)

lemma canonical_ports_perm:
  assumes "mset ports = mset ports'"
  shows "canonical_ports ports = canonical_ports ports'"
proof -
  have "distinct (map pt_port_name ports) \<longleftrightarrow> distinct (map pt_port_name ports')"
    using assms by (metis mset_eq_imp_distinct_iff mset_map)
  then show ?thesis
    using sort_key_perm [OF assms, of pt_port_name]
    by (auto simp: canonical_ports_def Let_def windows2_any_sort_key)
qed

lemma ensure_symbols_eq:
  "ensure_symbols vs = (if \<forall>v \<in> set vs. ensure_symbol v = Ok () then Ok () else Err InvalidValue)"
  by (induction vs) (auto simp: ensure_symbol_def)

lemma canonical_symbols_Ok [result_simps]:
  "canonical_symbols vs = Ok ws \<longleftrightarrow>
     (\<forall>v \<in> set vs. ensure_symbol v = Ok ()) \<and> distinct vs \<and> ws = sort vs"
  using windows2_any_sort_key [of "\<lambda>x. x" vs]
  by (auto simp: canonical_symbols_def Let_def result_simps ensure_symbols_eq)

lemma canonical_symbols_perm:
  assumes "mset vs = mset ws"
  shows "canonical_symbols vs = canonical_symbols ws"
proof -
  have "set vs = set ws" using assms by (metis set_mset_mset)
  then have "ensure_symbols vs = ensure_symbols ws"
    by (simp add: ensure_symbols_eq)
  moreover have "sort vs = sort ws" using assms by (simp add: properties_for_sort)
  ultimately show ?thesis by (simp add: canonical_symbols_def)
qed

text \<open>The bisection returns a match and misses none in a strictly sorted slice.\<close>

lemma binary_search_sound:
  "binary_search key xs k lo hi = Some i \<Longrightarrow> lo \<le> i \<and> i < hi \<and> key (xs ! i) = k"
proof (induction key xs k lo hi rule: binary_search.induct)
  case (1 key xs k lo hi)
  then show ?case
    by (subst (asm) (3) binary_search.simps) (fastforce simp: Let_def split: if_splits)
qed

lemma binary_search_complete:
  assumes "sorted_wrt (<) (map key xs)" "hi \<le> length xs" "lo \<le> i" "i < hi"
  shows "binary_search key xs (key (xs ! i)) lo hi = Some i"
  using assms
proof (induction "hi - lo" arbitrary: lo hi rule: less_induct)
  case less
  define mid where "mid = lo + (hi - lo) div 2"
  have mid: "lo \<le> mid" "mid < hi" using less.prems by (auto simp: mid_def)
  have mono: "a < b \<Longrightarrow> b < length xs \<Longrightarrow> key (xs ! a) < key (xs ! b)" for a b
    using less.prems(1) sorted_wrt_nth_less [of "(<)" "map key xs" a b] by simp
  consider "i = mid" | "mid < i" | "i < mid" by linarith
  then show ?case
  proof cases
    case 1
    then show ?thesis using mid by (subst binary_search.simps) (simp add: Let_def flip: mid_def)
  next
    case 2
    then have "key (xs ! mid) < key (xs ! i)" using mono less.prems by simp
    then show ?thesis
      using less.hyps [of hi "Suc mid"] less.prems mid 2
      by (subst binary_search.simps) (auto simp: Let_def simp flip: mid_def)
  next
    case 3
    then have "key (xs ! i) < key (xs ! mid)" using mono less.prems mid by simp
    then show ?thesis
      using less.hyps [of mid lo] less.prems mid 3
      by (subst binary_search.simps) (auto simp: Let_def simp flip: mid_def)
  qed
qed

lemma port_Ok:
  assumes "ports_ok ports"
  shows "port ports name = Ok p \<longleftrightarrow> p \<in> set ports \<and> pt_port_name p = name"
proof
  assume "port ports name = Ok p"
  then show "p \<in> set ports \<and> pt_port_name p = name"
    by (auto simp: port_def dest: binary_search_sound split: option.splits)
next
  assume "p \<in> set ports \<and> pt_port_name p = name"
  then obtain i where "i < length ports" "ports ! i = p" "pt_port_name (ports ! i) = name"
    by (auto simp: in_set_conv_nth)
  then show "port ports name = Ok p"
    using binary_search_complete [of pt_port_name ports "length ports" 0 i] assms
    by (auto simp: port_def ports_ok_def)
qed

lemma port_Err: "port ports name = Err e \<Longrightarrow> e = BrokenLineage"
  by (auto simp: port_def split: option.splits)

section \<open>The canonical form and its digest\<close>

lemma prefix_code_typed_value: "prefix_code push_typed_value"
proof -
  have "determines push_typed_value
      (\<lambda>v. (tv_type_id v, version_get (tv_type_version v), tv_schema_hash v))"
    unfolding push_typed_value_def by (intro code_intros)
  then show ?thesis by (rule determines.weaken) simp
qed

lemma determines_typed_value [code_intros]: "determines (\<lambda>x. push_typed_value (f x)) f"
  by (rule prefix_code_of) (rule prefix_code_typed_value)

lemma prefix_code_port: "prefix_code push_port"
proof -
  have "determines push_port (\<lambda>p. (pt_port_name p, pt_value_type p))"
    unfolding push_port_def by (intro code_intros)
  then show ?thesis by (rule determines.weaken) simp
qed

lemma push_str_neq_Nil [simp]: "push_str s \<noteq> []"
  using length_push_str [of s] by force

lemma push_port_neq_Nil: "push_port p \<noteq> []"
  by (simp add: push_port_def)

lemma determines_push_ports [code_intros]: "determines (\<lambda>x. push_ports (f x)) f"
  unfolding push_ports_def
  by (rule prefix_code_of) (rule prefix_code_push_each [OF prefix_code_port push_port_neq_Nil])

lemma determines_push_strs [code_intros]: "determines (\<lambda>x. push_each push_str (f x)) f"
  by (rule prefix_code_of) (rule prefix_code_push_each [OF prefix_code_push_str push_str_neq_Nil])

lemma determinism_byte_inject: "determinism_byte a = determinism_byte b \<longleftrightarrow> a = b"
  by (cases a; cases b) simp_all

lemma filesystem_byte_inject: "filesystem_byte a = filesystem_byte b \<longleftrightarrow> a = b"
  by (cases a; cases b) simp_all

lemma bool_byte_inject [simp]: "bool_byte a = bool_byte b \<longleftrightarrow> a = b"
  by (simp add: bool_byte_def)

text \<open>The canonical bytes carry every field but the digest itself.\<close>

definition contract_content :: "research_node_contract \<Rightarrow> research_node_contract" where
  "contract_content c = c\<lparr>ct_digest := zero_hash\<rparr>"

interpretation contract_code: determines contract_canonical_bytes contract_content
proof -
  have "determines contract_canonical_bytes
      (\<lambda>c. ((), ct_contract_id c, version_get (ct_contract_version c), ct_input_types c,
        ct_output_types c, ct_state_schema c, ct_parameter_schema c,
        determinism_byte (ct_determinism_class c),
        bool_byte (np_network (ct_permissions c)), bool_byte (np_database (ct_permissions c)),
        filesystem_byte (np_filesystem (ct_permissions c)),
        rl_cpu_cores (ct_resource_limits c), rl_memory_mb (ct_resource_limits c),
        rl_timeout_seconds (ct_resource_limits c), ct_required_invariants c))"
    unfolding contract_canonical_bytes_def by (intro code_intros)
  then show "determines contract_canonical_bytes contract_content"
    by (rule determines.weaken)
      (simp add: contract_content_def determinism_byte_inject filesystem_byte_inject)
qed

text \<open>What the constructor guarantees of a contract.\<close>

definition contract_ok :: "sha256_fn \<Rightarrow> research_node_contract \<Rightarrow> bool" where
  "contract_ok sha256 c \<longleftrightarrow>
     ensure_symbol (ct_contract_id c) = Ok () \<and>
     ct_output_types c \<noteq> [] \<and> ports_ok (ct_input_types c) \<and> ports_ok (ct_output_types c) \<and>
     ct_required_invariants c \<noteq> [] \<and> sorted_wrt (<) (ct_required_invariants c) \<and>
     (\<forall>v \<in> set (ct_required_invariants c). ensure_symbol v = Ok ()) \<and>
     ct_digest c = sha256 (contract_canonical_bytes c)"

lemma contract_bytes_ignore_digest [simp]:
  "contract_canonical_bytes (c\<lparr>ct_digest := d\<rparr>) = contract_canonical_bytes c"
  by (simp add: contract_canonical_bytes_def)

lemma contract_new_ok:
  assumes "contract_new sha256 input = Ok c"
  shows "contract_ok sha256 c"
proof -
  have "ensure_symbol (ci_contract_id input) = Ok ()" "ci_output_types input \<noteq> []"
      "ci_required_invariants input \<noteq> []"
    using assms by (auto simp: contract_new_def and_then_eq_Ok split: if_splits)
  moreover obtain ins outs invs where "canonical_ports (ci_input_types input) = Ok ins"
      "canonical_ports (ci_output_types input) = Ok outs"
      "canonical_symbols (ci_required_invariants input) = Ok invs"
    using assms by (auto simp: contract_new_def and_then_eq_Ok split: if_splits)
  moreover from calculation have "ports_ok ins" "ports_ok outs" "sorted_wrt (<) invs"
      "outs \<noteq> []" "invs \<noteq> []" "\<forall>v \<in> set invs. ensure_symbol v = Ok ()"
    by (auto simp: canonical_ports_ok canonical_ports_Ok canonical_symbols_Ok strict_sorted_iff)
  ultimately show ?thesis
    using assms
    by (simp add: contract_new_def Let_def contract_ok_def)
      (auto simp: contract_canonical_bytes_def)
qed

lemma contract_digest_identifies:
  assumes "contract_ok sha256 c" "contract_ok sha256 d"
    "length (contract_canonical_bytes c) < usize_limit" "ct_digest c = ct_digest d"
  shows "c = d \<or> collision sha256 (contract_canonical_bytes c) (contract_canonical_bytes d)"
proof (cases "contract_canonical_bytes c = contract_canonical_bytes d")
  case True
  then have "contract_content c = contract_content d" using contract_code.content_eq assms(3) by blast
  then have "c\<lparr>ct_digest := zero_hash\<rparr>\<lparr>ct_digest := ct_digest c\<rparr> = d\<lparr>ct_digest := zero_hash\<rparr>\<lparr>ct_digest := ct_digest d\<rparr>"
    using assms(4) by (simp add: contract_content_def)
  then show ?thesis by simp
next
  case False
  then show ?thesis using assms by (simp add: collision_def contract_ok_def)
qed

lemma contract_new_perm:
  assumes "mset (ci_input_types a) = mset (ci_input_types b)"
    "mset (ci_output_types a) = mset (ci_output_types b)"
    "mset (ci_required_invariants a) = mset (ci_required_invariants b)"
    "a\<lparr>ci_input_types := [], ci_output_types := [], ci_required_invariants := []\<rparr> =
     b\<lparr>ci_input_types := [], ci_output_types := [], ci_required_invariants := []\<rparr>"
  shows "contract_new sha256 a = contract_new sha256 b"
proof -
  have empty: "ci_output_types a = [] \<longleftrightarrow> ci_output_types b = []"
    "ci_required_invariants a = [] \<longleftrightarrow> ci_required_invariants b = []"
    using assms(2,3) by auto
  have rest: "ci_contract_id a = ci_contract_id b" "ci_contract_version a = ci_contract_version b"
    "ci_state_schema a = ci_state_schema b" "ci_parameter_schema a = ci_parameter_schema b"
    "ci_determinism_class a = ci_determinism_class b" "ci_permissions a = ci_permissions b"
    "ci_resource_limits a = ci_resource_limits b"
    using assms(4) by (cases a; cases b; simp)+
  show ?thesis
    using canonical_ports_perm [OF assms(1)] canonical_ports_perm [OF assms(2)]
      canonical_symbols_perm [OF assms(3)] empty rest
    by (simp add: contract_new_def)
qed

end
