(* ===== verification/Run_Journal.thy ===== *)
theory Run_Journal
  imports Node_Contract
begin

text \<open>
  The events of a run's journal (\<open>ficant-domain/src/research/run_journal.rs\<close>): their canonical
  bytes, the hash that chains each event to the one before it, and the check an event passes
  after its predecessor. The theory shows that the bytes determine the event, and that a journal
  is fixed by the hash of its last event.
\<close>

section \<open>Definitions\<close>

datatype journal_event_type =
    RunCreated
  | RunStarted
  | RunSucceeded
  | RunFailed
  | RunCancelled
  | ArtifactPublished
  | SignalSetPublished
  | NodeStarted
  | NodeSucceeded
  | NodeFailed
  | NodeCheckpointed

fun event_type_code :: "journal_event_type \<Rightarrow> byte" where
  "event_type_code RunCreated = 1"
| "event_type_code RunStarted = 2"
| "event_type_code RunSucceeded = 3"
| "event_type_code RunFailed = 4"
| "event_type_code RunCancelled = 5"
| "event_type_code ArtifactPublished = 6"
| "event_type_code SignalSetPublished = 7"
| "event_type_code NodeStarted = 8"
| "event_type_code NodeSucceeded = 9"
| "event_type_code NodeFailed = 10"
| "event_type_code NodeCheckpointed = 11"

record run_journal_input =
  ji_journal_event_id :: ulid
  ji_run_id :: ulid
  ji_sequence :: u64
  ji_event_type :: journal_event_type
  ji_occurred_at :: market_time
  ji_payload_type :: string
  ji_payload_schema :: string
  ji_payload :: bytes
  ji_prev_hash :: "content_hash option"

definition journal_input_validate :: "run_journal_input \<Rightarrow> unit domain_result" where
  "journal_input_validate i =
     (if ji_sequence i = 0
        \<or> (ji_sequence i = 1 \<and> ji_prev_hash i \<noteq> None)
        \<or> (ji_sequence i > 1 \<and> ji_prev_hash i = None)
      then Err JournalSequenceConflict
      else if trim (ji_payload_type i) = []
        \<or> ji_payload_type i \<noteq> trim (ji_payload_type i)
        \<or> trim (ji_payload_schema i) = []
        \<or> ji_payload_schema i \<noteq> trim (ji_payload_schema i)
        \<or> ji_payload i = []
      then Err InvalidValue
      else Ok ())"

definition append_field :: "u8 \<Rightarrow> bytes \<Rightarrow> bytes" where
  "append_field tag value = [tag] @ to_be_bytes (word_of_nat (length value) :: u64) @ value"

definition date_bytes :: "naive_date \<Rightarrow> bytes" where
  "date_bytes d = to_be_bytes (nd_year d) @ [nd_month d] @ [nd_day d]"

definition previous_bytes :: "content_hash option \<Rightarrow> bytes" where
  "previous_bytes prev = (case prev of Some hash \<Rightarrow> 1 # hash_bytes hash | None \<Rightarrow> [0])"

definition JOURNAL_MAGIC :: bytes where
  "JOURNAL_MAGIC = as_bytes ''FJRN''"

definition JOURNAL_VERSION :: u16 where
  "JOURNAL_VERSION = 1"

definition journal_canonical_bytes :: "run_journal_input \<Rightarrow> bytes" where
  "journal_canonical_bytes i =
     JOURNAL_MAGIC @ to_be_bytes JOURNAL_VERSION
     @ append_field 1 (as_bytes (ulid_str (ji_journal_event_id i)))
     @ append_field 2 (as_bytes (ulid_str (ji_run_id i)))
     @ append_field 3 (to_be_bytes (ji_sequence i))
     @ append_field 4 [event_type_code (ji_event_type i)]
     @ append_field 5 (to_be_bytes (timestamp (mt_instant (ji_occurred_at i))))
     @ append_field 6 (to_be_bytes (timestamp_subsec_nanos (mt_instant (ji_occurred_at i))))
     @ append_field 7 (as_bytes (mt_timezone (ji_occurred_at i)))
     @ append_field 8 (date_bytes (mt_local_date (ji_occurred_at i)))
     @ append_field 9 (as_bytes (ji_payload_type i))
     @ append_field 10 (as_bytes (ji_payload_schema i))
     @ append_field 11 (ji_payload i)
     @ append_field 12 (previous_bytes (ji_prev_hash i))"

definition journal_canonical_hash :: "sha256_fn \<Rightarrow> run_journal_input \<Rightarrow> content_hash domain_result" where
  "journal_canonical_hash sha256 i =
     and_then (journal_input_validate i) (\<lambda>_. Ok (sha256 (journal_canonical_bytes i)))"

record run_journal =
  rj_journal_event_id :: ulid
  rj_run_id :: ulid
  rj_sequence :: u64
  rj_event_type :: journal_event_type
  rj_occurred_at :: market_time
  rj_payload_type :: string
  rj_payload_schema :: string
  rj_payload :: bytes
  rj_prev_hash :: "content_hash option"
  rj_event_hash :: content_hash

definition run_journal_new ::
  "sha256_fn \<Rightarrow> run_journal_input \<Rightarrow> content_hash \<Rightarrow> run_journal domain_result" where
  "run_journal_new sha256 input claimed_hash =
     and_then (journal_canonical_hash sha256 input) (\<lambda>canonical_hash.
     if canonical_hash \<noteq> claimed_hash then Err ContentHashMismatch
     else Ok \<lparr>rj_journal_event_id = ji_journal_event_id input,
              rj_run_id = ji_run_id input,
              rj_sequence = ji_sequence input,
              rj_event_type = ji_event_type input,
              rj_occurred_at = ji_occurred_at input,
              rj_payload_type = ji_payload_type input,
              rj_payload_schema = ji_payload_schema input,
              rj_payload = ji_payload input,
              rj_prev_hash = ji_prev_hash input,
              rj_event_hash = canonical_hash\<rparr>)"

definition journal_input_of :: "run_journal \<Rightarrow> run_journal_input" where
  "journal_input_of e =
     \<lparr>ji_journal_event_id = rj_journal_event_id e,
      ji_run_id = rj_run_id e,
      ji_sequence = rj_sequence e,
      ji_event_type = rj_event_type e,
      ji_occurred_at = rj_occurred_at e,
      ji_payload_type = rj_payload_type e,
      ji_payload_schema = rj_payload_schema e,
      ji_payload = rj_payload e,
      ji_prev_hash = rj_prev_hash e\<rparr>"

definition verify_canonical :: "sha256_fn \<Rightarrow> run_journal \<Rightarrow> unit domain_result" where
  "verify_canonical sha256 e =
     and_then (journal_canonical_hash sha256 (journal_input_of e)) (\<lambda>hash.
     if hash \<noteq> rj_event_hash e then Err ContentHashMismatch else Ok ())"

definition validate_after :: "sha256_fn \<Rightarrow> run_journal \<Rightarrow> run_journal \<Rightarrow> unit domain_result" where
  "validate_after sha256 self previous =
     and_then (verify_canonical sha256 self) (\<lambda>_.
     and_then (verify_canonical sha256 previous) (\<lambda>_.
     if rj_run_id self \<noteq> rj_run_id previous
        \<or> checked_add_u64 (rj_sequence previous) 1 \<noteq> Some (rj_sequence self)
     then Err JournalSequenceConflict
     else if rj_prev_hash self \<noteq> Some (rj_event_hash previous) then Err ContentHashMismatch
     else if mt_instant (rj_occurred_at self) < mt_instant (rj_occurred_at previous)
     then Err InvalidEffectiveTime
     else Ok ()))"

section \<open>The canonical bytes determine the event\<close>

lemma append_field_eq: "append_field tag value = [tag] @ push_bytes value"
  by (simp add: append_field_def push_bytes_def push_u64_def)

lemma append_field_neq_Nil [simp]: "append_field tag value \<noteq> []"
  by (simp add: append_field_def)

lemma length_append_field [simp]: "length (append_field tag value) = 9 + length value"
  by (simp add: append_field_def)

lemma determines_append_field [code_intros]: "determines (\<lambda>x. append_field tag (f x)) f"
  unfolding append_field_eq
  by (rule determines.weaken [OF determines_append [OF determines_const determines_push_bytes]]) simp

lemma event_type_code_inject [simp]: "event_type_code a = event_type_code b \<longleftrightarrow> a = b"
  by (cases a; cases b) simp_all

lemma date_bytes_inject [simp]: "date_bytes a = date_bytes b \<longleftrightarrow> a = b"
  by (cases a; cases b) (auto simp: date_bytes_def append_eq_append_conv)

lemma previous_bytes_inject [simp]: "previous_bytes a = previous_bytes b \<longleftrightarrow> a = b"
  by (auto simp: previous_bytes_def split: option.splits)

interpretation journal_code: determines journal_canonical_bytes "\<lambda>i. i"
proof -
  have "determines journal_canonical_bytes
      (\<lambda>i. ((), (), as_bytes (ulid_str (ji_journal_event_id i)), as_bytes (ulid_str (ji_run_id i)),
        to_be_bytes (ji_sequence i), [event_type_code (ji_event_type i)],
        to_be_bytes (timestamp (mt_instant (ji_occurred_at i))),
        to_be_bytes (timestamp_subsec_nanos (mt_instant (ji_occurred_at i))),
        as_bytes (mt_timezone (ji_occurred_at i)), date_bytes (mt_local_date (ji_occurred_at i)),
        as_bytes (ji_payload_type i), as_bytes (ji_payload_schema i), ji_payload i,
        previous_bytes (ji_prev_hash i)))"
    unfolding journal_canonical_bytes_def by (intro code_intros)
  then show "prefix_code journal_canonical_bytes"
    by (rule determines.weaken) (auto intro!: run_journal_input.equality market_time_eqI)
qed

section \<open>Canonical events and chains\<close>

definition event_canonical :: "sha256_fn \<Rightarrow> run_journal \<Rightarrow> bool" where
  "event_canonical sha256 e \<longleftrightarrow>
     journal_input_validate (journal_input_of e) = Ok () \<and>
     rj_event_hash e = sha256 (journal_canonical_bytes (journal_input_of e))"

abbreviation event_bytes :: "run_journal \<Rightarrow> bytes" where
  "event_bytes e \<equiv> journal_canonical_bytes (journal_input_of e)"

lemma verify_canonical_Ok [result_simps]:
  "verify_canonical sha256 e = Ok u \<longleftrightarrow> event_canonical sha256 e"
  by (auto simp: verify_canonical_def journal_canonical_hash_def event_canonical_def result_simps)

lemma validate_after_Ok [result_simps]:
  "validate_after sha256 e p = Ok u \<longleftrightarrow>
     event_canonical sha256 e \<and> event_canonical sha256 p \<and> rj_run_id e = rj_run_id p \<and>
     unat (rj_sequence e) = unat (rj_sequence p) + 1 \<and>
     rj_prev_hash e = Some (rj_event_hash p) \<and>
     mt_instant (rj_occurred_at p) \<le> mt_instant (rj_occurred_at e)"
  using unat_bound [of "rj_sequence e"]
  by (auto simp: validate_after_def result_simps not_less)

lemma run_journal_new_Ok [result_simps]:
  "run_journal_new sha256 input claimed = Ok e \<longleftrightarrow>
     journal_input_of e = input \<and> event_canonical sha256 e \<and> rj_event_hash e = claimed"
  by (cases e; cases input)
    (auto simp: run_journal_new_def journal_canonical_hash_def result_simps journal_input_of_def event_canonical_def)

text \<open>A chain is what a complete journal of one run looks like from its first event on.\<close>

definition chain :: "sha256_fn \<Rightarrow> ulid \<Rightarrow> run_journal list \<Rightarrow> bool" where
  "chain sha256 run_id events \<longleftrightarrow>
     (\<forall>i < length events. event_canonical sha256 (events ! i) \<and> rj_run_id (events ! i) = run_id \<and>
        unat (rj_sequence (events ! i)) = i + 1) \<and>
     (\<forall>i. Suc i < length events \<longrightarrow>
        rj_prev_hash (events ! Suc i) = Some (rj_event_hash (events ! i)) \<and>
        mt_instant (rj_occurred_at (events ! i)) \<le> mt_instant (rj_occurred_at (events ! Suc i)))"

lemma chain_Nil [simp]: "chain sha256 run_id []"
  by (simp add: chain_def)

lemma chain_snoc:
  "chain sha256 run_id (events @ [e]) \<longleftrightarrow>
     chain sha256 run_id events \<and> event_canonical sha256 e \<and> rj_run_id e = run_id \<and>
     unat (rj_sequence e) = length events + 1 \<and>
     (events \<noteq> [] \<longrightarrow> rj_prev_hash e = Some (rj_event_hash (last events)) \<and>
        mt_instant (rj_occurred_at (last events)) \<le> mt_instant (rj_occurred_at e))"
proof (cases events rule: rev_exhaust)
  case Nil
  then show ?thesis by (simp add: chain_def)
next
  case (snoc es l)
  have "(\<forall>i. Suc i < length (es @ [l, e]) \<longrightarrow> P i) \<longleftrightarrow> (\<forall>i. Suc i < length (es @ [l]) \<longrightarrow> P i) \<and> P (length es)" for P
    by (auto simp: less_Suc_eq)
  then show ?thesis
    unfolding snoc chain_def by (auto simp: nth_append less_Suc_eq)
qed

text \<open>The first event of a run has no predecessor, every later one has.\<close>

lemma canonical_prev_hash:
  "event_canonical sha256 e \<Longrightarrow> rj_prev_hash e = None \<longleftrightarrow> unat (rj_sequence e) = 1"
proof -
  assume "event_canonical sha256 e"
  then have v: "rj_sequence e \<noteq> 0" "rj_sequence e = 1 \<Longrightarrow> rj_prev_hash e = None"
    "1 < rj_sequence e \<Longrightarrow> rj_prev_hash e \<noteq> None"
    by (auto simp: event_canonical_def journal_input_validate_def journal_input_of_def split: if_splits)
  have "unat (rj_sequence e) \<noteq> 0" using v(1) by (metis unat_0 unsigned_word_eqI)
  moreover have "rj_sequence e = 1 \<longleftrightarrow> unat (rj_sequence e) = 1" by (metis unat_1 unsigned_word_eqI)
  moreover have "1 < rj_sequence e \<longleftrightarrow> 1 < unat (rj_sequence e)" by (simp add: word_less_nat_alt)
  ultimately show ?thesis using v by linarith
qed

lemma event_eqI:
  "journal_input_of e = journal_input_of f \<Longrightarrow> rj_event_hash e = rj_event_hash f \<Longrightarrow> e = f"
  by (cases e; cases f) (simp add: journal_input_of_def)

lemma event_hash_identifies:
  assumes "event_canonical sha256 e" "event_canonical sha256 f" "rj_event_hash e = rj_event_hash f"
    "length (event_bytes e) < usize_limit"
  shows "e = f \<or> collision sha256 (event_bytes e) (event_bytes f)"
proof (cases "event_bytes e = event_bytes f")
  case True
  then show ?thesis using journal_code.content_eq [OF True assms(4)] assms(3) event_eqI by blast
next
  case False
  then show ?thesis using assms by (simp add: collision_def event_canonical_def)
qed

text \<open>A journal is fixed by the hash of its last event, up to a collision of two of its events.\<close>

lemma chain_last_hash:
  assumes "chain sha256 r es" "chain sha256 s fs" "es \<noteq> []" "fs \<noteq> []"
    "rj_event_hash (last es) = rj_event_hash (last fs)"
    "\<forall>e \<in> set es. length (event_bytes e) < usize_limit"
  shows "es = fs \<or> (\<exists>e \<in> set es. \<exists>f \<in> set fs. collision sha256 (event_bytes e) (event_bytes f))"
  using assms
proof (induction es arbitrary: fs rule: rev_induct)
  case Nil
  then show ?case by simp
next
  case (snoc e es)
  obtain fs' f where fs: "fs = fs' @ [f]" using snoc.prems(4) by (metis rev_exhaust)
  have e: "event_canonical sha256 e" "chain sha256 r es" "unat (rj_sequence e) = length es + 1"
    "es \<noteq> [] \<Longrightarrow> rj_prev_hash e = Some (rj_event_hash (last es))"
    using snoc.prems(1) by (auto simp: chain_snoc)
  have f: "event_canonical sha256 f" "chain sha256 s fs'" "unat (rj_sequence f) = length fs' + 1"
    "fs' \<noteq> [] \<Longrightarrow> rj_prev_hash f = Some (rj_event_hash (last fs'))"
    using snoc.prems(2) by (auto simp: fs chain_snoc)
  from event_hash_identifies [OF e(1) f(1)] snoc.prems(5,6) fs
  consider "e = f" | "collision sha256 (event_bytes e) (event_bytes f)" by auto
  then show ?case
  proof cases
    case 1
    then have "length es = length fs'" using e(3) f(3) by simp
    show ?thesis
    proof (cases "es = []")
      case True
      then show ?thesis using 1 fs \<open>length es = length fs'\<close> by simp
    next
      case False
      then have "fs' \<noteq> []" using \<open>length es = length fs'\<close> by auto
      then have "rj_event_hash (last es) = rj_event_hash (last fs')" using e(4) f(4) False 1 by simp
      then show ?thesis using snoc.IH [OF e(2) f(2) False \<open>fs' \<noteq> []\<close>] snoc.prems(6) 1 fs by auto
    qed
  next
    case 2
    then show ?thesis using fs by auto
  qed
qed

end
