(* ===== verification/Ordered_Map.thy ===== *)
theory Ordered_Map
  imports Ficant_Prelude
begin

text \<open>
  Rust's \<open>BTreeMap\<close> and \<open>BTreeSet\<close> as the code uses them: a map is the list of its entries in
  ascending key order, a set the ascending list of its elements. The interface the clients rely
  on is the locale \<open>ordered_map\<close>; \<open>bt\<close> is its interpretation on the list representation.
\<close>

section \<open>Representation\<close>

type_synonym ('k, 'v) btree_map = "('k \<times> 'v) list"
type_synonym 'k btree_set = "'k list"

text \<open>\<open>insert\<close> replaces the value of an existing key; \<open>get\<close> is \<open>map_of\<close>.\<close>

fun bt_insert :: "'k::linorder \<Rightarrow> 'v \<Rightarrow> ('k, 'v) btree_map \<Rightarrow> ('k, 'v) btree_map" where
  "bt_insert k v [] = [(k, v)]"
| "bt_insert k v ((a, b) # m) =
     (if k < a then (k, v) # (a, b) # m
      else if k = a then (k, v) # m
      else (a, b) # bt_insert k v m)"

text \<open>Assignment through \<open>get_mut\<close>: the entry stays where it is.\<close>

fun bt_replace :: "'k \<Rightarrow> 'v \<Rightarrow> ('k, 'v) btree_map \<Rightarrow> ('k, 'v) btree_map" where
  "bt_replace k v [] = []"
| "bt_replace k v ((a, b) # m) = (if k = a then (a, v) # m else (a, b) # bt_replace k v m)"

definition bt_keys :: "('k, 'v) btree_map \<Rightarrow> 'k list" where
  "bt_keys m = map fst m"

definition bt_ok :: "('k::linorder, 'v) btree_map \<Rightarrow> bool" where
  "bt_ok m \<longleftrightarrow> sorted_wrt (<) (map fst m)"

definition bt_collect :: "('k::linorder \<times> 'v) list \<Rightarrow> ('k, 'v) btree_map" where
  "bt_collect kvs = fold (\<lambda>(k, v) m. bt_insert k v m) kvs []"

text \<open>\<open>remove\<close> drops the entry of a key, if there is one.\<close>

definition bt_remove :: "'k \<Rightarrow> ('k, 'v) btree_map \<Rightarrow> ('k, 'v) btree_map" where
  "bt_remove k m = filter (\<lambda>(a, b). a \<noteq> k) m"

definition bset_insert :: "'k::linorder \<Rightarrow> 'k btree_set \<Rightarrow> 'k btree_set" where
  "bset_insert k s = (if k \<in> set s then s else insort k s)"

section \<open>The interface\<close>

locale ordered_map =
  fixes empty :: 'm
    and insert :: "'k::linorder \<Rightarrow> 'v \<Rightarrow> 'm \<Rightarrow> 'm"
    and get :: "'m \<Rightarrow> 'k \<Rightarrow> 'v option"
    and keys :: "'m \<Rightarrow> 'k list"
    and ok :: "'m \<Rightarrow> bool"
  assumes get_empty: "get empty k = None"
    and ok_empty: "ok empty"
    and ok_insert: "ok m \<Longrightarrow> ok (insert k v m)"
    and get_insert: "ok m \<Longrightarrow> get (insert k v m) j = (if j = k then Some v else get m j)"
    and keys_sorted: "ok m \<Longrightarrow> sorted_wrt (<) (keys m)"
    and keys_get: "ok m \<Longrightarrow> k \<in> set (keys m) \<longleftrightarrow> get m k \<noteq> None"
begin

lemma ok_fold: "ok m \<Longrightarrow> ok (fold (\<lambda>(k, v) m. insert k v m) kvs m)"
  by (induction kvs arbitrary: m) (auto simp: ok_insert)

lemma get_fold:
  "ok m \<Longrightarrow> get (fold (\<lambda>(k, v) m. insert k v m) kvs m) j =
     (case map_of (rev kvs) j of Some v \<Rightarrow> Some v | None \<Rightarrow> get m j)"
proof (induction kvs arbitrary: m)
  case Nil
  then show ?case by simp
next
  case (Cons kv kvs)
  obtain k v where kv: "kv = (k, v)" by (cases kv)
  have "get (fold (\<lambda>(k, v) m. insert k v m) kvs (insert k v m)) j =
      (case map_of (rev kvs) j of Some v \<Rightarrow> Some v | None \<Rightarrow> get (insert k v m) j)"
    using Cons by (simp add: ok_insert)
  with Cons.prems show ?case
    by (auto simp: kv get_insert map_of_append map_add_def split: option.splits)
qed

text \<open>Collecting entries: the last entry of a key wins, and without repetition nothing is lost.\<close>

lemma get_collect: "get (fold (\<lambda>(k, v) m. insert k v m) kvs empty) j = map_of (rev kvs) j"
  by (simp add: get_fold ok_empty get_empty split: option.splits)

lemma get_collect_distinct:
  assumes "distinct (map fst kvs)"
  shows "get (fold (\<lambda>(k, v) m. insert k v m) kvs empty) j = map_of kvs j"
proof -
  have "map_of (rev kvs) = map_of kvs"
    using assms by (subst map_of_inject_set) (simp_all flip: rev_map)
  then show ?thesis by (simp add: get_collect)
qed

lemma keys_distinct: "ok m \<Longrightarrow> distinct (keys m)"
  using keys_sorted by (simp add: strict_sorted_iff)

end

lemma set_bt_insert_keys: "fst ` set (bt_insert k v m) = insert k (fst ` set m)"
  by (induction k v m rule: bt_insert.induct) auto

lemma bt_ok_Cons: "bt_ok ((a, b) # m) \<longleftrightarrow> (\<forall>x \<in> fst ` set m. a < x) \<and> bt_ok m"
  by (auto simp: bt_ok_def)

lemma bt_ok_Nil [simp]: "bt_ok []"
  by (simp add: bt_ok_def)

lemma bt_ok_insert: "bt_ok m \<Longrightarrow> bt_ok (bt_insert k v m)"
proof (induction k v m rule: bt_insert.induct)
  case (2 k v a b m)
  then show ?case
    by (auto simp: bt_ok_Cons set_bt_insert_keys image_iff dest: less_trans)
qed (simp add: bt_ok_def)

lemma bt_get_insert [simp]: "map_of (bt_insert k v m) = (map_of m)(k \<mapsto> v)"
  by (induction k v m rule: bt_insert.induct) auto

lemma bt_keys_get: "k \<in> set (bt_keys m) \<longleftrightarrow> map_of m k \<noteq> None"
  by (simp add: bt_keys_def map_of_eq_None_iff)

interpretation bt: ordered_map "[]" bt_insert map_of bt_keys bt_ok
proof unfold_locales
  fix m :: "('a \<times> 'b) list" and k :: 'a and v :: 'b
  assume m: "bt_ok m"
  then show "bt_ok (bt_insert k v m)" by (rule bt_ok_insert)
  from m show "sorted_wrt (<) (bt_keys m)" by (simp add: bt_ok_def bt_keys_def)
qed (simp_all add: bt_keys_get)

lemma bt_get_collect: "map_of (bt_collect kvs) k = map_of (rev kvs) k"
  unfolding bt_collect_def by (rule bt.get_collect)

lemma bt_get_collect_distinct:
  "distinct (map fst kvs) \<Longrightarrow> map_of (bt_collect kvs) = map_of kvs"
  unfolding bt_collect_def by (rule ext) (rule bt.get_collect_distinct)

lemma bt_ok_collect: "bt_ok (bt_collect kvs)"
  unfolding bt_collect_def by (rule bt.ok_fold) simp

lemma bt_collect_keys_set: "set (bt_keys (bt_collect kvs)) = fst ` set kvs"
proof -
  have "x \<in> set (bt_keys (bt_collect kvs)) \<longleftrightarrow> x \<in> fst ` set kvs" for x
    by (simp add: bt_keys_get bt_get_collect map_of_eq_None_iff flip: not_None_eq)
  then show ?thesis by blast
qed

text \<open>A vector indexed by a key without repetition.\<close>

lemma bt_keyed_lookup:
  assumes "distinct (map f xs)"
  shows "map_of (bt_collect (map (\<lambda>x. (f x, x)) xs)) k = Some x \<longleftrightarrow> x \<in> set xs \<and> f x = k"
proof -
  have dist: "distinct (map fst (map (\<lambda>x. (f x, x)) xs))" using assms by (simp add: comp_def)
  show ?thesis
    using map_of_eq_Some_iff [OF dist, of k x] by (auto simp: bt_get_collect_distinct [OF dist])
qed

text \<open>A vector already sorted by a key without repetition is its own ordered map.\<close>

lemma bt_insert_last:
  "\<forall>x \<in> fst ` set m. x < k \<Longrightarrow> bt_insert k v m = m @ [(k, v)]"
  by (induction k v m rule: bt_insert.induct) auto

lemma bt_collect_sorted:
  assumes "sorted_wrt (<) (map fst kvs)"
  shows "bt_collect kvs = kvs"
  using assms
proof (induction kvs rule: rev_induct)
  case Nil
  then show ?case by (simp add: bt_collect_def)
next
  case (snoc kv kvs)
  obtain k v where kv: "kv = (k, v)" by (cases kv)
  from snoc.prems have "sorted_wrt (<) (map fst kvs)" and less: "\<forall>x \<in> fst ` set kvs. x < k"
    by (auto simp: sorted_wrt_append kv)
  then have "bt_collect kvs = kvs" using snoc.IH by simp
  with less show ?case by (simp add: bt_collect_def kv bt_insert_last)
qed

text \<open>The representation is unique: maps with the same entries are the same list.\<close>

lemma bt_unique:
  assumes "bt_ok m" "bt_ok m'" "map_of m = map_of m'"
  shows "m = m'"
proof (rule map_inj_on)
  have dist: "distinct (map fst m)" "distinct (map fst m')" and sorted: "sorted (map fst m)" "sorted (map fst m')"
    using assms(1,2) by (simp_all add: bt_ok_def strict_sorted_iff)
  then have sets: "set m = set m'" using assms(3) map_of_inject_set by blast
  then show "map fst m = map fst m'"
    using sorted_distinct_set_unique [OF sorted(1) dist(1) sorted(2) dist(2)] by simp
  show "inj_on fst (set m \<union> set m')" using dist(1) sets by (simp add: distinct_map)
qed

lemma bt_collect_perm:
  assumes "mset kvs = mset kvs'" "distinct (map fst kvs)"
  shows "bt_collect kvs = bt_collect kvs'"
proof (rule bt_unique)
  have dist': "distinct (map fst kvs')" using assms by (metis mset_eq_imp_distinct_iff mset_map)
  have "set kvs = set kvs'" using assms(1) by (metis set_mset_mset)
  then have "map_of kvs = map_of kvs'" using map_of_inject_set [OF assms(2) dist'] by blast
  then show "map_of (bt_collect kvs) = map_of (bt_collect kvs')"
    by (simp add: bt_get_collect_distinct assms(2) dist')
qed (rule bt_ok_collect)+

section \<open>In-place assignment and ordered sets\<close>

lemma bt_get_replace:
  "map_of m k \<noteq> None \<Longrightarrow> map_of (bt_replace k v m) = (map_of m)(k \<mapsto> v)"
  by (induction k v m rule: bt_replace.induct) (auto split: if_splits)

lemma bt_replace_keys [simp]: "map fst (bt_replace k v m) = map fst m"
  by (induction k v m rule: bt_replace.induct) auto

lemma set_bset_insert [simp]: "set (bset_insert k s) = insert k (set s)"
  by (auto simp: bset_insert_def set_insort_key)

lemma length_bset_insert: "length (bset_insert k s) \<le> Suc (length s)"
  by (simp add: bset_insert_def)

lemma set_fold_bset_insert: "set (fold bset_insert ks s) = set ks \<union> set s"
  by (induction ks arbitrary: s) auto

lemma distinct_bset_insert: "distinct s \<Longrightarrow> distinct (bset_insert k s)"
  by (simp add: bset_insert_def distinct_insort)

lemma distinct_fold_bset_insert: "distinct s \<Longrightarrow> distinct (fold bset_insert ks s)"
  by (induction ks arbitrary: s) (auto simp: distinct_bset_insert)

lemma sorted_bset_insert: "sorted_wrt (<) s \<Longrightarrow> sorted_wrt (<) (bset_insert k s)"
  by (auto simp: bset_insert_def strict_sorted_iff sorted_insort distinct_insort)

lemma bt_get_remove [simp]: "map_of (bt_remove k m) = (map_of m)(k := None)"
  by (induction m) (auto simp: bt_remove_def fun_eq_iff)

lemma bt_ok_remove: "bt_ok m \<Longrightarrow> bt_ok (bt_remove k m)"
  by (induction m) (auto simp: bt_remove_def bt_ok_Cons)

text \<open>A sum over the entries, one key at a time.\<close>

lemma sum_list_bt:
  assumes "bt_ok m"
  shows "(\<Sum>(k, v) \<leftarrow> m. f k v) = (\<Sum>k \<in> dom (map_of m). f k (the (map_of m k)))"
proof -
  have dist: "distinct (map fst m)" using assms by (simp add: bt_ok_def strict_sorted_iff)
  have "(\<Sum>(k, v) \<leftarrow> m. f k v) = (\<Sum>(k, v) \<in> set m. f k v)"
    using dist by (simp add: sum.distinct_set_conv_list distinct_map)
  also have "\<dots> = (\<Sum>k \<in> fst ` set m. f k (the (map_of m k)))"
    using dist by (subst sum.reindex) (auto simp: distinct_map intro!: sum.cong)
  finally show ?thesis by (simp add: dom_map_of_conv_image_fst)
qed

text \<open>The change of a sum over the values when one key is assigned.\<close>

lemma sum_list_bt_insert:
  fixes h :: "'v \<Rightarrow> 'a::ab_group_add"
  assumes "bt_ok m"
  shows "(\<Sum>(a, b) \<leftarrow> bt_insert k v m. h b) =
    (\<Sum>(a, b) \<leftarrow> m. h b) + h v - (case map_of m k of None \<Rightarrow> 0 | Some w \<Rightarrow> h w)"
  using assms
proof (induction k v m rule: bt_insert.induct)
  case (2 k v a b m)
  then have ok: "bt_ok m" and above: "\<forall>x \<in> fst ` set m. a < x" by (auto simp: bt_ok_Cons)
  show ?case
  proof (cases "k < a")
    case True
    then have "k \<notin> fst ` set m" using above by force
    then have "map_of m k = None" by (simp add: map_of_eq_None_iff)
    then show ?thesis using True by auto
  next
    case False
    then show ?thesis using 2(1) [OF False _ ok] by (cases "k = a") (auto simp: algebra_simps)
  qed
qed simp

text \<open>Assigning all entries of one map into another.\<close>

lemma fold_bt_insert:
  assumes "bt_ok kvs"
  shows "map_of (fold (\<lambda>(k, v) m. bt_insert k v m) kvs m) = map_of m ++ map_of kvs"
proof -
  have "map_of (fold (\<lambda>(k, v) m. bt_insert k v m) kvs m) = map_of m ++ map_of (rev kvs)"
    by (induction kvs arbitrary: m) (auto simp: map_of_append map_add_assoc fun_eq_iff map_add_def split: option.splits)
  moreover have "map_of (rev kvs) = map_of kvs"
    using assms by (intro map_of_inject_set [THEN iffD2]) (auto simp: bt_ok_def strict_sorted_iff simp flip: rev_map)
  ultimately show ?thesis by simp
qed

end
