(* ===== verification/Transition_System.thy ===== *)
theory Transition_System
  imports Main
begin

text \<open>
  Histories of a component: finite sequences of steps. The locale \<open>guarded_steps\<close> is the
  contract a stateful component offers: each step keeps the component's invariant and moves
  forward in an order on its states (what later states retain of earlier ones). Its lemmas
  carry both along every history.
\<close>

locale guarded_steps =
  fixes step :: "'s \<Rightarrow> 's \<Rightarrow> bool" and invariant :: "'s \<Rightarrow> bool" and retains :: "'s \<Rightarrow> 's \<Rightarrow> bool"
  assumes step_invariant: "step s t \<Longrightarrow> invariant s \<Longrightarrow> invariant t"
    and step_retains: "step s t \<Longrightarrow> retains s t"
    and retains_refl: "retains s s"
    and retains_trans: "retains s t \<Longrightarrow> retains t u \<Longrightarrow> retains s u"
begin

lemma history_invariant: "step\<^sup>*\<^sup>* s t \<Longrightarrow> invariant s \<Longrightarrow> invariant t"
  by (induction rule: rtranclp_induct) (auto intro: step_invariant)

lemma history_retains: "step\<^sup>*\<^sup>* s t \<Longrightarrow> retains s t"
  by (induction rule: rtranclp_induct) (auto intro: retains_refl retains_trans step_retains)

end

end
