(* ===== verification/Journal_Store.thy ===== *)
theory Journal_Store
  imports Run_Journal Ordered_Map Transition_System
begin

text \<open>
  The append-only journal of one run (\<open>ficant-runtime/src/journal.rs\<close>): validation of each
  append, idempotency keys, optimistic concurrency, and the journal shared between threads
  behind a mutex. The theory shows that every reachable journal is a chain, that appends never
  change what is there, that a retry is answered from the record and that of two writers with
  the same expected position only one succeeds.
\<close>

section \<open>Definitions\<close>

datatype runtime_error =
    DomainError domain_error_code
  | IdempotencyConflict
  | ConcurrencyConflict (conflict_expected: u64) (conflict_actual: u64)
  | RunIdentityConflict

type_synonym 'a runtime_result = "('a, runtime_error) result"

definition domain :: "'a domain_result \<Rightarrow> 'a runtime_result" where
  "domain r = map_err DomainError r"

lemma domain_Ok [result_simps]: "domain r = Ok x \<longleftrightarrow> r = Ok x"
  by (simp add: domain_def result_simps)

lemma domain_simps [simp]: "domain (Ok x) = Ok x" "domain (Err e) = Err (DomainError e)"
  by (simp_all add: domain_def)

type_synonym idempotency_key = string

definition idempotency_key_new :: "string \<Rightarrow> idempotency_key runtime_result" where
  "idempotency_key_new value =
     (if trim value = [] \<or> value \<noteq> trim value then Err (DomainError InvalidValue) else Ok value)"

record journal_append =
  ja_input :: run_journal_input
  ja_claimed_hash :: content_hash

record append_result =
  ar_event :: run_journal
  ar_inserted :: bool

record per_run_journal =
  pj_run_id :: ulid
  pj_events :: "run_journal list"
  pj_idempotency :: "(idempotency_key, run_journal) btree_map"

definition per_run_journal_new :: "ulid \<Rightarrow> per_run_journal" where
  "per_run_journal_new run_id = \<lparr>pj_run_id = run_id, pj_events = [], pj_idempotency = []\<rparr>"

text \<open>\<open>u64::try_from(len)?.checked_add(1)?\<close>.\<close>

definition next_sequence :: "nat \<Rightarrow> u64 runtime_result" where
  "next_sequence len =
     and_then (if len < usize_limit then Ok (word_of_nat len :: u64)
               else Err (DomainError JournalSequenceConflict))
       (\<lambda>n. ok_or (checked_add_u64 n 1) (DomainError JournalSequenceConflict))"

text \<open>\<open>&mut self\<close> is passed in and the new state returned beside the answer.\<close>

definition per_run_append ::
  "sha256_fn \<Rightarrow> per_run_journal \<Rightarrow> idempotency_key \<Rightarrow> u64 \<Rightarrow> journal_append \<Rightarrow>
   per_run_journal \<times> append_result runtime_result" where
  "per_run_append sha256 self idempotency_key expected_next_sequence command =
     (case run_journal_new sha256 (ja_input command) (ja_claimed_hash command) of
        Err e \<Rightarrow> (self, Err (DomainError e))
      | Ok event \<Rightarrow>
     (case map_of (pj_idempotency self) idempotency_key of
        Some existing \<Rightarrow>
          if rj_event_hash existing = rj_event_hash event
          then (self, Ok \<lparr>ar_event = existing, ar_inserted = False\<rparr>)
          else (self, Err IdempotencyConflict)
      | None \<Rightarrow>
     (case next_sequence (length (pj_events self)) of
        Err e \<Rightarrow> (self, Err e)
      | Ok actual_next_sequence \<Rightarrow>
          if expected_next_sequence \<noteq> actual_next_sequence
          then (self, Err (ConcurrencyConflict expected_next_sequence actual_next_sequence))
          else if rj_run_id event \<noteq> pj_run_id self then (self, Err RunIdentityConflict)
          else if rj_sequence event \<noteq> actual_next_sequence
          then (self, Err (DomainError JournalSequenceConflict))
          else
            (case (if pj_events self = [] then Ok ()
                   else domain (validate_after sha256 event (last (pj_events self)))) of
               Err e \<Rightarrow> (self, Err e)
             | Ok _ \<Rightarrow>
                 (self\<lparr>pj_events := pj_events self @ [event],
                       pj_idempotency := bt_insert idempotency_key event (pj_idempotency self)\<rparr>,
                  Ok \<lparr>ar_event = event, ar_inserted = True\<rparr>)))))"

definition verify_canonical_event :: "sha256_fn \<Rightarrow> run_journal \<Rightarrow> unit runtime_result" where
  "verify_canonical_event sha256 event =
     and_then (domain (journal_canonical_hash sha256 (journal_input_of event))) (\<lambda>hash.
     if hash \<noteq> rj_event_hash event then Err (DomainError ContentHashMismatch) else Ok ())"

text \<open>\<open>Arc<Mutex<PerRunJournal>>\<close>: the journal and whether a holder of the lock panicked.\<close>

record shared_run_journal =
  sj_inner :: per_run_journal
  sj_poisoned :: bool

definition shared_run_journal_new :: "ulid \<Rightarrow> shared_run_journal" where
  "shared_run_journal_new run_id = \<lparr>sj_inner = per_run_journal_new run_id, sj_poisoned = False\<rparr>"

definition shared_append ::
  "sha256_fn \<Rightarrow> shared_run_journal \<Rightarrow> idempotency_key \<Rightarrow> u64 \<Rightarrow> journal_append \<Rightarrow>
   shared_run_journal \<times> append_result runtime_result" where
  "shared_append sha256 self idempotency_key expected_next_sequence command =
     (if sj_poisoned self then (self, Err (ConcurrencyConflict expected_next_sequence 0))
      else
        let (inner, answer) = per_run_append sha256 (sj_inner self) idempotency_key expected_next_sequence command
        in (self\<lparr>sj_inner := inner\<rparr>, answer))"

definition shared_len :: "shared_run_journal \<Rightarrow> nat runtime_result" where
  "shared_len self =
     (if sj_poisoned self then Err (ConcurrencyConflict 0 0) else Ok (length (pj_events (sj_inner self))))"

definition shared_is_empty :: "shared_run_journal \<Rightarrow> bool runtime_result" where
  "shared_is_empty self =
     (if sj_poisoned self then Err (ConcurrencyConflict 0 0) else Ok (pj_events (sj_inner self) = []))"

section \<open>One append\<close>

lemma next_sequence_Ok [result_simps]:
  "next_sequence len = Ok n \<longleftrightarrow> unat n = len + 1"
proof -
  have "unat (word_of_nat len :: u64) = len" if "len < 2 ^ 64" using that by (simp add: unat_of_nat)
  then show ?thesis
    using unat_bound [of n] by (auto simp: next_sequence_def result_simps)
qed

text \<open>The state after an append is the old one, or the old one with one event and its key.\<close>

definition appended :: "per_run_journal \<Rightarrow> idempotency_key \<Rightarrow> run_journal \<Rightarrow> per_run_journal" where
  "appended j key e = j\<lparr>pj_events := pj_events j @ [e], pj_idempotency := bt_insert key e (pj_idempotency j)\<rparr>"

lemma append_refused:
  assumes "run_journal_new sha256 (ja_input command) (ja_claimed_hash command) = Ok e"
    "map_of (pj_idempotency j) key = None"
    "\<not> (next_sequence (length (pj_events j)) = Ok expected \<and> rj_run_id e = pj_run_id j \<and>
      rj_sequence e = expected \<and> (pj_events j = [] \<or> validate_after sha256 e (last (pj_events j)) = Ok ()))"
  shows "\<exists>err. per_run_append sha256 j key expected command = (j, Err err)"
proof (cases "next_sequence (length (pj_events j))")
  case (Err err)
  then show ?thesis using assms(1,2) by (simp add: per_run_append_def)
next
  case (Ok n)
  show ?thesis
  proof (cases "n = expected \<and> rj_run_id e = pj_run_id j \<and> rj_sequence e = expected")
    case False
    then show ?thesis using Ok assms(1,2) by (auto simp: per_run_append_def)
  next
    case True
    then have "pj_events j \<noteq> []" "validate_after sha256 e (last (pj_events j)) \<noteq> Ok ()"
      using assms(3) Ok by auto
    then show ?thesis
      using True Ok assms(1,2)
      by (cases "validate_after sha256 e (last (pj_events j))") (simp_all add: per_run_append_def)
  qed
qed

lemma append_cases:
  obtains (inserted) e where "per_run_append sha256 j key expected command = (appended j key e, Ok \<lparr>ar_event = e, ar_inserted = True\<rparr>)"
      "run_journal_new sha256 (ja_input command) (ja_claimed_hash command) = Ok e"
      "map_of (pj_idempotency j) key = None" "unat expected = length (pj_events j) + 1"
      "rj_run_id e = pj_run_id j" "rj_sequence e = expected"
      "pj_events j \<noteq> [] \<Longrightarrow> validate_after sha256 e (last (pj_events j)) = Ok ()"
  | (replayed) e f where "per_run_append sha256 j key expected command = (j, Ok \<lparr>ar_event = f, ar_inserted = False\<rparr>)"
      "run_journal_new sha256 (ja_input command) (ja_claimed_hash command) = Ok e"
      "map_of (pj_idempotency j) key = Some f" "rj_event_hash f = rj_event_hash e"
  | (refused) err where "per_run_append sha256 j key expected command = (j, Err err)"
proof (cases "run_journal_new sha256 (ja_input command) (ja_claimed_hash command)")
  case (Err err)
  then show ?thesis by (auto simp: per_run_append_def intro: that(3))
next
  case (Ok e)
  show ?thesis
  proof (cases "map_of (pj_idempotency j) key")
    case (Some f)
    with Ok show ?thesis
      by (cases "rj_event_hash f = rj_event_hash e") (auto simp: per_run_append_def intro: that(2,3))
  next
    case None
    show ?thesis
    proof (cases "next_sequence (length (pj_events j)) = Ok expected \<and> rj_run_id e = pj_run_id j \<and>
        rj_sequence e = expected \<and> (pj_events j = [] \<or> validate_after sha256 e (last (pj_events j)) = Ok ())")
      case True
      then have "per_run_append sha256 j key expected command = (appended j key e, Ok \<lparr>ar_event = e, ar_inserted = True\<rparr>)"
        using Ok None by (cases "pj_events j = []") (simp_all add: per_run_append_def appended_def)
      moreover have "unat expected = length (pj_events j) + 1" using True by (simp add: next_sequence_Ok)
      ultimately show ?thesis using that(1) Ok None True by blast
    next
      case False
      with Ok None show ?thesis using append_refused that(3) by blast
    qed
  qed
qed

text \<open>What every journal built by appends satisfies.\<close>

definition journal_ok :: "sha256_fn \<Rightarrow> per_run_journal \<Rightarrow> bool" where
  "journal_ok sha256 j \<longleftrightarrow>
     chain sha256 (pj_run_id j) (pj_events j) \<and> bt_ok (pj_idempotency j) \<and>
     mset (map snd (pj_idempotency j)) = mset (pj_events j)"

lemma journal_ok_new: "journal_ok sha256 (per_run_journal_new run_id)"
  by (simp add: journal_ok_def per_run_journal_new_def)

lemma mset_bt_insert_new:
  "map_of m k = None \<Longrightarrow> image_mset snd (mset (bt_insert k v m)) = add_mset v (image_mset snd (mset m))"
  by (induction k v m rule: bt_insert.induct) (auto split: if_splits)

lemma journal_ok_appended:
  assumes "journal_ok sha256 j" "event_canonical sha256 e" "map_of (pj_idempotency j) key = None"
    "unat (rj_sequence e) = length (pj_events j) + 1" "rj_run_id e = pj_run_id j"
    "pj_events j \<noteq> [] \<Longrightarrow> validate_after sha256 e (last (pj_events j)) = Ok ()"
  shows "journal_ok sha256 (appended j key e)"
  using assms
  by (auto simp: journal_ok_def appended_def chain_snoc bt_ok_insert mset_bt_insert_new result_simps)

lemma journal_ok_append:
  assumes "journal_ok sha256 j" "per_run_append sha256 j key expected command = (j', answer)"
  shows "journal_ok sha256 j'"
  using append_cases [of sha256 j key expected command]
proof cases
  case (inserted e)
  then show ?thesis
    using assms journal_ok_appended [of sha256 j e key] by (auto simp: result_simps)
qed (use assms in auto)

lemma append_inserts_iff:
  assumes "journal_ok sha256 j"
  shows "per_run_append sha256 j key expected command = (j', Ok \<lparr>ar_event = e, ar_inserted = True\<rparr>) \<longleftrightarrow>
    j' = appended j key e \<and> map_of (pj_idempotency j) key = None \<and> unat expected = length (pj_events j) + 1 \<and>
    journal_input_of e = ja_input command \<and> rj_event_hash e = ja_claimed_hash command \<and>
    chain sha256 (pj_run_id j) (pj_events j @ [e])"
    (is "?L \<longleftrightarrow> ?R")
proof
  assume L: ?L
  show ?R
    using append_cases [of sha256 j key expected command]
  proof cases
    case (inserted f)
    with L have [simp]: "f = e" "j' = appended j key e" by auto
    from inserted have "journal_ok sha256 j'"
      using journal_ok_appended [OF assms, of e key] by (auto simp: result_simps)
    then show ?R using inserted by (auto simp: journal_ok_def appended_def result_simps)
  qed (use L in auto)
next
  assume R: ?R
  then have new: "run_journal_new sha256 (ja_input command) (ja_claimed_hash command) = Ok e"
    and seq: "rj_sequence e = expected" and run: "rj_run_id e = pj_run_id j" and next_seq: "next_sequence (length (pj_events j)) = Ok expected"
    by (auto simp: result_simps chain_snoc intro: unsigned_word_eqI [where 'a = nat])
  have last: "event_canonical sha256 (last (pj_events j)) \<and> rj_run_id (last (pj_events j)) = pj_run_id j \<and>
      unat (rj_sequence (last (pj_events j))) = length (pj_events j)" if "pj_events j \<noteq> []"
    using assms that by (auto simp: journal_ok_def chain_def last_conv_nth)
  then have "pj_events j \<noteq> [] \<Longrightarrow> validate_after sha256 e (last (pj_events j)) = Ok ()"
    using R by (auto simp: validate_after_Ok chain_snoc)
  then show ?L
    using R new seq run next_seq by (cases "pj_events j = []") (auto simp: per_run_append_def appended_def)
qed

text \<open>An answered call has its event on record under its key.\<close>

lemma append_answered:
  assumes "per_run_append sha256 j key expected command = (j', Ok r)"
  shows "\<exists>e. run_journal_new sha256 (ja_input command) (ja_claimed_hash command) = Ok e \<and>
    map_of (pj_idempotency j') key = Some (ar_event r) \<and> rj_event_hash (ar_event r) = rj_event_hash e"
  using append_cases [of sha256 j key expected command]
proof cases
  case (inserted e)
  with assms show ?thesis by (auto simp: appended_def)
next
  case (replayed e f)
  with assms show ?thesis by auto
qed (use assms in auto)

section \<open>Histories\<close>

text \<open>
  Any number of threads calling \<open>append\<close>: the mutex makes the calls a sequence of steps in some
  order, so a history is a finite sequence of calls.
\<close>

inductive journal_step :: "sha256_fn \<Rightarrow> shared_run_journal \<Rightarrow> shared_run_journal \<Rightarrow> bool" for sha256 where
  call: "shared_append sha256 s key expected command = (s', answer) \<Longrightarrow> journal_step sha256 s s'"

inductive_cases journal_stepE: "journal_step sha256 s t"

text \<open>What later states keep of an earlier one: its events as a prefix and its recorded keys.\<close>

definition extends :: "per_run_journal \<Rightarrow> per_run_journal \<Rightarrow> bool" where
  "extends j k \<longleftrightarrow>
     pj_run_id k = pj_run_id j \<and> (\<exists>es. pj_events k = pj_events j @ es) \<and>
     (\<forall>key e. map_of (pj_idempotency j) key = Some e \<longrightarrow> map_of (pj_idempotency k) key = Some e)"

definition shared_extends :: "shared_run_journal \<Rightarrow> shared_run_journal \<Rightarrow> bool" where
  "shared_extends s t \<longleftrightarrow> extends (sj_inner s) (sj_inner t) \<and> sj_poisoned t = sj_poisoned s"

lemma extends_append:
  assumes "per_run_append sha256 j key expected command = (j', answer)"
  shows "extends j j'"
  using append_cases [of sha256 j key expected command]
proof cases
  case (inserted e)
  then show ?thesis using assms by (auto simp: extends_def appended_def)
qed (use assms in \<open>auto simp: extends_def\<close>)

lemma step_keeps:
  assumes "journal_step sha256 s t"
  shows "shared_extends s t \<and> (journal_ok sha256 (sj_inner s) \<longrightarrow> journal_ok sha256 (sj_inner t))"
  using assms
proof (rule journal_stepE)
  fix key expected command answer
  assume "shared_append sha256 s key expected command = (t, answer)"
  then show ?thesis
    using extends_append [of sha256 "sj_inner s" key expected command]
      journal_ok_append [of sha256 "sj_inner s" key expected command]
    by (auto simp: shared_append_def shared_extends_def extends_def split: if_splits prod.splits)
qed

interpretation journal_steps: guarded_steps "journal_step sha256" "\<lambda>s. journal_ok sha256 (sj_inner s)" shared_extends
  for sha256
  by unfold_locales (auto simp: step_keeps, auto simp: shared_extends_def extends_def)

lemma shared_append_Ok:
  assumes "shared_append sha256 s key expected command = (s', Ok r)"
  shows "per_run_append sha256 (sj_inner s) key expected command = (sj_inner s', Ok r)" "\<not> sj_poisoned s'"
  using assms by (auto simp: shared_append_def split: if_splits prod.splits)

text \<open>
  C1: every journal reachable from the empty one, whatever calls threads make and in
  whatever order they take the lock, is an unbroken chain: positions 1, 2, 3 and so on of its
  own run, each event canonical, linked to its predecessor by hash and not earlier in time; and
  the idempotency records are exactly its events, one key each.
\<close>

theorem reachable_journal_is_chain:
  assumes "(journal_step sha256)\<^sup>*\<^sup>* (shared_run_journal_new run_id) s"
  shows "chain sha256 run_id (pj_events (sj_inner s)) \<and>
    mset (map snd (pj_idempotency (sj_inner s))) = mset (pj_events (sj_inner s))"
  using journal_steps.history_invariant [OF assms] journal_steps.history_retains [OF assms]
    journal_ok_new [of sha256 run_id]
  by (auto simp: shared_run_journal_new_def journal_ok_def shared_extends_def extends_def per_run_journal_new_def)

text \<open>
  C6: an append inserts exactly the events that extend the chain. On a valid journal it
  adds an event when and only when the key is new, the expected position is the next one, the
  claimed hash is the event's canonical hash and the lengthened journal is still a chain; then it
  adds that event at the end and records the key.
\<close>

theorem append_inserts_exactly_chain_extensions:
  assumes "journal_ok sha256 j"
  shows "per_run_append sha256 j key expected command = (j', Ok \<lparr>ar_event = e, ar_inserted = True\<rparr>) \<longleftrightarrow>
    j' = j\<lparr>pj_events := pj_events j @ [e], pj_idempotency := bt_insert key e (pj_idempotency j)\<rparr> \<and>
    map_of (pj_idempotency j) key = None \<and> unat expected = length (pj_events j) + 1 \<and>
    journal_input_of e = ja_input command \<and> rj_event_hash e = ja_claimed_hash command \<and>
    chain sha256 (pj_run_id j) (pj_events j @ [e])"
  using append_inserts_iff [OF assms] by (simp add: appended_def)

text \<open>
  C10: exactly-once delivery. Once a call has been answered with an event, repeating the
  command under its key, at any later time and with any expected position, returns that same
  event, marked as not inserted, and changes nothing.
\<close>

theorem retry_returns_recorded_event:
  assumes "shared_append sha256 s key expected command = (s', Ok r)"
    and "(journal_step sha256)\<^sup>*\<^sup>* s' t"
  shows "shared_append sha256 t key expected' command = (t, Ok \<lparr>ar_event = ar_event r, ar_inserted = False\<rparr>)"
proof -
  note call = shared_append_Ok(1) [OF assms(1)]
  have ext: "extends (sj_inner s') (sj_inner t)" "\<not> sj_poisoned t"
    using journal_steps.history_retains [OF assms(2)] shared_append_Ok(2) [OF assms(1)]
    by (auto simp: shared_extends_def)
  obtain e where e: "run_journal_new sha256 (ja_input command) (ja_claimed_hash command) = Ok e"
    "map_of (pj_idempotency (sj_inner s')) key = Some (ar_event r)" "rj_event_hash (ar_event r) = rj_event_hash e"
    using append_answered [OF call] by blast
  then have "map_of (pj_idempotency (sj_inner t)) key = Some (ar_event r)"
    using ext(1) by (simp add: extends_def)
  then show ?thesis using e(1,3) ext(2) by (simp add: shared_append_def per_run_append_def)
qed

text \<open>
  Optimistic concurrency. After one writer has inserted an event at a position, every
  other writer that still expects that position, under a key of its own, is refused and leaves
  the journal as it is, however much has been appended in between.
\<close>

theorem stale_writer_refused:
  assumes "shared_append sha256 s key expected command = (s', Ok \<lparr>ar_event = e, ar_inserted = True\<rparr>)"
    and "(journal_step sha256)\<^sup>*\<^sup>* s' t"
    and "map_of (pj_idempotency (sj_inner t)) key2 = None"
  shows "\<exists>err. shared_append sha256 t key2 expected command2 = (t, Err err)"
proof -
  note call = shared_append_Ok(1) [OF assms(1)]
  have ext: "extends (sj_inner s') (sj_inner t)" "\<not> sj_poisoned t"
    using journal_steps.history_retains [OF assms(2)] shared_append_Ok(2) [OF assms(1)]
    by (auto simp: shared_extends_def)
  have "unat expected = length (pj_events (sj_inner s'))"
    using append_cases [of sha256 "sj_inner s" key expected command]
  proof cases
    case (inserted f)
    then have "sj_inner s' = appended (sj_inner s) key f" using call by simp
    with inserted(4) show ?thesis by (simp add: appended_def)
  qed (use call in auto)
  moreover obtain es where "pj_events (sj_inner t) = pj_events (sj_inner s') @ es"
    using ext(1) unfolding extends_def by blast
  ultimately have old: "unat expected \<noteq> length (pj_events (sj_inner t)) + 1" by simp
  show ?thesis
    using append_cases [of sha256 "sj_inner t" key2 expected command2]
  proof cases
    case (refused err)
    with ext(2) show ?thesis by (simp add: shared_append_def)
  qed (use old assms(3) in auto)
qed

text \<open>
  The hash of its last event fixes the whole journal. Two journals, each reachable
  from an empty one, that end in the same event hash are the same list of events, or the hash
  function collides on the canonical bytes of two of their events.
\<close>

theorem last_hash_fixes_journal:
  assumes "(journal_step sha256)\<^sup>*\<^sup>* (shared_run_journal_new r1) s1" "pj_events (sj_inner s1) = es" "es \<noteq> []"
    and "(journal_step sha256)\<^sup>*\<^sup>* (shared_run_journal_new r2) s2" "pj_events (sj_inner s2) = fs" "fs \<noteq> []"
    and "rj_event_hash (last es) = rj_event_hash (last fs)"
    and "\<forall>e \<in> set es. length (event_bytes e) < usize_limit"
  shows "es = fs \<or> (\<exists>e \<in> set es. \<exists>f \<in> set fs. collision sha256 (event_bytes e) (event_bytes f))"
proof -
  have "chain sha256 (pj_run_id (sj_inner s1)) es" "chain sha256 (pj_run_id (sj_inner s2)) fs"
    using journal_steps.history_invariant [OF assms(1)] journal_steps.history_invariant [OF assms(4)]
      journal_ok_new assms(2,5) by (auto simp: shared_run_journal_new_def journal_ok_def)
  then show ?thesis using chain_last_hash assms(3,6-8) by blast
qed

section \<open>Two events of one run\<close>

definition sample_time :: market_time where
  "sample_time = \<lparr>mt_instant = UtcInstant 0 0, mt_timezone = ''UTC'', mt_local_date = NaiveDate 1970 1 1\<rparr>"

definition sample_journal_input :: "u64 \<Rightarrow> journal_event_type \<Rightarrow> run_journal_input" where
  "sample_journal_input n t =
     \<lparr>ji_journal_event_id = Ulid ''e'', ji_run_id = Ulid ''r'', ji_sequence = n, ji_event_type = t,
      ji_occurred_at = sample_time, ji_payload_type = ''p'', ji_payload_schema = ''s'', ji_payload = [1],
      ji_prev_hash = (if n = 1 then None else Some zero_hash)\<rparr>"

definition sample_event :: "u64 \<Rightarrow> journal_event_type \<Rightarrow> run_journal" where
  "sample_event n t =
     \<lparr>rj_journal_event_id = Ulid ''e'', rj_run_id = Ulid ''r'', rj_sequence = n, rj_event_type = t,
      rj_occurred_at = sample_time, rj_payload_type = ''p'', rj_payload_schema = ''s'', rj_payload = [1],
      rj_prev_hash = (if n = 1 then None else Some zero_hash), rj_event_hash = zero_hash\<rparr>"

abbreviation sample_command :: "u64 \<Rightarrow> journal_event_type \<Rightarrow> journal_append" where
  "sample_command n t \<equiv> \<lparr>ja_input = sample_journal_input n t, ja_claimed_hash = zero_hash\<rparr>"

lemma trim_sample: "trim ''p'' = ''p''" "trim ''s'' = ''s''"
  by (rule trim_printable; simp)+

lemma sample_event_fields [simp]:
  "rj_event_hash (sample_event n t) = zero_hash" "rj_event_type (sample_event n t) = t"
  "rj_run_id (sample_event n t) = Ulid ''r''" "rj_sequence (sample_event n t) = n"
  "rj_prev_hash (sample_event n t) = (if n = 1 then None else Some zero_hash)"
  "rj_occurred_at (sample_event n t) = sample_time"
  by (simp_all add: sample_event_def)

lemma sample_event_input: "journal_input_of (sample_event n t) = sample_journal_input n t"
  by (simp add: journal_input_of_def sample_event_def sample_journal_input_def)

lemma sample_event_canonical: "n \<noteq> 0 \<Longrightarrow> event_canonical (\<lambda>_. zero_hash) (sample_event n t)"
  unfolding event_canonical_def sample_event_input
  by (auto simp: journal_input_validate_def sample_journal_input_def trim_sample sample_event_def)

lemma sample_chain:
  "chain (\<lambda>_. zero_hash) (Ulid ''r'') [sample_event 1 t]"
  "chain (\<lambda>_. zero_hash) (Ulid ''r'') [sample_event 1 t, sample_event 2 u]"
proof -
  have one: "chain (\<lambda>_. zero_hash) (Ulid ''r'') ([] @ [sample_event 1 t])"
    unfolding chain_snoc by (simp add: sample_event_canonical)
  then show "chain (\<lambda>_. zero_hash) (Ulid ''r'') [sample_event 1 t]" by simp
  have "chain (\<lambda>_. zero_hash) (Ulid ''r'') ([sample_event 1 t] @ [sample_event 2 u])"
    using one unfolding chain_snoc [of _ _ "[sample_event 1 t]"]
    by (simp add: sample_event_canonical)
  then show "chain (\<lambda>_. zero_hash) (Ulid ''r'') [sample_event 1 t, sample_event 2 u]" by simp
qed

text \<open>A journal holding the first event under the key \<open>k1\<close>.\<close>

definition sample_journal :: "journal_event_type \<Rightarrow> per_run_journal" where
  "sample_journal t = \<lparr>pj_run_id = Ulid ''r'', pj_events = [sample_event 1 t], pj_idempotency = [(''k1'', sample_event 1 t)]\<rparr>"

lemma sample_journal_ok: "journal_ok (\<lambda>_. zero_hash) (sample_journal t)"
  by (simp add: journal_ok_def sample_journal_def sample_chain bt_ok_def)

lemma sample_first_append:
  "shared_append (\<lambda>_. zero_hash) (shared_run_journal_new (Ulid ''r'')) ''k1'' 1 (sample_command 1 t) =
     (\<lparr>sj_inner = sample_journal t, sj_poisoned = False\<rparr>, Ok \<lparr>ar_event = sample_event 1 t, ar_inserted = True\<rparr>)"
  using append_inserts_iff [OF journal_ok_new, of "\<lambda>_. zero_hash" "Ulid ''r''" "''k1''" 1 "sample_command 1 t"
      "sample_journal t" "sample_event 1 t"] sample_chain(1) [of t]
  by (simp add: shared_append_def shared_run_journal_new_def per_run_journal_new_def appended_def
      sample_journal_def sample_event_input)

lemma sample_history:
  "(journal_step (\<lambda>_. zero_hash))\<^sup>*\<^sup>* (shared_run_journal_new (Ulid ''r''))
     \<lparr>sj_inner = sample_journal t, sj_poisoned = False\<rparr>"
  by (rule r_into_rtranclp) (rule journal_step.call [OF sample_first_append])

lemma reachable_journal_is_chain_witness:
  "chain (\<lambda>_. zero_hash) (Ulid ''r'') [sample_event 1 RunCreated]"
  using reachable_journal_is_chain [OF sample_history, of RunCreated] by (simp add: sample_journal_def)

lemma append_inserts_exactly_chain_extensions_witness:
  "per_run_append (\<lambda>_. zero_hash) (sample_journal RunCreated) ''k2'' 2 (sample_command 2 RunStarted) =
     ((sample_journal RunCreated)\<lparr>pj_events := [sample_event 1 RunCreated, sample_event 2 RunStarted],
        pj_idempotency := [(''k1'', sample_event 1 RunCreated), (''k2'', sample_event 2 RunStarted)]\<rparr>,
      Ok \<lparr>ar_event = sample_event 2 RunStarted, ar_inserted = True\<rparr>)"
  unfolding append_inserts_exactly_chain_extensions [OF sample_journal_ok]
  using sample_chain(2) [of RunCreated RunStarted]
  by (simp add: sample_journal_def sample_event_input)

lemma retry_returns_recorded_event_witness:
  "shared_append (\<lambda>_. zero_hash) \<lparr>sj_inner = sample_journal RunCreated, sj_poisoned = False\<rparr>
     ''k1'' 7 (sample_command 1 RunCreated) =
   (\<lparr>sj_inner = sample_journal RunCreated, sj_poisoned = False\<rparr>,
    Ok \<lparr>ar_event = sample_event 1 RunCreated, ar_inserted = False\<rparr>)"
  using retry_returns_recorded_event [OF sample_first_append rtranclp.rtrancl_refl] by simp

lemma stale_writer_refused_witness:
  "\<exists>err. shared_append (\<lambda>_. zero_hash) \<lparr>sj_inner = sample_journal RunCreated, sj_poisoned = False\<rparr>
     ''k2'' 1 (sample_command 1 RunStarted) = (\<lparr>sj_inner = sample_journal RunCreated, sj_poisoned = False\<rparr>, Err err)"
  by (rule stale_writer_refused [OF sample_first_append rtranclp.rtrancl_refl]) (simp add: sample_journal_def)

lemma last_hash_fixes_journal_witness:
  "collision (\<lambda>_. zero_hash) (event_bytes (sample_event 1 RunCreated)) (event_bytes (sample_event 1 RunStarted))"
proof -
  have "length (event_bytes (sample_event 1 RunCreated)) < usize_limit"
    by (simp add: journal_canonical_bytes_def sample_event_input sample_journal_input_def sample_time_def
        JOURNAL_MAGIC_def date_bytes_def previous_bytes_def)
  moreover have "sample_event 1 RunCreated \<noteq> sample_event 1 RunStarted" by (simp add: sample_event_def)
  ultimately show ?thesis
    using last_hash_fixes_journal [OF sample_history _ _ sample_history, of RunCreated "[sample_event 1 RunCreated]"
        RunStarted "[sample_event 1 RunStarted]"]
    by (simp add: sample_journal_def)
qed

end
