(* ===== verification/Experiment_Run.thy ===== *)
theory Experiment_Run
  imports Primitives Transition_System
begin

text \<open>
  Experiment runs (\<open>ficant-domain/src/research/experiment_run.rs\<close>): creation with the lineage of
  its inputs, and the guarded state machine with optimistic revisions.
\<close>

section \<open>Definitions\<close>

datatype run_state = Created | Running | Succeeded | Failed | Cancelled

record experiment_run =
  er_experiment_run_id :: ulid
  er_owner :: owner_ref
  er_data_snapshot :: lineage_ref
  er_universe_snapshot :: lineage_ref
  er_rule_packs :: "version_ref list"
  er_runtime_image_digest :: content_hash
  er_parameters_hash :: content_hash
  er_seed :: u64
  er_state :: run_state
  er_revision :: u64
  er_lineage :: "lineage_ref list"

record experiment_run_input =
  ei_experiment_run_id :: ulid
  ei_owner :: owner_ref
  ei_data_snapshot :: lineage_ref
  ei_universe_snapshot :: lineage_ref
  ei_rule_packs :: "version_ref list"
  ei_runtime_image_digest :: content_hash
  ei_parameters_hash :: content_hash
  ei_seed :: u64

definition experiment_run_new :: "experiment_run_input \<Rightarrow> experiment_run domain_result" where
  "experiment_run_new input =
     (if ei_rule_packs input = [] then Err BrokenLineage
      else
        let lineage = [ei_data_snapshot input, ei_universe_snapshot input]
              @ map (\<lambda>reference. lineage_ref_versioned (vr_id reference) (vr_version reference)) (ei_rule_packs input)
        in Ok \<lparr>er_experiment_run_id = ei_experiment_run_id input,
               er_owner = ei_owner input,
               er_data_snapshot = ei_data_snapshot input,
               er_universe_snapshot = ei_universe_snapshot input,
               er_rule_packs = ei_rule_packs input,
               er_runtime_image_digest = ei_runtime_image_digest input,
               er_parameters_hash = ei_parameters_hash input,
               er_seed = ei_seed input,
               er_state = Created,
               er_revision = 1,
               er_lineage = lineage\<rparr>)"

fun transition_allowed :: "run_state \<Rightarrow> run_state \<Rightarrow> bool" where
  "transition_allowed Created Running = True"
| "transition_allowed Running Succeeded = True"
| "transition_allowed Running Failed = True"
| "transition_allowed Running Cancelled = True"
| "transition_allowed _ _ = False"

definition run_transition :: "experiment_run \<Rightarrow> run_state \<Rightarrow> u64 \<Rightarrow> experiment_run domain_result" where
  "run_transition self next_state expected_revision =
     (if expected_revision \<noteq> er_revision self then Err VersionConflict
      else if \<not> transition_allowed (er_state self) next_state then Err InvalidStateTransition
      else
        let result = self\<lparr>er_state := next_state\<rparr> in
        and_then (ok_or (checked_add_u64 (er_revision result) 1) VersionConflict)
          (\<lambda>revision. Ok (result\<lparr>er_revision := revision\<rparr>)))"

section \<open>Life of a run\<close>

definition run_terminal :: "run_state \<Rightarrow> bool" where
  "run_terminal s \<longleftrightarrow> s \<in> {Succeeded, Failed, Cancelled}"

inductive run_step :: "experiment_run \<Rightarrow> experiment_run \<Rightarrow> bool" where
  step: "run_transition r s revision = Ok r' \<Longrightarrow> run_step r r'"

inductive_simps run_step_iff: "run_step r r'"

text \<open>How many transitions lie behind a state.\<close>

fun state_depth :: "run_state \<Rightarrow> nat" where
  "state_depth Created = 0"
| "state_depth Running = 1"
| "state_depth _ = 2"

definition run_ok :: "experiment_run \<Rightarrow> bool" where
  "run_ok r \<longleftrightarrow> unat (er_revision r) = 1 + state_depth (er_state r)"

text \<open>Everything but state and revision.\<close>

definition run_identity :: "experiment_run \<Rightarrow> experiment_run" where
  "run_identity r = r\<lparr>er_state := Created, er_revision := 0\<rparr>"

definition run_after :: "experiment_run \<Rightarrow> experiment_run \<Rightarrow> bool" where
  "run_after r r' \<longleftrightarrow>
     run_identity r' = run_identity r \<and>
     (r' = r \<or> state_depth (er_state r) < state_depth (er_state r'))"

lemma transition_depth:
  "transition_allowed s t \<Longrightarrow> state_depth t = state_depth s + 1"
  by (cases s; cases t) simp_all

lemma run_step_facts:
  assumes "run_step r r'"
  shows "run_identity r' = run_identity r" "transition_allowed (er_state r) (er_state r')"
    "unat (er_revision r') = unat (er_revision r) + 1"
  using assms by (auto simp: run_step_iff run_transition_def Let_def result_simps run_identity_def split: if_splits)

interpretation runs: guarded_steps run_step run_ok run_after
proof
  show "run_step r s \<Longrightarrow> run_ok r \<Longrightarrow> run_ok s" for r s
    using run_step_facts [of r s] transition_depth by (simp add: run_ok_def)
  show "run_step r s \<Longrightarrow> run_after r s" for r s
    using run_step_facts [of r s] transition_depth by (fastforce simp: run_after_def)
qed (auto simp: run_after_def)

text \<open>
  C34: in every reachable run the revision tells the state's depth (1 created, 2 running,
  3 finished), so the revision counter cannot overflow: a request with the current revision
  succeeds exactly when the state machine allows the step. A finished run admits no step, and
  no step changes anything but state and revision.
\<close>

theorem run_lifecycle:
  assumes "experiment_run_new input = Ok r" and "run_step\<^sup>*\<^sup>* r s"
  shows "unat (er_revision s) = 1 + state_depth (er_state s) \<and> run_identity s = run_identity r \<and>
    (is_ok (run_transition s next_state (er_revision s)) \<longleftrightarrow> transition_allowed (er_state s) next_state) \<and>
    (run_terminal (er_state s) \<longrightarrow> \<not> is_ok (run_transition s next_state revision))"
proof -
  have "run_ok r" using assms(1) by (auto simp: experiment_run_new_def Let_def run_ok_def split: if_splits)
  then have s: "run_ok s" and "run_after r s"
    using runs.history_invariant [OF assms(2)] runs.history_retains [OF assms(2)] by auto
  have "\<exists>n. checked_add_u64 (er_revision s) 1 = Some n"
    using s by (cases "er_state s") (simp_all add: checked_add_u64_def run_ok_def)
  then have "is_ok (run_transition s next_state (er_revision s)) \<longleftrightarrow> transition_allowed (er_state s) next_state"
    by (auto simp: run_transition_def)
  moreover have "run_terminal (er_state s) \<Longrightarrow> \<not> transition_allowed (er_state s) next_state"
    by (auto simp: run_terminal_def)
  ultimately show ?thesis
    using s \<open>run_after r s\<close> by (auto simp: run_ok_def run_after_def run_transition_def)
qed

definition sample_run_input :: experiment_run_input where
  "sample_run_input =
     \<lparr>ei_experiment_run_id = Ulid ''x'', ei_owner = \<lparr>tenant_id = Ulid ''t'', owner_id = Ulid ''o''\<rparr>,
      ei_data_snapshot = lineage_ref_content_addressed (Ulid ''d'') zero_hash,
      ei_universe_snapshot = lineage_ref_content_addressed (Ulid ''u'') zero_hash,
      ei_rule_packs = [\<lparr>vr_id = Ulid ''p'', vr_version = Version 1\<rparr>],
      ei_runtime_image_digest = zero_hash, ei_parameters_hash = zero_hash, ei_seed = 7\<rparr>"

lemma run_lifecycle_witness:
  "\<exists>r s. experiment_run_new sample_run_input = Ok r \<and> run_transition r Running 1 = Ok s \<and>
     unat (er_revision s) = 2 \<and> is_ok (run_transition s Succeeded (er_revision s))"
proof -
  obtain r where r: "experiment_run_new sample_run_input = Ok r" "er_state r = Created" "er_revision r = 1"
    by (auto simp: experiment_run_new_def sample_run_input_def Let_def)
  then obtain s where s: "run_transition r Running 1 = Ok s" "er_state s = Running"
    by (auto simp: run_transition_def checked_add_u64_def Let_def)
  then have "run_step\<^sup>*\<^sup>* r s" by (blast intro: run_step.step)
  from run_lifecycle [OF r(1) this, of Succeeded] r s show ?thesis by auto
qed

end
