(* ===== verification/Replay.thy ===== *)
theory Replay
  imports Journal_Store Experiment_Run
begin

text \<open>
  Replay of a run's journal (\<open>ficant-runtime/src/replay.rs\<close> and \<open>digest.rs\<close>): the checks on
  each event, the run's state machine driven by event types, and the digest of the replay. The
  theory characterises the journals that replay and shows that the digest identifies them.
\<close>

section \<open>Definitions\<close>

record replay_result =
  rr_run_id :: ulid
  rr_terminal_state :: run_state
  rr_event_count :: nat
  rr_digest :: content_hash

fun replay_transition :: "run_state option \<Rightarrow> journal_event_type \<Rightarrow> run_state runtime_result" where
  "replay_transition None RunCreated = Ok Created"
| "replay_transition (Some Created) RunStarted = Ok Running"
| "replay_transition (Some Running) ArtifactPublished = Ok Running"
| "replay_transition (Some Running) SignalSetPublished = Ok Running"
| "replay_transition (Some Running) RunSucceeded = Ok Succeeded"
| "replay_transition (Some Running) RunFailed = Ok Failed"
| "replay_transition (Some Running) RunCancelled = Ok Cancelled"
| "replay_transition _ _ = Err (DomainError InvalidStateTransition)"

fun replay_loop ::
  "sha256_fn \<Rightarrow> ulid \<Rightarrow> nat \<Rightarrow> run_state option \<Rightarrow> run_journal option \<Rightarrow> run_journal list \<Rightarrow>
   run_state option runtime_result" where
  "replay_loop sha256 run_id index state previous [] = Ok state"
| "replay_loop sha256 run_id index state previous (event # events) =
     and_then (verify_canonical_event sha256 event) (\<lambda>_.
     if rj_run_id event \<noteq> run_id then Err RunIdentityConflict
     else and_then (next_sequence index) (\<lambda>expected_sequence.
     if rj_sequence event \<noteq> expected_sequence then Err (DomainError JournalSequenceConflict)
     else and_then (case previous of
                      Some previous_event \<Rightarrow> domain (validate_after sha256 event previous_event)
                    | None \<Rightarrow> Ok ()) (\<lambda>_.
     and_then (replay_transition state (rj_event_type event)) (\<lambda>state.
     replay_loop sha256 run_id (index + 1) (Some state) (Some event) events))))"

definition REPLAY_MAGIC :: bytes where
  "REPLAY_MAGIC = as_bytes ''FRPL''"

definition REPLAY_VERSION :: u16 where
  "REPLAY_VERSION = 1"

fun state_code :: "run_state \<Rightarrow> byte" where
  "state_code Created = 1"
| "state_code Running = 2"
| "state_code Succeeded = 3"
| "state_code Failed = 4"
| "state_code Cancelled = 5"

definition replay_bytes :: "run_journal list \<Rightarrow> run_state \<Rightarrow> bytes" where
  "replay_bytes events terminal_state =
     REPLAY_MAGIC @ to_be_bytes REPLAY_VERSION
     @ append_field 1 (as_bytes (ulid_str (rj_run_id (hd events))))
     @ append_field 2 (to_be_bytes (word_of_nat (length events) :: u64))
     @ concat (map (\<lambda>event. append_field 3 (hash_bytes (rj_event_hash event))) events)
     @ append_field 4 [state_code terminal_state]"

definition replay_digest :: "sha256_fn \<Rightarrow> run_journal list \<Rightarrow> run_state \<Rightarrow> content_hash" where
  "replay_digest sha256 events terminal_state = sha256 (replay_bytes events terminal_state)"

definition replay :: "sha256_fn \<Rightarrow> run_journal list \<Rightarrow> replay_result runtime_result" where
  "replay sha256 events =
     (case events of
        [] \<Rightarrow> Err (DomainError InvalidStateTransition)
      | first # _ \<Rightarrow>
          and_then (replay_loop sha256 (rj_run_id first) 0 None None events) (\<lambda>state.
          and_then (ok_or state (DomainError InvalidStateTransition)) (\<lambda>terminal_state.
          if terminal_state \<notin> {Succeeded, Failed, Cancelled} then Err (DomainError InvalidStateTransition)
          else Ok \<lparr>rr_run_id = rj_run_id first,
                   rr_terminal_state = terminal_state,
                   rr_event_count = length events,
                   rr_digest = replay_digest sha256 events terminal_state\<rparr>)))"

section \<open>What replays\<close>

lemma verify_canonical_event_Ok [result_simps]:
  "verify_canonical_event sha256 e = Ok u \<longleftrightarrow> event_canonical sha256 e"
  by (auto simp: verify_canonical_event_def journal_canonical_hash_def event_canonical_def result_simps)

text \<open>The state machine alone, over a sequence of event types.\<close>

fun run_types :: "run_state option \<Rightarrow> journal_event_type list \<Rightarrow> run_state option runtime_result" where
  "run_types state [] = Ok state"
| "run_types state (t # ts) = and_then (replay_transition state t) (\<lambda>s. run_types (Some s) ts)"

lemma chain_prefix: "chain sha256 r (es @ fs) \<Longrightarrow> chain sha256 r es"
proof (induction fs rule: rev_induct)
  case (snoc f fs)
  then show ?case using chain_snoc [of sha256 r "es @ fs" f] by simp
qed simp

lemma chain_last:
  "chain sha256 r es \<Longrightarrow> es \<noteq> [] \<Longrightarrow>
     event_canonical sha256 (last es) \<and> rj_run_id (last es) = r \<and> unat (rj_sequence (last es)) = length es"
  by (auto simp: chain_def last_conv_nth)

lemma replay_loop_Ok:
  assumes "chain sha256 r before"
  shows "replay_loop sha256 r (length before) st (if before = [] then None else Some (last before)) events = Ok st' \<longleftrightarrow>
    chain sha256 r (before @ events) \<and> run_types st (map rj_event_type events) = Ok st'"
  using assms
proof (induction events arbitrary: before st)
  case Nil
  then show ?case by simp
next
  case (Cons e es)
  have seq: "next_sequence n = Ok (rj_sequence e) \<longleftrightarrow> unat (rj_sequence e) = n + 1" for n
    by (rule next_sequence_Ok)
  have step: "replay_loop sha256 r (length before) st (if before = [] then None else Some (last before)) (e # es) = Ok st' \<longleftrightarrow>
      chain sha256 r (before @ [e]) \<and> (\<exists>s. replay_transition st (rj_event_type e) = Ok s \<and>
        replay_loop sha256 r (length (before @ [e])) (Some s) (Some e) es = Ok st')"
    using Cons.prems chain_last [OF Cons.prems] seq [of "length before"]
    by (auto simp: result_simps chain_snoc split: if_splits)
  have "replay_loop sha256 r (length (before @ [e])) (Some s) (Some e) es = Ok st' \<longleftrightarrow>
      chain sha256 r ((before @ [e]) @ es) \<and> run_types (Some s) (map rj_event_type es) = Ok st'"
    if "chain sha256 r (before @ [e])" for s
    using Cons.IH [OF that, of "Some s"] by simp
  then show ?case unfolding step using chain_prefix [of sha256 r "before @ [e]" es] by (auto simp: result_simps)
qed

text \<open>The event types of a complete run: created, started, publications, one final event.\<close>

fun final_state :: "journal_event_type \<Rightarrow> run_state option" where
  "final_state RunSucceeded = Some Succeeded"
| "final_state RunFailed = Some Failed"
| "final_state RunCancelled = Some Cancelled"
| "final_state _ = None"

definition complete_run :: "journal_event_type list \<Rightarrow> run_state \<Rightarrow> bool" where
  "complete_run ts st \<longleftrightarrow>
     (\<exists>published final. ts = [RunCreated, RunStarted] @ published @ [final] \<and>
        set published \<subseteq> {ArtifactPublished, SignalSetPublished} \<and> final_state final = Some st)"

definition finishes :: "journal_event_type list \<Rightarrow> run_state \<Rightarrow> bool" where
  "finishes ts st \<longleftrightarrow>
     (\<exists>published final. ts = published @ [final] \<and>
        set published \<subseteq> {ArtifactPublished, SignalSetPublished} \<and> final_state final = Some st)"

lemma finishes_Cons:
  "finishes (t # ts) st \<longleftrightarrow>
     (ts = [] \<and> final_state t = Some st) \<or> (t \<in> {ArtifactPublished, SignalSetPublished} \<and> finishes ts st)"
proof
  assume "finishes (t # ts) st"
  then obtain ps f where *: "t # ts = ps @ [f]" "set ps \<subseteq> {ArtifactPublished, SignalSetPublished}"
    "final_state f = Some st" by (auto simp: finishes_def)
  show "(ts = [] \<and> final_state t = Some st) \<or> (t \<in> {ArtifactPublished, SignalSetPublished} \<and> finishes ts st)"
    using * by (cases ps) (auto simp: finishes_def)
next
  assume "(ts = [] \<and> final_state t = Some st) \<or> (t \<in> {ArtifactPublished, SignalSetPublished} \<and> finishes ts st)"
  then show "finishes (t # ts) st"
    unfolding finishes_def 
    by (auto intro: exI [of _ "[]"] Cons_eq_appendI)
qed

lemma finishes_Nil [simp]: "\<not> finishes [] st"
  by (simp add: finishes_def)

lemma run_types_terminal: "run_terminal s \<Longrightarrow> run_types (Some s) ts = Ok st \<longleftrightarrow> ts = [] \<and> st = Some s"
  by (cases ts) (auto simp: run_terminal_def)

lemma run_types_running:
  "run_types (Some Running) ts = Ok (Some st) \<and> run_terminal st \<longleftrightarrow> finishes ts st"
proof (induction ts)
  case Nil
  then show ?case by (auto simp: run_terminal_def)
next
  case (Cons t ts)
  have stop: "run_terminal Succeeded" "run_terminal Failed" "run_terminal Cancelled"
    by (simp_all add: run_terminal_def)
  show ?case
    using Cons.IH stop
    by (cases t) (auto simp: finishes_Cons run_types_terminal)
qed

lemma run_types_complete:
  "run_types None ts = Ok (Some st) \<and> run_terminal st \<longleftrightarrow> complete_run ts st"
proof (cases ts)
  case Nil
  then show ?thesis by (simp add: complete_run_def)
next
  case (Cons t us)
  show ?thesis
  proof (cases us)
    case Nil
    then show ?thesis using Cons by (cases t) (auto simp: complete_run_def run_terminal_def)
  next
    case (Cons u vs)
    have "complete_run (t # u # vs) st \<longleftrightarrow> t = RunCreated \<and> u = RunStarted \<and> finishes vs st"
      by (auto simp: complete_run_def finishes_def)
    then show ?thesis
      using \<open>ts = t # us\<close> Cons run_types_running [of vs st] by (cases t; cases u) auto
  qed
qed

lemma replay_Ok:
  "replay sha256 events = Ok r \<longleftrightarrow>
     events \<noteq> [] \<and> chain sha256 (rj_run_id (hd events)) events \<and>
     (\<exists>st. complete_run (map rj_event_type events) st \<and>
       r = \<lparr>rr_run_id = rj_run_id (hd events), rr_terminal_state = st, rr_event_count = length events,
            rr_digest = replay_digest sha256 events st\<rparr>)"
proof (cases events)
  case Nil
  then show ?thesis by (simp add: replay_def)
next
  case (Cons e es)
  have loop: "replay_loop sha256 (rj_run_id e) 0 None None events = Ok s \<longleftrightarrow>
      chain sha256 (rj_run_id e) events \<and> run_types None (map rj_event_type events) = Ok s" for s
    using replay_loop_Ok [OF chain_Nil, of sha256 "rj_run_id e" None events s] by simp
  have "replay sha256 events = Ok r \<longleftrightarrow> chain sha256 (rj_run_id e) events \<and>
     (\<exists>st. (run_types None (map rj_event_type events) = Ok (Some st) \<and> run_terminal st) \<and>
       r = \<lparr>rr_run_id = rj_run_id e, rr_terminal_state = st, rr_event_count = length events,
            rr_digest = replay_digest sha256 events st\<rparr>)"
    unfolding replay_def using loop
    by (auto simp: Cons and_then_eq_Ok ok_or_eq_Ok run_terminal_def split: if_splits)
  then show ?thesis unfolding run_types_complete by (simp add: Cons)
qed

text \<open>
  C11: a journal replays exactly when it is a complete chain of one run whose events are
  created, started, any number of artifact or signal-set publications, and one final event; the
  result then names the run, the state of the final event, the number of events and the digest.
\<close>

theorem replay_accepts_complete_chains:
  "replay sha256 events = Ok r \<longleftrightarrow>
     events \<noteq> [] \<and> chain sha256 (rj_run_id (hd events)) events \<and>
     complete_run (map rj_event_type events) (rr_terminal_state r) \<and>
     rr_run_id r = rj_run_id (hd events) \<and> rr_event_count r = length events \<and>
     rr_digest r = replay_digest sha256 events (rr_terminal_state r)"
  unfolding replay_Ok by (cases r) auto

section \<open>The digest\<close>

lemma state_code_inject [simp]: "state_code a = state_code b \<longleftrightarrow> a = b"
  by (cases a; cases b) simp_all

lemma determines_event_hashes:
  "determines (\<lambda>x. append_field 2 (to_be_bytes (word_of_nat (length (fst x)) :: u64))
      @ concat (map (\<lambda>event. append_field 3 (hash_bytes (rj_event_hash event))) (fst x)))
    (\<lambda>x. map rj_event_hash (fst x))"
proof -
  have count: "prefix_code (\<lambda>w. append_field 2 (to_be_bytes (w :: u64)))"
    by (rule determines.weaken [OF determines_append_field]) simp
  have hash: "prefix_code (\<lambda>h. append_field 3 (hash_bytes h))"
    by (rule determines.weaken [OF determines_append_field]) simp
  from prefix_code_of [OF prefix_code_counted [OF count hash], where f = "\<lambda>x. map rj_event_hash (fst x)"]
  show ?thesis by (simp add: comp_def)
qed

interpretation replay_code: determines "\<lambda>(events, st). replay_bytes events st"
  "\<lambda>(events, st). (rj_run_id (hd events), map rj_event_hash events, st)"
proof -
  have "determines (\<lambda>x. REPLAY_MAGIC @ to_be_bytes REPLAY_VERSION
      @ append_field 1 (as_bytes (ulid_str (rj_run_id (hd (fst x)))))
      @ (append_field 2 (to_be_bytes (word_of_nat (length (fst x)) :: u64))
         @ concat (map (\<lambda>event. append_field 3 (hash_bytes (rj_event_hash event))) (fst x)))
      @ append_field 4 [state_code (snd x)])
    (\<lambda>x. ((), (), as_bytes (ulid_str (rj_run_id (hd (fst x)))), map rj_event_hash (fst x), [state_code (snd x)]))"
    by (intro code_intros determines_event_hashes)
  then have "determines (\<lambda>x. replay_bytes (fst x) (snd x))
      (\<lambda>x. (rj_run_id (hd (fst x)), map rj_event_hash (fst x), snd x))"
    unfolding replay_bytes_def append.assoc by (rule determines.weaken) simp
  then show "determines (\<lambda>(events, st). replay_bytes events st)
      (\<lambda>(events, st). (rj_run_id (hd events), map rj_event_hash events, st))"
    by (simp add: case_prod_beta')
qed

text \<open>
  C36: equal replay digests mean equal journals and equal outcomes. If two journals
  replay to the same digest, they are the same list of events with the same result, or the hash
  function collides on the digest input or on two of their events.
\<close>

theorem replay_digest_identifies_journal:
  assumes "replay sha256 es = Ok r" "replay sha256 fs = Ok s" "rr_digest r = rr_digest s"
    and "length (replay_bytes es (rr_terminal_state r)) < usize_limit"
    and "\<forall>e \<in> set es. length (event_bytes e) < usize_limit"
  shows "(es = fs \<and> r = s) \<or>
    collision sha256 (replay_bytes es (rr_terminal_state r)) (replay_bytes fs (rr_terminal_state s)) \<or>
    (\<exists>e \<in> set es. \<exists>f \<in> set fs. collision sha256 (event_bytes e) (event_bytes f))"
proof (cases "replay_bytes es (rr_terminal_state r) = replay_bytes fs (rr_terminal_state s)")
  case False
  then show ?thesis
    using assms(1-3) by (auto simp: replay_Ok replay_digest_def collision_def)
next
  case True
  have content: "map rj_event_hash es = map rj_event_hash fs" "rr_terminal_state r = rr_terminal_state s"
    using replay_code.content_eq [of "(es, rr_terminal_state r)" "(fs, rr_terminal_state s)"] True assms(4) by auto
  have es: "es \<noteq> []" "chain sha256 (rj_run_id (hd es)) es" and fs: "fs \<noteq> []" "chain sha256 (rj_run_id (hd fs)) fs"
    using assms(1,2) by (auto simp: replay_Ok)
  have "rj_event_hash (last es) = rj_event_hash (last fs)"
    using content(1) es(1) fs(1) by (metis last_map)
  then consider "es = fs" | "\<exists>e \<in> set es. \<exists>f \<in> set fs. collision sha256 (event_bytes e) (event_bytes f)"
    using chain_last_hash [OF es(2) fs(2) es(1) fs(1)] assms(5) by blast
  then show ?thesis
  proof cases
    case 1
    then have "r = s" using assms(1,2) content(2) by (auto simp: replay_Ok)
    with 1 show ?thesis by simp
  qed blast
qed

definition sample_run :: "journal_event_type \<Rightarrow> run_journal list" where
  "sample_run final = [sample_event 1 RunCreated, sample_event 2 RunStarted, sample_event 3 final]"

lemma sample_run_replays:
  assumes "final_state final = Some st"
  shows "replay (\<lambda>_. zero_hash) (sample_run final) =
    Ok \<lparr>rr_run_id = Ulid ''r'', rr_terminal_state = st, rr_event_count = 3, rr_digest = zero_hash\<rparr>"
proof -
  have "chain (\<lambda>_. zero_hash) (Ulid ''r'') ([sample_event 1 RunCreated, sample_event 2 RunStarted] @ [sample_event 3 final])"
    unfolding chain_snoc using sample_chain(2) by (simp add: sample_event_canonical)
  moreover have "complete_run [RunCreated, RunStarted, final] st"
    unfolding complete_run_def using assms by (intro exI [of _ "[]"] exI [of _ final]) simp
  ultimately show ?thesis by (simp add: replay_Ok sample_run_def replay_digest_def)
qed

lemma replay_digest_identifies_journal_witness:
  "collision (\<lambda>_. zero_hash) (replay_bytes (sample_run RunSucceeded) Succeeded) (replay_bytes (sample_run RunFailed) Failed) \<or>
   (\<exists>e \<in> set (sample_run RunSucceeded). \<exists>f \<in> set (sample_run RunFailed).
      collision (\<lambda>_. zero_hash) (event_bytes e) (event_bytes f))"
proof -
  have r: "replay (\<lambda>_. zero_hash) (sample_run RunSucceeded) = Ok
      \<lparr>rr_run_id = Ulid ''r'', rr_terminal_state = Succeeded, rr_event_count = 3, rr_digest = zero_hash\<rparr>"
    and s: "replay (\<lambda>_. zero_hash) (sample_run RunFailed) = Ok
      \<lparr>rr_run_id = Ulid ''r'', rr_terminal_state = Failed, rr_event_count = 3, rr_digest = zero_hash\<rparr>"
    by (rule sample_run_replays; simp)+
  have "length (replay_bytes (sample_run RunSucceeded) Succeeded) < usize_limit"
    by (simp add: replay_bytes_def sample_run_def REPLAY_MAGIC_def)
  moreover have "\<forall>e \<in> set (sample_run RunSucceeded). length (event_bytes e) < usize_limit"
    by (simp add: journal_canonical_bytes_def sample_run_def sample_event_input sample_journal_input_def
        sample_time_def JOURNAL_MAGIC_def date_bytes_def previous_bytes_def)
  ultimately show ?thesis
    using replay_digest_identifies_journal [OF r s] by simp
qed

end
