(* ===== verification/Topological_Order.thy ===== *)
theory Topological_Order
  imports Primitives Ordered_Map Node_Contract
begin

text \<open>
  The edges of a research graph and the order its nodes run in
  (\<open>topological_order\<close> of \<open>ficant-domain/src/research/research_graph.rs\<close>): Kahn's algorithm
  with an ordered set of ready nodes. It is shown to end, to succeed exactly on acyclic graphs,
  and to return the topological order that always takes the least ready node.
\<close>

section \<open>Definitions\<close>

record research_edge =
  ed_from_node :: ulid
  ed_from_port :: string
  ed_to_node :: ulid
  ed_to_port :: string

definition edge_new :: "ulid \<Rightarrow> string \<Rightarrow> ulid \<Rightarrow> string \<Rightarrow> research_edge domain_result" where
  "edge_new from_node from_port to_node to_port =
     and_then (ensure_symbol from_port) (\<lambda>_.
     and_then (ensure_symbol to_port) (\<lambda>_.
     if from_node = to_node then Err InvalidValue
     else Ok \<lparr>ed_from_node = from_node, ed_from_port = from_port,
              ed_to_node = to_node, ed_to_port = to_port\<rparr>))"

definition checked_add_usize :: "nat \<Rightarrow> nat \<Rightarrow> nat option" where
  "checked_add_usize a b = (if a + b < usize_limit then Some (a + b) else None)"

type_synonym indegrees = "(ulid, nat) btree_map"
type_synonym adjacency = "(ulid, ulid list) btree_map"

text \<open>The loop over the edges: in-degrees counted through \<open>get_mut\<close>, targets collected per source.\<close>

fun count_edges :: "research_edge list \<Rightarrow> indegrees \<Rightarrow> adjacency \<Rightarrow> (indegrees \<times> adjacency) domain_result" where
  "count_edges [] indegree outgoing = Ok (indegree, outgoing)"
| "count_edges (edge # edges) indegree outgoing =
     and_then (ok_or (map_of indegree (ed_to_node edge)) BrokenLineage) (\<lambda>value.
     and_then (ok_or (checked_add_usize value 1) InvalidValue) (\<lambda>value.
     count_edges edges
       (bt_replace (ed_to_node edge) value indegree)
       (bt_insert (ed_from_node edge)
          ((case map_of outgoing (ed_from_node edge) of Some ts \<Rightarrow> ts | None \<Rightarrow> []) @ [ed_to_node edge])
          outgoing)))"

text \<open>The inner loop over the targets of the node just taken.\<close>

fun release :: "ulid list \<Rightarrow> indegrees \<Rightarrow> ulid btree_set \<Rightarrow> (indegrees \<times> ulid btree_set) domain_result" where
  "release [] indegree ready = Ok (indegree, ready)"
| "release (target # targets) indegree ready =
     and_then (ok_or (map_of indegree target) BrokenLineage) (\<lambda>degree.
     if degree = 0 then Err InvalidValue
     else release targets (bt_replace target (degree - 1) indegree)
            (if degree - 1 = 0 then bset_insert target ready else ready))"

lemma sum_bt_replace:
  "map_of m k = Some d \<Longrightarrow> sum_list (map snd (bt_replace k v m)) + d = sum_list (map snd m) + v"
  for v d :: nat
  by (induction k v m rule: bt_replace.induct) (auto split: if_splits)

lemma release_measure:
  "release ts ind rdy = Ok (ind', rdy') \<Longrightarrow>
     sum_list (map snd ind') + length rdy' \<le> sum_list (map snd ind) + length rdy"
proof (induction ts ind rdy rule: release.induct)
  case (2 t ts ind rdy)
  then obtain d where d: "map_of ind t = Some d" "d \<noteq> 0" by (auto simp: result_simps split: if_splits)
  let ?rdy = "if d - 1 = 0 then bset_insert t rdy else rdy"
  have "sum_list (map snd ind') + length rdy' \<le> sum_list (map snd (bt_replace t (d - 1) ind)) + length ?rdy"
    using 2 d by simp
  also have "\<dots> \<le> sum_list (map snd ind) + length rdy"
    using sum_bt_replace [OF d(1), of "d - 1"] d(2) length_bset_insert [of t rdy] by auto
  finally show ?case .
qed simp

text \<open>\<open>while let Some(node_id) = ready.pop_first()\<close>.\<close>

function kahn :: "adjacency \<Rightarrow> indegrees \<Rightarrow> ulid btree_set \<Rightarrow> ulid list \<Rightarrow> ulid list domain_result" where
  "kahn outgoing indegree [] order = Ok order"
| "kahn outgoing indegree (node_id # ready) order =
     (case map_of outgoing node_id of
        None \<Rightarrow> kahn outgoing indegree ready (order @ [node_id])
      | Some targets \<Rightarrow>
          (case release targets indegree ready of
             Err e \<Rightarrow> Err e
           | Ok (indegree', ready') \<Rightarrow> kahn outgoing indegree' ready' (order @ [node_id])))"
  by pat_completeness auto
termination
  by (relation "measure (\<lambda>(outgoing, indegree, ready, order). sum_list (map snd indegree) + length ready)")
    (auto dest!: release_measure)

definition topological_order ::
  "(ulid, 'n) btree_map \<Rightarrow> research_edge list \<Rightarrow> ulid list domain_result" where
  "topological_order nodes edges =
     (let indegree = bt_collect (map (\<lambda>node_id. (node_id, 0)) (bt_keys nodes)) in
      and_then (count_edges edges indegree []) (\<lambda>(indegree, outgoing).
      let ready = map fst (filter (\<lambda>(_, degree). degree = 0) indegree) in
      and_then (kahn outgoing indegree ready []) (\<lambda>order.
      if length order \<noteq> length nodes then Err InvalidValue else Ok order)))"

section \<open>The specification\<close>

definition edge_relation :: "research_edge list \<Rightarrow> (ulid \<times> ulid) set" where
  "edge_relation edges = (\<lambda>e. (ed_from_node e, ed_to_node e)) ` set edges"

text \<open>The nodes that may run next once the nodes of \<open>finished\<close> have run.\<close>

definition frontier :: "ulid set \<Rightarrow> research_edge list \<Rightarrow> ulid set \<Rightarrow> ulid set" where
  "frontier nodes edges finished =
     {n \<in> nodes - finished. \<forall>m. (m, n) \<in> edge_relation edges \<longrightarrow> m \<in> finished}"

definition least_first :: "ulid set \<Rightarrow> research_edge list \<Rightarrow> ulid list \<Rightarrow> bool" where
  "least_first nodes edges order \<longleftrightarrow>
     (\<forall>i < length order. order ! i \<in> frontier nodes edges (set (take i order)) \<and>
        (\<forall>n \<in> frontier nodes edges (set (take i order)). order ! i \<le> n))"

lemma frontier_Nil [simp]: "frontier {} edges finished = {}"
  by (simp add: frontier_def)

lemma least_first_distinct: "least_first nodes edges order \<Longrightarrow> distinct order"
proof -
  assume "least_first nodes edges order"
  then have "order ! i \<notin> set (take i order)" if "i < length order" for i
    using that by (auto simp: least_first_def frontier_def)
  then have "order ! j \<noteq> order ! i" if "i < length order" "j < i" for i j
    using that by (metis in_set_conv_nth length_take min.absorb4 nth_take)
  then show ?thesis unfolding distinct_conv_nth by (metis linorder_neqE_nat)
qed

lemma least_first_snoc:
  "least_first nodes edges (order @ [x]) \<longleftrightarrow>
     least_first nodes edges order \<and> x \<in> frontier nodes edges (set order) \<and>
     (\<forall>n \<in> frontier nodes edges (set order). x \<le> n)"
  by (auto simp: least_first_def nth_append less_Suc_eq)

lemma least_first_closed:
  assumes "least_first nodes edges order" "(m, n) \<in> edge_relation edges" "n \<in> set order"
  shows "m \<in> set order"
proof -
  obtain i where "i < length order" "n = order ! i" using assms(3) by (auto simp: in_set_conv_nth)
  then have "m \<in> set (take i order)" using assms by (auto simp: least_first_def frontier_def)
  then show ?thesis by (meson in_set_takeD)
qed

text \<open>Taking the least ready node every time leaves no choice.\<close>

lemma least_first_unique:
  assumes "least_first nodes edges o1" "least_first nodes edges o2" "length o1 = length o2"
  shows "o1 = o2"
proof -
  have "i \<le> length o1 \<Longrightarrow> take i o1 = take i o2" for i
  proof (induction i)
    case (Suc i)
    then have i: "i < length o1" "i < length o2" and same: "take i o1 = take i o2"
      using assms(3) by simp_all
    then have "o1 ! i = o2 ! i"
      using assms(1,2) unfolding least_first_def by (metis order_antisym)
    then show ?case using i same by (simp add: take_Suc_conv_app_nth)
  qed simp
  from this [of "length o1"] show ?thesis using assms(3) by simp
qed

lemma acyclic_empty [simp]: "acyclic {}"
  by (simp add: acyclic_def)

text \<open>A complete order exists only on acyclic graphs, and an incomplete one only on cyclic graphs.\<close>

lemma least_first_acyclic:
  assumes "least_first nodes edges order" "edge_relation edges \<subseteq> set order \<times> set order"
  shows "acyclic (edge_relation edges)"
proof -
  let ?pos = "the_inv_into {..<length order} ((!) order)"
  have inj: "inj_on ((!) order) {..<length order}"
    using least_first_distinct [OF assms(1)] by (simp add: inj_on_nth)
  have pos: "?pos (order ! i) = i" if "i < length order" for i
    using the_inv_into_f_f [OF inj] that by simp
  have "edge_relation edges \<subseteq> measure ?pos"
  proof
    fix mn assume mn: "mn \<in> edge_relation edges"
    obtain m n where [simp]: "mn = (m, n)" by (cases mn)
    have "n \<in> set order" using mn assms(2) by auto
    then obtain i where i: "i < length order" "n = order ! i" by (auto simp: in_set_conv_nth)
    then have "m \<in> set (take i order)" using mn assms(1) by (auto simp: least_first_def frontier_def)
    then obtain j where "j < i" "m = order ! j" using i by (auto simp: in_set_conv_nth)
    then show "mn \<in> measure ?pos" using pos i by simp
  qed
  then show ?thesis by (meson wf_acyclic wf_measure wf_subset)
qed

lemma stuck_not_acyclic:
  assumes "frontier nodes edges finished = {}" "n \<in> nodes - finished"
    "edge_relation edges \<subseteq> nodes \<times> nodes"
  shows "\<not> acyclic (edge_relation edges)"
proof
  assume "acyclic (edge_relation edges)"
  then have "wf (edge_relation edges)"
    by (simp add: finite_acyclic_wf edge_relation_def)
  then obtain z where z: "z \<in> nodes - finished"
    "\<And>y. (y, z) \<in> edge_relation edges \<Longrightarrow> y \<notin> nodes - finished"
    using assms(2) by (rule wfE_min) blast
  then have "z \<in> frontier nodes edges finished" using assms(3) by (auto simp: frontier_def)
  with assms(1) show False by simp
qed

section \<open>The two inner loops\<close>

definition degree_of :: "indegrees \<Rightarrow> ulid \<Rightarrow> nat" where
  "degree_of m n = (case map_of m n of Some d \<Rightarrow> d | None \<Rightarrow> 0)"

definition targets_of :: "adjacency \<Rightarrow> ulid \<Rightarrow> ulid list" where
  "targets_of m n = (case map_of m n of Some ts \<Rightarrow> ts | None \<Rightarrow> [])"

definition edges_into :: "research_edge list \<Rightarrow> ulid set \<Rightarrow> ulid \<Rightarrow> nat" where
  "edges_into edges finished n =
     length (filter (\<lambda>e. ed_to_node e = n \<and> ed_from_node e \<notin> finished) edges)"

definition edges_from :: "research_edge list \<Rightarrow> ulid \<Rightarrow> ulid list" where
  "edges_from edges n = map ed_to_node (filter (\<lambda>e. ed_from_node e = n) edges)"

lemma map_of_key: "k \<in> fst ` set m \<Longrightarrow> \<exists>v. map_of m k = Some v"
  by (metis map_of_eq_None_iff not_None_eq)

lemma degree_of_replace:
  "k \<in> fst ` set m \<Longrightarrow> degree_of (bt_replace k v m) n = (if n = k then v else degree_of m n)"
  using map_of_key [of k m] by (auto simp: degree_of_def bt_get_replace)

lemma keys_replace [simp]: "fst ` set (bt_replace k v m) = fst ` set m"
  using bt_replace_keys [of k v m] by (metis list.set_map)

lemma targets_of_insert:
  "targets_of (bt_insert k v m) n = (if n = k then v else targets_of m n)"
  by (simp add: targets_of_def)

lemma count_edges_correct:
  assumes "\<forall>e \<in> set edges. ed_to_node e \<in> fst ` set ind"
    "\<forall>n. degree_of ind n + length edges < usize_limit"
  shows "\<exists>ind' out'. count_edges edges ind out = Ok (ind', out') \<and> map fst ind' = map fst ind \<and>
    (\<forall>n. degree_of ind' n = degree_of ind n + edges_into edges {} n) \<and>
    (\<forall>n. targets_of out' n = targets_of out n @ edges_from edges n) \<and>
    (\<forall>n. map_of out' n = None \<longrightarrow> targets_of out' n = [])"
  using assms
proof (induction edges arbitrary: ind out)
  case Nil
  then show ?case by (simp add: edges_into_def edges_from_def targets_of_def)
next
  case (Cons e es)
  let ?t = "ed_to_node e" and ?f = "ed_from_node e"
  have t: "?t \<in> fst ` set ind" using Cons.prems(1) by simp
  obtain d where d: "map_of ind ?t = Some d" using map_of_key [OF t] by blast
  then have deg: "degree_of ind ?t = d" by (simp add: degree_of_def)
  let ?ind = "bt_replace ?t (d + 1) ind" and ?out = "bt_insert ?f (targets_of out ?f @ [?t]) out"
  have fits: "degree_of ind n + length (e # es) < usize_limit" for n using Cons.prems(2) by blast
  have ind: "degree_of ?ind n = (if n = ?t then d + 1 else degree_of ind n)" for n
    by (rule degree_of_replace [OF t])
  have "degree_of ?ind n + length es < usize_limit" for n
    using fits [of n] deg unfolding ind by auto
  then obtain ind' out' where IH: "count_edges es ?ind ?out = Ok (ind', out')"
    "map fst ind' = map fst ?ind" "\<forall>n. degree_of ind' n = degree_of ?ind n + edges_into es {} n"
    "\<forall>n. targets_of out' n = targets_of ?out n @ edges_from es n"
    "\<forall>n. map_of out' n = None \<longrightarrow> targets_of out' n = []"
    using Cons.IH [of ?ind ?out] Cons.prems(1) by auto
  have step: "count_edges (e # es) ind out = Ok (ind', out')"
    using d IH(1) fits [of ?t] deg by (simp add: checked_add_usize_def targets_of_def)
  have "\<forall>n. degree_of ind' n = degree_of ind n + edges_into (e # es) {} n"
    using IH(3) ind deg by (simp add: edges_into_def)
  moreover have "\<forall>n. targets_of out' n = targets_of out n @ edges_from (e # es) n"
    using IH(4) by (simp add: targets_of_insert edges_from_def)
  ultimately show ?case using step IH(2,5) by auto
qed

lemma release_correct:
  assumes "\<forall>n. count_list ts n \<le> degree_of ind n" "set ts \<subseteq> fst ` set ind" "sorted_wrt (<) rdy"
  shows "\<exists>ind' rdy'. release ts ind rdy = Ok (ind', rdy') \<and> map fst ind' = map fst ind \<and>
    (\<forall>n. degree_of ind' n = degree_of ind n - count_list ts n) \<and> sorted_wrt (<) rdy' \<and>
    set rdy' = set rdy \<union> {n \<in> set ts. degree_of ind' n = 0}"
  using assms
proof (induction ts arbitrary: ind rdy)
  case Nil
  then show ?case by auto
next
  case (Cons t ts)
  have t: "t \<in> fst ` set ind" using Cons.prems(2) by simp
  obtain d where d: "map_of ind t = Some d" using map_of_key [OF t] by blast
  then have deg: "degree_of ind t = d" by (simp add: degree_of_def)
  have count: "count_list (t # ts) n \<le> degree_of ind n" for n using Cons.prems(1) by blast
  then have pos: "0 < d" "count_list ts t \<le> d - 1" using deg count [of t] by auto
  let ?ind = "bt_replace t (d - 1) ind" and ?rdy = "if d - 1 = 0 then bset_insert t rdy else rdy"
  have ind: "degree_of ?ind n = (if n = t then d - 1 else degree_of ind n)" for n
    by (rule degree_of_replace [OF t])
  have "\<forall>n. count_list ts n \<le> degree_of ?ind n" using count pos ind by (metis count_list.simps(2))
  moreover have "set ts \<subseteq> fst ` set ?ind" using Cons.prems(2) by simp
  moreover have "sorted_wrt (<) ?rdy" using Cons.prems(3) by (simp add: sorted_bset_insert)
  ultimately obtain ind' rdy' where IH: "release ts ?ind ?rdy = Ok (ind', rdy')" "map fst ind' = map fst ?ind"
    "\<forall>n. degree_of ind' n = degree_of ?ind n - count_list ts n" "sorted_wrt (<) rdy'"
    "set rdy' = set ?rdy \<union> {n \<in> set ts. degree_of ind' n = 0}"
    using Cons.IH [of ?ind ?rdy] by blast
  have degs: "\<forall>n. degree_of ind' n = degree_of ind n - count_list (t # ts) n"
    using IH(3) ind deg by auto
  have "degree_of ind' t = 0 \<and> t \<notin> set ts \<longleftrightarrow> d - 1 = 0 \<and> t \<notin> set ts"
    using IH(3) ind by (auto simp: count_list_0_iff)
  moreover have "d - 1 = 0 \<Longrightarrow> degree_of ind' t = 0" using IH(3) ind by simp
  ultimately have "set rdy' = set rdy \<union> {n \<in> set (t # ts). degree_of ind' n = 0}"
    unfolding IH(5) by auto
  moreover have "release (t # ts) ind rdy = Ok (ind', rdy')" using d pos IH(1) by simp
  ultimately show ?case using IH(2,4) degs by auto
qed

section \<open>The main loop\<close>

text \<open>The state between two iterations, \<open>ks\<close> being the nodes in ascending order.\<close>

definition kahn_inv ::
  "ulid list \<Rightarrow> research_edge list \<Rightarrow> indegrees \<Rightarrow> ulid btree_set \<Rightarrow> ulid list \<Rightarrow> bool" where
  "kahn_inv ks edges indegree ready order \<longleftrightarrow>
     map fst indegree = ks \<and>
     (\<forall>n \<in> set ks. degree_of indegree n = edges_into edges (set order) n) \<and>
     sorted_wrt (<) ready \<and> set ready = frontier (set ks) edges (set order) \<and>
     least_first (set ks) edges order"

lemma edges_into_0: "edges_into edges finished n = 0 \<longleftrightarrow> (\<forall>m. (m, n) \<in> edge_relation edges \<longrightarrow> m \<in> finished)"
  by (auto simp: edges_into_def edge_relation_def filter_empty_conv)

lemma frontier_degree:
  "frontier nodes edges finished = {n \<in> nodes - finished. edges_into edges finished n = 0}"
  by (simp add: frontier_def edges_into_0)

lemma edges_into_insert:
  "x \<notin> finished \<Longrightarrow> edges_into edges (insert x finished) n = edges_into edges finished n - count_list (edges_from edges x) n"
  "x \<notin> finished \<Longrightarrow> count_list (edges_from edges x) n \<le> edges_into edges finished n"
proof -
  assume x: "x \<notin> finished"
  have "edges_into edges finished n = edges_into edges (insert x finished) n + count_list (edges_from edges x) n"
    using x by (induction edges) (auto simp: edges_into_def edges_from_def)
  then show "edges_into edges (insert x finished) n = edges_into edges finished n - count_list (edges_from edges x) n"
    "count_list (edges_from edges x) n \<le> edges_into edges finished n" by simp_all
qed

lemma set_edges_from: "n \<in> set (edges_from edges x) \<longleftrightarrow> (x, n) \<in> edge_relation edges"
  by (auto simp: edges_from_def edge_relation_def image_iff)

text \<open>One iteration: the released targets are exactly the nodes that enter the frontier.\<close>

lemma kahn_inv_step:
  assumes inv: "kahn_inv ks edges ind (x # rdy) order"
    and ends: "edge_relation edges \<subseteq> set ks \<times> set ks"
  shows "\<exists>ind' rdy'. release (edges_from edges x) ind rdy = Ok (ind', rdy') \<and>
    kahn_inv ks edges ind' rdy' (order @ [x])"
proof -
  have keys: "map fst ind = ks" and sorted: "sorted_wrt (<) (x # rdy)"
    and front: "insert x (set rdy) = frontier (set ks) edges (set order)"
    and lf: "least_first (set ks) edges order"
    and deg: "\<And>n. n \<in> set ks \<Longrightarrow> degree_of ind n = edges_into edges (set order) n"
    using inv by (auto simp: kahn_inv_def)
  have x: "x \<in> frontier (set ks) edges (set order)" using front by blast
  then have x': "x \<notin> set order" by (simp add: frontier_def)
  have set_ks: "fst ` set ind = set ks" using keys by (metis list.set_map)
  have sub: "set (edges_from edges x) \<subseteq> set ks" using ends set_edges_from by auto
  have "count_list (edges_from edges x) n \<le> degree_of ind n" for n
  proof (cases "n \<in> set ks")
    case True
    then show ?thesis using deg edges_into_insert(2) [OF x'] by simp
  next
    case False
    then have "count_list (edges_from edges x) n = 0" using sub by (auto simp: count_list_0_iff)
    then show ?thesis by simp
  qed
  then obtain ind' rdy' where rel: "release (edges_from edges x) ind rdy = Ok (ind', rdy')"
    "map fst ind' = map fst ind" "\<forall>n. degree_of ind' n = degree_of ind n - count_list (edges_from edges x) n"
    "sorted_wrt (<) rdy'" "set rdy' = set rdy \<union> {n \<in> set (edges_from edges x). degree_of ind' n = 0}"
    using release_correct [of "edges_from edges x" ind rdy] sub set_ks sorted by auto
  have deg': "degree_of ind' n = edges_into edges (set (order @ [x])) n" if "n \<in> set ks" for n
    using rel(3) deg [OF that] edges_into_insert(1) [OF x', of edges n] by simp
  have "set rdy' = frontier (set ks) edges (set (order @ [x]))"
  proof (intro set_eqI iffI)
    fix n assume n: "n \<in> set rdy'"
    then consider "n \<in> set rdy" | "(x, n) \<in> edge_relation edges" "degree_of ind' n = 0"
      using rel(5) by (auto simp: set_edges_from)
    then show "n \<in> frontier (set ks) edges (set (order @ [x]))"
    proof cases
      case 1
      then have "n \<in> frontier (set ks) edges (set order)" "n \<noteq> x" using front sorted by auto
      then show ?thesis by (auto simp: frontier_def)
    next
      case 2
      have "n \<notin> set order" using least_first_closed [OF lf 2(1)] x' by blast
      moreover have "n \<noteq> x" using 2(1) x x' by (auto simp: frontier_def)
      moreover have "n \<in> set ks" using ends 2(1) by blast
      ultimately show ?thesis using 2(2) deg' by (simp add: frontier_degree)
    qed
  next
    fix n assume "n \<in> frontier (set ks) edges (set (order @ [x]))"
    then have n: "n \<in> set ks" "n \<notin> set order" "n \<noteq> x" "degree_of ind' n = 0"
      using deg' by (auto simp: frontier_degree)
    show "n \<in> set rdy'"
    proof (cases "edges_into edges (set order) n = 0")
      case True
      then show ?thesis using n front rel(5) by (auto simp: frontier_degree)
    next
      case False
      then have "count_list (edges_from edges x) n \<noteq> 0" using rel(3) deg [OF n(1)] n(4) by simp
      then show ?thesis using rel(5) n(4) by (simp add: count_list_0_iff)
    qed
  qed
  moreover have "least_first (set ks) edges (order @ [x])"
    unfolding least_first_snoc using lf x sorted by (auto simp flip: front)
  ultimately show ?thesis using rel keys deg' by (auto simp: kahn_inv_def)
qed

lemma kahn_correct:
  assumes "kahn_inv ks edges ind rdy order" "edge_relation edges \<subseteq> set ks \<times> set ks"
    "\<forall>n. targets_of out n = edges_from edges n"
  shows "\<exists>order'. kahn out ind rdy order = Ok order' \<and> least_first (set ks) edges order' \<and>
    frontier (set ks) edges (set order') = {}"
  using assms
proof (induction out ind rdy order rule: kahn.induct)
  case (1 out ind order)
  then show ?case by (simp add: kahn_inv_def)
next
  case (2 out ind x rdy order)
  obtain ind' rdy' where step: "release (edges_from edges x) ind rdy = Ok (ind', rdy')"
    "kahn_inv ks edges ind' rdy' (order @ [x])"
    using kahn_inv_step [OF 2(3,4)] by blast
  show ?case
  proof (cases "map_of out x")
    case None
    then have "edges_from edges x = []" using 2(5) [rule_format, of x] by (simp add: targets_of_def)
    then have "kahn_inv ks edges ind rdy (order @ [x])" using step by simp
    then show ?thesis using 2(1) [OF None _ 2(4,5)] None by simp
  next
    case (Some ts)
    then have "ts = edges_from edges x" using 2(5) [rule_format, of x] by (simp add: targets_of_def)
    then show ?thesis using 2(2) [OF Some _ _ step(2) 2(4,5)] Some step(1) by simp
  qed
qed

text \<open>The first ready set: the keys of the zero entries, in ascending order.\<close>

lemma initial_ready:
  assumes "map fst ind = ks" "sorted_wrt (<) ks"
  shows "sorted_wrt (<) (map fst (filter (\<lambda>(_, degree). degree = 0) ind))"
    and "set (map fst (filter (\<lambda>(_, degree). degree = 0) ind)) = {n \<in> set ks. degree_of ind n = 0}"
proof -
  have dist: "distinct (map fst ind)" using assms by (simp add: strict_sorted_iff)
  have key: "n \<in> set ks \<longleftrightarrow> map_of ind n \<noteq> None" for n
    using assms(1) by (metis list.set_map map_of_eq_None_iff)
  show "sorted_wrt (<) (map fst (filter (\<lambda>(_, degree). degree = 0) ind))"
    using assms(2) unfolding assms(1) [symmetric] sorted_wrt_map by (rule sorted_wrt_filter)
  have "set (map fst (filter (\<lambda>(_, degree). degree = 0) ind)) = {n. map_of ind n = Some 0}"
    unfolding map_of_eq_Some_iff [OF dist] by force
  also have "\<dots> = {n \<in> set ks. degree_of ind n = 0}"
    using key by (auto simp: degree_of_def)
  finally show "set (map fst (filter (\<lambda>(_, degree). degree = 0) ind)) = {n \<in> set ks. degree_of ind n = 0}" .
qed

definition graph_order :: "(ulid, 'n) btree_map \<Rightarrow> research_edge list \<Rightarrow> ulid list \<Rightarrow> bool" where
  "graph_order nodes edges order \<longleftrightarrow>
     set order = set (bt_keys nodes) \<and> least_first (set (bt_keys nodes)) edges order"

lemma topological_order_correct:
  assumes ok: "bt_ok nodes" and ends: "edge_relation edges \<subseteq> set (bt_keys nodes) \<times> set (bt_keys nodes)"
    and size: "length edges < usize_limit"
  shows "(\<exists>order. topological_order nodes edges = Ok order \<and> graph_order nodes edges order \<and>
      acyclic (edge_relation edges)) \<or>
    (topological_order nodes edges = Err InvalidValue \<and> \<not> acyclic (edge_relation edges))"
proof -
  let ?ks = "bt_keys nodes"
  let ?zeros = "map (\<lambda>node_id. (node_id, 0)) ?ks :: indegrees"
  have sorted: "sorted_wrt (<) ?ks" using ok by (simp add: bt_ok_def bt_keys_def)
  have fst: "map fst ?zeros = ?ks" by (simp add: comp_def)
  have zeros: "bt_collect ?zeros = ?zeros" by (rule bt_collect_sorted) (simp only: fst sorted)
  have deg0: "degree_of ?zeros n = 0" for n
    by (auto simp: degree_of_def map_of_map_keys split: option.splits dest!: map_of_SomeD)
  have into: "\<forall>e \<in> set edges. ed_to_node e \<in> fst ` set ?zeros"
    using ends by (force simp: edge_relation_def)
  have room: "\<forall>n. degree_of ?zeros n + length edges < usize_limit" using size deg0 by simp
  obtain ind out where count: "count_edges edges ?zeros [] = Ok (ind, out)" "map fst ind = ?ks"
    "\<forall>n. degree_of ind n = edges_into edges {} n" "\<forall>n. targets_of out n = edges_from edges n"
    using count_edges_correct [OF into room, of "[]"] fst deg0 by (auto simp: targets_of_def [of "[]"])
  let ?ready = "map fst (filter (\<lambda>(_, degree). degree = 0) ind)"
  have "kahn_inv ?ks edges ind ?ready []"
    using initial_ready [OF count(2) sorted] count(2,3)
    by (auto simp: kahn_inv_def least_first_def frontier_degree)
  then obtain order where kahn: "kahn out ind ?ready [] = Ok order"
    "least_first (set ?ks) edges order" "frontier (set ?ks) edges (set order) = {}"
    using kahn_correct [OF _ ends count(4)] by blast
  have sub: "set order \<subseteq> set ?ks"
    using kahn(2) by (auto simp: least_first_def frontier_def in_set_conv_nth)
  have "distinct ?ks" "length nodes = length ?ks" using sorted by (simp_all add: strict_sorted_iff bt_keys_def)
  then have complete: "length order = length nodes \<longleftrightarrow> set order = set ?ks"
    using sub least_first_distinct [OF kahn(2)]
    by (metis List.finite_set card_subset_eq distinct_card)
  have result: "topological_order nodes edges = (if length order \<noteq> length nodes then Err InvalidValue else Ok order)"
    unfolding topological_order_def Let_def zeros by (simp add: count(1) kahn(1))
  show ?thesis
  proof (cases "set order = set ?ks")
    case True
    then show ?thesis
      using result complete kahn(2) least_first_acyclic [OF kahn(2)] ends by (simp add: graph_order_def)
  next
    case False
    then obtain n where "n \<in> set ?ks - set order" using sub by blast
    then show ?thesis using result complete False stuck_not_acyclic [OF kahn(3) _ ends] by auto
  qed
qed

text \<open>
  C26: for a node map and edges between its nodes, the algorithm returns an order exactly
  when the edges are acyclic, and the order it returns is the one that lists every node after
  all its predecessors and always takes the least node that is ready.
\<close>

theorem topological_order_iff:
  assumes "bt_ok nodes" "edge_relation edges \<subseteq> set (bt_keys nodes) \<times> set (bt_keys nodes)"
    "length edges < usize_limit"
  shows "topological_order nodes edges = Ok order \<longleftrightarrow>
    acyclic (edge_relation edges) \<and> set order = set (bt_keys nodes) \<and>
    least_first (set (bt_keys nodes)) edges order"
proof -
  have "o1 = o2" if "graph_order nodes edges o1" "graph_order nodes edges o2" for o1 o2
    using that least_first_unique [of _ edges o1 o2] least_first_distinct
    by (metis graph_order_def distinct_card)
  then show ?thesis
    using topological_order_correct [OF assms] by (auto simp: graph_order_def)
qed

lemma topological_order_iff_witness:
  "topological_order [(Ulid ''A'', ()), (Ulid ''B'', ()), (Ulid ''C'', ())]
     [\<lparr>ed_from_node = Ulid ''B'', ed_from_port = ''out'', ed_to_node = Ulid ''A'', ed_to_port = ''in''\<rparr>]
   = Ok [Ulid ''B'', Ulid ''A'', Ulid ''C''] \<and>
   least_first {Ulid ''A'', Ulid ''B'', Ulid ''C''}
     [\<lparr>ed_from_node = Ulid ''B'', ed_from_port = ''out'', ed_to_node = Ulid ''A'', ed_to_port = ''in''\<rparr>]
     [Ulid ''B'', Ulid ''A'', Ulid ''C'']"
proof -
  let ?nodes = "[(Ulid ''A'', ()), (Ulid ''B'', ()), (Ulid ''C'', ())]"
  let ?edges = "[\<lparr>ed_from_node = Ulid ''B'', ed_from_port = ''out'', ed_to_node = Ulid ''A'', ed_to_port = ''in''\<rparr>]"
  have hyps: "bt_ok ?nodes" "length ?edges < usize_limit"
    "edge_relation ?edges \<subseteq> set (bt_keys ?nodes) \<times> set (bt_keys ?nodes)"
    by (simp_all add: bt_ok_def less_ulid_def bt_keys_def edge_relation_def)
  have run: "topological_order ?nodes ?edges = Ok [Ulid ''B'', Ulid ''A'', Ulid ''C'']"
    by (simp add: topological_order_def bt_collect_def bt_keys_def checked_add_usize_def less_ulid_def
        less_eq_ulid_def bset_insert_def)
  then show ?thesis
    using topological_order_iff [OF hyps(1,3,2), of "[Ulid ''B'', Ulid ''A'', Ulid ''C'']"]
    by (simp add: bt_keys_def insert_commute)
qed

end
