(* ===== verification/Research_Graph.thy ===== *)
theory Research_Graph
  imports Topological_Order
begin

text \<open>
  Research graphs (\<open>ficant-domain/src/research/research_graph.rs\<close>, second part): nodes with their
  contracts, typed edges, external inputs, the validation of all bindings, and the constructor
  that puts a graph in canonical form. The theory characterises which inputs are accepted, shows
  what every accepted graph satisfies, that the order of the input lists does not matter, and
  that the digest identifies the graph.
\<close>

section \<open>Definitions\<close>

record research_node =
  nd_node_id :: ulid
  nd_contract :: research_node_contract
  nd_parameters_hash :: content_hash

record graph_external_input =
  gi_input_id :: string
  gi_value_type :: typed_value

definition graph_external_input_new :: "string \<Rightarrow> typed_value \<Rightarrow> graph_external_input domain_result" where
  "graph_external_input_new input_id value_type =
     and_then (ensure_symbol input_id)
       (\<lambda>_. Ok \<lparr>gi_input_id = input_id, gi_value_type = value_type\<rparr>)"

record graph_external_input_binding =
  gb_input_id :: string
  gb_to_node :: ulid
  gb_to_port :: string

definition graph_external_input_binding_new ::
  "string \<Rightarrow> ulid \<Rightarrow> string \<Rightarrow> graph_external_input_binding domain_result" where
  "graph_external_input_binding_new input_id to_node to_port =
     and_then (ensure_symbol input_id) (\<lambda>_.
     and_then (ensure_symbol to_port)
       (\<lambda>_. Ok \<lparr>gb_input_id = input_id, gb_to_node = to_node, gb_to_port = to_port\<rparr>))"

record research_graph =
  rg_graph_id :: ulid
  rg_version :: version
  rg_owner :: owner_ref
  rg_nodes :: "research_node list"
  rg_edges :: "research_edge list"
  rg_external_inputs :: "graph_external_input list"
  rg_external_input_bindings :: "graph_external_input_binding list"
  rg_topological_order :: "ulid list"
  rg_digest :: content_hash

record research_graph_input =
  ri_graph_id :: ulid
  ri_version :: version
  ri_owner :: owner_ref
  ri_nodes :: "research_node list"
  ri_edges :: "research_edge list"

text \<open>The derived orders of edges and bindings compare the fields from left to right.\<close>

definition edge_key :: "research_edge \<Rightarrow> ulid \<times> string \<times> ulid \<times> string" where
  "edge_key e = (ed_from_node e, ed_from_port e, ed_to_node e, ed_to_port e)"

definition binding_key :: "graph_external_input_binding \<Rightarrow> string \<times> ulid \<times> string" where
  "binding_key b = (gb_input_id b, gb_to_node b, gb_to_port b)"

type_synonym node_map = "(ulid, research_node) btree_map"
type_synonym bound_ports = "(ulid \<times> string) btree_set"

fun validate_edges :: "node_map \<Rightarrow> research_edge list \<Rightarrow> bound_ports \<Rightarrow> bound_ports domain_result" where
  "validate_edges nodes [] bindings = Ok bindings"
| "validate_edges nodes (edge # edges) bindings =
     and_then (ok_or (map_of nodes (ed_from_node edge)) BrokenLineage) (\<lambda>source.
     and_then (ok_or (map_of nodes (ed_to_node edge)) BrokenLineage) (\<lambda>target.
     and_then (port (ct_output_types (nd_contract source)) (ed_from_port edge)) (\<lambda>output.
     and_then (port (ct_input_types (nd_contract target)) (ed_to_port edge)) (\<lambda>input.
     if pt_value_type output \<noteq> pt_value_type input then Err InvalidValue
     else if (ed_to_node edge, ed_to_port edge) \<in> set bindings then Err InvalidValue
     else validate_edges nodes edges (bset_insert (ed_to_node edge, ed_to_port edge) bindings)))))"

fun validate_external ::
  "node_map \<Rightarrow> (string, graph_external_input) btree_map \<Rightarrow> graph_external_input_binding list \<Rightarrow>
   bound_ports \<Rightarrow> string btree_set \<Rightarrow> (bound_ports \<times> string btree_set) domain_result" where
  "validate_external nodes declarations [] bindings used = Ok (bindings, used)"
| "validate_external nodes declarations (binding # rest) bindings used =
     and_then (ok_or (map_of declarations (gb_input_id binding)) BrokenLineage) (\<lambda>declaration.
     and_then (ok_or (map_of nodes (gb_to_node binding)) BrokenLineage) (\<lambda>target.
     and_then (port (ct_input_types (nd_contract target)) (gb_to_port binding)) (\<lambda>input.
     if gi_value_type declaration \<noteq> pt_value_type input then Err InvalidValue
     else if (gb_to_node binding, gb_to_port binding) \<in> set bindings then Err InvalidValue
     else validate_external nodes declarations rest
       (bset_insert (gb_to_node binding, gb_to_port binding) bindings)
       (bset_insert (gb_input_id binding) used))))"

definition validate_bindings ::
  "node_map \<Rightarrow> research_edge list \<Rightarrow> graph_external_input list \<Rightarrow>
   graph_external_input_binding list \<Rightarrow> unit domain_result" where
  "validate_bindings nodes edges external_inputs external_input_bindings =
     and_then (validate_edges nodes edges []) (\<lambda>bindings.
     let declarations = bt_collect (map (\<lambda>input. (gi_input_id input, input)) external_inputs) in
     and_then (validate_external nodes declarations external_input_bindings bindings [])
       (\<lambda>(bindings, used_external_inputs).
     if length used_external_inputs \<noteq> length external_inputs then Err BrokenLineage
     else if \<not> list_all (\<lambda>(_, node).
                 list_all (\<lambda>input. (nd_node_id node, pt_port_name input) \<in> set bindings)
                   (ct_input_types (nd_contract node))) nodes
     then Err BrokenLineage
     else Ok ()))"

definition push_node :: "research_node \<Rightarrow> bytes" where
  "push_node n = push_str (ulid_str (nd_node_id n)) @ hash_bytes (ct_digest (nd_contract n))
     @ hash_bytes (nd_parameters_hash n)"

definition push_edge :: "research_edge \<Rightarrow> bytes" where
  "push_edge e = push_str (ulid_str (ed_from_node e)) @ push_str (ed_from_port e)
     @ push_str (ulid_str (ed_to_node e)) @ push_str (ed_to_port e)"

definition push_external_input :: "graph_external_input \<Rightarrow> bytes" where
  "push_external_input i = push_str (gi_input_id i) @ push_typed_value (gi_value_type i)"

definition push_binding :: "graph_external_input_binding \<Rightarrow> bytes" where
  "push_binding b = push_str (gb_input_id b) @ push_str (ulid_str (gb_to_node b)) @ push_str (gb_to_port b)"

definition graph_canonical_bytes :: "research_graph \<Rightarrow> bytes" where
  "graph_canonical_bytes g =
     as_bytes ''ficant/research-graph/v1''
     @ push_str (ulid_str (rg_graph_id g))
     @ push_u64 (version_get (rg_version g))
     @ push_str (ulid_str (tenant_id (rg_owner g)))
     @ push_str (ulid_str (owner_id (rg_owner g)))
     @ push_each push_node (rg_nodes g)
     @ push_each push_edge (rg_edges g)
     @ push_each push_external_input (rg_external_inputs g)
     @ push_each push_binding (rg_external_input_bindings g)"

definition node_map_of :: "research_node list \<Rightarrow> node_map" where
  "node_map_of nodes = bt_collect (map (\<lambda>node. (nd_node_id node, node)) nodes)"

definition graph_new_with_external_inputs ::
  "sha256_fn \<Rightarrow> research_graph_input \<Rightarrow> graph_external_input list \<Rightarrow>
   graph_external_input_binding list \<Rightarrow> research_graph domain_result" where
  "graph_new_with_external_inputs sha256 input external_inputs external_input_bindings =
     (if ri_nodes input = [] then Err InvalidValue
      else
        let nodes = sort_key nd_node_id (ri_nodes input) in
        if windows2_any (\<lambda>a b. nd_node_id a = nd_node_id b) nodes then Err InvalidValue
        else
          let node_map = node_map_of nodes;
              edges = sort_key edge_key (ri_edges input) in
          if windows2_any (=) edges then Err InvalidValue
          else
            let external_inputs = sort_key gi_input_id external_inputs in
            if windows2_any (\<lambda>a b. gi_input_id a = gi_input_id b) external_inputs
            then Err InvalidValue
            else
              let external_input_bindings = sort_key binding_key external_input_bindings in
              if windows2_any (=) external_input_bindings then Err InvalidValue
              else
                and_then (validate_bindings node_map edges external_inputs external_input_bindings) (\<lambda>_.
                and_then (topological_order node_map edges) (\<lambda>order.
                let result =
                  \<lparr>rg_graph_id = ri_graph_id input,
                   rg_version = ri_version input,
                   rg_owner = ri_owner input,
                   rg_nodes = nodes,
                   rg_edges = edges,
                   rg_external_inputs = external_inputs,
                   rg_external_input_bindings = external_input_bindings,
                   rg_topological_order = order,
                   rg_digest = sha256 (as_bytes ''uninitialized'')\<rparr>
                in Ok (result\<lparr>rg_digest := sha256 (graph_canonical_bytes result)\<rparr>))))"

definition graph_new :: "sha256_fn \<Rightarrow> research_graph_input \<Rightarrow> research_graph domain_result" where
  "graph_new sha256 input = graph_new_with_external_inputs sha256 input [] []"

section \<open>What the validation checks\<close>

definition edge_typed :: "research_node list \<Rightarrow> research_edge \<Rightarrow> bool" where
  "edge_typed nodes e \<longleftrightarrow>
     (\<exists>s \<in> set nodes. \<exists>t \<in> set nodes.
        \<exists>p \<in> set (ct_output_types (nd_contract s)). \<exists>q \<in> set (ct_input_types (nd_contract t)).
        nd_node_id s = ed_from_node e \<and> pt_port_name p = ed_from_port e \<and>
        nd_node_id t = ed_to_node e \<and> pt_port_name q = ed_to_port e \<and>
        pt_value_type p = pt_value_type q)"

definition binding_typed ::
  "research_node list \<Rightarrow> graph_external_input list \<Rightarrow> graph_external_input_binding \<Rightarrow> bool" where
  "binding_typed nodes inputs b \<longleftrightarrow>
     (\<exists>d \<in> set inputs. \<exists>t \<in> set nodes. \<exists>q \<in> set (ct_input_types (nd_contract t)).
        gi_input_id d = gb_input_id b \<and> nd_node_id t = gb_to_node b \<and>
        pt_port_name q = gb_to_port b \<and> gi_value_type d = pt_value_type q)"

text \<open>The input ports that receive a value, with repetitions: from an edge or from outside.\<close>

definition fed_ports ::
  "research_edge list \<Rightarrow> graph_external_input_binding list \<Rightarrow> (ulid \<times> string) list" where
  "fed_ports edges bindings =
     map (\<lambda>e. (ed_to_node e, ed_to_port e)) edges @ map (\<lambda>b. (gb_to_node b, gb_to_port b)) bindings"

definition bindings_valid ::
  "research_node list \<Rightarrow> research_edge list \<Rightarrow> graph_external_input list \<Rightarrow>
   graph_external_input_binding list \<Rightarrow> bool" where
  "bindings_valid nodes edges inputs bindings \<longleftrightarrow>
     (\<forall>e \<in> set edges. edge_typed nodes e) \<and>
     (\<forall>b \<in> set bindings. binding_typed nodes inputs b) \<and>
     distinct (fed_ports edges bindings) \<and>
     gi_input_id ` set inputs \<subseteq> gb_input_id ` set bindings \<and>
     (\<forall>n \<in> set nodes. \<forall>q \<in> set (ct_input_types (nd_contract n)).
        (nd_node_id n, pt_port_name q) \<in> set (fed_ports edges bindings))"

definition nodes_ok :: "research_node list \<Rightarrow> bool" where
  "nodes_ok nodes \<longleftrightarrow>
     distinct (map nd_node_id nodes) \<and>
     (\<forall>n \<in> set nodes. ports_ok (ct_input_types (nd_contract n)) \<and> ports_ok (ct_output_types (nd_contract n)))"

lemma node_lookup:
  "nodes_ok nodes \<Longrightarrow> map_of (node_map_of nodes) k = Some n \<longleftrightarrow> n \<in> set nodes \<and> nd_node_id n = k"
  by (simp add: node_map_of_def nodes_ok_def bt_keyed_lookup)

lemma input_port_Ok:
  "nodes_ok nodes \<Longrightarrow> n \<in> set nodes \<Longrightarrow> port (ct_input_types (nd_contract n)) name = Ok p \<longleftrightarrow>
     p \<in> set (ct_input_types (nd_contract n)) \<and> pt_port_name p = name"
  by (simp add: nodes_ok_def port_Ok)

lemma output_port_Ok:
  "nodes_ok nodes \<Longrightarrow> n \<in> set nodes \<Longrightarrow> port (ct_output_types (nd_contract n)) name = Ok p \<longleftrightarrow>
     p \<in> set (ct_output_types (nd_contract n)) \<and> pt_port_name p = name"
  by (simp add: nodes_ok_def port_Ok)

lemmas lookup_simps = node_lookup input_port_Ok output_port_Ok

lemma validate_edges_Ok:
  assumes "nodes_ok nodes"
  shows "validate_edges (node_map_of nodes) edges bs = Ok bs' \<longleftrightarrow>
    (\<forall>e \<in> set edges. edge_typed nodes e) \<and> distinct (map (\<lambda>e. (ed_to_node e, ed_to_port e)) edges) \<and>
    (\<lambda>e. (ed_to_node e, ed_to_port e)) ` set edges \<inter> set bs = {} \<and>
    bs' = fold bset_insert (map (\<lambda>e. (ed_to_node e, ed_to_port e)) edges) bs"
proof (induction edges arbitrary: bs)
  case Nil
  then show ?case by auto
next
  case (Cons e es)
  let ?t = "(ed_to_node e, ed_to_port e)"
  have "validate_edges (node_map_of nodes) (e # es) bs = Ok bs' \<longleftrightarrow>
      edge_typed nodes e \<and> ?t \<notin> set bs \<and> validate_edges (node_map_of nodes) es (bset_insert ?t bs) = Ok bs'"
    unfolding edge_typed_def
    by (simp add: result_simps lookup_simps [OF assms] cong: conj_cong) (auto split: if_splits)
  then show ?case unfolding Cons.IH by auto
qed

lemma validate_external_Ok:
  assumes "nodes_ok nodes" "distinct (map gi_input_id inputs)"
    and declarations: "declarations = bt_collect (map (\<lambda>input. (gi_input_id input, input)) inputs)"
  shows "validate_external (node_map_of nodes) declarations bindings bs used = Ok (bs', used') \<longleftrightarrow>
    (\<forall>b \<in> set bindings. binding_typed nodes inputs b) \<and>
    distinct (map (\<lambda>b. (gb_to_node b, gb_to_port b)) bindings) \<and>
    (\<lambda>b. (gb_to_node b, gb_to_port b)) ` set bindings \<inter> set bs = {} \<and>
    bs' = fold bset_insert (map (\<lambda>b. (gb_to_node b, gb_to_port b)) bindings) bs \<and>
    used' = fold bset_insert (map gb_input_id bindings) used"
proof (induction bindings arbitrary: bs used)
  case Nil
  then show ?case by auto
next
  case (Cons b rest)
  let ?t = "(gb_to_node b, gb_to_port b)"
  have "validate_external (node_map_of nodes) declarations (b # rest) bs used = Ok (bs', used') \<longleftrightarrow>
      binding_typed nodes inputs b \<and> ?t \<notin> set bs \<and>
      validate_external (node_map_of nodes) declarations rest (bset_insert ?t bs)
        (bset_insert (gb_input_id b) used) = Ok (bs', used')"
    unfolding binding_typed_def declarations
    by (simp add: result_simps lookup_simps [OF assms(1)] bt_keyed_lookup [OF assms(2)] cong: conj_cong)
      (auto split: if_splits)
  then show ?case unfolding Cons.IH by auto
qed

lemma set_node_map: "nodes_ok nodes \<Longrightarrow> snd ` set (node_map_of nodes) = set nodes"
proof -
  assume ok: "nodes_ok nodes"
  have "distinct (map fst (node_map_of nodes))"
    using bt_ok_collect [of "map (\<lambda>node. (nd_node_id node, node)) nodes"]
    by (simp add: node_map_of_def bt_ok_def strict_sorted_iff)
  then have "(k, n) \<in> set (node_map_of nodes) \<longleftrightarrow> n \<in> set nodes \<and> nd_node_id n = k" for k n
    using node_lookup [OF ok, of k n] by (metis map_of_eq_Some_iff)
  then show ?thesis by force
qed

text \<open>The validation accepts exactly the graphs whose bindings are valid.\<close>

lemma validate_bindings_Ok:
  assumes nodes: "nodes_ok nodes" and inputs: "distinct (map gi_input_id inputs)"
  shows "validate_bindings (node_map_of nodes) edges inputs bindings = Ok u \<longleftrightarrow>
    bindings_valid nodes edges inputs bindings"
proof -
  let ?te = "\<lambda>e. (ed_to_node e, ed_to_port e)" and ?tb = "\<lambda>b. (gb_to_node b, gb_to_port b)"
  let ?ids = "fold bset_insert (map gb_input_id bindings) []"
  have used: "length ?ids = length inputs \<longleftrightarrow> gi_input_id ` set inputs \<subseteq> gb_input_id ` set bindings"
    if "\<forall>b \<in> set bindings. binding_typed nodes inputs b"
  proof -
    have "gb_input_id ` set bindings \<subseteq> gi_input_id ` set inputs"
      using that by (auto simp: binding_typed_def simp flip: ball_simps) (metis image_eqI)
    moreover have "length ?ids = card (gb_input_id ` set bindings)"
      using distinct_card [OF distinct_fold_bset_insert [of "[]" "map gb_input_id bindings"]]
      by (simp add: set_fold_bset_insert)
    moreover have "length inputs = card (gi_input_id ` set inputs)"
      using distinct_card [OF inputs] by simp
    ultimately show ?thesis by (metis List.finite_set card_subset_eq finite_imageI subset_antisym)
  qed
  have covered: "list_all (\<lambda>(_, node). list_all (\<lambda>input. (nd_node_id node, pt_port_name input) \<in> S)
        (ct_input_types (nd_contract node))) (node_map_of nodes) \<longleftrightarrow>
      (\<forall>n \<in> set nodes. \<forall>q \<in> set (ct_input_types (nd_contract n)). (nd_node_id n, pt_port_name q) \<in> S)" for S
    unfolding set_node_map [OF nodes, symmetric] by (auto simp: list_all_iff)
  let ?bs = "fold bset_insert (map ?tb bindings) (fold bset_insert (map ?te edges) [])"
  have bs: "set ?bs = ?tb ` set bindings \<union> ?te ` set edges" by (simp add: set_fold_bset_insert)
  have "validate_bindings (node_map_of nodes) edges inputs bindings = Ok u \<longleftrightarrow>
      (\<forall>e \<in> set edges. edge_typed nodes e) \<and> distinct (map ?te edges) \<and>
      (\<forall>b \<in> set bindings. binding_typed nodes inputs b) \<and> distinct (map ?tb bindings) \<and>
      ?tb ` set bindings \<inter> ?te ` set edges = {} \<and> length ?ids = length inputs \<and>
      (\<forall>n \<in> set nodes. \<forall>q \<in> set (ct_input_types (nd_contract n)). (nd_node_id n, pt_port_name q) \<in> set ?bs)"
    unfolding covered [symmetric] validate_bindings_def Let_def
    by (auto simp: and_then_eq_Ok validate_edges_Ok [OF nodes] validate_external_Ok [OF nodes inputs refl]
        set_fold_bset_insert split: if_splits)
  then show ?thesis
    unfolding bindings_valid_def fed_ports_def bs distinct_append set_append list.set_map
    using used by blast
qed

section \<open>The constructor\<close>

lemma edge_key_inject [simp]: "edge_key a = edge_key b \<longleftrightarrow> a = b"
  by (cases a; cases b) (auto simp: edge_key_def)

lemma binding_key_inject [simp]: "binding_key a = binding_key b \<longleftrightarrow> a = b"
  by (cases a; cases b) (auto simp: binding_key_def)

lemma edge_windows: "windows2_any (=) (sort_key edge_key edges) \<longleftrightarrow> \<not> distinct edges"
  using windows2_any_sort_key [of edge_key edges] by (simp add: distinct_map inj_on_def)

lemma binding_windows: "windows2_any (=) (sort_key binding_key bindings) \<longleftrightarrow> \<not> distinct bindings"
  using windows2_any_sort_key [of binding_key bindings] by (simp add: distinct_map inj_on_def)

lemma bindings_valid_perm:
  assumes "mset nodes = mset nodes'" "mset edges = mset edges'" "mset inputs = mset inputs'"
    "mset bindings = mset bindings'"
  shows "bindings_valid nodes edges inputs bindings \<longleftrightarrow> bindings_valid nodes' edges' inputs' bindings'"
proof -
  have sets: "set nodes = set nodes'" "set edges = set edges'" "set inputs = set inputs'"
    "set bindings = set bindings'"
    using assms by (metis set_mset_mset)+
  have typed: "edge_typed nodes = edge_typed nodes'" "binding_typed nodes inputs = binding_typed nodes' inputs'"
    using sets by (auto simp: edge_typed_def binding_typed_def fun_eq_iff)
  have fed: "mset (fed_ports edges bindings) = mset (fed_ports edges' bindings')"
    using assms by (simp add: fed_ports_def)
  show ?thesis
    unfolding bindings_valid_def sets typed mset_eq_imp_distinct_iff [OF fed] mset_eq_setD [OF fed] ..
qed

lemma bindings_valid_distinct:
  "bindings_valid nodes edges inputs bindings \<Longrightarrow> distinct edges \<and> distinct bindings"
  by (auto simp: bindings_valid_def fed_ports_def distinct_map)

text \<open>The inputs the constructor accepts, and what it makes of them.\<close>

definition graph_accepts ::
  "research_graph_input \<Rightarrow> graph_external_input list \<Rightarrow> graph_external_input_binding list \<Rightarrow> bool" where
  "graph_accepts input external_inputs bindings \<longleftrightarrow>
     ri_nodes input \<noteq> [] \<and> distinct (map nd_node_id (ri_nodes input)) \<and>
     distinct (map gi_input_id external_inputs) \<and>
     bindings_valid (ri_nodes input) (ri_edges input) external_inputs bindings \<and>
     acyclic (edge_relation (ri_edges input))"

definition graph_ok :: "sha256_fn \<Rightarrow> research_graph \<Rightarrow> bool" where
  "graph_ok sha256 g \<longleftrightarrow>
     rg_nodes g \<noteq> [] \<and> sorted_wrt (<) (map nd_node_id (rg_nodes g)) \<and>
     sorted_wrt (<) (map edge_key (rg_edges g)) \<and>
     sorted_wrt (<) (map gi_input_id (rg_external_inputs g)) \<and>
     sorted_wrt (<) (map binding_key (rg_external_input_bindings g)) \<and>
     bindings_valid (rg_nodes g) (rg_edges g) (rg_external_inputs g) (rg_external_input_bindings g) \<and>
     acyclic (edge_relation (rg_edges g)) \<and>
     distinct (rg_topological_order g) \<and>
     set (rg_topological_order g) = nd_node_id ` set (rg_nodes g) \<and>
     least_first (nd_node_id ` set (rg_nodes g)) (rg_edges g) (rg_topological_order g) \<and>
     rg_digest g = sha256 (graph_canonical_bytes g)"

lemma bt_keys_node_map: "set (bt_keys (node_map_of nodes)) = nd_node_id ` set nodes"
  by (simp add: node_map_of_def bt_collect_keys_set image_image)

lemma bt_ok_node_map: "bt_ok (node_map_of nodes)"
  by (simp add: node_map_of_def bt_ok_collect)

lemma edges_between:
  "bindings_valid nodes edges inputs bindings \<Longrightarrow>
     edge_relation edges \<subseteq> nd_node_id ` set nodes \<times> nd_node_id ` set nodes"
  by (auto simp: bindings_valid_def edge_typed_def edge_relation_def) (metis image_eqI)+

lemma graph_bytes_ignore_derived [simp]:
  "graph_canonical_bytes (g\<lparr>rg_digest := d\<rparr>) = graph_canonical_bytes g"
  by (simp add: graph_canonical_bytes_def)

definition graph_of ::
  "sha256_fn \<Rightarrow> research_graph_input \<Rightarrow> graph_external_input list \<Rightarrow>
   graph_external_input_binding list \<Rightarrow> ulid list \<Rightarrow> research_graph" where
  "graph_of sha256 input external_inputs bindings order =
     (let result =
        \<lparr>rg_graph_id = ri_graph_id input, rg_version = ri_version input, rg_owner = ri_owner input,
         rg_nodes = sort_key nd_node_id (ri_nodes input),
         rg_edges = sort_key edge_key (ri_edges input),
         rg_external_inputs = sort_key gi_input_id external_inputs,
         rg_external_input_bindings = sort_key binding_key bindings,
         rg_topological_order = order,
         rg_digest = sha256 (as_bytes ''uninitialized'')\<rparr>
      in result\<lparr>rg_digest := sha256 (graph_canonical_bytes result)\<rparr>)"

lemma graph_new_unfold:
  "graph_new_with_external_inputs sha256 input inputs bindings = Ok g \<longleftrightarrow>
     ri_nodes input \<noteq> [] \<and> distinct (map nd_node_id (ri_nodes input)) \<and> distinct (ri_edges input) \<and>
     distinct (map gi_input_id inputs) \<and> distinct bindings \<and>
     validate_bindings (node_map_of (sort_key nd_node_id (ri_nodes input))) (sort_key edge_key (ri_edges input))
       (sort_key gi_input_id inputs) (sort_key binding_key bindings) = Ok () \<and>
     (\<exists>order. topological_order (node_map_of (sort_key nd_node_id (ri_nodes input)))
       (sort_key edge_key (ri_edges input)) = Ok order \<and> g = graph_of sha256 input inputs bindings order)"
  unfolding graph_new_with_external_inputs_def Let_def windows2_any_sort_key edge_windows binding_windows
    graph_of_def
  by (auto simp: and_then_eq_Ok)

lemma graph_of_ok:
  assumes "graph_accepts input inputs bindings"
    and "graph_order (node_map_of (sort_key nd_node_id (ri_nodes input))) (sort_key edge_key (ri_edges input)) order"
  shows "graph_ok sha256 (graph_of sha256 input inputs bindings order)"
proof -
  let ?nodes = "sort_key nd_node_id (ri_nodes input)" and ?edges = "sort_key edge_key (ri_edges input)"
  let ?inputs = "sort_key gi_input_id inputs" and ?bindings = "sort_key binding_key bindings"
  have acc: "ri_nodes input \<noteq> []" "distinct (map nd_node_id (ri_nodes input))"
    "distinct (map gi_input_id inputs)" "acyclic (edge_relation (ri_edges input))"
    and bv: "bindings_valid (ri_nodes input) (ri_edges input) inputs bindings"
    using assms(1) by (simp_all add: graph_accepts_def)
  have "bindings_valid ?nodes ?edges ?inputs ?bindings"
    using bv bindings_valid_perm [of "ri_nodes input" ?nodes "ri_edges input" ?edges inputs ?inputs bindings ?bindings]
    by simp
  moreover have "distinct (map edge_key (ri_edges input))" "distinct (map binding_key bindings)"
    using bindings_valid_distinct [OF bv] by (simp_all add: distinct_map inj_on_def)
  moreover have "edge_relation ?edges = edge_relation (ri_edges input)" by (simp add: edge_relation_def)
  moreover have "distinct order" using assms(2) least_first_distinct by (auto simp: graph_order_def)
  ultimately show ?thesis
    using acc assms(2)
    by (simp add: graph_ok_def graph_of_def Let_def sorted_wrt_sort_key graph_order_def bt_keys_node_map)
      (simp add: graph_canonical_bytes_def)
qed

text \<open>
  C7: the constructor succeeds exactly when there is a node, node and input identifiers
  do not repeat, every edge and external binding joins existing ports of equal type, no input port
  is fed twice, every input port is fed, every declared external input is used, and the edges
  contain no cycle. What it returns then is canonical and consistent: sorted parts, valid
  bindings, and the topological order that always takes the least ready node.
\<close>

theorem graph_new_accepts:
  assumes ports: "\<forall>n \<in> set (ri_nodes input). ports_ok (ct_input_types (nd_contract n)) \<and>
      ports_ok (ct_output_types (nd_contract n))"
    and size: "length (ri_edges input) < usize_limit"
  shows "if graph_accepts input inputs bindings
    then \<exists>g. graph_new_with_external_inputs sha256 input inputs bindings = Ok g \<and> graph_ok sha256 g
    else \<not> is_ok (graph_new_with_external_inputs sha256 input inputs bindings)"
proof -
  let ?nodes = "sort_key nd_node_id (ri_nodes input)" and ?edges = "sort_key edge_key (ri_edges input)"
  let ?inputs = "sort_key gi_input_id inputs" and ?bindings = "sort_key binding_key bindings"
  have perm: "bindings_valid ?nodes ?edges ?inputs ?bindings \<longleftrightarrow>
      bindings_valid (ri_nodes input) (ri_edges input) inputs bindings"
    by (rule bindings_valid_perm) simp_all
  have rel: "edge_relation ?edges = edge_relation (ri_edges input)" by (simp add: edge_relation_def)
  have valid: "validate_bindings (node_map_of ?nodes) ?edges ?inputs ?bindings = Ok u \<longleftrightarrow>
      bindings_valid ?nodes ?edges ?inputs ?bindings"
    if "distinct (map nd_node_id (ri_nodes input))" "distinct (map gi_input_id inputs)" for u
    by (rule validate_bindings_Ok) (use that ports in \<open>auto simp: nodes_ok_def distinct_map\<close>)
  have topo: "(\<exists>order. topological_order (node_map_of ?nodes) ?edges = Ok order \<and>
        graph_order (node_map_of ?nodes) ?edges order \<and> acyclic (edge_relation ?edges)) \<or>
      topological_order (node_map_of ?nodes) ?edges = Err InvalidValue \<and> \<not> acyclic (edge_relation ?edges)"
    if "bindings_valid ?nodes ?edges ?inputs ?bindings"
    by (rule topological_order_correct)
      (use size edges_between [OF that] in \<open>simp_all add: bt_keys_node_map bt_ok_node_map\<close>)
  show ?thesis
  proof (cases "graph_accepts input inputs bindings")
    case True
    then have acc: "ri_nodes input \<noteq> []" "distinct (map nd_node_id (ri_nodes input))"
      "distinct (map gi_input_id inputs)" "bindings_valid ?nodes ?edges ?inputs ?bindings"
      "acyclic (edge_relation ?edges)"
      by (simp_all add: graph_accepts_def perm rel)
    then obtain order where order: "topological_order (node_map_of ?nodes) ?edges = Ok order"
      "graph_order (node_map_of ?nodes) ?edges order" using topo by auto
    have dist: "distinct (ri_edges input)" "distinct bindings"
      using bindings_valid_distinct True by (auto simp: graph_accepts_def)
    then have "graph_new_with_external_inputs sha256 input inputs bindings =
        Ok (graph_of sha256 input inputs bindings order)"
      using acc valid order(1) by (simp add: graph_new_unfold)
    then show ?thesis using True graph_of_ok [OF True order(2)] by auto
  next
    case False
    then show ?thesis
      using valid topo bindings_valid_distinct
      by (fastforce simp: is_ok_iff graph_new_unfold graph_accepts_def perm rel)
  qed
qed

text \<open>
  The order in which nodes, edges, external inputs and bindings are supplied never
  matters: every permutation gives the same graph with the same digest, or the same error.
\<close>

theorem graph_new_order_independent:
  assumes "mset (ri_nodes a) = mset (ri_nodes b)" "mset (ri_edges a) = mset (ri_edges b)"
    "mset inputs = mset inputs'" "mset bindings = mset bindings'"
    "ri_graph_id a = ri_graph_id b" "ri_version a = ri_version b" "ri_owner a = ri_owner b"
  shows "graph_new_with_external_inputs sha256 a inputs bindings =
    graph_new_with_external_inputs sha256 b inputs' bindings'"
proof -
  have dist: "distinct (map nd_node_id (ri_nodes a)) \<longleftrightarrow> distinct (map nd_node_id (ri_nodes b))"
    "distinct (ri_edges a) \<longleftrightarrow> distinct (ri_edges b)"
    "distinct (map gi_input_id inputs) \<longleftrightarrow> distinct (map gi_input_id inputs')"
    "distinct bindings \<longleftrightarrow> distinct bindings'"
    using assms(1-4) by (metis mset_eq_imp_distinct_iff mset_map)+
  have keys: "distinct (map edge_key es) \<longleftrightarrow> distinct es" "distinct (map binding_key bs) \<longleftrightarrow> distinct bs"
    for es bs by (simp_all add: distinct_map inj_on_def)
  have empty: "ri_nodes a = [] \<longleftrightarrow> ri_nodes b = []" using assms(1) by auto
  note same = sort_key_perm [OF assms(1), of nd_node_id] sort_key_perm [OF assms(2), of edge_key]
    sort_key_perm [OF assms(3), of gi_input_id] sort_key_perm [OF assms(4), of binding_key]
  show ?thesis
    unfolding graph_new_with_external_inputs_def Let_def windows2_any_sort_key edge_windows
      binding_windows empty dist assms(5-7)
    using same dist unfolding keys by (simp cong: if_cong)
qed

section \<open>The digest\<close>

lemma prefix_code_edge: "prefix_code push_edge"
proof -
  have "determines push_edge (\<lambda>e. (ulid_str (ed_from_node e), ed_from_port e, ulid_str (ed_to_node e), ed_to_port e))"
    unfolding push_edge_def by (intro code_intros)
  then show ?thesis by (rule determines.weaken) simp
qed

lemma prefix_code_external_input: "prefix_code push_external_input"
proof -
  have "determines push_external_input (\<lambda>i. (gi_input_id i, gi_value_type i))"
    unfolding push_external_input_def by (intro code_intros)
  then show ?thesis by (rule determines.weaken) simp
qed

lemma prefix_code_binding: "prefix_code push_binding"
proof -
  have "determines push_binding (\<lambda>b. (gb_input_id b, ulid_str (gb_to_node b), gb_to_port b))"
    unfolding push_binding_def by (intro code_intros)
  then show ?thesis by (rule determines.weaken) simp
qed

text \<open>A node enters the digest through its identifier and two hashes.\<close>

type_synonym node_content = "ulid \<times> content_hash \<times> content_hash"

definition node_content :: "research_node \<Rightarrow> node_content" where
  "node_content n = (nd_node_id n, ct_digest (nd_contract n), nd_parameters_hash n)"

definition node_code :: "node_content \<Rightarrow> bytes" where
  "node_code c = push_str (ulid_str (fst c)) @ hash_bytes (fst (snd c)) @ hash_bytes (snd (snd c))"

lemma prefix_code_node: "prefix_code node_code"
proof -
  have "determines node_code (\<lambda>c. (ulid_str (fst c), fst (snd c), snd (snd c)))"
    unfolding node_code_def by (intro code_intros)
  then show ?thesis by (rule determines.weaken) auto
qed

lemma push_node_code: "push_node = (\<lambda>n. node_code (node_content n))"
  by (simp add: fun_eq_iff push_node_def node_code_def node_content_def)

lemma push_neq_Nil: "push_edge e \<noteq> []" "push_external_input i \<noteq> []" "push_binding b \<noteq> []" "node_code c \<noteq> []"
  by (simp_all add: push_edge_def push_external_input_def push_binding_def node_code_def)

lemmas graph_codes =
  determines_push_each_of [OF prefix_code_node push_neq_Nil(4), of node_content]
  prefix_code_of [OF prefix_code_push_each [OF prefix_code_edge push_neq_Nil(1)]]
  prefix_code_of [OF prefix_code_push_each [OF prefix_code_external_input push_neq_Nil(2)]]
  prefix_code_of [OF prefix_code_push_each [OF prefix_code_binding push_neq_Nil(3)]]

interpretation graph_code: determines graph_canonical_bytes
  "\<lambda>g. (rg_graph_id g, rg_version g, rg_owner g, map node_content (rg_nodes g), rg_edges g,
        rg_external_inputs g, rg_external_input_bindings g)"
proof -
  have "determines graph_canonical_bytes
      (\<lambda>g. ((), ulid_str (rg_graph_id g), version_get (rg_version g), ulid_str (tenant_id (rg_owner g)),
        ulid_str (owner_id (rg_owner g)), map node_content (rg_nodes g), rg_edges g,
        rg_external_inputs g, rg_external_input_bindings g))"
    unfolding graph_canonical_bytes_def push_node_code by (intro code_intros graph_codes)
  then show "determines graph_canonical_bytes
      (\<lambda>g. (rg_graph_id g, rg_version g, rg_owner g, map node_content (rg_nodes g), rg_edges g,
        rg_external_inputs g, rg_external_input_bindings g))"
    by (rule determines.weaken) simp
qed

lemma node_content_eq:
  assumes "node_content m = node_content n" "contract_ok sha256 (nd_contract m)" "contract_ok sha256 (nd_contract n)"
    "length (contract_canonical_bytes (nd_contract m)) < usize_limit"
  shows "m = n \<or> collision sha256 (contract_canonical_bytes (nd_contract m)) (contract_canonical_bytes (nd_contract n))"
  using contract_digest_identifies [OF assms(2-4)] assms(1) by (cases m; cases n) (auto simp: node_content_def)

lemma node_list_eq:
  assumes "map node_content ms = map node_content ns"
    and "\<forall>n \<in> set ms \<union> set ns. contract_ok sha256 (nd_contract n) \<and>
      length (contract_canonical_bytes (nd_contract n)) < usize_limit"
  shows "ms = ns \<or> (\<exists>m \<in> set ms. \<exists>n \<in> set ns.
    collision sha256 (contract_canonical_bytes (nd_contract m)) (contract_canonical_bytes (nd_contract n)))"
  using assms
proof (induction ms arbitrary: ns)
  case Nil
  then show ?case by simp
next
  case (Cons m ms)
  then obtain n ns' where ns: "ns = n # ns'" "node_content m = node_content n"
    "map node_content ms = map node_content ns'" by auto
  have "m = n \<or> collision sha256 (contract_canonical_bytes (nd_contract m)) (contract_canonical_bytes (nd_contract n))"
    using node_content_eq [OF ns(2)] Cons.prems(2) ns(1) by simp
  then show ?case using Cons.IH [OF ns(3)] Cons.prems(2) ns(1) by auto
qed

text \<open>
  The digest of a research graph identifies it. Two graphs with the same digest
  are equal in every field, or the hash function collides on their canonical bytes or on the
  canonical bytes of two of their node contracts.
\<close>

theorem graph_digest_identifies:
  assumes "graph_ok sha256 g" "graph_ok sha256 h" "rg_digest g = rg_digest h"
    and "length (graph_canonical_bytes g) < usize_limit"
    and contracts: "\<forall>n \<in> set (rg_nodes g) \<union> set (rg_nodes h). contract_ok sha256 (nd_contract n) \<and>
      length (contract_canonical_bytes (nd_contract n)) < usize_limit"
  shows "g = h \<or> collision sha256 (graph_canonical_bytes g) (graph_canonical_bytes h) \<or>
    (\<exists>m \<in> set (rg_nodes g). \<exists>n \<in> set (rg_nodes h).
       collision sha256 (contract_canonical_bytes (nd_contract m)) (contract_canonical_bytes (nd_contract n)))"
proof (cases "graph_canonical_bytes g = graph_canonical_bytes h")
  case False
  then show ?thesis using assms(1-3) by (simp add: graph_ok_def collision_def)
next
  case True
  note content = graph_code.content_eq [OF True assms(4)]
  from content have "map node_content (rg_nodes g) = map node_content (rg_nodes h)" by simp
  then consider "rg_nodes g = rg_nodes h" | "\<exists>m \<in> set (rg_nodes g). \<exists>n \<in> set (rg_nodes h).
      collision sha256 (contract_canonical_bytes (nd_contract m)) (contract_canonical_bytes (nd_contract n))"
    using node_list_eq contracts by blast
  then show ?thesis
  proof cases
    case 1
    let ?og = "rg_topological_order g" and ?oh = "rg_topological_order h"
    have "length ?og = length ?oh"
      using assms(1,2) 1 by (metis graph_ok_def distinct_card)
    then have "?og = ?oh"
      using assms(1,2) 1 content least_first_unique [of "nd_node_id ` set (rg_nodes g)" "rg_edges g" ?og ?oh]
      by (simp add: graph_ok_def)
    then show ?thesis using content 1 assms(3) by (cases g; cases h) simp
  next
    case 2
    then show ?thesis by blast
  qed
qed

section \<open>A two-node graph\<close>

definition sample_type :: typed_value where
  "sample_type = \<lparr>tv_type_id = ''series'', tv_type_version = Version 1, tv_schema_hash = zero_hash\<rparr>"

definition sample_contract :: "string \<Rightarrow> string list \<Rightarrow> research_node_contract" where
  "sample_contract name ins =
     \<lparr>ct_contract_id = name, ct_contract_version = Version 1,
      ct_input_types = map (\<lambda>n. \<lparr>pt_port_name = n, pt_value_type = sample_type\<rparr>) ins,
      ct_output_types = [\<lparr>pt_port_name = ''out'', pt_value_type = sample_type\<rparr>],
      ct_state_schema = zero_hash, ct_parameter_schema = zero_hash,
      ct_determinism_class = Deterministic,
      ct_permissions = \<lparr>np_network = False, np_database = False, np_filesystem = NoFilesystem\<rparr>,
      ct_resource_limits = \<lparr>rl_cpu_cores = 1, rl_memory_mb = 64, rl_timeout_seconds = 5\<rparr>,
      ct_required_invariants = [''finite''], ct_digest = zero_hash\<rparr>"

definition sample_node :: "string \<Rightarrow> string list \<Rightarrow> research_node" where
  "sample_node name ins =
     \<lparr>nd_node_id = Ulid name, nd_contract = sample_contract name ins, nd_parameters_hash = zero_hash\<rparr>"

definition sample_graph_input :: "u64 \<Rightarrow> research_graph_input" where
  "sample_graph_input v =
     \<lparr>ri_graph_id = Ulid ''g'', ri_version = Version v,
      ri_owner = \<lparr>tenant_id = Ulid ''t'', owner_id = Ulid ''o''\<rparr>,
      ri_nodes = [sample_node ''a'' [''in''], sample_node ''b'' []],
      ri_edges = [\<lparr>ed_from_node = Ulid ''b'', ed_from_port = ''out'', ed_to_node = Ulid ''a'', ed_to_port = ''in''\<rparr>]\<rparr>"

lemma sample_accepted: "graph_accepts (sample_graph_input v) [] []"
  by (simp add: graph_accepts_def sample_graph_input_def bindings_valid_def sample_node_def
      sample_contract_def edge_typed_def fed_ports_def edge_relation_def)

lemma sample_contract_ok:
  "n \<in> set (ri_nodes (sample_graph_input v)) \<Longrightarrow> contract_ok (\<lambda>_. zero_hash) (nd_contract n)"
  by (auto simp: sample_graph_input_def sample_node_def sample_contract_def contract_ok_def ports_ok_def
      ensure_symbol_def is_alphanumeric_def is_ascii_lowercase_def)

lemma graph_new_accepts_witness:
  "\<exists>g. graph_new_with_external_inputs (\<lambda>_. zero_hash) (sample_graph_input 1) [] [] = Ok g \<and>
     graph_ok (\<lambda>_. zero_hash) g"
proof -
  have "\<forall>n \<in> set (ri_nodes (sample_graph_input 1)). ports_ok (ct_input_types (nd_contract n)) \<and>
      ports_ok (ct_output_types (nd_contract n))"
    using sample_contract_ok [of _ 1] by (auto simp: contract_ok_def)
  moreover have "length (ri_edges (sample_graph_input 1)) < usize_limit"
    by (simp add: sample_graph_input_def)
  ultimately show ?thesis
    using graph_new_accepts [of "sample_graph_input 1" "[]" "[]" "\<lambda>_. zero_hash"] sample_accepted by simp
qed

lemma graph_new_order_independent_witness:
  "graph_new_with_external_inputs (\<lambda>_. zero_hash) (sample_graph_input 1) [] [] =
   graph_new_with_external_inputs (\<lambda>_. zero_hash)
     ((sample_graph_input 1)\<lparr>ri_nodes := rev (ri_nodes (sample_graph_input 1))\<rparr>) [] []"
  by (rule graph_new_order_independent) simp_all

text \<open>The same parts published as versions 1 and 2, with the order the algorithm finds.\<close>

definition sample_graph :: "u64 \<Rightarrow> research_graph" where
  "sample_graph v = graph_of (\<lambda>_. zero_hash) (sample_graph_input v) [] [] [Ulid ''b'', Ulid ''a'']"

lemma sample_graph_ok: "graph_ok (\<lambda>_. zero_hash) (sample_graph v)"
  unfolding sample_graph_def
proof (rule graph_of_ok [OF sample_accepted])
  show "graph_order (node_map_of (sort_key nd_node_id (ri_nodes (sample_graph_input v))))
      (sort_key edge_key (ri_edges (sample_graph_input v))) [Ulid ''b'', Ulid ''a'']"
    unfolding graph_order_def bt_keys_node_map
    by (auto simp: sample_graph_input_def sample_node_def least_first_def frontier_def edge_relation_def
        less_Suc_eq)
qed

lemma graph_digest_identifies_witness:
  "collision (\<lambda>_. zero_hash) (graph_canonical_bytes (sample_graph 1)) (graph_canonical_bytes (sample_graph 2)) \<or>
   (\<exists>m \<in> set (rg_nodes (sample_graph 1)). \<exists>n \<in> set (rg_nodes (sample_graph 2)).
      collision (\<lambda>_. zero_hash) (contract_canonical_bytes (nd_contract m)) (contract_canonical_bytes (nd_contract n)))"
proof -
  let ?sha = "\<lambda>_ :: bytes. zero_hash"
  have nodes: "set (rg_nodes (sample_graph v)) = set (ri_nodes (sample_graph_input v))" for v
    by (simp add: sample_graph_def graph_of_def Let_def)
  have lengths: "length (contract_canonical_bytes (nd_contract n)) < usize_limit"
    if "n \<in> set (ri_nodes (sample_graph_input v))" for n v
    using that by (auto simp: sample_graph_input_def sample_node_def sample_contract_def
        contract_canonical_bytes_def push_ports_def push_port_def push_typed_value_def sample_type_def length_push_each)
  have contracts: "\<forall>n \<in> set (rg_nodes (sample_graph 1)) \<union> set (rg_nodes (sample_graph 2)).
      contract_ok ?sha (nd_contract n) \<and> length (contract_canonical_bytes (nd_contract n)) < usize_limit"
    using sample_contract_ok lengths unfolding nodes by blast
  have "graph_canonical_bytes (sample_graph 1) = graph_canonical_bytes (graph_of ?sha (sample_graph_input 1) [] [] [])"
    by (simp add: graph_canonical_bytes_def sample_graph_def graph_of_def Let_def)
  then have "length (graph_canonical_bytes (sample_graph 1)) < usize_limit"
    by (simp add: graph_canonical_bytes_def graph_of_def Let_def sample_graph_input_def sample_node_def
        length_push_each push_node_def push_edge_def)
  moreover have "rg_digest (sample_graph 1) = rg_digest (sample_graph 2)"
    by (simp add: sample_graph_def graph_of_def Let_def)
  moreover have "rg_version (sample_graph 1) \<noteq> rg_version (sample_graph 2)"
    by (simp add: sample_graph_def graph_of_def Let_def sample_graph_input_def)
  ultimately show ?thesis
    using graph_digest_identifies [OF sample_graph_ok sample_graph_ok _ _ contracts] by auto
qed

end
