(* ===== verification/Graph_Execution.thy ===== *)
theory Graph_Execution
  imports Replay Research_Graph
begin

text \<open>
  Execution of a research graph as recorded in a run's journal
  (\<open>ficant-runtime/src/graph_execution.rs\<close>): the node events and their byte format, the phases
  of an execution, and the replay that recovers which nodes are committed and where to resume.
  \<open>p\<close> is the ULID parser, as in \<open>Primitives\<close>.
\<close>

section \<open>Node events\<close>

definition PAYLOAD_TYPE :: string where
  "PAYLOAD_TYPE = ''ficant.graph-node-event''"

definition PAYLOAD_SCHEMA :: string where
  "PAYLOAD_SCHEMA = ''ficant.graph-node-event.v1''"

definition NODE_EVENT_MAGIC :: bytes where
  "NODE_EVENT_MAGIC = as_bytes ''FGNE''"

definition NODE_EVENT_VERSION :: u16 where
  "NODE_EVENT_VERSION = 1"

definition invalid_value :: runtime_error where
  "invalid_value = DomainError InvalidValue"

definition invalid_transition :: runtime_error where
  "invalid_transition = DomainError InvalidStateTransition"

definition sequence_conflict :: runtime_error where
  "sequence_conflict = DomainError JournalSequenceConflict"

record graph_node_event =
  gn_node_id :: ulid
  gn_attempt :: u32
  gn_evidence_hash :: "content_hash option"

definition node_event_new :: "ulid \<Rightarrow> u32 \<Rightarrow> content_hash option \<Rightarrow> graph_node_event domain_result" where
  "node_event_new node_id attempt evidence_hash =
     (if attempt = 0 then Err InvalidValue
      else Ok \<lparr>gn_node_id = node_id, gn_attempt = attempt, gn_evidence_hash = evidence_hash\<rparr>)"

definition node_event_started :: "ulid \<Rightarrow> u32 \<Rightarrow> graph_node_event domain_result" where
  "node_event_started node_id attempt = node_event_new node_id attempt None"

definition node_event_evidenced :: "ulid \<Rightarrow> u32 \<Rightarrow> content_hash \<Rightarrow> graph_node_event domain_result" where
  "node_event_evidenced node_id attempt evidence_hash = node_event_new node_id attempt (Some evidence_hash)"

definition node_event_encode :: "graph_node_event \<Rightarrow> bytes" where
  "node_event_encode e =
     NODE_EVENT_MAGIC @ to_be_bytes NODE_EVENT_VERSION @ as_bytes (ulid_str (gn_node_id e))
     @ to_be_bytes (gn_attempt e)
     @ (case gn_evidence_hash e of Some hash \<Rightarrow> 1 # hash_bytes hash | None \<Rightarrow> [0])"

definition node_event_decode ::
  "(string \<Rightarrow> string option) \<Rightarrow> run_journal \<Rightarrow> graph_node_event runtime_result" where
  "node_event_decode p event =
     (if rj_payload_type event \<noteq> PAYLOAD_TYPE \<or> rj_payload_schema event \<noteq> PAYLOAD_SCHEMA
      then Err invalid_value
      else
        let payload = rj_payload event in
        if length payload < 37 \<or> subslice 0 4 payload \<noteq> NODE_EVENT_MAGIC
          \<or> subslice 4 6 payload \<noteq> to_be_bytes NODE_EVENT_VERSION
        then Err invalid_value
        else
          and_then (and_then (ok_or (from_utf8 (subslice 6 32 payload)) invalid_value)
                     (\<lambda>value. domain (ulid_new p value))) (\<lambda>node_id.
          let attempt = from_be_bytes (subslice 32 36 payload) in
          and_then
            (if payload ! 36 = 0 \<and> length payload = 37 then Ok None
             else if payload ! 36 = 1 \<and> length payload = 69
             then and_then (domain (content_hash_from_bytes (subslice 37 69 payload))) (\<lambda>h. Ok (Some h))
             else Err invalid_value) (\<lambda>evidence_hash.
          and_then (domain (node_event_new node_id attempt evidence_hash)) (\<lambda>result.
          let expects_evidence = (rj_event_type event \<noteq> NodeStarted) in
          if rj_event_type event \<notin> {NodeStarted, NodeSucceeded, NodeFailed, NodeCheckpointed}
            \<or> expects_evidence \<noteq> (gn_evidence_hash result \<noteq> None)
          then Err invalid_value
          else Ok result))))"

section \<open>Phases\<close>

record graph_checkpoint =
  gc_node_id :: ulid
  gc_attempt :: u32
  gc_output_hash :: content_hash
  gc_journal_sequence :: u64
  gc_journal_hash :: content_hash

record graph_replay_result =
  gr_run_id :: ulid
  gr_run_state :: run_state
  gr_completed_nodes :: "ulid list"
  gr_resume_node :: "ulid option"
  gr_last_checkpoint :: "graph_checkpoint option"
  gr_event_count :: nat

datatype phase =
    Initial
  | PhaseCreated
  | Ready nat
  | Active nat u32
  | AwaitingCheckpoint nat u32 content_hash
  | PhaseNodeFailed
  | Terminal run_state

text \<open>The phase with the two variables \<open>transition\<close> updates through \<open>&mut\<close>.\<close>

record execution =
  ex_phase :: phase
  ex_completed_nodes :: "ulid list"
  ex_last_checkpoint :: "graph_checkpoint option"

definition require_node :: "graph_node_event \<Rightarrow> ulid list \<Rightarrow> nat \<Rightarrow> u32 \<Rightarrow> unit runtime_result" where
  "require_node payload order index attempt =
     (if vec_get order index \<noteq> Some (gn_node_id payload) \<or> gn_attempt payload \<noteq> attempt
      then Err invalid_transition else Ok ())"

definition require_node_identity :: "graph_node_event \<Rightarrow> ulid list \<Rightarrow> nat \<Rightarrow> unit runtime_result" where
  "require_node_identity payload order index =
     (if vec_get order index \<noteq> Some (gn_node_id payload) then Err invalid_transition else Ok ())"

definition restart_node ::
  "(string \<Rightarrow> string option) \<Rightarrow> nat \<Rightarrow> u32 \<Rightarrow> run_journal \<Rightarrow> ulid list \<Rightarrow> phase runtime_result" where
  "restart_node p index attempt event order =
     and_then (node_event_decode p event) (\<lambda>payload.
     and_then (require_node_identity payload order index) (\<lambda>_.
     if gn_attempt payload \<le> attempt then Err invalid_transition
     else Ok (Active index (gn_attempt payload))))"

definition graph_transition ::
  "(string \<Rightarrow> string option) \<Rightarrow> execution \<Rightarrow> run_journal \<Rightarrow> ulid list \<Rightarrow> execution runtime_result" where
  "graph_transition p x event order =
     (let set_phase = (\<lambda>ph. x\<lparr>ex_phase := ph\<rparr>) in
      case (ex_phase x, rj_event_type event) of
        (Initial, RunCreated) \<Rightarrow> Ok (set_phase PhaseCreated)
      | (PhaseCreated, RunStarted) \<Rightarrow> Ok (set_phase (Ready 0))
      | (Ready index, NodeStarted) \<Rightarrow>
          and_then (node_event_decode p event) (\<lambda>payload.
          and_then (require_node_identity payload order index) (\<lambda>_.
          Ok (set_phase (Active index (gn_attempt payload)))))
      | (Active index attempt, NodeStarted) \<Rightarrow>
          and_then (restart_node p index attempt event order) (\<lambda>ph. Ok (set_phase ph))
      | (AwaitingCheckpoint index attempt _, NodeStarted) \<Rightarrow>
          and_then (restart_node p index attempt event order) (\<lambda>ph. Ok (set_phase ph))
      | (Active index attempt, NodeSucceeded) \<Rightarrow>
          and_then (node_event_decode p event) (\<lambda>payload.
          and_then (require_node payload order index attempt) (\<lambda>_.
          and_then (ok_or (gn_evidence_hash payload) invalid_value) (\<lambda>output_hash.
          Ok (set_phase (AwaitingCheckpoint index attempt output_hash)))))
      | (AwaitingCheckpoint index attempt output_hash, NodeCheckpointed) \<Rightarrow>
          and_then (node_event_decode p event) (\<lambda>payload.
          and_then (require_node payload order index attempt) (\<lambda>_.
          if gn_evidence_hash payload \<noteq> Some output_hash then Err invalid_value
          else and_then (ok_or (vec_get order index) invalid_transition) (\<lambda>node_id.
          Ok \<lparr>ex_phase = Ready (index + 1),
              ex_completed_nodes = ex_completed_nodes x @ [node_id],
              ex_last_checkpoint = Some \<lparr>gc_node_id = node_id, gc_attempt = attempt,
                gc_output_hash = output_hash, gc_journal_sequence = rj_sequence event,
                gc_journal_hash = rj_event_hash event\<rparr>\<rparr>)))
      | (Active index attempt, NodeFailed) \<Rightarrow>
          and_then (node_event_decode p event) (\<lambda>payload.
          and_then (require_node payload order index attempt) (\<lambda>_.
          Ok (set_phase PhaseNodeFailed)))
      | (Ready index, RunSucceeded) \<Rightarrow>
          if index = length order then Ok (set_phase (Terminal Succeeded)) else Err invalid_transition
      | (PhaseNodeFailed, RunFailed) \<Rightarrow> Ok (set_phase (Terminal Failed))
      | (Ready _, RunCancelled) \<Rightarrow> Ok (set_phase (Terminal Cancelled))
      | (Active _ _, RunCancelled) \<Rightarrow> Ok (set_phase (Terminal Cancelled))
      | (AwaitingCheckpoint _ _ _, RunCancelled) \<Rightarrow> Ok (set_phase (Terminal Cancelled))
      | _ \<Rightarrow> Err invalid_transition)"

section \<open>Replay of an execution\<close>

definition verify_journal_position ::
  "sha256_fn \<Rightarrow> run_journal \<Rightarrow> run_journal option \<Rightarrow> ulid \<Rightarrow> nat \<Rightarrow> unit runtime_result" where
  "verify_journal_position sha256 event previous run_id index =
     and_then (verify_canonical_event sha256 event) (\<lambda>_.
     if rj_run_id event \<noteq> run_id then Err RunIdentityConflict
     else and_then (next_sequence index) (\<lambda>expected.
     if rj_sequence event \<noteq> expected then Err sequence_conflict
     else (case previous of
             Some previous \<Rightarrow> domain (validate_after sha256 event previous)
           | None \<Rightarrow> Ok ())))"

fun graph_loop ::
  "sha256_fn \<Rightarrow> (string \<Rightarrow> string option) \<Rightarrow> ulid \<Rightarrow> ulid list \<Rightarrow> nat \<Rightarrow> run_journal option \<Rightarrow> execution \<Rightarrow>
   run_journal list \<Rightarrow> execution runtime_result" where
  "graph_loop sha256 p run_id order index previous x [] = Ok x"
| "graph_loop sha256 p run_id order index previous x (event # events) =
     and_then (verify_journal_position sha256 event previous run_id index) (\<lambda>_.
     and_then (graph_transition p x event order) (\<lambda>x.
     graph_loop sha256 p run_id order (index + 1) (Some event) x events))"

definition execution_start :: execution where
  "execution_start = \<lparr>ex_phase = Initial, ex_completed_nodes = [], ex_last_checkpoint = None\<rparr>"

fun phase_outcome :: "ulid list \<Rightarrow> phase \<Rightarrow> (run_state \<times> ulid option) runtime_result" where
  "phase_outcome order Initial = Err invalid_transition"
| "phase_outcome order PhaseCreated = Ok (Created, None)"
| "phase_outcome order (Ready index) = Ok (Running, vec_get order index)"
| "phase_outcome order (Active index _) = Ok (Running, vec_get order index)"
| "phase_outcome order (AwaitingCheckpoint index _ _) = Ok (Running, vec_get order index)"
| "phase_outcome order PhaseNodeFailed = Ok (Running, None)"
| "phase_outcome order (Terminal state) = Ok (state, None)"

definition replay_graph_execution ::
  "sha256_fn \<Rightarrow> (string \<Rightarrow> string option) \<Rightarrow> research_graph \<Rightarrow> run_journal list \<Rightarrow>
   graph_replay_result runtime_result" where
  "replay_graph_execution sha256 p graph events =
     (case events of
        [] \<Rightarrow> Err invalid_transition
      | first # _ \<Rightarrow>
          let order = rg_topological_order graph in
          and_then (graph_loop sha256 p (rj_run_id first) order 0 None execution_start events) (\<lambda>x.
          and_then (phase_outcome order (ex_phase x)) (\<lambda>(run_state, resume_node).
          Ok \<lparr>gr_run_id = rj_run_id first,
              gr_run_state = run_state,
              gr_completed_nodes = ex_completed_nodes x,
              gr_resume_node = resume_node,
              gr_last_checkpoint = ex_last_checkpoint x,
              gr_event_count = length events\<rparr>)))"

section \<open>The byte format of node events\<close>

definition evidence_bytes :: "content_hash option \<Rightarrow> bytes" where
  "evidence_bytes h = (case h of Some hash \<Rightarrow> 1 # hash_bytes hash | None \<Rightarrow> [0])"

text \<open>What \<open>decode\<close> requires of the event beside its payload bytes.\<close>

definition event_type_fits :: "journal_event_type \<Rightarrow> graph_node_event \<Rightarrow> bool" where
  "event_type_fits t e \<longleftrightarrow>
     t \<in> {NodeStarted, NodeSucceeded, NodeFailed, NodeCheckpointed} \<and>
     (gn_evidence_hash e = None \<longleftrightarrow> t = NodeStarted)"

lemma node_payload_slices:
  assumes "length (ulid_str (gn_node_id e)) = 26" and "bs = node_event_encode e"
  shows "subslice 0 4 bs = NODE_EVENT_MAGIC" "subslice 4 6 bs = to_be_bytes NODE_EVENT_VERSION"
    "subslice 6 32 bs = as_bytes (ulid_str (gn_node_id e))" "subslice 32 36 bs = to_be_bytes (gn_attempt e)"
    "drop 36 bs = evidence_bytes (gn_evidence_hash e)"
    "length bs = (if gn_evidence_hash e = None then 37 else 69)"
proof -
  let ?M = "NODE_EVENT_MAGIC" and ?V = "to_be_bytes NODE_EVENT_VERSION"
  let ?U = "as_bytes (ulid_str (gn_node_id e))" and ?A = "to_be_bytes (gn_attempt e)"
  let ?E = "evidence_bytes (gn_evidence_hash e)"
  have M: "length ?M = 4" by (simp add: NODE_EVENT_MAGIC_def)
  have bs: "bs = ?M @ ?V @ ?U @ ?A @ ?E" by (simp add: assms(2) node_event_encode_def evidence_bytes_def)
  show "subslice 0 4 bs = ?M" unfolding bs using M by (simp add: subslice_def)
  show "subslice 4 6 bs = ?V" unfolding bs using M by (intro subslice_mid) simp_all
  show "subslice 6 32 bs = ?U"
    using M assms(1) subslice_mid [of "?M @ ?V" 6 ?U 32 "?A @ ?E"] by (simp add: bs)
  show "subslice 32 36 bs = ?A"
    using M assms(1) subslice_mid [of "?M @ ?V @ ?U" 32 ?A 36 ?E] by (simp add: bs)
  show "drop 36 bs = ?E" using M assms(1) by (simp add: bs)
  show "length bs = (if gn_evidence_hash e = None then 37 else 69)"
    using M assms(1) by (auto simp: bs evidence_bytes_def split: option.splits)
qed

lemma node_payload_join:
  assumes "subslice 0 4 bs = NODE_EVENT_MAGIC" "subslice 4 6 bs = to_be_bytes NODE_EVENT_VERSION"
    "subslice 6 32 bs = as_bytes (ulid_str (gn_node_id e))" "subslice 32 36 bs = to_be_bytes (gn_attempt e)"
    "drop 36 bs = evidence_bytes (gn_evidence_hash e)"
  shows "bs = node_event_encode e"
proof -
  have "bs = subslice 0 36 bs @ drop 36 bs" by (simp add: subslice_def)
  also have "subslice 0 36 bs = subslice 0 4 bs @ subslice 4 6 bs @ subslice 6 32 bs @ subslice 32 36 bs"
    using subslice_split [of 0 4 36 bs] subslice_split [of 4 6 36 bs] subslice_split [of 6 32 36 bs] by simp
  finally show ?thesis by (simp add: assms node_event_encode_def evidence_bytes_def)
qed

lemma evidence_bytes_read:
  "length bs \<ge> 37 \<Longrightarrow> drop 36 bs = evidence_bytes h \<longleftrightarrow>
     (case h of None \<Rightarrow> bs ! 36 = 0 \<and> length bs = 37
      | Some hash \<Rightarrow> bs ! 36 = 1 \<and> length bs = 69 \<and> subslice 37 69 bs = hash_bytes hash)"
proof -
  assume len: "length bs \<ge> 37"
  then have split: "drop 36 bs = bs ! 36 # drop 37 bs" by (simp add: Cons_nth_drop_Suc [symmetric])
  show ?thesis
  proof (cases h)
    case None
    with len show ?thesis by (auto simp: split evidence_bytes_def)
  next
    case (Some hash)
    have "drop 37 bs = hash_bytes hash \<longleftrightarrow> length bs = 69 \<and> subslice 37 69 bs = hash_bytes hash"
    proof
      assume eq: "drop 37 bs = hash_bytes hash"
      then have "length (drop 37 bs) = 32" by (metis length_hash_bytes)
      with len have "length bs = 69" by simp
      with eq show "length bs = 69 \<and> subslice 37 69 bs = hash_bytes hash" by (simp add: subslice_def)
    qed (auto simp: subslice_def)
    with Some show ?thesis by (auto simp: split evidence_bytes_def)
  qed
qed

lemma evidence_read_Ok:
  assumes "length bs \<ge> 37"
  shows "(if bs ! 36 = 0 \<and> length bs = 37 then Ok None
     else if bs ! 36 = 1 \<and> length bs = 69
     then and_then (domain (content_hash_from_bytes (subslice 37 69 bs))) (\<lambda>h. Ok (Some h))
     else Err invalid_value) = Ok h \<longleftrightarrow> drop 36 bs = evidence_bytes h"
  unfolding evidence_bytes_read [OF assms] by (cases h) (auto simp: result_simps split: if_splits)

lemma node_event_decode_Ok:
  "node_event_decode p event = Ok e \<longleftrightarrow>
     rj_payload_type event = PAYLOAD_TYPE \<and> rj_payload_schema event = PAYLOAD_SCHEMA \<and>
     rj_payload event = node_event_encode e \<and> ulid_ok p (gn_node_id e) \<and> gn_attempt e \<noteq> 0 \<and>
     event_type_fits (rj_event_type event) e"
    (is "?L \<longleftrightarrow> ?R")
proof -
  let ?bs = "rj_payload event"
  have step: "?L \<longleftrightarrow> rj_payload_type event = PAYLOAD_TYPE \<and> rj_payload_schema event = PAYLOAD_SCHEMA \<and>
      37 \<le> length ?bs \<and> subslice 0 4 ?bs = NODE_EVENT_MAGIC \<and> subslice 4 6 ?bs = to_be_bytes NODE_EVENT_VERSION \<and>
      subslice 6 32 ?bs = as_bytes (ulid_str (gn_node_id e)) \<and> ulid_ok p (gn_node_id e) \<and>
      gn_attempt e = from_be_bytes (subslice 32 36 ?bs) \<and> gn_attempt e \<noteq> 0 \<and>
      drop 36 ?bs = evidence_bytes (gn_evidence_hash e) \<and> event_type_fits (rj_event_type event) e"
  proof (cases "rj_payload_type event = PAYLOAD_TYPE \<and> rj_payload_schema event = PAYLOAD_SCHEMA \<and>
      37 \<le> length ?bs \<and> subslice 0 4 ?bs = NODE_EVENT_MAGIC \<and> subslice 4 6 ?bs = to_be_bytes NODE_EVENT_VERSION")
    case False
    then show ?thesis by (auto simp: node_event_decode_def Let_def)
  next
    case True
    have id: "from_utf8 bs = Some v \<and> ulid_new p v = Ok n \<longleftrightarrow> bs = as_bytes (ulid_str n) \<and> v = ulid_str n \<and> ulid_ok p n"
      for bs v n by (cases n) (auto simp: result_simps ulid_ok_def ascii_utf8)
    show ?thesis
      unfolding node_event_decode_def Let_def using True
      by (cases e) (auto simp: and_then_eq_Ok evidence_read_Ok domain_Ok ok_or_eq_Ok id node_event_new_def
          event_type_fits_def simp del: from_utf8_eq_Some split: if_splits)
  qed
  show ?thesis
  proof
    assume ?L
    then have L: "37 \<le> length ?bs" "subslice 0 4 ?bs = NODE_EVENT_MAGIC" "subslice 4 6 ?bs = to_be_bytes NODE_EVENT_VERSION"
      "subslice 6 32 ?bs = as_bytes (ulid_str (gn_node_id e))" "gn_attempt e = from_be_bytes (subslice 32 36 ?bs)"
      "drop 36 ?bs = evidence_bytes (gn_evidence_hash e)"
      unfolding step by simp_all
    then have "subslice 32 36 ?bs = to_be_bytes (gn_attempt e)" by (simp add: to_from_be_bytes_32)
    then have "?bs = node_event_encode e" using L node_payload_join by blast
    with \<open>?L\<close> show ?R unfolding step by blast
  next
    assume R: ?R
    then have len: "length (ulid_str (gn_node_id e)) = 26" by (simp add: ulid_ok_iff)
    note slices = node_payload_slices [OF len, of ?bs]
    show ?L unfolding step using R slices by (auto simp: from_to_be_bytes_32)
  qed
qed

section \<open>The execution as a state machine\<close>

text \<open>
  The transitions as a step relation: which event moves which phase where. \<open>graph_transition\<close>
  implements exactly this relation.
\<close>

definition names_node :: "(string \<Rightarrow> string option) \<Rightarrow> run_journal \<Rightarrow> ulid \<Rightarrow> u32 \<Rightarrow> content_hash option \<Rightarrow> bool" where
  "names_node p e n a h \<longleftrightarrow>
     node_event_decode p e = Ok \<lparr>gn_node_id = n, gn_attempt = a, gn_evidence_hash = h\<rparr>"

inductive graph_step ::
  "(string \<Rightarrow> string option) \<Rightarrow> ulid list \<Rightarrow> execution \<Rightarrow> run_journal \<Rightarrow> execution \<Rightarrow> bool"
  for p order x e where
  run_created: "ex_phase x = Initial \<Longrightarrow> rj_event_type e = RunCreated \<Longrightarrow>
    graph_step p order x e (x\<lparr>ex_phase := PhaseCreated\<rparr>)"
| run_started: "ex_phase x = PhaseCreated \<Longrightarrow> rj_event_type e = RunStarted \<Longrightarrow>
    graph_step p order x e (x\<lparr>ex_phase := Ready 0\<rparr>)"
| node_started: "ex_phase x = Ready i \<Longrightarrow> rj_event_type e = NodeStarted \<Longrightarrow> i < length order \<Longrightarrow>
    names_node p e (order ! i) a h \<Longrightarrow> graph_step p order x e (x\<lparr>ex_phase := Active i a\<rparr>)"
| node_restarted: "ex_phase x = Active i b \<or> ex_phase x = AwaitingCheckpoint i b g \<Longrightarrow>
    rj_event_type e = NodeStarted \<Longrightarrow> i < length order \<Longrightarrow>
    names_node p e (order ! i) a h \<Longrightarrow> b < a \<Longrightarrow> graph_step p order x e (x\<lparr>ex_phase := Active i a\<rparr>)"
| node_succeeded: "ex_phase x = Active i a \<Longrightarrow> rj_event_type e = NodeSucceeded \<Longrightarrow> i < length order \<Longrightarrow>
    names_node p e (order ! i) a (Some h) \<Longrightarrow> graph_step p order x e (x\<lparr>ex_phase := AwaitingCheckpoint i a h\<rparr>)"
| node_checkpointed: "ex_phase x = AwaitingCheckpoint i a h \<Longrightarrow> rj_event_type e = NodeCheckpointed \<Longrightarrow>
    i < length order \<Longrightarrow> order ! i = n \<Longrightarrow> names_node p e n a (Some h) \<Longrightarrow>
    graph_step p order x e
      \<lparr>ex_phase = Ready (Suc i), ex_completed_nodes = ex_completed_nodes x @ [n],
       ex_last_checkpoint = Some \<lparr>gc_node_id = n, gc_attempt = a, gc_output_hash = h,
         gc_journal_sequence = rj_sequence e, gc_journal_hash = rj_event_hash e\<rparr>\<rparr>"
| node_failed: "ex_phase x = Active i a \<Longrightarrow> rj_event_type e = NodeFailed \<Longrightarrow> i < length order \<Longrightarrow>
    names_node p e (order ! i) a h \<Longrightarrow> graph_step p order x e (x\<lparr>ex_phase := PhaseNodeFailed\<rparr>)"
| run_succeeded: "ex_phase x = Ready (length order) \<Longrightarrow> rj_event_type e = RunSucceeded \<Longrightarrow>
    graph_step p order x e (x\<lparr>ex_phase := Terminal Succeeded\<rparr>)"
| run_failed: "ex_phase x = PhaseNodeFailed \<Longrightarrow> rj_event_type e = RunFailed \<Longrightarrow>
    graph_step p order x e (x\<lparr>ex_phase := Terminal Failed\<rparr>)"
| run_cancelled: "ex_phase x = Ready i \<or> ex_phase x = Active i a \<or> ex_phase x = AwaitingCheckpoint i a h \<Longrightarrow>
    rj_event_type e = RunCancelled \<Longrightarrow> graph_step p order x e (x\<lparr>ex_phase := Terminal Cancelled\<rparr>)"

inductive_cases graph_stepE: "graph_step p order x e y"

lemma decode_names_node:
  "node_event_decode p e = Ok n \<longleftrightarrow> names_node p e (gn_node_id n) (gn_attempt n) (gn_evidence_hash n)"
  by (cases n) (simp add: names_node_def)

lemma graph_transition_sound:
  assumes "graph_transition p x e order = Ok y"
  shows "graph_step p order x e y"
proof (cases "ex_phase x")
  case Initial
  with assms show ?thesis
    by (cases "rj_event_type e") (auto simp: graph_transition_def intro: graph_step.intros)
next
  case PhaseCreated
  with assms show ?thesis
    by (cases "rj_event_type e") (auto simp: graph_transition_def intro: graph_step.intros)
next
  case (Ready i)
  with assms show ?thesis
    by (cases "rj_event_type e")
      (auto simp: graph_transition_def result_simps require_node_identity_def decode_names_node
        intro: graph_step.intros split: if_splits)
next
  case (Active i b)
  with assms show ?thesis
    by (cases "rj_event_type e")
      (auto simp: graph_transition_def restart_node_def result_simps require_node_identity_def require_node_def
        decode_names_node not_le intro: graph_step.intros split: if_splits)
next
  case (AwaitingCheckpoint i b g)
  with assms show ?thesis
    by (cases "rj_event_type e")
      (auto simp: graph_transition_def restart_node_def result_simps require_node_identity_def require_node_def
        decode_names_node not_le intro: graph_step.intros split: if_splits)
next
  case PhaseNodeFailed
  with assms show ?thesis
    by (cases "rj_event_type e") (auto simp: graph_transition_def intro: graph_step.intros)
next
  case (Terminal s)
  with assms show ?thesis by (cases "rj_event_type e") (auto simp: graph_transition_def)
qed

lemma graph_transition_complete:
  assumes "graph_step p order x e y"
  shows "graph_transition p x e order = Ok y"
  using assms
  by (rule graph_stepE)
    (auto simp: graph_transition_def restart_node_def require_node_identity_def require_node_def
      names_node_def vec_get_def not_le)

lemma graph_transition_Ok [result_simps]: "graph_transition p x e order = Ok y \<longleftrightarrow> graph_step p order x e y"
  using graph_transition_sound graph_transition_complete by blast

section \<open>What a replayed execution has established\<close>

fun graph_run ::
  "(string \<Rightarrow> string option) \<Rightarrow> ulid list \<Rightarrow> execution \<Rightarrow> run_journal list \<Rightarrow> execution runtime_result" where
  "graph_run p order x [] = Ok x"
| "graph_run p order x (e # es) = and_then (graph_transition p x e order) (\<lambda>y. graph_run p order y es)"

lemma position_Ok:
  assumes "chain sha256 r before"
  shows "verify_journal_position sha256 e (if before = [] then None else Some (last before)) r (length before) = Ok u
    \<longleftrightarrow> chain sha256 r (before @ [e])"
  using next_sequence_Ok [of "length before" "rj_sequence e"] chain_last [OF assms] assms
  by (auto simp: verify_journal_position_def result_simps chain_snoc split: if_splits)

lemma graph_loop_Ok:
  assumes "chain sha256 r before"
  shows "graph_loop sha256 p r order (length before) (if before = [] then None else Some (last before)) x events = Ok y \<longleftrightarrow>
    chain sha256 r (before @ events) \<and> graph_run p order x events = Ok y"
  using assms
proof (induction events arbitrary: before x)
  case Nil
  then show ?case by simp
next
  case (Cons e es)
  have IH: "graph_loop sha256 p r order (length (before @ [e])) (Some e) z es = Ok y \<longleftrightarrow>
      chain sha256 r ((before @ [e]) @ es) \<and> graph_run p order z es = Ok y"
    if "chain sha256 r (before @ [e])" for z
    using Cons.IH [OF that, of z] by simp
  have "graph_loop sha256 p r order (length before) (if before = [] then None else Some (last before)) x (e # es) = Ok y \<longleftrightarrow>
      chain sha256 r (before @ [e]) \<and> (\<exists>z. graph_transition p x e order = Ok z \<and>
        graph_loop sha256 p r order (length (before @ [e])) (Some e) z es = Ok y)"
    by (simp add: and_then_eq_Ok position_Ok [OF Cons.prems])
  then show ?case
    using IH chain_prefix [of sha256 r "before @ [e]" es] by (auto simp: and_then_eq_Ok)
qed

lemma graph_run_append:
  "graph_run p order x (es @ fs) = Ok z \<longleftrightarrow> (\<exists>y. graph_run p order x es = Ok y \<and> graph_run p order y fs = Ok z)"
  by (induction es arbitrary: x) (auto simp: and_then_eq_Ok)

lemma graph_run_completed:
  "graph_run p order x es = Ok y \<Longrightarrow> \<exists>later. ex_completed_nodes y = ex_completed_nodes x @ later"
proof (induction es arbitrary: x)
  case (Cons e es)
  then obtain z where z: "graph_step p order x e z" "graph_run p order z es = Ok y" by (auto simp: result_simps)
  from z(1) have "\<exists>later. ex_completed_nodes z = ex_completed_nodes x @ later"
    by (cases rule: graph_step.cases) auto
  with Cons.IH [OF z(2)] show ?case by auto
qed simp

text \<open>
  A node is committed by a success and a later checkpoint that name it with the same attempt and
  the same output hash.
\<close>

definition committed ::
  "(string \<Rightarrow> string option) \<Rightarrow> run_journal list \<Rightarrow> ulid \<Rightarrow> u32 \<Rightarrow> content_hash \<Rightarrow> bool" where
  "committed p events n a h \<longleftrightarrow>
     (\<exists>i j. i < j \<and> j < length events \<and>
        rj_event_type (events ! i) = NodeSucceeded \<and> names_node p (events ! i) n a (Some h) \<and>
        rj_event_type (events ! j) = NodeCheckpointed \<and> names_node p (events ! j) n a (Some h))"

definition checkpoint_recorded ::
  "(string \<Rightarrow> string option) \<Rightarrow> run_journal list \<Rightarrow> graph_checkpoint \<Rightarrow> bool" where
  "checkpoint_recorded p events c \<longleftrightarrow>
     (\<exists>j < length events. rj_event_type (events ! j) = NodeCheckpointed \<and>
        names_node p (events ! j) (gc_node_id c) (gc_attempt c) (Some (gc_output_hash c)) \<and>
        gc_journal_sequence c = rj_sequence (events ! j) \<and> gc_journal_hash c = rj_event_hash (events ! j))"

fun phase_ok :: "ulid list \<Rightarrow> ulid list \<Rightarrow> phase \<Rightarrow> bool" where
  "phase_ok order completed Initial \<longleftrightarrow> completed = []"
| "phase_ok order completed PhaseCreated \<longleftrightarrow> completed = []"
| "phase_ok order completed (Ready i) \<longleftrightarrow> i \<le> length order \<and> completed = take i order"
| "phase_ok order completed (Active i _) \<longleftrightarrow> i < length order \<and> completed = take i order"
| "phase_ok order completed (AwaitingCheckpoint i _ _) \<longleftrightarrow> i < length order \<and> completed = take i order"
| "phase_ok order completed PhaseNodeFailed \<longleftrightarrow> (\<exists>i < length order. completed = take i order)"
| "phase_ok order completed (Terminal s) \<longleftrightarrow>
     run_terminal s \<and> (\<exists>i \<le> length order. completed = take i order) \<and> (s = Succeeded \<longrightarrow> completed = order)"

definition execution_ok ::
  "(string \<Rightarrow> string option) \<Rightarrow> ulid list \<Rightarrow> run_journal list \<Rightarrow> execution \<Rightarrow> bool" where
  "execution_ok p order events x \<longleftrightarrow>
     phase_ok order (ex_completed_nodes x) (ex_phase x) \<and>
     (events = [] \<longleftrightarrow> ex_phase x = Initial) \<and>
     (\<forall>n \<in> set (ex_completed_nodes x). \<exists>a h. committed p events n a h) \<and>
     (\<forall>i a h. ex_phase x = AwaitingCheckpoint i a h \<longrightarrow>
        (\<exists>k < length events. rj_event_type (events ! k) = NodeSucceeded \<and> names_node p (events ! k) (order ! i) a (Some h))) \<and>
     (case ex_last_checkpoint x of
        None \<Rightarrow> ex_completed_nodes x = []
      | Some c \<Rightarrow> ex_completed_nodes x \<noteq> [] \<and> gc_node_id c = last (ex_completed_nodes x) \<and> checkpoint_recorded p events c)"

lemma committed_mono: "committed p events n a h \<Longrightarrow> committed p (events @ es) n a h"
proof -
  assume "committed p events n a h"
  then obtain i j where "i < j" "j < length events"
    "rj_event_type (events ! i) = NodeSucceeded" "names_node p (events ! i) n a (Some h)"
    "rj_event_type (events ! j) = NodeCheckpointed" "names_node p (events ! j) n a (Some h)"
    unfolding committed_def by blast
  then show ?thesis
    unfolding committed_def by (intro exI [of _ i] exI [of _ j]) (simp add: nth_append)
qed

lemma checkpoint_recorded_mono: "checkpoint_recorded p events c \<Longrightarrow> checkpoint_recorded p (events @ es) c"
proof -
  assume "checkpoint_recorded p events c"
  then obtain j where "j < length events" "rj_event_type (events ! j) = NodeCheckpointed"
    "names_node p (events ! j) (gc_node_id c) (gc_attempt c) (Some (gc_output_hash c))"
    "gc_journal_sequence c = rj_sequence (events ! j)" "gc_journal_hash c = rj_event_hash (events ! j)"
    unfolding checkpoint_recorded_def by blast
  then show ?thesis
    unfolding checkpoint_recorded_def by (intro exI [of _ j]) (simp add: nth_append)
qed

lemma execution_ok_start: "execution_ok p order [] execution_start"
  by (simp add: execution_ok_def execution_start_def)

text \<open>A step that only changes the phase.\<close>

lemma execution_ok_phase:
  assumes "execution_ok p order events x" "phase_ok order (ex_completed_nodes x) ph" "ph \<noteq> Initial"
    and "\<And>i a h. ph = AwaitingCheckpoint i a h \<Longrightarrow>
      rj_event_type e = NodeSucceeded \<and> names_node p e (order ! i) a (Some h)"
  shows "execution_ok p order (events @ [e]) (x\<lparr>ex_phase := ph\<rparr>)"
proof -
  have awaiting: "\<exists>k < length (events @ [e]). rj_event_type ((events @ [e]) ! k) = NodeSucceeded \<and>
      names_node p ((events @ [e]) ! k) (order ! i) a (Some h)" if "ph = AwaitingCheckpoint i a h" for i a h
    using assms(4) [OF that] by (intro exI [of _ "length events"]) simp
  have comm: "\<forall>n \<in> set (ex_completed_nodes x). \<exists>a h. committed p (events @ [e]) n a h"
    using assms(1) committed_mono by (fastforce simp: execution_ok_def)
  have last: "case ex_last_checkpoint x of None \<Rightarrow> ex_completed_nodes x = []
      | Some c \<Rightarrow> ex_completed_nodes x \<noteq> [] \<and> gc_node_id c = last (ex_completed_nodes x) \<and> checkpoint_recorded p (events @ [e]) c"
    using assms(1) checkpoint_recorded_mono by (auto simp: execution_ok_def split: option.splits)
  show ?thesis
    unfolding execution_ok_def using assms(2,3) awaiting comm last
    by (cases "ex_last_checkpoint x") simp_all
qed

lemma execution_ok_checkpoint:
  assumes ok: "execution_ok p order events x" and phase: "ex_phase x = AwaitingCheckpoint i a h"
    and e: "rj_event_type e = NodeCheckpointed" "i < length order" "order ! i = n" "names_node p e n a (Some h)"
  shows "execution_ok p order (events @ [e])
    \<lparr>ex_phase = Ready (Suc i), ex_completed_nodes = ex_completed_nodes x @ [n],
     ex_last_checkpoint = Some \<lparr>gc_node_id = n, gc_attempt = a, gc_output_hash = h,
       gc_journal_sequence = rj_sequence e, gc_journal_hash = rj_event_hash e\<rparr>\<rparr>"
proof -
  obtain k where k: "k < length events" "rj_event_type (events ! k) = NodeSucceeded" "names_node p (events ! k) n a (Some h)"
    using ok phase e(3) unfolding execution_ok_def by blast
  have new: "committed p (events @ [e]) n a h"
    unfolding committed_def using k e by (intro exI [of _ k] exI [of _ "length events"]) (simp add: nth_append)
  define D where "D = ex_completed_nodes x @ [n]"
  then have D: "D \<noteq> []" "last D = n" by simp_all
  have "\<forall>m \<in> set D. \<exists>a h. committed p (events @ [e]) m a h"
    using ok new committed_mono by (fastforce simp: execution_ok_def D_def)
  moreover have "phase_ok order D (Ready (Suc i))"
    using ok phase e(2,3) by (auto simp: execution_ok_def take_Suc_conv_app_nth D_def)
  moreover have "checkpoint_recorded p (events @ [e]) \<lparr>gc_node_id = n, gc_attempt = a, gc_output_hash = h,
      gc_journal_sequence = rj_sequence e, gc_journal_hash = rj_event_hash e\<rparr>"
    unfolding checkpoint_recorded_def using e by (intro exI [of _ "length events"]) simp
  ultimately show ?thesis unfolding execution_ok_def D_def [symmetric] using D by simp
qed

lemma execution_ok_step:
  assumes ok: "execution_ok p order events x" and step: "graph_step p order x e y"
  shows "execution_ok p order (events @ [e]) y"
proof -
  have ph: "phase_ok order (ex_completed_nodes x) (ex_phase x)" using ok by (simp add: execution_ok_def)
  show ?thesis
    using step
  proof (cases rule: graph_step.cases)
    case (node_checkpointed i a h n)
    then show ?thesis using execution_ok_checkpoint [OF ok] by blast
  next
    case (node_restarted i b g a h)
    then show ?thesis using ph by (auto intro!: execution_ok_phase [OF ok])
  next
    case (node_failed i a h)
    then show ?thesis using ph by (auto intro!: execution_ok_phase [OF ok])
  next
    case run_succeeded
    then have "phase_ok order (ex_completed_nodes x) (Terminal Succeeded)"
      using ph by (auto simp: run_terminal_def)
    from execution_ok_phase [OF ok this] show ?thesis by (simp add: run_succeeded)
  next
    case run_failed
    then obtain i where "i \<le> length order" "ex_completed_nodes x = take i order"
      using ph by (auto intro: less_imp_le)
    then show ?thesis using run_failed by (auto intro!: execution_ok_phase [OF ok] simp: run_terminal_def)
  next
    case (run_cancelled i a h)
    then have "i \<le> length order" "ex_completed_nodes x = take i order" using ph by auto
    then show ?thesis using run_cancelled by (auto intro!: execution_ok_phase [OF ok] simp: run_terminal_def)
  qed (use ph in \<open>auto intro!: execution_ok_phase [OF ok] simp: run_terminal_def\<close>)
qed

lemma execution_ok_run:
  "execution_ok p order events x \<Longrightarrow> graph_run p order x es = Ok y \<Longrightarrow> execution_ok p order (events @ es) y"
proof (induction es arbitrary: events x)
  case (Cons e es)
  then obtain z where "graph_step p order x e z" "graph_run p order z es = Ok y"
    by (auto simp: result_simps)
  then show ?case using Cons.IH [of "events @ [e]" z] execution_ok_step [OF Cons.prems(1)] by simp
qed simp

lemma replay_graph_execution_Ok:
  assumes "replay_graph_execution sha256 p g events = Ok r"
  obtains x where "events \<noteq> []" "chain sha256 (rj_run_id (hd events)) events"
    "graph_run p (rg_topological_order g) execution_start events = Ok x"
    "execution_ok p (rg_topological_order g) events x"
    "phase_outcome (rg_topological_order g) (ex_phase x) = Ok (gr_run_state r, gr_resume_node r)"
    "gr_completed_nodes r = ex_completed_nodes x" "gr_last_checkpoint r = ex_last_checkpoint x"
    "gr_run_id r = rj_run_id (hd events)" "gr_event_count r = length events"
proof (cases events)
  case Nil
  then show ?thesis using assms by (simp add: replay_graph_execution_def)
next
  case (Cons e es)
  let ?order = "rg_topological_order g"
  obtain x where loop: "graph_loop sha256 p (rj_run_id e) ?order 0 None execution_start events = Ok x"
    and out: "phase_outcome ?order (ex_phase x) = Ok (gr_run_state r, gr_resume_node r)"
    and r: "gr_completed_nodes r = ex_completed_nodes x" "gr_last_checkpoint r = ex_last_checkpoint x"
      "gr_run_id r = rj_run_id e" "gr_event_count r = length events"
    using assms by (auto simp: replay_graph_execution_def Cons Let_def and_then_eq_Ok)
  have "chain sha256 (rj_run_id e) events" "graph_run p ?order execution_start events = Ok x"
    using graph_loop_Ok [OF chain_Nil, of sha256 p "rj_run_id e" ?order execution_start events x] loop by simp_all
  moreover from this have "execution_ok p ?order events x"
    using execution_ok_run [OF execution_ok_start] by fastforce
  ultimately show ?thesis using that out r by (simp add: Cons)
qed

text \<open>
  C33: node events are written and read back without loss or ambiguity. Decoding accepts
  a journal event exactly when its payload is the encoding of the returned node event, with the
  two payload labels, a valid node identifier, a positive attempt, and evidence present exactly
  on the event types that carry it.
\<close>

theorem node_event_codec:
  "node_event_decode p event = Ok e \<longleftrightarrow>
     rj_payload_type event = PAYLOAD_TYPE \<and> rj_payload_schema event = PAYLOAD_SCHEMA \<and>
     rj_payload event = node_event_encode e \<and> ulid_ok p (gn_node_id e) \<and> gn_attempt e \<noteq> 0 \<and>
     rj_event_type event \<in> {NodeStarted, NodeSucceeded, NodeFailed, NodeCheckpointed} \<and>
     (gn_evidence_hash e = None \<longleftrightarrow> rj_event_type event = NodeStarted)"
  unfolding node_event_decode_Ok event_type_fits_def by blast

lemma completed_prefix:
  assumes "phase_ok order completed ph"
  shows "completed = take (length completed) order"
  using assms by (cases ph) auto

text \<open>
  C8: what a successful replay establishes. The nodes reported complete are the first
  nodes of the graph's execution order, each committed by a success event and a later checkpoint
  with the same attempt and output hash; a run reported succeeded has completed every node; and
  the node to resume is the next one in order, not complete itself, with every predecessor in the
  graph complete.
\<close>

theorem graph_replay_establishes:
  assumes "replay_graph_execution sha256 p g events = Ok r" and "graph_ok sha256 g"
  shows "gr_completed_nodes r = take (length (gr_completed_nodes r)) (rg_topological_order g) \<and>
    (\<forall>n \<in> set (gr_completed_nodes r). \<exists>a h. committed p events n a h) \<and>
    (gr_run_state r = Succeeded \<longrightarrow> gr_completed_nodes r = rg_topological_order g) \<and>
    (\<forall>n. gr_resume_node r = Some n \<longrightarrow>
       gr_run_state r = Running \<and> length (gr_completed_nodes r) < length (rg_topological_order g) \<and>
       n = rg_topological_order g ! length (gr_completed_nodes r) \<and> n \<notin> set (gr_completed_nodes r) \<and>
       (\<forall>e \<in> set (rg_edges g). ed_to_node e = n \<longrightarrow> ed_from_node e \<in> set (gr_completed_nodes r)))"
proof -
  let ?order = "rg_topological_order g"
  obtain x where x: "execution_ok p ?order events x"
    "phase_outcome ?order (ex_phase x) = Ok (gr_run_state r, gr_resume_node r)"
    "gr_completed_nodes r = ex_completed_nodes x"
    using assms(1) by (rule replay_graph_execution_Ok) 
  have ph: "phase_ok ?order (ex_completed_nodes x) (ex_phase x)"
    and comm: "\<forall>n \<in> set (ex_completed_nodes x). \<exists>a h. committed p events n a h"
    using x(1) by (auto simp: execution_ok_def)
  have prefix: "ex_completed_nodes x = take (length (ex_completed_nodes x)) ?order"
    by (rule completed_prefix [OF ph])
  have succeeded: "gr_run_state r = Succeeded \<longrightarrow> ex_completed_nodes x = ?order"
    using ph x(2) by (cases "ex_phase x") auto
  have resume: "gr_run_state r = Running \<and> length (ex_completed_nodes x) < length ?order \<and>
      n = ?order ! length (ex_completed_nodes x)" if "gr_resume_node r = Some n" for n
    using ph x(2) that by (cases "ex_phase x") (auto simp: min_absorb2)
  have ready: "?order ! i \<notin> set (take i ?order) \<and>
      (\<forall>e \<in> set (rg_edges g). ed_to_node e = ?order ! i \<longrightarrow> ed_from_node e \<in> set (take i ?order))"
    if "i < length ?order" for i
  proof -
    have "?order ! i \<in> frontier (nd_node_id ` set (rg_nodes g)) (rg_edges g) (set (take i ?order))"
      using assms(2) that by (simp add: graph_ok_def least_first_def)
    moreover have "(ed_from_node e, ed_to_node e) \<in> edge_relation (rg_edges g)" if "e \<in> set (rg_edges g)" for e
      using that by (simp add: edge_relation_def)
    ultimately show ?thesis unfolding frontier_def by (metis (no_types, lifting) Diff_iff mem_Collect_eq)
  qed
  show ?thesis
    unfolding x(3) using prefix comm succeeded resume ready by metis
qed

text \<open>
  Recovery after a crash. Every nonempty prefix of a journal that replays also
  replays, and the nodes complete at the prefix are the first of those complete at the end:
  what was committed before an interruption is never lost or reordered.
\<close>

theorem graph_replay_prefix:
  assumes "replay_graph_execution sha256 p g (es @ fs) = Ok r" and "es \<noteq> []"
  shows "\<exists>q. replay_graph_execution sha256 p g es = Ok q \<and>
    (\<exists>later. gr_completed_nodes r = gr_completed_nodes q @ later)"
proof -
  let ?order = "rg_topological_order g"
  obtain y where y: "chain sha256 (rj_run_id (hd (es @ fs))) (es @ fs)"
    "graph_run p ?order execution_start (es @ fs) = Ok y" "gr_completed_nodes r = ex_completed_nodes y"
    using assms(1) by (rule replay_graph_execution_Ok)
  then obtain x where x: "graph_run p ?order execution_start es = Ok x" "graph_run p ?order x fs = Ok y"
    by (auto simp: graph_run_append)
  have ok: "execution_ok p ?order es x" using execution_ok_run [OF execution_ok_start x(1)] by simp
  then have "ex_phase x \<noteq> Initial" using assms(2) by (simp add: execution_ok_def)
  then obtain out where out: "phase_outcome ?order (ex_phase x) = Ok out" by (cases "ex_phase x") auto
  have "chain sha256 (rj_run_id (hd es)) es" using chain_prefix y(1) assms(2) by fastforce
  then have "graph_loop sha256 p (rj_run_id (hd es)) ?order 0 None execution_start es = Ok x"
    using graph_loop_Ok [OF chain_Nil, of sha256 p "rj_run_id (hd es)" ?order execution_start es x] x(1) by simp
  then obtain q where "replay_graph_execution sha256 p g es = Ok q" "gr_completed_nodes q = ex_completed_nodes x"
    using out assms(2) by (cases es; cases out) (simp_all add: replay_graph_execution_def)
  moreover have "\<exists>later. ex_completed_nodes y = ex_completed_nodes x @ later"
    using x(2) graph_run_completed by blast
  ultimately show ?thesis using y(3) by auto
qed

section \<open>A one-node execution\<close>

definition sample_ulid :: ulid where
  "sample_ulid = Ulid ''01ARZ3NDEKTSV4RRFFQ69G5FAV''"

definition sample_execution_graph :: research_graph where
  "sample_execution_graph =
     graph_of (\<lambda>_. zero_hash)
       ((sample_graph_input 1)\<lparr>ri_nodes := [sample_node (ulid_str sample_ulid) []], ri_edges := []\<rparr>) [] [] [sample_ulid]"

lemma sample_execution_order [simp]: "rg_topological_order sample_execution_graph = [sample_ulid]"
  by (simp add: sample_execution_graph_def graph_of_def Let_def)

lemma sample_execution_graph_ok: "graph_ok (\<lambda>_. zero_hash) sample_execution_graph"
  unfolding sample_execution_graph_def
  by (rule graph_of_ok)
    (auto simp: graph_accepts_def bindings_valid_def fed_ports_def edge_relation_def sample_node_def
      sample_contract_def graph_order_def bt_keys_node_map least_first_def frontier_def)

definition sample_node_event :: "u64 \<Rightarrow> journal_event_type \<Rightarrow> run_journal" where
  "sample_node_event n t =
     (sample_event n t)\<lparr>rj_payload_type := PAYLOAD_TYPE, rj_payload_schema := PAYLOAD_SCHEMA,
       rj_payload := node_event_encode \<lparr>gn_node_id = sample_ulid, gn_attempt = 1,
         gn_evidence_hash = (if t = NodeStarted then None else Some zero_hash)\<rparr>\<rparr>"

definition sample_execution :: "run_journal list" where
  "sample_execution =
     [sample_event 1 RunCreated, sample_event 2 RunStarted, sample_node_event 3 NodeStarted,
      sample_node_event 4 NodeSucceeded, sample_node_event 5 NodeCheckpointed, sample_event 6 RunSucceeded]"

lemma sample_node_event_fields [simp]:
  "rj_event_hash (sample_node_event n t) = zero_hash" "rj_event_type (sample_node_event n t) = t"
  "rj_run_id (sample_node_event n t) = Ulid ''r''" "rj_sequence (sample_node_event n t) = n"
  "rj_prev_hash (sample_node_event n t) = (if n = 1 then None else Some zero_hash)"
  "rj_occurred_at (sample_node_event n t) = sample_time"
  by (simp_all add: sample_node_event_def)

lemma sample_node_event_canonical: "n \<noteq> 0 \<Longrightarrow> event_canonical (\<lambda>_. zero_hash) (sample_node_event n t)"
proof -
  have "trim PAYLOAD_TYPE = PAYLOAD_TYPE" "trim PAYLOAD_SCHEMA = PAYLOAD_SCHEMA"
    by (rule trim_printable; auto simp: PAYLOAD_TYPE_def PAYLOAD_SCHEMA_def)+
  moreover have "PAYLOAD_TYPE \<noteq> []" "PAYLOAD_SCHEMA \<noteq> []" by (simp_all add: PAYLOAD_TYPE_def PAYLOAD_SCHEMA_def)
  moreover assume "n \<noteq> 0"
  ultimately show ?thesis
    by (auto simp: event_canonical_def journal_input_validate_def journal_input_of_def sample_node_event_def
        node_event_encode_def NODE_EVENT_MAGIC_def)
qed

lemma sample_names_node:
  assumes "t \<in> {NodeStarted, NodeSucceeded, NodeCheckpointed}"
  shows "names_node Some (sample_node_event n t) sample_ulid 1 (if t = NodeStarted then None else Some zero_hash)"
  using assms
  by (auto simp: names_node_def node_event_decode_Ok event_type_fits_def sample_node_event_def ulid_ok_iff
      sample_ulid_def is_ascii_def)

lemma sample_execution_chain: "chain (\<lambda>_. zero_hash) (Ulid ''r'') sample_execution"
proof -
  have "i = 0 \<or> i = 1 \<or> i = 2 \<or> i = 3 \<or> i = 4 \<or> i = 5" if "i < length sample_execution" for i
    using that by (auto simp: sample_execution_def)
  then show ?thesis
    unfolding chain_def
    by (fastforce simp: sample_execution_def sample_event_canonical sample_node_event_canonical)
qed

lemma sample_execution_run:
  "\<exists>x. graph_run Some [sample_ulid] execution_start sample_execution = Ok x \<and> ex_phase x = Terminal Succeeded"
proof -
  note names = sample_names_node [of NodeStarted] sample_names_node [of NodeSucceeded] sample_names_node [of NodeCheckpointed]
  show ?thesis
    using names
    by (simp add: sample_execution_def execution_start_def graph_transition_def names_node_def
        require_node_identity_def require_node_def vec_get_def)
qed

lemma sample_execution_replays:
  "\<exists>r. replay_graph_execution (\<lambda>_. zero_hash) Some sample_execution_graph sample_execution = Ok r \<and>
     gr_run_state r = Succeeded"
proof -
  obtain x where x: "graph_run Some [sample_ulid] execution_start sample_execution = Ok x" "ex_phase x = Terminal Succeeded"
    using sample_execution_run by blast
  then have "graph_loop (\<lambda>_. zero_hash) Some (Ulid ''r'') [sample_ulid] 0 None execution_start sample_execution = Ok x"
    using graph_loop_Ok [OF chain_Nil, of "\<lambda>_. zero_hash" Some "Ulid ''r''" "[sample_ulid]" execution_start sample_execution x]
      sample_execution_chain by simp
  then show ?thesis
    using x(2) by (auto simp: replay_graph_execution_def sample_execution_def)
qed

lemma graph_replay_establishes_witness:
  "\<exists>r. replay_graph_execution (\<lambda>_. zero_hash) Some sample_execution_graph sample_execution = Ok r \<and>
     gr_completed_nodes r = [sample_ulid] \<and> (\<exists>a h. committed Some sample_execution sample_ulid a h)"
proof -
  obtain r where r: "replay_graph_execution (\<lambda>_. zero_hash) Some sample_execution_graph sample_execution = Ok r"
    "gr_run_state r = Succeeded" using sample_execution_replays by blast
  from graph_replay_establishes [OF r(1) sample_execution_graph_ok] r show ?thesis by auto
qed

lemma graph_replay_prefix_witness:
  "\<exists>q. replay_graph_execution (\<lambda>_. zero_hash) Some sample_execution_graph (take 4 sample_execution) = Ok q"
proof -
  obtain r where "replay_graph_execution (\<lambda>_. zero_hash) Some sample_execution_graph
      (take 4 sample_execution @ drop 4 sample_execution) = Ok r"
    using sample_execution_replays by auto
  from graph_replay_prefix [OF this] show ?thesis by (auto simp: sample_execution_def)
qed

end
