(* ===== verification/Formal_Evidence.thy ===== *)
theory Formal_Evidence
  imports Node_Contract
begin

text \<open>
  Formal evidence of an output (\<open>ficant-runtime/src/native_execution.rs\<close>, first part): typed
  input bindings, code and runtime bindings, the canonical writer and the output identity. The
  theory shows which inputs are accepted, that the order of bindings does not matter, and that
  the output identity fixes the whole evidence.

  \<open>ds\<close> is the text form of a date (the \<open>chrono\<close> crate's \<open>Display\<close> of \<open>NaiveDate\<close>).
\<close>

section \<open>Kinds and references\<close>

datatype formal_input_kind =
    KSubject | KDataSnapshot | KUniverseSnapshot | KRulePack | KArtifact | KDefinition
  | KInstrument | KCalendar | KUnit | KDataSource | KCurveSnapshot | KFactorDefinition
  | KPositionSnapshot | KDataHealthProfile | KCurveNodeDefinition | KPortfolio | KBook
  | KPortfolioGroup | KBenchmark | KPortfolioMetricConvention | KFact
  | KPortfolioValuationSnapshot | KBenchmarkLevelSnapshot | KPortfolioPerformanceConvention

fun kind_code :: "formal_input_kind \<Rightarrow> byte" where
  "kind_code KSubject = 1"
| "kind_code KDataSnapshot = 2"
| "kind_code KUniverseSnapshot = 3"
| "kind_code KRulePack = 4"
| "kind_code KArtifact = 5"
| "kind_code KDefinition = 6"
| "kind_code KInstrument = 7"
| "kind_code KCalendar = 8"
| "kind_code KUnit = 9"
| "kind_code KDataSource = 10"
| "kind_code KCurveSnapshot = 11"
| "kind_code KFactorDefinition = 12"
| "kind_code KPositionSnapshot = 13"
| "kind_code KDataHealthProfile = 14"
| "kind_code KCurveNodeDefinition = 15"
| "kind_code KPortfolio = 16"
| "kind_code KBook = 17"
| "kind_code KPortfolioGroup = 18"
| "kind_code KBenchmark = 19"
| "kind_code KPortfolioMetricConvention = 20"
| "kind_code KFact = 21"
| "kind_code KPortfolioValuationSnapshot = 22"
| "kind_code KBenchmarkLevelSnapshot = 23"
| "kind_code KPortfolioPerformanceConvention = 24"

definition uses_named_reference :: "formal_input_kind \<Rightarrow> bool" where
  "uses_named_reference k \<longleftrightarrow> k \<in> {KFactorDefinition, KCurveNodeDefinition}"

definition uses_versioned_object :: "formal_input_kind \<Rightarrow> bool" where
  "uses_versioned_object k \<longleftrightarrow>
     k \<in> {KSubject, KRulePack, KDefinition, KInstrument, KCalendar, KUnit, KDataSource,
          KDataHealthProfile, KPortfolio, KBook, KPortfolioGroup, KBenchmark,
          KPortfolioMetricConvention, KPortfolioPerformanceConvention, KFact}"

definition ensure_git_sha :: "string \<Rightarrow> unit domain_result" where
  "ensure_git_sha value =
     (if length value \<noteq> 40
        \<or> \<not> list_all (\<lambda>byte. is_ascii_digit byte \<or>
               (97 \<le> (of_char byte :: nat) \<and> (of_char byte :: nat) \<le> 102)) value
      then Err InvalidValue else Ok ())"

definition ensure_role :: "string \<Rightarrow> unit domain_result" where
  "ensure_role value =
     (if value = [] \<or> length value > 128 \<or> trim value \<noteq> value
        \<or> \<not> list_all (\<lambda>byte. is_ascii_lowercase byte \<or> is_ascii_digit byte \<or> byte \<in> set ''._-'') value
      then Err InvalidValue else Ok ())"

definition ensure_stable_identity :: "string \<Rightarrow> unit domain_result" where
  "ensure_stable_identity value =
     (if value = [] \<or> length value > 256 \<or> trim value \<noteq> value \<or> \<not> is_ascii value
        \<or> list_ex is_ascii_whitespace value
      then Err InvalidValue else Ok ())"

record named_content_ref =
  nc_identity :: string
  nc_content_hash :: content_hash

definition named_content_ref_new :: "string \<Rightarrow> content_hash \<Rightarrow> named_content_ref domain_result" where
  "named_content_ref_new identity content_hash =
     and_then (ensure_stable_identity identity)
       (\<lambda>_. Ok \<lparr>nc_identity = identity, nc_content_hash = content_hash\<rparr>)"

datatype formal_input_reference = ObjectRef lineage_ref | NamedRef named_content_ref

section \<open>The canonical writer\<close>

text \<open>\<open>writer_new\<close> is what \<open>CanonicalWriter::new\<close> leaves in the buffer; the others what they append.\<close>

definition writer_field :: "u16 \<Rightarrow> bytes \<Rightarrow> bytes" where
  "writer_field tag value = to_be_bytes tag @ to_be_bytes (word_of_nat (length value) :: u64) @ value"

definition writer_new :: "string \<Rightarrow> bytes" where
  "writer_new domain_tag = as_bytes (''FICANT-EVIDENCE'' @ [CHR 0x00]) @ writer_field 1 (as_bytes domain_tag)"

definition writer_u64 :: "u16 \<Rightarrow> u64 \<Rightarrow> bytes" where
  "writer_u64 tag value = writer_field tag (to_be_bytes value)"

definition writer_optional_u64 :: "u16 \<Rightarrow> u64 option \<Rightarrow> bytes" where
  "writer_optional_u64 tag value =
     writer_field tag (case value of Some value \<Rightarrow> 1 # to_be_bytes value | None \<Rightarrow> [0])"

definition writer_optional :: "u16 \<Rightarrow> bytes option \<Rightarrow> bytes" where
  "writer_optional tag value =
     writer_field tag (case value of
         Some value \<Rightarrow> 1 # to_be_bytes (word_of_nat (length value) :: u64) @ value
       | None \<Rightarrow> [0])"

definition object_reference_bytes :: "lineage_ref \<Rightarrow> bytes" where
  "object_reference_bytes r =
     writer_new ''exact-lineage-reference/v1''
     @ writer_field 2 (as_bytes (ulid_str (lr_object_id r)))
     @ writer_optional_u64 3 (map_option version_get (lr_version r))
     @ writer_optional 4 (map_option hash_bytes (lr_content_hash r))"

definition owner_bytes :: "owner_ref \<Rightarrow> bytes" where
  "owner_bytes owner =
     writer_new ''owner-ref/v1''
     @ writer_field 2 (as_bytes (ulid_str (tenant_id owner)))
     @ writer_field 3 (as_bytes (ulid_str (owner_id owner)))"

definition market_time_bytes :: "(naive_date \<Rightarrow> string) \<Rightarrow> market_time \<Rightarrow> bytes" where
  "market_time_bytes ds time =
     writer_new ''market-time/v1''
     @ writer_field 2 (to_be_bytes (timestamp (mt_instant time)))
     @ writer_field 3 (to_be_bytes (timestamp_subsec_nanos (mt_instant time)))
     @ writer_field 4 (as_bytes (mt_timezone time))
     @ writer_field 5 (as_bytes (ds (mt_local_date time)))"

fun reference_bytes :: "formal_input_reference \<Rightarrow> bytes" where
  "reference_bytes (ObjectRef reference) =
     writer_new ''formal-input-reference/v1'' @ writer_field 2 [1]
     @ writer_field 3 (object_reference_bytes reference)"
| "reference_bytes (NamedRef reference) =
     writer_new ''formal-input-reference/v1'' @ writer_field 2 [2]
     @ writer_field 3 (as_bytes (nc_identity reference))
     @ writer_field 4 (hash_bytes (nc_content_hash reference))"

section \<open>Bindings\<close>

record formal_input_binding =
  fb_role :: string
  fb_kind :: formal_input_kind
  fb_owner :: owner_ref
  fb_reference :: formal_input_reference
  fb_observed_at :: "market_time option"
  fb_visible_at :: "market_time option"
  fb_effective_from :: "market_time option"
  fb_effective_to :: "market_time option"

definition validate_reference :: "formal_input_kind \<Rightarrow> formal_input_reference \<Rightarrow> unit domain_result" where
  "validate_reference kind reference =
     (case (uses_named_reference kind, reference) of
        (True, NamedRef _) \<Rightarrow> Ok ()
      | (True, ObjectRef _) \<Rightarrow> Err BrokenLineage
      | (False, NamedRef _) \<Rightarrow> Err BrokenLineage
      | (False, ObjectRef reference) \<Rightarrow>
          if lr_content_hash reference = None
            \<or> (lr_version reference \<noteq> None) \<noteq> uses_versioned_object kind
          then Err BrokenLineage else Ok ())"

definition validate_times ::
  "market_time option \<Rightarrow> market_time option \<Rightarrow> market_time option \<Rightarrow> market_time option \<Rightarrow> unit domain_result" where
  "validate_times observed_at visible_at effective_from effective_to =
     (if (case (observed_at, visible_at) of
            (Some observed, Some visible) \<Rightarrow> mt_instant observed > mt_instant visible | _ \<Rightarrow> False)
        \<or> (effective_from \<noteq> None) \<noteq> (effective_to \<noteq> None)
        \<or> (case (effective_from, effective_to) of
             (Some from, Some to) \<Rightarrow> mt_instant from \<ge> mt_instant to | _ \<Rightarrow> False)
      then Err InvalidEffectiveTime else Ok ())"

text \<open>The input struct has the fields of the binding; the constructor validates and keeps them.\<close>

definition formal_input_binding_new :: "formal_input_binding \<Rightarrow> formal_input_binding domain_result" where
  "formal_input_binding_new input =
     and_then (ensure_role (fb_role input)) (\<lambda>_.
     and_then (validate_reference (fb_kind input) (fb_reference input)) (\<lambda>_.
     and_then (validate_times (fb_observed_at input) (fb_visible_at input)
                 (fb_effective_from input) (fb_effective_to input)) (\<lambda>_.
     Ok input)))"

definition binding_bytes :: "(naive_date \<Rightarrow> string) \<Rightarrow> formal_input_binding \<Rightarrow> bytes" where
  "binding_bytes ds b =
     writer_new ''formal-input-binding/v1''
     @ writer_field 2 (as_bytes (fb_role b))
     @ writer_field 3 [kind_code (fb_kind b)]
     @ writer_field 4 (owner_bytes (fb_owner b))
     @ writer_field 5 (reference_bytes (fb_reference b))
     @ writer_optional 6 (map_option (market_time_bytes ds) (fb_observed_at b))
     @ writer_optional 7 (map_option (market_time_bytes ds) (fb_visible_at b))
     @ writer_optional 8 (map_option (market_time_bytes ds) (fb_effective_from b))
     @ writer_optional 9 (map_option (market_time_bytes ds) (fb_effective_to b))"

record code_binding =
  cb_git_commit_sha :: string
  cb_git_tree_sha :: string
  cb_digest :: content_hash

definition code_digest :: "sha256_fn \<Rightarrow> string \<Rightarrow> string \<Rightarrow> content_hash" where
  "code_digest sha256 commit tree =
     sha256 (writer_new ''code-binding-digest/v1''
       @ writer_field 2 (as_bytes commit) @ writer_field 3 (as_bytes tree))"

definition code_binding_new :: "sha256_fn \<Rightarrow> string \<Rightarrow> string \<Rightarrow> code_binding domain_result" where
  "code_binding_new sha256 git_commit_sha git_tree_sha =
     and_then (ensure_git_sha git_commit_sha) (\<lambda>_.
     and_then (ensure_git_sha git_tree_sha) (\<lambda>_.
     Ok \<lparr>cb_git_commit_sha = git_commit_sha, cb_git_tree_sha = git_tree_sha,
         cb_digest = code_digest sha256 git_commit_sha git_tree_sha\<rparr>))"

definition code_binding_from_claimed ::
  "sha256_fn \<Rightarrow> string \<Rightarrow> string \<Rightarrow> content_hash \<Rightarrow> code_binding domain_result" where
  "code_binding_from_claimed sha256 git_commit_sha git_tree_sha claimed_digest =
     and_then (code_binding_new sha256 git_commit_sha git_tree_sha) (\<lambda>value.
     if cb_digest value \<noteq> claimed_digest then Err ContentHashMismatch else Ok value)"

definition code_binding_bytes :: "code_binding \<Rightarrow> bytes" where
  "code_binding_bytes c =
     writer_new ''code-binding/v1''
     @ writer_field 2 (as_bytes (cb_git_commit_sha c))
     @ writer_field 3 (as_bytes (cb_git_tree_sha c))
     @ writer_field 4 (hash_bytes (cb_digest c))"

record runtime_binding =
  rb_image_digest :: content_hash
  rb_environment_digest :: content_hash

definition runtime_binding_bytes :: "runtime_binding \<Rightarrow> bytes" where
  "runtime_binding_bytes r =
     writer_new ''runtime-binding/v1''
     @ writer_field 2 (hash_bytes (rb_image_digest r))
     @ writer_field 3 (hash_bytes (rb_environment_digest r))"

record formal_implementation_binding =
  fi_role :: string
  fi_digest :: content_hash

definition formal_implementation_binding_new ::
  "string \<Rightarrow> content_hash \<Rightarrow> formal_implementation_binding domain_result" where
  "formal_implementation_binding_new role digest =
     and_then (ensure_role role) (\<lambda>_. Ok \<lparr>fi_role = role, fi_digest = digest\<rparr>)"

definition implementation_binding_bytes :: "formal_implementation_binding \<Rightarrow> bytes" where
  "implementation_binding_bytes i =
     writer_new ''formal-implementation-binding/v1''
     @ writer_field 2 (as_bytes (fi_role i))
     @ writer_field 3 (hash_bytes (fi_digest i))"

section \<open>Evidence\<close>

record formal_output_evidence_input =
  ev_schema_id :: string
  ev_subject :: formal_input_binding
  ev_consumed_inputs :: "formal_input_binding list"
  ev_code :: code_binding
  ev_runtime :: runtime_binding
  ev_implementations :: "formal_implementation_binding list"
  ev_parameters_hash :: content_hash
  ev_seed :: "u64 option"
  ev_result_hash :: content_hash

record formal_output_evidence = formal_output_evidence_input +
  ev_output_identity :: content_hash

definition FORMAL_EVIDENCE_DOMAIN :: string where
  "FORMAL_EVIDENCE_DOMAIN = ''ficant/formal-output-evidence/v1''"

definition evidence_identity_bytes ::
  "(naive_date \<Rightarrow> string) \<Rightarrow> ('x) formal_output_evidence_input_scheme \<Rightarrow> bytes" where
  "evidence_identity_bytes ds v =
     writer_new FORMAL_EVIDENCE_DOMAIN
     @ writer_field 2 (as_bytes (ev_schema_id v))
     @ writer_field 3 (binding_bytes ds (ev_subject v))
     @ writer_u64 4 (word_of_nat (length (ev_consumed_inputs v)))
     @ concat (map (\<lambda>input. writer_field 5 (binding_bytes ds input)) (ev_consumed_inputs v))
     @ writer_field 6 (code_binding_bytes (ev_code v))
     @ writer_field 7 (runtime_binding_bytes (ev_runtime v))
     @ writer_u64 8 (word_of_nat (length (ev_implementations v)))
     @ concat (map (\<lambda>implementation. writer_field 9 (implementation_binding_bytes implementation)) (ev_implementations v))
     @ writer_field 10 (hash_bytes (ev_parameters_hash v))
     @ writer_optional_u64 11 (ev_seed v)
     @ writer_field 12 (hash_bytes (ev_result_hash v))"

definition evidence_canonical_bytes :: "(naive_date \<Rightarrow> string) \<Rightarrow> formal_output_evidence \<Rightarrow> bytes" where
  "evidence_canonical_bytes ds v =
     writer_new ''formal-output-evidence-record/v1''
     @ writer_field 2 (evidence_identity_bytes ds v)
     @ writer_field 3 (hash_bytes (ev_output_identity v))"

text \<open>\<open>compare_inputs\<close>: by role, then by canonical bytes.\<close>

definition input_key :: "(naive_date \<Rightarrow> string) \<Rightarrow> formal_input_binding \<Rightarrow> string \<times> bytes" where
  "input_key ds b = (fb_role b, binding_bytes ds b)"

definition evidence_new ::
  "sha256_fn \<Rightarrow> (naive_date \<Rightarrow> string) \<Rightarrow> formal_output_evidence_input \<Rightarrow> formal_output_evidence domain_result" where
  "evidence_new sha256 ds input =
     and_then (ensure_stable_identity (ev_schema_id input)) (\<lambda>_.
     if fb_kind (ev_subject input) \<noteq> KSubject \<or> fb_role (ev_subject input) \<noteq> ''subject''
     then Err BrokenLineage
     else
       let consumed_inputs = sort_key (input_key ds) (ev_consumed_inputs input) in
       if windows2_any (\<lambda>a b. fb_role a = fb_role b) consumed_inputs
         \<or> list_ex (\<lambda>binding. fb_role binding = ''subject'') consumed_inputs
       then Err BrokenLineage
       else
         let implementations = sort_key fi_role (ev_implementations input) in
         if windows2_any (\<lambda>a b. fi_role a = fi_role b) implementations then Err InvalidValue
         else
           let result =
             \<lparr>ev_schema_id = ev_schema_id input,
              ev_subject = ev_subject input,
              ev_consumed_inputs = consumed_inputs,
              ev_code = ev_code input,
              ev_runtime = ev_runtime input,
              ev_implementations = implementations,
              ev_parameters_hash = ev_parameters_hash input,
              ev_seed = ev_seed input,
              ev_result_hash = ev_result_hash input,
              ev_output_identity = sha256 (as_bytes ''uninitialized'')\<rparr>
           in Ok (result\<lparr>ev_output_identity := sha256 (evidence_identity_bytes ds result)\<rparr>))"

definition evidence_from_claimed ::
  "sha256_fn \<Rightarrow> (naive_date \<Rightarrow> string) \<Rightarrow> formal_output_evidence_input \<Rightarrow> content_hash \<Rightarrow>
   formal_output_evidence domain_result" where
  "evidence_from_claimed sha256 ds input claimed_identity =
     and_then (evidence_new sha256 ds input) (\<lambda>value.
     if ev_output_identity value \<noteq> claimed_identity then Err ContentHashMismatch else Ok value)"

section \<open>The writer determines what it writes\<close>

lemma writer_field_eq: "writer_field tag value = to_be_bytes tag @ push_bytes value"
  by (simp add: writer_field_def push_bytes_def push_u64_def)

lemma writer_field_neq_Nil [simp]: "writer_field tag value \<noteq> []"
  by (simp add: writer_field_eq push_bytes_def push_u64_def flip: length_0_conv)

lemma determines_field [code_intros]: "determines (\<lambda>x. writer_field tag (f x)) f"
  unfolding writer_field_eq
  by (rule determines.weaken [OF determines_append [OF determines_const determines_push_bytes]]) simp

lemma determines_writer_u64 [code_intros]: "determines (\<lambda>x. writer_u64 tag (f x)) f"
  unfolding writer_u64_def by (rule determines.weaken [OF determines_field]) simp

text \<open>A field whose value is itself an encoding.\<close>

lemma determines_nested:
  assumes "determines e c"
  shows "determines (\<lambda>x. writer_field tag (e (f x))) (\<lambda>x. c (f x))"
proof
  fix x r y s
  assume eq: "writer_field tag (e (f x)) @ r = writer_field tag (e (f y)) @ s"
    and len: "length (writer_field tag (e (f x)) @ r) < usize_limit"
  have "e (f x) = e (f y) \<and> r = s"
    by (rule determines.splits [OF determines_field [of tag "\<lambda>x. e (f x)"] eq len])
  moreover have "length (e (f x)) < usize_limit" using len by (simp add: writer_field_eq)
  ultimately show "c (f x) = c (f y) \<and> r = s" using determines.content_eq [OF assms] by blast
qed

lemma writer_optional_eq:
  "writer_optional tag (map_option g v) = writer_field tag (push_optional (\<lambda>x. push_bytes (g x)) v)"
  by (cases v) (simp_all add: writer_optional_def push_optional_def push_bytes_def push_u64_def)

lemma writer_optional_u64_eq: "writer_optional_u64 tag v = writer_field tag (push_optional push_u64 v)"
  by (cases v) (simp_all add: writer_optional_u64_def push_optional_def push_u64_def)

lemma determines_optional_u64 [code_intros]: "determines (\<lambda>x. writer_optional_u64 tag (f x)) f"
  unfolding writer_optional_u64_eq
  by (rule determines_nested) (rule prefix_code_push_optional, rule determines_push_u64)

lemma prefix_code_push_bytes_of:
  assumes "prefix_code g"
  shows "prefix_code (\<lambda>x. push_bytes (g x))"
proof
  fix x r y s
  assume eq: "push_bytes (g x) @ r = push_bytes (g y) @ s"
    and len: "length (push_bytes (g x) @ r) < usize_limit"
  then have "g x = g y \<and> r = s" using determines.splits [OF prefix_code_push_bytes] by blast
  moreover have "length (g x) < usize_limit" using len by simp
  ultimately show "x = y \<and> r = s" using prefix_code_inject [OF assms] by blast
qed

lemma determines_optional:
  assumes "prefix_code g"
  shows "determines (\<lambda>x. writer_optional tag (map_option g (f x))) f"
  unfolding writer_optional_eq
  by (rule determines_nested) (intro prefix_code_push_optional prefix_code_push_bytes_of assms)

lemma map_version_get_inject [simp]: "map_option version_get a = map_option version_get b \<longleftrightarrow> a = b"
  by (cases a; cases b) simp_all

lemma prefix_code_object_reference: "prefix_code object_reference_bytes"
proof -
  have "determines object_reference_bytes
      (\<lambda>r. ((), as_bytes (ulid_str (lr_object_id r)), map_option version_get (lr_version r), lr_content_hash r))"
    unfolding object_reference_bytes_def
    by (intro code_intros determines_optional)
  then show ?thesis
    by (rule determines.weaken) simp
qed

lemma prefix_code_owner: "prefix_code owner_bytes"
proof -
  have "determines owner_bytes
      (\<lambda>r. ((), as_bytes (ulid_str (tenant_id r)), as_bytes (ulid_str (owner_id r))))"
    unfolding owner_bytes_def by (intro code_intros)
  then show ?thesis by (rule determines.weaken) simp
qed

lemma prefix_code_market_time:
  assumes "inj ds"
  shows "prefix_code (market_time_bytes ds)"
proof -
  have "determines (market_time_bytes ds)
      (\<lambda>t. ((), to_be_bytes (timestamp (mt_instant t)), to_be_bytes (timestamp_subsec_nanos (mt_instant t)),
        as_bytes (mt_timezone t), as_bytes (ds (mt_local_date t))))"
    unfolding market_time_bytes_def by (intro code_intros)
  then show ?thesis
    by (rule determines.weaken) (auto intro!: market_time_eqI injD [OF assms])
qed

text \<open>The two forms of a reference share the writer; the field with their tag separates them.\<close>

lemma prefix_code_reference: "prefix_code reference_bytes"
proof
  fix x r y s
  assume eq: "reference_bytes x @ r = reference_bytes y @ s"
    and len: "length (reference_bytes x @ r) < usize_limit"
  let ?named = "\<lambda>n :: named_content_ref. writer_field 3 (as_bytes (nc_identity n)) @ writer_field 4 (hash_bytes (nc_content_hash n))"
  let ?object = "\<lambda>q. writer_field 3 (object_reference_bytes q)"
  have object: "prefix_code ?object"
    by (rule determines_nested [OF prefix_code_object_reference])
  have "determines ?named (\<lambda>n. (as_bytes (nc_identity n), hash_bytes (nc_content_hash n)))"
    by (intro code_intros)
  then have named: "prefix_code ?named" by (rule determines.weaken) simp
  have tag: "writer_field 2 [a] @ u = writer_field 2 [b] @ v \<longleftrightarrow> a = b \<and> u = v" for a b :: byte and u v
    by (auto simp: writer_field_eq push_bytes_def)
  show "x = y \<and> r = s"
  proof (cases x; cases y)
    fix a b
    assume xy: "x = ObjectRef a" "y = ObjectRef b"
    with eq have "?object a @ r = ?object b @ s" by (simp add: tag)
    moreover have "length (?object a @ r) < usize_limit" using len xy by simp
    ultimately show ?thesis using determines.splits [OF object] xy by blast
  next
    fix a b
    assume xy: "x = NamedRef a" "y = NamedRef b"
    with eq have "?named a @ r = ?named b @ s" by (simp add: tag)
    moreover have "length (?named a @ r) < usize_limit" using len xy by simp
    ultimately show ?thesis using determines.splits [OF named] xy by blast
  qed (use eq in \<open>simp_all add: tag\<close>)
qed

lemma kind_code_inject [simp]: "kind_code a = kind_code b \<longleftrightarrow> a = b"
  by (cases a; cases b) simp_all

lemma prefix_code_formal_binding:
  assumes "inj ds"
  shows "prefix_code (binding_bytes ds)"
proof -
  have "determines (binding_bytes ds)
      (\<lambda>b. ((), as_bytes (fb_role b), [kind_code (fb_kind b)], fb_owner b, fb_reference b,
        fb_observed_at b, fb_visible_at b, fb_effective_from b, fb_effective_to b))"
    unfolding binding_bytes_def
    by (intro determines_append determines_const determines_optional prefix_code_market_time assms
        determines_nested [OF prefix_code_owner] determines_nested [OF prefix_code_reference])
      (intro code_intros)+
  then show ?thesis by (rule determines.weaken) simp
qed

lemma prefix_code_code_binding: "prefix_code code_binding_bytes"
proof -
  have "determines code_binding_bytes
      (\<lambda>c. ((), as_bytes (cb_git_commit_sha c), as_bytes (cb_git_tree_sha c), hash_bytes (cb_digest c)))"
    unfolding code_binding_bytes_def by (intro code_intros)
  then show ?thesis by (rule determines.weaken) simp
qed

lemma prefix_code_runtime_binding: "prefix_code runtime_binding_bytes"
proof -
  have "determines runtime_binding_bytes
      (\<lambda>r. ((), hash_bytes (rb_image_digest r), hash_bytes (rb_environment_digest r)))"
    unfolding runtime_binding_bytes_def by (intro code_intros)
  then show ?thesis by (rule determines.weaken) simp
qed

lemma prefix_code_implementation_binding: "prefix_code implementation_binding_bytes"
proof -
  have "determines implementation_binding_bytes
      (\<lambda>i. ((), as_bytes (fi_role i), hash_bytes (fi_digest i)))"
    unfolding implementation_binding_bytes_def by (intro code_intros)
  then show ?thesis by (rule determines.weaken) simp
qed

text \<open>A counted run of fields, in the middle of a record.\<close>

lemma determines_counted_fields:
  assumes "prefix_code e" and "determines b g"
  shows "determines
    (\<lambda>x. writer_u64 ct (word_of_nat (length (f x))) @ concat (map (\<lambda>i. writer_field t (e i)) (f x)) @ b x)
    (\<lambda>x. (f x, g x))"
proof -
  have "prefix_code (\<lambda>xs. writer_u64 ct (word_of_nat (length xs)) @ concat (map (\<lambda>i. writer_field t (e i)) xs))"
    by (rule prefix_code_counted [OF determines_writer_u64 determines_nested [OF assms(1)]]) simp
  from determines_append [OF prefix_code_of [OF this, of f] assms(2)] show ?thesis by simp
qed

text \<open>The identity bytes of two records agree only when the records agree up to the identity itself.\<close>

lemma determines_evidence_identity:
  assumes "inj ds"
  shows "determines (\<lambda>v :: formal_output_evidence. evidence_identity_bytes ds v)
    (\<lambda>v. v\<lparr>ev_output_identity := zero_hash\<rparr>)"
proof -
  have "determines (\<lambda>v :: formal_output_evidence. evidence_identity_bytes ds v)
      (\<lambda>v. ((), as_bytes (ev_schema_id v), ev_subject v, ev_consumed_inputs v, ev_code v, ev_runtime v,
        ev_implementations v, hash_bytes (ev_parameters_hash v), ev_seed v, hash_bytes (ev_result_hash v)))"
    unfolding evidence_identity_bytes_def
    by (intro determines_counted_fields determines_append determines_const prefix_code_formal_binding assms
        determines_nested [OF prefix_code_formal_binding] determines_nested [OF prefix_code_code_binding]
        determines_nested [OF prefix_code_runtime_binding] prefix_code_implementation_binding
        determines_field determines_optional_u64)
  then show ?thesis by (rule determines.weaken) simp
qed

section \<open>What the constructor accepts and builds\<close>

definition evidence_accepted :: "formal_output_evidence_input \<Rightarrow> bool" where
  "evidence_accepted i \<longleftrightarrow>
     ensure_stable_identity (ev_schema_id i) = Ok () \<and>
     fb_kind (ev_subject i) = KSubject \<and> fb_role (ev_subject i) = ''subject'' \<and>
     distinct (map fb_role (ev_subject i # ev_consumed_inputs i)) \<and>
     distinct (map fi_role (ev_implementations i))"

definition evidence_of :: "sha256_fn \<Rightarrow> (naive_date \<Rightarrow> string) \<Rightarrow> formal_output_evidence_input \<Rightarrow> formal_output_evidence" where
  "evidence_of sha256 ds i =
     (let body = i\<lparr>ev_consumed_inputs := sort_key fb_role (ev_consumed_inputs i),
                   ev_implementations := sort_key fi_role (ev_implementations i)\<rparr>
      in formal_output_evidence_input.extend body
           \<lparr>ev_output_identity = sha256 (evidence_identity_bytes ds body)\<rparr>)"

lemma sorted_role: "sorted (map fb_role (sort_key (input_key ds) bs))"
proof -
  have "sorted_wrt (\<lambda>a b. input_key ds a \<le> input_key ds b) (sort_key (input_key ds) bs)"
    using sorted_sort_key [of "input_key ds" bs] by (simp add: sorted_wrt_map)
  then have "sorted_wrt (\<lambda>a b. fb_role a \<le> fb_role b) (sort_key (input_key ds) bs)"
    by (rule sorted_wrt_mono_rel [rotated]) (auto simp: input_key_def less_eq_prod_def)
  then show ?thesis by (simp add: sorted_wrt_map)
qed

lemma distinct_role_sort:
  "distinct (map f (sort_key k xs)) \<longleftrightarrow> distinct (map f xs)"
  by (metis mset_eq_imp_distinct_iff mset_map mset_sort)

lemma repeated_role:
  "windows2_any (\<lambda>a b. fb_role a = fb_role b) (sort_key (input_key ds) bs) \<longleftrightarrow> \<not> distinct (map fb_role bs)"
  by (simp add: windows2_any_sorted [OF sorted_role] distinct_role_sort)

text \<open>With distinct roles the bytes never decide the order.\<close>

lemma sort_by_role:
  assumes "distinct (map fb_role bs)"
  shows "sort_key (input_key ds) bs = sort_key fb_role bs"
proof -
  have "map fb_role (sort_key (input_key ds) bs) = map fb_role (sort_key fb_role bs)"
    by (rule sorted_distinct_set_unique) (simp_all add: sorted_role distinct_role_sort assms)
  moreover have "inj_on fb_role (set (sort_key (input_key ds) bs) \<union> set (sort_key fb_role bs))"
    using assms by (simp add: distinct_map)
  ultimately show ?thesis by (simp add: inj_on_map_eq_map)
qed

lemma subject_role: "list_ex (\<lambda>b. fb_role b = r) bs \<longleftrightarrow> r \<in> fb_role ` set bs"
  by (auto simp: list_ex_iff)

lemma evidence_new_Ok:
  "evidence_new sha256 ds i = Ok v \<longleftrightarrow> evidence_accepted i \<and> v = evidence_of sha256 ds i"
proof (cases "distinct (map fb_role (ev_consumed_inputs i)) \<and> distinct (map fi_role (ev_implementations i))")
  case True
  then show ?thesis
    by (auto simp: evidence_new_def evidence_accepted_def evidence_of_def Let_def repeated_role
        windows2_any_sort_key sort_by_role subject_role and_then_eq_Ok evidence_identity_bytes_def
        formal_output_evidence_input.defs formal_output_evidence.defs)
next
  case False
  then show ?thesis
    by (auto simp: evidence_new_def evidence_accepted_def Let_def repeated_role
        windows2_any_sort_key and_then_eq_Ok)
qed

lemma evidence_new_Err:
  "evidence_new sha256 ds i = Err e \<longleftrightarrow> \<not> evidence_accepted i \<and>
     e = (if ensure_stable_identity (ev_schema_id i) \<noteq> Ok () then InvalidValue
          else if fb_kind (ev_subject i) \<noteq> KSubject \<or> fb_role (ev_subject i) \<noteq> ''subject''
            \<or> \<not> distinct (map fb_role (ev_subject i # ev_consumed_inputs i)) then BrokenLineage
          else InvalidValue)"
  by (auto simp: evidence_new_def evidence_accepted_def Let_def repeated_role ensure_stable_identity_def
      windows2_any_sort_key subject_role split: if_splits)

text \<open>
  C32: evidence is accepted exactly when the schema name is stable, the subject binding is a
  subject in the role "subject", no two input roles (the subject's included) and no two
  implementation roles coincide; the result carries the bindings sorted by role and the hash of
  exactly those contents. Otherwise the error names the first failed check.
\<close>

theorem evidence_new_characterised:
  "evidence_new sha256 ds i =
     (if ensure_stable_identity (ev_schema_id i) \<noteq> Ok () then Err InvalidValue
      else if fb_kind (ev_subject i) = KSubject \<and> fb_role (ev_subject i) = ''subject''
        \<and> distinct (map fb_role (ev_subject i # ev_consumed_inputs i))
      then if distinct (map fi_role (ev_implementations i)) then Ok (evidence_of sha256 ds i)
        else Err InvalidValue
      else Err BrokenLineage)"
  by (cases "evidence_new sha256 ds i")
    (auto simp: evidence_new_Ok evidence_new_Err evidence_accepted_def)

text \<open>
  The order in which a caller lists consumed inputs and implementations never changes
  the outcome, neither the evidence and its identity nor the error.
\<close>

theorem evidence_new_order_independent:
  assumes "mset inputs = mset inputs'" and "mset impls = mset impls'"
  shows "evidence_new sha256 ds (i\<lparr>ev_consumed_inputs := inputs, ev_implementations := impls\<rparr>) =
    evidence_new sha256 ds (i\<lparr>ev_consumed_inputs := inputs', ev_implementations := impls'\<rparr>)"
    (is "evidence_new sha256 ds ?a = evidence_new sha256 ds ?b")
proof -
  have sets: "set inputs = set inputs'" using assms(1) by (metis set_mset_mset)
  have "distinct (map fb_role inputs) \<longleftrightarrow> distinct (map fb_role inputs')"
    "distinct (map fi_role impls) \<longleftrightarrow> distinct (map fi_role impls')"
    using assms by (metis mset_eq_imp_distinct_iff mset_map)+
  then have acc: "evidence_accepted ?a \<longleftrightarrow> evidence_accepted ?b"
    by (simp add: evidence_accepted_def sets)
  have of_eq: "evidence_of sha256 ds ?a = evidence_of sha256 ds ?b" if "evidence_accepted ?a"
    using that sort_key_perm [OF assms(1), of fb_role] sort_key_perm [OF assms(2), of fi_role]
    by (simp add: evidence_accepted_def evidence_of_def)
  show ?thesis
  proof (cases "evidence_new sha256 ds ?a")
    case (Ok v)
    then show ?thesis using acc of_eq by (metis evidence_new_Ok)
  next
    case (Err e)
    then have "evidence_new sha256 ds ?b = Err e"
      using acc sets \<open>distinct (map fb_role inputs) \<longleftrightarrow> distinct (map fb_role inputs')\<close>
      by (simp add: evidence_new_Err)
    then show ?thesis using Err by simp
  qed
qed

text \<open>
  The output identity fixes the whole evidence. Two accepted records with one identity are
  equal, or their identity bytes are a collision of SHA-256.
\<close>

theorem output_identity_identifies:
  assumes "inj ds" "evidence_new sha256 ds i = Ok v" "evidence_new sha256 ds j = Ok w"
    "ev_output_identity v = ev_output_identity w"
    "length (evidence_identity_bytes ds v) < usize_limit"
  shows "v = w \<or> collision sha256 (evidence_identity_bytes ds v) (evidence_identity_bytes ds w)"
proof (cases "evidence_identity_bytes ds v = evidence_identity_bytes ds w")
  case True
  from determines.content_eq [OF determines_evidence_identity [OF assms(1)] True assms(5)]
  have "v\<lparr>ev_output_identity := zero_hash\<rparr>\<lparr>ev_output_identity := ev_output_identity v\<rparr> =
    w\<lparr>ev_output_identity := zero_hash\<rparr>\<lparr>ev_output_identity := ev_output_identity w\<rparr>"
    using assms(4) by simp
  then show ?thesis by simp
next
  case False
  have "ev_output_identity u = sha256 (evidence_identity_bytes ds u)"
    if "evidence_new sha256 ds k = Ok u" for k u
    using that by (auto simp: evidence_new_Ok evidence_of_def Let_def evidence_identity_bytes_def
        formal_output_evidence_input.defs)
  with assms False show ?thesis by (simp add: collision_def)
qed

section \<open>Sample evidence\<close>

definition sample_subject :: formal_input_binding where
  "sample_subject =
     \<lparr>fb_role = ''subject'', fb_kind = KSubject, fb_owner = \<lparr>tenant_id = Ulid ''t'', owner_id = Ulid ''o''\<rparr>,
      fb_reference = ObjectRef \<lparr>lr_object_id = Ulid ''s'', lr_version = Some (Version 1), lr_content_hash = Some zero_hash\<rparr>,
      fb_observed_at = None, fb_visible_at = None, fb_effective_from = None, fb_effective_to = None\<rparr>"

definition sample_input_binding :: "string \<Rightarrow> formal_input_binding" where
  "sample_input_binding role = sample_subject\<lparr>fb_role := role, fb_kind := KCurveSnapshot,
     fb_reference := ObjectRef \<lparr>lr_object_id = Ulid ''s'', lr_version = None, lr_content_hash = Some zero_hash\<rparr>\<rparr>"

definition sample_evidence_input :: "u64 \<Rightarrow> formal_output_evidence_input" where
  "sample_evidence_input seed =
     \<lparr>ev_schema_id = ''schema/v1'', ev_subject = sample_subject,
      ev_consumed_inputs = [sample_input_binding ''curve'', sample_input_binding ''book''],
      ev_code = \<lparr>cb_git_commit_sha = ''c'', cb_git_tree_sha = ''t'', cb_digest = zero_hash\<rparr>,
      ev_runtime = \<lparr>rb_image_digest = zero_hash, rb_environment_digest = zero_hash\<rparr>,
      ev_implementations = [\<lparr>fi_role = ''kernel'', fi_digest = zero_hash\<rparr>],
      ev_parameters_hash = zero_hash, ev_seed = Some seed, ev_result_hash = zero_hash\<rparr>"

lemma sample_evidence_accepted: "evidence_accepted (sample_evidence_input seed)"
proof -
  have "trim ''schema/v1'' = ''schema/v1''" by (rule trim_printable) auto
  then show ?thesis
    by (simp add: evidence_accepted_def sample_evidence_input_def sample_subject_def sample_input_binding_def
        ensure_stable_identity_def is_ascii_def is_ascii_whitespace_def)
qed

lemma evidence_new_order_independent_witness:
  "mset [sample_input_binding ''curve'', sample_input_binding ''book''] =
     mset [sample_input_binding ''book'', sample_input_binding ''curve''] \<and>
   evidence_new (\<lambda>_. zero_hash) sample_date_text ((sample_evidence_input 1)
     \<lparr>ev_consumed_inputs := [sample_input_binding ''curve'', sample_input_binding ''book''], ev_implementations := []\<rparr>) =
   evidence_new (\<lambda>_. zero_hash) sample_date_text ((sample_evidence_input 1)
     \<lparr>ev_consumed_inputs := [sample_input_binding ''book'', sample_input_binding ''curve''], ev_implementations := []\<rparr>)"
  by (intro conjI evidence_new_order_independent) simp_all

lemma length_writer_field [simp]: "length (writer_field tag value) = 10 + length value"
  by (simp add: writer_field_eq)

lemma length_writer_new [simp]: "length (writer_new t) = 26 + length t"
  by (simp add: writer_new_def)

lemma length_sample_evidence:
  "length (evidence_identity_bytes ds (evidence_of sha256 ds (sample_evidence_input seed))) < usize_limit"
  by (simp add: evidence_of_def Let_def evidence_identity_bytes_def sample_evidence_input_def
      formal_output_evidence_input.defs binding_bytes_def sample_input_binding_def sample_subject_def
      owner_bytes_def object_reference_bytes_def writer_optional_def FORMAL_EVIDENCE_DOMAIN_def
      code_binding_bytes_def runtime_binding_bytes_def implementation_binding_bytes_def
      writer_u64_def writer_optional_u64_def length_concat)

lemma output_identity_identifies_witness:
  "collision (\<lambda>_. zero_hash)
     (evidence_identity_bytes sample_date_text (evidence_of (\<lambda>_. zero_hash) sample_date_text (sample_evidence_input 1)))
     (evidence_identity_bytes sample_date_text (evidence_of (\<lambda>_. zero_hash) sample_date_text (sample_evidence_input 2)))"
proof -
  let ?v = "\<lambda>n. evidence_of (\<lambda>_. zero_hash) sample_date_text (sample_evidence_input n)"
  have new: "evidence_new (\<lambda>_. zero_hash) sample_date_text (sample_evidence_input n) = Ok (?v n)" for n
    by (simp add: evidence_new_Ok sample_evidence_accepted)
  have same: "ev_output_identity (?v n) = zero_hash" for n
    by (simp add: evidence_of_def Let_def formal_output_evidence_input.defs)
  have "ev_seed (?v 1) \<noteq> ev_seed (?v 2)"
    by (simp add: evidence_of_def Let_def formal_output_evidence_input.defs sample_evidence_input_def)
  then have "?v 1 \<noteq> ?v 2" by metis
  then show ?thesis
    using output_identity_identifies [OF inj_sample_date_text new new _ length_sample_evidence, of 1 2] same by simp
qed

end
