(* ===== verification/Execution_Identity.thy ===== *)
theory Execution_Identity
  imports Formal_Evidence Research_Graph Journal_Store
begin

text \<open>
  Execution identities (\<open>ficant-runtime/src/native_execution.rs\<close>, second part): what a run is
  frozen to before it executes. A reproducibility identity binds the graph, the external
  inputs, rule packs, implementations, environment and seed, and optionally the subject and the
  source code; an execution instance adds the run. The theory shows which bindings are accepted,
  that their order does not matter and that the digest fixes everything it freezes.
\<close>

section \<open>Definitions\<close>

definition invalid :: runtime_error where
  "invalid = DomainError InvalidValue"

definition hash_mismatch :: runtime_error where
  "hash_mismatch = DomainError ContentHashMismatch"

definition broken :: runtime_error where
  "broken = DomainError BrokenLineage"

record node_implementation =
  ni_node_id :: ulid
  ni_implementation_digest :: content_hash

record rule_pack_binding =
  rp_rule_pack_id :: string
  rp_version :: version
  rp_content_hash :: content_hash

text \<open>The derived order compares the fields from left to right.\<close>

definition rule_pack_key :: "rule_pack_binding \<Rightarrow> string \<times> version \<times> content_hash" where
  "rule_pack_key b = (rp_rule_pack_id b, rp_version b, rp_content_hash b)"

record execution_external_input =
  xi_input_id :: string
  xi_value_type :: typed_value
  xi_payload :: bytes
  xi_content_hash :: content_hash

definition execution_external_input_new ::
  "sha256_fn \<Rightarrow> string \<Rightarrow> typed_value \<Rightarrow> bytes \<Rightarrow> execution_external_input runtime_result" where
  "execution_external_input_new sha256 input_id value_type payload =
     (if input_id = [] \<or> trim input_id \<noteq> input_id \<or> payload = [] then Err invalid
      else Ok \<lparr>xi_input_id = input_id, xi_value_type = value_type, xi_payload = payload,
               xi_content_hash = sha256 payload\<rparr>)"

record reproducibility_identity_input =
  pi_external_inputs :: "execution_external_input list"
  pi_data_snapshot_hash :: content_hash
  pi_universe_snapshot_hash :: content_hash
  pi_parameters_hash :: content_hash
  pi_runtime_image_digest :: content_hash
  pi_environment_digest :: content_hash
  pi_seed :: u64
  pi_rule_pack_bindings :: "rule_pack_binding list"
  pi_node_implementations :: "node_implementation list"

record execution_identity_input =
  xd_run_id :: ulid
  xd_data_snapshot_hash :: content_hash
  xd_universe_snapshot_hash :: content_hash
  xd_parameters_hash :: content_hash
  xd_runtime_image_digest :: content_hash
  xd_environment_digest :: content_hash
  xd_seed :: u64
  xd_node_implementations :: "node_implementation list"

record reproducibility_identity =
  id_external_inputs :: "execution_external_input list"
  id_rule_pack_bindings :: "rule_pack_binding list"
  id_data_snapshot_hash :: content_hash
  id_universe_snapshot_hash :: content_hash
  id_graph_digest :: content_hash
  id_parameters_hash :: content_hash
  id_runtime_image_digest :: content_hash
  id_environment_digest :: content_hash
  id_seed :: u64
  id_node_implementations :: "node_implementation list"
  id_subject :: "formal_input_binding option"
  id_code :: "code_binding option"
  id_digest :: content_hash

definition push_external_value :: "execution_external_input \<Rightarrow> bytes" where
  "push_external_value i =
     push_str (xi_input_id i) @ push_typed_value (xi_value_type i) @ hash_bytes (xi_content_hash i)"

definition push_rule_pack :: "rule_pack_binding \<Rightarrow> bytes" where
  "push_rule_pack b =
     push_str (rp_rule_pack_id b) @ push_u64 (version_get (rp_version b)) @ hash_bytes (rp_content_hash b)"

definition push_implementation :: "node_implementation \<Rightarrow> bytes" where
  "push_implementation b =
     push_str (ulid_str (ni_node_id b)) @ hash_bytes (ni_implementation_digest b)"

text \<open>The version tag, the common part, and the formal part that only version 2 has.\<close>

definition identity_magic :: "reproducibility_identity \<Rightarrow> bytes" where
  "identity_magic r =
     (if id_subject r \<noteq> None \<and> id_code r \<noteq> None
      then as_bytes ''ficant/reproducibility-identity/v2''
      else as_bytes ''ficant/reproducibility-identity/v1'')"

definition identity_formal_bytes :: "(naive_date \<Rightarrow> string) \<Rightarrow> reproducibility_identity \<Rightarrow> bytes" where
  "identity_formal_bytes ds r =
     (case (id_subject r, id_code r) of
        (Some subject, Some code) \<Rightarrow>
          push_bytes (binding_bytes ds subject) @ push_bytes (code_binding_bytes code)
      | _ \<Rightarrow> [])"

definition identity_canonical_bytes :: "(naive_date \<Rightarrow> string) \<Rightarrow> reproducibility_identity \<Rightarrow> bytes" where
  "identity_canonical_bytes ds r =
     identity_magic r
     @ push_each push_external_value (id_external_inputs r)
     @ push_each push_rule_pack (id_rule_pack_bindings r)
     @ hash_bytes (id_graph_digest r)
     @ hash_bytes (id_data_snapshot_hash r)
     @ hash_bytes (id_universe_snapshot_hash r)
     @ hash_bytes (id_parameters_hash r)
     @ hash_bytes (id_runtime_image_digest r)
     @ hash_bytes (id_environment_digest r)
     @ to_be_bytes (id_seed r)
     @ push_each push_implementation (id_node_implementations r)
     @ identity_formal_bytes ds r"

definition identity_build ::
  "sha256_fn \<Rightarrow> (naive_date \<Rightarrow> string) \<Rightarrow> research_graph \<Rightarrow> reproducibility_identity_input \<Rightarrow>
   formal_input_binding option \<Rightarrow> code_binding option \<Rightarrow> reproducibility_identity runtime_result" where
  "identity_build sha256 ds graph input subject code =
     (let external_inputs = sort_key xi_input_id (pi_external_inputs input) in
      if windows2_any (\<lambda>a b. xi_input_id a = xi_input_id b) external_inputs
        \<or> length external_inputs \<noteq> length (rg_external_inputs graph)
        \<or> \<not> list_all (\<lambda>(binding, declaration).
               xi_input_id binding = gi_input_id declaration
               \<and> xi_value_type binding = gi_value_type declaration)
             (zip external_inputs (rg_external_inputs graph))
      then Err invalid
      else
        let implementations = sort_key ni_node_id (pi_node_implementations input) in
        if windows2_any (\<lambda>a b. ni_node_id a = ni_node_id b) implementations
          \<or> length implementations \<noteq> length (rg_nodes graph)
          \<or> \<not> list_all (\<lambda>(binding, node). ni_node_id binding = nd_node_id node)
               (zip implementations (rg_nodes graph))
        then Err invalid
        else if list_ex (\<lambda>binding. rp_rule_pack_id binding = []
                  \<or> trim (rp_rule_pack_id binding) \<noteq> rp_rule_pack_id binding) (pi_rule_pack_bindings input)
        then Err invalid
        else
          let rule_pack_bindings = sort_key rule_pack_key (pi_rule_pack_bindings input) in
          if windows2_any (\<lambda>a b. rp_rule_pack_id a = rp_rule_pack_id b \<and> rp_version a = rp_version b)
               rule_pack_bindings
          then Err invalid
          else
            let result =
              \<lparr>id_external_inputs = external_inputs,
               id_rule_pack_bindings = rule_pack_bindings,
               id_data_snapshot_hash = pi_data_snapshot_hash input,
               id_universe_snapshot_hash = pi_universe_snapshot_hash input,
               id_graph_digest = rg_digest graph,
               id_parameters_hash = pi_parameters_hash input,
               id_runtime_image_digest = pi_runtime_image_digest input,
               id_environment_digest = pi_environment_digest input,
               id_seed = pi_seed input,
               id_node_implementations = implementations,
               id_subject = subject,
               id_code = code,
               id_digest = sha256 (as_bytes ''uninitialized'')\<rparr>
            in Ok (result\<lparr>id_digest := sha256 (identity_canonical_bytes ds result)\<rparr>))"

definition identity_new ::
  "sha256_fn \<Rightarrow> (naive_date \<Rightarrow> string) \<Rightarrow> research_graph \<Rightarrow> reproducibility_identity_input \<Rightarrow>
   reproducibility_identity runtime_result" where
  "identity_new sha256 ds graph input = identity_build sha256 ds graph input None None"

definition identity_new_formal ::
  "sha256_fn \<Rightarrow> (naive_date \<Rightarrow> string) \<Rightarrow> research_graph \<Rightarrow> reproducibility_identity_input \<Rightarrow>
   formal_input_binding \<Rightarrow> code_binding \<Rightarrow> reproducibility_identity runtime_result" where
  "identity_new_formal sha256 ds graph input subject code =
     (if fb_kind subject \<noteq> KSubject \<or> fb_role subject \<noteq> ''subject'' then Err invalid
      else identity_build sha256 ds graph input (Some subject) (Some code))"

definition identity_implementation :: "reproducibility_identity \<Rightarrow> ulid \<Rightarrow> content_hash option" where
  "identity_implementation r node_id =
     map_option (\<lambda>index. ni_implementation_digest (id_node_implementations r ! index))
       (binary_search ni_node_id (id_node_implementations r) node_id 0 (length (id_node_implementations r)))"

record execution_instance_identity =
  ii_run_id :: ulid
  ii_reproducibility :: reproducibility_identity
  ii_digest :: content_hash

definition instance_bytes :: "ulid \<Rightarrow> reproducibility_identity \<Rightarrow> bytes" where
  "instance_bytes run_id reproducibility =
     as_bytes ''ficant/execution-instance-identity/v1'' @ push_str (ulid_str run_id)
     @ hash_bytes (id_digest reproducibility)"

definition from_reproducibility ::
  "sha256_fn \<Rightarrow> ulid \<Rightarrow> reproducibility_identity \<Rightarrow> execution_instance_identity" where
  "from_reproducibility sha256 run_id reproducibility =
     \<lparr>ii_run_id = run_id, ii_reproducibility = reproducibility,
      ii_digest = sha256 (instance_bytes run_id reproducibility)\<rparr>"

definition execution_instance_new ::
  "sha256_fn \<Rightarrow> (naive_date \<Rightarrow> string) \<Rightarrow> research_graph \<Rightarrow> execution_identity_input \<Rightarrow>
   execution_instance_identity runtime_result" where
  "execution_instance_new sha256 ds graph input =
     and_then (identity_new sha256 ds graph
         \<lparr>pi_external_inputs = [],
          pi_data_snapshot_hash = xd_data_snapshot_hash input,
          pi_universe_snapshot_hash = xd_universe_snapshot_hash input,
          pi_parameters_hash = xd_parameters_hash input,
          pi_runtime_image_digest = xd_runtime_image_digest input,
          pi_environment_digest = xd_environment_digest input,
          pi_seed = xd_seed input,
          pi_rule_pack_bindings = [],
          pi_node_implementations = xd_node_implementations input\<rparr>)
       (\<lambda>reproducibility. Ok (from_reproducibility sha256 (xd_run_id input) reproducibility))"

section \<open>What the constructor accepts\<close>

text \<open>Checking a sorted vector against sorted declarations element by element.\<close>

lemma zip_all_eq:
  "length xs = length ys \<and> list_all (\<lambda>(x, y). f x = g y) (zip xs ys) \<longleftrightarrow> map f xs = map g ys"
proof (cases "length xs = length ys")
  case True
  then show ?thesis by (induction xs ys rule: list_induct2) auto
next
  case False
  then show ?thesis by (metis length_map)
qed

lemma mset_covers:
  fixes k :: "'b \<Rightarrow> 'k::linorder"
  assumes "sorted_wrt (<) (map k ds)"
  shows "distinct (map (\<lambda>x. k (f x)) xs) \<and> map f (sort_key (\<lambda>x. k (f x)) xs) = ds \<longleftrightarrow> mset (map f xs) = mset ds"
proof
  assume "distinct (map (\<lambda>x. k (f x)) xs) \<and> map f (sort_key (\<lambda>x. k (f x)) xs) = ds"
  then show "mset (map f xs) = mset ds" by (metis mset_map mset_sort)
next
  assume m: "mset (map f xs) = mset ds"
  then have sorted: "mset (map f (sort_key (\<lambda>x. k (f x)) xs)) = mset ds" by simp
  have dist: "distinct (map k ds)" using assms by (simp add: strict_sorted_iff)
  have "mset (map k (map f xs)) = mset (map k ds)" using m by (metis mset_map)
  with dist have d: "distinct (map k (map f xs))" by (metis mset_eq_imp_distinct_iff)
  have "map f (sort_key (\<lambda>x. k (f x)) xs) = ds"
  proof (rule map_inj_on)
    let ?ys = "map f (sort_key (\<lambda>x. k (f x)) xs)"
    have "mset (map k ?ys) = mset (map k ds)" using sorted by (metis mset_map)
    moreover have "sorted (map k ?ys)" by (simp add: comp_def)
    ultimately show "map k ?ys = map k ds" using assms
      by (metis properties_for_sort strict_sorted_imp_sorted)
    have "set ?ys = set ds" using sorted by (metis set_mset_mset)
    then show "inj_on k (set ?ys \<union> set ds)" using dist by (simp add: distinct_map)
  qed
  with d show "distinct (map (\<lambda>x. k (f x)) xs) \<and> map f (sort_key (\<lambda>x. k (f x)) xs) = ds"
    by (simp add: comp_def)
qed

lemma repeated_rule_pack:
  "windows2_any (\<lambda>a b. rp_rule_pack_id a = rp_rule_pack_id b \<and> rp_version a = rp_version b)
     (sort_key rule_pack_key bs) \<longleftrightarrow> \<not> distinct (map (\<lambda>b. (rp_rule_pack_id b, rp_version b)) bs)"
proof -
  let ?k = "\<lambda>b. (rp_rule_pack_id b, rp_version b)" and ?s = "sort_key rule_pack_key bs"
  have "sorted_wrt (\<lambda>a b. rule_pack_key a \<le> rule_pack_key b) ?s"
    using sorted_sort_key [of rule_pack_key bs] by (simp add: sorted_wrt_map)
  then have "sorted_wrt (\<lambda>a b. ?k a \<le> ?k b) ?s"
    by (rule sorted_wrt_mono_rel [rotated]) (auto simp: rule_pack_key_def less_eq_prod_def less_prod_def)
  then have "sorted (map ?k ?s)" by (simp add: sorted_wrt_map)
  from windows2_any_sorted [OF this] show ?thesis by (simp add: distinct_role_sort)
qed

definition identity_covers :: "research_graph \<Rightarrow> reproducibility_identity_input \<Rightarrow> bool" where
  "identity_covers graph input \<longleftrightarrow>
     mset (map (\<lambda>i. (xi_input_id i, xi_value_type i)) (pi_external_inputs input)) =
       mset (map (\<lambda>d. (gi_input_id d, gi_value_type d)) (rg_external_inputs graph)) \<and>
     mset (map ni_node_id (pi_node_implementations input)) = mset (map nd_node_id (rg_nodes graph)) \<and>
     (\<forall>b \<in> set (pi_rule_pack_bindings input). rp_rule_pack_id b \<noteq> [] \<and> trim (rp_rule_pack_id b) = rp_rule_pack_id b) \<and>
     distinct (map (\<lambda>b. (rp_rule_pack_id b, rp_version b)) (pi_rule_pack_bindings input))"

definition identity_of ::
  "sha256_fn \<Rightarrow> (naive_date \<Rightarrow> string) \<Rightarrow> research_graph \<Rightarrow> reproducibility_identity_input \<Rightarrow>
   formal_input_binding option \<Rightarrow> code_binding option \<Rightarrow> reproducibility_identity" where
  "identity_of sha256 ds graph input subject code =
     (let body = \<lparr>id_external_inputs = sort_key xi_input_id (pi_external_inputs input),
        id_rule_pack_bindings = sort_key rule_pack_key (pi_rule_pack_bindings input),
        id_data_snapshot_hash = pi_data_snapshot_hash input,
        id_universe_snapshot_hash = pi_universe_snapshot_hash input,
        id_graph_digest = rg_digest graph, id_parameters_hash = pi_parameters_hash input,
        id_runtime_image_digest = pi_runtime_image_digest input,
        id_environment_digest = pi_environment_digest input, id_seed = pi_seed input,
        id_node_implementations = sort_key ni_node_id (pi_node_implementations input),
        id_subject = subject, id_code = code, id_digest = zero_hash\<rparr>
      in body\<lparr>id_digest := sha256 (identity_canonical_bytes ds body)\<rparr>)"

lemma identity_bytes_ignore_digest [simp]:
  "identity_canonical_bytes ds (r\<lparr>id_digest := d\<rparr>) = identity_canonical_bytes ds r"
  by (simp add: identity_canonical_bytes_def identity_magic_def identity_formal_bytes_def)

lemma external_inputs_covered:
  assumes "sorted_wrt (<) (map gi_input_id ds)"
  shows "\<not> windows2_any (\<lambda>a b. xi_input_id a = xi_input_id b) (sort_key xi_input_id xs) \<and>
      length (sort_key xi_input_id xs) = length ds \<and>
      list_all (\<lambda>(b, d). xi_input_id b = gi_input_id d \<and> xi_value_type b = gi_value_type d)
        (zip (sort_key xi_input_id xs) ds) \<longleftrightarrow>
    mset (map (\<lambda>i. (xi_input_id i, xi_value_type i)) xs) = mset (map (\<lambda>d. (gi_input_id d, gi_value_type d)) ds)"
proof -
  have "sorted_wrt (<) (map fst (map (\<lambda>d. (gi_input_id d, gi_value_type d)) ds))"
    using assms by (simp add: comp_def)
  from mset_covers [OF this, of "\<lambda>i. (xi_input_id i, xi_value_type i)" xs]
    zip_all_eq [of "sort_key xi_input_id xs" ds "\<lambda>i. (xi_input_id i, xi_value_type i)" "\<lambda>d. (gi_input_id d, gi_value_type d)"]
  show ?thesis by (simp add: windows2_any_sort_key)
qed

lemma implementations_covered:
  assumes "sorted_wrt (<) (map nd_node_id ns)"
  shows "\<not> windows2_any (\<lambda>a b. ni_node_id a = ni_node_id b) (sort_key ni_node_id xs) \<and>
      length (sort_key ni_node_id xs) = length ns \<and>
      list_all (\<lambda>(b, n). ni_node_id b = nd_node_id n) (zip (sort_key ni_node_id xs) ns) \<longleftrightarrow>
    mset (map ni_node_id xs) = mset (map nd_node_id ns)"
proof -
  have "sorted_wrt (<) (map (\<lambda>x. x) (map nd_node_id ns))" using assms by (simp add: comp_def)
  from mset_covers [OF this, of ni_node_id xs] zip_all_eq [of "sort_key ni_node_id xs" ns ni_node_id nd_node_id]
  show ?thesis by (simp add: windows2_any_sort_key)
qed

lemma identity_build_eq:
  assumes "graph_ok sha256 graph"
  shows "identity_build sha256 ds graph input subject code =
    (if identity_covers graph input then Ok (identity_of sha256 ds graph input subject code) else Err invalid)"
proof -
  have ext: "sorted_wrt (<) (map gi_input_id (rg_external_inputs graph))"
    and nodes: "sorted_wrt (<) (map nd_node_id (rg_nodes graph))"
    using assms by (simp_all add: graph_ok_def)
  have packs: "list_ex (\<lambda>b. rp_rule_pack_id b = [] \<or> trim (rp_rule_pack_id b) \<noteq> rp_rule_pack_id b) bs \<longleftrightarrow>
      \<not> (\<forall>b \<in> set bs. rp_rule_pack_id b \<noteq> [] \<and> trim (rp_rule_pack_id b) = rp_rule_pack_id b)" for bs
    by (auto simp: list_ex_iff)
  show ?thesis
    unfolding identity_build_def identity_of_def identity_covers_def Let_def repeated_rule_pack packs
      external_inputs_covered [OF ext, symmetric] implementations_covered [OF nodes, symmetric]
    by (simp add: identity_canonical_bytes_def identity_magic_def identity_formal_bytes_def)
qed

text \<open>
  C28: an identity is built exactly when the external inputs match the graph's declarations
  one for one in name and type, the implementations match its nodes one for one, and no rule
  pack is blank, padded or bound twice at one version; every other input is refused. The
  bindings are kept sorted and the digest is the hash of the canonical bytes.
\<close>

theorem identity_new_covers_graph:
  assumes "graph_ok sha256 graph"
  shows "identity_new sha256 ds graph input =
    (if identity_covers graph input then Ok (identity_of sha256 ds graph input None None) else Err invalid)"
  unfolding identity_new_def by (rule identity_build_eq [OF assms])

lemma identity_covers_perm:
  assumes "mset xs = mset xs'" "mset ps = mset ps'" "mset ns = mset ns'"
  shows "identity_covers graph (i\<lparr>pi_external_inputs := xs, pi_rule_pack_bindings := ps, pi_node_implementations := ns\<rparr>) \<longleftrightarrow>
    identity_covers graph (i\<lparr>pi_external_inputs := xs', pi_rule_pack_bindings := ps', pi_node_implementations := ns'\<rparr>)"
proof -
  have "set ps = set ps'" using assms(2) by (metis set_mset_mset)
  moreover have "distinct (map (\<lambda>b. (rp_rule_pack_id b, rp_version b)) ps) \<longleftrightarrow>
      distinct (map (\<lambda>b. (rp_rule_pack_id b, rp_version b)) ps')"
    using assms(2) by (metis mset_eq_imp_distinct_iff mset_map)
  ultimately show ?thesis using assms by (simp add: identity_covers_def)
qed

lemma covers_distinct:
  assumes "graph_ok sha256 graph" "identity_covers graph input"
  shows "distinct (map xi_input_id (pi_external_inputs input))"
    "distinct (map rule_pack_key (pi_rule_pack_bindings input))"
    "distinct (map ni_node_id (pi_node_implementations input))"
proof -
  have pairs: "mset (map (\<lambda>i. (xi_input_id i, xi_value_type i)) (pi_external_inputs input)) =
      mset (map (\<lambda>d. (gi_input_id d, gi_value_type d)) (rg_external_inputs graph))"
    and ids: "mset (map ni_node_id (pi_node_implementations input)) = mset (map nd_node_id (rg_nodes graph))"
    using assms(2) by (simp_all only: identity_covers_def)
  from arg_cong [OF pairs, of "image_mset fst"] have "mset (map xi_input_id (pi_external_inputs input)) = mset (map gi_input_id (rg_external_inputs graph))"
    by (simp add: image_mset.compositionality comp_def)
  moreover have "distinct (map gi_input_id (rg_external_inputs graph))" "distinct (map nd_node_id (rg_nodes graph))"
    using assms(1) by (simp_all add: graph_ok_def strict_sorted_iff)
  ultimately show "distinct (map xi_input_id (pi_external_inputs input))"
      "distinct (map ni_node_id (pi_node_implementations input))"
    using mset_eq_imp_distinct_iff ids by blast+
  have "distinct (map (\<lambda>b. (rp_rule_pack_id b, rp_version b)) (pi_rule_pack_bindings input))"
    using assms(2) by (simp add: identity_covers_def)
  then show "distinct (map rule_pack_key (pi_rule_pack_bindings input))"
    by (auto simp: distinct_map rule_pack_key_def inj_on_def)
qed

text \<open>
  The order in which external inputs, rule packs and implementations are listed
  changes neither the identity nor its digest nor the refusal.
\<close>

theorem identity_new_formal_order_independent:
  assumes "graph_ok sha256 graph" "mset xs = mset xs'" "mset ps = mset ps'" "mset ns = mset ns'"
  shows "identity_new_formal sha256 ds graph
      (i\<lparr>pi_external_inputs := xs, pi_rule_pack_bindings := ps, pi_node_implementations := ns\<rparr>) subject code =
    identity_new_formal sha256 ds graph
      (i\<lparr>pi_external_inputs := xs', pi_rule_pack_bindings := ps', pi_node_implementations := ns'\<rparr>) subject code"
    (is "identity_new_formal _ _ _ ?a _ _ = identity_new_formal _ _ _ ?b _ _")
proof -
  have "identity_of sha256 ds graph ?a s c = identity_of sha256 ds graph ?b s c" if "identity_covers graph ?a" for s c
    using covers_distinct [OF assms(1) that] sort_key_perm [OF assms(2), of xi_input_id]
      sort_key_perm [OF assms(3), of rule_pack_key] sort_key_perm [OF assms(4), of ni_node_id]
    by (simp add: identity_of_def)
  then show ?thesis
    using identity_covers_perm [OF assms(2-4), of graph i]
    by (simp add: identity_new_formal_def identity_build_eq [OF assms(1)])
qed

section \<open>The digest fixes the identity\<close>

lemma prefix_code_rule_pack: "prefix_code push_rule_pack"
proof -
  have "determines push_rule_pack (\<lambda>b. (rp_rule_pack_id b, version_get (rp_version b), rp_content_hash b))"
    unfolding push_rule_pack_def by (intro code_intros)
  then show ?thesis by (rule determines.weaken) simp
qed

lemma prefix_code_implementation: "prefix_code push_implementation"
proof -
  have "determines push_implementation (\<lambda>b. (ulid_str (ni_node_id b), ni_implementation_digest b))"
    unfolding push_implementation_def by (intro code_intros)
  then show ?thesis by (rule determines.weaken) simp
qed

text \<open>An external input is bound by its name, its type and the hash of its payload.\<close>

definition external_key :: "execution_external_input \<Rightarrow> string \<times> typed_value \<times> content_hash" where
  "external_key i = (xi_input_id i, xi_value_type i, xi_content_hash i)"

lemma determines_external_values: "determines (\<lambda>x. push_each push_external_value (f x)) (\<lambda>x. map external_key (f x))"
proof -
  let ?e = "\<lambda>t :: string \<times> typed_value \<times> content_hash.
    push_str (fst t) @ push_typed_value (fst (snd t)) @ hash_bytes (snd (snd t))"
  have "determines ?e (\<lambda>t. (fst t, fst (snd t), snd (snd t)))" by (intro code_intros)
  then have "prefix_code ?e" by (rule determines.weaken) (simp add: prod_eq_iff)
  from determines_push_each_of [OF this, of external_key f] show ?thesis
    by (simp add: external_key_def push_external_value_def [abs_def])
qed

lemma push_entry_neq_Nil [simp]: "push_rule_pack b \<noteq> []" "push_implementation i \<noteq> []"
  by (simp_all add: push_rule_pack_def push_implementation_def)

abbreviation identity_formal :: "reproducibility_identity \<Rightarrow> bool" where
  "identity_formal r \<equiv> id_subject r \<noteq> None \<and> id_code r \<noteq> None"

lemma determines_identity_magic: "determines identity_magic identity_formal"
proof
  fix r a s b
  have tags: "length (identity_magic x) = 34" for x by (simp add: identity_magic_def)
  have differ: "as_bytes ''ficant/reproducibility-identity/v2'' \<noteq> as_bytes ''ficant/reproducibility-identity/v1''"
    by simp
  assume "identity_magic r @ a = identity_magic s @ b"
  then have "identity_magic r = identity_magic s \<and> a = b" by (simp add: tags)
  with differ show "identity_formal r = identity_formal s \<and> a = b"
    unfolding identity_magic_def by metis
qed

lemma identity_formal_bytes_eq:
  assumes "inj ds" "identity_formal_bytes ds r = identity_formal_bytes ds s"
    "length (identity_formal_bytes ds r) < usize_limit"
    "identity_formal r" "identity_formal s"
  shows "id_subject r = id_subject s \<and> id_code r = id_code s"
proof -
  let ?e = "\<lambda>p. push_bytes (binding_bytes ds (fst p)) @ push_bytes (code_binding_bytes (snd p))"
  obtain a b c d where parts: "id_subject r = Some a" "id_code r = Some b" "id_subject s = Some c" "id_code s = Some d"
    using assms(4,5) by auto
  have "determines ?e (\<lambda>p. (fst p, snd p))"
    by (intro code_intros prefix_code_of [OF prefix_code_push_bytes_of [OF prefix_code_formal_binding [OF assms(1)]]]
        prefix_code_of [OF prefix_code_push_bytes_of [OF prefix_code_code_binding]])
  from determines.content_eq [OF this, of "(a, b)" "(c, d)"] assms(2,3) show ?thesis
    by (simp add: identity_formal_bytes_def parts)
qed

definition identity_content :: "reproducibility_identity \<Rightarrow> reproducibility_identity" where
  "identity_content r = r\<lparr>id_external_inputs := [], id_digest := zero_hash\<rparr>"

lemma identity_bytes_determine:
  assumes "inj ds" "identity_canonical_bytes ds r = identity_canonical_bytes ds s"
    "length (identity_canonical_bytes ds r) < usize_limit"
    "id_subject r = None \<longleftrightarrow> id_code r = None" "id_subject s = None \<longleftrightarrow> id_code s = None"
  shows "identity_content r = identity_content s \<and>
    map external_key (id_external_inputs r) = map external_key (id_external_inputs s)"
proof -
  let ?head = "\<lambda>r. identity_magic r @ push_each push_external_value (id_external_inputs r)
     @ push_each push_rule_pack (id_rule_pack_bindings r)
     @ hash_bytes (id_graph_digest r) @ hash_bytes (id_data_snapshot_hash r)
     @ hash_bytes (id_universe_snapshot_hash r) @ hash_bytes (id_parameters_hash r)
     @ hash_bytes (id_runtime_image_digest r) @ hash_bytes (id_environment_digest r)
     @ to_be_bytes (id_seed r) @ push_each push_implementation (id_node_implementations r)"
  have head: "determines ?head (\<lambda>r. (identity_formal r, map external_key (id_external_inputs r),
      id_rule_pack_bindings r, id_graph_digest r, id_data_snapshot_hash r, id_universe_snapshot_hash r,
      id_parameters_hash r, id_runtime_image_digest r, id_environment_digest r, id_seed r,
      id_node_implementations r))"
    by (intro determines_append determines_identity_magic determines_external_values
        prefix_code_of [OF prefix_code_push_each [OF prefix_code_rule_pack]]
        prefix_code_of [OF prefix_code_push_each [OF prefix_code_implementation]]
        determines_hash_bytes determines_u64) simp_all
  have eq: "?head r @ identity_formal_bytes ds r = ?head s @ identity_formal_bytes ds s"
    and len: "length (?head r @ identity_formal_bytes ds r) < usize_limit"
    using assms(2,3) by (simp_all add: identity_canonical_bytes_def)
  note split = determines.splits [OF head eq len]
  have "id_subject r = id_subject s \<and> id_code r = id_code s"
  proof (cases "identity_formal r")
    case True
    with split have "identity_formal s" by simp
    moreover have "length (identity_formal_bytes ds r) < usize_limit" using len by simp
    ultimately show ?thesis using identity_formal_bytes_eq [OF assms(1)] split True by blast
  next
    case False
    with split have "\<not> identity_formal s" by simp
    with False assms(4,5) show ?thesis by auto
  qed
  with split show ?thesis by (simp add: identity_content_def)
qed

lemma identity_build_fields:
  assumes "identity_build sha256 ds graph input subject code = Ok r"
  shows "id_subject r = subject" "id_code r = code"
    "set (id_external_inputs r) = set (pi_external_inputs input)"
    "sorted_wrt (<) (map ni_node_id (id_node_implementations r))"
    "id_graph_digest r = rg_digest graph"
    "id_digest r = sha256 (identity_canonical_bytes ds r)"
proof -
  have "\<not> windows2_any (\<lambda>a b. ni_node_id a = ni_node_id b) (sort_key ni_node_id (pi_node_implementations input))"
    using assms by (auto simp: identity_build_def Let_def split: if_splits)
  then show "sorted_wrt (<) (map ni_node_id (id_node_implementations r))"
    using assms by (auto simp: identity_build_def Let_def windows2_any_sort_key sorted_wrt_sort_key split: if_splits)
  have "id_digest r = sha256 (identity_canonical_bytes ds (r\<lparr>id_digest := sha256 (as_bytes ''uninitialized'')\<rparr>))"
    using assms by (auto simp: identity_build_def Let_def simp del: identity_bytes_ignore_digest split: if_splits)
  then show "id_digest r = sha256 (identity_canonical_bytes ds r)" by simp
qed (use assms in \<open>auto simp: identity_build_def Let_def split: if_splits\<close>)

lemma external_inputs_identified:
  assumes "map external_key xs = map external_key ys"
    "\<forall>x \<in> set xs \<union> set ys. xi_content_hash x = sha256 (xi_payload x)"
  shows "xs = ys \<or> (\<exists>(x, y) \<in> set (zip xs ys). collision sha256 (xi_payload x) (xi_payload y))"
proof -
  have "length xs = length ys" using assms(1) by (metis length_map)
  then show ?thesis using assms
  proof (induction xs ys rule: list_induct2)
    case Nil
    then show ?case by simp
  next
    case (Cons x xs y ys)
    then have hash: "sha256 (xi_payload x) = sha256 (xi_payload y)"
      and same: "xi_input_id x = xi_input_id y" "xi_value_type x = xi_value_type y" "xi_content_hash x = xi_content_hash y"
      and tail: "xs = ys \<or> (\<exists>(x, y) \<in> set (zip xs ys). collision sha256 (xi_payload x) (xi_payload y))"
      by (auto simp: external_key_def)
    show ?case
    proof (cases "xi_payload x = xi_payload y")
      case True
      with same have "x = y" by simp
      with tail show ?thesis by auto
    next
      case False
      with hash show ?thesis by (simp add: collision_def)
    qed
  qed
qed

text \<open>The constructor is the only way to an external input; it stores the hash of the payload.\<close>

definition external_input_ok :: "sha256_fn \<Rightarrow> execution_external_input \<Rightarrow> bool" where
  "external_input_ok sha256 x \<longleftrightarrow>
     execution_external_input_new sha256 (xi_input_id x) (xi_value_type x) (xi_payload x) = Ok x"

lemma external_input_hash: "external_input_ok sha256 x \<Longrightarrow> xi_content_hash x = sha256 (xi_payload x)"
  by (cases x) (auto simp: external_input_ok_def execution_external_input_new_def split: if_splits)

text \<open>
  Equal reproducibility digests mean equal frozen inputs, payloads of the external
  inputs included, unless two named byte strings collide under SHA-256: the canonical bytes of
  the identities, or the payloads of two external inputs at one position. It covers the plain
  and the formal constructor, and one against the other.
\<close>

theorem reproducibility_digest_identifies:
  assumes "inj ds"
    "identity_build sha256 ds graph input subject code = Ok r"
    "identity_build sha256 ds graph' input' subject' code' = Ok r'"
    "subject = None \<longleftrightarrow> code = None" "subject' = None \<longleftrightarrow> code' = None"
    "\<forall>x \<in> set (pi_external_inputs input) \<union> set (pi_external_inputs input'). external_input_ok sha256 x"
    "length (identity_canonical_bytes ds r) < usize_limit"
    "id_digest r = id_digest r'"
  shows "r = r' \<or> collision sha256 (identity_canonical_bytes ds r) (identity_canonical_bytes ds r') \<or>
    (\<exists>(x, y) \<in> set (zip (id_external_inputs r) (id_external_inputs r')). collision sha256 (xi_payload x) (xi_payload y))"
proof (cases "identity_canonical_bytes ds r = identity_canonical_bytes ds r'")
  case True
  have content: "identity_content r = identity_content r'"
    and keys: "map external_key (id_external_inputs r) = map external_key (id_external_inputs r')"
    using identity_bytes_determine [OF assms(1) True assms(7)] identity_build_fields [OF assms(2)]
      identity_build_fields [OF assms(3)] assms(4,5) by simp_all
  have "\<forall>x \<in> set (id_external_inputs r) \<union> set (id_external_inputs r'). xi_content_hash x = sha256 (xi_payload x)"
    using assms(6) identity_build_fields [OF assms(2)] identity_build_fields [OF assms(3)]
    by (simp add: external_input_hash)
  from external_inputs_identified [OF keys this] show ?thesis
  proof
    assume "id_external_inputs r = id_external_inputs r'"
    with content assms(8) have "r = r'" by (cases r; cases r') (simp add: identity_content_def)
    then show ?thesis by simp
  qed simp
next
  case False
  then show ?thesis
    using identity_build_fields(6) [OF assms(2)] identity_build_fields(6) [OF assms(3)] assms(8)
    by (simp add: collision_def)
qed

lemma identity_implementation_Some:
  assumes "sorted_wrt (<) (map ni_node_id (id_node_implementations r))"
  shows "identity_implementation r k = Some d \<longleftrightarrow>
    (\<exists>b \<in> set (id_node_implementations r). ni_node_id b = k \<and> ni_implementation_digest b = d)"
proof
  assume "identity_implementation r k = Some d"
  then show "\<exists>b \<in> set (id_node_implementations r). ni_node_id b = k \<and> ni_implementation_digest b = d"
    by (auto simp: identity_implementation_def dest!: binary_search_sound intro: nth_mem)
next
  assume "\<exists>b \<in> set (id_node_implementations r). ni_node_id b = k \<and> ni_implementation_digest b = d"
  then obtain i where "i < length (id_node_implementations r)"
      "ni_node_id (id_node_implementations r ! i) = k" "ni_implementation_digest (id_node_implementations r ! i) = d"
    by (auto simp: in_set_conv_nth)
  then show "identity_implementation r k = Some d"
    using binary_search_complete [OF assms, of "length (id_node_implementations r)" 0 i]
    by (simp add: identity_implementation_def)
qed

lemma instance_digest_identifies:
  assumes "ii_digest (from_reproducibility sha256 a r) = ii_digest (from_reproducibility sha256 b s)"
    "length (instance_bytes a r) < usize_limit"
  shows "a = b \<and> id_digest r = id_digest s \<or> collision sha256 (instance_bytes a r) (instance_bytes b s)"
proof (cases "instance_bytes a r = instance_bytes b s")
  case True
  have "determines (\<lambda>p. instance_bytes (fst p) (snd p)) (\<lambda>p. ((), ulid_str (fst p), id_digest (snd p)))"
    unfolding instance_bytes_def by (intro code_intros)
  from determines.content_eq [OF this, of "(a, r)" "(b, s)"] True assms(2) show ?thesis by simp
next
  case False
  with assms(1) show ?thesis by (simp add: collision_def from_reproducibility_def)
qed

section \<open>Sample identities\<close>

definition sample_rule_pack :: "u64 \<Rightarrow> rule_pack_binding" where
  "sample_rule_pack v = \<lparr>rp_rule_pack_id = ''rates'', rp_version = Version v, rp_content_hash = zero_hash\<rparr>"

definition sample_implementation :: "string \<Rightarrow> node_implementation" where
  "sample_implementation n = \<lparr>ni_node_id = Ulid n, ni_implementation_digest = zero_hash\<rparr>"

definition sample_identity_input :: "u64 \<Rightarrow> reproducibility_identity_input" where
  "sample_identity_input seed =
     \<lparr>pi_external_inputs = [], pi_data_snapshot_hash = zero_hash, pi_universe_snapshot_hash = zero_hash,
      pi_parameters_hash = zero_hash, pi_runtime_image_digest = zero_hash, pi_environment_digest = zero_hash,
      pi_seed = seed, pi_rule_pack_bindings = [sample_rule_pack 2, sample_rule_pack 1],
      pi_node_implementations = [sample_implementation ''b'', sample_implementation ''a'']\<rparr>"

lemma sample_graph_parts:
  "rg_external_inputs (sample_graph v) = []" "map nd_node_id (rg_nodes (sample_graph v)) = [Ulid ''a'', Ulid ''b'']"
  "rg_digest (sample_graph v) = zero_hash"
  by (simp_all add: sample_graph_def graph_of_def Let_def sample_graph_input_def sample_node_def less_eq_ulid_def)

lemma sample_identity_covers: "identity_covers (sample_graph v) (sample_identity_input seed)"
proof -
  have "trim ''rates'' = ''rates''" by (rule trim_printable) auto
  moreover have "mset (map nd_node_id (rg_nodes (sample_graph v))) = {#Ulid ''a'', Ulid ''b''#}"
    by (simp only: sample_graph_parts mset.simps)
  ultimately show ?thesis
    by (simp add: identity_covers_def sample_identity_input_def sample_graph_parts sample_rule_pack_def
        sample_implementation_def del: mset_map)
qed

lemma identity_new_covers_graph_witness:
  "identity_new (\<lambda>_. zero_hash) sample_date_text (sample_graph 1) (sample_identity_input 7) =
     Ok (identity_of (\<lambda>_. zero_hash) sample_date_text (sample_graph 1) (sample_identity_input 7) None None) \<and>
   map rp_version (pi_rule_pack_bindings (sample_identity_input 7)) = [Version 2, Version 1]"
  using identity_new_covers_graph [OF sample_graph_ok, of sample_date_text 1 "sample_identity_input 7"]
  by (simp add: sample_identity_covers) (simp add: sample_identity_input_def sample_rule_pack_def)

lemma identity_new_formal_order_independent_witness:
  "identity_new_formal (\<lambda>_. zero_hash) sample_date_text (sample_graph 1)
      ((sample_identity_input 7)\<lparr>pi_external_inputs := [], pi_rule_pack_bindings := [],
        pi_node_implementations := [sample_implementation ''a'', sample_implementation ''b'']\<rparr>) sample_subject
      (ev_code (sample_evidence_input 1)) =
   identity_new_formal (\<lambda>_. zero_hash) sample_date_text (sample_graph 1)
      ((sample_identity_input 7)\<lparr>pi_external_inputs := [], pi_rule_pack_bindings := [],
        pi_node_implementations := [sample_implementation ''b'', sample_implementation ''a'']\<rparr>) sample_subject
      (ev_code (sample_evidence_input 1))"
  by (rule identity_new_formal_order_independent [OF sample_graph_ok]) simp_all

abbreviation sample_identity :: "u64 \<Rightarrow> reproducibility_identity" where
  "sample_identity seed \<equiv>
     identity_of (\<lambda>_. zero_hash) sample_date_text (sample_graph 1) (sample_identity_input seed) None None"

lemma length_sample_identity: "length (identity_canonical_bytes sample_date_text (sample_identity seed)) < usize_limit"
  by (simp add: identity_of_def Let_def identity_canonical_bytes_def identity_magic_def identity_formal_bytes_def
      sample_identity_input_def length_push_each push_rule_pack_def push_implementation_def sample_rule_pack_def
      sample_implementation_def rule_pack_key_def less_eq_ulid_def less_eq_version_def)

lemma reproducibility_digest_identifies_witness:
  "collision (\<lambda>_. zero_hash) (identity_canonical_bytes sample_date_text (sample_identity 1))
     (identity_canonical_bytes sample_date_text (sample_identity 2))"
proof -
  have new: "identity_build (\<lambda>_. zero_hash) sample_date_text (sample_graph 1) (sample_identity_input n) None None =
      Ok (sample_identity n)" for n
    by (simp add: identity_build_eq [OF sample_graph_ok] sample_identity_covers)
  have ext: "pi_external_inputs (sample_identity_input n) = []" for n by (simp add: sample_identity_input_def)
  then have none: "id_external_inputs (sample_identity n) = []" for n by (simp add: identity_of_def Let_def)
  have "id_seed (sample_identity 1) \<noteq> id_seed (sample_identity 2)"
    by (simp add: identity_of_def Let_def sample_identity_input_def)
  then have "sample_identity 1 \<noteq> sample_identity 2" by metis
  moreover have "id_digest (sample_identity n) = zero_hash" for n by (simp add: identity_of_def Let_def)
  ultimately show ?thesis
    using reproducibility_digest_identifies [OF inj_sample_date_text new [of 1] new [of 2] _ _ _ length_sample_identity]
    by (simp add: ext none)
qed

end
