(* ===== verification/Output_Envelope.thy ===== *)
theory Output_Envelope
  imports Execution_Identity
begin

text \<open>
  The output envelope of a node (\<open>ficant-runtime/src/native_execution.rs\<close>): typed port values,
  their canonical persistence format and the decoder that reads it back from stored bytes. The
  theory shows that the decoder accepts exactly the canonical envelopes, byte for byte.
\<close>

section \<open>Port values and their encoding\<close>

record native_port_value =
  pv_port_name :: string
  pv_value_type :: typed_value
  pv_payload :: bytes
  pv_content_hash :: content_hash

definition native_port_value_new ::
  "sha256_fn \<Rightarrow> string \<Rightarrow> typed_value \<Rightarrow> bytes \<Rightarrow> native_port_value runtime_result" where
  "native_port_value_new sha256 port_name value_type payload =
     (if port_name = [] \<or> trim port_name \<noteq> port_name \<or> payload = [] then Err invalid
      else Ok \<lparr>pv_port_name = port_name, pv_value_type = value_type, pv_payload = payload,
               pv_content_hash = sha256 payload\<rparr>)"

definition ENVELOPE_MAGIC :: bytes where
  "ENVELOPE_MAGIC = as_bytes ''ficant/native-node-output-envelope/v1''"

definition push_output :: "native_port_value \<Rightarrow> bytes" where
  "push_output v =
     push_str (pv_port_name v) @ push_typed_value (pv_value_type v)
     @ hash_bytes (pv_content_hash v) @ push_bytes (pv_payload v)"

definition canonical_output_bytes :: "native_port_value list \<Rightarrow> bytes" where
  "canonical_output_bytes outputs = ENVELOPE_MAGIC @ push_each push_output outputs"

section \<open>The decoder\<close>

record envelope_decoder =
  de_bytes :: bytes
  de_offset :: nat

definition decoder_new :: "bytes \<Rightarrow> envelope_decoder" where
  "decoder_new bs = \<lparr>de_bytes = bs, de_offset = 0\<rparr>"

definition decoder_take :: "envelope_decoder \<Rightarrow> nat \<Rightarrow> (bytes \<times> envelope_decoder) runtime_result" where
  "decoder_take d len =
     (if de_offset d + len \<ge> usize_limit then Err invalid
      else let stop = de_offset d + len in
        if stop > length (de_bytes d) then Err invalid
        else Ok (subslice (de_offset d) stop (de_bytes d), d\<lparr>de_offset := stop\<rparr>))"

definition decoder_try_u64 :: "envelope_decoder \<Rightarrow> (u64 \<times> envelope_decoder) runtime_result" where
  "decoder_try_u64 d = and_then (decoder_take d 8) (\<lambda>(v, d). Ok (from_be_bytes v, d))"

definition decoder_usize :: "envelope_decoder \<Rightarrow> (nat \<times> envelope_decoder) runtime_result" where
  "decoder_usize d = and_then (decoder_try_u64 d) (\<lambda>(v, d). Ok (unat v, d))"

definition decoder_bytes :: "envelope_decoder \<Rightarrow> (bytes \<times> envelope_decoder) runtime_result" where
  "decoder_bytes d = and_then (decoder_usize d) (\<lambda>(len, d). decoder_take d len)"

definition decoder_string :: "envelope_decoder \<Rightarrow> (string \<times> envelope_decoder) runtime_result" where
  "decoder_string d =
     and_then (decoder_bytes d) (\<lambda>(bs, d).
     and_then (ok_or (from_utf8 bs) invalid) (\<lambda>s. Ok (s, d)))"

definition decoder_finished :: "envelope_decoder \<Rightarrow> bool" where
  "decoder_finished d \<longleftrightarrow> de_offset d = length (de_bytes d)"

text \<open>One iteration of the loop: the port must follow the previous one.\<close>

definition decode_output ::
  "sha256_fn \<Rightarrow> string option \<Rightarrow> envelope_decoder \<Rightarrow> (native_port_value \<times> envelope_decoder) runtime_result" where
  "decode_output sha256 previous_port d =
     and_then (decoder_string d) (\<lambda>(port_name, d).
     if (case previous_port of Some previous \<Rightarrow> previous \<ge> port_name | None \<Rightarrow> False) then Err invalid
     else
     and_then (decoder_string d) (\<lambda>(type_id, d).
     and_then (decoder_try_u64 d) (\<lambda>(v, d).
     and_then (domain (version_new v)) (\<lambda>type_version.
     and_then (decoder_take d 32) (\<lambda>(h, d).
     and_then (domain (content_hash_from_bytes h)) (\<lambda>schema_hash.
     and_then (decoder_take d 32) (\<lambda>(h, d).
     and_then (domain (content_hash_from_bytes h)) (\<lambda>declared_content_hash.
     and_then (decoder_bytes d) (\<lambda>(payload, d).
     and_then (domain (typed_value_new type_id type_version schema_hash)) (\<lambda>value_type.
     and_then (native_port_value_new sha256 port_name value_type payload) (\<lambda>output.
     if pv_content_hash output \<noteq> declared_content_hash then Err hash_mismatch
     else Ok (output, d))))))))))))"

fun decode_outputs ::
  "sha256_fn \<Rightarrow> nat \<Rightarrow> string option \<Rightarrow> envelope_decoder \<Rightarrow>
   (native_port_value list \<times> envelope_decoder) runtime_result" where
  "decode_outputs sha256 0 previous_port d = Ok ([], d)"
| "decode_outputs sha256 (Suc n) previous_port d =
     and_then (decode_output sha256 previous_port d) (\<lambda>(output, d).
     and_then (decode_outputs sha256 n (Some (pv_port_name output)) d) (\<lambda>(outputs, d).
     Ok (output # outputs, d)))"

definition decode_canonical_output_bytes ::
  "sha256_fn \<Rightarrow> bytes \<Rightarrow> content_hash option \<Rightarrow> native_port_value list runtime_result" where
  "decode_canonical_output_bytes sha256 bs expected_envelope_hash =
     (if (case expected_envelope_hash of Some expected \<Rightarrow> sha256 bs \<noteq> expected | None \<Rightarrow> False)
      then Err hash_mismatch
      else
        and_then (decoder_take (decoder_new bs) (length ENVELOPE_MAGIC)) (\<lambda>(magic, d).
        if magic \<noteq> ENVELOPE_MAGIC then Err invalid
        else
        and_then (decoder_usize d) (\<lambda>(n, d).
        if n = 0 then Err invalid
        else
        and_then (decode_outputs sha256 n None d) (\<lambda>(outputs, d).
        if \<not> decoder_finished d then Err invalid
        else Ok outputs))))"

section \<open>What each read consumes\<close>

text \<open>\<open>consumes d v d'\<close>: reading the bytes \<open>v\<close> takes the decoder from \<open>d\<close> to \<open>d'\<close>.\<close>

definition decoder_ok :: "envelope_decoder \<Rightarrow> bool" where
  "decoder_ok d \<longleftrightarrow> de_offset d \<le> length (de_bytes d) \<and> length (de_bytes d) < usize_limit"

definition consumes :: "envelope_decoder \<Rightarrow> bytes \<Rightarrow> envelope_decoder \<Rightarrow> bool" where
  "consumes d v d' \<longleftrightarrow>
     decoder_ok d \<and> decoder_ok d' \<and> de_bytes d' = de_bytes d \<and> de_offset d' = de_offset d + length v \<and>
     drop (de_offset d) (de_bytes d) = v @ drop (de_offset d') (de_bytes d)"

lemma consumes_ok: "consumes d v d' \<Longrightarrow> decoder_ok d \<and> decoder_ok d'"
  by (simp add: consumes_def)

lemma consumes_append: "(\<exists>m. consumes d a m \<and> consumes m b d') \<longleftrightarrow> consumes d (a @ b) d'"
proof
  assume "\<exists>m. consumes d a m \<and> consumes m b d'"
  then show "consumes d (a @ b) d'" by (auto simp: consumes_def)
next
  assume c: "consumes d (a @ b) d'"
  let ?m = "d\<lparr>de_offset := de_offset d + length a\<rparr>"
  have "drop (length a) (drop (de_offset d) (de_bytes d)) = b @ drop (de_offset d') (de_bytes d)"
    using c by (simp add: consumes_def)
  then have "drop (de_offset d + length a) (de_bytes d) = b @ drop (de_offset d') (de_bytes d)"
    by (simp add: add.commute)
  then have "consumes d a ?m \<and> consumes ?m b d'"
    using c by (auto simp: consumes_def decoder_ok_def)
  then show "\<exists>m. consumes d a m \<and> consumes m b d'" by blast
qed

lemma consumes_Nil: "decoder_ok d \<Longrightarrow> consumes d [] d' \<longleftrightarrow> d' = d"
  by (cases d; cases d') (auto simp: consumes_def)

lemma decoder_take_Ok:
  assumes "decoder_ok d"
  shows "decoder_take d n = Ok (v, d') \<longleftrightarrow> length v = n \<and> consumes d v d'"
proof
  assume "decoder_take d n = Ok (v, d')"
  then have bounds: "de_offset d + n \<le> length (de_bytes d)"
    and v: "v = take n (drop (de_offset d) (de_bytes d))" and d': "d' = d\<lparr>de_offset := de_offset d + n\<rparr>"
    by (auto simp: decoder_take_def Let_def subslice_def split: if_splits)
  have "drop (de_offset d) (de_bytes d) = v @ drop n (drop (de_offset d) (de_bytes d))"
    by (simp add: v del: drop_drop)
  then have "drop (de_offset d) (de_bytes d) = v @ drop (de_offset d') (de_bytes d)"
    by (simp only: drop_drop add.commute [of n]) (simp add: d')
  moreover have len: "length v = n" using bounds by (simp add: v)
  moreover have "decoder_ok d'" using assms bounds by (simp add: decoder_ok_def d')
  moreover have "de_bytes d' = de_bytes d" "de_offset d' = de_offset d + length v" by (simp_all add: d' len)
  ultimately show "length v = n \<and> consumes d v d'"
    unfolding consumes_def using assms by - (intro conjI; assumption)
next
  assume *: "length v = n \<and> consumes d v d'"
  then have parts: "de_bytes d' = de_bytes d" "de_offset d' = de_offset d + n" "decoder_ok d'"
    and rest: "drop (de_offset d) (de_bytes d) = v @ drop (de_offset d') (de_bytes d)"
    unfolding consumes_def by blast+
  have d': "d' = d\<lparr>de_offset := de_offset d + n\<rparr>" using parts(1,2) by (cases d; cases d') simp
  have "subslice (de_offset d) (de_offset d + n) (de_bytes d) = v"
    unfolding subslice_def rest using * by simp
  moreover have "de_offset d + n \<le> length (de_bytes d)" "de_offset d + n < usize_limit"
    using parts unfolding decoder_ok_def by auto
  ultimately show "decoder_take d n = Ok (v, d')" by (simp add: decoder_take_def d' Let_def)
qed

lemma decoder_try_u64_Ok:
  assumes "decoder_ok d"
  shows "decoder_try_u64 d = Ok (w, d') \<longleftrightarrow> consumes d (push_u64 w) d'"
  by (auto simp: decoder_try_u64_def and_then_eq_Ok decoder_take_Ok [OF assms] push_u64_def to_from_be_bytes_64)
    (metis from_to_be_bytes_64 length_push_u64 push_u64_def)

lemma decoder_usize_Ok:
  assumes "decoder_ok d"
  shows "decoder_usize d = Ok (n, d') \<longleftrightarrow> n < usize_limit \<and> consumes d (push_u64 (word_of_nat n)) d'"
proof -
  have unat_n: "unat (word_of_nat n :: u64) = n" if "n < usize_limit" for n
    using that by (simp add: unat_of_nat)
  have "decoder_usize d = Ok (n, d') \<longleftrightarrow> (\<exists>w. consumes d (push_u64 w) d' \<and> n = unat w)"
    by (auto simp: decoder_usize_def and_then_eq_Ok decoder_try_u64_Ok [OF assms])
  also have "\<dots> \<longleftrightarrow> n < usize_limit \<and> consumes d (push_u64 (word_of_nat n)) d'"
  proof
    assume "\<exists>w. consumes d (push_u64 w) d' \<and> n = unat w"
    then obtain w where w: "consumes d (push_u64 w) d'" "n = unat w" by blast
    then show "n < usize_limit \<and> consumes d (push_u64 (word_of_nat n)) d'"
      using unat_bound [of w] by simp
  next
    assume n: "n < usize_limit \<and> consumes d (push_u64 (word_of_nat n)) d'"
    then show "\<exists>w. consumes d (push_u64 w) d' \<and> n = unat w"
      using unat_n [of n] by (intro exI [of _ "word_of_nat n"]) simp
  qed
  finally show ?thesis .
qed

lemma decoder_bytes_Ok:
  assumes "decoder_ok d"
  shows "decoder_bytes d = Ok (v, d') \<longleftrightarrow> consumes d (push_bytes v) d'"
proof
  assume "decoder_bytes d = Ok (v, d')"
  then obtain n m where n: "decoder_usize d = Ok (n, m)" "decoder_take m n = Ok (v, d')"
    by (auto simp: decoder_bytes_def and_then_eq_Ok)
  then have m: "consumes d (push_u64 (word_of_nat n)) m" by (simp add: decoder_usize_Ok [OF assms])
  then have "length v = n \<and> consumes m v d'" using n(2) consumes_ok decoder_take_Ok by blast
  with m show "consumes d (push_bytes v) d'"
    unfolding push_bytes_def consumes_append [symmetric] by blast
next
  assume c: "consumes d (push_bytes v) d'"
  then obtain m where m: "consumes d (push_u64 (word_of_nat (length v))) m" "consumes m v d'"
    unfolding push_bytes_def consumes_append [symmetric] by blast
  have "length v < usize_limit" using m(2) by (auto simp: consumes_def decoder_ok_def)
  with m(1) have "decoder_usize d = Ok (length v, m)" by (simp add: decoder_usize_Ok [OF assms])
  moreover have "decoder_take m (length v) = Ok (v, d')" using m consumes_ok decoder_take_Ok by blast
  ultimately show "decoder_bytes d = Ok (v, d')" by (simp add: decoder_bytes_def)
qed

lemma decoder_string_Ok:
  assumes "decoder_ok d"
  shows "decoder_string d = Ok (s, d') \<longleftrightarrow> utf8_valid (as_bytes s) \<and> consumes d (push_str s) d'"
  by (auto simp: decoder_string_def and_then_eq_Ok ok_or_eq_Ok decoder_bytes_Ok [OF assms] push_str_push_bytes)

lemma decoder_hash_Ok:
  assumes "decoder_ok d"
  shows "(\<exists>v. decoder_take d 32 = Ok (v, d') \<and> content_hash_from_bytes v = Ok h) \<longleftrightarrow> consumes d (hash_bytes h) d'"
  by (auto simp: decoder_take_Ok [OF assms] content_hash_from_bytes_Ok)

section \<open>Canonical envelopes\<close>

text \<open>What the constructors guarantee of a value, and that its texts are UTF-8.\<close>

definition typed_value_ok :: "typed_value \<Rightarrow> bool" where
  "typed_value_ok v \<longleftrightarrow> ensure_symbol (tv_type_id v) = Ok () \<and> version_get (tv_type_version v) \<noteq> 0"

definition port_value_ok :: "sha256_fn \<Rightarrow> native_port_value \<Rightarrow> bool" where
  "port_value_ok sha256 v \<longleftrightarrow>
     pv_port_name v \<noteq> [] \<and> trim (pv_port_name v) = pv_port_name v \<and> utf8_valid (as_bytes (pv_port_name v)) \<and>
     typed_value_ok (pv_value_type v) \<and> pv_payload v \<noteq> [] \<and> pv_content_hash v = sha256 (pv_payload v)"

lemma symbol_utf8:
  assumes "ensure_symbol s = Ok ()"
  shows "utf8_valid (as_bytes s)"
proof (rule ascii_utf8)
  have "list_all (\<lambda>byte. is_alphanumeric byte \<or> byte \<in> set ''._-'') s"
    using assms by (simp add: ensure_symbol_def split: if_splits)
  then show "is_ascii s"
    by (induction s) (auto simp: is_ascii_def is_alphanumeric_def is_ascii_lowercase_def is_ascii_digit_def)
qed

lemma typed_value_new_Ok [result_simps]:
  "typed_value_new t v h = Ok y \<longleftrightarrow> ensure_symbol t = Ok () \<and> tv_type_id y = t \<and> tv_type_version y = v \<and> tv_schema_hash y = h"
  by (cases y) (auto simp: typed_value_new_def and_then_eq_Ok)

lemma version_new_Ok [result_simps]: "version_new w = Ok v \<longleftrightarrow> w = version_get v \<and> w \<noteq> 0"
  by (cases v) (auto simp: version_new_def)

lemma native_port_value_new_Ok [result_simps]:
  "native_port_value_new sha256 p t b = Ok v \<longleftrightarrow>
     p \<noteq> [] \<and> trim p = p \<and> b \<noteq> [] \<and> pv_port_name v = p \<and> pv_value_type v = t \<and> pv_payload v = b \<and>
     pv_content_hash v = sha256 b"
  by (cases v) (auto simp: native_port_value_new_def)

lemma push_output_parts:
  "push_output v = push_str (pv_port_name v) @ push_str (tv_type_id (pv_value_type v))
     @ push_u64 (version_get (tv_type_version (pv_value_type v))) @ hash_bytes (tv_schema_hash (pv_value_type v))
     @ hash_bytes (pv_content_hash v) @ push_bytes (pv_payload v)"
  by (simp add: push_output_def push_typed_value_def)

lemma decode_output_sound:
  assumes "decoder_ok d" "decode_output sha256 previous d = Ok (v, d')"
  shows "(\<forall>p. previous = Some p \<longrightarrow> p < pv_port_name v) \<and> port_value_ok sha256 v \<and> consumes d (push_output v) d'"
proof -
  obtain name d1 where 1: "decoder_string d = Ok (name, d1)" "\<forall>p. previous = Some p \<longrightarrow> p < name"
    using assms(2) by (auto simp: decode_output_def and_then_eq_Ok not_le split: if_splits option.splits)
  obtain t d2 where 2: "decoder_string d1 = Ok (t, d2)"
    using assms(2) 1 by (auto simp: decode_output_def and_then_eq_Ok split: if_splits option.splits)
  obtain w d3 where 3: "decoder_try_u64 d2 = Ok (w, d3)"
    using assms(2) 1 2 by (auto simp: decode_output_def and_then_eq_Ok split: if_splits option.splits)
  obtain s d4 where 4: "decoder_take d3 32 = Ok (s, d4)"
    using assms(2) 1 2 3 by (auto simp: decode_output_def and_then_eq_Ok split: if_splits option.splits)
  obtain c d5 where 5: "decoder_take d4 32 = Ok (c, d5)"
    using assms(2) 1 2 3 4 by (auto simp: decode_output_def and_then_eq_Ok split: if_splits option.splits)
  obtain b where 6: "decoder_bytes d5 = Ok (b, d')"
    using assms(2) 1 2 3 4 5 by (auto simp: decode_output_def and_then_eq_Ok split: if_splits option.splits)
  have v: "w = version_get (tv_type_version (pv_value_type v))" "w \<noteq> 0"
      "s = hash_bytes (tv_schema_hash (pv_value_type v))" "ensure_symbol t = Ok ()"
      "t = tv_type_id (pv_value_type v)" "name \<noteq> []" "trim name = name" "b \<noteq> []"
      "pv_port_name v = name" "pv_payload v = b" "pv_content_hash v = sha256 b" "c = hash_bytes (pv_content_hash v)"
    using assms(2) 1 2 3 4 5 6
    by (auto simp: decode_output_def and_then_eq_Ok result_simps split: if_splits option.splits)
  have c1: "consumes d (push_str name) d1" "utf8_valid (as_bytes name)"
    using 1 by (simp_all add: decoder_string_Ok [OF assms(1)])
  have c2: "consumes d1 (push_str t) d2" using 2 decoder_string_Ok c1 consumes_ok by blast
  have c3: "consumes d2 (push_u64 w) d3" using 3 decoder_try_u64_Ok c2 consumes_ok by blast
  have c4: "consumes d3 s d4" using 4 decoder_take_Ok c3 consumes_ok by blast
  have c5: "consumes d4 c d5" using 5 decoder_take_Ok c4 consumes_ok by blast
  have c6: "consumes d5 (push_bytes b) d'" using 6 decoder_bytes_Ok c5 consumes_ok by blast
  have "consumes d (push_str name @ push_str t @ push_u64 w @ s @ c @ push_bytes b) d'"
    unfolding consumes_append [symmetric] using c1 c2 c3 c4 c5 c6 by blast
  then have "consumes d (push_output v) d'" by (simp add: push_output_parts v)
  moreover have "port_value_ok sha256 v" using v c1(2) by (simp add: port_value_ok_def typed_value_ok_def)
  ultimately show ?thesis using 1(2) v by blast
qed

lemma decode_output_complete:
  assumes "decoder_ok d" "\<forall>p. previous = Some p \<longrightarrow> p < pv_port_name v" "port_value_ok sha256 v"
    "consumes d (push_output v) d'"
  shows "decode_output sha256 previous d = Ok (v, d')"
proof -
  let ?t = "pv_value_type v"
  obtain d1 d2 d3 d4 d5 where c: "consumes d (push_str (pv_port_name v)) d1" "consumes d1 (push_str (tv_type_id ?t)) d2"
      "consumes d2 (push_u64 (version_get (tv_type_version ?t))) d3" "consumes d3 (hash_bytes (tv_schema_hash ?t)) d4"
      "consumes d4 (hash_bytes (pv_content_hash v)) d5" "consumes d5 (push_bytes (pv_payload v)) d'"
    using assms(4) unfolding push_output_parts consumes_append [symmetric] by blast
  have ok: "pv_port_name v \<noteq> []" "trim (pv_port_name v) = pv_port_name v" "utf8_valid (as_bytes (pv_port_name v))"
      "ensure_symbol (tv_type_id ?t) = Ok ()" "version_get (tv_type_version ?t) \<noteq> 0"
      "pv_payload v \<noteq> []" "pv_content_hash v = sha256 (pv_payload v)"
    using assms(3) by (simp_all add: port_value_ok_def typed_value_ok_def)
  note oks = c [THEN consumes_ok, THEN conjunct1]
  have reads: "decoder_string d = Ok (pv_port_name v, d1)" "decoder_string d1 = Ok (tv_type_id ?t, d2)"
      "decoder_try_u64 d2 = Ok (version_get (tv_type_version ?t), d3)"
      "decoder_take d3 32 = Ok (hash_bytes (tv_schema_hash ?t), d4)"
      "decoder_take d4 32 = Ok (hash_bytes (pv_content_hash v), d5)" "decoder_bytes d5 = Ok (pv_payload v, d')"
    using c ok symbol_utf8 [OF ok(4)]
    by (simp_all add: decoder_string_Ok oks decoder_try_u64_Ok decoder_take_Ok decoder_bytes_Ok)
  have made: "version_new (version_get (tv_type_version ?t)) = Ok (tv_type_version ?t)"
      "typed_value_new (tv_type_id ?t) (tv_type_version ?t) (tv_schema_hash ?t) = Ok ?t"
      "native_port_value_new sha256 (pv_port_name v) ?t (pv_payload v) = Ok v"
    using ok by (simp_all add: result_simps)
  have guard: "\<not> (case previous of Some p \<Rightarrow> p \<ge> pv_port_name v | None \<Rightarrow> False)"
    using assms(2) by (auto split: option.splits)
  show ?thesis unfolding decode_output_def by (simp add: reads guard made)
qed

text \<open>The loop reads a run of values whose ports increase strictly from the previous one.\<close>

fun ports_after :: "string option \<Rightarrow> native_port_value list \<Rightarrow> bool" where
  "ports_after previous [] = True"
| "ports_after previous (v # vs) \<longleftrightarrow>
     (case previous of Some p \<Rightarrow> p < pv_port_name v | None \<Rightarrow> True) \<and> ports_after (Some (pv_port_name v)) vs"

lemma ports_after_sorted:
  "ports_after previous vs \<longleftrightarrow>
     (case previous of Some p \<Rightarrow> (\<forall>v \<in> set vs. p < pv_port_name v) | None \<Rightarrow> True) \<and>
     sorted_wrt (<) (map pv_port_name vs)"
  by (induction previous vs rule: ports_after.induct)
    (auto split: option.splits dest: less_trans)

lemma decode_outputs_Ok:
  assumes "decoder_ok d"
  shows "decode_outputs sha256 n previous d = Ok (vs, d') \<longleftrightarrow>
    length vs = n \<and> ports_after previous vs \<and> (\<forall>v \<in> set vs. port_value_ok sha256 v) \<and>
    consumes d (concat (map push_output vs)) d'"
  using assms
proof (induction n arbitrary: previous d vs)
  case 0
  then show ?case by (auto simp: consumes_Nil)
next
  case (Suc n)
  have step: "decode_output sha256 previous d = Ok (v, m) \<longleftrightarrow>
      (case previous of Some p \<Rightarrow> p < pv_port_name v | None \<Rightarrow> True) \<and> port_value_ok sha256 v \<and> consumes d (push_output v) m" for v m
    using decode_output_sound [OF Suc.prems, of sha256 previous v m] decode_output_complete [OF Suc.prems, of previous v sha256 m]
    by (cases previous) auto
  have "decode_outputs sha256 (Suc n) previous d = Ok (vs, d') \<longleftrightarrow>
      (\<exists>v m ws. vs = v # ws \<and> decode_output sha256 previous d = Ok (v, m) \<and>
         decode_outputs sha256 n (Some (pv_port_name v)) m = Ok (ws, d'))"
    by (auto simp: and_then_eq_Ok)
  also have "\<dots> \<longleftrightarrow> (\<exists>v m ws. vs = v # ws \<and> decode_output sha256 previous d = Ok (v, m) \<and>
      length ws = n \<and> ports_after (Some (pv_port_name v)) ws \<and> (\<forall>v \<in> set ws. port_value_ok sha256 v) \<and>
      consumes m (concat (map push_output ws)) d')"
    by (intro iff_exI conj_cong refl Suc.IH) (use step consumes_ok in blast)
  also have "\<dots> \<longleftrightarrow> length vs = Suc n \<and> ports_after previous vs \<and> (\<forall>v \<in> set vs. port_value_ok sha256 v) \<and>
      consumes d (concat (map push_output vs)) d'"
    unfolding step by (cases vs) (auto simp flip: consumes_append)
  finally show ?case .
qed

text \<open>
  C12: decoding succeeds with a list of values exactly when the stored bytes are the
  canonical encoding of that list, the list is not empty, its ports are strictly increasing, every
  value is one the constructors build (type and version valid, content hash of its payload) and
  the expected hash, if given, is that of the bytes. Nothing else decodes: no second encoding, no
  trailing byte, no other order.
\<close>

theorem decode_accepts_canonical_envelopes:
  assumes "length bs < usize_limit"
  shows "decode_canonical_output_bytes sha256 bs expected = Ok outputs \<longleftrightarrow>
    bs = canonical_output_bytes outputs \<and> outputs \<noteq> [] \<and>
    sorted_wrt (<) (map pv_port_name outputs) \<and> (\<forall>v \<in> set outputs. port_value_ok sha256 v) \<and>
    expected \<in> {None, Some (sha256 bs)}"
proof -
  let ?d = "decoder_new bs" and ?h = "case expected of Some h \<Rightarrow> sha256 bs \<noteq> h | None \<Rightarrow> False"
  have ok: "decoder_ok ?d" using assms by (simp add: decoder_ok_def decoder_new_def)
  have h: "\<not> ?h \<longleftrightarrow> expected \<in> {None, Some (sha256 bs)}" by (auto split: option.splits)
  have whole: "consumes ?d v d' \<and> decoder_finished d' \<longleftrightarrow> bs = v \<and> d' = \<lparr>de_bytes = bs, de_offset = length bs\<rparr>" for v d'
    using assms by (cases d') (auto simp: consumes_def decoder_finished_def decoder_new_def decoder_ok_def)
  have "decode_canonical_output_bytes sha256 bs expected = Ok outputs \<longleftrightarrow> \<not> ?h \<and>
      (\<exists>m n m' d'. decoder_take ?d (length ENVELOPE_MAGIC) = Ok (ENVELOPE_MAGIC, m) \<and> decoder_usize m = Ok (n, m') \<and>
         n \<noteq> 0 \<and> decode_outputs sha256 n None m' = Ok (outputs, d') \<and> decoder_finished d')"
    (is "?L \<longleftrightarrow> ?R")
  proof
    assume ?L
    then show ?R by (simp add: decode_canonical_output_bytes_def) (auto simp: and_then_eq_Ok split: if_splits)
  next
    assume ?R
    then show ?L by (auto simp: decode_canonical_output_bytes_def)
  qed
  also have "\<dots> \<longleftrightarrow> \<not> ?h \<and> (\<exists>m n m' d'. consumes ?d ENVELOPE_MAGIC m \<and> n < usize_limit \<and>
      consumes m (push_u64 (word_of_nat n)) m' \<and> n \<noteq> 0 \<and> length outputs = n \<and> ports_after None outputs \<and>
      (\<forall>v \<in> set outputs. port_value_ok sha256 v) \<and> consumes m' (concat (map push_output outputs)) d' \<and> decoder_finished d')"
  proof -
    have take: "decoder_take ?d (length ENVELOPE_MAGIC) = Ok (ENVELOPE_MAGIC, m) \<longleftrightarrow> consumes ?d ENVELOPE_MAGIC m" for m
      by (simp add: decoder_take_Ok [OF ok])
    have usize: "decoder_usize m = Ok (n, m') \<longleftrightarrow> n < usize_limit \<and> consumes m (push_u64 (word_of_nat n)) m'"
      if "consumes ?d ENVELOPE_MAGIC m" for m n m' using decoder_usize_Ok consumes_ok [OF that] by blast
    have outs: "decode_outputs sha256 n None m' = Ok (outputs, d') \<longleftrightarrow> length outputs = n \<and> ports_after None outputs \<and>
        (\<forall>v \<in> set outputs. port_value_ok sha256 v) \<and> consumes m' (concat (map push_output outputs)) d'"
      if "consumes m (push_u64 (word_of_nat n)) m'" for m n m' d' using decode_outputs_Ok consumes_ok [OF that] by blast
    show ?thesis using take usize outs by blast
  qed
  also have "\<dots> \<longleftrightarrow> \<not> ?h \<and> length outputs < usize_limit \<and> outputs \<noteq> [] \<and> ports_after None outputs \<and>
      (\<forall>v \<in> set outputs. port_value_ok sha256 v) \<and>
      (\<exists>d'. consumes ?d (canonical_output_bytes outputs) d' \<and> decoder_finished d')"
    unfolding canonical_output_bytes_def push_each_def consumes_append [symmetric] by auto
  also have "\<dots> \<longleftrightarrow> \<not> ?h \<and> length outputs < usize_limit \<and> outputs \<noteq> [] \<and> ports_after None outputs \<and>
      (\<forall>v \<in> set outputs. port_value_ok sha256 v) \<and> bs = canonical_output_bytes outputs"
    unfolding whole by blast
  also have "\<dots> \<longleftrightarrow> bs = canonical_output_bytes outputs \<and> outputs \<noteq> [] \<and>
    sorted_wrt (<) (map pv_port_name outputs) \<and> (\<forall>v \<in> set outputs. port_value_ok sha256 v) \<and>
    expected \<in> {None, Some (sha256 bs)}"
  proof -
    have "length outputs < usize_limit" if "bs = canonical_output_bytes outputs"
    proof -
      have "push_output v \<noteq> []" for v by (simp add: push_output_def)
      from length_concat_nonempty [of push_output, OF this, of outputs]
      show ?thesis using assms that by (simp add: canonical_output_bytes_def push_each_def)
    qed
    then show ?thesis unfolding h ports_after_sorted by auto
  qed
  finally show ?thesis .
qed

definition sample_port_value :: "string \<Rightarrow> native_port_value" where
  "sample_port_value name =
     \<lparr>pv_port_name = name, pv_value_type = sample_type, pv_payload = [1], pv_content_hash = zero_hash\<rparr>"

lemma sample_port_value_ok:
  assumes "name = ''out''"
  shows "port_value_ok (\<lambda>_. zero_hash) (sample_port_value name)"
proof -
  have "trim name = name" unfolding assms by (rule trim_printable) auto
  then show ?thesis
    by (simp add: assms port_value_ok_def sample_port_value_def typed_value_ok_def sample_type_def
        ensure_symbol_def is_alphanumeric_def is_ascii_lowercase_def as_bytes_def byte_of_char_def)
qed

lemma decode_accepts_canonical_envelopes_witness:
  "decode_canonical_output_bytes (\<lambda>_. zero_hash) (canonical_output_bytes [sample_port_value ''out'']) (Some zero_hash) =
     Ok [sample_port_value ''out'']"
proof -
  have "length (canonical_output_bytes [sample_port_value ''out'']) < usize_limit"
    by (simp add: canonical_output_bytes_def ENVELOPE_MAGIC_def length_push_each push_output_def
        push_typed_value_def sample_port_value_def sample_type_def)
  from decode_accepts_canonical_envelopes [OF this] show ?thesis
    using sample_port_value_ok by simp
qed

end
