(* ===== verification/Native_Execution.thy ===== *)
theory Native_Execution
  imports Output_Envelope
begin

text \<open>
  Execution of a research graph by native nodes (\<open>ficant-runtime/src/native_execution.rs\<close>, last
  part): one node against its contract, the whole graph in topological order, the lineage of
  artifacts and the result digest. The theory shows that every successful execution has one
  artifact per node with exactly its upstream lineage, that execution succeeds whenever the
  executors honour their contracts, and that the order of executors and external inputs does
  not matter.

  An implementation of the trait \<open>NativeNode\<close> is a parameter: its two names and a function from
  the request to the result (the trait asks for no external side effects).
\<close>

section \<open>Nodes, artifacts, results\<close>

record native_node_request =
  nr_node :: research_node
  nr_identity :: reproducibility_identity
  nr_inputs :: "native_port_value list"

record native_node =
  ex_node_id :: ulid
  ex_implementation_digest :: content_hash
  ex_execute :: "native_node_request \<Rightarrow> native_port_value list runtime_result"

record native_node_artifact =
  ar_node_id :: ulid
  ar_contract_digest :: content_hash
  ar_implementation_digest :: content_hash
  ar_input_artifacts :: "content_hash list"
  ar_output_hashes :: "content_hash list"
  ar_output_envelope_hash :: content_hash
  ar_artifact_digest :: content_hash

record native_node_execution =
  nx_outputs :: "native_port_value list"
  nx_output_envelope :: bytes
  nx_artifact :: native_node_artifact

record native_execution_result =
  xr_identity :: execution_instance_identity
  xr_artifacts :: "native_node_artifact list"
  xr_result_digest :: content_hash

definition artifact_bytes ::
  "content_hash \<Rightarrow> research_node \<Rightarrow> content_hash \<Rightarrow> content_hash list \<Rightarrow> content_hash list \<Rightarrow> content_hash \<Rightarrow> bytes" where
  "artifact_bytes identity node implementation inputs outputs output_envelope_hash =
     as_bytes ''ficant/native-node-artifact/v2''
     @ hash_bytes identity
     @ push_str (ulid_str (nd_node_id node))
     @ hash_bytes (ct_digest (nd_contract node))
     @ hash_bytes implementation
     @ push_each hash_bytes inputs
     @ push_each hash_bytes outputs
     @ hash_bytes output_envelope_hash"

definition artifact_digest ::
  "sha256_fn \<Rightarrow> content_hash \<Rightarrow> research_node \<Rightarrow> content_hash \<Rightarrow> content_hash list \<Rightarrow> content_hash list \<Rightarrow>
   content_hash \<Rightarrow> content_hash" where
  "artifact_digest sha256 identity node implementation inputs outputs output_envelope_hash =
     sha256 (artifact_bytes identity node implementation inputs outputs output_envelope_hash)"

text \<open>The same bytes, read off the artifact that records them.\<close>

definition artifact_record_bytes :: "content_hash \<Rightarrow> native_node_artifact \<Rightarrow> bytes" where
  "artifact_record_bytes identity a =
     as_bytes ''ficant/native-node-artifact/v2'' @ hash_bytes identity @ push_str (ulid_str (ar_node_id a))
     @ hash_bytes (ar_contract_digest a) @ hash_bytes (ar_implementation_digest a)
     @ push_each hash_bytes (ar_input_artifacts a) @ push_each hash_bytes (ar_output_hashes a)
     @ hash_bytes (ar_output_envelope_hash a)"

definition result_bytes :: "content_hash \<Rightarrow> native_node_artifact list \<Rightarrow> bytes" where
  "result_bytes identity artifacts =
     as_bytes ''ficant/native-execution-result/v1'' @ hash_bytes identity
     @ concat (map (\<lambda>artifact. hash_bytes (ar_artifact_digest artifact)) artifacts)"

definition result_digest :: "sha256_fn \<Rightarrow> content_hash \<Rightarrow> native_node_artifact list \<Rightarrow> content_hash" where
  "result_digest sha256 identity artifacts = sha256 (result_bytes identity artifacts)"

section \<open>One node\<close>

text \<open>The comparison of values with declared ports, used for inputs and for outputs.\<close>

definition ports_match :: "native_port_value list \<Rightarrow> port_type list \<Rightarrow> bool" where
  "ports_match values ports \<longleftrightarrow>
     length values = length ports
     \<and> list_all (\<lambda>(v, port). pv_port_name v = pt_port_name port \<and> pv_value_type v = pt_value_type port)
         (zip values ports)"

definition execute_native_node ::
  "sha256_fn \<Rightarrow> research_node \<Rightarrow> reproducibility_identity \<Rightarrow> native_node \<Rightarrow> native_port_value list \<Rightarrow>
   content_hash list \<Rightarrow> native_node_execution runtime_result" where
  "execute_native_node sha256 node identity executor inputs input_artifacts =
     (if ex_node_id executor \<noteq> nd_node_id node
        \<or> identity_implementation identity (nd_node_id node) \<noteq> Some (ex_implementation_digest executor)
      then Err invalid
      else
        let inputs = sort_key pv_port_name inputs in
        if \<not> ports_match inputs (ct_input_types (nd_contract node)) then Err invalid
        else
          let input_artifacts = remdups_adj (sort input_artifacts) in
          and_then (ex_execute executor \<lparr>nr_node = node, nr_identity = identity, nr_inputs = inputs\<rparr>) (\<lambda>outputs.
          let outputs = sort_key pv_port_name outputs in
          if \<not> ports_match outputs (ct_output_types (nd_contract node)) then Err invalid
          else
            let output_hashes = map pv_content_hash outputs;
                output_envelope = canonical_output_bytes outputs;
                output_envelope_hash = sha256 output_envelope
            in Ok \<lparr>nx_outputs = outputs, nx_output_envelope = output_envelope,
                   nx_artifact =
                     \<lparr>ar_node_id = nd_node_id node,
                      ar_contract_digest = ct_digest (nd_contract node),
                      ar_implementation_digest = ex_implementation_digest executor,
                      ar_input_artifacts = input_artifacts,
                      ar_output_hashes = output_hashes,
                      ar_output_envelope_hash = output_envelope_hash,
                      ar_artifact_digest = artifact_digest sha256 (id_digest identity) node
                        (ex_implementation_digest executor) input_artifacts output_hashes output_envelope_hash\<rparr>\<rparr>))"

section \<open>The graph\<close>

type_synonym output_map = "(ulid \<times> string, native_port_value) btree_map"
type_synonym artifact_map = "(ulid, native_node_artifact) btree_map"

text \<open>
  A registry is filled one insertion at a time; an insertion that replaces an entry is refused.
  External inputs and executors are registered by the same loop.
\<close>

fun register_unique :: "('a \<Rightarrow> 'k::linorder) \<Rightarrow> 'a list \<Rightarrow> ('k, 'a) btree_map \<Rightarrow> ('k, 'a) btree_map runtime_result" where
  "register_unique key [] registry = Ok registry"
| "register_unique key (x # xs) registry =
     (if map_of registry (key x) \<noteq> None then Err invalid
      else register_unique key xs (bt_insert (key x) x registry))"

fun check_declarations ::
  "graph_external_input list \<Rightarrow> reproducibility_identity \<Rightarrow> (string, execution_external_input) btree_map \<Rightarrow>
   unit runtime_result" where
  "check_declarations [] identity registry = Ok ()"
| "check_declarations (declaration # declarations) identity registry =
     and_then (ok_or (map_of registry (gi_input_id declaration)) broken) (\<lambda>actual.
     and_then (ok_or (case binary_search xi_input_id (id_external_inputs identity) (gi_input_id declaration)
                        0 (length (id_external_inputs identity)) of
                        Some index \<Rightarrow> vec_get (id_external_inputs identity) index
                      | None \<Rightarrow> None) broken) (\<lambda>frozen.
     if xi_value_type actual \<noteq> gi_value_type declaration
       \<or> xi_value_type actual \<noteq> xi_value_type frozen
       \<or> xi_content_hash actual \<noteq> xi_content_hash frozen
     then Err hash_mismatch
     else check_declarations declarations identity registry))"

definition external_input_registry ::
  "research_graph \<Rightarrow> reproducibility_identity \<Rightarrow> execution_external_input list \<Rightarrow>
   (string, execution_external_input) btree_map runtime_result" where
  "external_input_registry graph identity external_inputs =
     (if length external_inputs \<noteq> length (rg_external_inputs graph) then Err invalid
      else
        and_then (register_unique xi_input_id external_inputs []) (\<lambda>registry.
        and_then (check_declarations (rg_external_inputs graph) identity registry) (\<lambda>_.
        Ok registry)))"

definition executor_registry :: "native_node list \<Rightarrow> (ulid, native_node) btree_map runtime_result" where
  "executor_registry executors = register_unique ex_node_id executors []"

definition research_nodes :: "research_graph \<Rightarrow> node_map" where
  "research_nodes graph = bt_collect (map (\<lambda>node. (nd_node_id node, node)) (rg_nodes graph))"

text \<open>The two loops that assemble the inputs of one node, each over the filtered vector.\<close>

fun gather_edges ::
  "sha256_fn \<Rightarrow> output_map \<Rightarrow> artifact_map \<Rightarrow> research_edge list \<Rightarrow>
   native_port_value list \<times> content_hash list \<Rightarrow> (native_port_value list \<times> content_hash list) runtime_result" where
  "gather_edges sha256 outputs artifacts [] gathered = Ok gathered"
| "gather_edges sha256 outputs artifacts (edge # edges) (inputs, input_artifacts) =
     and_then (ok_or (map_of outputs (ed_from_node edge, ed_from_port edge)) broken) (\<lambda>source.
     and_then (native_port_value_new sha256 (ed_to_port edge) (pv_value_type source) (pv_payload source)) (\<lambda>v.
     and_then (ok_or (map_of artifacts (ed_from_node edge)) broken) (\<lambda>artifact.
     gather_edges sha256 outputs artifacts edges
       (inputs @ [v], input_artifacts @ [ar_artifact_digest artifact]))))"

fun gather_external ::
  "sha256_fn \<Rightarrow> (string, execution_external_input) btree_map \<Rightarrow> graph_external_input_binding list \<Rightarrow>
   native_port_value list \<times> content_hash list \<Rightarrow> (native_port_value list \<times> content_hash list) runtime_result" where
  "gather_external sha256 registry [] gathered = Ok gathered"
| "gather_external sha256 registry (binding # bindings) (inputs, input_artifacts) =
     and_then (ok_or (map_of registry (gb_input_id binding)) broken) (\<lambda>external.
     and_then (native_port_value_new sha256 (gb_to_port binding) (xi_value_type external) (xi_payload external)) (\<lambda>v.
     gather_external sha256 registry bindings
       (inputs @ [v], input_artifacts @ [xi_content_hash external])))"

definition execute_step ::
  "sha256_fn \<Rightarrow> research_graph \<Rightarrow> reproducibility_identity \<Rightarrow> (string, execution_external_input) btree_map \<Rightarrow>
   (ulid, native_node) btree_map \<Rightarrow> node_map \<Rightarrow> ulid \<Rightarrow> output_map \<times> artifact_map \<Rightarrow>
   (output_map \<times> artifact_map) runtime_result" where
  "execute_step sha256 graph reproducibility external_registry registry nodes node_id st =
     (case st of (outputs, artifacts) \<Rightarrow>
     and_then (ok_or (map_of nodes node_id) broken) (\<lambda>node.
     and_then (ok_or (map_of registry node_id) broken) (\<lambda>executor.
     and_then (gather_edges sha256 outputs artifacts
                 (filter (\<lambda>edge. ed_to_node edge = node_id) (rg_edges graph)) ([], [])) (\<lambda>gathered.
     and_then (gather_external sha256 external_registry
                 (filter (\<lambda>binding. gb_to_node binding = node_id) (rg_external_input_bindings graph)) gathered)
       (\<lambda>(inputs, input_artifacts).
     and_then (execute_native_node sha256 node reproducibility executor inputs input_artifacts) (\<lambda>execution.
     Ok (fold (\<lambda>output m. bt_insert (node_id, pv_port_name output) output m) (nx_outputs execution) outputs,
         bt_insert node_id (nx_artifact execution) artifacts)))))))"

fun execute_loop ::
  "(ulid \<Rightarrow> output_map \<times> artifact_map \<Rightarrow> (output_map \<times> artifact_map) runtime_result) \<Rightarrow> ulid list \<Rightarrow>
   output_map \<times> artifact_map \<Rightarrow> (output_map \<times> artifact_map) runtime_result" where
  "execute_loop step [] st = Ok st"
| "execute_loop step (node_id # order) st = and_then (step node_id st) (\<lambda>st. execute_loop step order st)"

text \<open>\<open>artifacts.remove(id)\<close> for each id of the order.\<close>

fun take_artifacts :: "ulid list \<Rightarrow> artifact_map \<Rightarrow> native_node_artifact list runtime_result" where
  "take_artifacts [] artifacts = Ok []"
| "take_artifacts (i # order) artifacts =
     and_then (ok_or (map_of artifacts i) broken) (\<lambda>artifact.
     and_then (take_artifacts order (filter (\<lambda>(k, _). k \<noteq> i) artifacts)) (\<lambda>rest.
     Ok (artifact # rest)))"

definition execute_native_graph_with_external_inputs ::
  "sha256_fn \<Rightarrow> research_graph \<Rightarrow> execution_instance_identity \<Rightarrow> native_node list \<Rightarrow>
   execution_external_input list \<Rightarrow> native_execution_result runtime_result" where
  "execute_native_graph_with_external_inputs sha256 graph identity executors external_inputs =
     (let reproducibility = ii_reproducibility identity in
      if id_graph_digest reproducibility \<noteq> rg_digest graph \<or> length executors \<noteq> length (rg_nodes graph)
      then Err invalid
      else
        and_then (external_input_registry graph reproducibility external_inputs) (\<lambda>external_registry.
        and_then (executor_registry executors) (\<lambda>registry.
        let nodes = research_nodes graph in
        and_then (execute_loop (execute_step sha256 graph reproducibility external_registry registry nodes)
                    (rg_topological_order graph) ([], [])) (\<lambda>(outputs, artifacts).
        and_then (take_artifacts (rg_topological_order graph) artifacts) (\<lambda>ordered.
        Ok \<lparr>xr_identity = identity, xr_artifacts = ordered,
            xr_result_digest = result_digest sha256 (id_digest reproducibility) ordered\<rparr>)))))"

definition execute_native_graph ::
  "sha256_fn \<Rightarrow> research_graph \<Rightarrow> execution_instance_identity \<Rightarrow> native_node list \<Rightarrow>
   native_execution_result runtime_result" where
  "execute_native_graph sha256 graph identity executors =
     execute_native_graph_with_external_inputs sha256 graph identity executors []"

section \<open>Registries\<close>

lemma register_unique_fold:
  "register_unique key xs m =
     (if distinct (map key xs) \<and> (\<forall>x \<in> set xs. map_of m (key x) = None)
      then Ok (fold (\<lambda>(k, v) m. bt_insert k v m) (map (\<lambda>x. (key x, x)) xs) m) else Err invalid)"
  by (induction key xs m rule: register_unique.induct) (auto simp: image_iff, metis)

lemma register_unique_eq:
  "register_unique key xs [] =
     (if distinct (map key xs) then Ok (bt_collect (map (\<lambda>x. (key x, x)) xs)) else Err invalid)"
  by (simp add: register_unique_fold bt_collect_def)

lemma register_unique_perm:
  assumes "mset xs = mset ys"
  shows "register_unique key xs [] = register_unique key ys []"
proof -
  have "distinct (map key xs) \<longleftrightarrow> distinct (map key ys)"
    using assms by (metis mset_eq_imp_distinct_iff mset_map)
  moreover have "bt_collect (map (\<lambda>x. (key x, x)) xs) = bt_collect (map (\<lambda>x. (key x, x)) ys)"
    if "distinct (map key xs)"
    by (rule bt_collect_perm) (use assms that in \<open>simp_all add: comp_def\<close>)
  ultimately show ?thesis by (simp add: register_unique_eq)
qed

lemma register_unique_get:
  "register_unique key xs [] = Ok m \<Longrightarrow> map_of m k = Some x \<longleftrightarrow> x \<in> set xs \<and> key x = k"
  by (auto simp: register_unique_eq bt_keyed_lookup split: if_splits)

lemma execution_perm:
  assumes "mset executors = mset executors'" "mset external_inputs = mset external_inputs'"
  shows "execute_native_graph_with_external_inputs sha256 graph identity executors external_inputs =
    execute_native_graph_with_external_inputs sha256 graph identity executors' external_inputs'"
proof -
  have "length executors = length executors'" "length external_inputs = length external_inputs'"
    using assms mset_eq_length by blast+
  moreover have "executor_registry executors = executor_registry executors'"
    unfolding executor_registry_def by (rule register_unique_perm [OF assms(1)])
  moreover have "external_input_registry graph r external_inputs = external_input_registry graph r external_inputs'" for r
    using register_unique_perm [OF assms(2), of xi_input_id] calculation(2)
    by (simp add: external_input_registry_def)
  ultimately show ?thesis by (simp add: execute_native_graph_with_external_inputs_def Let_def)
qed

text \<open>
  Neither the order of the executors nor the order of the external inputs a caller
  passes changes the outcome of an execution, be it a result or an error.
\<close>

theorem execution_order_independent:
  assumes "mset executors = mset executors'" "mset external_inputs = mset external_inputs'"
  shows "execute_native_graph_with_external_inputs sha256 graph identity executors external_inputs =
    execute_native_graph_with_external_inputs sha256 graph identity executors' external_inputs'"
  by (rule execution_perm [OF assms])

text \<open>The external inputs an execution accepts are the frozen ones.\<close>

lemma check_declarations_Ok:
  assumes "sorted_wrt (<) (map xi_input_id (id_external_inputs identity))"
  shows "check_declarations ds identity registry = Ok u \<longleftrightarrow>
    (\<forall>d \<in> set ds. \<exists>a f. map_of registry (gi_input_id d) = Some a \<and> f \<in> set (id_external_inputs identity) \<and>
       xi_input_id f = gi_input_id d \<and> xi_value_type a = gi_value_type d \<and>
       xi_value_type a = xi_value_type f \<and> xi_content_hash a = xi_content_hash f)"
proof (induction ds)
  case Nil
  then show ?case by simp
next
  case (Cons d ds)
  let ?xs = "id_external_inputs identity"
  let ?frozen = "case binary_search xi_input_id ?xs (gi_input_id d) 0 (length ?xs) of Some i \<Rightarrow> vec_get ?xs i | None \<Rightarrow> None"
  have frozen: "?frozen = Some f \<longleftrightarrow> f \<in> set ?xs \<and> xi_input_id f = gi_input_id d" for f
  proof
    assume "?frozen = Some f"
    then show "f \<in> set ?xs \<and> xi_input_id f = gi_input_id d"
      by (auto split: option.splits dest: binary_search_sound)
  next
    assume "f \<in> set ?xs \<and> xi_input_id f = gi_input_id d"
    then obtain i where "i < length ?xs" "?xs ! i = f" "xi_input_id (?xs ! i) = gi_input_id d"
      by (auto simp: in_set_conv_nth)
    then show "?frozen = Some f"
      using binary_search_complete [OF assms, of "length ?xs" 0 i] by simp
  qed
  have "check_declarations (d # ds) identity registry = Ok u \<longleftrightarrow>
      (\<exists>a f. map_of registry (gi_input_id d) = Some a \<and> ?frozen = Some f \<and> xi_value_type a = gi_value_type d \<and>
         xi_value_type a = xi_value_type f \<and> xi_content_hash a = xi_content_hash f) \<and>
      check_declarations ds identity registry = Ok u"
    by (auto simp only: check_declarations.simps and_then_eq_Ok ok_or_eq_Ok split: if_splits)
  then show ?case unfolding frozen Cons.IH by auto
qed

section \<open>The inputs of one node\<close>

definition port_text :: "string \<Rightarrow> bool" where
  "port_text p \<longleftrightarrow> p \<noteq> [] \<and> trim p = p"

text \<open>What \<open>NativePortValue::new\<close> builds when it accepts.\<close>

definition port_value_of :: "sha256_fn \<Rightarrow> string \<Rightarrow> typed_value \<Rightarrow> bytes \<Rightarrow> native_port_value" where
  "port_value_of sha256 p t b = \<lparr>pv_port_name = p, pv_value_type = t, pv_payload = b, pv_content_hash = sha256 b\<rparr>"

lemma native_port_value_new_eq:
  "native_port_value_new sha256 p t b = (if port_text p \<and> b \<noteq> [] then Ok (port_value_of sha256 p t b) else Err invalid)"
  by (auto simp: native_port_value_new_def port_text_def port_value_of_def)

abbreviation edge_source :: "output_map \<Rightarrow> research_edge \<Rightarrow> native_port_value option" where
  "edge_source outputs e \<equiv> map_of outputs (ed_from_node e, ed_from_port e)"

definition edge_input :: "sha256_fn \<Rightarrow> output_map \<Rightarrow> research_edge \<Rightarrow> native_port_value" where
  "edge_input sha256 outputs e =
     (let s = the (edge_source outputs e) in port_value_of sha256 (ed_to_port e) (pv_value_type s) (pv_payload s))"

lemma gather_edges_Ok:
  "gather_edges sha256 outputs artifacts es (ins, ars) = Ok g \<longleftrightarrow>
     (\<forall>e \<in> set es. (\<exists>s. edge_source outputs e = Some s \<and> pv_payload s \<noteq> []) \<and> port_text (ed_to_port e) \<and>
        map_of artifacts (ed_from_node e) \<noteq> None) \<and>
     g = (ins @ map (edge_input sha256 outputs) es,
          ars @ map (\<lambda>e. ar_artifact_digest (the (map_of artifacts (ed_from_node e)))) es)"
proof (induction es arbitrary: ins ars)
  case Nil
  then show ?case by auto
next
  case (Cons e es)
  show ?case
  proof (cases "edge_source outputs e")
    case None
    then show ?thesis by simp
  next
    case (Some s)
    show ?thesis
    proof (cases "map_of artifacts (ed_from_node e)")
      case None
      then show ?thesis using Some by (auto simp: and_then_eq_Ok)
    next
      case (Some b)
      then show ?thesis using \<open>edge_source outputs e = Some s\<close>
        by (auto simp: native_port_value_new_eq Cons.IH edge_input_def)
    qed
  qed
qed

definition external_input_value ::
  "sha256_fn \<Rightarrow> (string, execution_external_input) btree_map \<Rightarrow> graph_external_input_binding \<Rightarrow> native_port_value" where
  "external_input_value sha256 registry b =
     (let x = the (map_of registry (gb_input_id b)) in
      port_value_of sha256 (gb_to_port b) (xi_value_type x) (xi_payload x))"

lemma gather_external_Ok:
  "gather_external sha256 registry bs (ins, ars) = Ok g \<longleftrightarrow>
     (\<forall>b \<in> set bs. (\<exists>x. map_of registry (gb_input_id b) = Some x \<and> xi_payload x \<noteq> []) \<and> port_text (gb_to_port b)) \<and>
     g = (ins @ map (external_input_value sha256 registry) bs,
          ars @ map (\<lambda>b. xi_content_hash (the (map_of registry (gb_input_id b)))) bs)"
proof (induction bs arbitrary: ins ars)
  case Nil
  then show ?case by auto
next
  case (Cons b bs)
  show ?case
  proof (cases "map_of registry (gb_input_id b)")
    case None
    then show ?thesis by simp
  next
    case (Some x)
    then show ?thesis by (auto simp: native_port_value_new_eq Cons.IH external_input_value_def)
  qed
qed

text \<open>The comparison with the declared ports, and the outcome of one node.\<close>

abbreviation value_port :: "native_port_value \<Rightarrow> string \<times> typed_value" where
  "value_port v \<equiv> (pv_port_name v, pv_value_type v)"

abbreviation declared_port :: "port_type \<Rightarrow> string \<times> typed_value" where
  "declared_port p \<equiv> (pt_port_name p, pt_value_type p)"

lemma ports_match_iff: "ports_match vs ps \<longleftrightarrow> map value_port vs = map declared_port ps"
  using zip_all_eq [of vs ps value_port declared_port] by (simp add: ports_match_def)

definition node_execution ::
  "sha256_fn \<Rightarrow> research_node \<Rightarrow> reproducibility_identity \<Rightarrow> native_node \<Rightarrow> content_hash list \<Rightarrow>
   native_port_value list \<Rightarrow> native_node_execution" where
  "node_execution sha256 node identity executor input_artifacts outputs =
     (let outs = sort_key pv_port_name outputs;
          ins = remdups_adj (sort input_artifacts);
          hashes = map pv_content_hash outs;
          envelope = canonical_output_bytes outs
      in \<lparr>nx_outputs = outs, nx_output_envelope = envelope,
          nx_artifact = \<lparr>ar_node_id = nd_node_id node, ar_contract_digest = ct_digest (nd_contract node),
            ar_implementation_digest = ex_implementation_digest executor, ar_input_artifacts = ins,
            ar_output_hashes = hashes, ar_output_envelope_hash = sha256 envelope,
            ar_artifact_digest = artifact_digest sha256 (id_digest identity) node
              (ex_implementation_digest executor) ins hashes (sha256 envelope)\<rparr>\<rparr>)"

abbreviation node_request ::
  "research_node \<Rightarrow> reproducibility_identity \<Rightarrow> native_port_value list \<Rightarrow> native_node_request" where
  "node_request node identity inputs \<equiv>
     \<lparr>nr_node = node, nr_identity = identity, nr_inputs = sort_key pv_port_name inputs\<rparr>"

lemma execute_native_node_Ok:
  "execute_native_node sha256 node identity executor inputs input_artifacts = Ok x \<longleftrightarrow>
     ex_node_id executor = nd_node_id node \<and>
     identity_implementation identity (nd_node_id node) = Some (ex_implementation_digest executor) \<and>
     ports_match (sort_key pv_port_name inputs) (ct_input_types (nd_contract node)) \<and>
     (\<exists>outputs. ex_execute executor (node_request node identity inputs) = Ok outputs \<and>
        ports_match (sort_key pv_port_name outputs) (ct_output_types (nd_contract node)) \<and>
        x = node_execution sha256 node identity executor input_artifacts outputs)"
  by (auto simp: execute_native_node_def Let_def and_then_eq_Ok node_execution_def)

section \<open>Lineage of a successful execution\<close>

abbreviation incoming :: "research_graph \<Rightarrow> ulid \<Rightarrow> research_edge list" where
  "incoming g i \<equiv> filter (\<lambda>e. ed_to_node e = i) (rg_edges g)"

abbreviation bound_inputs :: "research_graph \<Rightarrow> ulid \<Rightarrow> graph_external_input_binding list" where
  "bound_inputs g i \<equiv> filter (\<lambda>b. gb_to_node b = i) (rg_external_input_bindings g)"

definition step_inputs ::
  "sha256_fn \<Rightarrow> research_graph \<Rightarrow> (string, execution_external_input) btree_map \<Rightarrow> output_map \<Rightarrow> ulid \<Rightarrow> native_port_value list" where
  "step_inputs sha256 g xreg outs i =
     map (edge_input sha256 outs) (incoming g i) @ map (external_input_value sha256 xreg) (bound_inputs g i)"

definition step_artifacts ::
  "research_graph \<Rightarrow> (string, execution_external_input) btree_map \<Rightarrow> artifact_map \<Rightarrow> ulid \<Rightarrow> content_hash list" where
  "step_artifacts g xreg arts i =
     map (\<lambda>e. ar_artifact_digest (the (map_of arts (ed_from_node e)))) (incoming g i) @
     map (\<lambda>b. xi_content_hash (the (map_of xreg (gb_input_id b)))) (bound_inputs g i)"

lemma execute_step_Ok:
  "execute_step sha256 g r xreg reg nodes i (outs, arts) = Ok st \<longleftrightarrow>
     (\<exists>node ex x. map_of nodes i = Some node \<and> map_of reg i = Some ex \<and>
        (\<forall>e \<in> set (incoming g i). (\<exists>s. edge_source outs e = Some s \<and> pv_payload s \<noteq> []) \<and>
           port_text (ed_to_port e) \<and> map_of arts (ed_from_node e) \<noteq> None) \<and>
        (\<forall>b \<in> set (bound_inputs g i). (\<exists>x. map_of xreg (gb_input_id b) = Some x \<and> xi_payload x \<noteq> []) \<and>
           port_text (gb_to_port b)) \<and>
        execute_native_node sha256 node r ex (step_inputs sha256 g xreg outs i) (step_artifacts g xreg arts i) = Ok x \<and>
        st = (fold (\<lambda>v m. bt_insert (i, pv_port_name v) v m) (nx_outputs x) outs, bt_insert i (nx_artifact x) arts))"
  unfolding execute_step_def step_inputs_def step_artifacts_def
  by (simp only: prod.case and_then_eq_Ok ok_or_eq_Ok gather_edges_Ok) (auto simp: gather_external_Ok and_then_eq_Ok)

definition artifact_lineage ::
  "sha256_fn \<Rightarrow> research_graph \<Rightarrow> reproducibility_identity \<Rightarrow> execution_external_input list \<Rightarrow> native_node_artifact list \<Rightarrow>
   native_node_artifact \<Rightarrow> bool" where
  "artifact_lineage sha256 g r inputs prev a \<longleftrightarrow>
     (\<exists>node \<in> set (rg_nodes g). nd_node_id node = ar_node_id a \<and> ar_contract_digest a = ct_digest (nd_contract node) \<and>
        length (ar_output_hashes a) = length (ct_output_types (nd_contract node))) \<and>
     identity_implementation r (ar_node_id a) = Some (ar_implementation_digest a) \<and>
     ar_artifact_digest a = sha256 (artifact_record_bytes (id_digest r) a) \<and>
     (\<forall>e \<in> set (incoming g (ar_node_id a)). ed_from_node e \<in> ar_node_id ` set prev) \<and>
     sorted_wrt (<) (ar_input_artifacts a) \<and>
     set (ar_input_artifacts a) =
       {ar_artifact_digest b | b e. b \<in> set prev \<and> e \<in> set (incoming g (ar_node_id a)) \<and> ed_from_node e = ar_node_id b} \<union>
       {xi_content_hash x | x b. x \<in> set inputs \<and> b \<in> set (bound_inputs g (ar_node_id a)) \<and> gb_input_id b = xi_input_id x}"

lemma sorted_dedup: "sorted_wrt (<) (remdups_adj (sort (xs :: 'a::linorder list)))"
proof -
  have "distinct (remdups_adj ys)" if "sorted ys" for ys :: "'a list"
    using that by (induction ys rule: remdups_adj.induct) auto
  then show ?thesis by (simp add: strict_sorted_iff sorted_remdups_adj)
qed

text \<open>The artifact map holds exactly the artifacts of the nodes run so far.\<close>

definition holds_artifacts :: "native_node_artifact list \<Rightarrow> artifact_map \<Rightarrow> bool" where
  "holds_artifacts prev arts \<longleftrightarrow> (\<forall>k b. map_of arts k = Some b \<longleftrightarrow> b \<in> set prev \<and> ar_node_id b = k)"

lemma holds_artifacts_insert:
  assumes "holds_artifacts prev arts" "ar_node_id a = i" "i \<notin> ar_node_id ` set prev"
  shows "holds_artifacts (prev @ [a]) (bt_insert i a arts)"
  using assms unfolding holds_artifacts_def by (auto, metis image_eqI)

lemma looked_up_image:
  assumes "\<And>k x. m k = Some x \<longleftrightarrow> x \<in> S \<and> key x = k" "\<forall>e \<in> E. m (h e) \<noteq> None"
  shows "{f b | b e. b \<in> S \<and> e \<in> E \<and> h e = key b} = (\<lambda>e. f (the (m (h e)))) ` E"
proof (intro equalityI subsetI)
  fix y
  assume "y \<in> {f b | b e. b \<in> S \<and> e \<in> E \<and> h e = key b}"
  then obtain b e where be: "y = f b" "b \<in> S" "e \<in> E" "h e = key b" by blast
  then have "m (h e) = Some b" using assms(1) [of "h e" b] by simp
  with be show "y \<in> (\<lambda>e. f (the (m (h e)))) ` E" by (intro image_eqI [of _ _ e]) simp_all
next
  fix y
  assume "y \<in> (\<lambda>e. f (the (m (h e)))) ` E"
  then obtain e where e: "e \<in> E" "y = f (the (m (h e)))" by blast
  then obtain b where "m (h e) = Some b" using assms(2) by blast
  moreover from this have "b \<in> S" "key b = h e" using assms(1) [of "h e" b] by simp_all
  ultimately show "y \<in> {f b | b e. b \<in> S \<and> e \<in> E \<and> h e = key b}"
    using e by (intro CollectI exI [of _ b] exI [of _ e]) simp
qed

lemma execute_step_lineage:
  assumes step: "execute_step sha256 g r xreg reg (research_nodes g) i (outs, arts) = Ok st"
    and g: "distinct (map nd_node_id (rg_nodes g))"
    and xreg: "\<And>k x. map_of xreg k = Some x \<longleftrightarrow> x \<in> set inputs \<and> xi_input_id x = k"
    and prev: "holds_artifacts prev arts" "i \<notin> ar_node_id ` set prev"
  shows "\<exists>a. ar_node_id a = i \<and> artifact_lineage sha256 g r inputs prev a \<and> holds_artifacts (prev @ [a]) (snd st)"
proof -
  obtain node ex x where node: "map_of (research_nodes g) i = Some node"
    and edges: "\<forall>e \<in> set (incoming g i). map_of arts (ed_from_node e) \<noteq> None"
    and binds: "\<forall>b \<in> set (bound_inputs g i). map_of xreg (gb_input_id b) \<noteq> None"
    and run: "execute_native_node sha256 node r ex (step_inputs sha256 g xreg outs i) (step_artifacts g xreg arts i) = Ok x"
    and st: "st = (fold (\<lambda>v m. bt_insert (i, pv_port_name v) v m) (nx_outputs x) outs, bt_insert i (nx_artifact x) arts)"
    using step unfolding execute_step_Ok by blast
  have n: "node \<in> set (rg_nodes g)" "nd_node_id node = i"
    using node g by (simp_all add: research_nodes_def bt_keyed_lookup)
  obtain outputs where x: "x = node_execution sha256 node r ex (step_artifacts g xreg arts i) outputs"
    and impl: "identity_implementation r i = Some (ex_implementation_digest ex)"
    and match: "ports_match (sort_key pv_port_name outputs) (ct_output_types (nd_contract node))"
    using run n unfolding execute_native_node_Ok by auto
  let ?a = "nx_artifact x"
  have a: "ar_node_id ?a = i" "ar_contract_digest ?a = ct_digest (nd_contract node)"
      "ar_implementation_digest ?a = ex_implementation_digest ex"
      "ar_input_artifacts ?a = remdups_adj (sort (step_artifacts g xreg arts i))"
      "ar_artifact_digest ?a = sha256 (artifact_record_bytes (id_digest r) ?a)"
      "length (ar_output_hashes ?a) = length (ct_output_types (nd_contract node))"
    using match
    by (simp_all add: ports_match_def x node_execution_def Let_def n artifact_digest_def artifact_bytes_def artifact_record_bytes_def)
  have up: "{ar_artifact_digest b | b e. b \<in> set prev \<and> e \<in> set (incoming g i) \<and> ed_from_node e = ar_node_id b} =
      (\<lambda>e. ar_artifact_digest (the (map_of arts (ed_from_node e)))) ` set (incoming g i)"
    by (rule looked_up_image [of "map_of arts", OF _ edges]) (use prev(1) in \<open>simp add: holds_artifacts_def\<close>)
  have ext: "{xi_content_hash x | x b. x \<in> set inputs \<and> b \<in> set (bound_inputs g i) \<and> gb_input_id b = xi_input_id x} =
      (\<lambda>b. xi_content_hash (the (map_of xreg (gb_input_id b)))) ` set (bound_inputs g i)"
    by (rule looked_up_image [of "map_of xreg", OF xreg binds])
  have "set (ar_input_artifacts ?a) =
      (\<lambda>e. ar_artifact_digest (the (map_of arts (ed_from_node e)))) ` set (incoming g i) \<union>
      (\<lambda>b. xi_content_hash (the (map_of xreg (gb_input_id b)))) ` set (bound_inputs g i)"
    unfolding a by (simp add: step_artifacts_def)
  moreover have "\<forall>e \<in> set (incoming g i). ed_from_node e \<in> ar_node_id ` set prev"
  proof
    fix e
    assume "e \<in> set (incoming g i)"
    then obtain b where "map_of arts (ed_from_node e) = Some b" using edges by blast
    then have "b \<in> set prev \<and> ar_node_id b = ed_from_node e" using prev(1) by (simp add: holds_artifacts_def)
    then show "ed_from_node e \<in> ar_node_id ` set prev" by (metis image_eqI)
  qed
  ultimately have "artifact_lineage sha256 g r inputs prev ?a"
    unfolding artifact_lineage_def a(1) up ext using a n impl sorted_dedup by auto
  then show ?thesis using a(1) holds_artifacts_insert [OF prev(1) a(1) prev(2)] st by auto
qed

lemma execute_loop_lineage:
  assumes "execute_loop (execute_step sha256 g r xreg reg (research_nodes g)) order st = Ok st'"
    and g: "distinct (map nd_node_id (rg_nodes g))"
    and xreg: "\<And>k x. map_of xreg k = Some x \<longleftrightarrow> x \<in> set inputs \<and> xi_input_id x = k"
    and "holds_artifacts prev (snd st)" "distinct (map ar_node_id prev @ order)"
  shows "\<exists>new. map ar_node_id new = order \<and> holds_artifacts (prev @ new) (snd st') \<and>
    (\<forall>k < length new. artifact_lineage sha256 g r inputs (prev @ take k new) (new ! k))"
  using assms(1,4,5)
proof (induction order arbitrary: st prev)
  case Nil
  then show ?case by simp
next
  case (Cons i order)
  obtain outs arts where st: "st = (outs, arts)" by (cases st)
  obtain st1 where step: "execute_step sha256 g r xreg reg (research_nodes g) i (outs, arts) = Ok st1"
    and rest: "execute_loop (execute_step sha256 g r xreg reg (research_nodes g)) order st1 = Ok st'"
    using Cons.prems(1) by (auto simp: and_then_eq_Ok st)
  have "i \<notin> ar_node_id ` set prev" using Cons.prems(3) by auto
  then obtain a where a: "ar_node_id a = i" "artifact_lineage sha256 g r inputs prev a" "holds_artifacts (prev @ [a]) (snd st1)"
    using execute_step_lineage [OF step g xreg] Cons.prems(2) st by auto
  have "distinct (map ar_node_id (prev @ [a]) @ order)" using Cons.prems(3) a(1) by auto
  then obtain new where new: "map ar_node_id new = order" "holds_artifacts ((prev @ [a]) @ new) (snd st')"
      "\<forall>k < length new. artifact_lineage sha256 g r inputs ((prev @ [a]) @ take k new) (new ! k)"
    using Cons.IH [OF rest a(3)] by blast
  have "\<forall>k < length (a # new). artifact_lineage sha256 g r inputs (prev @ take k (a # new)) ((a # new) ! k)"
    using new(3) a(2) by (auto simp: less_Suc_eq_0_disj)
  then show ?case using new(1,2) a(1) by (intro exI [of _ "a # new"]) simp
qed

lemma map_of_removed: "k \<noteq> i \<Longrightarrow> map_of (filter (\<lambda>(k, _). k \<noteq> i) m) k = map_of m k"
  by (induction m) auto

lemma take_artifacts_Ok:
  assumes "distinct (map ar_node_id new)" "\<forall>a \<in> set new. map_of arts (ar_node_id a) = Some a"
  shows "take_artifacts (map ar_node_id new) arts = Ok new"
  using assms
proof (induction new arbitrary: arts)
  case (Cons a new)
  have "\<forall>b \<in> set new. map_of (filter (\<lambda>(k, _). k \<noteq> ar_node_id a) arts) (ar_node_id b) = Some b"
    using Cons.prems by (auto simp: map_of_removed image_iff)
  then show ?case using Cons by simp
qed simp

lemma execution_Ok_unfold:
  assumes "execute_native_graph_with_external_inputs sha256 g identity executors inputs = Ok result"
    "graph_ok sha256 g"
  shows "\<exists>xreg reg st. external_input_registry g (ii_reproducibility identity) inputs = Ok xreg \<and>
    executor_registry executors = Ok reg \<and>
    execute_loop (execute_step sha256 g (ii_reproducibility identity) xreg reg (research_nodes g))
      (rg_topological_order g) ([], []) = Ok st \<and>
    take_artifacts (rg_topological_order g) (snd st) = Ok (xr_artifacts result) \<and>
    id_graph_digest (ii_reproducibility identity) = rg_digest g \<and>
    xr_identity result = identity \<and>
    xr_result_digest result = result_digest sha256 (id_digest (ii_reproducibility identity)) (xr_artifacts result)"
  using assms(1)
  by (auto simp: execute_native_graph_with_external_inputs_def Let_def and_then_eq_Ok split: if_splits)

lemma execution_lineage:
  assumes "graph_ok sha256 g"
    and "execute_native_graph_with_external_inputs sha256 g identity executors inputs = Ok result"
  shows "map ar_node_id (xr_artifacts result) = rg_topological_order g \<and>
    (\<forall>k < length (xr_artifacts result).
       artifact_lineage sha256 g (ii_reproducibility identity) inputs (take k (xr_artifacts result)) (xr_artifacts result ! k)) \<and>
    xr_identity result = identity \<and>
    xr_result_digest result = sha256 (result_bytes (id_digest (ii_reproducibility identity)) (xr_artifacts result))"
proof -
  obtain xreg reg st where xreg: "external_input_registry g (ii_reproducibility identity) inputs = Ok xreg"
    and loop: "execute_loop (execute_step sha256 g (ii_reproducibility identity) xreg reg (research_nodes g))
        (rg_topological_order g) ([], []) = Ok st"
    and arts: "take_artifacts (rg_topological_order g) (snd st) = Ok (xr_artifacts result)"
    and rest: "xr_identity result = identity"
        "xr_result_digest result = result_digest sha256 (id_digest (ii_reproducibility identity)) (xr_artifacts result)"
    using execution_Ok_unfold [OF assms(2,1)] by blast
  have reg: "map_of xreg k = Some x \<longleftrightarrow> x \<in> set inputs \<and> xi_input_id x = k" for k x
    using xreg by (auto simp: external_input_registry_def and_then_eq_Ok register_unique_get split: if_splits)
  have g: "distinct (map nd_node_id (rg_nodes g))" "distinct (map ar_node_id [] @ rg_topological_order g)"
    using assms(1) by (simp_all add: graph_ok_def strict_sorted_iff)
  have "holds_artifacts [] (snd ([], []))" by (simp add: holds_artifacts_def)
  then obtain new where new: "map ar_node_id new = rg_topological_order g" "holds_artifacts new (snd st)"
      "\<forall>k < length new. artifact_lineage sha256 g (ii_reproducibility identity) inputs (take k new) (new ! k)"
    using execute_loop_lineage [OF loop g(1) reg _ g(2)] by auto
  have "take_artifacts (map ar_node_id new) (snd st) = Ok new"
    by (rule take_artifacts_Ok) (use new g(2) in \<open>auto simp: holds_artifacts_def\<close>)
  then have "new = xr_artifacts result" using arts new(1) by simp
  then show ?thesis using new rest by (simp add: result_digest_def)
qed

text \<open>
  C2: a successful execution has exactly one artifact per node, in the graph's
  topological order. Each artifact names its node's contract and the implementation the identity
  froze and has one hash per declared output, every edge into its node comes from a node executed earlier, and its recorded inputs are,
  sorted and without repetition, exactly the artifact digests of those upstream nodes and the
  content hashes of the external inputs bound to the node. Its digest is the hash of all of this,
  of the output hashes and of the identity; the result digest covers the artifacts in order.
\<close>

theorem execution_records_lineage:
  assumes "graph_ok sha256 g"
    and "execute_native_graph_with_external_inputs sha256 g identity executors inputs = Ok result"
  shows "map ar_node_id (xr_artifacts result) = rg_topological_order g \<and>
    (\<forall>k < length (xr_artifacts result).
       artifact_lineage sha256 g (ii_reproducibility identity) inputs (take k (xr_artifacts result)) (xr_artifacts result ! k)) \<and>
    xr_identity result = identity \<and>
    xr_result_digest result = sha256 (result_bytes (id_digest (ii_reproducibility identity)) (xr_artifacts result))"
  by (rule execution_lineage [OF assms])

section \<open>Execution succeeds when the executors honour their contracts\<close>

text \<open>
  The contract of an executor for a node: for inputs that are exactly the declared ports it
  returns exactly the declared outputs, in any order, as values with a payload.
\<close>

definition honours :: "reproducibility_identity \<Rightarrow> research_node \<Rightarrow> native_node \<Rightarrow> bool" where
  "honours r node ex \<longleftrightarrow>
     (\<forall>inputs. map value_port inputs = map declared_port (ct_input_types (nd_contract node)) \<longrightarrow>
        (\<exists>outputs. ex_execute ex \<lparr>nr_node = node, nr_identity = r, nr_inputs = inputs\<rparr> = Ok outputs \<and>
           mset (map value_port outputs) = mset (map declared_port (ct_output_types (nd_contract node))) \<and>
           (\<forall>v \<in> set outputs. pv_payload v \<noteq> [])))"

lemma sorted_values_match:
  assumes "ports_ok ports" "mset (map value_port vs) = mset (map declared_port ports)"
  shows "ports_match (sort_key pv_port_name vs) ports"
proof -
  have "sorted_wrt (<) (map fst (map declared_port ports))"
    using assms(1) by (simp add: ports_ok_def comp_def)
  from mset_covers [OF this, of value_port vs] assms(2) show ?thesis
    by (simp add: ports_match_iff)
qed

text \<open>Every declared output of a node that has run can be looked up, with its type.\<close>

definition outputs_ready :: "research_graph \<Rightarrow> ulid set \<Rightarrow> output_map \<Rightarrow> bool" where
  "outputs_ready g finished outs \<longleftrightarrow>
     (\<forall>n \<in> set (rg_nodes g). nd_node_id n \<in> finished \<longrightarrow>
        (\<forall>q \<in> set (ct_output_types (nd_contract n)).
           \<exists>v. map_of outs (nd_node_id n, pt_port_name q) = Some v \<and> pv_value_type v = pt_value_type q \<and> pv_payload v \<noteq> []))"

lemma fold_outputs_get:
  "map_of (fold (\<lambda>v m. bt_insert (i, pv_port_name v) v m) vs outs) (j, p) =
     (if i = j \<and> p \<in> pv_port_name ` set vs
      then map_of (rev (map (\<lambda>v. (pv_port_name v, v)) vs)) p else map_of outs (j, p))"
proof (induction vs rule: rev_induct)
  case (snoc v vs)
  then show ?case by (auto simp: image_iff)
qed simp

lemma outputs_ready_step:
  assumes ready: "outputs_ready g finished outs"
    and g: "nodes_ok (rg_nodes g)"
    and n: "n \<in> set (rg_nodes g)" "nd_node_id n \<notin> finished"
    and match: "map value_port vs = map declared_port (ct_output_types (nd_contract n))"
    and payload: "\<forall>v \<in> set vs. pv_payload v \<noteq> []"
  shows "outputs_ready g (insert (nd_node_id n) finished)
    (fold (\<lambda>v m. bt_insert (nd_node_id n, pv_port_name v) v m) vs outs)"
  unfolding outputs_ready_def
proof (intro ballI impI)
  fix k q
  assume k: "k \<in> set (rg_nodes g)" "nd_node_id k \<in> insert (nd_node_id n) finished" "q \<in> set (ct_output_types (nd_contract k))"
  let ?m = "fold (\<lambda>v m. bt_insert (nd_node_id n, pv_port_name v) v m) vs outs"
  show "\<exists>v. map_of ?m (nd_node_id k, pt_port_name q) = Some v \<and> pv_value_type v = pt_value_type q \<and> pv_payload v \<noteq> []"
  proof (cases "nd_node_id k = nd_node_id n")
    case True
    then have "k = n" using k(1) n(1) g by (auto simp: nodes_ok_def distinct_map inj_on_def)
    have "map pv_port_name vs = map pt_port_name (ct_output_types (nd_contract n))"
      using arg_cong [OF match, of "map fst"] by (simp add: comp_def)
    moreover have "distinct (map pt_port_name (ct_output_types (nd_contract n)))"
      using g n(1) by (simp add: nodes_ok_def ports_ok_def strict_sorted_iff)
    ultimately have dist: "distinct (map fst (rev (map (\<lambda>v. (pv_port_name v, v)) vs)))"
      by (simp add: comp_def flip: rev_map)
    have "declared_port q \<in> set (map value_port vs)" unfolding match using k(3) \<open>k = n\<close> by auto
    then obtain v where v: "v \<in> set vs" "pv_port_name v = pt_port_name q" "pv_value_type v = pt_value_type q" by auto
    have "map_of (rev (map (\<lambda>v. (pv_port_name v, v)) vs)) (pt_port_name q) = Some v"
      using map_of_eq_Some_iff [OF dist, of "pt_port_name q" v] v by force
    then have "map_of ?m (nd_node_id k, pt_port_name q) = Some v"
      using v by (auto simp: fold_outputs_get True image_iff)
    then show ?thesis using v payload by blast
  next
    case False
    then show ?thesis using ready k by (auto simp: fold_outputs_get outputs_ready_def)
  qed
qed

text \<open>What the constructors guarantee of the graph an execution receives.\<close>

definition graph_built :: "sha256_fn \<Rightarrow> research_graph \<Rightarrow> bool" where
  "graph_built sha256 g \<longleftrightarrow>
     graph_ok sha256 g \<and> nodes_ok (rg_nodes g) \<and>
     (\<forall>e \<in> set (rg_edges g). ensure_symbol (ed_to_port e) = Ok ()) \<and>
     (\<forall>b \<in> set (rg_external_input_bindings g). ensure_symbol (gb_to_port b) = Ok ())"

lemma symbol_port_text:
  assumes "ensure_symbol s = Ok ()"
  shows "port_text s"
proof -
  have ne: "s \<noteq> []" and "list_all (\<lambda>byte. is_alphanumeric byte \<or> byte \<in> set ''._-'') s"
    using assms by (simp_all add: ensure_symbol_def split: if_splits)
  then have "32 < (of_char c :: nat) \<and> (of_char c :: nat) < 128" if "c \<in> set s" for c
    using that by (auto simp: list_all_iff is_alphanumeric_def is_ascii_lowercase_def is_ascii_digit_def)
  with ne show ?thesis by (auto simp: port_text_def intro: trim_printable)
qed

text \<open>The registry serves every declared external input with its declared type.\<close>

definition registry_ready :: "research_graph \<Rightarrow> (string, execution_external_input) btree_map \<Rightarrow> bool" where
  "registry_ready g xreg \<longleftrightarrow>
     (\<forall>d \<in> set (rg_external_inputs g).
        \<exists>x. map_of xreg (gi_input_id d) = Some x \<and> xi_value_type x = gi_value_type d \<and> xi_payload x \<noteq> [])"

lemma edge_input_port:
  assumes g: "graph_built sha256 g" and ready: "outputs_ready g finished outs"
    and e: "e \<in> set (rg_edges g)" "ed_from_node e \<in> finished"
    and n: "n \<in> set (rg_nodes g)" "nd_node_id n = ed_to_node e"
  shows "(\<exists>s. edge_source outs e = Some s \<and> pv_payload s \<noteq> []) \<and>
    (\<exists>q \<in> set (ct_input_types (nd_contract n)). pt_port_name q = ed_to_port e \<and> value_port (edge_input sha256 outs e) = declared_port q)"
proof -
  have "edge_typed (rg_nodes g) e" using g e(1) by (simp add: graph_built_def graph_ok_def bindings_valid_def)
  then obtain s t p q where t: "s \<in> set (rg_nodes g)" "t \<in> set (rg_nodes g)" "p \<in> set (ct_output_types (nd_contract s))"
      "q \<in> set (ct_input_types (nd_contract t))" "nd_node_id s = ed_from_node e" "pt_port_name p = ed_from_port e"
      "nd_node_id t = ed_to_node e" "pt_port_name q = ed_to_port e" "pt_value_type p = pt_value_type q"
    unfolding edge_typed_def by blast
  have "t = n" using t(2,7) n g by (auto simp: graph_built_def nodes_ok_def distinct_map inj_on_def)
  obtain v where "map_of outs (nd_node_id s, pt_port_name p) = Some v" "pv_value_type v = pt_value_type p" "pv_payload v \<noteq> []"
    using ready t(1,3,5) e(2) unfolding outputs_ready_def by metis
  then show ?thesis
    using t \<open>t = n\<close> by (auto simp: edge_input_def port_value_of_def Let_def)
qed

lemma external_input_port:
  assumes g: "graph_built sha256 g" and ready: "registry_ready g xreg"
    and b: "b \<in> set (rg_external_input_bindings g)"
    and n: "n \<in> set (rg_nodes g)" "nd_node_id n = gb_to_node b"
  shows "(\<exists>x. map_of xreg (gb_input_id b) = Some x \<and> xi_payload x \<noteq> []) \<and>
    (\<exists>q \<in> set (ct_input_types (nd_contract n)). pt_port_name q = gb_to_port b \<and> value_port (external_input_value sha256 xreg b) = declared_port q)"
proof -
  have "binding_typed (rg_nodes g) (rg_external_inputs g) b"
    using g b by (simp add: graph_built_def graph_ok_def bindings_valid_def)
  then obtain d t q where t: "d \<in> set (rg_external_inputs g)" "t \<in> set (rg_nodes g)" "q \<in> set (ct_input_types (nd_contract t))"
      "gi_input_id d = gb_input_id b" "nd_node_id t = gb_to_node b" "pt_port_name q = gb_to_port b" "gi_value_type d = pt_value_type q"
    unfolding binding_typed_def by blast
  have "t = n" using t(2,5) n g by (auto simp: graph_built_def nodes_ok_def distinct_map inj_on_def)
  obtain x where "map_of xreg (gi_input_id d) = Some x" "xi_value_type x = gi_value_type d" "xi_payload x \<noteq> []"
    using ready t(1) unfolding registry_ready_def by blast
  then show ?thesis
    using t \<open>t = n\<close> by (auto simp: external_input_value_def port_value_of_def Let_def)
qed

text \<open>So the inputs assembled for a node are exactly its declared input ports.\<close>

lemma mapped_member: "x \<in> set (map f xs) \<Longrightarrow> \<exists>y \<in> set xs. f y = x"
  by auto

lemma step_inputs_match:
  assumes g: "graph_built sha256 g" and outs: "outputs_ready g finished outs" and xreg: "registry_ready g xreg"
    and n: "n \<in> set (rg_nodes g)" "nd_node_id n = i"
    and earlier: "\<forall>e \<in> set (incoming g i). ed_from_node e \<in> finished"
  shows "mset (map value_port (step_inputs sha256 g xreg outs i)) = mset (map declared_port (ct_input_types (nd_contract n)))"
proof -
  let ?P = "map value_port (step_inputs sha256 g xreg outs i)" and ?ins = "ct_input_types (nd_contract n)"
  have names: "map fst ?P = map ed_to_port (incoming g i) @ map gb_to_port (bound_inputs g i)"
    by (simp add: step_inputs_def edge_input_def external_input_value_def port_value_of_def Let_def comp_def)
  have fed: "distinct (fed_ports (rg_edges g) (rg_external_input_bindings g))"
    and covered: "\<forall>q \<in> set ?ins. (i, pt_port_name q) \<in> set (fed_ports (rg_edges g) (rg_external_input_bindings g))"
    using g n by (auto simp: graph_built_def graph_ok_def bindings_valid_def)
  have "distinct (map snd (filter (\<lambda>k. fst k = i) (fed_ports (rg_edges g) (rg_external_input_bindings g))))"
    using fed by (auto simp: distinct_map inj_on_def)
  moreover have "map snd (filter (\<lambda>k. fst k = i) (fed_ports (rg_edges g) (rg_external_input_bindings g))) = map fst ?P"
    unfolding names by (simp add: fed_ports_def filter_map comp_def)
  ultimately have "distinct (map fst ?P)" by simp
  then have dist: "distinct ?P" by (simp only: distinct_map)
  have decl: "distinct (map pt_port_name ?ins)"
    using g n(1) by (simp add: graph_built_def nodes_ok_def ports_ok_def strict_sorted_iff)
  have sub: "set ?P \<subseteq> set (map declared_port ?ins)"
    using edge_input_port [OF g outs _ _ n(1)] external_input_port [OF g xreg _ n(1)] earlier n(2)
    by (fastforce simp: step_inputs_def)
  have "set (map declared_port ?ins) \<subseteq> set ?P"
  proof
    fix y
    assume "y \<in> set (map declared_port ?ins)"
    then obtain q where q: "q \<in> set ?ins" "y = declared_port q" by auto
    have "pt_port_name q \<in> set (map fst ?P)"
      using covered q(1) unfolding names fed_ports_def by auto
    from mapped_member [OF this] obtain z where z: "z \<in> set ?P" "fst z = pt_port_name q" by blast
    then obtain q' where "q' \<in> set ?ins" "z = declared_port q'" using sub by auto
    then have "q' = q" using z(2) q(1) decl by (auto simp: distinct_map inj_on_def)
    then show "y \<in> set ?P" using z(1) q(2) \<open>z = declared_port q'\<close> by simp
  qed
  then have "set ?P = set (map declared_port ?ins)" using sub by blast
  moreover have "distinct (map declared_port ?ins)" using decl by (auto simp: distinct_map inj_on_def)
  ultimately show ?thesis using dist set_eq_iff_mset_eq_distinct by blast
qed

lemma execute_step_succeeds:
  assumes g: "graph_built sha256 g" and outs: "outputs_ready g finished outs" and xreg: "registry_ready g xreg"
    and i: "i \<in> frontier (nd_node_id ` set (rg_nodes g)) (rg_edges g) finished"
    and arts: "\<forall>j \<in> finished. map_of arts j \<noteq> None"
    and exec: "\<And>n. n \<in> set (rg_nodes g) \<Longrightarrow>
      \<exists>ex. map_of reg (nd_node_id n) = Some ex \<and> ex_node_id ex = nd_node_id n \<and> honours r n ex \<and>
        identity_implementation r (nd_node_id n) = Some (ex_implementation_digest ex)"
  shows "\<exists>outs' arts'. execute_step sha256 g r xreg reg (research_nodes g) i (outs, arts) = Ok (outs', arts') \<and>
    outputs_ready g (insert i finished) outs' \<and> (\<forall>j \<in> insert i finished. map_of arts' j \<noteq> None)"
proof -
  obtain n where n: "n \<in> set (rg_nodes g)" "nd_node_id n = i" and new: "i \<notin> finished"
    using i by (auto simp: frontier_def)
  have earlier: "\<forall>e \<in> set (incoming g i). ed_from_node e \<in> finished"
  proof
    fix e
    assume "e \<in> set (incoming g i)"
    then have "(ed_from_node e, i) \<in> edge_relation (rg_edges g)" by (auto simp: edge_relation_def)
    then show "ed_from_node e \<in> finished" using i by (auto simp: frontier_def)
  qed
  have ok: "nodes_ok (rg_nodes g)" using g by (simp add: graph_built_def)
  then have ports: "ports_ok (ct_input_types (nd_contract n))" "ports_ok (ct_output_types (nd_contract n))"
    using n by (simp_all add: nodes_ok_def)
  obtain ex where ex: "map_of reg i = Some ex" "ex_node_id ex = i" "honours r n ex"
      "identity_implementation r i = Some (ex_implementation_digest ex)"
    using exec [OF n(1)] n(2) by auto
  let ?ins = "step_inputs sha256 g xreg outs i"
  have ins: "ports_match (sort_key pv_port_name ?ins) (ct_input_types (nd_contract n))"
    by (rule sorted_values_match [OF ports(1) step_inputs_match [OF g outs xreg n earlier]])
  then obtain vs where vs: "ex_execute ex (node_request n r ?ins) = Ok vs"
      "mset (map value_port vs) = mset (map declared_port (ct_output_types (nd_contract n)))" "\<forall>v \<in> set vs. pv_payload v \<noteq> []"
    using ex(3) unfolding honours_def ports_match_iff by blast
  have match: "ports_match (sort_key pv_port_name vs) (ct_output_types (nd_contract n))"
    by (rule sorted_values_match [OF ports(2) vs(2)])
  let ?x = "node_execution sha256 n r ex (step_artifacts g xreg arts i) vs"
  have run: "execute_native_node sha256 n r ex ?ins (step_artifacts g xreg arts i) = Ok ?x"
    unfolding execute_native_node_Ok using ex n ins vs match by auto
  have nodes: "map_of (research_nodes g) i = Some n"
    using n ok by (simp add: research_nodes_def nodes_ok_def bt_keyed_lookup)
  have edges: "\<forall>e \<in> set (incoming g i). (\<exists>s. edge_source outs e = Some s \<and> pv_payload s \<noteq> []) \<and>
      port_text (ed_to_port e) \<and> map_of arts (ed_from_node e) \<noteq> None"
  proof
    fix e
    assume e: "e \<in> set (incoming g i)"
    then have mem: "e \<in> set (rg_edges g)" "ed_from_node e \<in> finished" "nd_node_id n = ed_to_node e"
      using earlier n(2) by auto
    then show "(\<exists>s. edge_source outs e = Some s \<and> pv_payload s \<noteq> []) \<and> port_text (ed_to_port e) \<and> map_of arts (ed_from_node e) \<noteq> None"
      using edge_input_port [OF g outs mem(1,2) n(1) mem(3)] g arts symbol_port_text by (auto simp: graph_built_def)
  qed
  have binds: "\<forall>b \<in> set (bound_inputs g i). (\<exists>x. map_of xreg (gb_input_id b) = Some x \<and> xi_payload x \<noteq> []) \<and> port_text (gb_to_port b)"
  proof
    fix b
    assume "b \<in> set (bound_inputs g i)"
    then have mem: "b \<in> set (rg_external_input_bindings g)" "nd_node_id n = gb_to_node b" using n(2) by auto
    then show "(\<exists>x. map_of xreg (gb_input_id b) = Some x \<and> xi_payload x \<noteq> []) \<and> port_text (gb_to_port b)"
      using external_input_port [OF g xreg mem(1) n(1) mem(2)] g symbol_port_text by (auto simp: graph_built_def)
  qed
  let ?outs = "fold (\<lambda>v m. bt_insert (i, pv_port_name v) v m) (nx_outputs ?x) outs"
  have "execute_step sha256 g r xreg reg (research_nodes g) i (outs, arts) = Ok (?outs, bt_insert i (nx_artifact ?x) arts)"
    unfolding execute_step_Ok using nodes ex(1) edges binds run by blast
  moreover have "outputs_ready g (insert i finished) ?outs"
  proof -
    have x: "nx_outputs ?x = sort_key pv_port_name vs" by (simp add: node_execution_def Let_def)
    show ?thesis
      using outputs_ready_step [OF outs ok n(1), of "sort_key pv_port_name vs"] match vs(3) new n(2)
      by (simp add: x ports_match_iff)
  qed
  ultimately show ?thesis using arts by (intro exI conjI) auto
qed

lemma execute_loop_succeeds:
  assumes g: "graph_built sha256 g" and xreg: "registry_ready g xreg"
    and exec: "\<And>n. n \<in> set (rg_nodes g) \<Longrightarrow>
      \<exists>ex. map_of reg (nd_node_id n) = Some ex \<and> ex_node_id ex = nd_node_id n \<and> honours r n ex \<and>
        identity_implementation r (nd_node_id n) = Some (ex_implementation_digest ex)"
    and "\<forall>k < length order. order ! k \<in> frontier (nd_node_id ` set (rg_nodes g)) (rg_edges g) (finished \<union> set (take k order))"
    and "outputs_ready g finished outs" "\<forall>j \<in> finished. map_of arts j \<noteq> None"
  shows "\<exists>st. execute_loop (execute_step sha256 g r xreg reg (research_nodes g)) order (outs, arts) = Ok st \<and>
    (\<forall>j \<in> finished \<union> set order. map_of (snd st) j \<noteq> None)"
  using assms(4,5,6)
proof (induction order arbitrary: finished outs arts)
  case Nil
  then show ?case by simp
next
  case (Cons i order)
  have i: "i \<in> frontier (nd_node_id ` set (rg_nodes g)) (rg_edges g) finished" using Cons.prems(1) by force
  obtain outs' arts' where step: "execute_step sha256 g r xreg reg (research_nodes g) i (outs, arts) = Ok (outs', arts')"
    and ready: "outputs_ready g (insert i finished) outs'" "\<forall>j \<in> insert i finished. map_of arts' j \<noteq> None"
    using execute_step_succeeds [OF g Cons.prems(2) xreg i Cons.prems(3) exec] by blast
  have "\<forall>k < length order. order ! k \<in> frontier (nd_node_id ` set (rg_nodes g)) (rg_edges g) (insert i finished \<union> set (take k order))"
  proof (intro allI impI)
    fix k
    assume "k < length order"
    then show "order ! k \<in> frontier (nd_node_id ` set (rg_nodes g)) (rg_edges g) (insert i finished \<union> set (take k order))"
      using Cons.prems(1) [rule_format, of "Suc k"] by simp
  qed
  from Cons.IH [OF this ready] show ?case using step by auto
qed

lemma take_artifacts_succeeds:
  assumes "distinct order" "\<forall>j \<in> set order. map_of arts j \<noteq> None"
  shows "\<exists>l. take_artifacts order arts = Ok l"
  using assms
proof (induction order arbitrary: arts)
  case (Cons i order)
  obtain a where "map_of arts i = Some a" using Cons.prems(2) by auto
  moreover have "\<forall>j \<in> set order. map_of (filter (\<lambda>(k, _). k \<noteq> i) arts) j \<noteq> None"
  proof
    fix j
    assume j: "j \<in> set order"
    then have "j \<noteq> i" using Cons.prems(1) by auto
    then show "map_of (filter (\<lambda>(k, _). k \<noteq> i) arts) j \<noteq> None" using Cons.prems(2) j by (simp add: map_of_removed)
  qed
  ultimately show ?case using Cons.IH Cons.prems(1) by fastforce
qed simp

lemma identity_registry:
  assumes g: "graph_ok sha256 g" and r: "identity_build sha256 ds g input subject code = Ok r"
    and ext: "\<forall>x \<in> set (pi_external_inputs input). external_input_ok sha256 x"
  shows "\<exists>xreg. external_input_registry g r (pi_external_inputs input) = Ok xreg \<and> registry_ready g xreg"
proof -
  let ?xs = "pi_external_inputs input" and ?ds = "rg_external_inputs g"
  have cov: "identity_covers g input" and r_eq: "r = identity_of sha256 ds g input subject code"
    using r by (auto simp: identity_build_eq [OF g] split: if_splits)
  have dist: "distinct (map xi_input_id ?xs)" by (rule covers_distinct(1) [OF g cov])
  have frozen: "id_external_inputs r = sort_key xi_input_id ?xs" by (simp add: r_eq identity_of_def Let_def)
  then have sorted: "sorted_wrt (<) (map xi_input_id (id_external_inputs r))" using dist by (simp add: sorted_wrt_sort_key)
  have pairs: "mset (map (\<lambda>i. (xi_input_id i, xi_value_type i)) ?xs) = mset (map (\<lambda>d. (gi_input_id d, gi_value_type d)) ?ds)"
    using cov by (simp only: identity_covers_def)
  from mset_eq_length [OF pairs] have len: "length ?xs = length ?ds" by simp
  have match: "\<exists>x \<in> set ?xs. xi_input_id x = gi_input_id d \<and> xi_value_type x = gi_value_type d" if "d \<in> set ?ds" for d
  proof -
    have "(gi_input_id d, gi_value_type d) \<in> set (map (\<lambda>i. (xi_input_id i, xi_value_type i)) ?xs)"
      unfolding mset_eq_setD [OF pairs] using that by auto
    then show ?thesis by auto
  qed
  obtain xreg where reg: "register_unique xi_input_id ?xs [] = Ok xreg" using dist by (simp add: register_unique_eq)
  have get: "map_of xreg k = Some x \<longleftrightarrow> x \<in> set ?xs \<and> xi_input_id x = k" for k x
    by (rule register_unique_get [OF reg])
  have "check_declarations ?ds r xreg = Ok ()"
    unfolding check_declarations_Ok [OF sorted] frozen set_sort get using match by metis
  then have "external_input_registry g r ?xs = Ok xreg" by (simp add: external_input_registry_def len reg)
  moreover have "registry_ready g xreg"
    unfolding registry_ready_def
  proof
    fix d
    assume "d \<in> set ?ds"
    then obtain x where x: "x \<in> set ?xs" "xi_input_id x = gi_input_id d" "xi_value_type x = gi_value_type d" using match by blast
    moreover have "xi_payload x \<noteq> []"
      using ext x(1) by (auto simp: external_input_ok_def execution_external_input_new_def split: if_splits)
    ultimately show "\<exists>x. map_of xreg (gi_input_id d) = Some x \<and> xi_value_type x = gi_value_type d \<and> xi_payload x \<noteq> []"
      using get by blast
  qed
  ultimately show ?thesis by blast
qed

lemma execution_runs:
  assumes "graph_built sha256 g" "identity_build sha256 ds g input subject code = Ok r"
    "\<forall>x \<in> set (pi_external_inputs input). external_input_ok sha256 x"
    "mset (map ex_node_id executors) = mset (map nd_node_id (rg_nodes g))"
    "\<forall>ex \<in> set executors. identity_implementation r (ex_node_id ex) = Some (ex_implementation_digest ex)"
    "\<forall>ex \<in> set executors. \<forall>n \<in> set (rg_nodes g). nd_node_id n = ex_node_id ex \<longrightarrow> honours r n ex"
  shows "\<exists>result. execute_native_graph_with_external_inputs sha256 g (from_reproducibility sha256 run_id r)
    executors (pi_external_inputs input) = Ok result"
proof -
  have g: "graph_ok sha256 g" using assms(1) by (simp add: graph_built_def)
  obtain xreg where xreg: "external_input_registry g r (pi_external_inputs input) = Ok xreg" "registry_ready g xreg"
    using identity_registry [OF g assms(2,3)] by blast
  have "distinct (map nd_node_id (rg_nodes g))" using g by (simp add: graph_ok_def strict_sorted_iff)
  then have dist: "distinct (map ex_node_id executors)" using assms(4) by (metis mset_eq_imp_distinct_iff)
  then obtain reg where reg: "register_unique ex_node_id executors [] = Ok reg" by (simp add: register_unique_eq)
  have exec: "\<exists>ex. map_of reg (nd_node_id n) = Some ex \<and> ex_node_id ex = nd_node_id n \<and> honours r n ex \<and>
      identity_implementation r (nd_node_id n) = Some (ex_implementation_digest ex)" if n: "n \<in> set (rg_nodes g)" for n
  proof -
    have "nd_node_id n \<in> set (map ex_node_id executors)" unfolding mset_eq_setD [OF assms(4)] using n by simp
    then obtain ex where "ex \<in> set executors" "ex_node_id ex = nd_node_id n" by auto
    then show ?thesis using assms(5,6) n register_unique_get [OF reg] by metis
  qed
  have order: "distinct (rg_topological_order g)"
      "\<forall>k < length (rg_topological_order g). rg_topological_order g ! k \<in>
        frontier (nd_node_id ` set (rg_nodes g)) (rg_edges g) ({} \<union> set (take k (rg_topological_order g)))"
    using g by (simp_all add: graph_ok_def least_first_def)
  have "outputs_ready g {} []" by (simp add: outputs_ready_def)
  then obtain st where st: "execute_loop (execute_step sha256 g r xreg reg (research_nodes g)) (rg_topological_order g) ([], []) = Ok st"
      "\<forall>j \<in> set (rg_topological_order g). map_of (snd st) j \<noteq> None"
    using execute_loop_succeeds [OF assms(1) xreg(2) exec order(2), of "[]" "[]"] by auto
  obtain l where l: "take_artifacts (rg_topological_order g) (snd st) = Ok l"
    using take_artifacts_succeeds [OF order(1) st(2)] by blast
  have "length executors = length (rg_nodes g)" using mset_eq_length [OF assms(4)] by simp
  then show ?thesis
    using xreg(1) reg st(1) l identity_build_fields(5) [OF assms(2)]
    by (cases st) (simp add: execute_native_graph_with_external_inputs_def from_reproducibility_def executor_registry_def Let_def)
qed

text \<open>
  C5: an execution of a validated graph under an identity frozen for it succeeds
  whenever there is one executor per node with the frozen implementation, each executor honours
  its node's contract, and the external inputs are those the identity was built from. No internal
  lookup can fail: every upstream output, artifact and external input is there, with the declared
  type, when a node needs it.
\<close>

theorem execution_succeeds:
  assumes "graph_built sha256 g" "identity_build sha256 ds g input subject code = Ok r"
    "\<forall>x \<in> set (pi_external_inputs input). external_input_ok sha256 x"
    "mset (map ex_node_id executors) = mset (map nd_node_id (rg_nodes g))"
    "\<forall>ex \<in> set executors. identity_implementation r (ex_node_id ex) = Some (ex_implementation_digest ex)"
    "\<forall>ex \<in> set executors. \<forall>n \<in> set (rg_nodes g). nd_node_id n = ex_node_id ex \<longrightarrow> honours r n ex"
  shows "\<exists>result. execute_native_graph_with_external_inputs sha256 g (from_reproducibility sha256 run_id r)
    executors (pi_external_inputs input) = Ok result"
  by (rule execution_runs [OF assms])

section \<open>A sample execution\<close>

definition sample_executor :: "string \<Rightarrow> native_node" where
  "sample_executor n =
     \<lparr>ex_node_id = Ulid n, ex_implementation_digest = zero_hash, ex_execute = (\<lambda>_. Ok [sample_port_value ''out''])\<rparr>"

abbreviation sample_instance :: execution_instance_identity where
  "sample_instance \<equiv> from_reproducibility (\<lambda>_. zero_hash) (Ulid ''run'') (sample_identity 7)"

lemma sample_nodes: "set (rg_nodes (sample_graph 1)) = {sample_node ''a'' [''in''], sample_node ''b'' []}"
  by (auto simp: sample_graph_def graph_of_def Let_def sample_graph_input_def)

lemma sample_graph_built: "graph_built (\<lambda>_. zero_hash) (sample_graph 1)"
proof -
  have "nodes_ok (rg_nodes (sample_graph 1))"
    using sample_graph_parts(2) [of 1]
    by (simp add: nodes_ok_def sample_nodes sample_node_def sample_contract_def ports_ok_def)
  then show ?thesis
    using sample_graph_ok
    by (simp add: graph_built_def sample_graph_def graph_of_def Let_def sample_graph_input_def
        ensure_symbol_def is_alphanumeric_def is_ascii_lowercase_def)
qed

lemma sample_identity_built:
  "identity_build (\<lambda>_. zero_hash) sample_date_text (sample_graph 1) (sample_identity_input 7) None None = Ok (sample_identity 7)"
  by (simp add: identity_build_eq [OF sample_graph_ok] sample_identity_covers)

lemma sample_identity_implements:
  assumes "n \<in> {''a'', ''b''}"
  shows "identity_implementation (sample_identity 7) (Ulid n) = Some zero_hash"
proof (rule identity_implementation_Some [THEN iffD2])
  show "sorted_wrt (<) (map ni_node_id (id_node_implementations (sample_identity 7)))"
    using identity_build_fields(4) [OF sample_identity_built] .
  have "set (id_node_implementations (sample_identity 7)) = {sample_implementation ''a'', sample_implementation ''b''}"
    by (auto simp: identity_of_def Let_def sample_identity_input_def)
  then show "\<exists>b \<in> set (id_node_implementations (sample_identity 7)). ni_node_id b = Ulid n \<and> ni_implementation_digest b = zero_hash"
    using assms by (auto simp: sample_implementation_def)
qed

lemma sample_honours:
  "n \<in> set (rg_nodes (sample_graph 1)) \<Longrightarrow> honours r n (sample_executor k)"
  by (auto simp: honours_def sample_nodes sample_node_def sample_contract_def sample_executor_def sample_port_value_def)

lemma sample_execution_inputs:
  "mset (map ex_node_id [sample_executor ''b'', sample_executor ''a'']) = mset (map nd_node_id (rg_nodes (sample_graph 1)))"
  "\<forall>ex \<in> set [sample_executor ''b'', sample_executor ''a''].
     identity_implementation (sample_identity 7) (ex_node_id ex) = Some (ex_implementation_digest ex)"
  "\<forall>ex \<in> set [sample_executor ''b'', sample_executor ''a'']. \<forall>n \<in> set (rg_nodes (sample_graph 1)).
     nd_node_id n = ex_node_id ex \<longrightarrow> honours (sample_identity 7) n ex"
  "pi_external_inputs (sample_identity_input 7) = []"
proof -
  show "mset (map ex_node_id [sample_executor ''b'', sample_executor ''a'']) = mset (map nd_node_id (rg_nodes (sample_graph 1)))"
    unfolding sample_graph_parts(2) by (simp add: sample_executor_def)
  show "pi_external_inputs (sample_identity_input 7) = []" by (simp add: sample_identity_input_def)
qed (auto simp: sample_executor_def sample_identity_implements sample_honours [unfolded sample_executor_def])

lemma execution_succeeds_witness:
  "\<exists>result. execute_native_graph_with_external_inputs (\<lambda>_. zero_hash) (sample_graph 1) sample_instance
     [sample_executor ''b'', sample_executor ''a''] [] = Ok result"
  using execution_succeeds [OF sample_graph_built sample_identity_built _ sample_execution_inputs(1,2,3), of "Ulid ''run''"]
  by (simp add: sample_execution_inputs(4))

lemma sample_execution_runs:
  "\<exists>result. execute_native_graph_with_external_inputs (\<lambda>_. zero_hash) (sample_graph 1) sample_instance
     [sample_executor ''b'', sample_executor ''a''] [] = Ok result"
  using execution_runs [OF sample_graph_built sample_identity_built _ sample_execution_inputs(1,2,3), of "Ulid ''run''"]
  by (simp add: sample_execution_inputs(4))

lemma execution_records_lineage_witness:
  "\<exists>result. execute_native_graph_with_external_inputs (\<lambda>_. zero_hash) (sample_graph 1) sample_instance
     [sample_executor ''b'', sample_executor ''a''] [] = Ok result \<and>
   map ar_node_id (xr_artifacts result) = [Ulid ''b'', Ulid ''a'']"
proof -
  obtain result where r: "execute_native_graph_with_external_inputs (\<lambda>_. zero_hash) (sample_graph 1) sample_instance
     [sample_executor ''b'', sample_executor ''a''] [] = Ok result" using sample_execution_runs by blast
  from execution_records_lineage [OF sample_graph_ok r]
  have "map ar_node_id (xr_artifacts result) = rg_topological_order (sample_graph 1)" by blast
  then show ?thesis using r by (simp add: sample_graph_def graph_of_def Let_def)
qed

lemma execution_order_independent_witness:
  "mset [sample_executor ''b'', sample_executor ''a''] = mset [sample_executor ''a'', sample_executor ''b''] \<and>
   execute_native_graph_with_external_inputs (\<lambda>_. zero_hash) (sample_graph 1) sample_instance
     [sample_executor ''b'', sample_executor ''a''] [] =
   execute_native_graph_with_external_inputs (\<lambda>_. zero_hash) (sample_graph 1) sample_instance
     [sample_executor ''a'', sample_executor ''b''] []"
  by (intro conjI execution_order_independent) simp_all

end
