(* ===== verification/Experiment_Comparison.thy ===== *)
theory Experiment_Comparison
  imports Native_Execution
begin

text \<open>
  Verification of a replay and comparison of two experiments
  (\<open>ficant-runtime/src/native_execution.rs\<close>), and what the digests of artifacts and results fix.
\<close>

section \<open>Replay and comparison\<close>

definition verify_native_replay :: "native_execution_result \<Rightarrow> native_execution_result \<Rightarrow> unit runtime_result" where
  "verify_native_replay expected replayed =
     (if ii_reproducibility (xr_identity expected) \<noteq> ii_reproducibility (xr_identity replayed)
        \<or> xr_artifacts expected \<noteq> xr_artifacts replayed
        \<or> xr_result_digest expected \<noteq> xr_result_digest replayed
      then Err hash_mismatch else Ok ())"

datatype comparison_dimension =
    DExternalInput | DRulePack | DDataSnapshot | DUniverseSnapshot | DGraph | DParameters
  | DRuntimeImage | DEnvironment | DSeed | DImplementation | DResult | DSubject | DCode

text \<open>The derived order is the order of the variants.\<close>

fun dimension_index :: "comparison_dimension \<Rightarrow> nat" where
  "dimension_index DExternalInput = 0"
| "dimension_index DRulePack = 1"
| "dimension_index DDataSnapshot = 2"
| "dimension_index DUniverseSnapshot = 3"
| "dimension_index DGraph = 4"
| "dimension_index DParameters = 5"
| "dimension_index DRuntimeImage = 6"
| "dimension_index DEnvironment = 7"
| "dimension_index DSeed = 8"
| "dimension_index DImplementation = 9"
| "dimension_index DResult = 10"
| "dimension_index DSubject = 11"
| "dimension_index DCode = 12"

lemma dimension_index_inject: "dimension_index a = dimension_index b \<longleftrightarrow> a = b"
  by (cases a; cases b) simp_all

instantiation comparison_dimension :: linorder
begin

definition less_eq_comparison_dimension :: "comparison_dimension \<Rightarrow> comparison_dimension \<Rightarrow> bool" where
  "less_eq_comparison_dimension a b \<longleftrightarrow> dimension_index a \<le> dimension_index b"

definition less_comparison_dimension :: "comparison_dimension \<Rightarrow> comparison_dimension \<Rightarrow> bool" where
  "less_comparison_dimension a b \<longleftrightarrow> dimension_index a < dimension_index b"

instance
  by standard (auto simp: less_eq_comparison_dimension_def less_comparison_dimension_def dimension_index_inject)

end

record experiment_comparison =
  cmp_differences :: "comparison_dimension list"

definition comparison_identical :: "experiment_comparison \<Rightarrow> bool" where
  "comparison_identical c \<longleftrightarrow> cmp_differences c = []"

definition insert_if :: "bool \<Rightarrow> comparison_dimension \<Rightarrow> comparison_dimension btree_set \<Rightarrow> comparison_dimension btree_set" where
  "insert_if c d s = (if c then bset_insert d s else s)"

definition compare_experiments :: "native_execution_result \<Rightarrow> native_execution_result \<Rightarrow> experiment_comparison" where
  "compare_experiments left right =
     (let l = ii_reproducibility (xr_identity left);
          r = ii_reproducibility (xr_identity right);
          differences = [];
          differences = insert_if (id_external_inputs l \<noteq> id_external_inputs r) DExternalInput differences;
          differences = insert_if (id_rule_pack_bindings l \<noteq> id_rule_pack_bindings r) DRulePack differences;
          differences = insert_if (id_data_snapshot_hash l \<noteq> id_data_snapshot_hash r) DDataSnapshot differences;
          differences = insert_if (id_universe_snapshot_hash l \<noteq> id_universe_snapshot_hash r) DUniverseSnapshot differences;
          differences = insert_if (id_graph_digest l \<noteq> id_graph_digest r) DGraph differences;
          differences = insert_if (id_parameters_hash l \<noteq> id_parameters_hash r) DParameters differences;
          differences = insert_if (id_runtime_image_digest l \<noteq> id_runtime_image_digest r) DRuntimeImage differences;
          differences = insert_if (id_environment_digest l \<noteq> id_environment_digest r) DEnvironment differences;
          differences = insert_if (id_seed l \<noteq> id_seed r) DSeed differences;
          differences = insert_if (id_node_implementations l \<noteq> id_node_implementations r) DImplementation differences;
          differences = insert_if (id_subject l \<noteq> id_subject r) DSubject differences;
          differences = insert_if (id_code l \<noteq> id_code r) DCode differences;
          differences = insert_if (xr_result_digest left \<noteq> xr_result_digest right) DResult differences
      in \<lparr>cmp_differences = differences\<rparr>)"

section \<open>What a verified replay and an empty comparison say\<close>

lemma verify_native_replay_Ok [result_simps]:
  "verify_native_replay a b = Ok u \<longleftrightarrow>
     ii_reproducibility (xr_identity a) = ii_reproducibility (xr_identity b) \<and>
     xr_artifacts a = xr_artifacts b \<and> xr_result_digest a = xr_result_digest b"
  by (auto simp: verify_native_replay_def)

text \<open>An execution depends on the instance only through its reproducibility identity.\<close>

lemma execution_of_instance:
  assumes "execute_native_graph_with_external_inputs sha256 g i executors inputs = Ok x"
    "ii_reproducibility i = ii_reproducibility j"
  shows "execute_native_graph_with_external_inputs sha256 g j executors inputs = Ok (x\<lparr>xr_identity := j\<rparr>)"
  using assms
  by (auto simp: execute_native_graph_with_external_inputs_def Let_def and_then_eq_Ok split: if_splits)

text \<open>One dimension at a time.\<close>

fun differs :: "native_execution_result \<Rightarrow> native_execution_result \<Rightarrow> comparison_dimension \<Rightarrow> bool" where
  "differs a b d \<longleftrightarrow> (let l = ii_reproducibility (xr_identity a); r = ii_reproducibility (xr_identity b) in
     case d of
       DExternalInput \<Rightarrow> id_external_inputs l \<noteq> id_external_inputs r
     | DRulePack \<Rightarrow> id_rule_pack_bindings l \<noteq> id_rule_pack_bindings r
     | DDataSnapshot \<Rightarrow> id_data_snapshot_hash l \<noteq> id_data_snapshot_hash r
     | DUniverseSnapshot \<Rightarrow> id_universe_snapshot_hash l \<noteq> id_universe_snapshot_hash r
     | DGraph \<Rightarrow> id_graph_digest l \<noteq> id_graph_digest r
     | DParameters \<Rightarrow> id_parameters_hash l \<noteq> id_parameters_hash r
     | DRuntimeImage \<Rightarrow> id_runtime_image_digest l \<noteq> id_runtime_image_digest r
     | DEnvironment \<Rightarrow> id_environment_digest l \<noteq> id_environment_digest r
     | DSeed \<Rightarrow> id_seed l \<noteq> id_seed r
     | DImplementation \<Rightarrow> id_node_implementations l \<noteq> id_node_implementations r
     | DResult \<Rightarrow> xr_result_digest a \<noteq> xr_result_digest b
     | DSubject \<Rightarrow> id_subject l \<noteq> id_subject r
     | DCode \<Rightarrow> id_code l \<noteq> id_code r)"

declare differs.simps [simp del]

lemma set_insert_if [simp]: "set (insert_if c d s) = set s \<union> {x. x = d \<and> c}"
  by (auto simp: insert_if_def)

lemma sorted_insert_if: "sorted_wrt (<) s \<Longrightarrow> sorted_wrt (<) (insert_if c d s)"
  by (simp add: insert_if_def sorted_bset_insert)

lemma compare_set: "set (cmp_differences (compare_experiments a b)) = {d. differs a b d}"
proof -
  have "d \<in> set (cmp_differences (compare_experiments a b)) \<longleftrightarrow> differs a b d" for d
    by (cases d) (simp_all add: compare_experiments_def Let_def differs.simps)
  then show ?thesis by blast
qed

lemma compare_sorted: "sorted_wrt (<) (cmp_differences (compare_experiments a b))"
  unfolding compare_experiments_def Let_def experiment_comparison.select_convs
  by (intro sorted_insert_if) simp

text \<open>
  The comparison lists exactly the dimensions in which two experiments differ, each
  once and in the order of the dimensions; it is empty exactly when everything the identities
  freeze agrees and the result digests agree.
\<close>

theorem compare_experiments_exact:
  "set (cmp_differences (compare_experiments a b)) = {d. differs a b d} \<and>
   sorted_wrt (<) (cmp_differences (compare_experiments a b)) \<and>
   (comparison_identical (compare_experiments a b) \<longleftrightarrow>
      (ii_reproducibility (xr_identity a))\<lparr>id_digest := zero_hash\<rparr> =
        (ii_reproducibility (xr_identity b))\<lparr>id_digest := zero_hash\<rparr> \<and>
      xr_result_digest a = xr_result_digest b)"
proof -
  have "comparison_identical (compare_experiments a b) \<longleftrightarrow> {d. differs a b d} = {}"
    unfolding comparison_identical_def compare_set [symmetric] by simp
  also have "\<dots> \<longleftrightarrow> (\<forall>d. \<not> differs a b d)" by blast
  also have "\<dots> \<longleftrightarrow> (ii_reproducibility (xr_identity a))\<lparr>id_digest := zero_hash\<rparr> =
        (ii_reproducibility (xr_identity b))\<lparr>id_digest := zero_hash\<rparr> \<and> xr_result_digest a = xr_result_digest b"
    (is "_ \<longleftrightarrow> ?R")
  proof
    assume none: "\<forall>d. \<not> differs a b d"
    have "\<not> differs a b DExternalInput" "\<not> differs a b DRulePack" "\<not> differs a b DDataSnapshot"
      "\<not> differs a b DUniverseSnapshot" "\<not> differs a b DGraph" "\<not> differs a b DParameters"
      "\<not> differs a b DRuntimeImage" "\<not> differs a b DEnvironment" "\<not> differs a b DSeed"
      "\<not> differs a b DImplementation" "\<not> differs a b DResult" "\<not> differs a b DSubject" "\<not> differs a b DCode"
      using none by simp_all
    then show ?R
      by (cases "ii_reproducibility (xr_identity a)"; cases "ii_reproducibility (xr_identity b)")
        (simp add: differs.simps Let_def)
  next
    assume R: ?R
    show "\<forall>d. \<not> differs a b d"
    proof
      fix d
      show "\<not> differs a b d"
        using R by (cases "ii_reproducibility (xr_identity a)"; cases "ii_reproducibility (xr_identity b)"; cases d)
          (simp_all add: differs.simps Let_def)
    qed
  qed
  finally show ?thesis using compare_set compare_sorted by blast
qed

text \<open>
  C29: re-executing the same frozen identity under another run identifier, with executors
  and external inputs listed in any order, succeeds again and passes replay verification, and the
  two experiments compare as identical.
\<close>

theorem rerun_verifies:
  assumes "execute_native_graph_with_external_inputs sha256 g (from_reproducibility sha256 run r) executors inputs = Ok a"
    "mset executors = mset executors'" "mset inputs = mset inputs'"
  shows "\<exists>b. execute_native_graph_with_external_inputs sha256 g (from_reproducibility sha256 run' r) executors' inputs' = Ok b \<and>
    verify_native_replay a b = Ok () \<and> comparison_identical (compare_experiments a b)"
proof -
  let ?b = "a\<lparr>xr_identity := from_reproducibility sha256 run' r\<rparr>"
  have ident: "xr_identity a = from_reproducibility sha256 run r"
    using assms(1) by (auto simp: execute_native_graph_with_external_inputs_def Let_def and_then_eq_Ok split: if_splits)
  have b: "execute_native_graph_with_external_inputs sha256 g (from_reproducibility sha256 run' r) executors' inputs' = Ok ?b"
    using execution_of_instance [OF assms(1), of "from_reproducibility sha256 run' r"]
      execution_perm [OF assms(2,3)] by (simp add: from_reproducibility_def)
  have same: "ii_reproducibility (xr_identity a) = ii_reproducibility (xr_identity ?b)"
    by (simp add: ident from_reproducibility_def)
  have "\<not> differs a ?b d" for d using same by (cases d) (simp_all add: differs.simps Let_def)
  then have "set (cmp_differences (compare_experiments a ?b)) = {}" by (simp add: compare_set)
  then show ?thesis using b same by (intro exI [of _ ?b]) (simp add: result_simps comparison_identical_def)
qed

section \<open>What the result digest fixes\<close>

lemma determines_artifact_record:
  "determines (\<lambda>p. artifact_record_bytes (fst p) (snd p)) (\<lambda>p. (fst p, (snd p)\<lparr>ar_artifact_digest := zero_hash\<rparr>))"
proof -
  have hashes: "prefix_code (push_each hash_bytes)"
    by (rule prefix_code_push_each [OF determines_hash_bytes]) (metis length_hash_bytes list.size(3) zero_neq_numeral)
  have "determines (\<lambda>p. artifact_record_bytes (fst p) (snd p))
      (\<lambda>p. ((), fst p, ulid_str (ar_node_id (snd p)), ar_contract_digest (snd p), ar_implementation_digest (snd p),
        ar_input_artifacts (snd p), ar_output_hashes (snd p), ar_output_envelope_hash (snd p)))"
    unfolding artifact_record_bytes_def
    by (intro determines_append determines_const determines_hash_bytes determines_push_str prefix_code_of [OF hashes])
  then show ?thesis by (rule determines.weaken) auto
qed

lemma concat_hashes_inject: "concat (map hash_bytes xs) = concat (map hash_bytes ys) \<Longrightarrow> xs = ys"
proof (induction xs arbitrary: ys)
  case Nil
  then have "length (concat (map hash_bytes ys)) = 0" by simp
  then show ?case by (cases ys) simp_all
next
  case (Cons x xs)
  have "length (concat (map hash_bytes ys)) \<noteq> 0" unfolding Cons.prems [symmetric] by simp
  then obtain y zs where ys: "ys = y # zs" by (cases ys) auto
  with Cons.prems have "hash_bytes x @ concat (map hash_bytes xs) = hash_bytes y @ concat (map hash_bytes zs)" by simp
  then have "hash_bytes x = hash_bytes y \<and> concat (map hash_bytes xs) = concat (map hash_bytes zs)"
    by (simp add: append_eq_append_conv)
  then show ?case using Cons.IH ys by simp
qed

lemma result_bytes_inject:
  "result_bytes i as = result_bytes j bs \<Longrightarrow> i = j \<and> map ar_artifact_digest as = map ar_artifact_digest bs"
proof -
  assume "result_bytes i as = result_bytes j bs"
  then have "hash_bytes i @ concat (map hash_bytes (map ar_artifact_digest as)) =
      hash_bytes j @ concat (map hash_bytes (map ar_artifact_digest bs))"
    by (simp add: result_bytes_def comp_def)
  then have "hash_bytes i = hash_bytes j \<and>
      concat (map hash_bytes (map ar_artifact_digest as)) = concat (map hash_bytes (map ar_artifact_digest bs))"
    by (simp add: append_eq_append_conv)
  then show ?thesis using concat_hashes_inject by auto
qed

lemma artifacts_identified:
  assumes "map ar_artifact_digest as = map ar_artifact_digest bs"
    "\<forall>a \<in> set as. ar_artifact_digest a = sha256 (artifact_record_bytes d a) \<and> length (artifact_record_bytes d a) < usize_limit"
    "\<forall>b \<in> set bs. ar_artifact_digest b = sha256 (artifact_record_bytes d b)"
  shows "as = bs \<or> (\<exists>(a, b) \<in> set (zip as bs). collision sha256 (artifact_record_bytes d a) (artifact_record_bytes d b))"
proof -
  have "length as = length bs" using assms(1) by (metis length_map)
  then show ?thesis using assms
  proof (induction as bs rule: list_induct2)
    case Nil
    then show ?case by simp
  next
    case (Cons a as b bs)
    have same: "ar_artifact_digest a = ar_artifact_digest b"
      and hash: "sha256 (artifact_record_bytes d a) = sha256 (artifact_record_bytes d b)"
      and len: "length (artifact_record_bytes d a) < usize_limit"
      and tail: "as = bs \<or> (\<exists>(a, b) \<in> set (zip as bs). collision sha256 (artifact_record_bytes d a) (artifact_record_bytes d b))"
      using Cons by auto
    show ?case
    proof (cases "artifact_record_bytes d a = artifact_record_bytes d b")
      case True
      have "a\<lparr>ar_artifact_digest := zero_hash\<rparr> = b\<lparr>ar_artifact_digest := zero_hash\<rparr>"
        using determines.content_eq [OF determines_artifact_record, of "(d, a)" "(d, b)"] True len by simp
      then have "a = b" using same by (cases a; cases b) simp
      then show ?thesis using tail by auto
    next
      case False
      then show ?thesis using hash by (simp add: collision_def)
    qed
  qed
qed

lemma executed_artifact_digests:
  assumes "graph_ok sha256 g" "execute_native_graph_with_external_inputs sha256 g i executors inputs = Ok x"
  shows "\<forall>a \<in> set (xr_artifacts x). ar_artifact_digest a = sha256 (artifact_record_bytes (id_digest (ii_reproducibility i)) a)"
    and "xr_identity x = i"
    and "xr_result_digest x = sha256 (result_bytes (id_digest (ii_reproducibility i)) (xr_artifacts x))"
  using execution_lineage [OF assms] by (auto simp: artifact_lineage_def in_set_conv_nth)

text \<open>
  C9: two executions, of any graphs under any identities, with one result digest have
  the same reproducibility digest and the same artifacts, node by node, unless two named byte
  strings collide under SHA-256: the bytes of the results, or those of two artifacts at one position.
\<close>

theorem result_digest_identifies:
  assumes "graph_ok sha256 g" "execute_native_graph_with_external_inputs sha256 g i executors inputs = Ok x"
    "graph_ok sha256 h" "execute_native_graph_with_external_inputs sha256 h j executors' inputs' = Ok y"
    "xr_result_digest x = xr_result_digest y"
    "\<forall>a \<in> set (xr_artifacts x). length (artifact_record_bytes (id_digest (ii_reproducibility i)) a) < usize_limit"
  shows "id_digest (ii_reproducibility i) = id_digest (ii_reproducibility j) \<and> xr_artifacts x = xr_artifacts y \<or>
    collision sha256 (result_bytes (id_digest (ii_reproducibility i)) (xr_artifacts x))
      (result_bytes (id_digest (ii_reproducibility j)) (xr_artifacts y)) \<or>
    (\<exists>(a, b) \<in> set (zip (xr_artifacts x) (xr_artifacts y)).
       collision sha256 (artifact_record_bytes (id_digest (ii_reproducibility i)) a)
         (artifact_record_bytes (id_digest (ii_reproducibility i)) b))"
proof (cases "result_bytes (id_digest (ii_reproducibility i)) (xr_artifacts x) =
    result_bytes (id_digest (ii_reproducibility j)) (xr_artifacts y)")
  case True
  note ids = result_bytes_inject [OF True]
  have "\<forall>b \<in> set (xr_artifacts y). ar_artifact_digest b = sha256 (artifact_record_bytes (id_digest (ii_reproducibility i)) b)"
    using executed_artifact_digests(1) [OF assms(3,4)] ids by simp
  from artifacts_identified [OF _ _ this] ids assms(6) executed_artifact_digests(1) [OF assms(1,2)] show ?thesis by blast
next
  case False
  then show ?thesis
    using executed_artifact_digests(3) [OF assms(1,2)] executed_artifact_digests(3) [OF assms(3,4)] assms(5)
    by (simp add: collision_def)
qed

section \<open>Sample experiments\<close>

abbreviation sample_run_of :: "string \<Rightarrow> native_execution_result runtime_result" where
  "sample_run_of run \<equiv> execute_native_graph_with_external_inputs (\<lambda>_. zero_hash) (sample_graph 1)
     (from_reproducibility (\<lambda>_. zero_hash) (Ulid run) (sample_identity 7))
     [sample_executor ''b'', sample_executor ''a''] []"

lemma sample_run_Ok: "\<exists>x. sample_run_of run = Ok x"
  using execution_runs [OF sample_graph_built sample_identity_built _ sample_execution_inputs(1,2,3), of "Ulid run"]
  by (simp add: sample_execution_inputs(4))

lemma rerun_verifies_witness:
  "\<exists>a b. sample_run_of ''first'' = Ok a \<and> sample_run_of ''second'' = Ok b \<and> verify_native_replay a b = Ok ()"
proof -
  obtain a where a: "sample_run_of ''first'' = Ok a" using sample_run_Ok by blast
  from rerun_verifies [OF a refl refl, of "Ulid ''second''"] a show ?thesis by blast
qed

lemma sample_artifact_length:
  assumes "sample_run_of run = Ok x" "a \<in> set (xr_artifacts x)"
  shows "length (artifact_record_bytes d a) < usize_limit"
proof -
  have order: "map ar_node_id (xr_artifacts x) = rg_topological_order (sample_graph 1)"
    and lineage: "\<forall>k < length (xr_artifacts x). artifact_lineage (\<lambda>_. zero_hash) (sample_graph 1) (sample_identity 7) []
       (take k (xr_artifacts x)) (xr_artifacts x ! k)"
    using execution_lineage [OF sample_graph_ok assms(1)] by (simp_all add: from_reproducibility_def)
  then obtain prev where p: "artifact_lineage (\<lambda>_. zero_hash) (sample_graph 1) (sample_identity 7) [] prev a"
    "set prev \<subseteq> set (xr_artifacts x)"
    using assms(2) by (metis in_set_conv_nth set_take_subset)
  have zero: "ar_artifact_digest b = zero_hash" if "b \<in> set (xr_artifacts x)" for b
    using executed_artifact_digests(1) [OF sample_graph_ok assms(1)] that by simp
  have "set (ar_input_artifacts a) \<subseteq> {zero_hash}" and dist: "distinct (ar_input_artifacts a)"
    using p zero by (auto simp: artifact_lineage_def strict_sorted_iff)
  then have "card (set (ar_input_artifacts a)) \<le> card {zero_hash}" by (intro card_mono) simp_all
  then have ins: "length (ar_input_artifacts a) \<le> 1" using distinct_card [OF dist] by simp
  have outs: "length (ar_output_hashes a) = 1"
    using p(1) by (auto simp: artifact_lineage_def sample_nodes sample_node_def sample_contract_def)
  have "ar_node_id a \<in> set (map ar_node_id (xr_artifacts x))" using assms(2) by simp
  then have "ar_node_id a \<in> {Ulid ''b'', Ulid ''a''}"
    unfolding order by (simp add: sample_graph_def graph_of_def Let_def)
  then have "length (ulid_str (ar_node_id a)) = 1" by auto
  then show ?thesis
    using ins outs by (simp add: artifact_record_bytes_def length_push_each sum_list_triv)
qed

lemma result_digest_identifies_witness:
  "\<exists>x y. sample_run_of ''first'' = Ok x \<and> sample_run_of ''second'' = Ok y \<and>
     (xr_artifacts x = xr_artifacts y \<or>
      collision (\<lambda>_. zero_hash) (result_bytes (id_digest (sample_identity 7)) (xr_artifacts x))
        (result_bytes (id_digest (sample_identity 7)) (xr_artifacts y)) \<or>
      (\<exists>(a, b) \<in> set (zip (xr_artifacts x) (xr_artifacts y)). collision (\<lambda>_. zero_hash)
         (artifact_record_bytes (id_digest (sample_identity 7)) a) (artifact_record_bytes (id_digest (sample_identity 7)) b)))"
proof -
  obtain x y where xy: "sample_run_of ''first'' = Ok x" "sample_run_of ''second'' = Ok y" using sample_run_Ok by blast
  have "xr_result_digest x = xr_result_digest y"
    using executed_artifact_digests(3) [OF sample_graph_ok xy(1)] executed_artifact_digests(3) [OF sample_graph_ok xy(2)] by simp
  from result_digest_identifies [OF sample_graph_ok xy(1) sample_graph_ok xy(2) this] sample_artifact_length [OF xy(1)] xy
  show ?thesis by (simp add: from_reproducibility_def)
qed

end
