(* ===== verification/Fixed_Decimal.thy ===== *)
theory Fixed_Decimal
  imports Primitives "HOL-Library.Signed_Division"
begin

text \<open>
  \<open>ficant-domain/src/primitives/fixed_decimal.rs\<close>: decimals at the fixed scale 12 in an
  \<open>i128\<close>. The theory shows that the two rounding operations compute the nearest representable
  decimal, ties to even, and fail exactly when that decimal does not fit: the 128-bit
  intermediate values never lose a result.
\<close>

section \<open>Definitions\<close>

definition DECIMAL_SCALE :: nat where
  "DECIMAL_SCALE = 12"

definition FIXED_DECIMAL_FACTOR :: int where
  "FIXED_DECIMAL_FACTOR = 1000000000000"

datatype fixed_decimal = FixedDecimal (scaled: i128)

definition fd_zero :: fixed_decimal where
  "fd_zero = FixedDecimal 0"

definition fd_one :: fixed_decimal where
  "fd_one = FixedDecimal (word_of_int FIXED_DECIMAL_FACTOR)"

definition fd_is_positive :: "fixed_decimal \<Rightarrow> bool" where
  "fd_is_positive x \<longleftrightarrow> 0 < sint (scaled x)"

definition fd_is_non_negative :: "fixed_decimal \<Rightarrow> bool" where
  "fd_is_non_negative x \<longleftrightarrow> 0 \<le> sint (scaled x)"

text \<open>The checked arithmetic of \<open>i128\<close> and \<open>u128\<close>: \<open>None\<close> on overflow.\<close>

definition i128_range :: "int \<Rightarrow> bool" where
  "i128_range v \<longleftrightarrow> - (2 ^ 127) \<le> v \<and> v < 2 ^ 127"

definition checked_i128 :: "int \<Rightarrow> i128 option" where
  "checked_i128 v = (if i128_range v then Some (word_of_int v) else None)"

definition checked_add_u128 :: "u128 \<Rightarrow> u128 \<Rightarrow> u128 option" where
  "checked_add_u128 a b = (if unat a + unat b < 2 ^ 128 then Some (a + b) else None)"

definition checked_mul_u128 :: "u128 \<Rightarrow> u128 \<Rightarrow> u128 option" where
  "checked_mul_u128 a b = (if unat a * unat b < 2 ^ 128 then Some (a * b) else None)"

definition unsigned_abs :: "i128 \<Rightarrow> u128" where
  "unsigned_abs a = (if sint a < 0 then - a else a)"

definition fd_checked_add :: "fixed_decimal \<Rightarrow> fixed_decimal \<Rightarrow> fixed_decimal domain_result" where
  "fd_checked_add x y =
     ok_or (map_option FixedDecimal (checked_i128 (sint (scaled x) + sint (scaled y)))) InvalidValue"

definition fd_checked_sub :: "fixed_decimal \<Rightarrow> fixed_decimal \<Rightarrow> fixed_decimal domain_result" where
  "fd_checked_sub x y =
     ok_or (map_option FixedDecimal (checked_i128 (sint (scaled x) - sint (scaled y)))) InvalidValue"

definition fd_checked_mul :: "fixed_decimal \<Rightarrow> fixed_decimal \<Rightarrow> fixed_decimal domain_result" where
  "fd_checked_mul x y =
     and_then (ok_or (checked_i128 (sint (scaled x) * sint (scaled y))) InvalidValue)
       (\<lambda>product.
          if sint product smod FIXED_DECIMAL_FACTOR \<noteq> 0 then Err InvalidValue
          else Ok (FixedDecimal (word_of_int (sint product sdiv FIXED_DECIMAL_FACTOR))))"

definition fd_checked_mul_integer :: "fixed_decimal \<Rightarrow> i128 \<Rightarrow> fixed_decimal domain_result" where
  "fd_checked_mul_integer x multiplier =
     ok_or (map_option FixedDecimal (checked_i128 (sint (scaled x) * sint multiplier))) InvalidValue"

definition signed_magnitude :: "u128 \<Rightarrow> bool \<Rightarrow> i128 domain_result" where
  "signed_magnitude magnitude negative =
     (if \<not> negative then
        (if unat magnitude < 2 ^ 127 then Ok magnitude else Err InvalidValue)
      else if magnitude = 2 ^ 127 then Ok (2 ^ 127)
      else if unat magnitude < 2 ^ 127 then
        ok_or (checked_i128 (- sint magnitude)) InvalidValue
      else Err InvalidValue)"

definition fd_checked_mul_round_ties_even ::
  "fixed_decimal \<Rightarrow> fixed_decimal \<Rightarrow> fixed_decimal domain_result" where
  "fd_checked_mul_round_ties_even x y =
     (let negative = ((sint (scaled x) < 0) \<noteq> (sint (scaled y) < 0)) in
      and_then (ok_or (checked_mul_u128 (unsigned_abs (scaled x)) (unsigned_abs (scaled y))) InvalidValue)
        (\<lambda>product.
           let divisor = word_of_int FIXED_DECIMAL_FACTOR :: u128;
               magnitude = product div divisor;
               remainder = product mod divisor;
               distance_to_divisor = divisor - remainder
           in and_then
                (if remainder > distance_to_divisor
                   \<or> (remainder = distance_to_divisor \<and> magnitude mod 2 = 1)
                 then ok_or (checked_add_u128 magnitude 1) InvalidValue
                 else Ok magnitude)
                (\<lambda>magnitude. and_then (signed_magnitude magnitude negative)
                   (\<lambda>v. Ok (FixedDecimal v)))))"

text \<open>One decimal digit of \<open>remainder / denominator\<close> without forming \<open>10 * remainder\<close>.\<close>

fun decimal_digit_loop :: "nat \<Rightarrow> u128 \<Rightarrow> u128 \<Rightarrow> u8 \<times> u128 \<Rightarrow> u8 \<times> u128" where
  "decimal_digit_loop 0 remainder denominator state = state"
| "decimal_digit_loop (Suc n) remainder denominator (digit, accumulated) =
     decimal_digit_loop n remainder denominator
       (if accumulated \<ge> denominator - remainder
        then (digit + 1, accumulated - (denominator - remainder))
        else (digit, accumulated + remainder))"

definition decimal_digit :: "u128 \<Rightarrow> u128 \<Rightarrow> u8 \<times> u128" where
  "decimal_digit remainder denominator = decimal_digit_loop 10 remainder denominator (0, 0)"

fun fraction_loop :: "nat \<Rightarrow> u128 \<Rightarrow> u128 \<times> u128 \<Rightarrow> (u128 \<times> u128) domain_result" where
  "fraction_loop 0 denominator state = Ok state"
| "fraction_loop (Suc n) denominator (fractional, remainder) =
     (let (digit, next_remainder) = decimal_digit remainder denominator in
      and_then
        (ok_or (Option.bind (checked_mul_u128 fractional 10)
           (\<lambda>value. checked_add_u128 value (ucast digit))) InvalidValue)
        (\<lambda>fractional. fraction_loop n denominator (fractional, next_remainder)))"

definition fd_checked_div_round_ties_even ::
  "fixed_decimal \<Rightarrow> fixed_decimal \<Rightarrow> fixed_decimal domain_result" where
  "fd_checked_div_round_ties_even x divisor =
     (if scaled divisor = 0 then Err InvalidValue
      else
        let negative = ((sint (scaled x) < 0) \<noteq> (sint (scaled divisor) < 0));
            numerator = unsigned_abs (scaled x);
            denominator = unsigned_abs (scaled divisor);
            factor = word_of_int FIXED_DECIMAL_FACTOR :: u128;
            integer = numerator div denominator;
            remainder = numerator mod denominator
        in and_then (ok_or (checked_mul_u128 integer factor) InvalidValue) (\<lambda>magnitude.
           and_then (fraction_loop DECIMAL_SCALE denominator (0, remainder)) (\<lambda>(fractional, remainder).
           and_then (ok_or (checked_add_u128 magnitude fractional) InvalidValue) (\<lambda>magnitude.
           let distance_to_denominator = denominator - remainder;
               round_up = (remainder > distance_to_denominator
                 \<or> (remainder = distance_to_denominator \<and> magnitude mod 2 = 1))
           in and_then
                (if round_up then ok_or (checked_add_u128 magnitude 1) InvalidValue else Ok magnitude)
                (\<lambda>magnitude. and_then (signed_magnitude magnitude negative)
                   (\<lambda>v. Ok (FixedDecimal v)))))))"

section \<open>Nearest integers, ties to even\<close>

text \<open>\<open>q\<close> is an integer nearest to the fraction \<open>n / d\<close>, the even one when two are equally near.\<close>

definition nearest_even :: "int \<Rightarrow> int \<Rightarrow> int \<Rightarrow> bool" where
  "nearest_even q n d \<longleftrightarrow>
     2 * \<bar>q * d - n\<bar> \<le> \<bar>d\<bar> \<and> (2 * \<bar>q * d - n\<bar> = \<bar>d\<bar> \<longrightarrow> even q)"

lemma nearest_even_unique:
  assumes "nearest_even p n d" "nearest_even q n d" "d \<noteq> 0"
  shows "p = q"
proof (rule ccontr)
  assume neq: "p \<noteq> q"
  have "\<bar>(p - q) * d\<bar> \<le> \<bar>p * d - n\<bar> + \<bar>q * d - n\<bar>" by (simp add: left_diff_distrib)
  then have le: "2 * (\<bar>p - q\<bar> * \<bar>d\<bar>) \<le> 2 * \<bar>p * d - n\<bar> + 2 * \<bar>q * d - n\<bar>"
    by (simp add: abs_mult)
  also have "\<dots> \<le> 2 * \<bar>d\<bar>" using assms(1,2) by (simp add: nearest_even_def)
  finally have "\<bar>p - q\<bar> * \<bar>d\<bar> \<le> 1 * \<bar>d\<bar>" by simp
  then have one: "\<bar>p - q\<bar> = 1" using neq assms(3) by (simp add: mult_le_cancel_right)
  have "2 * \<bar>d\<bar> \<le> 2 * \<bar>p * d - n\<bar> + 2 * \<bar>q * d - n\<bar>" using le one by simp
  then have "2 * \<bar>p * d - n\<bar> = \<bar>d\<bar>" "2 * \<bar>q * d - n\<bar> = \<bar>d\<bar>"
    using assms(1,2) by (simp_all add: nearest_even_def)
  then have "even p" "even q" using assms(1,2) by (simp_all add: nearest_even_def)
  with one show False by presburger
qed

lemma nearest_even_neg: "nearest_even (- q) (- n) d \<longleftrightarrow> nearest_even q n d"
proof -
  have "\<bar>(- q) * d - (- n)\<bar> = \<bar>q * d - n\<bar>" by (simp add: abs_minus_commute)
  then show ?thesis by (simp add: nearest_even_def)
qed

lemma nearest_even_neg_den: "nearest_even q n (- d) \<longleftrightarrow> nearest_even (- q) n d"
  by (simp add: nearest_even_def)

text \<open>Rounding a quotient by its remainder, as both operations do on magnitudes.\<close>

definition round_up :: "nat \<Rightarrow> nat \<Rightarrow> nat \<Rightarrow> bool" where
  "round_up q r d \<longleftrightarrow> r > d - r \<or> (r = d - r \<and> odd q)"

definition round_nat :: "nat \<Rightarrow> nat \<Rightarrow> nat" where
  "round_nat n d = (if round_up (n div d) (n mod d) d then n div d + 1 else n div d)"

lemma nearest_even_round_nat:
  assumes "0 < d"
  shows "nearest_even (int (round_nat n d)) (int n) (int d)"
proof -
  have r: "n mod d < d" using assms by simp
  have n: "int n = int (n div d) * int d + int (n mod d)"
    by (metis of_nat_add of_nat_mult div_mult_mod_eq)
  show ?thesis
  proof (cases "round_up (n div d) (n mod d) d")
    case True
    then have "int (round_nat n d) * int d - int n = int d - int (n mod d)"
      by (simp add: round_nat_def n algebra_simps)
    with True r show ?thesis
      by (auto simp: nearest_even_def round_up_def round_nat_def)
  next
    case False
    then have "int (round_nat n d) * int d - int n = - int (n mod d)"
      by (simp add: round_nat_def n algebra_simps)
    with False r show ?thesis
      by (auto simp: nearest_even_def round_up_def round_nat_def)
  qed
qed

section \<open>Two's complement and magnitudes\<close>

lemma sint_i128_range: "i128_range (sint (v :: i128))"
  using sint_ge [of v] sint_lt [of v] by (simp add: i128_range_def)

lemma sint_of_i128_range: "i128_range v \<Longrightarrow> sint (word_of_int v :: i128) = v"
  by (simp add: i128_range_def sint_sbintrunc' signed_take_bit_int_eq_self)

lemma checked_i128_Some: "checked_i128 v = Some w \<longleftrightarrow> sint w = v"
proof
  assume "checked_i128 v = Some w"
  then show "sint w = v" by (auto simp: checked_i128_def sint_of_i128_range split: if_splits)
next
  assume "sint w = v"
  then show "checked_i128 v = Some w" using sint_i128_range [of w] by (auto simp: checked_i128_def)
qed

lemma sint_small: "unat (m :: u128) < 2 ^ 127 \<Longrightarrow> sint m = int (unat m)"
proof -
  assume small: "unat m < 2 ^ 127"
  have "int (unat m) < 2 ^ 127"
    using small of_nat_less_iff [where 'a = int, of "unat m" "2 ^ 127"] by simp
  then have "i128_range (int (unat m))"
    unfolding i128_range_def using of_nat_0_le_iff [of "unat m", where 'a = int] by linarith
  then have "sint (word_of_int (int (unat m)) :: i128) = int (unat m)" by (rule sint_of_i128_range)
  then show ?thesis by simp
qed

lemma unat_word_of_int: "0 \<le> k \<Longrightarrow> k < 2 ^ 128 \<Longrightarrow> unat (word_of_int k :: u128) = nat k"
  by (simp add: unat_eq_nat_uint uint_word_of_int)

lemma unat_unsigned_abs: "unat (unsigned_abs a) = nat \<bar>sint a\<bar>"
proof -
  have "unsigned_abs a = word_of_int \<bar>sint a\<bar>"
    by (cases "sint a < 0") (auto simp: unsigned_abs_def)
  moreover have "\<bar>sint a\<bar> < 2 ^ 128" using sint_i128_range [of a] by (auto simp: i128_range_def)
  ultimately show ?thesis by (simp add: unat_word_of_int)
qed

definition signed_int :: "bool \<Rightarrow> nat \<Rightarrow> int" where
  "signed_int negative m = (if negative then - int m else int m)"

text \<open>\<open>signed_magnitude\<close> succeeds exactly on the values of an \<open>i128\<close>, the minimum included.\<close>

lemma signed_magnitude_Ok:
  "signed_magnitude m negative = Ok v \<longleftrightarrow> sint v = signed_int negative (unat m)"
proof -
  have min: "sint (2 ^ 127 :: i128) = - (2 ^ 127)" by simp
  have word: "v = w \<longleftrightarrow> sint v = sint w" for w :: i128 by (auto intro: signed_word_eqI)
  have top: "unat (2 ^ 127 :: u128) = 2 ^ 127" by simp
  have m_top: "m = 2 ^ 127 \<longleftrightarrow> unat m = 2 ^ 127" by (metis top unsigned_word_eqI)
  have range: "sint v < 2 ^ 127" "- (2 ^ 127) \<le> sint v"
    using sint_i128_range [of v] by (simp_all add: i128_range_def)
  show ?thesis
  proof (cases negative)
    case False
    show ?thesis
    proof (cases "unat m < 2 ^ 127")
      case True
      have "m = v \<longleftrightarrow> sint v = int (unat m)" unfolding sint_small [OF True, symmetric] by (metis word)
      with True False show ?thesis by (simp add: signed_magnitude_def signed_int_def)
    next
      case False
      then have "\<not> int (unat m) < 2 ^ 127" unfolding of_nat_less_numeral_power_cancel_iff .
      then have "sint v \<noteq> int (unat m)" using range by linarith
      with False \<open>\<not> negative\<close> show ?thesis by (auto simp: signed_magnitude_def signed_int_def)
    qed
  next
    case True
    consider "unat m < 2 ^ 127" | "unat m = 2 ^ 127" | "unat m > 2 ^ 127" by linarith
    then show ?thesis
    proof cases
      case 1
      with True m_top sint_small [OF 1] show ?thesis
        by (auto simp: signed_magnitude_def signed_int_def result_simps checked_i128_Some)
    next
      case 2
      with True m_top min show ?thesis by (auto simp: signed_magnitude_def signed_int_def word)
    next
      case 3
      then have "2 ^ 127 < int (unat m)" unfolding numeral_power_less_of_nat_cancel_iff .
      then have "sint v \<noteq> - int (unat m)" using range by linarith
      with 3 True m_top show ?thesis by (auto simp: signed_magnitude_def signed_int_def)
    qed
  qed
qed

text \<open>The last steps of both operations: add the rounding unit, restore the sign.\<close>

lemma finish_rounding:
  "and_then (if up then ok_or (checked_add_u128 m 1) InvalidValue else Ok m)
     (\<lambda>m. and_then (signed_magnitude m negative) (\<lambda>v. Ok (FixedDecimal v))) = Ok c
   \<longleftrightarrow> sint (scaled c) = signed_int negative (if up then unat m + 1 else unat m)"
proof (cases "up \<and> \<not> unat m + 1 < 2 ^ 128")
  case True
  then have "unat m + 1 = 2 ^ 128" using unat_bound [of m] by simp
  then have "sint (scaled c) \<noteq> signed_int negative (unat m + 1)"
    using sint_i128_range [of "scaled c"] by (auto simp: signed_int_def i128_range_def)
  with True show ?thesis by (auto simp: checked_add_u128_def)
next
  case False
  define m' where "m' = (if up then m + 1 else m)"
  have "unat m' = (if up then unat m + 1 else unat m)"
    using False unat_add_lem [of m 1] by (auto simp: m'_def)
  moreover have "(if up then ok_or (checked_add_u128 m 1) InvalidValue else Ok m) = Ok m'"
    using False by (auto simp: checked_add_u128_def m'_def)
  ultimately show ?thesis
    by (cases c) (auto simp: result_simps signed_magnitude_Ok)
qed

lemma round_up_words:
  fixes q r d :: u128
  assumes "r \<le> d"
  shows "r > d - r \<or> (r = d - r \<and> q mod 2 = 1) \<longleftrightarrow> round_up (unat q) (unat r) (unat d)"
proof -
  have "unat (d - r) = unat d - unat r" using assms by (rule unat_sub)
  moreover have "q mod 2 = 1 \<longleftrightarrow> odd (unat q)"
  proof -
    have "unat (q mod 2) = unat q mod 2" by (simp add: unat_mod_distrib)
    then have "q mod 2 = 1 \<longleftrightarrow> unat q mod 2 = 1" by (metis unat_1 unsigned_word_eqI)
    then show ?thesis by (simp add: odd_iff_mod_2_eq_one)
  qed
  ultimately show ?thesis
    by (metis round_up_def unsigned_word_eqI word_less_nat_alt)
qed

lemma signed_round_nearest:
  assumes "0 < d" and "n = nat \<bar>a\<bar>" and "int d = \<bar>b\<bar>"
    and sign: "a \<noteq> 0 \<Longrightarrow> negative \<longleftrightarrow> (a < 0) \<noteq> (b < 0)"
  shows "c = signed_int negative (round_nat n d) \<longleftrightarrow> nearest_even c a b"
proof -
  have mag: "nearest_even (int (round_nat n d)) \<bar>a\<bar> \<bar>b\<bar>"
    using nearest_even_round_nat [OF assms(1), of n] assms(2,3) by simp
  have zero: "a = 0 \<Longrightarrow> round_nat n d = 0"
    using assms(1,2) by (simp add: round_nat_def round_up_def)
  have "nearest_even (signed_int negative (round_nat n d)) a b"
  proof (cases "a = 0")
    case True
    with zero assms(1,3) show ?thesis by (simp add: signed_int_def nearest_even_def)
  next
    case False
    with mag sign nearest_even_neg [of "int (round_nat n d)" "\<bar>a\<bar>" "\<bar>b\<bar>"]
      nearest_even_neg [of "int (round_nat n d)" "- a" b]
    show ?thesis
      by (auto simp: signed_int_def abs_if nearest_even_neg_den split: if_splits)
  qed
  moreover have "b \<noteq> 0" using assms(1,3) by auto
  ultimately show ?thesis using nearest_even_unique by blast
qed

section \<open>Long division digit by digit\<close>

lemma decimal_digit_loop_inv:
  assumes "decimal_digit_loop n r d (digit, acc) = (q, s)" "unat r < unat d" "unat acc < unat d"
    "unat digit * unat d + unat acc = i * unat r" "unat digit \<le> i" "i + n \<le> 10"
  shows "unat q * unat d + unat s = (i + n) * unat r \<and> unat s < unat d"
  using assms
proof (induction n arbitrary: digit acc i)
  case 0
  then show ?case by simp
next
  case (Suc n)
  note inv = Suc.prems(2-6)
  have dr: "unat (d - r) = unat d - unat r"
    by (rule unat_sub) (use inv(1) in \<open>simp add: word_le_nat_alt\<close>)
  show ?case
  proof (cases "acc \<ge> d - r")
    case True
    then have le: "unat d - unat r \<le> unat acc" by (simp add: word_le_nat_alt dr)
    have digit: "unat (digit + 1) = unat digit + 1"
      using inv(4,5) unat_add_lem [of digit 1] by simp
    have acc: "unat (acc - (d - r)) = unat acc - (unat d - unat r)"
      using unat_sub [OF True] by (simp add: dr)
    have "unat q * unat d + unat s = (Suc i + n) * unat r \<and> unat s < unat d"
    proof (rule Suc.IH [where digit = "digit + 1" and acc = "acc - (d - r)"])
      show "decimal_digit_loop n r d (digit + 1, acc - (d - r)) = (q, s)"
        using Suc.prems(1) True by simp
      show "unat (digit + 1) * unat d + unat (acc - (d - r)) = Suc i * unat r"
        unfolding digit acc using inv(1,3) le by simp
    qed (use inv digit acc le in auto)
    then show ?thesis by simp
  next
    case False
    then have less: "unat acc < unat d - unat r" by (simp add: word_le_nat_alt dr)
    then have "unat acc + unat r < 2 ^ LENGTH(128)" using unat_bound [of d] by linarith
    then have acc: "unat (acc + r) = unat acc + unat r" using unat_add_lem [of acc r] by simp
    have "unat q * unat d + unat s = (Suc i + n) * unat r \<and> unat s < unat d"
    proof (rule Suc.IH [where digit = digit and acc = "acc + r"])
      show "decimal_digit_loop n r d (digit, acc + r) = (q, s)"
        using Suc.prems(1) False by simp
    qed (use inv acc less in auto)
    then show ?thesis by simp
  qed
qed

lemma div_mod_unique:
  fixes q r n d :: nat
  assumes "q * d + r = n" "r < d"
  shows "q = n div d" "r = n mod d"
proof -
  have "(q * d + r) div d = q" "(q * d + r) mod d = r" using assms(2) by simp_all
  then show "q = n div d" "r = n mod d" using assms(1) by auto
qed

lemma decimal_digit_correct:
  assumes "decimal_digit r d = (q, s)" "unat r < unat d"
  shows "unat q = 10 * unat r div unat d" "unat s = 10 * unat r mod unat d"
proof -
  have "unat q * unat d + unat s = (0 + 10) * unat r \<and> unat s < unat d"
    by (rule decimal_digit_loop_inv [where digit = 0 and acc = 0 and i = 0])
      (use assms in \<open>auto simp: decimal_digit_def\<close>)
  then have eq: "unat q * unat d + unat s = 10 * unat r" and less: "unat s < unat d" by simp_all
  show "unat q = 10 * unat r div unat d" by (rule div_mod_unique(1) [OF eq less])
  show "unat s = 10 * unat r mod unat d" by (rule div_mod_unique(2) [OF eq less])
qed

lemma scale_div_mod:
  fixes n k d :: nat
  assumes "0 < d"
  shows "n div d * k + (n mod d * k) div d = n * k div d" "(n mod d * k) mod d = n * k mod d"
proof -
  have "n * k = (n div d * k) * d + n mod d * k"
    by (metis div_mult_mod_eq distrib_right mult.assoc mult.commute)
  with assms show "n div d * k + (n mod d * k) div d = n * k div d" by simp
  show "(n mod d * k) mod d = n * k mod d" by (rule mod_mult_left_eq)
qed

text \<open>\<open>n\<close> digits of the fraction fit below \<open>10 ^ 12\<close>, so no step of the loop overflows.\<close>

lemma fraction_loop_correct:
  assumes "unat r < unat d" "unat f < 10 ^ k" "k + n \<le> 12"
  shows "\<exists>f' r'. fraction_loop n d (f, r) = Ok (f', r') \<and>
    unat f' = unat f * 10 ^ n + unat r * 10 ^ n div unat d \<and> unat r' = unat r * 10 ^ n mod unat d"
  using assms
proof (induction n arbitrary: f r k)
  case 0
  then show ?case by simp
next
  case (Suc n)
  obtain q s where digit: "decimal_digit r d = (q, s)" by fastforce
  note qs = decimal_digit_correct [OF digit Suc.prems(1)]
  have d: "0 < unat d" using Suc.prems(1) by simp
  have q: "unat q < 10" using qs(1) Suc.prems(1) by (simp add: less_mult_imp_div_less)
  have s: "unat s < unat d" using qs(2) d by simp
  have bound: "unat f * 10 + unat q < 10 ^ Suc k" using Suc.prems(2) q by simp
  have "(10::nat) ^ Suc k \<le> 10 ^ 12" using Suc.prems(3) by (intro power_increasing) simp_all
  then have small: "unat f * 10 + unat q < 10 ^ 12" using bound by linarith
  define g where "g = f * 10 + ucast q"
  have mul: "unat (f * 10) = unat f * 10"
    using small unat_mult_lem [of f 10] by simp
  have cast: "unat (ucast q :: u128) = unat q" 
    using order.strict_trans [OF unat_byte_bound [of q], of "2 ^ 128"]
    by (simp add: unsigned_ucast_eq take_bit_nat_eq_self_iff)
  have g: "unat g = unat f * 10 + unat q"
    using small unat_add_lem [of "f * 10" "ucast q"] by (simp add: g_def mul cast)
  have step: "fraction_loop (Suc n) d (f, r) = fraction_loop n d (g, s)"
    using small by (simp add: digit checked_mul_u128_def checked_add_u128_def mul cast g_def)
  obtain f' r' where IH: "fraction_loop n d (g, s) = Ok (f', r')"
    "unat f' = unat g * 10 ^ n + unat s * 10 ^ n div unat d" "unat r' = unat s * 10 ^ n mod unat d"
    using Suc.IH [of s g "Suc k"] Suc.prems(3) bound s g by auto
  have "unat r * 10 ^ Suc n = 10 * unat r * 10 ^ n" by simp
  moreover note scale_div_mod [OF d, of "10 * unat r" "10 ^ n", folded qs]
  ultimately have "unat q * 10 ^ n + unat s * 10 ^ n div unat d = unat r * 10 ^ Suc n div unat d"
    "unat s * 10 ^ n mod unat d = unat r * 10 ^ Suc n mod unat d" by metis+
  then have "unat f' = unat f * 10 ^ Suc n + unat r * 10 ^ Suc n div unat d"
    and "unat r' = unat r * 10 ^ Suc n mod unat d"
    using IH(2,3) g by (simp_all add: algebra_simps)
  with step IH(1) show ?case by auto
qed

section \<open>Correctness of the operations\<close>

lemma fd_checked_add_Ok:
  "fd_checked_add x y = Ok c \<longleftrightarrow> sint (scaled c) = sint (scaled x) + sint (scaled y)"
  by (cases c) (auto simp: fd_checked_add_def result_simps checked_i128_Some)

lemma fd_checked_sub_Ok:
  "fd_checked_sub x y = Ok c \<longleftrightarrow> sint (scaled c) = sint (scaled x) - sint (scaled y)"
  by (cases c) (auto simp: fd_checked_sub_def result_simps checked_i128_Some)

text \<open>
  Exact multiplication. It succeeds exactly when the product of the scaled values
  fits an \<open>i128\<close> and is a multiple of the scale, and then returns the exact product.
\<close>

lemma fd_checked_mul_Ok:
  "fd_checked_mul x y = Ok c \<longleftrightarrow>
     i128_range (sint (scaled x) * sint (scaled y)) \<and>
     sint (scaled c) * FIXED_DECIMAL_FACTOR = sint (scaled x) * sint (scaled y)"
proof -
  let ?p = "sint (scaled x) * sint (scaled y)" and ?F = FIXED_DECIMAL_FACTOR
  have smod: "p smod ?F = 0 \<longleftrightarrow> ?F dvd p" for p
    by (auto simp: smod_int_alt_def sgn_if FIXED_DECIMAL_FACTOR_def dvd_eq_mod_eq_0 [symmetric])
  have sdiv: "p sdiv ?F * ?F = p" if "?F dvd p" for p
    using that by (simp add: signed_divide_int_eq_divide_int)
  have range: "i128_range q" if "i128_range (q * ?F)" for q
    using that by (auto simp: i128_range_def FIXED_DECIMAL_FACTOR_def)
  show ?thesis
  proof (cases "i128_range ?p \<and> ?F dvd ?p")
    case True
    then have q: "?p sdiv ?F * ?F = ?p" "i128_range (?p sdiv ?F)" using sdiv range by auto
    obtain w where "checked_i128 ?p = Some w" "sint w = ?p"
      using True checked_i128_Some [of ?p] by (metis checked_i128_def)
    then have "fd_checked_mul x y = Ok (FixedDecimal (word_of_int (?p sdiv ?F)))"
      using True smod by (simp add: fd_checked_mul_def)
    moreover have "FixedDecimal (word_of_int (?p sdiv ?F)) = c \<longleftrightarrow> sint (scaled c) = ?p sdiv ?F"
      using q(2) sint_of_i128_range by (metis fixed_decimal.exhaust_sel fixed_decimal.sel signed_word_eqI)
    moreover have "sint (scaled c) = ?p sdiv ?F \<longleftrightarrow> sint (scaled c) * ?F = ?p"
      using q(1) by (auto simp: FIXED_DECIMAL_FACTOR_def)
    ultimately show ?thesis using True by simp
  next
    case False
    have "fd_checked_mul x y \<noteq> Ok c"
    proof
      assume "fd_checked_mul x y = Ok c"
      then obtain w where "checked_i128 ?p = Some w" "sint w smod ?F = 0"
        by (auto simp: fd_checked_mul_def result_simps split: if_splits)
      with False smod sint_i128_range [of w] show False by (simp add: checked_i128_Some)
    qed
    moreover have "\<not> (i128_range ?p \<and> sint (scaled c) * ?F = ?p)"
      using False by (metis dvd_triv_right)
    ultimately show ?thesis by simp
  qed
qed

lemma unat_factor: "unat (word_of_int FIXED_DECIMAL_FACTOR :: u128) = 10 ^ 12"
  by (simp add: FIXED_DECIMAL_FACTOR_def)

lemma fd_mul_round_Ok:
  "fd_checked_mul_round_ties_even x y = Ok c \<longleftrightarrow>
     \<bar>sint (scaled x) * sint (scaled y)\<bar> < 2 ^ 128 \<and>
     nearest_even (sint (scaled c)) (sint (scaled x) * sint (scaled y)) FIXED_DECIMAL_FACTOR"
proof -
  let ?a = "sint (scaled x)" and ?b = "sint (scaled y)"
  let ?p = "unsigned_abs (scaled x) * unsigned_abs (scaled y)"
  let ?neg = "(?a < 0) \<noteq> (?b < 0)"
  let ?d = "word_of_int FIXED_DECIMAL_FACTOR :: u128"
  have prod: "unat (unsigned_abs (scaled x)) * unat (unsigned_abs (scaled y)) = nat \<bar>?a * ?b\<bar>"
    by (simp add: unat_unsigned_abs nat_mult_distrib abs_mult)
  have fits: "nat \<bar>?a * ?b\<bar> < 2 ^ 128 \<longleftrightarrow> \<bar>?a * ?b\<bar> < 2 ^ 128"
    by (simp add: nat_less_iff)
  show ?thesis
  proof (cases "\<bar>?a * ?b\<bar> < 2 ^ 128")
    case False
    then show ?thesis
      using fits prod by (simp add: fd_checked_mul_round_ties_even_def checked_mul_u128_def Let_def)
  next
    case True
    have p: "unat ?p = nat \<bar>?a * ?b\<bar>"
      using True fits prod unat_mult_lem [of "unsigned_abs (scaled x)" "unsigned_abs (scaled y)"] by simp
    have q: "unat (?p div ?d) = unat ?p div 10 ^ 12" and r: "unat (?p mod ?d) = unat ?p mod 10 ^ 12"
      by (simp_all only: unat_div_distrib unat_mod_distrib unat_factor)
    have "?p mod ?d \<le> ?d" by (simp add: word_le_nat_alt r unat_factor less_imp_le)
    then have up: "?p mod ?d > ?d - ?p mod ?d \<or> (?p mod ?d = ?d - ?p mod ?d \<and> (?p div ?d) mod 2 = 1)
        \<longleftrightarrow> round_up (unat ?p div 10 ^ 12) (unat ?p mod 10 ^ 12) (10 ^ 12)"
      by (simp only: round_up_words q r unat_factor)
    have "fd_checked_mul_round_ties_even x y = Ok c \<longleftrightarrow>
        sint (scaled c) = signed_int ?neg (round_nat (unat ?p) (10 ^ 12))"
      unfolding fd_checked_mul_round_ties_even_def Let_def checked_mul_u128_def prod
      using True fits by (simp only: if_True ok_or.simps and_then.simps up finish_rounding q round_nat_def)
    also have "\<dots> \<longleftrightarrow> nearest_even (sint (scaled c)) (?a * ?b) FIXED_DECIMAL_FACTOR"
      by (rule signed_round_nearest)
        (auto simp: p FIXED_DECIMAL_FACTOR_def mult_less_0_iff)
    finally show ?thesis using True by simp
  qed
qed

lemma fd_div_round_Ok:
  "fd_checked_div_round_ties_even x y = Ok c \<longleftrightarrow>
     scaled y \<noteq> 0 \<and>
     nearest_even (sint (scaled c)) (sint (scaled x) * FIXED_DECIMAL_FACTOR) (sint (scaled y))"
proof (cases "scaled y = 0")
  case True
  then show ?thesis by (simp add: fd_checked_div_round_ties_even_def)
next
  case False
  let ?a = "sint (scaled x)" and ?b = "sint (scaled y)"
  let ?neg = "(?a < 0) \<noteq> (?b < 0)"
  let ?n = "unsigned_abs (scaled x)" and ?d = "unsigned_abs (scaled y)"
  let ?f = "word_of_int FIXED_DECIMAL_FACTOR :: u128"
  define N where "N = unat ?n * 10 ^ 12"
  have b: "?b \<noteq> 0" using False by (metis sint_0 signed_word_eqI)
  then have d: "0 < unat ?d" by (simp add: unat_unsigned_abs)
  have rounded: "sint (scaled c) = signed_int ?neg (round_nat N (unat ?d)) \<longleftrightarrow>
      nearest_even (sint (scaled c)) (?a * FIXED_DECIMAL_FACTOR) ?b"
  proof (rule signed_round_nearest [OF d])
    show "N = nat \<bar>?a * FIXED_DECIMAL_FACTOR\<bar>"
      by (simp add: N_def unat_unsigned_abs FIXED_DECIMAL_FACTOR_def abs_mult nat_mult_distrib)
  qed (auto simp: unat_unsigned_abs FIXED_DECIMAL_FACTOR_def mult_less_0_iff)
  have q: "unat (?n div ?d) = unat ?n div unat ?d" and r: "unat (?n mod ?d) = unat ?n mod unat ?d"
    by (simp_all only: unat_div_distrib unat_mod_distrib)
  obtain f' r' where frac: "fraction_loop DECIMAL_SCALE ?d (0, ?n mod ?d) = Ok (f', r')"
    and f': "unat f' = unat ?n mod unat ?d * 10 ^ 12 div unat ?d"
    and r': "unat r' = unat ?n mod unat ?d * 10 ^ 12 mod unat ?d"
    using fraction_loop_correct [of "?n mod ?d" ?d 0 0 12] d by (auto simp: r DECIMAL_SCALE_def)
  have sum: "unat (?n div ?d) * unat ?f + unat f' = N div unat ?d"
    using scale_div_mod(1) [OF d, of "unat ?n" "10 ^ 12"] by (simp only: q f' unat_factor N_def)
  have r'N: "unat r' = N mod unat ?d"
    using scale_div_mod(2) [OF d, of "unat ?n" "10 ^ 12"] by (simp only: r' N_def)
  show ?thesis
  proof (cases "N div unat ?d < 2 ^ 128")
    case True
    have m: "unat (?n div ?d * ?f) = unat (?n div ?d) * unat ?f"
      and fits: "unat (?n div ?d) * unat ?f < 2 ^ 128"
      using True sum unat_mult_lem [of "?n div ?d" ?f] by simp_all
    have total: "unat (?n div ?d * ?f + f') = N div unat ?d"
      using True sum m unat_add_lem [of "?n div ?d * ?f" f'] by simp
    have added: "checked_add_u128 (?n div ?d * ?f) f' = Some (?n div ?d * ?f + f')"
      using True by (simp only: checked_add_u128_def m sum if_True)
    have "r' \<le> ?d" using r'N d by (simp add: word_le_nat_alt less_imp_le)
    then have up: "r' > ?d - r' \<or> (r' = ?d - r' \<and> (?n div ?d * ?f + f') mod 2 = 1)
        \<longleftrightarrow> round_up (N div unat ?d) (N mod unat ?d) (unat ?d)"
      by (simp only: round_up_words total r'N)
    show ?thesis
      unfolding rounded [symmetric] fd_checked_div_round_ties_even_def Let_def
        checked_mul_u128_def
      using False fits
      by (simp only: if_True if_False ok_or.simps and_then.simps frac prod.case added up
          finish_rounding total round_nat_def simp_thms not_False_eq_True)
  next
    case overflow: False
    have "\<not> fd_checked_div_round_ties_even x y = Ok c"
      using False overflow sum
      by (auto simp: fd_checked_div_round_ties_even_def Let_def result_simps frac
          checked_mul_u128_def checked_add_u128_def unat_word_ariths split: if_splits)
    moreover have "sint (scaled c) \<noteq> signed_int ?neg (round_nat N (unat ?d))"
    proof -
      have "2 ^ 128 \<le> round_nat N (unat ?d)" using overflow by (simp add: round_nat_def)
      then have "(2 :: int) ^ 128 \<le> int (round_nat N (unat ?d))"
        by (metis of_nat_le_iff of_nat_numeral of_nat_power)
      then show ?thesis
        using sint_i128_range [of "scaled c"] by (auto simp: signed_int_def i128_range_def)
    qed
    ultimately show ?thesis using rounded by blast
  qed
qed

section \<open>Rounding is correct for every operand\<close>

text \<open>
  Rounded multiplication. It succeeds exactly when the product of the two scaled
  values stays below \<open>2 ^ 128\<close> in magnitude and the decimal nearest to the product, ties to
  even, is representable; that decimal is the result.
\<close>


theorem mul_round_ties_even_nearest:
  "fd_checked_mul_round_ties_even x y = Ok c \<longleftrightarrow>
     \<bar>sint (scaled x) * sint (scaled y)\<bar> < 2 ^ 128 \<and>
     nearest_even (sint (scaled c)) (sint (scaled x) * sint (scaled y)) FIXED_DECIMAL_FACTOR"
  by (rule fd_mul_round_Ok)

text \<open>
  C31: rounded division. For every pair of operands it succeeds exactly when the divisor
  is not zero and the decimal nearest to the true quotient, ties to even, fits an \<open>i128\<close>; that
  decimal is the result. No intermediate value of the digit-by-digit division costs a result.
\<close>


theorem div_round_ties_even_nearest:
  "fd_checked_div_round_ties_even x y = Ok c \<longleftrightarrow>
     scaled y \<noteq> 0 \<and>
     nearest_even (sint (scaled c)) (sint (scaled x) * FIXED_DECIMAL_FACTOR) (sint (scaled y))"
  by (rule fd_div_round_Ok)

end
