(* ===== verification/Decimal_Value.thy ===== *)
theory Decimal_Value
  imports Fixed_Decimal
begin

text \<open>
  \<open>ficant-domain/src/primitives/decimal.rs\<close>: decimals with a unit, kept as a digit string and a
  scale. The constructor normalises its input; the theory shows that it keeps the value, that
  the result of a nonzero value is canonical, and what it does with zero.

  The arithmetic of the \<open>rust_decimal\<close> crate is a parameter of \<open>checked_add\<close> and \<open>compare\<close>.
\<close>

section \<open>Definitions\<close>

record unit_ref =
  ur_unit_id :: ulid
  ur_version :: version

record decimal_value =
  dv_coefficient :: string
  dv_scale :: u32
  dv_unit :: unit_ref

text \<open>\<open>str::parse::<i128>\<close>: an optional sign, at least one digit, a value in range.\<close>

definition digit_value :: "char \<Rightarrow> nat" where
  "digit_value c = of_char c - 48"

definition digits_value :: "string \<Rightarrow> nat" where
  "digits_value ds = foldl (\<lambda>n c. 10 * n + digit_value c) 0 ds"

fun sign_split :: "string \<Rightarrow> bool \<times> string" where
  "sign_split (c # ds) =
     (if c = CHR ''-'' then (True, ds) else if c = CHR ''+'' then (False, ds) else (False, c # ds))"
| "sign_split [] = (False, [])"

definition parse_i128 :: "string \<Rightarrow> i128 option" where
  "parse_i128 s =
     (case sign_split s of (negative, ds) \<Rightarrow>
        if ds = [] \<or> \<not> list_all is_ascii_digit ds then None
        else checked_i128 (signed_int negative (digits_value ds)))"

text \<open>\<open>while normalized_scale > 0 && digits.ends_with('0')\<close>, on the reversed digits.\<close>

fun strip_trailing_zeros :: "string \<Rightarrow> nat \<Rightarrow> string \<times> nat" where
  "strip_trailing_zeros (c # ds) (Suc s) =
     (if c = CHR ''0'' then strip_trailing_zeros ds s else (c # ds, Suc s))"
| "strip_trailing_zeros ds s = (ds, s)"

definition MAX_PRECISION :: nat where
  "MAX_PRECISION = 28"

definition MAX_SCALE :: u32 where
  "MAX_SCALE = 28"

definition decimal_value_new :: "string \<Rightarrow> u32 \<Rightarrow> unit_ref \<Rightarrow> decimal_value domain_result" where
  "decimal_value_new coefficient scale unit =
     (let (negative, unsigned) = sign_split coefficient in
      if unsigned = [] \<or> \<not> list_all is_ascii_digit unsigned
        \<or> length unsigned > MAX_PRECISION \<or> scale > MAX_SCALE
      then Err InvalidValue
      else
        let digits = dropWhile (\<lambda>c. c = CHR ''0'') unsigned;
            digits = (if digits = [] then ''0'' else digits);
            (rev_digits, normalized_scale) = strip_trailing_zeros (rev digits) (unat scale);
            digits = rev rev_digits;
            digits = (if digits = [] then ''0'' else digits);
            coefficient = (if negative \<and> digits \<noteq> ''0'' then CHR ''-'' # digits else digits)
        in and_then (ok_or (parse_i128 coefficient) InvalidValue)
             (\<lambda>_. Ok \<lparr>dv_coefficient = coefficient, dv_scale = word_of_nat normalized_scale,
                      dv_unit = unit\<rparr>))"

definition decimal_value_is_positive :: "decimal_value \<Rightarrow> bool" where
  "decimal_value_is_positive d =
     (case parse_i128 (dv_coefficient d) of Some c \<Rightarrow> 0 < sint c | None \<Rightarrow> False)"

text \<open>
  \<open>as_decimal\<close> panics when the coefficient does not parse; \<open>None\<close> is that panic. The last
  argument is \<open>Decimal::from_i128_with_scale\<close>.
\<close>

definition as_decimal :: "(i128 \<Rightarrow> u32 \<Rightarrow> 'd) \<Rightarrow> decimal_value \<Rightarrow> 'd option" where
  "as_decimal from_i128_with_scale d =
     map_option (\<lambda>c. from_i128_with_scale c (dv_scale d)) (parse_i128 (dv_coefficient d))"

text \<open>\<open>to_string\<close> of the integer types.\<close>

fun nat_to_digits :: "nat \<Rightarrow> string" where
  "nat_to_digits n = (if n < 10 then [char_of (48 + n)]
     else nat_to_digits (n div 10) @ [char_of (48 + n mod 10)])"

declare nat_to_digits.simps [simp del]

definition int_to_string :: "int \<Rightarrow> string" where
  "int_to_string v = (if v < 0 then CHR ''-'' # nat_to_digits (nat (- v)) else nat_to_digits (nat v))"

definition i128_to_string :: "i128 \<Rightarrow> string" where
  "i128_to_string v = int_to_string (sint v)"

definition decimal_value_checked_add ::
  "(i128 \<Rightarrow> u32 \<Rightarrow> 'd) \<Rightarrow> ('d \<Rightarrow> 'd \<Rightarrow> 'd option) \<Rightarrow> ('d \<Rightarrow> i128) \<Rightarrow> ('d \<Rightarrow> u32) \<Rightarrow>
   decimal_value \<Rightarrow> decimal_value \<Rightarrow> decimal_value domain_result option" where
  "decimal_value_checked_add from_i128_with_scale dec_add mantissa scale self other =
     (if dv_unit self \<noteq> dv_unit other then Some (Err InvalidUnit)
      else case (as_decimal from_i128_with_scale self, as_decimal from_i128_with_scale other) of
        (Some a, Some b) \<Rightarrow>
          Some (and_then (ok_or (dec_add a b) InvalidValue)
            (\<lambda>sum. decimal_value_new (i128_to_string (mantissa sum)) (scale sum) (dv_unit self)))
      | _ \<Rightarrow> None)"

definition decimal_value_compare ::
  "(i128 \<Rightarrow> u32 \<Rightarrow> 'd) \<Rightarrow> ('d \<Rightarrow> 'd \<Rightarrow> 'o) \<Rightarrow> decimal_value \<Rightarrow> decimal_value \<Rightarrow>
   'o domain_result option" where
  "decimal_value_compare from_i128_with_scale dec_cmp self other =
     (if dv_unit self \<noteq> dv_unit other then Some (Err InvalidUnit)
      else case (as_decimal from_i128_with_scale self, as_decimal from_i128_with_scale other) of
        (Some a, Some b) \<Rightarrow> Some (Ok (dec_cmp a b))
      | _ \<Rightarrow> None)"

section \<open>Digit strings\<close>

lemma digits_value_Nil [simp]: "digits_value [] = 0"
  by (simp add: digits_value_def)

lemma digits_value_snoc [simp]: "digits_value (ds @ [c]) = 10 * digits_value ds + digit_value c"
  by (simp add: digits_value_def)

lemma digit_value_0 [simp]: "digit_value CHR ''0'' = 0"
  by (simp add: digit_value_def)

lemma digit_value_less: "is_ascii_digit c \<Longrightarrow> digit_value c < 10"
  by (auto simp: is_ascii_digit_def digit_value_def)

lemma digit_value_inject:
  assumes "is_ascii_digit a" "is_ascii_digit b" "digit_value a = digit_value b"
  shows "a = b"
proof -
  have "(of_char a :: nat) = of_char b"
    using assms unfolding is_ascii_digit_def digit_value_def by linarith
  then show ?thesis by simp
qed

lemma digit_value_eq_0: "is_ascii_digit c \<Longrightarrow> digit_value c = 0 \<longleftrightarrow> c = CHR ''0''"
  using digit_value_inject [of c "CHR ''0''"] by (auto simp: is_ascii_digit_def)

lemma digits_value_bound: "list_all is_ascii_digit ds \<Longrightarrow> digits_value ds < 10 ^ length ds"
proof (induction ds rule: rev_induct)
  case (snoc c ds)
  then have "digits_value ds < 10 ^ length ds" "digit_value c < 10" by (auto simp: digit_value_less)
  then show ?case by simp
qed simp

lemma digits_value_lead_zeros:
  "digits_value (dropWhile (\<lambda>c. c = CHR ''0'') ds) = digits_value ds"
  by (induction ds) (simp_all add: digits_value_def)

lemma digits_value_Cons:
  "digits_value (c # ds) = digit_value c * 10 ^ length ds + digits_value ds"
  by (induction ds rule: rev_induct) (simp_all add: digits_value_def algebra_simps)

text \<open>Without a leading zero, the digits are determined by the number they write.\<close>

lemma digits_value_pos:
  "list_all is_ascii_digit ds \<Longrightarrow> ds \<noteq> [] \<Longrightarrow> hd ds \<noteq> CHR ''0'' \<Longrightarrow> 0 < digits_value ds"
  by (cases ds) (auto simp: digits_value_Cons digit_value_eq_0 simp flip: neq0_conv)

lemma digits_value_inject:
  assumes "list_all is_ascii_digit ds" "list_all is_ascii_digit es"
    "ds \<noteq> [] \<Longrightarrow> hd ds \<noteq> CHR ''0''" "es \<noteq> [] \<Longrightarrow> hd es \<noteq> CHR ''0''"
    "digits_value ds = digits_value es"
  shows "ds = es"
  using assms
proof (induction ds arbitrary: es rule: rev_induct)
  case Nil
  then show ?case using digits_value_pos [of es] by fastforce
next
  case (snoc c ds)
  have "es \<noteq> []" using snoc.prems digits_value_pos [of "ds @ [c]"] by force
  then obtain fs d where es: "es = fs @ [d]" by (metis rev_exhaust)
  have "digit_value c < 10" "digit_value d < 10" using snoc.prems es by (auto simp: digit_value_less)
  moreover have "10 * digits_value ds + digit_value c = 10 * digits_value fs + digit_value d"
    using snoc.prems(5) es by simp
  ultimately have "digits_value ds = digits_value fs" "digit_value c = digit_value d"
    by presburger+
  moreover have "ds \<noteq> [] \<Longrightarrow> hd ds \<noteq> CHR ''0''" "fs \<noteq> [] \<Longrightarrow> hd fs \<noteq> CHR ''0''"
    using snoc.prems es by auto
  ultimately have "ds = fs" "c = d"
    using snoc.IH [of fs] snoc.prems es digit_value_inject by auto
  then show ?case by (simp add: es)
qed

text \<open>Printing a number: its digits write it, without a leading zero, so different numbers print differently.\<close>

lemma char_of_digit: "n < 10 \<Longrightarrow> is_ascii_digit (char_of (48 + n)) \<and> digit_value (char_of (48 + n)) = n"
  by (simp add: is_ascii_digit_def digit_value_def of_char_of)

lemma nat_to_digits_value [simp]: "digits_value (nat_to_digits n) = n"
proof (induction n rule: nat_to_digits.induct)
  case (1 n)
  show ?case
  proof (cases "n < 10")
    case True
    then show ?thesis using char_of_digit [of n] by (simp add: nat_to_digits.simps [of n] digits_value_def)
  next
    case False
    then show ?thesis using 1 char_of_digit [of "n mod 10"] by (simp add: nat_to_digits.simps [of n])
  qed
qed

lemma nat_to_digits_inject [simp]: "nat_to_digits m = nat_to_digits n \<longleftrightarrow> m = n"
  by (metis nat_to_digits_value)

lemma nat_to_digits_ascii: "list_all is_ascii_digit (nat_to_digits n)"
proof (induction n rule: nat_to_digits.induct)
  case (1 n)
  then show ?case using char_of_digit [of n] char_of_digit [of "n mod 10"] by (simp add: nat_to_digits.simps [of n])
qed

lemma nat_to_digits_nonempty [simp]: "nat_to_digits n \<noteq> []"
  by (simp add: nat_to_digits.simps [of n])

lemma length_nat_to_digits: "n < 10 ^ k \<Longrightarrow> 0 < k \<Longrightarrow> length (nat_to_digits n) \<le> k"
proof (induction k arbitrary: n)
  case (Suc k)
  show ?case
  proof (cases "n < 10")
    case True
    then show ?thesis by (simp add: nat_to_digits.simps [of n])
  next
    case False
    then have "0 < k" using Suc.prems(1) by (cases k) auto
    moreover have "n div 10 < 10 ^ k" using Suc.prems(1) by (simp add: less_mult_imp_div_less)
    ultimately show ?thesis using Suc.IH [of "n div 10"] False by (simp add: nat_to_digits.simps [of n])
  qed
qed simp

lemma int_to_string_inject [simp]: "int_to_string v = int_to_string w \<longleftrightarrow> v = w"
proof -
  have "nat_to_digits n \<noteq> CHR ''-'' # ds" for n ds
    using nat_to_digits_ascii [of n] by (auto simp: is_ascii_digit_def)
  then show ?thesis by (auto simp: int_to_string_def) (metis (no_types, lifting))+
qed

lemma strip_trailing_zeros_value:
  "strip_trailing_zeros ds s = (es, t) \<Longrightarrow>
     t \<le> s \<and> digits_value (rev ds) = digits_value (rev es) * 10 ^ (s - t)"
  by (induction ds s arbitrary: es t rule: strip_trailing_zeros.induct)
    (auto split: if_splits simp: Suc_diff_le)

lemma strip_trailing_zeros_last:
  "strip_trailing_zeros ds s = (es, t) \<Longrightarrow> es = [] \<or> t = 0 \<or> hd es \<noteq> CHR ''0''"
  by (induction ds s arbitrary: es t rule: strip_trailing_zeros.induct) (auto split: if_splits)

lemma strip_trailing_zeros_suffix:
  "strip_trailing_zeros ds s = (es, t) \<Longrightarrow> \<exists>zs. ds = zs @ es"
proof (induction ds s arbitrary: es t rule: strip_trailing_zeros.induct)
  case (1 c ds s)
  then show ?case by (auto split: if_splits intro: exI [of _ "[]"] Cons_eq_appendI)
qed (auto intro: exI [of _ "[]"])

section \<open>Normalisation\<close>

text \<open>The input the constructor accepts, and the integer a coefficient writes.\<close>

definition decimal_input_ok :: "string \<Rightarrow> u32 \<Rightarrow> bool" where
  "decimal_input_ok coefficient scale \<longleftrightarrow>
     (let ds = snd (sign_split coefficient) in
      ds \<noteq> [] \<and> list_all is_ascii_digit ds \<and> length ds \<le> 28 \<and> unat scale \<le> 28)"

definition decimal_int :: "string \<Rightarrow> int" where
  "decimal_int s = (case sign_split s of (negative, ds) \<Rightarrow> signed_int negative (digits_value ds))"

text \<open>
  Digits as the normalisation leaves them, most significant first: at most 28, none leading zero
  except \<open>0\<close> itself, and no trailing zero while the scale is positive (again except \<open>0\<close>).
\<close>

definition normal_digits :: "string \<Rightarrow> nat \<Rightarrow> bool" where
  "normal_digits ds t \<longleftrightarrow>
     ds \<noteq> [] \<and> list_all is_ascii_digit ds \<and> length ds \<le> 28 \<and>
     (ds = ''0'' \<or> hd ds \<noteq> CHR ''0'' \<and> (t = 0 \<or> last ds \<noteq> CHR ''0''))"

definition normalize_digits :: "string \<Rightarrow> nat \<Rightarrow> string \<times> nat" where
  "normalize_digits ds s =
     (let digits = dropWhile (\<lambda>c. c = CHR ''0'') ds;
          digits = (if digits = [] then ''0'' else digits);
          (rev_digits, t) = strip_trailing_zeros (rev digits) s
      in (if rev_digits = [] then ''0'' else rev rev_digits, t))"

lemma normalize_value:
  "normalize_digits ds s = (es, t) \<Longrightarrow> t \<le> s \<and> digits_value ds = digits_value es * 10 ^ (s - t)"
proof -
  let ?ds = "dropWhile (\<lambda>c. c = CHR ''0'') ds"
  assume norm: "normalize_digits ds s = (es, t)"
  obtain fs where strip: "strip_trailing_zeros (rev (if ?ds = [] then ''0'' else ?ds)) s = (fs, t)"
    and es: "es = (if fs = [] then ''0'' else rev fs)"
    using norm by (auto simp: normalize_digits_def Let_def split: prod.splits)
  have zero: "digits_value ''0'' = 0" by (simp add: digits_value_def)
  have "digits_value (if fs = [] then ''0'' else fs) = digits_value fs" for fs
    using zero by (cases "fs = []") simp_all
  then have lead: "digits_value (if ?ds = [] then ''0'' else ?ds) = digits_value ds"
    unfolding digits_value_lead_zeros [of ds, symmetric] .
  have "digits_value (rev fs) = digits_value es" using zero es by (cases "fs = []") simp_all
  with strip_trailing_zeros_value [OF strip] lead show ?thesis by (simp only: rev_rev_ident)
qed

lemma normalize_normal:
  assumes "normalize_digits ds s = (es, t)" "list_all is_ascii_digit ds" "length ds \<le> 28"
  shows "normal_digits es t"
proof -
  let ?ds = "dropWhile (\<lambda>c. c = CHR ''0'') ds"
  define digits where "digits = (if ?ds = [] then ''0'' else ?ds)"
  obtain fs where strip: "strip_trailing_zeros (rev digits) s = (fs, t)"
    and es: "es = (if fs = [] then ''0'' else rev fs)"
    using assms(1) by (auto simp: normalize_digits_def Let_def digits_def split: prod.splits)
  obtain zs where zs: "rev digits = zs @ fs" using strip_trailing_zeros_suffix [OF strip] by blast
  then have digits: "digits = rev fs @ rev zs" by (metis rev_append rev_rev_ident)
  have all: "list_all is_ascii_digit digits" and len: "length digits \<le> 28"
    using assms(2,3) length_dropWhile_le [of "\<lambda>c. c = CHR ''0''" ds]
    by (auto simp: digits_def list_all_iff is_ascii_digit_def dest: set_dropWhileD)
  have lead: "digits = ''0'' \<or> hd digits \<noteq> CHR ''0''"
    using hd_dropWhile [of "\<lambda>c. c = CHR ''0''" ds] by (auto simp: digits_def)
  show ?thesis
  proof (cases "fs = []")
    case True
    then show ?thesis by (simp add: es normal_digits_def is_ascii_digit_def)
  next
    case False
    have "hd digits = last fs" using False digits by (simp add: hd_append hd_rev)
    moreover have "digits = ''0'' \<Longrightarrow> rev fs = ''0''" 
      using digits False by (cases "rev fs") auto
    ultimately show ?thesis
      using False lead all len digits strip_trailing_zeros_last [OF strip]
      by (auto simp: es normal_digits_def hd_rev last_rev list_all_iff)
  qed
qed

lemma normal_digits_unique:
  assumes "normal_digits ds s" "normal_digits es t" "digits_value ds * 10 ^ t = digits_value es * 10 ^ s"
    "digits_value ds \<noteq> 0" "s \<le> t"
  shows "ds = es \<and> s = t"
proof -
  have eq: "digits_value es = digits_value ds * 10 ^ (t - s)"
  proof -
    have "digits_value es * 10 ^ s = digits_value ds * 10 ^ (t - s) * 10 ^ s"
      using assms(3,5) by (simp add: mult.assoc flip: power_add)
    then show ?thesis by simp
  qed
  have ne: "ds \<noteq> ''0''" "es \<noteq> ''0''" using assms(4) eq by (auto simp: digits_value_def)
  have "s = t"
  proof (rule ccontr)
    assume "s \<noteq> t"
    with assms(5) have "10 dvd digits_value es" using eq by simp
    moreover obtain fs c where es: "es = fs @ [c]" using assms(2) by (metis normal_digits_def rev_exhaust)
    moreover have c: "is_ascii_digit c" using assms(2) es by (simp add: normal_digits_def)
    ultimately have "digit_value c = 0" using digit_value_less [OF c] by (simp add: dvd_eq_mod_eq_0)
    then have "last es = CHR ''0''" using c es by (simp add: digit_value_eq_0)
    then show False using assms(2,5) ne \<open>s \<noteq> t\<close> by (auto simp: normal_digits_def)
  qed
  moreover have "ds = es"
    by (rule digits_value_inject) (use assms(1,2) eq ne \<open>s = t\<close> in \<open>auto simp: normal_digits_def\<close>)
  ultimately show ?thesis by simp
qed

lemma sign_split_digit: "ds \<noteq> [] \<Longrightarrow> list_all is_ascii_digit ds \<Longrightarrow> sign_split ds = (False, ds)"
  by (cases ds) (auto simp: is_ascii_digit_def)

definition signed_digits :: "bool \<Rightarrow> string \<Rightarrow> string" where
  "signed_digits negative ds = (if negative \<and> ds \<noteq> ''0'' then CHR ''-'' # ds else ds)"

lemma sign_split_signed_digits:
  "normal_digits ds t \<Longrightarrow> sign_split (signed_digits negative ds) = (negative \<and> ds \<noteq> ''0'', ds)"
  by (auto simp: signed_digits_def normal_digits_def sign_split_digit)

lemma decimal_int_signed_digits:
  "normal_digits ds t \<Longrightarrow> decimal_int (signed_digits negative ds) = signed_int negative (digits_value ds)"
  using sign_split_signed_digits [of ds t negative]
  by (auto simp: decimal_int_def signed_int_def digits_value_def)

lemma parse_i128_signed_digits:
  assumes "normal_digits ds t"
  shows "parse_i128 (signed_digits negative ds) \<noteq> None"
proof -
  have "digits_value ds < 10 ^ length ds" using assms by (simp add: normal_digits_def digits_value_bound)
  also have "\<dots> \<le> (10::nat) ^ 28" using assms by (intro power_increasing) (simp_all add: normal_digits_def)
  finally have "int (digits_value ds) < 10 ^ 28" by simp
  then have "i128_range (signed_int neg (digits_value ds))" for neg
    by (auto simp: i128_range_def signed_int_def)
  with assms show ?thesis
    by (simp add: parse_i128_def sign_split_signed_digits [OF assms] normal_digits_def checked_i128_def)
qed

text \<open>The constructor in terms of the normalisation; the final parse never fails.\<close>

lemma decimal_value_new_eq:
  "decimal_value_new coefficient scale unit =
     (if decimal_input_ok coefficient scale
      then let (negative, ds) = sign_split coefficient; (es, t) = normalize_digits ds (unat scale) in
        Ok \<lparr>dv_coefficient = signed_digits negative es, dv_scale = word_of_nat t, dv_unit = unit\<rparr>
      else Err InvalidValue)"
proof -
  obtain negative ds where split: "sign_split coefficient = (negative, ds)" by fastforce
  obtain es t where norm: "normalize_digits ds (unat scale) = (es, t)" by fastforce
  show ?thesis
  proof (cases "decimal_input_ok coefficient scale")
    case True
    have input: "ds \<noteq> []" "list_all is_ascii_digit ds" "length ds \<le> 28"
      "\<not> 28 < length ds" "\<not> 28 < scale"
      using True split by (auto simp: decimal_input_ok_def word_less_nat_alt)
    obtain c where parse: "parse_i128 (signed_digits negative es) = Some c"
      using parse_i128_signed_digits [OF normalize_normal [OF norm input(2,3)]] by blast
    obtain fs where "strip_trailing_zeros (rev (if dropWhile (\<lambda>c. c = CHR ''0'') ds = [] then ''0''
        else dropWhile (\<lambda>c. c = CHR ''0'') ds)) (unat scale) = (fs, t)"
      and es: "es = (if rev fs = [] then ''0'' else rev fs)"
      using norm by (auto simp: normalize_digits_def Let_def split: prod.splits)
    with True input parse show ?thesis
      unfolding decimal_value_new_def Let_def split norm prod.case MAX_PRECISION_def MAX_SCALE_def
        signed_digits_def es
      by (simp only: if_True if_False ok_or.simps and_then.simps simp_thms prod.case)
  next
    case False
    then have "ds = [] \<or> \<not> list_all is_ascii_digit ds \<or> length ds > 28 \<or> scale > 28"
      using split by (auto simp: decimal_input_ok_def word_less_nat_alt)
    with False split show ?thesis
      by (auto simp: decimal_value_new_def MAX_PRECISION_def MAX_SCALE_def)
  qed
qed

lemma decimal_value_new_Ok:
  assumes "decimal_value_new coefficient scale unit = Ok d"
  obtains negative ds es where "sign_split coefficient = (negative, ds)"
    "normalize_digits ds (unat scale) = (es, unat (dv_scale d))" "normal_digits es (unat (dv_scale d))"
    "dv_coefficient d = signed_digits negative es" "dv_unit d = unit"
proof -
  obtain negative ds where split: "sign_split coefficient = (negative, ds)" by fastforce
  obtain es t where norm: "normalize_digits ds (unat scale) = (es, t)" by fastforce
  have ok: "decimal_input_ok coefficient scale" using assms by (auto simp: decimal_value_new_eq split: if_splits)
  then have t: "t < 2 ^ 32" and digits: "list_all is_ascii_digit ds" "length ds \<le> 28"
    using normalize_value [OF norm] split by (auto simp: decimal_input_ok_def)
  from assms ok have d: "d = \<lparr>dv_coefficient = signed_digits negative es, dv_scale = word_of_nat t, dv_unit = unit\<rparr>"
    by (simp add: decimal_value_new_eq split norm)
  with t have "unat (dv_scale d) = t" by (simp add: unat_of_nat)
  with that [of negative ds es] split norm normalize_normal [OF norm digits] d show ?thesis by simp
qed

text \<open>
  The constructor accepts exactly an optional sign and one to 28 digits with a scale
  of at most 28; what it builds writes the same number (the coefficient times the power of ten
  taken off the scale is the coefficient given), and its coefficient parses as an \<open>i128\<close>, so
  the later conversion cannot panic.
\<close>

theorem decimal_value_new_keeps_value:
  "(if decimal_input_ok coefficient scale
    then \<exists>d. decimal_value_new coefficient scale unit = Ok d \<and> dv_unit d = unit \<and>
      unat (dv_scale d) \<le> unat scale \<and> parse_i128 (dv_coefficient d) \<noteq> None \<and>
      decimal_int (dv_coefficient d) * 10 ^ (unat scale - unat (dv_scale d)) = decimal_int coefficient
    else decimal_value_new coefficient scale unit = Err InvalidValue)"
proof (cases "decimal_input_ok coefficient scale")
  case True
  then obtain d where d: "decimal_value_new coefficient scale unit = Ok d"
    unfolding decimal_value_new_eq Let_def by (metis (no_types, lifting) case_prod_beta')
  then obtain negative ds es where split: "sign_split coefficient = (negative, ds)"
    and norm: "normalize_digits ds (unat scale) = (es, unat (dv_scale d))"
    and digits: "normal_digits es (unat (dv_scale d))"
    and c: "dv_coefficient d = signed_digits negative es" and u: "dv_unit d = unit"
    by (rule decimal_value_new_Ok)
  have "decimal_int (dv_coefficient d) * 10 ^ (unat scale - unat (dv_scale d)) = decimal_int coefficient"
    unfolding c decimal_int_signed_digits [OF digits] using normalize_value [OF norm]
    by (simp add: decimal_int_def split signed_int_def)
  with True d u normalize_value [OF norm] parse_i128_signed_digits [OF digits] c show ?thesis by simp
next
  case False
  then show ?thesis by (simp add: decimal_value_new_eq)
qed

lemma signed_int_scaled_eq:
  assumes "signed_int na A * 10 ^ t = signed_int nb B * 10 ^ s" "A \<noteq> 0"
  shows "A * 10 ^ t = B * 10 ^ s" "na = nb"
proof -
  have abs: "\<bar>signed_int n X * 10 ^ k\<bar> = int (X * 10 ^ k)" for n X k
    by (simp add: signed_int_def abs_mult)
  show eq: "A * 10 ^ t = B * 10 ^ s" using assms(1) abs [of na A t] abs [of nb B s] by (simp only: of_nat_eq_iff)
  then have "B \<noteq> 0" using assms(2) by (metis mult_eq_0_iff power_not_zero zero_neq_numeral)
  have neg: "signed_int n X * 10 ^ k < 0 \<longleftrightarrow> n" if "X \<noteq> 0" for n X k
    using that by (auto simp: signed_int_def mult_less_0_iff zero_less_mult_iff)
  show "na = nb" using assms neg [of A na t] neg [OF \<open>B \<noteq> 0\<close>, of nb s] by simp
qed

text \<open>
  Two inputs that write the same nonzero number in the same unit give the same
  \<open>DecimalValue\<close>, whatever their leading and trailing zeros and scales, so the derived equality
  of nonzero values is numeric equality.
\<close>

theorem decimal_value_canonical:
  assumes "decimal_value_new a s unit = Ok d" "decimal_value_new b t unit = Ok e"
    and "decimal_int a \<noteq> 0"
  shows "d = e \<longleftrightarrow> decimal_int a * 10 ^ unat t = decimal_int b * 10 ^ unat s"
proof -
  obtain na ds es where a: "sign_split a = (na, ds)" "normalize_digits ds (unat s) = (es, unat (dv_scale d))"
      "normal_digits es (unat (dv_scale d))" "dv_coefficient d = signed_digits na es" "dv_unit d = unit"
    using assms(1) by (rule decimal_value_new_Ok)
  obtain nb fs gs where b: "sign_split b = (nb, fs)" "normalize_digits fs (unat t) = (gs, unat (dv_scale e))"
      "normal_digits gs (unat (dv_scale e))" "dv_coefficient e = signed_digits nb gs" "dv_unit e = unit"
    using assms(2) by (rule decimal_value_new_Ok)
  let ?A = "signed_int na (digits_value es)" and ?B = "signed_int nb (digits_value gs)"
  let ?s = "unat (dv_scale d)" and ?t = "unat (dv_scale e)"
  have s: "?s \<le> unat s" "digits_value ds = digits_value es * 10 ^ (unat s - ?s)"
    and t: "?t \<le> unat t" "digits_value fs = digits_value gs * 10 ^ (unat t - ?t)"
    using normalize_value [OF a(2)] normalize_value [OF b(2)] by simp_all
  have ints: "decimal_int a = ?A * 10 ^ (unat s - ?s)" "decimal_int b = ?B * 10 ^ (unat t - ?t)"
    using a(1) b(1) s(2) t(2) by (simp_all add: decimal_int_def signed_int_def)
  have "decimal_int a * 10 ^ unat t = ?A * 10 ^ ?t * (10 ^ (unat s - ?s) * 10 ^ (unat t - ?t))"
    "decimal_int b * 10 ^ unat s = ?B * 10 ^ ?s * (10 ^ (unat s - ?s) * 10 ^ (unat t - ?t))"
    using s(1) t(1) by (simp_all add: ints ac_simps flip: power_add)
  then have key: "decimal_int a * 10 ^ unat t = decimal_int b * 10 ^ unat s \<longleftrightarrow> ?A * 10 ^ ?t = ?B * 10 ^ ?s"
    by simp
  have pos: "digits_value es \<noteq> 0" using assms(3) ints(1) by (auto simp: signed_int_def split: if_splits)
  show ?thesis
  proof
    assume "d = e"
    moreover have "?A = decimal_int (dv_coefficient d)" "?B = decimal_int (dv_coefficient e)"
      using decimal_int_signed_digits [OF a(3)] decimal_int_signed_digits [OF b(3)] a(4) b(4) by simp_all
    ultimately show "decimal_int a * 10 ^ unat t = decimal_int b * 10 ^ unat s" using key by simp
  next
    assume "decimal_int a * 10 ^ unat t = decimal_int b * 10 ^ unat s"
    then have scaled: "?A * 10 ^ ?t = ?B * 10 ^ ?s" using key by simp
    have digits: "digits_value es * 10 ^ ?t = digits_value gs * 10 ^ ?s" and neg: "na = nb"
      using signed_int_scaled_eq [OF scaled pos] by simp_all
    have pos': "digits_value gs \<noteq> 0"
      using digits pos by (metis mult_eq_0_iff power_not_zero zero_neq_numeral)
    have "es = gs \<and> ?s = ?t"
      using normal_digits_unique [OF a(3) b(3) digits pos]
        normal_digits_unique [OF b(3) a(3) digits [symmetric] pos'] by linarith
    then show "d = e" using a(4,5) b(4,5) neg unsigned_word_eqI [of "dv_scale d" "dv_scale e"]
      by (cases d; cases e) simp
  qed
qed

text \<open>
  Zero is the exception. Every spelling of zero at a positive scale comes back with
  that scale reduced by one, so zeros given at two scales above one are different values.
\<close>

theorem decimal_value_zero_scale:
  assumes "decimal_input_ok coefficient scale" "decimal_int coefficient = 0"
  shows "decimal_value_new coefficient scale unit =
    Ok \<lparr>dv_coefficient = ''0'', dv_scale = (if scale = 0 then 0 else scale - 1), dv_unit = unit\<rparr>"
proof -
  obtain negative ds where split: "sign_split coefficient = (negative, ds)" by fastforce
  have "digits_value ds = 0" and digits: "list_all is_ascii_digit ds"
    using assms split by (auto simp: decimal_int_def decimal_input_ok_def signed_int_def split: if_splits)
  then have "digits_value (dropWhile (\<lambda>c. c = CHR ''0'') ds) = 0"
    using digits_value_lead_zeros [of ds] by simp
  moreover have "list_all is_ascii_digit (dropWhile (\<lambda>c. c = CHR ''0'') ds)"
    using digits by (auto simp: list_all_iff dest: set_dropWhileD)
  ultimately have "dropWhile (\<lambda>c. c = CHR ''0'') ds = []"
    using digits_value_pos [of "dropWhile (\<lambda>c. c = CHR ''0'') ds"] hd_dropWhile [of "\<lambda>c. c = CHR ''0''" ds]
    by (metis less_irrefl)
  then have norm: "normalize_digits ds (unat scale) = (''0'', unat scale - 1)"
    by (cases "unat scale") (simp_all add: normalize_digits_def del: dropWhile_eq_Nil_conv)
  have "(word_of_nat (unat scale - 1) :: u32) = (if scale = 0 then 0 else scale - 1)"
    by (simp add: of_nat_diff unat_eq_0 Suc_le_eq flip: neq0_conv)
  then show ?thesis
    using assms(1) by (simp add: decimal_value_new_eq split norm signed_digits_def)
qed

text \<open>Witnesses: 1.50 given as \<open>+0150\<close> at scale 2 and as \<open>15\<close> at scale 1; zero at scale 2.\<close>

definition sample_unit :: unit_ref where
  "sample_unit = \<lparr>ur_unit_id = Ulid ''01ARZ3NDEKTSV4RRFFQ69G5FAV'', ur_version = Version 1\<rparr>"

lemma decimal_value_canonical_witness:
  "decimal_value_new ''+0150'' 2 sample_unit = decimal_value_new ''15'' 1 sample_unit \<and>
   decimal_int ''+0150'' * 10 ^ 1 = decimal_int ''15'' * 10 ^ 2"
proof -
  have "decimal_value_new ''+0150'' 2 sample_unit = Ok \<lparr>dv_coefficient = ''15'', dv_scale = 1, dv_unit = sample_unit\<rparr>"
    "decimal_value_new ''15'' 1 sample_unit = Ok \<lparr>dv_coefficient = ''15'', dv_scale = 1, dv_unit = sample_unit\<rparr>"
    "decimal_int ''+0150'' \<noteq> 0"
    by code_simp+
  with decimal_value_canonical [OF this] show ?thesis by simp
qed

lemma decimal_value_zero_scale_witness:
  "decimal_value_new ''-00'' 3 sample_unit = Ok \<lparr>dv_coefficient = ''0'', dv_scale = 2, dv_unit = sample_unit\<rparr>"
proof -
  have "decimal_input_ok ''-00'' 3" "decimal_int ''-00'' = 0" by code_simp+
  from decimal_value_zero_scale [OF this] show ?thesis by simp
qed

end
