(* ===== verification/Replay_Amount.thy ===== *)
theory Replay_Amount
  imports Complex_Main Decimal_Value Ordered_Map
begin

text \<open>
  The amounts of the bar replay (\<open>ReplayAmount\<close> of \<open>ficant-domain/src/replay/mod.rs\<close>) and the
  decimal arithmetic below them.

  A \<open>Decimal\<close> of the \<open>rust_decimal\<close> crate is a value of the type variable \<open>'d\<close>, its operations are
  the fields of the record \<open>decimal_ops\<close>, an argument of every definition that computes with
  amounts. An operation of the crate that overflows panics, and the replay then ends without a
  result; the operations are total here, so a theorem speaks about the runs in which none
  panics. Equality and order of decimals are numeric in the crate (\<open>1.0 == 1.00\<close>), so
  comparisons use \<open>d_le\<close> and never the equality of \<open>'d\<close>. \<open>rat_ops\<close> is exact arithmetic: what the
  crate computes as long as no result needs more than its 28 digits.
\<close>

section \<open>Decimal arithmetic\<close>

record 'd decimal_ops =
  d_int :: "int \<Rightarrow> 'd"
  d_scaled :: "i128 \<Rightarrow> u32 \<Rightarrow> 'd"
  d_parse :: "string \<Rightarrow> 'd option"
  d_text :: "'d \<Rightarrow> string"
  d_normalize :: "'d \<Rightarrow> 'd"
  d_add :: "'d \<Rightarrow> 'd \<Rightarrow> 'd"
  d_sub :: "'d \<Rightarrow> 'd \<Rightarrow> 'd"
  d_mul :: "'d \<Rightarrow> 'd \<Rightarrow> 'd"
  d_div :: "'d \<Rightarrow> 'd \<Rightarrow> 'd"
  d_neg :: "'d \<Rightarrow> 'd"
  d_abs :: "'d \<Rightarrow> 'd"
  d_le :: "'d \<Rightarrow> 'd \<Rightarrow> bool"
  d_is_zero :: "'d \<Rightarrow> bool"
  d_is_sign_negative :: "'d \<Rightarrow> bool"
  d_round_to_zero :: "'d \<Rightarrow> 'd"
  d_round_nearest_even :: "'d \<Rightarrow> 'd"

text \<open>
  The two roundings are \<open>round_dp_with_strategy(DECIMAL_SCALE, ...)\<close> with \<open>ToZero\<close> and
  \<open>MidpointNearestEven\<close>. \<open>max\<close> and \<open>min\<close> are \<open>Decimal::max\<close> and \<open>Decimal::min\<close>.
\<close>

definition d_zero :: "'d decimal_ops \<Rightarrow> 'd" where
  "d_zero ops = d_int ops 0"

definition d_hundred :: "'d decimal_ops \<Rightarrow> 'd" where
  "d_hundred ops = d_int ops 100"

definition d_lt :: "'d decimal_ops \<Rightarrow> 'd \<Rightarrow> 'd \<Rightarrow> bool" where
  "d_lt ops a b \<longleftrightarrow> \<not> d_le ops b a"

definition d_eq :: "'d decimal_ops \<Rightarrow> 'd \<Rightarrow> 'd \<Rightarrow> bool" where
  "d_eq ops a b \<longleftrightarrow> d_le ops a b \<and> d_le ops b a"

definition d_max :: "'d decimal_ops \<Rightarrow> 'd \<Rightarrow> 'd \<Rightarrow> 'd" where
  "d_max ops a b = (if d_lt ops a b then b else a)"

definition d_min :: "'d decimal_ops \<Rightarrow> 'd \<Rightarrow> 'd \<Rightarrow> 'd" where
  "d_min ops a b = (if d_lt ops b a then b else a)"

definition d_sum :: "'d decimal_ops \<Rightarrow> 'd list \<Rightarrow> 'd" where
  "d_sum ops xs = fold (\<lambda>x s. d_add ops s x) xs (d_zero ops)"

section \<open>Amounts\<close>

text \<open>A \<open>ReplayAmount\<close> is the decimal it wraps.\<close>

definition amount_from_decimal :: "'d decimal_ops \<Rightarrow> 'd \<Rightarrow> 'd" where
  "amount_from_decimal ops d = d_normalize ops d"

definition amount_parse :: "'d decimal_ops \<Rightarrow> string \<Rightarrow> 'd domain_result" where
  "amount_parse ops text =
     (case d_parse ops text of None \<Rightarrow> Err InvalidValue | Some v \<Rightarrow> Ok (d_normalize ops v))"

definition amount_plus :: "'d decimal_ops \<Rightarrow> 'd \<Rightarrow> 'd \<Rightarrow> 'd" where
  "amount_plus ops a b = amount_from_decimal ops (d_add ops a b)"

definition amount_minus :: "'d decimal_ops \<Rightarrow> 'd \<Rightarrow> 'd \<Rightarrow> 'd" where
  "amount_minus ops a b = amount_from_decimal ops (d_sub ops a b)"

definition amount_canonical :: "'d decimal_ops \<Rightarrow> 'd \<Rightarrow> string" where
  "amount_canonical ops a = d_text ops (d_normalize ops a)"

definition amount_from_fixed :: "'d decimal_ops \<Rightarrow> fixed_decimal \<Rightarrow> 'd" where
  "amount_from_fixed ops v = amount_from_decimal ops (d_scaled ops (scaled v) (word_of_nat DECIMAL_SCALE))"

text \<open>
  \<open>ReplayAmount::of\<close> panics when the coefficient does not parse, which the constructor of
  \<open>DecimalValue\<close> excludes (\<open>amount_of_constructed\<close>); the value chosen there is never used.
\<close>

definition amount_of :: "'d decimal_ops \<Rightarrow> decimal_value \<Rightarrow> 'd" where
  "amount_of ops v =
     (case as_decimal (d_scaled ops) v of
        None \<Rightarrow> d_zero ops
      | Some d \<Rightarrow> d_normalize ops d)"

lemma amount_of_constructed:
  assumes "decimal_value_new c s u = Ok v"
  shows "\<exists>k. parse_i128 (dv_coefficient v) = Some k \<and> amount_of ops v = d_normalize ops (d_scaled ops k (dv_scale v))"
proof -
  obtain k where "parse_i128 (dv_coefficient v) = Some k"
    using decimal_value_new_Ok [OF assms] parse_i128_signed_digits by (metis not_None_eq)
  then show ?thesis by (simp add: amount_of_def as_decimal_def)
qed

section \<open>Exact arithmetic\<close>

definition rat_scale :: rat where
  "rat_scale = 1000000000000"

definition rat_truncate :: "rat \<Rightarrow> rat" where
  "rat_truncate x = (if x < 0 then of_int \<lceil>x * rat_scale\<rceil> else of_int \<lfloor>x * rat_scale\<rfloor>) / rat_scale"

definition rat_nearest_even :: "rat \<Rightarrow> rat" where
  "rat_nearest_even x =
     (let n = \<lfloor>x * rat_scale\<rfloor>; r = x * rat_scale - of_int n
      in of_int (if r < 1 / 2 \<or> (r = 1 / 2 \<and> even n) then n else n + 1) / rat_scale)"

definition rat_text :: "rat \<Rightarrow> string" where
  "rat_text x = (case quotient_of x of (p, q) \<Rightarrow> int_to_string p @ ''/'' @ int_to_string q)"

definition rat_parse :: "string \<Rightarrow> rat option" where
  "rat_parse s = map_option (\<lambda>c. of_int (sint c)) (parse_i128 s)"

definition rat_ops :: "rat decimal_ops" where
  "rat_ops =
     \<lparr>d_int = of_int, d_scaled = \<lambda>c s. of_int (sint c) / 10 ^ unat s, d_parse = rat_parse,
      d_text = rat_text, d_normalize = \<lambda>x. x, d_add = (+), d_sub = (-), d_mul = (*), d_div = (/),
      d_neg = uminus, d_abs = abs, d_le = (\<le>), d_is_zero = \<lambda>x. x = 0,
      d_is_sign_negative = \<lambda>x. x < 0, d_round_to_zero = rat_truncate,
      d_round_nearest_even = rat_nearest_even\<rparr>"

lemma rat_ops_simps [simp]:
  "d_int rat_ops = of_int" "d_scaled rat_ops = (\<lambda>c s. of_int (sint c) / 10 ^ unat s)"
  "d_normalize rat_ops = (\<lambda>x. x)" "d_add rat_ops = (+)" "d_sub rat_ops = (-)" "d_mul rat_ops = (*)"
  "d_div rat_ops = (/)" "d_neg rat_ops = uminus" "d_abs rat_ops = abs" "d_le rat_ops = (\<le>)"
  "d_is_zero rat_ops = (\<lambda>x. x = 0)" "d_is_sign_negative rat_ops = (\<lambda>x. x < 0)"
  "d_round_to_zero rat_ops = rat_truncate" "d_round_nearest_even rat_ops = rat_nearest_even"
  "d_text rat_ops = rat_text" "d_parse rat_ops = rat_parse"
  by (simp_all add: rat_ops_def)

lemma rat_derived_simps [simp]:
  "d_zero rat_ops = 0" "d_hundred rat_ops = 100" "d_lt rat_ops = (<)" "d_eq rat_ops = (=)"
  "d_max rat_ops = max" "d_min rat_ops = min" "amount_from_decimal rat_ops = (\<lambda>x. x)"
  "amount_plus rat_ops = (+)" "amount_minus rat_ops = (-)"
  by (auto simp: d_zero_def d_hundred_def d_lt_def d_eq_def d_max_def d_min_def max_def min_def
      amount_from_decimal_def amount_plus_def amount_minus_def fun_eq_iff)

lemma rat_sum [simp]: "d_sum rat_ops xs = sum_list xs"
proof -
  have "fold (\<lambda>x s. s + x) xs a = a + sum_list xs" for a :: rat
    by (induction xs arbitrary: a) (auto simp: algebra_simps)
  then show ?thesis by (simp add: d_sum_def)
qed

lemma rat_truncate_le: "0 \<le> x \<Longrightarrow> rat_truncate x \<le> x"
  by (simp add: rat_truncate_def rat_scale_def field_simps)

lemma rat_truncate_nonneg: "0 \<le> x \<Longrightarrow> 0 \<le> rat_truncate x"
  by (simp add: rat_truncate_def rat_scale_def)

lemma rat_truncate_less: "0 \<le> x \<Longrightarrow> x < rat_truncate x + 1 / rat_scale"
  by (simp add: rat_truncate_def rat_scale_def field_simps) linarith

end
