(* ===== verification/Market_Bar.thy ===== *)
theory Market_Bar
  imports Replay_Amount
begin

text \<open>
  The canonical bar (\<open>ficant-domain/src/market/bar.rs\<close>): one instrument, one settlement type and
  one frequency over one half-open interval, with its constructor's rules. The fields of the
  record are those of \<open>BarInput\<close>; a \<open>Bar\<close> only wraps it. \<open>chrono\<close> and \<open>chrono_tz\<close> are the
  parameter \<open>chrono_ops\<close>: parsing of a zone name, local date and wall clock of an instant in a
  zone, elapsed nanoseconds between instants and days between dates.
\<close>

section \<open>Orders of the keys\<close>

text \<open>\<open>VersionRef\<close> is ordered by identity, then version; a date by year, month and day.\<close>

instantiation version_ref_ext :: (linorder) linorder
begin

definition less_eq_version_ref_ext :: "'a version_ref_ext \<Rightarrow> 'a version_ref_ext \<Rightarrow> bool" where
  "less_eq_version_ref_ext a b \<longleftrightarrow>
     (vr_id a, vr_version a, version_ref.more a) \<le> (vr_id b, vr_version b, version_ref.more b)"

definition less_version_ref_ext :: "'a version_ref_ext \<Rightarrow> 'a version_ref_ext \<Rightarrow> bool" where
  "less_version_ref_ext a b \<longleftrightarrow>
     (vr_id a, vr_version a, version_ref.more a) < (vr_id b, vr_version b, version_ref.more b)"

instance
proof
  fix a b c :: "'a version_ref_ext"
  show "a < b \<longleftrightarrow> a \<le> b \<and> \<not> b \<le> a"
    unfolding less_eq_version_ref_ext_def less_version_ref_ext_def by (rule less_le_not_le)
  show "a \<le> a" unfolding less_eq_version_ref_ext_def by (rule order_refl)
  show "a \<le> c" if "a \<le> b" "b \<le> c"
    using that unfolding less_eq_version_ref_ext_def by (rule order_trans)
  show "a = b" if "a \<le> b" "b \<le> a"
  proof -
    have "(vr_id a, vr_version a, version_ref.more a) = (vr_id b, vr_version b, version_ref.more b)"
      using that unfolding less_eq_version_ref_ext_def by (rule order_antisym)
    then show "a = b" by (cases a; cases b) simp
  qed
  show "a \<le> b \<or> b \<le> a" unfolding less_eq_version_ref_ext_def by (rule linear)
qed

end

instantiation naive_date :: linorder
begin

definition less_eq_naive_date :: "naive_date \<Rightarrow> naive_date \<Rightarrow> bool" where
  "less_eq_naive_date a b \<longleftrightarrow> (sint (nd_year a), nd_month a, nd_day a) \<le> (sint (nd_year b), nd_month b, nd_day b)"

definition less_naive_date :: "naive_date \<Rightarrow> naive_date \<Rightarrow> bool" where
  "less_naive_date a b \<longleftrightarrow> (sint (nd_year a), nd_month a, nd_day a) < (sint (nd_year b), nd_month b, nd_day b)"

instance
proof
  fix a b c :: naive_date
  show "a < b \<longleftrightarrow> a \<le> b \<and> \<not> b \<le> a"
    unfolding less_eq_naive_date_def less_naive_date_def by (rule less_le_not_le)
  show "a \<le> a" unfolding less_eq_naive_date_def by (rule order_refl)
  show "a \<le> c" if "a \<le> b" "b \<le> c"
    using that unfolding less_eq_naive_date_def by (rule order_trans)
  show "a = b" if "a \<le> b" "b \<le> a"
  proof -
    have "(sint (nd_year a), nd_month a, nd_day a) = (sint (nd_year b), nd_month b, nd_day b)"
      using that unfolding less_eq_naive_date_def by (rule order_antisym)
    then show "a = b" by (auto intro: naive_date.expand simp: signed_word_eqI)
  qed
  show "a \<le> b \<or> b \<le> a" unfolding less_eq_naive_date_def by (rule linear)
qed

end

section \<open>Definitions\<close>

datatype bar_frequency = M1 | M5 | M15 | M30 | H1 | D1

fun frequency_code :: "bar_frequency \<Rightarrow> string" where
  "frequency_code M1 = ''M1''"
| "frequency_code M5 = ''M5''"
| "frequency_code M15 = ''M15''"
| "frequency_code M30 = ''M30''"
| "frequency_code H1 = ''H1''"
| "frequency_code D1 = ''D1''"

definition all_frequencies :: "bar_frequency list" where
  "all_frequencies = [M1, M5, M15, M30, H1, D1]"

definition frequency_from_code :: "string \<Rightarrow> bar_frequency option" where
  "frequency_from_code code = find (\<lambda>v. frequency_code v = code) all_frequencies"

fun interval_minutes :: "bar_frequency \<Rightarrow> nat option" where
  "interval_minutes M1 = Some 1"
| "interval_minutes M5 = Some 5"
| "interval_minutes M15 = Some 15"
| "interval_minutes M30 = Some 30"
| "interval_minutes H1 = Some 60"
| "interval_minutes D1 = None"

datatype bar_settlement = T0 | T1 | UnspecifiedSettlement

fun settlement_code :: "bar_settlement \<Rightarrow> string" where
  "settlement_code T0 = ''T0''"
| "settlement_code T1 = ''T1''"
| "settlement_code UnspecifiedSettlement = ''UNSPECIFIED''"

definition all_settlements :: "bar_settlement list" where
  "all_settlements = [T0, T1, UnspecifiedSettlement]"

definition settlement_from_code :: "string \<Rightarrow> bar_settlement option" where
  "settlement_from_code code = find (\<lambda>v. settlement_code v = code) all_settlements"

datatype price_source_type = RealTrade | ActiveQuote | ModelValuation | CurveInterpolation

datatype bar_rule_violation =
    MisalignedInterval
  | InconsistentOhlc
  | NegativeVolume
  | ObservedAfterVisible
  | InvalidBarValue

record bar_prices =
  bp_open :: decimal_value
  bp_high :: decimal_value
  bp_low :: decimal_value
  bp_close :: decimal_value

record bar =
  source_record_id :: string
  bar_instrument :: version_ref
  bar_frequency :: bar_frequency
  bar_settlement :: bar_settlement
  bar_timezone :: string
  local_trading_date :: naive_date
  bar_start :: utc_instant
  bar_end :: utc_instant
  bar_visible_at :: utc_instant
  bar_prices :: "bar_prices option"
  bar_volume :: decimal_value
  bar_turnover :: "decimal_value option"
  bar_trade_count :: "u64 option"
  bar_vwap :: "decimal_value option"
  bar_close_yield :: "decimal_value option"

record chrono_ops =
  ch_parse_zone :: "string \<Rightarrow> string option"
  ch_local_date :: "string \<Rightarrow> utc_instant \<Rightarrow> naive_date"
  ch_hour :: "string \<Rightarrow> utc_instant \<Rightarrow> nat"
  ch_minute :: "string \<Rightarrow> utc_instant \<Rightarrow> nat"
  ch_second :: "string \<Rightarrow> utc_instant \<Rightarrow> nat"
  ch_nanosecond :: "string \<Rightarrow> utc_instant \<Rightarrow> nat"
  ch_elapsed_nanos :: "utc_instant \<Rightarrow> utc_instant \<Rightarrow> int"
  ch_num_days :: "naive_date \<Rightarrow> naive_date \<Rightarrow> int"

definition dv_is_negative :: "decimal_value \<Rightarrow> bool" where
  "dv_is_negative v \<longleftrightarrow> strip_prefix ''-'' (dv_coefficient v) \<noteq> None"

definition dv_is_zero :: "decimal_value \<Rightarrow> bool" where
  "dv_is_zero v \<longleftrightarrow> dv_coefficient v = ''0''"

definition validate_interval :: "chrono_ops \<Rightarrow> bar \<Rightarrow> string \<Rightarrow> (unit, bar_rule_violation) result" where
  "validate_interval ch input timezone =
     (if bar_start input \<ge> bar_end input then Err MisalignedInterval
      else if ch_local_date ch timezone (bar_start input) \<noteq> local_trading_date input then Err MisalignedInterval
      else case interval_minutes (bar_frequency input) of
        Some minutes \<Rightarrow>
          if ch_elapsed_nanos ch (bar_start input) (bar_end input) \<noteq> int minutes * 60 * 1000000000
            \<or> ch_second ch timezone (bar_start input) \<noteq> 0
            \<or> ch_nanosecond ch timezone (bar_start input) \<noteq> 0
            \<or> (ch_hour ch timezone (bar_start input) * 60 + ch_minute ch timezone (bar_start input)) mod minutes \<noteq> 0
          then Err MisalignedInterval else Ok ()
      | None \<Rightarrow>
          if ch_local_date ch timezone (bar_end input) \<noteq> local_trading_date input
          then Err MisalignedInterval else Ok ())"

definition validate_amounts :: "bar \<Rightarrow> (unit, bar_rule_violation) result" where
  "validate_amounts input =
     (if dv_is_negative (bar_volume input) \<or> (\<exists>t \<in> set_option (bar_turnover input). dv_is_negative t)
      then Err NegativeVolume else Ok ())"

text \<open>\<open>not_above\<close> of \<open>validate_prices\<close>; the outer \<open>None\<close> is the panic of \<open>compare\<close>.\<close>

definition not_above ::
  "'d decimal_ops \<Rightarrow> decimal_value \<Rightarrow> decimal_value \<Rightarrow> (bool, bar_rule_violation) result option" where
  "not_above ops left right =
     map_option (map_err (\<lambda>_. InvalidBarValue)) (decimal_value_compare (d_scaled ops) (d_le ops) left right)"

text \<open>A chain of \<open>!not_above(a, b)? || ...\<close>: stops at the first panic, error or inversion.\<close>

fun all_not_above ::
  "'d decimal_ops \<Rightarrow> (decimal_value \<times> decimal_value) list \<Rightarrow> (unit, bar_rule_violation) result option" where
  "all_not_above ops [] = Some (Ok ())"
| "all_not_above ops ((left, right) # pairs) =
     (case not_above ops left right of
        None \<Rightarrow> None
      | Some (Err e) \<Rightarrow> Some (Err e)
      | Some (Ok b) \<Rightarrow> if b then all_not_above ops pairs else Some (Err InconsistentOhlc))"

definition validate_prices ::
  "'d decimal_ops \<Rightarrow> bar_prices \<Rightarrow> bar \<Rightarrow> (unit, bar_rule_violation) result option" where
  "validate_prices ops prices input =
     (if (\<exists>v \<in> set [bp_open prices, bp_high prices, bp_low prices, bp_close prices].
            dv_unit v \<noteq> dv_unit (bp_open prices) \<or> dv_is_negative v)
        \<or> (\<exists>vwap \<in> set_option (bar_vwap input). dv_unit vwap \<noteq> dv_unit (bp_open prices))
      then Some (Err InconsistentOhlc)
      else
        case all_not_above ops
          [(bp_low prices, bp_open prices), (bp_low prices, bp_close prices),
           (bp_open prices, bp_high prices), (bp_close prices, bp_high prices)] of
          Some (Ok _) \<Rightarrow>
            (case bar_vwap input of
               Some vwap \<Rightarrow> all_not_above ops [(bp_low prices, vwap), (vwap, bp_high prices)]
             | None \<Rightarrow> Some (Ok ()))
        | failed \<Rightarrow> failed)"

definition bar_new ::
  "'d decimal_ops \<Rightarrow> chrono_ops \<Rightarrow> bar \<Rightarrow> (bar, bar_rule_violation) result option" where
  "bar_new ops ch input =
     (if blank_or_padded (source_record_id input) then Some (Err InvalidBarValue)
      else case ch_parse_zone ch (bar_timezone input) of
        None \<Rightarrow> Some (Err InvalidBarValue)
      | Some timezone \<Rightarrow>
          (case and_then (validate_interval ch input timezone) (\<lambda>_.
                and_then (require (bar_end input \<le> bar_visible_at input) ObservedAfterVisible) (\<lambda>_.
                validate_amounts input)) of
             Err e \<Rightarrow> Some (Err e)
           | Ok _ \<Rightarrow>
               (case bar_prices input of
                  Some prices \<Rightarrow>
                    map_option (\<lambda>r. and_then r (\<lambda>_. Ok input)) (validate_prices ops prices input)
                | None \<Rightarrow>
                    if \<not> dv_is_zero (bar_volume input) \<or> bar_vwap input \<noteq> None \<or> bar_close_yield input \<noteq> None
                    then Some (Err InconsistentOhlc) else Some (Ok input))))"

section \<open>What an accepted bar satisfies\<close>

text \<open>
  A bar ends after it starts and is visible only when it has ended; an interval without trades
  has no volume, no average price and no yield.
\<close>

definition bar_wf :: "bar \<Rightarrow> bool" where
  "bar_wf b \<longleftrightarrow> bar_start b < bar_end b \<and> bar_end b \<le> bar_visible_at b \<and>
     (bar_prices b = None \<longrightarrow> dv_is_zero (bar_volume b) \<and> bar_vwap b = None \<and> bar_close_yield b = None)"

text \<open>\<open>x\<close> lies between \<open>low\<close> and \<open>high\<close> as decimals.\<close>

definition dv_between :: "'d decimal_ops \<Rightarrow> decimal_value \<Rightarrow> decimal_value \<Rightarrow> decimal_value \<Rightarrow> bool" where
  "dv_between ops low x high \<longleftrightarrow>
     not_above ops low x = Some (Ok True) \<and> not_above ops x high = Some (Ok True)"

lemma all_not_above_Ok:
  "all_not_above ops pairs = Some (Ok u) \<longleftrightarrow> (\<forall>(l, r) \<in> set pairs. not_above ops l r = Some (Ok True))"
  by (induction ops pairs rule: all_not_above.induct) (auto split: option.splits result.splits if_splits)

lemma validate_prices_Ok:
  assumes "validate_prices ops prices input = Some (Ok u)"
  shows "dv_between ops (bp_low prices) (bp_open prices) (bp_high prices)"
    and "dv_between ops (bp_low prices) (bp_close prices) (bp_high prices)"
    and "bar_vwap input = Some vwap \<Longrightarrow> dv_between ops (bp_low prices) vwap (bp_high prices)"
  using assms
  by (auto simp: validate_prices_def dv_between_def all_not_above_Ok
      split: if_splits option.splits result.splits)

lemma bar_new_Ok:
  assumes "bar_new ops ch input = Some (Ok b)"
  shows "b = input" "bar_wf b"
    and "bar_prices b = Some prices \<Longrightarrow> validate_prices ops prices b = Some (Ok ())"
  using assms
  by (auto simp: bar_new_def bar_wf_def validate_interval_def result_simps
      split: if_splits option.splits result.splits)

text \<open>In exact arithmetic the comparison of constructed values is that of the amounts.\<close>

lemma rat_not_above:
  "not_above rat_ops l r = Some (Ok True) \<Longrightarrow> amount_of rat_ops l \<le> amount_of rat_ops r"
  by (auto simp: not_above_def decimal_value_compare_def amount_of_def split: if_splits option.splits)

text \<open>
  A bar that the constructor accepts is the input unchanged; it ends after it starts and
  no earlier than it becomes visible; without trades it has no volume, average price or yield;
  and with trades its open, close and average price lie between its low and its high.
\<close>

theorem bar_new_accepts:
  assumes "bar_new rat_ops ch input = Some (Ok b)"
  shows "b = input \<and> bar_start b < bar_end b \<and> bar_end b \<le> bar_visible_at b \<and>
    (case bar_prices b of
       None \<Rightarrow> dv_is_zero (bar_volume b) \<and> bar_vwap b = None \<and> bar_close_yield b = None
     | Some p \<Rightarrow>
         (\<forall>v \<in> {bp_open p, bp_close p} \<union> set_option (bar_vwap b).
            amount_of rat_ops (bp_low p) \<le> amount_of rat_ops v \<and>
            amount_of rat_ops v \<le> amount_of rat_ops (bp_high p)))"
proof (cases "bar_prices b")
  case None
  then show ?thesis using bar_new_Ok(1,2) [OF assms] by (simp add: bar_wf_def)
next
  case (Some p)
  note valid = validate_prices_Ok [OF bar_new_Ok(3) [OF assms Some]]
  have "amount_of rat_ops (bp_low p) \<le> amount_of rat_ops v \<and> amount_of rat_ops v \<le> amount_of rat_ops (bp_high p)"
    if "v \<in> {bp_open p, bp_close p} \<union> set_option (bar_vwap b)" for v
    using that valid(1,2) valid(3) [of v] rat_not_above by (auto simp: dv_between_def)
  then show ?thesis using Some bar_new_Ok(1,2) [OF assms] by (simp add: bar_wf_def)
qed

section \<open>Sample bars\<close>

definition sample_value :: "string \<Rightarrow> decimal_value" where
  "sample_value c = \<lparr>dv_coefficient = c, dv_scale = 0, dv_unit = sample_unit\<rparr>"

text \<open>A one-minute bar of an instrument from minute \<open>m\<close>, with its close, volume and yield.\<close>

definition sample_bar :: "version_ref \<Rightarrow> string \<Rightarrow> i64 \<Rightarrow> string \<Rightarrow> string \<Rightarrow> string \<Rightarrow> bar" where
  "sample_bar instrument record m close volume yld =
     \<lparr>source_record_id = record, bar_instrument = instrument, bar_frequency = M1, bar_settlement = T1,
      bar_timezone = ''UTC'', local_trading_date = NaiveDate 2026 1 5,
      bar_start = UtcInstant (60 * m) 0, bar_end = UtcInstant (60 * m + 60) 0,
      bar_visible_at = UtcInstant (60 * m + 60) 0,
      bar_prices = Some \<lparr>bp_open = sample_value close, bp_high = sample_value close,
        bp_low = sample_value close, bp_close = sample_value close\<rparr>,
      bar_volume = sample_value volume, bar_turnover = None, bar_trade_count = None, bar_vwap = None,
      bar_close_yield = Some (sample_value yld)\<rparr>"

definition sample_chrono :: chrono_ops where
  "sample_chrono = \<lparr>ch_parse_zone = Some, ch_local_date = \<lambda>_ _. NaiveDate 2026 1 5, ch_hour = \<lambda>_ _. 0,
     ch_minute = \<lambda>_ t. nat (sint (timestamp t) div 60) mod 60, ch_second = \<lambda>_ _. 0, ch_nanosecond = \<lambda>_ _. 0,
     ch_elapsed_nanos = \<lambda>a b. (sint (timestamp b) - sint (timestamp a)) * 1000000000, ch_num_days = \<lambda>_ _. 1\<rparr>"

lemma sample_amounts [simp]:
  "amount_of rat_ops (sample_value ''99'') = 99" "amount_of rat_ops (sample_value ''5000'') = 5000"
  by (simp_all add: amount_of_def as_decimal_def sample_value_def parse_i128_def digits_value_def digit_value_def
      is_ascii_digit_def checked_i128_def signed_int_def i128_range_def)

theorem bar_new_accepts_witness:
  "\<exists>b p. bar_new rat_ops sample_chrono (sample_bar \<lparr>vr_id = Ulid ''01ARZ3NDEKTSV4RRFFQ69G5F20'', vr_version = Version 1\<rparr> ''r1'' 0 ''99'' ''5000'' ''3'') = Some (Ok b) \<and>
     bar_prices b = Some p \<and> bar_start b < bar_end b \<and> bar_end b \<le> bar_visible_at b \<and>
     amount_of rat_ops (bp_low p) \<le> amount_of rat_ops (bp_open p)"
proof -
  let ?b = "sample_bar \<lparr>vr_id = Ulid ''01ARZ3NDEKTSV4RRFFQ69G5F20'', vr_version = Version 1\<rparr> ''r1'' 0 ''99'' ''5000'' ''3''"
  have "\<not> blank_or_padded ''r1''" by code_simp
  moreover have "not_above rat_ops (sample_value ''99'') (sample_value ''99'') = Some (Ok True)"
    using sample_amounts(1) by (simp add: not_above_def decimal_value_compare_def amount_of_def sample_value_def split: option.splits)
  ultimately have run: "bar_new rat_ops sample_chrono ?b = Some (Ok ?b)"
    by (simp add: bar_new_def sample_bar_def sample_chrono_def validate_interval_def validate_amounts_def validate_prices_def
        dv_is_negative_def sample_value_def less_eq_utc_instant_def require_def)
  from bar_new_accepts [OF this] show ?thesis by (intro exI [of _ ?b]) (simp add: run, simp add: sample_bar_def)
qed

end
