(* ===== verification/Position_Snapshot.thy ===== *)
theory Position_Snapshot
  imports Decimal_Value
begin

text \<open>
  Position snapshots (\<open>ficant-domain/src/research/position_snapshot.rs\<close>): positions with their
  accounting classification and holding form, and the snapshot with its canonical payload. The
  payload writes lineage and positions one after the other without counts; the theory shows that
  it can nevertheless be read in one way only, so the content hash identifies the snapshot, and
  for which instants this fails.

  \<open>ds\<close> is the text form of a date (the \<open>chrono\<close> crate's \<open>Display\<close> of \<open>NaiveDate\<close>).
\<close>

section \<open>Definitions\<close>

datatype accounting_classification_state = Classified | NotApplicable | UnknownState

datatype accounting_book = Ac | Fvoci | Fvtpl

datatype position_holding_form = Owned | RepoSold | ReverseRepoCollateral

record accounting_classification =
  ac_state :: accounting_classification_state
  ac_book :: "accounting_book option"

definition accounting_classification_new ::
  "accounting_classification_state \<Rightarrow> accounting_book option \<Rightarrow> accounting_classification domain_result" where
  "accounting_classification_new state book =
     (if (state = Classified) \<noteq> (book \<noteq> None) then Err InvalidValue
      else Ok \<lparr>ac_state = state, ac_book = book\<rparr>)"

record position =
  po_position_id :: ulid
  po_instrument_ref :: version_ref
  po_quantity :: decimal_value
  po_economic_value :: decimal_value
  po_economic_pnl :: decimal_value
  po_accounting_pnl :: decimal_value
  po_capital_requirement :: decimal_value
  po_accounting_classification :: accounting_classification
  po_holding_form :: position_holding_form

record position_input =
  poi_position_id :: ulid
  poi_instrument_ref :: version_ref
  poi_quantity :: decimal_value
  poi_economic_value :: decimal_value
  poi_economic_pnl :: decimal_value
  poi_accounting_pnl :: decimal_value
  poi_capital_requirement :: decimal_value
  poi_accounting_classification :: accounting_classification
  poi_holding_form :: position_holding_form

definition position_new :: "position_input \<Rightarrow> position domain_result" where
  "position_new input =
     (if dv_unit (poi_economic_value input) \<noteq> dv_unit (poi_economic_pnl input)
        \<or> dv_unit (poi_economic_pnl input) \<noteq> dv_unit (poi_accounting_pnl input)
        \<or> dv_unit (poi_accounting_pnl input) \<noteq> dv_unit (poi_capital_requirement input)
      then Err InvalidUnit
      else Ok \<lparr>po_position_id = poi_position_id input,
               po_instrument_ref = poi_instrument_ref input,
               po_quantity = poi_quantity input,
               po_economic_value = poi_economic_value input,
               po_economic_pnl = poi_economic_pnl input,
               po_accounting_pnl = poi_accounting_pnl input,
               po_capital_requirement = poi_capital_requirement input,
               po_accounting_classification = poi_accounting_classification input,
               po_holding_form = poi_holding_form input\<rparr>)"

definition includes_position_exposure :: "position \<Rightarrow> bool" where
  "includes_position_exposure p \<longleftrightarrow> po_holding_form p \<noteq> ReverseRepoCollateral"

definition includes_available_liquidity :: "position \<Rightarrow> bool" where
  "includes_available_liquidity p \<longleftrightarrow> po_holding_form p = Owned"

record position_snapshot =
  ps_snapshot_id :: ulid
  ps_owner :: owner_ref
  ps_subject_ref :: version_ref
  ps_observed_at :: market_time
  ps_visible_at :: market_time
  ps_content_hash :: content_hash
  ps_lineage :: "lineage_ref list"
  ps_positions :: "position list"

record position_snapshot_input =
  psi_snapshot_id :: ulid
  psi_owner :: owner_ref
  psi_subject_ref :: version_ref
  psi_observed_at :: market_time
  psi_visible_at :: market_time
  psi_content_hash :: content_hash
  psi_lineage :: "lineage_ref list"
  psi_positions :: "position list"

text \<open>
  \<open>timestamp_nanos_opt\<close> is the number of nanoseconds since the epoch, if it fits an \<open>i64\<close>.
\<close>

definition timestamp_nanos_opt :: "utc_instant \<Rightarrow> int option" where
  "timestamp_nanos_opt i =
     (let nanos = sint (timestamp i) * 1000000000 + int (unat (timestamp_subsec_nanos i)) in
      if - (2 ^ 63) \<le> nanos \<and> nanos < 2 ^ 63 then Some nanos else None)"

definition instant_text :: "utc_instant \<Rightarrow> string" where
  "instant_text i = int_to_string (case timestamp_nanos_opt i of Some nanos \<Rightarrow> nanos | None \<Rightarrow> 0)"

definition version_text :: "version \<Rightarrow> string" where
  "version_text v = nat_to_digits (unat (version_get v))"

text \<open>The \<open>Debug\<close> texts of the three enumerations.\<close>

fun state_debug :: "accounting_classification_state \<Rightarrow> string" where
  "state_debug Classified = ''Classified''"
| "state_debug NotApplicable = ''NotApplicable''"
| "state_debug UnknownState = ''Unknown''"

fun book_debug :: "accounting_book option \<Rightarrow> string" where
  "book_debug None = ''None''"
| "book_debug (Some Ac) = ''Some(Ac)''"
| "book_debug (Some Fvoci) = ''Some(Fvoci)''"
| "book_debug (Some Fvtpl) = ''Some(Fvtpl)''"

fun holding_debug :: "position_holding_form \<Rightarrow> string" where
  "holding_debug Owned = ''Owned''"
| "holding_debug RepoSold = ''RepoSold''"
| "holding_debug ReverseRepoCollateral = ''ReverseRepoCollateral''"

definition append_market_time_text :: "(naive_date \<Rightarrow> string) \<Rightarrow> market_time \<Rightarrow> bytes" where
  "append_market_time_text ds t =
     push_str (instant_text (mt_instant t)) @ push_str (mt_timezone t) @ push_str (ds (mt_local_date t))"

definition append_lineage_text :: "lineage_ref \<Rightarrow> bytes" where
  "append_lineage_text lineage =
     push_str (ulid_str (lr_object_id lineage))
     @ push_str (case lr_version lineage of Some v \<Rightarrow> version_text v | None \<Rightarrow> [])
     @ (case lr_content_hash lineage of Some hash \<Rightarrow> push_bytes (hash_bytes hash) | None \<Rightarrow> push_bytes [])"

definition append_value_text :: "decimal_value \<Rightarrow> bytes" where
  "append_value_text value =
     push_str (dv_coefficient value)
     @ push_str (nat_to_digits (unat (dv_scale value)))
     @ push_str (ulid_str (ur_unit_id (dv_unit value)))
     @ push_str (version_text (ur_version (dv_unit value)))"

definition append_position :: "position \<Rightarrow> bytes" where
  "append_position p =
     push_str (ulid_str (po_position_id p))
     @ push_str (ulid_str (vr_id (po_instrument_ref p)))
     @ push_str (version_text (vr_version (po_instrument_ref p)))
     @ append_value_text (po_quantity p)
     @ append_value_text (po_economic_value p)
     @ append_value_text (po_economic_pnl p)
     @ append_value_text (po_accounting_pnl p)
     @ append_value_text (po_capital_requirement p)
     @ push_str (state_debug (ac_state (po_accounting_classification p))
         @ book_debug (ac_book (po_accounting_classification p)) @ holding_debug (po_holding_form p))"

definition position_snapshot_bytes :: "(naive_date \<Rightarrow> string) \<Rightarrow> position_snapshot_input \<Rightarrow> bytes" where
  "position_snapshot_bytes ds input =
     push_str (ulid_str (psi_snapshot_id input))
     @ push_str (ulid_str (tenant_id (psi_owner input)))
     @ push_str (ulid_str (owner_id (psi_owner input)))
     @ push_str (ulid_str (vr_id (psi_subject_ref input)))
     @ push_str (version_text (vr_version (psi_subject_ref input)))
     @ append_market_time_text ds (psi_observed_at input)
     @ append_market_time_text ds (psi_visible_at input)
     @ concat (map append_lineage_text (psi_lineage input))
     @ concat (map append_position (psi_positions input))"

definition position_snapshot_new ::
  "sha256_fn \<Rightarrow> (naive_date \<Rightarrow> string) \<Rightarrow> position_snapshot_input \<Rightarrow> position_snapshot domain_result" where
  "position_snapshot_new sha256 ds input =
     (if mt_instant (psi_observed_at input) > mt_instant (psi_visible_at input)
      then Err InvalidEffectiveTime
      else if psi_lineage input = [] then Err BrokenLineage
      else if windows2_any (\<lambda>a b. po_position_id a \<ge> po_position_id b) (psi_positions input)
      then Err InvalidValue
      else
        let actual = sha256 (position_snapshot_bytes ds input) in
        if psi_content_hash input \<noteq> actual then Err ContentHashMismatch
        else Ok \<lparr>ps_snapshot_id = psi_snapshot_id input, ps_owner = psi_owner input,
                 ps_subject_ref = psi_subject_ref input, ps_observed_at = psi_observed_at input,
                 ps_visible_at = psi_visible_at input, ps_content_hash = psi_content_hash input,
                 ps_lineage = psi_lineage input, ps_positions = psi_positions input\<rparr>)"

definition canonical_payload :: "(naive_date \<Rightarrow> string) \<Rightarrow> position_snapshot \<Rightarrow> bytes" where
  "canonical_payload ds s =
     position_snapshot_bytes ds
       \<lparr>psi_snapshot_id = ps_snapshot_id s, psi_owner = ps_owner s, psi_subject_ref = ps_subject_ref s,
        psi_observed_at = ps_observed_at s, psi_visible_at = ps_visible_at s,
        psi_content_hash = ps_content_hash s, psi_lineage = ps_lineage s, psi_positions = ps_positions s\<rparr>"

section \<open>The elements of the payload\<close>

lemma version_text_inject [simp]: "version_text v = version_text w \<longleftrightarrow> v = w"
  by (auto simp: version_text_def intro: version.expand unsigned_word_eqI [where 'a = nat])

lemma version_text_nonempty [simp]: "version_text v \<noteq> []" "[] \<noteq> version_text v"
  by (simp_all add: version_text_def) (metis nat_to_digits_nonempty)

lemma length_version_text: "length (version_text v) \<le> 20"
proof -
  have "unat (version_get v) < 10 ^ 20" using unat_bound [of "version_get v"] by simp
  then show ?thesis unfolding version_text_def by (rule length_nat_to_digits) simp
qed

lemma version_text_not_26 [simp]: "length (version_text v) \<noteq> 26"
  using length_version_text [of v] by auto

lemma debug_text_inject:
  "state_debug a @ book_debug b @ holding_debug c = state_debug a' @ book_debug b' @ holding_debug c' \<longleftrightarrow>
     a = a' \<and> b = b' \<and> c = c'"
proof -
  have state: "state_debug a @ x = state_debug a' @ y \<longleftrightarrow> a = a' \<and> x = y" for x y
    by (cases a; cases a') simp_all
  have book: "book_debug b @ x = book_debug b' @ y \<longleftrightarrow> b = b' \<and> x = y" for x y
    by (cases b rule: book_debug.cases; cases b' rule: book_debug.cases) simp_all
  have "holding_debug c = holding_debug c' \<longleftrightarrow> c = c'" by (cases c; cases c') simp_all
  then show ?thesis by (simp add: state book)
qed

lemma prefix_code_lineage_text: "prefix_code append_lineage_text"
proof -
  let ?v = "\<lambda>l :: lineage_ref. case lr_version l of Some v \<Rightarrow> version_text v | None \<Rightarrow> []"
  let ?h = "\<lambda>l :: lineage_ref. case lr_content_hash l of Some hash \<Rightarrow> hash_bytes hash | None \<Rightarrow> []"
  have "append_lineage_text = (\<lambda>l. push_str (ulid_str (lr_object_id l)) @ push_str (?v l) @ push_bytes (?h l))"
    by (rule ext) (simp add: append_lineage_text_def split: option.splits)
  moreover have "determines (\<lambda>l. push_str (ulid_str (lr_object_id l)) @ push_str (?v l) @ push_bytes (?h l))
      (\<lambda>l. (ulid_str (lr_object_id l), ?v l, ?h l))"
    by (intro code_intros)
  ultimately have "determines append_lineage_text (\<lambda>l. (ulid_str (lr_object_id l), ?v l, ?h l))" by (simp only:)
  then show ?thesis
  proof (rule determines.weaken)
    fix x y assume eq: "(ulid_str (lr_object_id x), ?v x, ?h x) = (ulid_str (lr_object_id y), ?v y, ?h y)"
    have "hash_bytes h \<noteq> []" for h using length_hash_bytes [of h] by (metis list.size(3) zero_neq_numeral)
    then have "hash_bytes h \<noteq> []" "[] \<noteq> hash_bytes h" for h by (simp, metis)
    then have "lr_content_hash x = lr_content_hash y" using eq by (auto split: option.splits)
    moreover have "lr_version x = lr_version y" using eq by (auto split: option.splits)
    ultimately show "x = y" using eq by simp
  qed
qed

lemma prefix_code_value_text: "determines (\<lambda>x. append_value_text (f x)) (\<lambda>x. f x :: decimal_value)"
proof -
  have "determines append_value_text (\<lambda>v. (dv_coefficient v, nat_to_digits (unat (dv_scale v)),
      ulid_str (ur_unit_id (dv_unit v)), version_text (ur_version (dv_unit v))))"
    unfolding append_value_text_def by (intro code_intros)
  then have "prefix_code append_value_text"
    by (rule determines.weaken)
      (auto intro!: decimal_value.equality unit_ref.equality unsigned_word_eqI [where 'a = nat])
  then show ?thesis by (rule prefix_code_of)
qed

lemma prefix_code_position: "prefix_code append_position"
proof -
  have "determines append_position (\<lambda>p. (ulid_str (po_position_id p), ulid_str (vr_id (po_instrument_ref p)),
      version_text (vr_version (po_instrument_ref p)), po_quantity p, po_economic_value p, po_economic_pnl p,
      po_accounting_pnl p, po_capital_requirement p,
      state_debug (ac_state (po_accounting_classification p))
         @ book_debug (ac_book (po_accounting_classification p)) @ holding_debug (po_holding_form p)))"
    unfolding append_position_def by (intro code_intros prefix_code_value_text)
  then show ?thesis
    by (rule determines.weaken)
      (auto simp: debug_text_inject intro!: position.equality version_ref.equality accounting_classification.equality)
qed

section \<open>Instants\<close>

text \<open>Instants that the payload writes exactly: a count of nanoseconds that an \<open>i64\<close> holds.\<close>

definition nanos_exact :: "utc_instant \<Rightarrow> bool" where
  "nanos_exact i \<longleftrightarrow> timestamp_nanos_opt i \<noteq> None \<and> unat (timestamp_subsec_nanos i) < 1000000000"

lemma instant_text_inject:
  assumes "instant_text i = instant_text j" "nanos_exact i" "nanos_exact j"
  shows "i = j"
proof -
  have "sint (timestamp i) * 1000000000 + int (unat (timestamp_subsec_nanos i)) =
      sint (timestamp j) * 1000000000 + int (unat (timestamp_subsec_nanos j))"
    using assms by (auto simp: instant_text_def nanos_exact_def timestamp_nanos_opt_def Let_def split: if_splits)
  moreover have "a = c \<and> b = d" if eq: "a * 1000000000 + int b = c * 1000000000 + int d"
    and less: "b < 1000000000" "d < 1000000000" for a c :: int and b d
  proof -
    have "a = (a * 1000000000 + int b) div 1000000000" "c = (c * 1000000000 + int d) div 1000000000"
      using less by simp_all
    then have "a = c" unfolding eq by (rule trans [OF _ sym])
    with eq show ?thesis by simp
  qed
  ultimately have "sint (timestamp i) = sint (timestamp j)"
    "unat (timestamp_subsec_nanos i) = unat (timestamp_subsec_nanos j)"
    using assms(2,3) unfolding nanos_exact_def by blast+
  then show ?thesis
    by (auto intro: utc_instant.expand simp: signed_word_eqI intro: unsigned_word_eqI [where 'a = nat])
qed

lemma determines_market_time_text:
  assumes "inj ds"
  shows "determines (\<lambda>x. append_market_time_text ds (f x))
    (\<lambda>x. (instant_text (mt_instant (f x)), mt_timezone (f x), mt_local_date (f x)))"
proof -
  have "determines (\<lambda>x. append_market_time_text ds (f x))
      (\<lambda>x. (instant_text (mt_instant (f x)), mt_timezone (f x), ds (mt_local_date (f x))))"
    unfolding append_market_time_text_def by (intro code_intros)
  then show ?thesis by (rule determines.weaken) (use assms in \<open>auto dest: injD\<close>)
qed

section \<open>Where the lineage ends\<close>

text \<open>
  The second field of a lineage entry is a version of at most 20 digits, that of a position is a
  ULID of 26 characters.
\<close>

definition position_tail :: "bytes \<Rightarrow> bool" where
  "position_tail r \<longleftrightarrow> length r < usize_limit \<and>
     (\<exists>ps. r = concat (map append_position ps) \<and> list_all (\<lambda>p. length (ulid_str (vr_id (po_instrument_ref p))) = 26) ps)"

lemma lineage_not_position_tail: "\<not> position_tail (append_lineage_text l @ r)"
proof
  assume tail: "position_tail (append_lineage_text l @ r)"
  let ?v = "case lr_version l of Some v \<Rightarrow> version_text v | None \<Rightarrow> []"
  let ?h = "case lr_content_hash l of Some hash \<Rightarrow> push_bytes (hash_bytes hash) | None \<Rightarrow> push_bytes []"
  have l: "append_lineage_text l @ r = push_str (ulid_str (lr_object_id l)) @ push_str ?v @ ?h @ r"
    by (simp add: append_lineage_text_def)
  from tail obtain ps where ps: "append_lineage_text l @ r = concat (map append_position ps)"
    "list_all (\<lambda>p. length (ulid_str (vr_id (po_instrument_ref p))) = 26) ps"
    and len: "length (append_lineage_text l @ r) < usize_limit" unfolding position_tail_def by blast
  have "length (append_lineage_text l @ r) \<noteq> 0" unfolding l by simp
  then have "ps \<noteq> []" using ps(1) by auto
  then obtain p qs where "ps = p # qs" by (cases ps) auto
  then obtain s where s: "append_lineage_text l @ r =
      push_str (ulid_str (po_position_id p)) @ push_str (ulid_str (vr_id (po_instrument_ref p))) @ s"
    and id: "length (ulid_str (vr_id (po_instrument_ref p))) = 26"
    using ps by (auto simp: append_position_def)
  have "push_str ?v @ ?h @ r = push_str (ulid_str (vr_id (po_instrument_ref p))) @ s"
    using determines.splits [OF prefix_code_push_str] s len unfolding l by blast
  moreover have "length (as_bytes ?v) \<noteq> length (as_bytes (ulid_str (vr_id (po_instrument_ref p))))"
    using id by (cases "lr_version l") simp_all
  moreover have "length (push_str ?v @ ?h @ r) < usize_limit" using len unfolding l by simp
  ultimately show False unfolding push_str_push_bytes using push_bytes_neq by blast
qed

section \<open>The content hash\<close>

text \<open>An input as the constructors of its parts leave it, with instants the payload writes exactly.\<close>

definition snapshot_wf :: "(string \<Rightarrow> string option) \<Rightarrow> position_snapshot_input \<Rightarrow> bool" where
  "snapshot_wf p input \<longleftrightarrow>
     nanos_exact (mt_instant (psi_observed_at input)) \<and> nanos_exact (mt_instant (psi_visible_at input)) \<and>
     list_all (\<lambda>q. ulid_ok p (vr_id (po_instrument_ref q))) (psi_positions input)"

lemma position_snapshot_bytes_inject:
  assumes eq: "position_snapshot_bytes ds i = position_snapshot_bytes ds j"
    and len: "length (position_snapshot_bytes ds i) < usize_limit"
    and ds: "inj ds" and wf: "snapshot_wf p i" "snapshot_wf p j"
  shows "psi_snapshot_id i = psi_snapshot_id j \<and> psi_owner i = psi_owner j \<and>
    psi_subject_ref i = psi_subject_ref j \<and> psi_observed_at i = psi_observed_at j \<and>
    psi_visible_at i = psi_visible_at j \<and> psi_lineage i = psi_lineage j \<and> psi_positions i = psi_positions j"
proof -
  define head where "head k = push_str (ulid_str (psi_snapshot_id k)) @ push_str (ulid_str (tenant_id (psi_owner k)))
    @ push_str (ulid_str (owner_id (psi_owner k))) @ push_str (ulid_str (vr_id (psi_subject_ref k)))
    @ push_str (version_text (vr_version (psi_subject_ref k))) @ append_market_time_text ds (psi_observed_at k)
    @ append_market_time_text ds (psi_visible_at k)" for k :: position_snapshot_input
  define ls where "ls k = concat (map append_lineage_text (psi_lineage k))" for k :: position_snapshot_input
  define ps where "ps k = concat (map append_position (psi_positions k))" for k :: position_snapshot_input
  have bytes: "position_snapshot_bytes ds k = head k @ ls k @ ps k" for k
    by (simp add: position_snapshot_bytes_def head_def ls_def ps_def)
  have head: "determines head (\<lambda>k. (ulid_str (psi_snapshot_id k), ulid_str (tenant_id (psi_owner k)),
      ulid_str (owner_id (psi_owner k)), ulid_str (vr_id (psi_subject_ref k)), version_text (vr_version (psi_subject_ref k)),
      (instant_text (mt_instant (psi_observed_at k)), mt_timezone (psi_observed_at k), mt_local_date (psi_observed_at k)),
      (instant_text (mt_instant (psi_visible_at k)), mt_timezone (psi_visible_at k), mt_local_date (psi_visible_at k))))"
    unfolding head_def by (intro code_intros determines_market_time_text ds)
  note parts = determines.splits [OF head eq [unfolded bytes] len [unfolded bytes]]
  have observed: "psi_observed_at i = psi_observed_at j" and visible: "psi_visible_at i = psi_visible_at j"
    using parts wf unfolding snapshot_wf_def by (auto intro!: market_time.equality dest: instant_text_inject)
  have ids: "psi_snapshot_id i = psi_snapshot_id j" "psi_owner i = psi_owner j" "psi_subject_ref i = psi_subject_ref j"
    using parts by (auto intro!: owner_ref.equality version_ref.equality)
  have rest: "ls i @ ps i = ls j @ ps j" and rest_len: "length (ls i @ ps i) < usize_limit"
    using parts len unfolding bytes by simp_all
  have "length (ls j @ ps j) < usize_limit" using rest rest_len by metis
  then have "length (ps j) < usize_limit" by simp
  moreover have ps_len: "length (ps i) < usize_limit" using rest_len by simp
  ultimately have "position_tail (ps i)" "position_tail (ps j)"
    using wf unfolding position_tail_def snapshot_wf_def ps_def by (auto simp: ulid_ok_iff list_all_iff)
  then have lineage: "psi_lineage i = psi_lineage j" and ps: "ps i = ps j"
    using sequence_then_tail [OF prefix_code_lineage_text, of "Collect position_tail"] rest rest_len
      lineage_not_position_tail unfolding ls_def by blast+
  have "append_position q @ r \<notin> {[]}" for q r by (simp add: append_position_def)
  then have "psi_positions i = psi_positions j"
    using sequence_then_tail [OF prefix_code_position, of "{[]}" "psi_positions i" "[]" "psi_positions j" "[]"]
      ps ps_len unfolding ps_def by simp
  with observed visible ids lineage show ?thesis by simp
qed

lemma position_snapshot_new_Ok [result_simps]:
  "position_snapshot_new sha256 ds i = Ok s \<longleftrightarrow>
     mt_instant (psi_observed_at i) \<le> mt_instant (psi_visible_at i) \<and> psi_lineage i \<noteq> [] \<and>
     \<not> windows2_any (\<lambda>a b. po_position_id a \<ge> po_position_id b) (psi_positions i) \<and>
     psi_content_hash i = sha256 (position_snapshot_bytes ds i) \<and>
     s = \<lparr>ps_snapshot_id = psi_snapshot_id i, ps_owner = psi_owner i,
          ps_subject_ref = psi_subject_ref i, ps_observed_at = psi_observed_at i,
          ps_visible_at = psi_visible_at i, ps_content_hash = psi_content_hash i,
          ps_lineage = psi_lineage i, ps_positions = psi_positions i\<rparr>"
  by (auto simp: position_snapshot_new_def Let_def not_less split: if_splits)

lemma canonical_payload_of_new:
  assumes "position_snapshot_new sha256 ds i = Ok s"
  shows "canonical_payload ds s = position_snapshot_bytes ds i" "ps_content_hash s = sha256 (canonical_payload ds s)"
  using assms by (auto simp: result_simps canonical_payload_def position_snapshot_bytes_def)

text \<open>
  The content hash of a position snapshot identifies the snapshot, although its
  payload writes the lineage and the positions one after the other without counts: two accepted
  snapshots with the same hash are the same snapshot, unless their payloads collide under
  SHA-256. Instants must be ones the payload writes exactly.
\<close>

theorem snapshot_hash_identifies:
  assumes "position_snapshot_new sha256 ds i = Ok s" "position_snapshot_new sha256 ds j = Ok t"
    and "ps_content_hash s = ps_content_hash t" "inj ds" "snapshot_wf p i" "snapshot_wf p j"
    and "length (canonical_payload ds s) < usize_limit"
  shows "s = t \<or> collision sha256 (canonical_payload ds s) (canonical_payload ds t)"
proof (cases "canonical_payload ds s = canonical_payload ds t")
  case True
  then have "position_snapshot_bytes ds i = position_snapshot_bytes ds j"
    "length (position_snapshot_bytes ds i) < usize_limit"
    using assms canonical_payload_of_new by metis+
  from position_snapshot_bytes_inject [OF this assms(4,5,6)] show ?thesis
    using assms(1,2,3) by (auto simp: result_simps)
next
  case False
  then show ?thesis using assms canonical_payload_of_new unfolding collision_def by metis
qed

text \<open>
  An instant outside the range of nanosecond counts is written as 0. Two snapshots
  that differ only in such visibility instants, of one zone and one local date, have the same
  payload, so the constructor accepts either under the content hash of the other.
\<close>

theorem snapshot_hash_ignores_far_instants:
  assumes "position_snapshot_new sha256 ds i = Ok s"
    and "timestamp_nanos_opt (mt_instant (psi_visible_at i)) = None" "timestamp_nanos_opt far = None"
    and "mt_instant (psi_observed_at i) \<le> far"
  shows "position_snapshot_new sha256 ds (i\<lparr>psi_visible_at := (psi_visible_at i)\<lparr>mt_instant := far\<rparr>\<rparr>) =
      Ok (s\<lparr>ps_visible_at := (ps_visible_at s)\<lparr>mt_instant := far\<rparr>\<rparr>)"
  using assms
  by (auto simp: result_simps position_snapshot_bytes_def append_market_time_text_def instant_text_def)

definition sample_snapshot_input :: "market_time \<Rightarrow> position_snapshot_input" where
  "sample_snapshot_input visible =
     \<lparr>psi_snapshot_id = Ulid (replicate 26 CHR ''1''),
      psi_owner = \<lparr>tenant_id = Ulid (replicate 26 CHR ''2''), owner_id = Ulid (replicate 26 CHR ''3'')\<rparr>,
      psi_subject_ref = \<lparr>vr_id = Ulid (replicate 26 CHR ''4''), vr_version = Version 1\<rparr>,
      psi_observed_at = \<lparr>mt_instant = UtcInstant 0 0, mt_timezone = ''UTC'', mt_local_date = NaiveDate 1970 1 1\<rparr>,
      psi_visible_at = visible,
      psi_content_hash = zero_hash,
      psi_lineage = [\<lparr>lr_object_id = Ulid (replicate 26 CHR ''5''), lr_version = Some (Version 1), lr_content_hash = None\<rparr>],
      psi_positions = []\<rparr>"

definition utc_time :: "i64 \<Rightarrow> naive_date \<Rightarrow> market_time" where
  "utc_time seconds date = \<lparr>mt_instant = UtcInstant seconds 0, mt_timezone = ''UTC'', mt_local_date = date\<rparr>"

definition sample_snapshot :: "market_time \<Rightarrow> position_snapshot" where
  "sample_snapshot visible = (let i = sample_snapshot_input visible in
     \<lparr>ps_snapshot_id = psi_snapshot_id i, ps_owner = psi_owner i,
      ps_subject_ref = psi_subject_ref i, ps_observed_at = psi_observed_at i,
      ps_visible_at = psi_visible_at i, ps_content_hash = psi_content_hash i,
      ps_lineage = psi_lineage i, ps_positions = psi_positions i\<rparr>)"

lemma sample_snapshot_ok:
  "0 \<le> sint seconds \<Longrightarrow>
   position_snapshot_new (\<lambda>_. zero_hash) ds (sample_snapshot_input (utc_time seconds date)) =
     Ok (sample_snapshot (utc_time seconds date))"
  by (simp add: position_snapshot_new_Ok sample_snapshot_def sample_snapshot_input_def utc_time_def less_eq_utc_instant_def)

lemma snapshot_hash_identifies_witness:
  "sample_snapshot (utc_time 60 (NaiveDate 1970 1 1)) = sample_snapshot (utc_time 120 (NaiveDate 1970 1 1)) \<or>
   collision (\<lambda>_. zero_hash)
     (canonical_payload sample_date_text (sample_snapshot (utc_time 60 (NaiveDate 1970 1 1))))
     (canonical_payload sample_date_text (sample_snapshot (utc_time 120 (NaiveDate 1970 1 1))))"
proof -
  have wf: "snapshot_wf Some (sample_snapshot_input (utc_time s (NaiveDate 1970 1 1)))" if "s \<in> {60, 120}" for s
    using that by (auto simp: snapshot_wf_def sample_snapshot_input_def utc_time_def nanos_exact_def timestamp_nanos_opt_def)
  have "length (canonical_payload sample_date_text (sample_snapshot (utc_time 60 (NaiveDate 1970 1 1)))) < usize_limit"
    by (simp add: canonical_payload_def position_snapshot_bytes_def sample_snapshot_def sample_snapshot_input_def
        append_market_time_text_def append_lineage_text_def utc_time_def instant_text_def timestamp_nanos_opt_def
        sample_date_text_def version_text_def int_to_string_def nat_to_digits.simps)
  then show ?thesis
    by (intro snapshot_hash_identifies [where ds = sample_date_text, OF sample_snapshot_ok sample_snapshot_ok _
          inj_sample_date_text wf wf])
      (simp_all add: sample_snapshot_def sample_snapshot_input_def)
qed

lemma snapshot_hash_ignores_far_instants_witness:
  "position_snapshot_new (\<lambda>_. zero_hash) sample_date_text
     ((sample_snapshot_input (utc_time 10413792000 (NaiveDate 2300 1 1)))
        \<lparr>psi_visible_at := (utc_time 10413792000 (NaiveDate 2300 1 1))\<lparr>mt_instant := UtcInstant 10413792060 0\<rparr>\<rparr>) =
     Ok ((sample_snapshot (utc_time 10413792000 (NaiveDate 2300 1 1)))
        \<lparr>ps_visible_at := (utc_time 10413792000 (NaiveDate 2300 1 1))\<lparr>mt_instant := UtcInstant 10413792060 0\<rparr>\<rparr>)"
proof -
  have "position_snapshot_new (\<lambda>_. zero_hash) sample_date_text
      (sample_snapshot_input (utc_time 10413792000 (NaiveDate 2300 1 1))) =
      Ok (sample_snapshot (utc_time 10413792000 (NaiveDate 2300 1 1)))"
    by (rule sample_snapshot_ok) simp
  from snapshot_hash_ignores_far_instants [OF this, of "UtcInstant 10413792060 0"] show ?thesis
    by (simp add: sample_snapshot_input_def sample_snapshot_def utc_time_def timestamp_nanos_opt_def less_eq_utc_instant_def)
qed

end
