(* ===== verification/Coverage.thy ===== *)
theory Coverage
  imports Market_Bar Position_Snapshot
begin

text \<open>
  Coverage declarations (\<open>ficant-domain/src/research/coverage.rs\<close>) and the price source summaries
  they carry (the head of \<open>ficant-domain/src/research/exposure.rs\<close>): how many positions were
  imported, which of them take part in a result, and their gross economic value per unit. The
  theory shows what an accepted declaration says about the positions, and that its canonical
  bytes, which write two amount lists and an optional summary one after the other without
  counts, can be read in one way only.

  The arithmetic of the \<open>rust_decimal\<close> crate that \<open>DecimalValue\<close> uses is the parameter \<open>sum_ops\<close>.
  \<open>DecimalValue::checked_add\<close> and \<open>compare\<close> panic on a coefficient that does not parse; a run
  that panics is \<open>None\<close>.
\<close>

section \<open>Orders\<close>

text \<open>\<open>UnitRef\<close> is ordered by identity, then version; the source types in declaration order.\<close>

instantiation unit_ref_ext :: (linorder) linorder
begin

definition less_eq_unit_ref_ext :: "'a unit_ref_ext \<Rightarrow> 'a unit_ref_ext \<Rightarrow> bool" where
  "less_eq_unit_ref_ext a b \<longleftrightarrow>
     (ur_unit_id a, ur_version a, unit_ref.more a) \<le> (ur_unit_id b, ur_version b, unit_ref.more b)"

definition less_unit_ref_ext :: "'a unit_ref_ext \<Rightarrow> 'a unit_ref_ext \<Rightarrow> bool" where
  "less_unit_ref_ext a b \<longleftrightarrow>
     (ur_unit_id a, ur_version a, unit_ref.more a) < (ur_unit_id b, ur_version b, unit_ref.more b)"

instance
proof
  fix a b c :: "'a unit_ref_ext"
  show "a < b \<longleftrightarrow> a \<le> b \<and> \<not> b \<le> a"
    unfolding less_eq_unit_ref_ext_def less_unit_ref_ext_def by (rule less_le_not_le)
  show "a \<le> a" unfolding less_eq_unit_ref_ext_def by (rule order_refl)
  show "a \<le> c" if "a \<le> b" "b \<le> c"
    using that unfolding less_eq_unit_ref_ext_def by (rule order_trans)
  show "a = b" if "a \<le> b" "b \<le> a"
  proof -
    have "(ur_unit_id a, ur_version a, unit_ref.more a) = (ur_unit_id b, ur_version b, unit_ref.more b)"
      using that unfolding less_eq_unit_ref_ext_def by (rule order_antisym)
    then show "a = b" by (cases a; cases b) simp
  qed
  show "a \<le> b \<or> b \<le> a" unfolding less_eq_unit_ref_ext_def by (rule linear)
qed

end

fun price_source_type_code :: "price_source_type \<Rightarrow> u8" where
  "price_source_type_code RealTrade = 1"
| "price_source_type_code ActiveQuote = 2"
| "price_source_type_code ModelValuation = 3"
| "price_source_type_code CurveInterpolation = 4"

lemma price_source_type_code_inject [simp]:
  "price_source_type_code a = price_source_type_code b \<longleftrightarrow> a = b"
  by (cases a; cases b) simp_all

instantiation price_source_type :: linorder
begin

definition less_eq_price_source_type :: "price_source_type \<Rightarrow> price_source_type \<Rightarrow> bool" where
  "less_eq_price_source_type a b \<longleftrightarrow> price_source_type_code a \<le> price_source_type_code b"

definition less_price_source_type :: "price_source_type \<Rightarrow> price_source_type \<Rightarrow> bool" where
  "less_price_source_type a b \<longleftrightarrow> price_source_type_code a < price_source_type_code b"

instance
  by standard (auto simp: less_eq_price_source_type_def less_price_source_type_def dest: order_antisym)

end

section \<open>Price source summaries\<close>

record price_source_count =
  psc_source_type :: price_source_type
  psc_record_count :: u64

definition price_source_count_new :: "price_source_type \<Rightarrow> u64 \<Rightarrow> price_source_count domain_result" where
  "price_source_count_new source_type record_count =
     (if record_count = 0 then Err InvalidValue
      else Ok \<lparr>psc_source_type = source_type, psc_record_count = record_count\<rparr>)"

record price_source_summary =
  pss_counts :: "price_source_count list"

definition price_source_summary_new :: "price_source_count list \<Rightarrow> price_source_summary domain_result" where
  "price_source_summary_new counts =
     (if counts = [] \<or> windows2_any (\<lambda>a b. psc_source_type a \<ge> psc_source_type b) counts
      then Err InvalidValue else Ok \<lparr>pss_counts = counts\<rparr>)"

definition summary_mixed :: "price_source_summary \<Rightarrow> bool" where
  "summary_mixed s \<longleftrightarrow> length (pss_counts s) > 1"

section \<open>Runs that may panic\<close>

type_synonym 'a run = "'a domain_result option"

definition run_then :: "'a run \<Rightarrow> ('a \<Rightarrow> 'b run) \<Rightarrow> 'b run" where
  "run_then r f = (case r of None \<Rightarrow> None | Some (Err e) \<Rightarrow> Some (Err e) | Some (Ok x) \<Rightarrow> f x)"

fun run_fold :: "('a \<Rightarrow> 's \<Rightarrow> 's run) \<Rightarrow> 'a list \<Rightarrow> 's \<Rightarrow> 's run" where
  "run_fold f [] s = Some (Ok s)"
| "run_fold f (x # xs) s = run_then (f x s) (run_fold f xs)"

lemma run_then_simps [simp]:
  "run_then None f = None" "run_then (Some (Err e)) f = Some (Err e)" "run_then (Some (Ok x)) f = f x"
  by (simp_all add: run_then_def)

lemma run_then_eq_Ok [result_simps]:
  "run_then r f = Some (Ok y) \<longleftrightarrow> (\<exists>x. r = Some (Ok x) \<and> f x = Some (Ok y))"
  by (auto simp: run_then_def split: option.splits result.splits)

lemma run_fold_invariant:
  "run_fold f xs s = Some (Ok t) \<Longrightarrow> P s \<Longrightarrow>
   (\<And>x s t. x \<in> set xs \<Longrightarrow> P s \<Longrightarrow> f x s = Some (Ok t) \<Longrightarrow> P t) \<Longrightarrow> P t"
proof (induction xs arbitrary: s)
  case (Cons x xs)
  then obtain r where r: "f x s = Some (Ok r)" and rest: "run_fold f xs r = Some (Ok t)"
    by (auto simp: result_simps)
  have "P r" using Cons.prems(2,3) r by force
  with rest Cons.prems(3) show ?case by (intro Cons.IH) auto
qed simp

lemma run_fold_unit:
  "(\<And>x. x \<in> set xs \<Longrightarrow> f x () = Some (Ok ())) \<Longrightarrow> run_fold f xs () = Some (Ok ())"
  by (induction xs) simp_all

section \<open>Gross values per unit\<close>

record 'd sum_ops =
  so_scaled :: "i128 \<Rightarrow> u32 \<Rightarrow> 'd"
  so_add :: "'d \<Rightarrow> 'd \<Rightarrow> 'd option"
  so_mantissa :: "'d \<Rightarrow> i128"
  so_scale :: "'d \<Rightarrow> u32"
  so_gt :: "'d \<Rightarrow> 'd \<Rightarrow> bool"

definition value_add :: "'d sum_ops \<Rightarrow> decimal_value \<Rightarrow> decimal_value \<Rightarrow> decimal_value run" where
  "value_add ops = decimal_value_checked_add (so_scaled ops) (so_add ops) (so_mantissa ops) (so_scale ops)"

definition value_is_gt :: "'d sum_ops \<Rightarrow> decimal_value \<Rightarrow> decimal_value \<Rightarrow> bool run" where
  "value_is_gt ops = decimal_value_compare (so_scaled ops) (so_gt ops)"

text \<open>\<open>i128::checked_abs\<close>.\<close>

definition checked_abs_i128 :: "i128 \<Rightarrow> i128 option" where
  "checked_abs_i128 c = checked_i128 \<bar>sint c\<bar>"

definition gross :: "decimal_value \<Rightarrow> decimal_value domain_result" where
  "gross value =
     and_then (ok_or (parse_i128 (dv_coefficient value)) InvalidValue) (\<lambda>parsed.
     and_then (ok_or (checked_abs_i128 parsed) InvalidValue) (\<lambda>coefficient.
     decimal_value_new (i128_to_string coefficient) (dv_scale value) (dv_unit value)))"

definition aggregate_step ::
  "'d sum_ops \<Rightarrow> position \<Rightarrow> (unit_ref, decimal_value) btree_map \<Rightarrow> (unit_ref, decimal_value) btree_map run" where
  "aggregate_step ops p totals =
     run_then (Some (gross (po_economic_value p))) (\<lambda>value.
     case map_of totals (dv_unit value) of
       Some subtotal \<Rightarrow>
         run_then (value_add ops subtotal value) (\<lambda>sum. Some (Ok (bt_replace (dv_unit value) sum totals)))
     | None \<Rightarrow> Some (Ok (bt_insert (dv_unit value) value totals)))"

definition aggregate_gross :: "'d sum_ops \<Rightarrow> position list \<Rightarrow> decimal_value list run" where
  "aggregate_gross ops positions =
     run_then (run_fold (aggregate_step ops) positions []) (\<lambda>totals.
     if totals = [] then Some (Err InvalidValue) else Some (Ok (map snd totals)))"

section \<open>Coverage declarations\<close>

record coverage_declaration =
  cd_imported_position_count :: u64
  cd_participating_position_count :: u64
  cd_imported_gross_by_unit :: "decimal_value list"
  cd_participating_gross_by_unit :: "decimal_value list"
  cd_missing_critical_field_record_count :: u64
  cd_source_confidence :: "price_source_summary option"
  cd_distinct_external_version_count :: u64

text \<open>The capability that a snapshot was verified and is empty (\<open>data_health.rs\<close>).\<close>

record verified_empty_position_snapshot =
  ve_content_hash :: content_hash

definition for_verified_empty :: "verified_empty_position_snapshot \<Rightarrow> coverage_declaration" where
  "for_verified_empty verified =
     \<lparr>cd_imported_position_count = 0, cd_participating_position_count = 0,
      cd_imported_gross_by_unit = [], cd_participating_gross_by_unit = [],
      cd_missing_critical_field_record_count = 0, cd_source_confidence = None,
      cd_distinct_external_version_count = 0\<rparr>"

definition validate_source_confidence :: "price_source_summary option \<Rightarrow> u64 \<Rightarrow> unit domain_result" where
  "validate_source_confidence source_confidence versions =
     (case source_confidence of
        None \<Rightarrow> if versions = 0 then Ok () else Err InvalidValue
      | Some summary \<Rightarrow>
          and_then (try_fold (\<lambda>c total. ok_or (checked_add_u64 total (psc_record_count c)) InvalidValue)
              (filter (\<lambda>c. psc_source_type c \<noteq> CurveInterpolation) (pss_counts summary)) 0)
            (\<lambda>external.
               if external = 0 then (if versions \<noteq> 0 then Err InvalidValue else Ok ())
               else if versions = 0 \<or> versions > external then Err InvalidValue
               else Ok ()))"

text \<open>\<open>u64::try_from\<close> of a length.\<close>

definition u64_of_len :: "nat \<Rightarrow> u64 domain_result" where
  "u64_of_len n = (if n < usize_limit then Ok (word_of_nat n) else Err InvalidValue)"

text \<open>The loop over the participating values: each unit was imported, and with no smaller value.\<close>

definition covered_step :: "'d sum_ops \<Rightarrow> decimal_value list \<Rightarrow> decimal_value \<Rightarrow> unit \<Rightarrow> unit run" where
  "covered_step ops imported_values participating_value u =
     (case find (\<lambda>v. dv_unit v = dv_unit participating_value) imported_values of
        None \<Rightarrow> Some (Err InvalidUnit)
      | Some imported_value \<Rightarrow>
          run_then (value_is_gt ops participating_value imported_value) (\<lambda>gt.
          if gt then Some (Err InvalidValue) else Some (Ok ())))"

definition for_complete_positions ::
  "'d sum_ops \<Rightarrow> position list \<Rightarrow> ulid list \<Rightarrow> price_source_summary option \<Rightarrow> u64 \<Rightarrow>
   coverage_declaration run" where
  "for_complete_positions ops imported ids source_confidence versions =
     (if imported = [] \<or> ids = [] \<or> windows2_any (\<lambda>a b. a \<ge> b) ids then Some (Err InvalidValue)
      else
        let participating = filter (\<lambda>p. po_position_id p \<in> set ids) imported in
        if length participating \<noteq> length ids then Some (Err InvalidValue)
        else
          run_then (Some (validate_source_confidence source_confidence versions)) (\<lambda>_.
          run_then (Some (u64_of_len (length imported))) (\<lambda>imported_count.
          run_then (Some (u64_of_len (length participating))) (\<lambda>participating_count.
          run_then (aggregate_gross ops imported) (\<lambda>imported_values.
          run_then (aggregate_gross ops participating) (\<lambda>participating_values.
          run_then (run_fold (covered_step ops imported_values) participating_values ()) (\<lambda>_.
          Some (Ok
            \<lparr>cd_imported_position_count = imported_count,
             cd_participating_position_count = participating_count,
             cd_imported_gross_by_unit = imported_values,
             cd_participating_gross_by_unit = participating_values,
             cd_missing_critical_field_record_count = 0,
             cd_source_confidence = source_confidence,
             cd_distinct_external_version_count = versions\<rparr>))))))))"

text \<open>\<open>append\<close> is \<open>push_bytes\<close>.\<close>

definition append_amount :: "decimal_value \<Rightarrow> bytes" where
  "append_amount value =
     push_bytes (as_bytes (dv_coefficient value))
     @ push_bytes (to_be_bytes (dv_scale value))
     @ push_bytes (as_bytes (ulid_str (ur_unit_id (dv_unit value))))
     @ push_bytes (to_be_bytes (version_get (ur_version (dv_unit value))))"

definition append_amounts :: "decimal_value list \<Rightarrow> bytes" where
  "append_amounts values = concat (map append_amount values)"

definition append_source_count :: "price_source_count \<Rightarrow> bytes" where
  "append_source_count c =
     push_bytes [price_source_type_code (psc_source_type c)] @ push_bytes (to_be_bytes (psc_record_count c))"

definition coverage_canonical_bytes :: "coverage_declaration \<Rightarrow> bytes" where
  "coverage_canonical_bytes c =
     push_bytes (to_be_bytes (cd_imported_position_count c))
     @ push_bytes (to_be_bytes (cd_participating_position_count c))
     @ append_amounts (cd_imported_gross_by_unit c)
     @ append_amounts (cd_participating_gross_by_unit c)
     @ push_bytes (to_be_bytes (cd_missing_critical_field_record_count c))
     @ (case cd_source_confidence c of
          Some summary \<Rightarrow>
            push_bytes [1] @ concat (map append_source_count (pss_counts summary))
            @ push_bytes [if summary_mixed summary then 1 else 0]
        | None \<Rightarrow> push_bytes [0])
     @ push_bytes (to_be_bytes (cd_distinct_external_version_count c))"


section \<open>Exact values\<close>

text \<open>The number a value writes, and a sum that is exact whenever it exists.\<close>

definition dv_rat :: "decimal_value \<Rightarrow> rat" where
  "dv_rat v = of_int (decimal_int (dv_coefficient v)) / 10 ^ unat (dv_scale v)"

definition so_value :: "'d sum_ops \<Rightarrow> 'd \<Rightarrow> rat" where
  "so_value ops d = of_int (sint (so_mantissa ops d)) / 10 ^ unat (so_scale ops d)"

definition exact_sums :: "'d sum_ops \<Rightarrow> bool" where
  "exact_sums ops \<longleftrightarrow>
     (\<forall>c s. so_value ops (so_scaled ops c s) = of_int (sint c) / 10 ^ unat s) \<and>
     (\<forall>a b s. so_add ops a b = Some s \<longrightarrow> so_value ops s = so_value ops a + so_value ops b) \<and>
     (\<forall>a b. so_gt ops a b \<longleftrightarrow> so_value ops a > so_value ops b)"

lemma exact_sumsD:
  assumes "exact_sums ops"
  shows "so_value ops (so_scaled ops c s) = of_int (sint c) / 10 ^ unat s"
    and "so_add ops a b = Some d \<Longrightarrow> so_value ops d = so_value ops a + so_value ops b"
    and "so_gt ops a b \<longleftrightarrow> so_value ops a > so_value ops b"
  using assms unfolding exact_sums_def by blast+

lemma parse_i128_value: "parse_i128 s = Some c \<Longrightarrow> sint c = decimal_int s"
  by (auto simp: parse_i128_def decimal_int_def checked_i128_Some split: prod.splits if_splits)

lemma decimal_int_to_string [simp]: "decimal_int (int_to_string v) = v"
proof -
  have "sign_split (nat_to_digits n) = (False, nat_to_digits n)" for n
    by (rule sign_split_digit) (simp_all add: nat_to_digits_ascii)
  then show ?thesis by (simp add: decimal_int_def int_to_string_def signed_int_def)
qed

lemma decimal_value_new_rat:
  assumes "decimal_value_new c s u = Ok v"
  shows "dv_rat v = of_int (decimal_int c) / 10 ^ unat s" "dv_unit v = u"
proof -
  have ok: "decimal_input_ok c s" using assms by (auto simp: decimal_value_new_eq split: if_splits)
  with decimal_value_new_keeps_value [of c s u] assms
  have le: "unat (dv_scale v) \<le> unat s" and u: "dv_unit v = u"
    and int: "decimal_int (dv_coefficient v) * 10 ^ (unat s - unat (dv_scale v)) = decimal_int c" by auto
  have "(10 :: rat) ^ unat s = 10 ^ unat (dv_scale v) * 10 ^ (unat s - unat (dv_scale v))"
    using le by (simp flip: power_add)
  then show "dv_rat v = of_int (decimal_int c) / 10 ^ unat s"
    unfolding dv_rat_def int [symmetric] by simp
  show "dv_unit v = u" by (fact u)
qed

lemma as_decimal_value:
  assumes "exact_sums ops" "as_decimal (so_scaled ops) v = Some d"
  shows "so_value ops d = dv_rat v"
proof -
  obtain k where k: "parse_i128 (dv_coefficient v) = Some k" and d: "d = so_scaled ops k (dv_scale v)"
    using assms(2) by (auto simp: as_decimal_def)
  show ?thesis unfolding d dv_rat_def exact_sumsD(1) [OF assms(1)] parse_i128_value [OF k] ..
qed

lemma value_add_Ok:
  assumes "exact_sums ops" "value_add ops a b = Some (Ok c)"
  shows "dv_rat c = dv_rat a + dv_rat b" "dv_unit c = dv_unit a" "dv_unit a = dv_unit b"
proof -
  from assms(2) show u: "dv_unit a = dv_unit b"
    by (auto simp: value_add_def decimal_value_checked_add_def split: if_splits)
  with assms(2) obtain x y s where ab: "as_decimal (so_scaled ops) a = Some x" "as_decimal (so_scaled ops) b = Some y"
    and s: "so_add ops x y = Some s"
    and c: "decimal_value_new (i128_to_string (so_mantissa ops s)) (so_scale ops s) (dv_unit a) = Ok c"
    by (auto simp: value_add_def decimal_value_checked_add_def result_simps split: option.splits)
  have "dv_rat c = so_value ops s"
    using decimal_value_new_rat(1) [OF c] by (simp add: so_value_def i128_to_string_def)
  also have "\<dots> = dv_rat a + dv_rat b"
    using exact_sumsD(2) [OF assms(1) s] as_decimal_value [OF assms(1)] ab by simp
  finally show "dv_rat c = dv_rat a + dv_rat b" .
  show "dv_unit c = dv_unit a" by (rule decimal_value_new_rat(2) [OF c])
qed

lemma gross_Ok:
  assumes "gross v = Ok g"
  shows "dv_rat g = \<bar>dv_rat v\<bar>" "dv_unit g = dv_unit v"
proof -
  obtain k a where k: "parse_i128 (dv_coefficient v) = Some k" and a: "checked_abs_i128 k = Some a"
    and g: "decimal_value_new (i128_to_string a) (dv_scale v) (dv_unit v) = Ok g"
    using assms by (auto simp: gross_def result_simps)
  have "sint a = \<bar>decimal_int (dv_coefficient v)\<bar>"
    using a parse_i128_value [OF k] by (simp add: checked_abs_i128_def checked_i128_Some)
  then show "dv_rat g = \<bar>dv_rat v\<bar>"
    using decimal_value_new_rat(1) [OF g] by (simp add: dv_rat_def i128_to_string_def)
  show "dv_unit g = dv_unit v" by (rule decimal_value_new_rat(2) [OF g])
qed

section \<open>Totals per unit\<close>

text \<open>The exact gross value of the positions in one unit.\<close>

definition gross_in :: "unit_ref \<Rightarrow> position list \<Rightarrow> rat" where
  "gross_in u ps = (\<Sum>p \<leftarrow> filter (\<lambda>p. dv_unit (po_economic_value p) = u) ps. \<bar>dv_rat (po_economic_value p)\<bar>)"

definition subtotal :: "(unit_ref, decimal_value) btree_map \<Rightarrow> unit_ref \<Rightarrow> rat" where
  "subtotal m u = (case map_of m u of None \<Rightarrow> 0 | Some v \<Rightarrow> dv_rat v)"

definition keyed_by_unit :: "(unit_ref, decimal_value) btree_map \<Rightarrow> bool" where
  "keyed_by_unit m \<longleftrightarrow> map fst m = map (dv_unit \<circ> snd) m"

lemma keyed_by_unit_lookup:
  "keyed_by_unit m \<longleftrightarrow> (\<forall>(u, v) \<in> set m. dv_unit v = u)"
  by (induction m) (auto simp: keyed_by_unit_def)

lemma set_bt_insert: "set (bt_insert k v m) \<subseteq> insert (k, v) (set m)"
  by (induction k v m rule: bt_insert.induct) auto

lemma set_bt_replace: "set (bt_replace k v m) \<subseteq> insert (k, v) (set m)"
  by (induction k v m rule: bt_replace.induct) auto

lemma aggregate_step_Ok:
  assumes exact: "exact_sums ops" and step: "aggregate_step ops p m = Some (Ok n)"
    and ok: "bt_ok m" and keyed: "keyed_by_unit m"
  shows "bt_ok n \<and> keyed_by_unit n \<and>
    fst ` set n = insert (dv_unit (po_economic_value p)) (fst ` set m) \<and>
    subtotal n u = subtotal m u + gross_in u [p]"
proof -
  obtain g where g: "gross (po_economic_value p) = Ok g"
    using step by (auto simp: aggregate_step_def result_simps)
  note gross = gross_Ok [OF g]
  show ?thesis
  proof (cases "map_of m (dv_unit g)")
    case None
    then have n: "n = bt_insert (dv_unit g) g m" using step g by (simp add: aggregate_step_def)
    have "keyed_by_unit n" using keyed set_bt_insert [of "dv_unit g" g m]
      unfolding n keyed_by_unit_lookup by blast
    then show ?thesis
      using None ok gross by (auto simp: n bt_ok_insert set_bt_insert_keys subtotal_def gross_in_def)
  next
    case (Some t)
    then obtain s where s: "value_add ops t g = Some (Ok s)" and n: "n = bt_replace (dv_unit g) s m"
      using step g by (auto simp: aggregate_step_def result_simps)
    note add = value_add_Ok [OF exact s]
    have "keyed_by_unit n" using keyed set_bt_replace [of "dv_unit g" s m] add
      unfolding n keyed_by_unit_lookup by auto
    moreover have keys: "map fst n = map fst m" by (simp add: n)
    moreover have "dv_unit g \<in> fst ` set m" using Some by (metis map_of_eq_None_iff option.distinct(1))
    moreover have "fst ` set n = fst ` set m" using keys by (metis list.set_map)
    moreover have "map_of n = (map_of m)(dv_unit g \<mapsto> s)" unfolding n using Some by (intro bt_get_replace) simp
    ultimately show ?thesis
      using Some ok gross add by (auto simp: bt_ok_def subtotal_def gross_in_def)
  qed
qed

lemma aggregate_fold_Ok:
  assumes "exact_sums ops"
  shows "run_fold (aggregate_step ops) ps m = Some (Ok n) \<Longrightarrow> bt_ok m \<Longrightarrow> keyed_by_unit m \<Longrightarrow>
    bt_ok n \<and> keyed_by_unit n \<and> fst ` set n = (dv_unit \<circ> po_economic_value) ` set ps \<union> fst ` set m \<and>
    subtotal n u = subtotal m u + gross_in u ps"
proof (induction ps arbitrary: m)
  case Nil
  then show ?case by (simp add: gross_in_def)
next
  case (Cons p ps)
  then obtain l where step: "aggregate_step ops p m = Some (Ok l)"
    and rest: "run_fold (aggregate_step ops) ps l = Some (Ok n)" by (auto simp: result_simps)
  note first = aggregate_step_Ok [OF assms step Cons.prems(2,3)]
  have "gross_in u (p # ps) = gross_in u [p] + gross_in u ps" by (simp add: gross_in_def)
  with first Cons.IH [OF rest] show ?case by auto
qed

text \<open>
  The result lists the units that occur, in ascending order and once each, with the exact gross
  value of the positions in that unit.
\<close>

lemma aggregate_gross_Ok:
  assumes exact: "exact_sums ops" and agg: "aggregate_gross ops ps = Some (Ok vs)"
  shows "map dv_unit vs = sorted_list_of_set (dv_unit ` po_economic_value ` set ps)"
    and "v \<in> set vs \<Longrightarrow> dv_rat v = gross_in (dv_unit v) ps"
proof -
  obtain m where fold: "run_fold (aggregate_step ops) ps [] = Some (Ok m)" and vs: "vs = map snd m"
    using agg by (auto simp: aggregate_gross_def result_simps split: if_splits)
  have ok: "bt_ok m" and keyed: "keyed_by_unit m"
    and units: "fst ` set m = (dv_unit \<circ> po_economic_value) ` set ps"
    and totals: "subtotal m u = gross_in u ps" for u
    using aggregate_fold_Ok [OF exact fold, of undefined] aggregate_fold_Ok [OF exact fold, of u]
    by (simp_all add: keyed_by_unit_lookup subtotal_def)
  have keys: "map dv_unit vs = map fst m" using keyed by (simp add: vs keyed_by_unit_def)
  then show "map dv_unit vs = sorted_list_of_set (dv_unit ` po_economic_value ` set ps)"
    using ok units by (intro strict_sorted_equal) (simp_all add: bt_ok_def image_comp)
  assume "v \<in> set vs"
  then have "(dv_unit v, v) \<in> set m" using keyed unfolding vs keyed_by_unit_lookup by fastforce
  then have "map_of m (dv_unit v) = Some v"
    using ok by (simp add: bt_ok_def strict_sorted_iff)
  then show "dv_rat v = gross_in (dv_unit v) ps" using totals [of "dv_unit v"] by (simp add: subtotal_def)
qed

text \<open>Every value of the result is built by the constructor, so comparing it cannot panic.\<close>

lemma decimal_value_new_parses:
  "decimal_value_new c s u = Ok v \<Longrightarrow> parse_i128 (dv_coefficient v) \<noteq> None"
  using decimal_value_new_keeps_value [of c s u] by (auto simp: decimal_value_new_eq split: if_splits)

lemma value_add_parses: "value_add ops a b = Some (Ok c) \<Longrightarrow> parse_i128 (dv_coefficient c) \<noteq> None"
  by (auto simp: value_add_def decimal_value_checked_add_def result_simps
      split: if_splits option.splits dest: decimal_value_new_parses)

lemma aggregate_gross_parses:
  assumes "aggregate_gross ops ps = Some (Ok vs)" "v \<in> set vs"
  shows "parse_i128 (dv_coefficient v) \<noteq> None"
proof -
  obtain m where fold: "run_fold (aggregate_step ops) ps [] = Some (Ok m)" and vs: "vs = map snd m"
    using assms(1) by (auto simp: aggregate_gross_def result_simps split: if_splits)
  have "\<forall>(u, v) \<in> set m. parse_i128 (dv_coefficient v) \<noteq> None"
    using fold
  proof (rule run_fold_invariant)
    fix p m n
    assume all: "\<forall>(u, v) \<in> set m. parse_i128 (dv_coefficient v) \<noteq> None"
      and step: "aggregate_step ops p m = Some (Ok n)"
    obtain g where g: "gross (po_economic_value p) = Ok g" using step by (auto simp: aggregate_step_def result_simps)
    then have parses: "parse_i128 (dv_coefficient g) \<noteq> None"
      by (auto simp: gross_def result_simps dest: decimal_value_new_parses)
    obtain u x where "n = bt_insert u x m \<or> n = bt_replace u x m" "parse_i128 (dv_coefficient x) \<noteq> None"
    proof (cases "map_of m (dv_unit g)")
      case None
      then show ?thesis using step g parses that [of "dv_unit g" g] by (simp add: aggregate_step_def)
    next
      case (Some t)
      then obtain x where "value_add ops t g = Some (Ok x)" "n = bt_replace (dv_unit g) x m"
        using step g by (auto simp: aggregate_step_def result_simps)
      then show ?thesis using that value_add_parses by blast
    qed
    with all set_bt_insert [of u x m] set_bt_replace [of u x m]
    show "\<forall>(u, v) \<in> set n. parse_i128 (dv_coefficient v) \<noteq> None" by fast
  qed simp
  with assms(2) show ?thesis by (auto simp: vs)
qed

lemma gross_in_nonneg: "0 \<le> gross_in u ps"
  unfolding gross_in_def by (rule sum_list_nonneg) auto

lemma gross_in_filter: "gross_in u (filter P ps) \<le> gross_in u ps"
  by (induction ps) (auto simp: gross_in_def)

text \<open>A part of the positions never exceeds the whole, so the comparison of the totals accepts.\<close>

lemma covered_by_imported:
  assumes exact: "exact_sums ops" and imported: "aggregate_gross ops ps = Some (Ok vs)"
    and part: "aggregate_gross ops (filter P ps) = Some (Ok ws)"
  shows "run_fold (covered_step ops vs) ws () = Some (Ok ())"
proof (rule run_fold_unit)
  fix w assume w: "w \<in> set ws"
  have "dv_unit w \<in> set (map dv_unit ws)" using w by simp
  then have "dv_unit w \<in> set (map dv_unit vs)"
    unfolding aggregate_gross_Ok(1) [OF exact imported] aggregate_gross_Ok(1) [OF exact part] by auto
  then obtain v where find: "find (\<lambda>v. dv_unit v = dv_unit w) vs = Some v" 
    by (cases "find (\<lambda>v. dv_unit v = dv_unit w) vs") (auto simp: find_None_iff)
  then have v: "v \<in> set vs" and unit: "dv_unit v = dv_unit w" by (auto simp: find_Some_iff)
  obtain a b where ab: "as_decimal (so_scaled ops) w = Some a" "as_decimal (so_scaled ops) v = Some b"
    using aggregate_gross_parses [OF part w] aggregate_gross_parses [OF imported v]
    by (auto simp: as_decimal_def)
  have "dv_rat w \<le> dv_rat v"
    using aggregate_gross_Ok(2) [OF exact part w] aggregate_gross_Ok(2) [OF exact imported v] unit
      gross_in_filter [of "dv_unit v" P ps] by simp
  then have "\<not> so_gt ops a b"
    using exact_sumsD(3) [OF exact] as_decimal_value [OF exact] ab by simp
  then show "covered_step ops vs w () = Some (Ok ())"
    using ab unit find by (simp add: covered_step_def value_is_gt_def decimal_value_compare_def)
qed

lemma windows2_any_strict: "windows2_any (\<lambda>a b. a \<ge> b) xs \<longleftrightarrow> \<not> sorted_wrt (<) (xs :: 'a::linorder list)"
proof (induction xs rule: induct_list012)
  case (3 x y zs)
  then show ?case by (auto simp: not_le intro: less_trans)
qed simp_all

lemma length_filter_ids:
  assumes "distinct (map f ps)" "distinct ids"
  shows "length (filter (\<lambda>p. f p \<in> set ids) ps) = length ids \<longleftrightarrow> set ids \<subseteq> f ` set ps"
proof -
  let ?qs = "filter (\<lambda>p. f p \<in> set ids) ps"
  have dist: "distinct (map f ?qs)" using assms(1) by (rule distinct_map_filter)
  have sub: "set (map f ?qs) \<subseteq> set ids" by auto
  have card: "length ?qs = card (set (map f ?qs))" "length ids = card (set ids)"
    using dist assms(2) by (metis distinct_card length_map)+
  have "set (map f ?qs) = set ids \<longleftrightarrow> set ids \<subseteq> f ` set ps" by auto
  moreover have "length ?qs = length ids \<longleftrightarrow> set (map f ?qs) = set ids"
    unfolding card using card_subset_eq [OF finite_set sub] by metis
  ultimately show ?thesis by simp
qed


section \<open>What a declaration says\<close>

lemma u64_of_len_Ok [result_simps]: "u64_of_len n = Ok w \<longleftrightarrow> n < usize_limit \<and> unat w = n"
proof -
  have "unat (word_of_nat n :: u64) = n" if "n < usize_limit" using that by (simp add: unat_of_nat)
  then show ?thesis
    by (auto simp: u64_of_len_def intro: unsigned_word_eqI [where 'a = nat])
qed

definition participating_positions :: "position list \<Rightarrow> ulid list \<Rightarrow> position list" where
  "participating_positions imported ids = filter (\<lambda>p. po_position_id p \<in> set ids) imported"

lemma for_complete_positions_Ok:
  assumes "exact_sums ops" "distinct (map po_position_id imported)"
  shows "for_complete_positions ops imported ids sc n = Some (Ok c) \<longleftrightarrow>
    imported \<noteq> [] \<and> ids \<noteq> [] \<and> sorted_wrt (<) ids \<and> set ids \<subseteq> po_position_id ` set imported \<and>
    validate_source_confidence sc n = Ok () \<and> length imported < usize_limit \<and>
    aggregate_gross ops imported = Some (Ok (cd_imported_gross_by_unit c)) \<and>
    aggregate_gross ops (participating_positions imported ids) = Some (Ok (cd_participating_gross_by_unit c)) \<and>
    unat (cd_imported_position_count c) = length imported \<and>
    unat (cd_participating_position_count c) = length ids \<and>
    cd_missing_critical_field_record_count c = 0 \<and> cd_source_confidence c = sc \<and>
    cd_distinct_external_version_count c = n"
proof -
  let ?part = "participating_positions imported ids"
  have len: "length ?part = length ids \<longleftrightarrow> set ids \<subseteq> po_position_id ` set imported" if "sorted_wrt (<) ids"
    unfolding participating_positions_def using assms(2) that
    by (intro length_filter_ids) (simp_all add: strict_sorted_iff)
  have le: "length ?part \<le> length imported" by (simp add: participating_positions_def)
  have covered: "run_fold (covered_step ops vs) ws () = Some (Ok ())"
    if "aggregate_gross ops imported = Some (Ok vs)" "aggregate_gross ops ?part = Some (Ok ws)" for vs ws
    using covered_by_imported [OF assms(1)] that unfolding participating_positions_def by blast
  have "for_complete_positions ops imported ids sc n = Some (Ok c) \<longleftrightarrow>
    imported \<noteq> [] \<and> ids \<noteq> [] \<and> sorted_wrt (<) ids \<and> length ?part = length ids \<and>
    validate_source_confidence sc n = Ok () \<and>
    (\<exists>i j vs ws. u64_of_len (length imported) = Ok i \<and> u64_of_len (length ?part) = Ok j \<and>
      aggregate_gross ops imported = Some (Ok vs) \<and> aggregate_gross ops ?part = Some (Ok ws) \<and>
      run_fold (covered_step ops vs) ws () = Some (Ok ()) \<and>
      c = \<lparr>cd_imported_position_count = i, cd_participating_position_count = j,
        cd_imported_gross_by_unit = vs, cd_participating_gross_by_unit = ws,
        cd_missing_critical_field_record_count = 0, cd_source_confidence = sc,
        cd_distinct_external_version_count = n\<rparr>)"
    unfolding for_complete_positions_def Let_def participating_positions_def [symmetric]
    by (auto simp: run_then_eq_Ok windows2_any_strict)
  also have "\<dots> \<longleftrightarrow> imported \<noteq> [] \<and> ids \<noteq> [] \<and> sorted_wrt (<) ids \<and> length ?part = length ids \<and>
    validate_source_confidence sc n = Ok () \<and> length imported < usize_limit \<and>
    aggregate_gross ops imported = Some (Ok (cd_imported_gross_by_unit c)) \<and>
    aggregate_gross ops ?part = Some (Ok (cd_participating_gross_by_unit c)) \<and>
    unat (cd_imported_position_count c) = length imported \<and>
    unat (cd_participating_position_count c) = length ids \<and>
    cd_missing_critical_field_record_count c = 0 \<and> cd_source_confidence c = sc \<and>
    cd_distinct_external_version_count c = n"
    using le covered by (cases c) (auto simp: u64_of_len_Ok)
  finally show ?thesis using len by blast
qed


section \<open>The canonical bytes\<close>

definition amount_blocks :: "decimal_value \<Rightarrow> bytes list" where
  "amount_blocks v =
     [as_bytes (dv_coefficient v), to_be_bytes (dv_scale v), as_bytes (ulid_str (ur_unit_id (dv_unit v))),
      to_be_bytes (version_get (ur_version (dv_unit v)))]"

definition source_blocks :: "price_source_count \<Rightarrow> bytes list" where
  "source_blocks c = [[price_source_type_code (psc_source_type c)], to_be_bytes (psc_record_count c)]"

definition confidence_blocks :: "price_source_summary option \<Rightarrow> bytes list" where
  "confidence_blocks s =
     (case s of
        Some summary \<Rightarrow>
          [1] # concat (map source_blocks (pss_counts summary)) @ [[if summary_mixed summary then 1 else 0]]
      | None \<Rightarrow> [[0]])"

definition coverage_blocks :: "coverage_declaration \<Rightarrow> bytes list" where
  "coverage_blocks c =
     [to_be_bytes (cd_imported_position_count c), to_be_bytes (cd_participating_position_count c)]
     @ concat (map amount_blocks (cd_imported_gross_by_unit c @ cd_participating_gross_by_unit c))
     @ to_be_bytes (cd_missing_critical_field_record_count c) # confidence_blocks (cd_source_confidence c)
     @ [to_be_bytes (cd_distinct_external_version_count c)]"

lemma coverage_bytes_blocks: "coverage_canonical_bytes c = concat (map push_bytes (coverage_blocks c))"
  by (simp add: coverage_canonical_bytes_def coverage_blocks_def confidence_blocks_def append_amounts_def
      append_amount_def [abs_def] amount_blocks_def [abs_def] append_source_count_def [abs_def] source_blocks_def [abs_def]
      concat_map_concat split: option.split)

lemma amount_blocks_inject [simp]: "amount_blocks v = amount_blocks w \<longleftrightarrow> v = w"
  by (cases v; cases w) (auto simp: amount_blocks_def intro!: unit_ref.equality ulid.expand version.expand)

lemma amounts_then_tag:
  "concat (map amount_blocks vs) @ m # t # r = concat (map amount_blocks ws) @ m' # t' # r' \<Longrightarrow>
   length t = 1 \<Longrightarrow> length t' = 1 \<Longrightarrow> vs = ws \<and> m # t # r = m' # t' # r'"
proof (induction vs arbitrary: ws)
  case Nil
  then show ?case by (cases ws) (auto simp: amount_blocks_def)
next
  case (Cons v vs)
  then obtain w us where ws: "ws = w # us" by (cases ws) (auto simp: amount_blocks_def)
  have "length (amount_blocks v) = length (amount_blocks w)" by (simp add: amount_blocks_def)
  then have "amount_blocks v = amount_blocks w"
    and "concat (map amount_blocks vs) @ m # t # r = concat (map amount_blocks us) @ m' # t' # r'"
    using Cons.prems(1) by (simp_all add: ws)
  with Cons show ?case by (simp add: ws)
qed

lemma source_blocks_concat:
  "concat (map source_blocks cs) @ r = concat (map source_blocks ds) @ s \<Longrightarrow> length r = length s \<Longrightarrow>
   cs = ds \<and> r = s"
proof -
  have len: "length (concat (map source_blocks cs)) = 2 * length cs" for cs
    by (induction cs) (simp_all add: source_blocks_def)
  assume eq: "concat (map source_blocks cs) @ r = concat (map source_blocks ds) @ s" and "length r = length s"
  then have "length cs = length ds" using len [of cs] len [of ds] by (auto dest: arg_cong [of _ _ length])
  then show ?thesis using eq
    by (induction cs ds rule: list_induct2)
      (auto simp: source_blocks_def intro!: price_source_count.equality)
qed

lemma confidence_blocks_inject:
  "confidence_blocks s @ [d] = confidence_blocks s' @ [d'] \<Longrightarrow> s = s' \<and> d = d'"
proof (cases s; cases s')
  fix x y
  assume eq: "confidence_blocks s @ [d] = confidence_blocks s' @ [d']" and xy: "s = Some x" "s' = Some y"
  then have "concat (map source_blocks (pss_counts x)) @ [[if summary_mixed x then 1 else 0], d] =
      concat (map source_blocks (pss_counts y)) @ [[if summary_mixed y then 1 else 0], d']"
    by (simp add: confidence_blocks_def)
  from source_blocks_concat [OF this] show ?thesis by (simp add: xy)
qed (simp_all add: confidence_blocks_def)

text \<open>
  Where the imported values end: the participating units are among the imported ones, and those
  ascend, so the first unit that does not ascend is a participating one.
\<close>

lemma ascending_then_subset:
  fixes f :: "'a \<Rightarrow> 'k::linorder"
  assumes "xs @ ys = xs' @ ys'" "sorted_wrt (<) (map f xs)" "sorted_wrt (<) (map f xs')"
    and "f ` set ys \<subseteq> f ` set xs" "f ` set ys' \<subseteq> f ` set xs'"
  shows "xs = xs' \<and> ys = ys'"
proof -
  have no_gap: "us = []" if zs: "zs = us @ vs" and sorted: "sorted_wrt (<) (map f (as @ us))"
      and sub: "f ` set zs \<subseteq> f ` set as" for as us zs vs
  proof (rule ccontr)
    assume "us \<noteq> []"
    then obtain u where u: "u \<in> set us" by (cases us) auto
    then obtain a where "a \<in> set as" "f u = f a" using zs sub by auto
    moreover have "f a < f u" using sorted u \<open>a \<in> set as\<close> by (simp add: sorted_wrt_append)
    ultimately show False by simp
  qed
  from assms(1) obtain us where "xs = xs' @ us \<and> us @ ys = ys' \<or> xs @ us = xs' \<and> ys = us @ ys'"
    by (auto simp: append_eq_append_conv2)
  then show ?thesis
  proof
    assume us: "xs = xs' @ us \<and> us @ ys = ys'"
    then have "us = []" using assms(2,5) by (intro no_gap [of ys' us ys xs']) simp_all
    with us show ?thesis by simp
  next
    assume us: "xs @ us = xs' \<and> ys = us @ ys'"
    then have "us = []" using assms(3,4) by (intro no_gap [of ys us ys' xs]) auto
    with us show ?thesis by simp
  qed
qed

definition coverage_wf :: "coverage_declaration \<Rightarrow> bool" where
  "coverage_wf c \<longleftrightarrow>
     sorted_wrt (<) (map dv_unit (cd_imported_gross_by_unit c)) \<and>
     dv_unit ` set (cd_participating_gross_by_unit c) \<subseteq> dv_unit ` set (cd_imported_gross_by_unit c)"

lemma coverage_blocks_inject:
  assumes "coverage_blocks c = coverage_blocks d" "coverage_wf c" "coverage_wf d"
  shows "c = d"
proof -
  define rest where "rest c = confidence_blocks (cd_source_confidence c) @ [to_be_bytes (cd_distinct_external_version_count c)]"
    for c :: coverage_declaration
  have tag: "\<exists>t r. rest c = t # r \<and> length t = 1" for c
    unfolding rest_def confidence_blocks_def by (cases "cd_source_confidence c") auto
  obtain t r t' r' where t: "rest c = t # r" "length t = 1" "rest d = t' # r'" "length t' = 1" using tag by meson
  have counts: "cd_imported_position_count c = cd_imported_position_count d"
      "cd_participating_position_count c = cd_participating_position_count d"
    and eq: "concat (map amount_blocks (cd_imported_gross_by_unit c @ cd_participating_gross_by_unit c))
        @ to_be_bytes (cd_missing_critical_field_record_count c) # t # r =
      concat (map amount_blocks (cd_imported_gross_by_unit d @ cd_participating_gross_by_unit d))
        @ to_be_bytes (cd_missing_critical_field_record_count d) # t' # r'"
    using assms(1) unfolding coverage_blocks_def rest_def [symmetric] t by simp_all
  from amounts_then_tag [OF eq t(2,4)]
  have amounts: "cd_imported_gross_by_unit c @ cd_participating_gross_by_unit c =
      cd_imported_gross_by_unit d @ cd_participating_gross_by_unit d"
    and missing: "cd_missing_critical_field_record_count c = cd_missing_critical_field_record_count d"
    and rest: "rest c = rest d" by (simp_all add: t)
  from confidence_blocks_inject [OF rest [unfolded rest_def]]
  have "cd_source_confidence c = cd_source_confidence d"
    "cd_distinct_external_version_count c = cd_distinct_external_version_count d" by simp_all
  moreover have "cd_imported_gross_by_unit c = cd_imported_gross_by_unit d"
    "cd_participating_gross_by_unit c = cd_participating_gross_by_unit d"
    using ascending_then_subset [OF amounts, of dv_unit] assms(2,3) unfolding coverage_wf_def by blast+
  ultimately show ?thesis using counts missing by (intro coverage_declaration.equality) simp_all
qed

lemma coverage_bytes_inject:
  assumes "coverage_canonical_bytes c = coverage_canonical_bytes d" "length (coverage_canonical_bytes c) < usize_limit"
    and "coverage_wf c" "coverage_wf d"
  shows "c = d"
  using coverage_blocks_inject assms blocks_inject unfolding coverage_bytes_blocks by blast

lemma for_complete_positions_wf:
  assumes "exact_sums ops" "distinct (map po_position_id imported)"
    and "for_complete_positions ops imported ids sc n = Some (Ok c)"
  shows "coverage_wf c"
proof -
  have imported: "aggregate_gross ops imported = Some (Ok (cd_imported_gross_by_unit c))"
    and part: "aggregate_gross ops (participating_positions imported ids) = Some (Ok (cd_participating_gross_by_unit c))"
    using assms(3) for_complete_positions_Ok [OF assms(1,2)] by blast+
  note units = aggregate_gross_Ok(1) [OF assms(1)]
  have "set (map dv_unit (cd_participating_gross_by_unit c)) \<subseteq> set (map dv_unit (cd_imported_gross_by_unit c))"
    unfolding units [OF imported] units [OF part] by (auto simp: participating_positions_def)
  moreover have "sorted_wrt (<) (map dv_unit (cd_imported_gross_by_unit c))" unfolding units [OF imported] by simp
  ultimately show ?thesis by (simp add: coverage_wf_def)
qed

text \<open>The declarations the two constructors build.\<close>

definition coverage_constructed :: "'d sum_ops \<Rightarrow> coverage_declaration \<Rightarrow> bool" where
  "coverage_constructed ops c \<longleftrightarrow>
     (\<exists>verified. c = for_verified_empty verified) \<or>
     (\<exists>imported ids sc n. distinct (map po_position_id imported) \<and>
        for_complete_positions ops imported ids sc n = Some (Ok c))"

lemma coverage_wf_verified_empty: "coverage_wf (for_verified_empty verified)"
  by (simp add: coverage_wf_def for_verified_empty_def)

lemma coverage_constructed_wf: "exact_sums ops \<Longrightarrow> coverage_constructed ops c \<Longrightarrow> coverage_wf c"
  using for_complete_positions_wf [of ops] unfolding coverage_constructed_def
  by (metis coverage_wf_verified_empty)

section \<open>Properties\<close>

text \<open>The units that occur, ascending and once each, with the exact gross value of each.\<close>

definition declares_totals :: "decimal_value list \<Rightarrow> position list \<Rightarrow> bool" where
  "declares_totals vs ps \<longleftrightarrow>
     map dv_unit vs = sorted_list_of_set (dv_unit ` po_economic_value ` set ps) \<and>
     (\<forall>v \<in> set vs. dv_rat v = gross_in (dv_unit v) ps)"

text \<open>
  C25: a coverage declaration says what was imported and what takes part. With exact sums, for
  imported positions with distinct identifiers, it is built exactly when both lists are not
  empty, the participating identifiers ascend strictly and were all imported, the source
  confidence fits the number of external versions, and the two sums per unit exist: the check
  that no participating total exceeds the imported one never rejects. The declaration then
  counts both lists, and gives for each unit that occurs, in ascending order, the sum of the
  absolute economic values.
\<close>

theorem coverage_declares:
  assumes "exact_sums ops" "distinct (map po_position_id imported)"
  shows "((\<exists>c. for_complete_positions ops imported ids sc n = Some (Ok c)) \<longleftrightarrow>
      imported \<noteq> [] \<and> ids \<noteq> [] \<and> sorted_wrt (<) ids \<and> set ids \<subseteq> po_position_id ` set imported \<and>
      validate_source_confidence sc n = Ok () \<and> length imported < usize_limit \<and>
      (\<exists>vs. aggregate_gross ops imported = Some (Ok vs)) \<and>
      (\<exists>ws. aggregate_gross ops (participating_positions imported ids) = Some (Ok ws))) \<and>
    (\<forall>c. for_complete_positions ops imported ids sc n = Some (Ok c) \<longrightarrow>
      unat (cd_imported_position_count c) = length imported \<and>
      unat (cd_participating_position_count c) = length ids \<and>
      declares_totals (cd_imported_gross_by_unit c) imported \<and>
      declares_totals (cd_participating_gross_by_unit c) (participating_positions imported ids) \<and>
      cd_missing_critical_field_record_count c = 0 \<and> cd_source_confidence c = sc \<and>
      cd_distinct_external_version_count c = n)"
proof (intro conjI allI impI iffI)
  note iff = for_complete_positions_Ok [OF assms]
  assume right: "imported \<noteq> [] \<and> ids \<noteq> [] \<and> sorted_wrt (<) ids \<and> set ids \<subseteq> po_position_id ` set imported \<and>
      validate_source_confidence sc n = Ok () \<and> length imported < usize_limit \<and>
      (\<exists>vs. aggregate_gross ops imported = Some (Ok vs)) \<and>
      (\<exists>ws. aggregate_gross ops (participating_positions imported ids) = Some (Ok ws))"
  then obtain vs ws where agg: "aggregate_gross ops imported = Some (Ok vs)"
    "aggregate_gross ops (participating_positions imported ids) = Some (Ok ws)" by blast
  have "length ids \<le> length imported"
    using right card_mono [of "po_position_id ` set imported" "set ids"] card_image_le [of "set imported" po_position_id]
      card_length [of imported] by (simp add: strict_sorted_iff distinct_card)
  then have "length ids < usize_limit" using right by linarith
  then show "\<exists>c. for_complete_positions ops imported ids sc n = Some (Ok c)"
    unfolding iff using right agg
    by (intro exI [of _ "\<lparr>cd_imported_position_count = word_of_nat (length imported),
        cd_participating_position_count = word_of_nat (length ids),
        cd_imported_gross_by_unit = vs, cd_participating_gross_by_unit = ws,
        cd_missing_critical_field_record_count = 0, cd_source_confidence = sc,
        cd_distinct_external_version_count = n\<rparr>"]) (simp add: unat_of_nat)
qed (use for_complete_positions_Ok [OF assms] aggregate_gross_Ok [OF assms(1)] in
    \<open>auto simp: declares_totals_def\<close>)

text \<open>
  The canonical bytes of a declaration can be read in one way only, although they write the
  imported values, the participating values and the optional summary one after the other
  without counts: two constructed declarations with the same bytes are equal.
\<close>

theorem coverage_bytes_identify:
  assumes "exact_sums ops" "coverage_constructed ops c" "coverage_constructed ops d"
    and "coverage_canonical_bytes c = coverage_canonical_bytes d"
    and "length (coverage_canonical_bytes c) < usize_limit"
  shows "c = d"
  using coverage_bytes_inject coverage_constructed_wf assms by blast

text \<open>
  Witnesses: two positions of one unit, of which one takes part. \<open>checked_ops\<close> is decimal
  addition that fails where \<open>rust_decimal\<close> would have to round.
\<close>

definition checked_ops :: "(i128 \<times> u32) sum_ops" where
  "checked_ops =
     \<lparr>so_scaled = Pair,
      so_add = (\<lambda>(a, s) (b, t).
        let m = max s t;
            v = sint a * 10 ^ (unat m - unat s) + sint b * 10 ^ (unat m - unat t)
        in if \<bar>v\<bar> < 2 ^ 96 then Some (word_of_int v, m) else None),
      so_mantissa = fst, so_scale = snd,
      so_gt = (\<lambda>(a, s) (b, t). sint a * 10 ^ unat t > sint b * 10 ^ unat s)\<rparr>"

lemma checked_ops_add:
  assumes "so_add checked_ops (a, s) (b, t) = Some d"
  shows "so_value checked_ops d = so_value checked_ops (a, s) + so_value checked_ops (b, t)"
proof -
  define m where "m = max s t"
  define v where "v = sint a * 10 ^ (unat m - unat s) + sint b * 10 ^ (unat m - unat t)"
  have v: "\<bar>v\<bar> < 2 ^ 96" and d: "d = (word_of_int v, m)"
    using assms by (auto simp: checked_ops_def Let_def m_def v_def split: if_splits)
  then have "sint (word_of_int v :: i128) = v" by (intro sint_of_i128_range) (auto simp: i128_range_def abs_less_iff)
  moreover have "x * 10 ^ (unat m - unat k) / 10 ^ unat m = x / 10 ^ unat k" if "k \<le> m" for x :: rat and k
  proof -
    have "(10 :: rat) ^ unat m = 10 ^ unat k * 10 ^ (unat m - unat k)"
      using that by (simp add: word_le_nat_alt flip: power_add)
    then show ?thesis by simp
  qed
  then have "(of_int v :: rat) / 10 ^ unat m = of_int (sint a) / 10 ^ unat s + of_int (sint b) / 10 ^ unat t"
    by (simp add: v_def add_divide_distrib m_def)
  ultimately show ?thesis by (simp only: so_value_def d) (simp add: checked_ops_def)
qed

lemma exact_checked_ops: "exact_sums checked_ops"
proof -
  have "(sint a * 10 ^ unat t > sint b * 10 ^ unat s) \<longleftrightarrow>
      (of_int (sint a) / 10 ^ unat s :: rat) > of_int (sint b) / 10 ^ unat t" for a b :: i128 and s t :: u32
  proof -
    have "(of_int (sint a) / 10 ^ unat s :: rat) > of_int (sint b) / 10 ^ unat t \<longleftrightarrow>
        (of_int (sint b * 10 ^ unat s) :: rat) < of_int (sint a * 10 ^ unat t)"
      by (simp add: field_simps)
    then show ?thesis by linarith
  qed
  then show ?thesis
    unfolding exact_sums_def using checked_ops_add
    by (auto simp: so_value_def checked_ops_def simp del: of_int_sint)
qed

definition sample_position :: "char \<Rightarrow> string \<Rightarrow> u32 \<Rightarrow> position" where
  "sample_position c coefficient scale =
     (let v = \<lparr>dv_coefficient = coefficient, dv_scale = scale, dv_unit = sample_unit\<rparr> in
      \<lparr>po_position_id = Ulid (replicate 26 c),
       po_instrument_ref = \<lparr>vr_id = Ulid (replicate 26 CHR ''7''), vr_version = Version 1\<rparr>,
       po_quantity = v, po_economic_value = v, po_economic_pnl = v, po_accounting_pnl = v,
       po_capital_requirement = v,
       po_accounting_classification = \<lparr>ac_state = UnknownState, ac_book = None\<rparr>,
       po_holding_form = Owned\<rparr>)"

definition sample_amount :: "string \<Rightarrow> u32 \<Rightarrow> decimal_value" where
  "sample_amount coefficient scale = \<lparr>dv_coefficient = coefficient, dv_scale = scale, dv_unit = sample_unit\<rparr>"

lemma sample_aggregate:
  "aggregate_gross checked_ops [sample_position CHR ''1'' ''-15'' 1, sample_position CHR ''2'' ''2'' 0] =
     Some (Ok [sample_amount ''35'' 1])"
  "aggregate_gross checked_ops [sample_position CHR ''1'' ''-15'' 1] = Some (Ok [sample_amount ''15'' 1])"
  by code_simp+

definition sample_positions :: "position list" where
  "sample_positions = [sample_position CHR ''1'' ''-15'' 1, sample_position CHR ''2'' ''2'' 0]"

definition sample_ids :: "ulid list" where
  "sample_ids = [Ulid (replicate 26 CHR ''1'')]"

definition sample_coverage :: coverage_declaration where
  "sample_coverage =
     \<lparr>cd_imported_position_count = 2, cd_participating_position_count = 1,
      cd_imported_gross_by_unit = [sample_amount ''35'' 1], cd_participating_gross_by_unit = [sample_amount ''15'' 1],
      cd_missing_critical_field_record_count = 0, cd_source_confidence = None,
      cd_distinct_external_version_count = 0\<rparr>"

lemma sample_participating:
  "participating_positions sample_positions sample_ids = [sample_position CHR ''1'' ''-15'' 1]"
  by (simp add: participating_positions_def sample_positions_def sample_ids_def sample_position_def Let_def)

lemma sample_distinct: "distinct (map po_position_id sample_positions)"
  by (simp add: sample_positions_def sample_position_def Let_def)

lemma sample_complete:
  "for_complete_positions checked_ops sample_positions sample_ids None 0 = Some (Ok sample_coverage)"
  using sample_aggregate unfolding sample_positions_def [symmetric]
  by (simp add: for_complete_positions_Ok [OF exact_checked_ops sample_distinct] sample_participating sample_coverage_def
      validate_source_confidence_def) (simp add: sample_ids_def sample_positions_def sample_position_def Let_def)

lemma coverage_declares_witness:
  "declares_totals [sample_amount ''35'' 1] sample_positions \<and>
   declares_totals [sample_amount ''15'' 1] (participating_positions sample_positions sample_ids)"
  using coverage_declares [OF exact_checked_ops sample_distinct, of sample_ids None 0] sample_complete
  by (simp add: sample_coverage_def)

lemma coverage_bytes_identify_witness:
  "\<exists>d. for_complete_positions checked_ops (rev sample_positions) sample_ids None 0 = Some (Ok d) \<and>
     coverage_canonical_bytes d = coverage_canonical_bytes sample_coverage \<and> d = sample_coverage"
proof -
  have agg: "aggregate_gross checked_ops (rev sample_positions) = Some (Ok [sample_amount ''35'' 1])" by code_simp
  have part: "participating_positions (rev sample_positions) sample_ids = [sample_position CHR ''1'' ''-15'' 1]"
    using sample_participating by (simp add: participating_positions_def flip: rev_filter)
  have dist: "distinct (map po_position_id (rev sample_positions))"
    using sample_distinct by (simp flip: rev_map)
  have d: "for_complete_positions checked_ops (rev sample_positions) sample_ids None 0 = Some (Ok sample_coverage)"
    using agg sample_aggregate(2)
    by (simp add: for_complete_positions_Ok [OF exact_checked_ops dist] part sample_coverage_def
        validate_source_confidence_def) (simp add: sample_ids_def sample_positions_def sample_position_def Let_def)
  have constructed: "coverage_constructed checked_ops sample_coverage"
    unfolding coverage_constructed_def using d dist by blast
  have "length (coverage_canonical_bytes sample_coverage) < usize_limit"
    by (simp add: coverage_canonical_bytes_def sample_coverage_def append_amounts_def append_amount_def
        sample_amount_def sample_unit_def)
  from coverage_bytes_identify [OF exact_checked_ops constructed constructed refl this] d show ?thesis by blast
qed

end
