(* ===== verification/Factor_Topology.thy ===== *)
theory Factor_Topology
  imports Decimal_Value
begin

text \<open>
  Factors of a risk model (\<open>ficant-domain/src/research/factor_topology.rs\<close>): sensitivity
  conventions, factor and curve node definitions, the targets a factor is bound to, their
  identifiers and content hashes. The theory shows the grammar the identifiers follow, when a
  definition is accepted and that the content hashes identify what they cover.
\<close>

section \<open>Definitions\<close>

datatype sensitivity_direction = Central | Up | Down

datatype curve_rebuild_policy = Rebuild | Hold

datatype second_order_policy = Include | Exclude

record sensitivity_convention =
  sc_bump :: decimal_value
  sc_direction :: sensitivity_direction
  sc_curve_rebuild :: curve_rebuild_policy
  sc_second_order :: second_order_policy

definition sensitivity_convention_new ::
  "decimal_value \<Rightarrow> sensitivity_direction \<Rightarrow> curve_rebuild_policy \<Rightarrow> second_order_policy \<Rightarrow>
   sensitivity_convention domain_result" where
  "sensitivity_convention_new bump direction curve_rebuild second_order =
     (if \<not> decimal_value_is_positive bump then Err InvalidValue
      else Ok \<lparr>sc_bump = bump, sc_direction = direction, sc_curve_rebuild = curve_rebuild,
               sc_second_order = second_order\<rparr>)"

record factor_definition_input =
  fdi_factor_id :: string
  fdi_factor_unit :: unit_ref
  fdi_convention :: sensitivity_convention
  fdi_content_hash :: content_hash

record factor_definition =
  fa_factor_id :: string
  fa_factor_unit :: unit_ref
  fa_convention :: sensitivity_convention
  fa_content_hash :: content_hash

record curve_node_definition_input =
  cni_curve_node_id :: string
  cni_curve_family_id :: string
  cni_tenor :: string
  cni_factor_unit :: unit_ref
  cni_content_hash :: content_hash

record curve_node_definition =
  cn_curve_node_id :: string
  cn_curve_family_id :: string
  cn_tenor :: string
  cn_factor_unit :: unit_ref
  cn_content_hash :: content_hash

record curve_node_ref =
  cr_curve_node_id :: string
  cr_content_hash :: content_hash

record instrument_factor_target =
  it_owner :: owner_ref
  it_instrument :: version_ref

datatype factor_target = Instrument instrument_factor_target | CurveNode curve_node_ref

record factor_target_binding =
  tb_factor_id :: string
  tb_target :: factor_target
  tb_content_hash :: content_hash

text \<open>Identifiers.\<close>

definition is_id_segment :: "string \<Rightarrow> bool" where
  "is_id_segment segment \<longleftrightarrow>
     segment \<noteq> [] \<and>
     list_all (\<lambda>byte. is_ascii_lowercase byte \<or> is_ascii_digit byte \<or> byte = CHR ''-'') segment"

definition validate_factor_id :: "string \<Rightarrow> unit domain_result" where
  "validate_factor_id value =
     (let segments = split_on CHR ''.'' value in
      if length segments \<noteq> 4 \<or> list_ex (\<lambda>segment. \<not> is_id_segment segment) segments
      then Err InvalidId else Ok ())"

definition validate_dotted_id :: "string \<Rightarrow> nat \<Rightarrow> unit domain_result" where
  "validate_dotted_id value minimum_segments =
     (let segments = split_on CHR ''.'' value in
      if length segments < minimum_segments \<or> list_ex (\<lambda>segment. \<not> is_id_segment segment) segments
      then Err InvalidId else Ok ())"

definition validate_tenor :: "string \<Rightarrow> unit domain_result" where
  "validate_tenor value =
     (if length value < 3 \<or> value ! 0 \<noteq> CHR ''P''
        \<or> value ! (length value - 1) \<notin> {CHR ''Y'', CHR ''M'', CHR ''D''}
      then Err InvalidValue
      else
        let amount = take (length value - 2) (drop 1 value) in
        if amount ! 0 = CHR ''0'' \<or> \<not> list_all is_ascii_digit amount then Err InvalidValue
        else Ok ())"

text \<open>Canonical bytes; \<open>append\<close> writes a length-prefixed field.\<close>

definition append_unit :: "unit_ref \<Rightarrow> bytes" where
  "append_unit value =
     push_bytes (as_bytes (ulid_str (ur_unit_id value)))
     @ push_bytes (to_be_bytes (version_get (ur_version value)))"

definition append_decimal :: "decimal_value \<Rightarrow> bytes" where
  "append_decimal value =
     push_bytes (as_bytes (dv_coefficient value)) @ push_bytes (to_be_bytes (dv_scale value))
     @ append_unit (dv_unit value)"

fun direction_code :: "sensitivity_direction \<Rightarrow> byte" where
  "direction_code Central = 1"
| "direction_code Up = 2"
| "direction_code Down = 3"

fun curve_rebuild_code :: "curve_rebuild_policy \<Rightarrow> byte" where
  "curve_rebuild_code Rebuild = 1"
| "curve_rebuild_code Hold = 2"

fun second_order_code :: "second_order_policy \<Rightarrow> byte" where
  "second_order_code Include = 1"
| "second_order_code Exclude = 2"

definition factor_definition_bytes :: "factor_definition_input \<Rightarrow> bytes" where
  "factor_definition_bytes input =
     push_bytes (as_bytes (fdi_factor_id input))
     @ append_unit (fdi_factor_unit input)
     @ append_decimal (sc_bump (fdi_convention input))
     @ push_bytes [direction_code (sc_direction (fdi_convention input))]
     @ push_bytes [curve_rebuild_code (sc_curve_rebuild (fdi_convention input))]
     @ push_bytes [second_order_code (sc_second_order (fdi_convention input))]"

definition factor_definition_new ::
  "sha256_fn \<Rightarrow> factor_definition_input \<Rightarrow> factor_definition domain_result" where
  "factor_definition_new sha256 input =
     and_then (validate_factor_id (fdi_factor_id input)) (\<lambda>_.
     let actual = sha256 (factor_definition_bytes input) in
     if actual \<noteq> fdi_content_hash input then Err ContentHashMismatch
     else Ok \<lparr>fa_factor_id = fdi_factor_id input, fa_factor_unit = fdi_factor_unit input,
              fa_convention = fdi_convention input, fa_content_hash = fdi_content_hash input\<rparr>)"

definition curve_node_definition_bytes :: "curve_node_definition_input \<Rightarrow> bytes" where
  "curve_node_definition_bytes input =
     push_bytes (as_bytes (cni_curve_node_id input))
     @ push_bytes (as_bytes (cni_curve_family_id input))
     @ push_bytes (as_bytes (cni_tenor input))
     @ append_unit (cni_factor_unit input)"

definition curve_node_definition_new ::
  "sha256_fn \<Rightarrow> curve_node_definition_input \<Rightarrow> curve_node_definition domain_result" where
  "curve_node_definition_new sha256 input =
     and_then (validate_dotted_id (cni_curve_node_id input) 3) (\<lambda>_.
     and_then (validate_dotted_id (cni_curve_family_id input) 3) (\<lambda>_.
     and_then (validate_tenor (cni_tenor input)) (\<lambda>_.
     if sha256 (curve_node_definition_bytes input) \<noteq> cni_content_hash input
     then Err ContentHashMismatch
     else Ok \<lparr>cn_curve_node_id = cni_curve_node_id input,
              cn_curve_family_id = cni_curve_family_id input, cn_tenor = cni_tenor input,
              cn_factor_unit = cni_factor_unit input, cn_content_hash = cni_content_hash input\<rparr>)))"

definition curve_node_ref_new :: "string \<Rightarrow> content_hash \<Rightarrow> curve_node_ref domain_result" where
  "curve_node_ref_new curve_node_id content_hash =
     and_then (validate_dotted_id curve_node_id 3)
       (\<lambda>_. Ok \<lparr>cr_curve_node_id = curve_node_id, cr_content_hash = content_hash\<rparr>)"

definition factor_binding_bytes :: "string \<Rightarrow> factor_target \<Rightarrow> bytes" where
  "factor_binding_bytes factor_id target =
     push_bytes (as_bytes factor_id)
     @ (case target of
          Instrument value \<Rightarrow>
            push_bytes [1]
            @ push_bytes (as_bytes (ulid_str (tenant_id (it_owner value))))
            @ push_bytes (as_bytes (ulid_str (owner_id (it_owner value))))
            @ push_bytes (as_bytes (ulid_str (vr_id (it_instrument value))))
            @ push_bytes (to_be_bytes (version_get (vr_version (it_instrument value))))
        | CurveNode value \<Rightarrow>
            push_bytes [2]
            @ push_bytes (as_bytes (cr_curve_node_id value))
            @ push_bytes (hash_bytes (cr_content_hash value)))"

definition factor_binding_hash :: "sha256_fn \<Rightarrow> string \<Rightarrow> factor_target \<Rightarrow> content_hash" where
  "factor_binding_hash sha256 factor_id target = sha256 (factor_binding_bytes factor_id target)"

definition factor_target_binding_new ::
  "sha256_fn \<Rightarrow> string \<Rightarrow> factor_target \<Rightarrow> factor_target_binding domain_result" where
  "factor_target_binding_new sha256 factor_id target =
     and_then (validate_factor_id factor_id)
       (\<lambda>_. Ok \<lparr>tb_factor_id = factor_id, tb_target = target,
                tb_content_hash = factor_binding_hash sha256 factor_id target\<rparr>)"

section \<open>The grammar of identifiers\<close>

lemma id_segment_no_dot: "is_id_segment s \<Longrightarrow> CHR ''.'' \<notin> set s"
  by (auto simp: is_id_segment_def list_all_iff is_ascii_lowercase_def is_ascii_digit_def)

lemma validate_dotted_id_Ok [result_simps]:
  "validate_dotted_id v n = Ok u \<longleftrightarrow>
     (\<exists>ss. v = join_with CHR ''.'' ss \<and> ss \<noteq> [] \<and> n \<le> length ss \<and> list_all is_id_segment ss)"
proof -
  have "validate_dotted_id v n = Ok u \<longleftrightarrow>
      n \<le> length (split_on CHR ''.'' v) \<and> list_all is_id_segment (split_on CHR ''.'' v)"
    by (auto simp: validate_dotted_id_def Let_def list_ex_iff list_all_iff not_less)
  moreover have "split_on CHR ''.'' (join_with CHR ''.'' ss) = ss" if "ss \<noteq> []" "list_all is_id_segment ss" for ss
    using that id_segment_no_dot by (auto simp: list_all_iff intro: split_on_join_with)
  ultimately show ?thesis by (metis join_with_split_on split_on_nonempty)
qed

lemma validate_factor_id_Ok [result_simps]:
  "validate_factor_id v = Ok u \<longleftrightarrow>
     (\<exists>ss. v = join_with CHR ''.'' ss \<and> length ss = 4 \<and> list_all is_id_segment ss)"
proof -
  have "validate_factor_id v = Ok u \<longleftrightarrow>
      length (split_on CHR ''.'' v) = 4 \<and> list_all is_id_segment (split_on CHR ''.'' v)"
    by (auto simp: validate_factor_id_def Let_def list_ex_iff list_all_iff)
  moreover have "split_on CHR ''.'' (join_with CHR ''.'' ss) = ss" if "length ss = 4" "list_all is_id_segment ss" for ss
    using that id_segment_no_dot by (auto simp: list_all_iff intro: split_on_join_with)
  ultimately show ?thesis by (metis join_with_split_on)
qed

lemma validate_tenor_Ok [result_simps]:
  "validate_tenor v = Ok u \<longleftrightarrow>
     (\<exists>d ds unit. v = CHR ''P'' # d # ds @ [unit] \<and> d \<noteq> CHR ''0'' \<and> list_all is_ascii_digit (d # ds) \<and>
        unit \<in> {CHR ''Y'', CHR ''M'', CHR ''D''})"
proof (cases "length v < 3")
  case True
  then show ?thesis by (auto simp: validate_tenor_def)
next
  case False
  then obtain p d r where "v = p # d # r" "r \<noteq> []"
    by (cases v rule: remdups_adj.cases) (auto simp: not_less numeral_3_eq_3 Suc_le_length_iff)
  then obtain ds e where v: "v = p # d # ds @ [e]" by (metis append_butlast_last_id)
  show ?thesis by (auto simp: validate_tenor_def v Let_def nth_append)
qed

lemma validate_dotted_id_Err: "validate_dotted_id v n = Err e \<longleftrightarrow> e = InvalidId \<and> validate_dotted_id v n \<noteq> Ok ()"
  by (auto simp: validate_dotted_id_def Let_def)

lemma validate_factor_id_Err: "validate_factor_id v = Err e \<longleftrightarrow> e = InvalidId \<and> validate_factor_id v \<noteq> Ok ()"
  by (auto simp: validate_factor_id_def Let_def)

section \<open>Content hashes\<close>

lemma determines_append_unit [code_intros]:
  "determines (\<lambda>x. append_unit (f x)) (\<lambda>x. f x :: unit_ref)"
proof -
  have "determines append_unit (\<lambda>v. (as_bytes (ulid_str (ur_unit_id v)), to_be_bytes (version_get (ur_version v))))"
    unfolding append_unit_def by (intro code_intros)
  then have "prefix_code append_unit"
    by (rule determines.weaken) (simp add: unit_ref.equality)
  then show ?thesis by (rule prefix_code_of)
qed

lemma determines_append_decimal [code_intros]:
  "determines (\<lambda>x. append_decimal (f x)) (\<lambda>x. f x :: decimal_value)"
proof -
  have "determines append_decimal (\<lambda>v. (as_bytes (dv_coefficient v), to_be_bytes (dv_scale v), dv_unit v))"
    unfolding append_decimal_def by (intro code_intros)
  then have "prefix_code append_decimal"
    by (rule determines.weaken) (simp add: decimal_value.equality)
  then show ?thesis by (rule prefix_code_of)
qed

lemma direction_code_inject [simp]: "direction_code a = direction_code b \<longleftrightarrow> a = b"
  by (cases a; cases b) simp_all

lemma curve_rebuild_code_inject [simp]: "curve_rebuild_code a = curve_rebuild_code b \<longleftrightarrow> a = b"
  by (cases a; cases b) simp_all

lemma second_order_code_inject [simp]: "second_order_code a = second_order_code b \<longleftrightarrow> a = b"
  by (cases a; cases b) simp_all

interpretation factor_code: determines factor_definition_bytes
  "\<lambda>i. (fdi_factor_id i, fdi_factor_unit i, fdi_convention i)"
proof -
  have "determines factor_definition_bytes
     (\<lambda>i. (as_bytes (fdi_factor_id i), fdi_factor_unit i, sc_bump (fdi_convention i),
        [direction_code (sc_direction (fdi_convention i))], [curve_rebuild_code (sc_curve_rebuild (fdi_convention i))],
        [second_order_code (sc_second_order (fdi_convention i))]))"
    unfolding factor_definition_bytes_def by (intro code_intros)
  then show "determines factor_definition_bytes (\<lambda>i. (fdi_factor_id i, fdi_factor_unit i, fdi_convention i))"
    by (rule determines.weaken) (simp add: sensitivity_convention.equality)
qed

interpretation curve_node_code: determines curve_node_definition_bytes
  "\<lambda>i. (cni_curve_node_id i, cni_curve_family_id i, cni_tenor i, cni_factor_unit i)"
proof -
  have "determines curve_node_definition_bytes
     (\<lambda>i. (as_bytes (cni_curve_node_id i), as_bytes (cni_curve_family_id i), as_bytes (cni_tenor i), cni_factor_unit i))"
    unfolding curve_node_definition_bytes_def by (intro code_intros)
  then show "determines curve_node_definition_bytes
      (\<lambda>i. (cni_curve_node_id i, cni_curve_family_id i, cni_tenor i, cni_factor_unit i))"
    by (rule determines.weaken) simp
qed

lemma factor_binding_bytes_inject:
  assumes "factor_binding_bytes a s = factor_binding_bytes b t" "length (factor_binding_bytes a s) < usize_limit"
  shows "a = b \<and> s = t"
proof -
  let ?tag = "\<lambda>x. push_bytes [case x of Instrument _ \<Rightarrow> 1 | CurveNode _ \<Rightarrow> 2]"
  let ?i = "\<lambda>v. push_bytes (as_bytes (ulid_str (tenant_id (it_owner v)))) @ push_bytes (as_bytes (ulid_str (owner_id (it_owner v))))
    @ push_bytes (as_bytes (ulid_str (vr_id (it_instrument v)))) @ push_bytes (to_be_bytes (version_get (vr_version (it_instrument v))))"
  let ?c = "\<lambda>v. push_bytes (as_bytes (cr_curve_node_id v)) @ push_bytes (hash_bytes (cr_content_hash v))"
  let ?rest = "\<lambda>x. case x of Instrument v \<Rightarrow> ?i v | CurveNode v \<Rightarrow> ?c v"
  have bytes: "factor_binding_bytes a s = push_bytes (as_bytes a) @ ?tag s @ ?rest s" for a s
    by (simp add: factor_binding_bytes_def split: factor_target.splits)
  have head: "determines (\<lambda>(a, s). push_bytes (as_bytes a) @ ?tag s) (\<lambda>(a, s). (as_bytes a, [case s of Instrument _ \<Rightarrow> 1 :: byte | CurveNode _ \<Rightarrow> 2]))"
    unfolding split_def by (intro code_intros)
  have "(push_bytes (as_bytes a) @ ?tag s) @ ?rest s = (push_bytes (as_bytes b) @ ?tag t) @ ?rest t"
    and "length ((push_bytes (as_bytes a) @ ?tag s) @ ?rest s) < usize_limit"
    using assms unfolding bytes by (simp_all del: length_append)
  then have ab: "a = b" and tag: "[case s of Instrument _ \<Rightarrow> 1 :: byte | CurveNode _ \<Rightarrow> 2] = [case t of Instrument _ \<Rightarrow> 1 | CurveNode _ \<Rightarrow> 2]"
    and rest: "?rest s = ?rest t"
    using determines.splits [OF head, of "(a, s)" "?rest s" "(b, t)" "?rest t"] by auto
  have len: "length (?rest s) < usize_limit" using assms(2) unfolding bytes by simp
  have i: "determines ?i (\<lambda>v. (as_bytes (ulid_str (tenant_id (it_owner v))), as_bytes (ulid_str (owner_id (it_owner v))),
      as_bytes (ulid_str (vr_id (it_instrument v))), to_be_bytes (version_get (vr_version (it_instrument v)))))"
    by (intro code_intros)
  have c: "determines ?c (\<lambda>v. (as_bytes (cr_curve_node_id v), hash_bytes (cr_content_hash v)))"
    by (intro code_intros)
  have "s = t"
  proof (cases s; cases t)
    fix v w assume st: "s = Instrument v" "t = Instrument w"
    then have "v = w" using determines.content_eq [OF i, of v w] rest len
      by (simp add: instrument_factor_target.equality owner_ref.equality version_ref.equality)
    then show ?thesis using st by simp
  next
    fix v w assume st: "s = CurveNode v" "t = CurveNode w"
    then have "v = w" using determines.content_eq [OF c, of v w] rest len by (simp add: curve_node_ref.equality)
    then show ?thesis using st by simp
  qed (use tag in auto)
  with ab show ?thesis by simp
qed

interpretation factor_definitions: hash_addressed factor_definition_new factor_definition_bytes fa_content_hash
  by (rule hash_addressedI [OF factor_code.determines_axioms])
    (auto simp: factor_definition_new_def Let_def and_then_eq_Ok split: if_splits)

interpretation curve_nodes: hash_addressed curve_node_definition_new curve_node_definition_bytes cn_content_hash
  by (rule hash_addressedI [OF curve_node_code.determines_axioms])
    (auto simp: curve_node_definition_new_def Let_def and_then_eq_Ok split: if_splits)

interpretation factor_bindings: hash_addressed "\<lambda>sha256 (f, t). factor_target_binding_new sha256 f t"
  "\<lambda>(f, t). factor_binding_bytes f t" tb_content_hash
proof (unfold_locales, unfold split_def)
  show "tb_content_hash v = sha256 (factor_binding_bytes (fst i) (snd i))"
    if "factor_target_binding_new sha256 (fst i) (snd i) = Ok v" for sha256 i v
    using that by (auto simp: factor_target_binding_new_def factor_binding_hash_def result_simps)
  show "v = w" if "factor_target_binding_new sha256 (fst i) (snd i) = Ok v"
    "factor_target_binding_new sha256 (fst j) (snd j) = Ok w"
    "factor_binding_bytes (fst i) (snd i) = factor_binding_bytes (fst j) (snd j)"
    "length (factor_binding_bytes (fst i) (snd i)) < usize_limit" for sha256 i v j w
    using that factor_binding_bytes_inject [OF that(3,4)] by simp
qed

text \<open>
  A factor definition is accepted exactly when its identifier is four segments of
  lower-case letters, digits and hyphens joined by dots and the claimed hash is the hash of its
  canonical bytes; a malformed identifier is reported before a wrong hash.
\<close>

theorem factor_definition_new_accepts:
  "factor_definition_new sha256 i =
     (if \<exists>a b c d. fdi_factor_id i = a @ ''.'' @ b @ ''.'' @ c @ ''.'' @ d \<and> list_all is_id_segment [a, b, c, d]
      then if fdi_content_hash i = sha256 (factor_definition_bytes i)
        then Ok \<lparr>fa_factor_id = fdi_factor_id i, fa_factor_unit = fdi_factor_unit i,
                 fa_convention = fdi_convention i, fa_content_hash = fdi_content_hash i\<rparr>
        else Err ContentHashMismatch
      else Err InvalidId)"
proof -
  have four: "(\<exists>ss. v = join_with CHR ''.'' ss \<and> length ss = 4 \<and> list_all is_id_segment ss) \<longleftrightarrow>
      (\<exists>a b c d. v = a @ ''.'' @ b @ ''.'' @ c @ ''.'' @ d \<and> list_all is_id_segment [a, b, c, d])" (is "?l = ?r") for v
  proof
    assume ?l
    then obtain a b c d where "v = join_with CHR ''.'' [a, b, c, d]" "list_all is_id_segment [a, b, c, d]"
      by (auto simp: eval_nat_numeral length_Suc_conv)
    then show ?r by (intro exI [of _ a] exI [of _ b] exI [of _ c] exI [of _ d]) simp
  next
    assume ?r
    then obtain a b c d where "v = a @ ''.'' @ b @ ''.'' @ c @ ''.'' @ d" "list_all is_id_segment [a, b, c, d]" by blast
    then show ?l by (intro exI [of _ "[a, b, c, d]"]) simp
  qed
  have valid: "validate_factor_id (fdi_factor_id i) = Ok () \<longleftrightarrow> (\<exists>a b c d.
      fdi_factor_id i = a @ ''.'' @ b @ ''.'' @ c @ ''.'' @ d \<and> list_all is_id_segment [a, b, c, d])"
    unfolding validate_factor_id_Ok by (rule four)
  show ?thesis
  proof (cases "validate_factor_id (fdi_factor_id i)")
    case (Ok u)
    then show ?thesis unfolding valid [symmetric] by (simp add: factor_definition_new_def)
  next
    case (Err e)
    then have "e = InvalidId" by (simp add: validate_factor_id_Err)
    with Err show ?thesis unfolding valid [symmetric] by (simp add: factor_definition_new_def)
  qed
qed

text \<open>
  The content hash of a factor's target binding identifies the factor and its target,
  an instrument of an owner or a curve node, unless the canonical bytes collide under SHA-256.
\<close>

theorem factor_binding_hash_identifies:
  assumes "factor_target_binding_new sha256 a s = Ok v" "factor_target_binding_new sha256 b t = Ok w"
    "tb_content_hash v = tb_content_hash w" "length (factor_binding_bytes a s) < usize_limit"
  shows "v = w \<or> collision sha256 (factor_binding_bytes a s) (factor_binding_bytes b t)"
  using factor_bindings.hash_identifies [of sha256 "(a, s)" v "(b, t)" w] assms by simp

lemma factor_binding_hash_identifies_witness:
  "factor_target_binding_new (\<lambda>_. zero_hash) ''cn.govt.5y.dv01''
     (CurveNode \<lparr>cr_curve_node_id = ''cn.govt.5y'', cr_content_hash = zero_hash\<rparr>) =
     Ok \<lparr>tb_factor_id = ''cn.govt.5y.dv01'',
         tb_target = CurveNode \<lparr>cr_curve_node_id = ''cn.govt.5y'', cr_content_hash = zero_hash\<rparr>,
         tb_content_hash = zero_hash\<rparr> \<and>
   (\<lparr>tb_factor_id = ''cn.govt.5y.dv01'',
      tb_target = CurveNode \<lparr>cr_curve_node_id = ''cn.govt.5y'', cr_content_hash = zero_hash\<rparr>,
      tb_content_hash = zero_hash\<rparr> =
    \<lparr>tb_factor_id = ''cn.govt.5y.dv01'',
      tb_target = CurveNode \<lparr>cr_curve_node_id = ''cn.govt.7y'', cr_content_hash = zero_hash\<rparr>,
      tb_content_hash = zero_hash\<rparr> \<or>
    collision (\<lambda>_. zero_hash)
      (factor_binding_bytes ''cn.govt.5y.dv01'' (CurveNode \<lparr>cr_curve_node_id = ''cn.govt.5y'', cr_content_hash = zero_hash\<rparr>))
      (factor_binding_bytes ''cn.govt.5y.dv01'' (CurveNode \<lparr>cr_curve_node_id = ''cn.govt.7y'', cr_content_hash = zero_hash\<rparr>)))"
proof -
  have ok: "factor_target_binding_new (\<lambda>_. zero_hash) ''cn.govt.5y.dv01'' t =
      Ok \<lparr>tb_factor_id = ''cn.govt.5y.dv01'', tb_target = t, tb_content_hash = zero_hash\<rparr>" for t
    by (simp add: factor_target_binding_new_def validate_factor_id_def factor_binding_hash_def Let_def
        is_id_segment_def is_ascii_lowercase_def is_ascii_digit_def)
  show ?thesis
    by (rule conjI, rule ok, rule factor_binding_hash_identifies [OF ok ok])
      (simp_all add: factor_binding_bytes_def)
qed

end
