(* ===== verification/Key_Rate_Arithmetic.thy ===== *)
theory Key_Rate_Arithmetic
  imports Factor_Topology
begin

text \<open>
  Key-rate sensitivities (\<open>ficant-domain/src/research/exposure.rs\<close>, the arithmetic): the exact
  sensitivity per face, the position sensitivity with its single rounding after cross
  cancellation, and the exact scaling to a futures position. The theory shows that each result
  is the one its formula names and for which operands the 128-bit intermediate values lose it.
\<close>

section \<open>Definitions\<close>

definition key_rate_dv01 ::
  "fixed_decimal \<Rightarrow> fixed_decimal \<Rightarrow> fixed_decimal \<Rightarrow> fixed_decimal \<Rightarrow> sensitivity_direction \<Rightarrow>
   fixed_decimal domain_result" where
  "key_rate_dv01 base up down bump_bp direction =
     (if \<not> fd_is_positive bump_bp then Err InvalidValue
      else
        and_then (case direction of
            Central \<Rightarrow> fd_checked_sub down up
          | Up \<Rightarrow> fd_checked_sub base up
          | Down \<Rightarrow> fd_checked_sub down base) (\<lambda>numerator.
        and_then (case direction of
            Central \<Rightarrow> ok_or (checked_i128 (sint (scaled bump_bp) * 2)) InvalidValue
          | Up \<Rightarrow> Ok (scaled bump_bp)
          | Down \<Rightarrow> Ok (scaled bump_bp)) (\<lambda>divisor.
        and_then (ok_or (checked_i128 (sint (scaled numerator) * FIXED_DECIMAL_FACTOR)) InvalidValue)
          (\<lambda>scaled_numerator.
        if divisor = 0 \<or> sint scaled_numerator smod sint divisor \<noteq> 0 then Err InvalidValue
        else Ok (FixedDecimal (word_of_int (sint scaled_numerator sdiv sint divisor)))))))"

function gcd_loop :: "u128 \<Rightarrow> u128 \<Rightarrow> u128" where
  "gcd_loop left right = (if right \<noteq> 0 then gcd_loop right (left mod right) else left)"
  by pat_completeness auto
termination
proof (relation "measure (\<lambda>(left, right). unat right)")
  fix left right :: u128
  assume "right \<noteq> 0"
  then have "unat (left mod right) < unat right" by (simp add: unat_mod_distrib unat_gt_0)
  then show "((right, left mod right), left, right) \<in> measure (\<lambda>(left, right). unat right)" by simp
qed simp

declare gcd_loop.simps [simp del]

definition greatest_common_divisor :: "u128 \<Rightarrow> u128 \<Rightarrow> u128" where
  "greatest_common_divisor left right = max (gcd_loop left right) 1"

text \<open>The inner loop of \<open>cross_cancel\<close> reduces one numerator against every denominator.\<close>

fun cancel_numerator :: "u128 \<Rightarrow> u128 list \<Rightarrow> u128 \<times> u128 list" where
  "cancel_numerator numerator [] = (numerator, [])"
| "cancel_numerator numerator (denominator # denominators) =
     (let divisor = greatest_common_divisor numerator denominator;
          (reduced, rest) = cancel_numerator (numerator div divisor) denominators
      in (reduced, (denominator div divisor) # rest))"

fun cross_cancel :: "u128 list \<Rightarrow> u128 list \<Rightarrow> u128 list \<times> u128 list" where
  "cross_cancel [] denominators = ([], denominators)"
| "cross_cancel (numerator # numerators) denominators =
     (let (reduced, denominators) = cancel_numerator numerator denominators;
          (numerators, denominators) = cross_cancel numerators denominators
      in (reduced # numerators, denominators))"

fun product_loop :: "u128 \<Rightarrow> u128 list \<Rightarrow> u128 domain_result" where
  "product_loop product [] = Ok product"
| "product_loop product (value # values) =
     and_then (ok_or (checked_mul_u128 product value) InvalidValue) (\<lambda>product. product_loop product values)"

definition checked_product :: "u128 list \<Rightarrow> u128 domain_result" where
  "checked_product values = product_loop 1 values"

definition exposure_signed_magnitude :: "u128 \<Rightarrow> bool \<Rightarrow> i128 domain_result" where
  "exposure_signed_magnitude magnitude negative =
     (if negative \<and> magnitude = unsigned_abs (2 ^ 127) then Ok (2 ^ 127)
      else
        and_then (if unat magnitude < 2 ^ 127 then Ok magnitude else Err InvalidValue) (\<lambda>magnitude.
        if negative then ok_or (checked_i128 (- sint magnitude)) InvalidValue else Ok magnitude))"

definition bond_position_key_rate_dv01 ::
  "fixed_decimal \<Rightarrow> fixed_decimal \<Rightarrow> fixed_decimal \<Rightarrow> fixed_decimal \<Rightarrow> sensitivity_direction \<Rightarrow>
   fixed_decimal \<Rightarrow> fixed_decimal \<Rightarrow> fixed_decimal domain_result" where
  "bond_position_key_rate_dv01 base up down bump_bp direction signed_quantity registered_face =
     (if \<not> fd_is_positive bump_bp \<or> \<not> fd_is_positive registered_face then Err InvalidValue
      else
        and_then (case direction of
            Central \<Rightarrow> fd_checked_sub down up
          | Up \<Rightarrow> fd_checked_sub base up
          | Down \<Rightarrow> fd_checked_sub down base) (\<lambda>difference.
        if difference = fd_zero \<or> signed_quantity = fd_zero then Ok fd_zero
        else
          let negative = ((sint (scaled difference) < 0) \<noteq> (sint (scaled signed_quantity) < 0));
              numerators = [unsigned_abs (scaled difference), unsigned_abs (scaled signed_quantity)];
              denominators = [case direction of Central \<Rightarrow> 2 | Up \<Rightarrow> 1 | Down \<Rightarrow> 1,
                unsigned_abs (scaled bump_bp), unsigned_abs (scaled registered_face)];
              (numerators, denominators) = cross_cancel numerators denominators
          in
            and_then (checked_product numerators) (\<lambda>numerator.
            and_then (checked_product denominators) (\<lambda>denominator.
            and_then (exposure_signed_magnitude numerator negative) (\<lambda>numerator.
            and_then (if unat denominator < 2 ^ 127 then Ok denominator else Err InvalidValue) (\<lambda>denominator.
            fd_checked_div_round_ties_even (FixedDecimal numerator) (FixedDecimal denominator)))))))"

definition exact_div :: "fixed_decimal \<Rightarrow> fixed_decimal \<Rightarrow> fixed_decimal domain_result" where
  "exact_div numerator denominator =
     (if scaled denominator = 0 then Err InvalidValue
      else
        and_then (ok_or (checked_i128 (sint (scaled numerator) * FIXED_DECIMAL_FACTOR)) InvalidValue) (\<lambda>v.
        if sint v smod sint (scaled denominator) \<noteq> 0 then Err InvalidValue
        else Ok (FixedDecimal (word_of_int (sint v sdiv sint (scaled denominator))))))"

definition scale_futures_key_rate_dv01 ::
  "fixed_decimal \<Rightarrow> fixed_decimal \<Rightarrow> fixed_decimal \<Rightarrow> u32 \<Rightarrow> fixed_decimal \<Rightarrow> i64 \<Rightarrow>
   fixed_decimal domain_result" where
  "scale_futures_key_rate_dv01 ctd_registered_face_krd registered_face face_quote_basis
     contract_size_in_quote_units conversion_factor signed_contract_count =
     (if \<not> fd_is_positive registered_face \<or> \<not> fd_is_positive face_quote_basis
        \<or> contract_size_in_quote_units = 0 \<or> \<not> fd_is_positive conversion_factor
        \<or> signed_contract_count = 0
      then Err InvalidValue
      else
        and_then (fd_checked_mul ctd_registered_face_krd face_quote_basis) (\<lambda>v.
        and_then (exact_div v registered_face) (\<lambda>quote_krd.
        and_then (ok_or (checked_i128 (int (unat contract_size_in_quote_units) * FIXED_DECIMAL_FACTOR)) InvalidValue)
          (\<lambda>contract_size.
        and_then (fd_checked_mul quote_krd (FixedDecimal contract_size)) (\<lambda>v.
        and_then (exact_div v conversion_factor) (\<lambda>one_contract.
        and_then (ok_or (checked_i128 (sint signed_contract_count * FIXED_DECIMAL_FACTOR)) InvalidValue)
          (\<lambda>count. fd_checked_mul one_contract (FixedDecimal count))))))))"

section \<open>Euclid's loop and cross cancellation\<close>

lemma unat_gcd_loop: "unat (gcd_loop a b) = gcd (unat a) (unat b)"
proof (induction a b rule: gcd_loop.induct)
  case (1 left right)
  show ?case
  proof (cases "right = 0")
    case True
    then show ?thesis by (simp add: gcd_loop.simps [of left])
  next
    case False
    then have "unat (gcd_loop left right) = gcd (unat right) (unat (left mod right))"
      using 1 by (simp add: gcd_loop.simps [of left])
    then show ?thesis by (simp add: unat_mod_distrib gcd_red_nat [symmetric])
  qed
qed

lemma unat_greatest_common_divisor:
  assumes "0 < unat a"
  shows "unat (greatest_common_divisor a b) = gcd (unat a) (unat b)"
proof -
  have "0 < unat (gcd_loop a b)" using assms by (simp add: unat_gcd_loop)
  then have "(1 :: u128) \<le> gcd_loop a b" by (simp add: word_le_nat_alt Suc_le_eq)
  then show ?thesis by (simp add: greatest_common_divisor_def max_absorb1 unat_gcd_loop)
qed

lemma quotient_dvd: "g dvd n \<Longrightarrow> n div g dvd (n :: nat)"
  by (metis dvd_div_mult_self dvd_triv_left)

lemma cancel_numerator_correct:
  assumes "cancel_numerator n ds = (n', ds')" "0 < unat n" "\<forall>d \<in> set ds. 0 < unat d"
  shows "0 < unat n' \<and> (\<forall>d \<in> set ds'. 0 < unat d \<and> coprime (unat n') (unat d)) \<and> unat n' dvd unat n \<and>
    list_all2 (\<lambda>d' d. unat d' dvd unat d) ds' ds \<and>
    unat n' * prod_list (map unat ds) = unat n * prod_list (map unat ds')"
  using assms
proof (induction n ds arbitrary: n' ds' rule: cancel_numerator.induct)
  case (1 n)
  then show ?case by auto
next
  case (2 n d ds)
  define g where "g = greatest_common_divisor n d"
  have g: "unat g = gcd (unat n) (unat d)" using 2(3) by (simp add: g_def unat_greatest_common_divisor)
  obtain r rest where rec: "cancel_numerator (n div g) ds = (r, rest)" by fastforce
  have res: "n' = r" "ds' = (d div g) # rest"
    using 2(2) rec by (simp_all add: g_def Let_def split: prod.splits)
  have quot: "unat (n div g) = unat n div gcd (unat n) (unat d)" "unat (d div g) = unat d div gcd (unat n) (unat d)"
    by (simp_all add: unat_div_distrib g)
  have pos: "0 < unat n" "0 < unat d" using 2(3,4) by simp_all
  then have qpos: "0 < unat (n div g)" "0 < unat (d div g)"
    by (simp_all add: quot gcd_le1_nat gcd_le2_nat div_greater_zero_iff)
  have IH: "0 < unat r \<and> (\<forall>d \<in> set rest. 0 < unat d \<and> coprime (unat r) (unat d)) \<and> unat r dvd unat (n div g) \<and>
      list_all2 (\<lambda>d' d. unat d' dvd unat d) rest ds \<and>
      unat r * prod_list (map unat ds) = unat (n div g) * prod_list (map unat rest)"
    using 2(1) [OF g_def rec qpos(1)] 2(4) by simp
  have "coprime (unat (n div g)) (unat (d div g))"
    unfolding quot by (rule div_gcd_coprime) (use pos in simp)
  moreover have rn: "unat r dvd unat (n div g)" using IH by simp
  ultimately have "coprime (unat r) (unat (d div g))" by (rule coprime_divisors [rotated 2]) simp
  moreover have "unat r dvd unat n"
    using rn by (rule dvd_trans) (simp add: quot(1) quotient_dvd)
  moreover have "unat (d div g) dvd unat d" by (simp add: quot(2) quotient_dvd)
  moreover have "unat r * (unat d * prod_list (map unat ds)) = unat n * (unat (d div g) * prod_list (map unat rest))"
  proof -
    have cross: "unat (n div g) * unat d = unat n * unat (d div g)"
      unfolding quot dvd_div_mult [OF gcd_dvd1] div_mult_swap [OF gcd_dvd2] ..
    have "unat r * (unat d * prod_list (map unat ds)) = unat d * (unat r * prod_list (map unat ds))" by simp
    also have "\<dots> = (unat (n div g) * unat d) * prod_list (map unat rest)" using IH by simp
    finally show ?thesis using cross by simp
  qed
  ultimately show ?case using IH qpos by (simp add: res)
qed

lemma cross_cancel_correct:
  assumes "cross_cancel ns ds = (ns', ds')" "\<forall>n \<in> set ns. 0 < unat n" "\<forall>d \<in> set ds. 0 < unat d"
  shows "(\<forall>n \<in> set ns'. 0 < unat n) \<and> (\<forall>d \<in> set ds'. 0 < unat d) \<and>
    (\<forall>n \<in> set ns'. \<forall>d \<in> set ds'. coprime (unat n) (unat d)) \<and>
    list_all2 (\<lambda>d' d. unat d' dvd unat d) ds' ds \<and>
    prod_list (map unat ns') * prod_list (map unat ds) = prod_list (map unat ns) * prod_list (map unat ds')"
  using assms
proof (induction ns ds arbitrary: ns' ds' rule: cross_cancel.induct)
  case (1 ds)
  then show ?case by (auto simp: list_all2_refl)
next
  case (2 n ns ds)
  obtain r es where one: "cancel_numerator n ds = (r, es)" by fastforce
  obtain ms fs where rest: "cross_cancel ns es = (ms, fs)" by fastforce
  have res: "ns' = r # ms" "ds' = fs" using 2(2) one rest by (simp_all add: Let_def)
  have r: "0 < unat r" "\<forall>d \<in> set es. 0 < unat d \<and> coprime (unat r) (unat d)"
    "list_all2 (\<lambda>d' d. unat d' dvd unat d) es ds"
    "unat r * prod_list (map unat ds) = unat n * prod_list (map unat es)"
    using cancel_numerator_correct [OF one] 2(3,4) by auto
  have IH: "(\<forall>n \<in> set ms. 0 < unat n) \<and> (\<forall>d \<in> set fs. 0 < unat d) \<and>
    (\<forall>n \<in> set ms. \<forall>d \<in> set fs. coprime (unat n) (unat d)) \<and>
    list_all2 (\<lambda>d' d. unat d' dvd unat d) fs es \<and>
    prod_list (map unat ms) * prod_list (map unat es) = prod_list (map unat ns) * prod_list (map unat fs)"
    using 2(1) [OF one [symmetric] refl rest] 2(3) r(2) by auto
  have "coprime (unat r) (unat f)" if f: "f \<in> set fs" for f
  proof -
    obtain e where "e \<in> set es" "unat f dvd unat e"
      using IH f by (metis in_set_conv_nth list_all2_conv_all_nth nth_mem)
    then show ?thesis using r(2) coprime_divisors [of "unat r" "unat r" "unat f" "unat e"] by simp
  qed
  moreover have "list_all2 (\<lambda>d' d. unat d' dvd unat d) fs ds"
    by (rule list_all2_trans [OF _ conjunct1 [OF conjunct2 [OF conjunct2 [OF conjunct2 [OF IH]]]] r(3)])
      (rule dvd_trans)
  moreover have "unat r * prod_list (map unat ms) * prod_list (map unat ds) =
      unat n * prod_list (map unat ns) * prod_list (map unat fs)"
  proof -
    have "unat r * prod_list (map unat ms) * prod_list (map unat ds) =
        prod_list (map unat ms) * (unat r * prod_list (map unat ds))" by simp
    also have "\<dots> = unat n * (prod_list (map unat ms) * prod_list (map unat es))" by (simp add: r(4))
    finally show ?thesis using IH by simp
  qed
  ultimately show ?case using IH r(1) by (simp add: res)
qed

lemma coprime_prod_list:
  "(\<And>x. x \<in> set xs \<Longrightarrow> coprime x (n :: nat)) \<Longrightarrow> coprime (prod_list xs) n"
  by (induction xs) (auto simp: coprime_mult_left_iff)

lemma coprime_prod_lists:
  "(\<And>x y. x \<in> set xs \<Longrightarrow> y \<in> set ys \<Longrightarrow> coprime x (y :: nat)) \<Longrightarrow> coprime (prod_list xs) (prod_list ys)"
  by (meson coprime_commute coprime_prod_list)

lemma reduced_fraction:
  fixes n d n' d' :: nat
  assumes "coprime n' d'" "n' * d = n * d'" "0 < d" "0 < d'"
  shows "n' = n div gcd n d" "d' = d div gcd n d"
proof -
  have "d' dvd d" using assms(1,2) by (metis coprime_commute coprime_dvd_mult_right_iff dvd_triv_right)
  then obtain k where k: "d = d' * k" by (rule dvdE)
  with assms(2,4) have n: "n = n' * k" by simp
  have "gcd n d = k" using assms(1) by (simp add: n k gcd_mult_distrib_nat [symmetric] mult.commute [of _ k])
  moreover have "0 < k" using assms(3) k by (cases k) simp_all
  ultimately show "n' = n div gcd n d" "d' = d div gcd n d" using n k by simp_all
qed

lemma product_loop_Ok:
  assumes "\<forall>v \<in> set vs. 0 < unat v"
  shows "product_loop a vs = Ok p \<longleftrightarrow> unat p = unat a * prod_list (map unat vs)"
  using assms
proof (induction vs arbitrary: a)
  case Nil
  then show ?case by (auto intro: unsigned_word_eqI [where 'a = nat])
next
  case (Cons v vs)
  show ?case
  proof (cases "unat a * unat v < 2 ^ 128")
    case True
    then have "unat (a * v) = unat a * unat v" using unat_mult_lem [of a v] by simp
    with True Cons show ?thesis by (simp add: checked_mul_u128_def mult.assoc)
  next
    case False
    have "1 \<le> prod_list (map unat vs)" using Cons.prems by (induction vs) auto
    then have "unat a * unat v * 1 \<le> unat a * unat v * prod_list (map unat vs)" by (rule mult_left_mono) simp
    moreover have "unat p < 2 ^ 128" using unat_bound [of p] by simp
    ultimately have "unat p < unat a * (unat v * prod_list (map unat vs))"
      using False unfolding mult.assoc by linarith
    with False show ?thesis by (simp add: checked_mul_u128_def)
  qed
qed

lemma checked_product_Ok:
  "\<forall>v \<in> set vs. 0 < unat v \<Longrightarrow> checked_product vs = Ok p \<longleftrightarrow> unat p = prod_list (map unat vs)"
  by (simp add: checked_product_def product_loop_Ok)

text \<open>The two copies of \<open>signed_magnitude\<close> in the program agree.\<close>

lemma exposure_signed_magnitude_eq: "exposure_signed_magnitude m negative = signed_magnitude m negative"
proof -
  have "unsigned_abs (2 ^ 127) = (2 ^ 127 :: u128)" by (simp add: unsigned_abs_def)
  then show ?thesis by (cases negative) (auto simp: exposure_signed_magnitude_def signed_magnitude_def)
qed

section \<open>Exact quotients\<close>

lemma exact_quotient_Ok:
  assumes "0 < sint d" "i128_range v"
  shows "(if v smod sint d \<noteq> 0 then Err InvalidValue else Ok (FixedDecimal (word_of_int (v sdiv sint d)))) = Ok c \<longleftrightarrow>
    sint (scaled c) * sint (d :: i128) = v"
proof -
  have smod: "v smod sint d = 0 \<longleftrightarrow> sint d dvd v"
    using assms(1) by (auto simp: smod_int_alt_def sgn_if dvd_eq_mod_eq_0 [symmetric])
  show ?thesis
  proof (cases "sint d dvd v")
    case True
    then have q: "v sdiv sint d * sint d = v" by (simp add: signed_divide_int_eq_divide_int)
    have "\<bar>v sdiv sint d\<bar> * 1 \<le> \<bar>v sdiv sint d\<bar> * sint d" using assms(1) by (intro mult_left_mono) simp_all
    also have "\<dots> = \<bar>v\<bar>" using q assms(1) by (metis abs_mult abs_of_pos)
    finally have "\<bar>v sdiv sint d\<bar> \<le> \<bar>v\<bar>" by simp
    moreover have "v sdiv sint d \<noteq> 2 ^ 127"
    proof
      assume "v sdiv sint d = 2 ^ 127"
      then have "v = 2 ^ 127 * sint d" using q by simp
      then show False using assms by (simp add: i128_range_def)
    qed
    ultimately have range: "i128_range (v sdiv sint d)" using assms(2) by (auto simp: i128_range_def)
    have "FixedDecimal (word_of_int (v sdiv sint d)) = c \<longleftrightarrow> sint (scaled c) = v sdiv sint d"
      using sint_of_i128_range [OF range] by (metis fixed_decimal.exhaust_sel fixed_decimal.sel signed_word_eqI)
    moreover have "sint (scaled c) = v sdiv sint d \<longleftrightarrow> sint (scaled c) * sint d = v"
      using q assms(1) by (metis mult_right_cancel less_irrefl)
    ultimately show ?thesis using True smod by simp
  next
    case False
    then show ?thesis using smod by (metis dvd_triv_right result.distinct(1))
  qed
qed

lemma exact_div_Ok:
  assumes "fd_is_positive d"
  shows "exact_div n d = Ok c \<longleftrightarrow>
    i128_range (sint (scaled n) * FIXED_DECIMAL_FACTOR) \<and>
    sint (scaled c) * sint (scaled d) = sint (scaled n) * FIXED_DECIMAL_FACTOR"
proof -
  have d: "0 < sint (scaled d)" using assms by (simp add: fd_is_positive_def)
  then have nz: "scaled d \<noteq> 0" by auto
  show ?thesis
  proof (cases "i128_range (sint (scaled n) * FIXED_DECIMAL_FACTOR)")
    case True
    then obtain w where "checked_i128 (sint (scaled n) * FIXED_DECIMAL_FACTOR) = Some w"
      and w: "sint w = sint (scaled n) * FIXED_DECIMAL_FACTOR"
      using checked_i128_Some by (metis checked_i128_def)
    with nz have "exact_div n d = (if sint w smod sint (scaled d) \<noteq> 0 then Err InvalidValue
        else Ok (FixedDecimal (word_of_int (sint w sdiv sint (scaled d)))))"
      by (simp add: exact_div_def)
    with True exact_quotient_Ok [OF d sint_i128_range [of w]] show ?thesis by (simp only: w simp_thms)
  next
    case False
    then show ?thesis by (simp add: exact_div_def checked_i128_def)
  qed
qed

section \<open>The formulas\<close>

text \<open>The bumped price difference and the number of bumps it spans, as integers.\<close>

fun price_difference :: "sensitivity_direction \<Rightarrow> fixed_decimal \<Rightarrow> fixed_decimal \<Rightarrow> fixed_decimal \<Rightarrow> int" where
  "price_difference Central base up down = sint (scaled down) - sint (scaled up)"
| "price_difference Up base up down = sint (scaled base) - sint (scaled up)"
| "price_difference Down base up down = sint (scaled down) - sint (scaled base)"

fun bump_steps :: "sensitivity_direction \<Rightarrow> int" where
  "bump_steps Central = 2"
| "bump_steps Up = 1"
| "bump_steps Down = 1"

lemma difference_Ok:
  "(case direction of Central \<Rightarrow> fd_checked_sub down up | Up \<Rightarrow> fd_checked_sub base up
      | Down \<Rightarrow> fd_checked_sub down base) = Ok x \<longleftrightarrow> sint (scaled x) = price_difference direction base up down"
  by (cases direction) (simp_all add: fd_checked_sub_Ok)

lemma fixed_decimal_of:
  assumes "i128_range v"
  obtains x where "sint (scaled x) = v"
  using sint_of_i128_range [OF assms] by (metis fixed_decimal.sel)

lemma fixed_decimal_eqI: "sint (scaled x) = sint (scaled y) \<Longrightarrow> x = y"
  by (auto intro: fixed_decimal.expand signed_word_eqI)

lemma nearest_even_exact: "q * d = n \<Longrightarrow> d \<noteq> 0 \<Longrightarrow> nearest_even q n d"
  by (auto simp: nearest_even_def)

lemma nearest_even_scale: "k \<noteq> 0 \<Longrightarrow> nearest_even q (k * n) (k * d) \<longleftrightarrow> nearest_even q n d"
proof -
  assume k: "k \<noteq> 0"
  have "\<bar>q * (k * d) - k * n\<bar> = \<bar>k\<bar> * \<bar>q * d - n\<bar>"
    by (metis abs_mult mult.left_commute right_diff_distrib)
  then show ?thesis using k by (simp add: nearest_even_def abs_mult mult.left_commute [of 2])
qed

lemma rounded_fraction_Ok:
  assumes "\<forall>v \<in> set ns. 0 < unat v" "\<forall>v \<in> set ds. 0 < unat v"
  shows "and_then (checked_product ns) (\<lambda>numerator.
      and_then (checked_product ds) (\<lambda>denominator.
      and_then (exposure_signed_magnitude numerator negative) (\<lambda>numerator.
      and_then (if unat denominator < 2 ^ 127 then Ok denominator else Err InvalidValue) (\<lambda>denominator.
      fd_checked_div_round_ties_even (FixedDecimal numerator) (FixedDecimal denominator))))) = Ok c \<longleftrightarrow>
    i128_range (signed_int negative (prod_list (map unat ns))) \<and> prod_list (map unat ds) < 2 ^ 127 \<and>
    nearest_even (sint (scaled c)) (signed_int negative (prod_list (map unat ns)) * FIXED_DECIMAL_FACTOR)
      (int (prod_list (map unat ds)))" (is "?l = Ok c \<longleftrightarrow> ?r")
proof -
  let ?N = "prod_list (map unat ns)" and ?D = "prod_list (map unat ds)"
  have D: "?D \<noteq> 0" using assms(2) by (induction ds) auto
  show ?thesis
  proof
    assume "?l = Ok c"
    then obtain x y v where "checked_product ns = Ok x" and "checked_product ds = Ok y"
      and "exposure_signed_magnitude x negative = Ok v" and small: "unat y < 2 ^ 127"
      and div: "fd_checked_div_round_ties_even (FixedDecimal v) (FixedDecimal y) = Ok c"
      by (auto simp: result_simps split: if_splits)
    then have y: "unat y = ?D" and v: "sint v = signed_int negative ?N"
      using checked_product_Ok [OF assms(1)] checked_product_Ok [OF assms(2)]
      by (auto simp: exposure_signed_magnitude_eq signed_magnitude_Ok)
    show ?r
      using div sint_small [OF small] small sint_i128_range [of v] unfolding fd_div_round_Ok by (simp add: y v)
  next
    assume r: ?r
    then have "?N < 2 ^ 128" by (auto simp: i128_range_def signed_int_def split: if_splits)
    then have x: "unat (word_of_nat ?N :: u128) = ?N" by (simp add: unat_of_nat)
    have y: "unat (word_of_nat ?D :: u128) = ?D" using r by (simp add: unat_of_nat)
    have v: "sint (word_of_int (signed_int negative ?N) :: i128) = signed_int negative ?N"
      using r by (simp add: sint_of_i128_range)
    have "sint (word_of_nat ?D :: u128) = int ?D" using r y sint_small [of "word_of_nat ?D"] by simp
    moreover have "(word_of_nat ?D :: u128) \<noteq> 0" using y D by auto
    ultimately have "fd_checked_div_round_ties_even (FixedDecimal (word_of_int (signed_int negative ?N)))
        (FixedDecimal (word_of_nat ?D)) = Ok c"
      using r unfolding fd_div_round_Ok fixed_decimal.sel v by simp
    moreover have "checked_product ns = Ok (word_of_nat ?N)" "checked_product ds = Ok (word_of_nat ?D)"
      using checked_product_Ok [OF assms(1)] checked_product_Ok [OF assms(2)] x y by blast+
    moreover have "exposure_signed_magnitude (word_of_nat ?N) negative = Ok (word_of_int (signed_int negative ?N))"
      unfolding exposure_signed_magnitude_eq signed_magnitude_Ok v x ..
    ultimately show "?l = Ok c" using r y by simp
  qed
qed

lemma key_rate_dv01_Ok:
  "key_rate_dv01 base up down bump_bp direction = Ok c \<longleftrightarrow>
     fd_is_positive bump_bp \<and> i128_range (bump_steps direction * sint (scaled bump_bp)) \<and>
     i128_range (price_difference direction base up down * FIXED_DECIMAL_FACTOR) \<and>
     sint (scaled c) * (bump_steps direction * sint (scaled bump_bp)) =
       price_difference direction base up down * FIXED_DECIMAL_FACTOR" (is "?l = Ok c \<longleftrightarrow> ?r")
proof (cases "fd_is_positive bump_bp \<and> i128_range (bump_steps direction * sint (scaled bump_bp)) \<and>
     i128_range (price_difference direction base up down * FIXED_DECIMAL_FACTOR)")
  case True
  let ?p = "price_difference direction base up down" and ?b = "bump_steps direction * sint (scaled bump_bp)"
  have "i128_range ?p" using True by (auto simp: i128_range_def FIXED_DECIMAL_FACTOR_def)
  then obtain x where x: "sint (scaled x) = ?p" by (rule fixed_decimal_of)
  obtain d :: i128 where d: "sint d = ?b" using True sint_of_i128_range by blast
  have pos: "0 < sint d" using True by (cases direction) (auto simp: d fd_is_positive_def)
  obtain w :: i128 where w: "sint w = ?p * FIXED_DECIMAL_FACTOR" using True sint_of_i128_range by blast
  have "(case direction of Central \<Rightarrow> ok_or (checked_i128 (sint (scaled bump_bp) * 2)) InvalidValue
      | Up \<Rightarrow> Ok (scaled bump_bp) | Down \<Rightarrow> Ok (scaled bump_bp)) = Ok d"
    using d by (cases direction) (auto simp: result_simps checked_i128_Some dest: signed_word_eqI)
  moreover have "checked_i128 (sint (scaled x) * FIXED_DECIMAL_FACTOR) = Some w" by (simp add: checked_i128_Some x w)
  moreover have "d \<noteq> 0" using pos by auto
  ultimately have "?l = (if sint w smod sint d \<noteq> 0 then Err InvalidValue
      else Ok (FixedDecimal (word_of_int (sint w sdiv sint d))))"
    using True iffD2 [OF difference_Ok x] by (simp add: key_rate_dv01_def)
  then show ?thesis using True exact_quotient_Ok [OF pos sint_i128_range [of w]] by (simp only: w d simp_thms)
next
  case False
  have "?l \<noteq> Ok c"
  proof
    assume "?l = Ok c"
    then obtain x d w where "fd_is_positive bump_bp" and x: "sint (scaled x) = price_difference direction base up down"
      and d: "(case direction of Central \<Rightarrow> ok_or (checked_i128 (sint (scaled bump_bp) * 2)) InvalidValue
        | Up \<Rightarrow> Ok (scaled bump_bp) | Down \<Rightarrow> Ok (scaled bump_bp)) = Ok d"
      and w: "checked_i128 (sint (scaled x) * FIXED_DECIMAL_FACTOR) = Some w"
      by (auto simp: key_rate_dv01_def result_simps difference_Ok split: if_splits)
    moreover have "sint d = bump_steps direction * sint (scaled bump_bp)"
      using d by (cases direction) (auto simp: result_simps checked_i128_Some)
    ultimately show False
      using False sint_i128_range [of d] sint_i128_range [of w] by (simp add: checked_i128_Some)
  qed
  with False show ?thesis by blast
qed

lemma bond_position_Ok:
  fixes n d :: int
  assumes n: "n = price_difference direction base up down * sint (scaled signed_quantity)"
    and d: "d = bump_steps direction * sint (scaled bump_bp) * sint (scaled registered_face)"
  shows "bond_position_key_rate_dv01 base up down bump_bp direction signed_quantity registered_face = Ok c \<longleftrightarrow>
    fd_is_positive bump_bp \<and> fd_is_positive registered_face \<and> i128_range (price_difference direction base up down) \<and>
    i128_range (n div gcd n d) \<and> d div gcd n d < 2 ^ 127 \<and>
    nearest_even (sint (scaled c)) (n * FIXED_DECIMAL_FACTOR) d" (is "?l = Ok c \<longleftrightarrow> ?r")
proof (cases "fd_is_positive bump_bp \<and> fd_is_positive registered_face \<and> i128_range (price_difference direction base up down)")
  case False
  have "?l \<noteq> Ok c"
  proof
    assume "?l = Ok c"
    then obtain x where "fd_is_positive bump_bp" "fd_is_positive registered_face"
      and x: "sint (scaled x) = price_difference direction base up down"
      unfolding bond_position_key_rate_dv01_def and_then_eq_Ok difference_Ok
      by (metis (no_types, lifting) and_then_eq_Ok difference_Ok result.distinct(1))
    with False sint_i128_range [of "scaled x"] show False by simp
  qed
  with False show ?thesis by blast
next
  case True
  let ?p = "price_difference direction base up down" and ?q = "sint (scaled signed_quantity)"
  obtain x where x: "sint (scaled x) = ?p" using True by (blast intro: fixed_decimal_of)
  note sub = iffD2 [OF difference_Ok x]
  have dpos: "0 < d" using True unfolding d by (cases direction) (auto simp: fd_is_positive_def)
  have zero: "y = fd_zero \<longleftrightarrow> sint (scaled y) = 0" for y
    by (auto simp: fd_zero_def intro: fixed_decimal_eqI)
  show ?thesis
  proof (cases "n = 0")
    case True
    then have "x = fd_zero \<or> signed_quantity = fd_zero" unfolding zero using x n by auto
    then have "?l = Ok fd_zero" using \<open>fd_is_positive bump_bp \<and> _\<close> sub by (simp add: bond_position_key_rate_dv01_def)
    moreover have "nearest_even (sint (scaled c)) 0 d \<longleftrightarrow> sint (scaled c) = 0"
      using dpos nearest_even_unique [of "sint (scaled c)" 0 d 0] by (auto simp: nearest_even_def)
    ultimately show ?thesis
      using True dpos \<open>fd_is_positive bump_bp \<and> _\<close> zero [of c] by (auto simp: i128_range_def)
  next
    case False
    define neg where "neg = ((sint (scaled x) < 0) \<noteq> (?q < 0))"
    define ns where "ns = [unsigned_abs (scaled x), unsigned_abs (scaled signed_quantity)]"
    define ds where "ds = [case direction of Central \<Rightarrow> 2 | Up \<Rightarrow> 1 | Down \<Rightarrow> 1,
      unsigned_abs (scaled bump_bp), unsigned_abs (scaled registered_face)]"
    obtain ns' ds' where cancel: "cross_cancel ns ds = (ns', ds')" by fastforce
    have nz: "\<not> (x = fd_zero \<or> signed_quantity = fd_zero)" unfolding zero using False x n by auto
    let ?N = "prod_list (map unat ns)" and ?D = "prod_list (map unat ds)"
    let ?N' = "prod_list (map unat ns')" and ?D' = "prod_list (map unat ds')"
    have pos: "\<forall>v \<in> set ns. 0 < unat v" "\<forall>v \<in> set ds. 0 < unat v"
      using nz True by (auto simp: zero ns_def ds_def unat_unsigned_abs fd_is_positive_def split: sensitivity_direction.splits)
    have N: "int ?N = \<bar>n\<bar>" by (simp add: ns_def unat_unsigned_abs n x abs_mult)
    have D: "int ?D = d" using True dpos
      by (cases direction) (auto simp: ds_def unat_unsigned_abs d fd_is_positive_def)
    note red = cross_cancel_correct [OF cancel pos]
    have "coprime ?N' ?D'" using red by (intro coprime_prod_lists) auto
    moreover have "0 < ?D" "0 < ?D'"
    proof -
      show "0 < ?D" using D dpos by linarith
      have "\<forall>v \<in> set ds'. 0 < unat v" using red by blast
      then show "0 < ?D'" by (induction ds') auto
    qed
    ultimately have low: "?N' = ?N div gcd ?N ?D" "?D' = ?D div gcd ?N ?D"
      using red by (auto intro!: reduced_fraction)
    have g: "gcd n d = int (gcd ?N ?D)" by (metis N D abs_gcd_int gcd_abs1_int gcd_int_int_eq)
    have gpos: "0 < gcd n d" using dpos by simp
    have N': "signed_int neg ?N' * gcd n d = n"
    proof -
      have "?N' * gcd ?N ?D = ?N" unfolding low(1) by (rule dvd_div_mult_self) (rule gcd_dvd1)
      then have "int ?N' * gcd n d = \<bar>n\<bar>" unfolding g N [symmetric] by (metis of_nat_mult)
      moreover have "neg \<longleftrightarrow> n < 0" using False by (auto simp: neg_def n x mult_less_0_iff)
      ultimately show ?thesis by (auto simp: signed_int_def)
    qed
    have "?D' * gcd ?N ?D = ?D" unfolding low(2) by (rule dvd_div_mult_self) (rule gcd_dvd2)
    then have D': "int ?D' * gcd n d = d" using g D by (metis of_nat_mult)
    have nd: "n div gcd n d = signed_int neg ?N'" "d div gcd n d = int ?D'"
      using N' D' gpos by (metis less_irrefl nonzero_mult_div_cancel_right)+
    have "?l = Ok c \<longleftrightarrow> i128_range (signed_int neg ?N') \<and> ?D' < 2 ^ 127 \<and>
        nearest_even (sint (scaled c)) (signed_int neg ?N' * FIXED_DECIMAL_FACTOR) (int ?D')"
    proof -
      have "\<forall>v \<in> set ns'. 0 < unat v" "\<forall>v \<in> set ds'. 0 < unat v" using red by blast+
      note rounded = rounded_fraction_Ok [OF this, where negative = neg and c = c]
      have valid: "fd_is_positive bump_bp = True" "fd_is_positive registered_face = True" using True by simp_all
      show ?thesis
        unfolding bond_position_key_rate_dv01_def Let_def valid sub and_then.simps(1)
        unfolding ns_def [symmetric] ds_def [symmetric] neg_def [symmetric] cancel prod.case
        using nz rounded by (simp only: simp_thms if_False)
    qed
    also have "nearest_even (sint (scaled c)) (signed_int neg ?N' * FIXED_DECIMAL_FACTOR) (int ?D') \<longleftrightarrow>
        nearest_even (sint (scaled c)) (n * FIXED_DECIMAL_FACTOR) d"
      using nearest_even_scale [of "gcd n d" "sint (scaled c)" "signed_int neg ?N' * FIXED_DECIMAL_FACTOR" "int ?D'"] gpos N' D'
      by (simp add: mult.commute mult.left_commute)
    finally show ?thesis using True nd by simp
  qed
qed

section \<open>Properties\<close>

lemma i128_range_div: "0 < g \<Longrightarrow> i128_range p \<Longrightarrow> i128_range (p div g)"
proof -
  assume g: "0 < g" and p: "i128_range p"
  show "i128_range (p div g)"
  proof (cases "0 \<le> p")
    case True
    then have "0 \<le> p div g" "p div g \<le> p"
      using g zdiv_mono2 [of p 1 g] by (simp_all add: pos_imp_zdiv_nonneg_iff)
    with p show ?thesis by (simp add: i128_range_def)
  next
    case False
    then have "p div g < 0" using g by (simp add: pos_imp_zdiv_neg_iff)
    moreover have "p \<le> p div g" using False g zdiv_mono2_neg [of p 1 g] by simp
    ultimately show ?thesis using p by (simp add: i128_range_def)
  qed
qed

text \<open>
  C37: the sensitivity of a bond position is rounded once. With the exact fraction \<open>n / d\<close> of
  price difference times quantity over bumps times face, the result is the decimal nearest to it,
  ties to even. The cancellation reduces the fraction to lowest terms, so the only results lost to
  128-bit overflow are those whose price difference or whose fraction in lowest terms does not fit.
\<close>

theorem bond_position_rounds_once:
  "bond_position_key_rate_dv01 base up down bump_bp direction signed_quantity registered_face = Ok c \<longleftrightarrow>
    (let n = price_difference direction base up down * sint (scaled signed_quantity);
         d = bump_steps direction * sint (scaled bump_bp) * sint (scaled registered_face)
     in fd_is_positive bump_bp \<and> fd_is_positive registered_face \<and>
        i128_range (price_difference direction base up down) \<and>
        i128_range (n div gcd n d) \<and> d div gcd n d < 2 ^ 127 \<and>
        nearest_even (sint (scaled c)) (n * FIXED_DECIMAL_FACTOR) d)"
  unfolding Let_def by (rule bond_position_Ok) simp_all

text \<open>
  The two formulas agree. Where the exact sensitivity per face succeeds, the position
  formula for a quantity of one face gives the same value, for every face.
\<close>

theorem bond_position_of_one_face:
  assumes "key_rate_dv01 base up down bump_bp direction = Ok c" "fd_is_positive registered_face"
  shows "bond_position_key_rate_dv01 base up down bump_bp direction registered_face registered_face = Ok c"
proof -
  let ?p = "price_difference direction base up down" and ?b = "bump_steps direction * sint (scaled bump_bp)"
  let ?f = "sint (scaled registered_face)" and ?g = "gcd (price_difference direction base up down) (bump_steps direction * sint (scaled bump_bp))"
  have bump: "fd_is_positive bump_bp" "i128_range ?b" and p: "i128_range (?p * FIXED_DECIMAL_FACTOR)"
    and exact: "sint (scaled c) * ?b = ?p * FIXED_DECIMAL_FACTOR"
    using assms(1) by (simp_all add: key_rate_dv01_Ok)
  have f: "0 < ?f" using assms(2) by (simp add: fd_is_positive_def)
  have b: "0 < ?b" using bump(1) by (cases direction) (simp_all add: fd_is_positive_def)
  have range: "i128_range ?p" using p by (auto simp: i128_range_def FIXED_DECIMAL_FACTOR_def)
  have gcd: "gcd (?p * ?f) (?b * ?f) = ?f * ?g"
    using f by (simp add: mult.commute [of _ ?f] gcd_mult_distrib_int [symmetric])
  have g: "0 < ?g" using b by auto
  then have "i128_range (?p div ?g)" using range by (rule i128_range_div)
  moreover have "?b div ?g < 2 ^ 127"
  proof -
    have "?b div ?g \<le> ?b div 1" using b g by (intro zdiv_mono2) linarith+
    with bump(2) show ?thesis by (simp add: i128_range_def)
  qed
  moreover have "nearest_even (sint (scaled c)) (?p * ?f * FIXED_DECIMAL_FACTOR) (?b * ?f)"
  proof -
    have "sint (scaled c) * (?b * ?f) = ?p * ?f * FIXED_DECIMAL_FACTOR" using exact by (metis mult.assoc mult.commute)
    then show ?thesis by (rule nearest_even_exact) (use b f in auto)
  qed
  moreover have "?p * ?f div (?f * ?g) = ?p div ?g" "?b * ?f div (?f * ?g) = ?b div ?g"
    using f by (simp_all add: mult.commute [of _ ?f])
  ultimately show ?thesis
    unfolding bond_position_Ok [OF refl refl] gcd using bump(1) assms(2) range by simp
qed

text \<open>
  Scaling to a futures position never rounds. A result is the exact product of the
  per-face sensitivity, the quote basis, the contract size and the signed number of contracts over
  face and conversion factor; every value that is not a multiple of the scale is refused.
\<close>

theorem scale_futures_exact:
  assumes "scale_futures_key_rate_dv01 krd face basis contract_size factor contracts = Ok c"
  shows "sint (scaled c) * (sint (scaled face) * sint (scaled factor)) =
    sint (scaled krd) * sint (scaled basis) * int (unat contract_size) * sint contracts * FIXED_DECIMAL_FACTOR"
proof -
  let ?F = FIXED_DECIMAL_FACTOR
  obtain a q s b u n where pos: "fd_is_positive face" "fd_is_positive factor"
    and a: "fd_checked_mul krd basis = Ok a" and q: "exact_div a face = Ok q"
    and s: "checked_i128 (int (unat contract_size) * ?F) = Some s" and b: "fd_checked_mul q (FixedDecimal s) = Ok b"
    and u: "exact_div b factor = Ok u" and n: "checked_i128 (sint contracts * ?F) = Some n"
    and c: "fd_checked_mul u (FixedDecimal n) = Ok c"
    using assms by (auto simp: scale_futures_key_rate_dv01_def result_simps split: if_splits)
  have F: "?F \<noteq> 0" by (simp add: FIXED_DECIMAL_FACTOR_def)
  have "sint (scaled a) * ?F = sint (scaled krd) * sint (scaled basis)" using a by (simp add: fd_checked_mul_Ok)
  moreover have "sint (scaled q) * sint (scaled face) = sint (scaled a) * ?F" using q exact_div_Ok [OF pos(1)] by blast
  moreover have "sint (scaled b) = sint (scaled q) * int (unat contract_size)"
  proof -
    have "sint (scaled b) * ?F = sint (scaled q) * int (unat contract_size) * ?F"
      using b s by (simp add: fd_checked_mul_Ok checked_i128_Some mult.assoc)
    then show ?thesis using F by simp
  qed
  moreover have "sint (scaled u) * sint (scaled factor) = sint (scaled b) * ?F" using u exact_div_Ok [OF pos(2)] by blast
  moreover have "sint (scaled c) = sint (scaled u) * sint contracts"
  proof -
    have "sint (scaled c) * ?F = sint (scaled u) * sint contracts * ?F"
      using c n by (simp add: fd_checked_mul_Ok checked_i128_Some mult.assoc)
    then show ?thesis using F by simp
  qed
  ultimately show ?thesis by (metis (no_types, opaque_lifting) mult.assoc mult.commute)
qed

lemma bond_position_of_one_face_witness:
  "key_rate_dv01 (FixedDecimal 100000000000000) (FixedDecimal 99990000000000) (FixedDecimal 100010000000000)
     fd_one Central = Ok (FixedDecimal 10000000000) \<and>
   bond_position_key_rate_dv01 (FixedDecimal 100000000000000) (FixedDecimal 99990000000000)
     (FixedDecimal 100010000000000) fd_one Central (FixedDecimal 100000000000000) (FixedDecimal 100000000000000) =
     Ok (FixedDecimal 10000000000)"
proof -
  have exact: "key_rate_dv01 (FixedDecimal 100000000000000) (FixedDecimal 99990000000000) (FixedDecimal 100010000000000)
     fd_one Central = Ok (FixedDecimal 10000000000)"
    by (simp add: key_rate_dv01_Ok fd_one_def fd_is_positive_def FIXED_DECIMAL_FACTOR_def i128_range_def)
  have face: "fd_is_positive (FixedDecimal 100000000000000)" by (simp add: fd_is_positive_def)
  from bond_position_of_one_face [OF exact face] exact show ?thesis by simp
qed

lemma scale_futures_exact_witness:
  "\<exists>c. scale_futures_key_rate_dv01 (FixedDecimal 50000000000) (FixedDecimal 100000000000000) (FixedDecimal 100000000000000)
     10000 (FixedDecimal 1250000000000) (- 2) = Ok c \<and>
   sint (scaled c) * (100000000000000 * 1250000000000) = 50000000000 * 100000000000000 * 10000 * (- 2) * FIXED_DECIMAL_FACTOR"
proof -
  let ?r = "scale_futures_key_rate_dv01 (FixedDecimal 50000000000) (FixedDecimal 100000000000000) (FixedDecimal 100000000000000)
     10000 (FixedDecimal 1250000000000) (- 2)"
  have pos: "fd_is_positive (FixedDecimal 100000000000000)" "fd_is_positive (FixedDecimal 1250000000000)"
    by (simp_all add: fd_is_positive_def)
  have "fd_checked_mul (FixedDecimal 50000000000) (FixedDecimal 100000000000000) = Ok (FixedDecimal 5000000000000)"
    "exact_div (FixedDecimal 5000000000000) (FixedDecimal 100000000000000) = Ok (FixedDecimal 50000000000)"
    "fd_checked_mul (FixedDecimal 50000000000) (FixedDecimal 10000000000000000) = Ok (FixedDecimal 500000000000000)"
    "exact_div (FixedDecimal 500000000000000) (FixedDecimal 1250000000000) = Ok (FixedDecimal 400000000000000)"
    "fd_checked_mul (FixedDecimal 400000000000000) (FixedDecimal (- 2000000000000)) = Ok (FixedDecimal (- 800000000000000))"
    by (simp_all add: fd_checked_mul_Ok exact_div_Ok pos FIXED_DECIMAL_FACTOR_def i128_range_def)
  then have ok: "?r = Ok (FixedDecimal (- 800000000000000))"
    using pos by (simp add: scale_futures_key_rate_dv01_def checked_i128_def i128_range_def FIXED_DECIMAL_FACTOR_def)
  from scale_futures_exact [OF ok] ok show ?thesis by simp
qed

end
