(* ===== verification/Key_Rate_Exposure.thy ===== *)
theory Key_Rate_Exposure
  imports Coverage Key_Rate_Arithmetic
begin

text \<open>
  Key-rate exposures (\<open>ficant-domain/src/research/exposure.rs\<close>, the objects): the sensitivities of
  one position by factor, their total over the positions of a portfolio, and the content hashes
  of both. The theory shows that the totals are the sums factor by factor, when summing
  succeeds, and that the hashes, taken over sequences without counts, identify the objects.
\<close>

section \<open>Definitions\<close>

record factor_dv01 =
  fx_factor_id :: string
  fx_factor_definition_hash :: content_hash
  fx_value :: fixed_decimal
  fx_unit :: unit_ref

definition factor_dv01_new ::
  "string \<Rightarrow> content_hash \<Rightarrow> fixed_decimal \<Rightarrow> unit_ref \<Rightarrow> factor_dv01 domain_result" where
  "factor_dv01_new factor_id factor_definition_hash v unit =
     (if blank_or_padded factor_id then Err InvalidId
      else Ok \<lparr>fx_factor_id = factor_id, fx_factor_definition_hash = factor_definition_hash,
               fx_value = v, fx_unit = unit\<rparr>)"

record position_key_rate_exposure =
  pk_position_id :: ulid
  pk_instrument :: version_ref
  pk_exposures :: "factor_dv01 list"
  pk_input_evidence_hashes :: "content_hash list"
  pk_content_hash :: content_hash
  pk_lineage :: "lineage_ref list"

definition append_factor :: "factor_dv01 \<Rightarrow> bytes" where
  "append_factor x =
     push_bytes (as_bytes (fx_factor_id x))
     @ push_bytes (hash_bytes (fx_factor_definition_hash x))
     @ push_bytes (to_be_bytes (scaled (fx_value x)))
     @ push_bytes (as_bytes (ulid_str (ur_unit_id (fx_unit x))))
     @ push_bytes (to_be_bytes (version_get (ur_version (fx_unit x))))"

definition exposure_append_lineage :: "lineage_ref \<Rightarrow> bytes" where
  "exposure_append_lineage l =
     push_bytes (as_bytes (ulid_str (lr_object_id l)))
     @ push_bytes (to_be_bytes (case lr_version l of Some v \<Rightarrow> version_get v | None \<Rightarrow> 0))
     @ (case lr_content_hash l of Some hash \<Rightarrow> push_bytes (hash_bytes hash) | None \<Rightarrow> push_bytes [])"

definition position_exposure_bytes ::
  "ulid \<Rightarrow> version_ref \<Rightarrow> factor_dv01 list \<Rightarrow> content_hash list \<Rightarrow> lineage_ref list \<Rightarrow> bytes" where
  "position_exposure_bytes position_id instrument exposures input_evidence_hashes lineage =
     push_bytes (as_bytes (ulid_str position_id))
     @ push_bytes (as_bytes (ulid_str (vr_id instrument)))
     @ push_bytes (to_be_bytes (version_get (vr_version instrument)))
     @ concat (map append_factor exposures)
     @ concat (map (\<lambda>h. push_bytes (hash_bytes h)) input_evidence_hashes)
     @ concat (map exposure_append_lineage lineage)"

definition hash_position ::
  "sha256_fn \<Rightarrow> ulid \<Rightarrow> version_ref \<Rightarrow> factor_dv01 list \<Rightarrow> content_hash list \<Rightarrow> lineage_ref list \<Rightarrow> content_hash" where
  "hash_position sha256 position_id instrument exposures input_evidence_hashes lineage =
     sha256 (position_exposure_bytes position_id instrument exposures input_evidence_hashes lineage)"

definition position_exposure_new ::
  "sha256_fn \<Rightarrow> ulid \<Rightarrow> version_ref \<Rightarrow> factor_dv01 list \<Rightarrow> content_hash list \<Rightarrow> lineage_ref list \<Rightarrow>
   position_key_rate_exposure domain_result" where
  "position_exposure_new sha256 position_id instrument exposures input_evidence_hashes lineage =
     (if exposures = [] \<or> input_evidence_hashes = [] \<or> lineage = []
        \<or> windows2_any (\<lambda>a b. fx_factor_id a \<ge> fx_factor_id b) exposures
        \<or> windows2_any (\<lambda>a b. a \<ge> b) input_evidence_hashes
        \<or> list_ex (\<lambda>x. fx_unit x \<noteq> fx_unit (exposures ! 0)) exposures
      then Err BrokenLineage
      else Ok \<lparr>pk_position_id = position_id, pk_instrument = instrument, pk_exposures = exposures,
               pk_input_evidence_hashes = input_evidence_hashes,
               pk_content_hash = hash_position sha256 position_id instrument exposures input_evidence_hashes lineage,
               pk_lineage = lineage\<rparr>)"

text \<open>The loop over \<open>totals.iter_mut().zip(&position.exposures)\<close>.\<close>

fun add_factors :: "factor_dv01 list \<Rightarrow> factor_dv01 list \<Rightarrow> factor_dv01 list domain_result" where
  "add_factors (t # ts) (x # xs) =
     (if fx_factor_id t \<noteq> fx_factor_id x \<or> fx_factor_definition_hash t \<noteq> fx_factor_definition_hash x
        \<or> fx_unit t \<noteq> fx_unit x
      then Err BrokenLineage
      else and_then (fd_checked_add (fx_value t) (fx_value x)) (\<lambda>v.
           and_then (add_factors ts xs) (\<lambda>rest. Ok (t\<lparr>fx_value := v\<rparr> # rest))))"
| "add_factors ts xs = Ok ts"

definition add_position_exposures ::
  "position_key_rate_exposure \<Rightarrow> factor_dv01 list \<Rightarrow> factor_dv01 list domain_result" where
  "add_position_exposures position totals =
     (if length (pk_exposures position) \<noteq> length totals then Err BrokenLineage
      else add_factors totals (pk_exposures position))"

definition aggregate_bond_key_rate_exposures ::
  "position_key_rate_exposure list \<Rightarrow> factor_dv01 list domain_result" where
  "aggregate_bond_key_rate_exposures positions =
     (case positions of
        [] \<Rightarrow> Err InvalidValue
      | first # rest \<Rightarrow> try_fold add_position_exposures rest (pk_exposures first))"

record risk_algorithm_binding =
  ra_algorithm_id :: string
  ra_algorithm_version :: u32
  ra_convention_profile :: string

definition risk_algorithm_binding_new :: "string \<Rightarrow> u32 \<Rightarrow> string \<Rightarrow> risk_algorithm_binding domain_result" where
  "risk_algorithm_binding_new algorithm_id algorithm_version convention_profile =
     (if algorithm_version = 0 \<or> blank_or_padded algorithm_id \<or> blank_or_padded convention_profile
      then Err InvalidValue
      else Ok \<lparr>ra_algorithm_id = algorithm_id, ra_algorithm_version = algorithm_version,
               ra_convention_profile = convention_profile\<rparr>)"

record portfolio_key_rate_exposure =
  px_position_snapshot_id :: ulid
  px_curve_snapshot_id :: ulid
  px_futures_data_snapshot_id :: "ulid option"
  px_positions :: "position_key_rate_exposure list"
  px_totals :: "factor_dv01 list"
  px_algorithm :: risk_algorithm_binding
  px_source_confidence :: price_source_summary
  px_coverage :: coverage_declaration
  px_content_hash :: content_hash
  px_lineage :: "lineage_ref list"

text \<open>The bytes hashed by \<open>new_inner\<close>, from the fields of the exposure.\<close>

definition portfolio_exposure_bytes :: "portfolio_key_rate_exposure \<Rightarrow> bytes" where
  "portfolio_exposure_bytes x =
     push_bytes (as_bytes (ulid_str (px_position_snapshot_id x)))
     @ push_bytes (as_bytes (ulid_str (px_curve_snapshot_id x)))
     @ (case px_futures_data_snapshot_id x of
          Some v \<Rightarrow> push_bytes (as_bytes ''futures_data_snapshot_id'') @ push_bytes (as_bytes (ulid_str v))
        | None \<Rightarrow> [])
     @ concat (map (\<lambda>p. push_bytes (hash_bytes (pk_content_hash p))) (px_positions x))
     @ concat (map append_factor (px_totals x))
     @ push_bytes (as_bytes (ra_algorithm_id (px_algorithm x)))
     @ push_bytes (to_be_bytes (ra_algorithm_version (px_algorithm x)))
     @ push_bytes (as_bytes (ra_convention_profile (px_algorithm x)))
     @ concat (map append_source_count (pss_counts (px_source_confidence x)))
     @ push_bytes (coverage_canonical_bytes (px_coverage x))
     @ concat (map exposure_append_lineage (px_lineage x))"

definition portfolio_exposure_new_inner ::
  "sha256_fn \<Rightarrow> ulid \<Rightarrow> ulid \<Rightarrow> ulid option \<Rightarrow> position_key_rate_exposure list \<Rightarrow> risk_algorithm_binding \<Rightarrow>
   price_source_summary \<times> coverage_declaration \<Rightarrow> lineage_ref list \<Rightarrow>
   portfolio_key_rate_exposure domain_result" where
  "portfolio_exposure_new_inner sha256 position_snapshot_id curve_snapshot_id futures_data_snapshot_id
     positions algorithm source_and_coverage lineage =
     (let (source_confidence, coverage) = source_and_coverage in
      if positions = [] \<or> lineage = [] \<or> cd_source_confidence coverage \<noteq> Some source_confidence
      then Err BrokenLineage
      else
        and_then (u64_of_len (length positions)) (\<lambda>count.
        if cd_participating_position_count coverage \<noteq> count
          \<or> windows2_any (\<lambda>a b. pk_position_id a \<ge> pk_position_id b) positions
        then Err BrokenLineage
        else
          and_then (aggregate_bond_key_rate_exposures positions) (\<lambda>totals.
          let x = \<lparr>px_position_snapshot_id = position_snapshot_id, px_curve_snapshot_id = curve_snapshot_id,
                   px_futures_data_snapshot_id = futures_data_snapshot_id, px_positions = positions,
                   px_totals = totals, px_algorithm = algorithm, px_source_confidence = source_confidence,
                   px_coverage = coverage, px_content_hash = zero_hash, px_lineage = lineage\<rparr>
          in Ok (x\<lparr>px_content_hash := sha256 (portfolio_exposure_bytes x)\<rparr>))))"

definition portfolio_exposure_new ::
  "sha256_fn \<Rightarrow> ulid \<Rightarrow> ulid \<Rightarrow> position_key_rate_exposure list \<Rightarrow> risk_algorithm_binding \<Rightarrow>
   price_source_summary \<times> coverage_declaration \<Rightarrow> lineage_ref list \<Rightarrow>
   portfolio_key_rate_exposure domain_result" where
  "portfolio_exposure_new sha256 position_snapshot_id curve_snapshot_id positions algorithm
     source_and_coverage lineage =
     (let (source_confidence, coverage) = source_and_coverage in
      and_then (u64_of_len (length positions)) (\<lambda>curve_record_count.
      and_then (price_source_count_new CurveInterpolation curve_record_count) (\<lambda>curve.
      and_then (price_source_summary_new [curve]) (\<lambda>expected.
      if source_confidence \<noteq> expected then Err BrokenLineage
      else portfolio_exposure_new_inner sha256 position_snapshot_id curve_snapshot_id None positions algorithm
             (source_confidence, coverage) lineage))))"

definition portfolio_exposure_new_with_futures ::
  "sha256_fn \<Rightarrow> ulid \<Rightarrow> ulid \<Rightarrow> ulid \<Rightarrow> position_key_rate_exposure list \<Rightarrow> risk_algorithm_binding \<Rightarrow>
   price_source_summary \<times> coverage_declaration \<Rightarrow> lineage_ref list \<Rightarrow>
   portfolio_key_rate_exposure domain_result" where
  "portfolio_exposure_new_with_futures sha256 position_snapshot_id curve_snapshot_id futures_data_snapshot_id
     positions algorithm source_and_coverage lineage =
     (let (source_confidence, coverage) = source_and_coverage in
      and_then (ok_or (find (\<lambda>c. psc_source_type c = ActiveQuote) (pss_counts source_confidence)) BrokenLineage) (\<lambda>active.
      and_then (u64_of_len (length positions)) (\<lambda>curve_record_count.
      and_then (price_source_count_new ActiveQuote (psc_record_count active)) (\<lambda>quotes.
      and_then (price_source_count_new CurveInterpolation curve_record_count) (\<lambda>curve.
      and_then (price_source_summary_new [quotes, curve]) (\<lambda>expected.
      if source_confidence \<noteq> expected then Err BrokenLineage
      else portfolio_exposure_new_inner sha256 position_snapshot_id curve_snapshot_id
             (Some futures_data_snapshot_id) positions algorithm (source_confidence, coverage) lineage))))))"

section \<open>Totals\<close>

text \<open>What identifies a factor, and its scaled value.\<close>

definition factor_key :: "factor_dv01 \<Rightarrow> string \<times> content_hash \<times> unit_ref" where
  "factor_key x = (fx_factor_id x, fx_factor_definition_hash x, fx_unit x)"

definition factor_int :: "factor_dv01 \<Rightarrow> int" where
  "factor_int x = sint (scaled (fx_value x))"

lemma factor_key_update [simp]: "factor_key (x\<lparr>fx_value := v\<rparr>) = factor_key x"
  by (simp add: factor_key_def)

lemma add_factors_Ok:
  "length ts = length xs \<Longrightarrow> add_factors ts xs = Ok us \<Longrightarrow>
   map factor_key xs = map factor_key ts \<and> map factor_key us = map factor_key ts \<and>
   map factor_int us = map2 (+) (map factor_int ts) (map factor_int xs)"
proof (induction ts xs arbitrary: us rule: list_induct2)
  case (Cons t ts x xs)
  then obtain v rest where key: "factor_key x = factor_key t"
    and v: "fd_checked_add (fx_value t) (fx_value x) = Ok v"
    and rest: "add_factors ts xs = Ok rest" and us: "us = t\<lparr>fx_value := v\<rparr> # rest"
    by (auto simp: result_simps factor_key_def split: if_splits)
  from v have "factor_int (t\<lparr>fx_value := v\<rparr>) = factor_int t + factor_int x"
    by (auto simp: fd_checked_add_def result_simps checked_i128_Some factor_int_def)
  with key us Cons.IH [OF rest] show ?case by simp
qed simp

lemma add_factors_total:
  "map factor_key xs = map factor_key ts \<Longrightarrow>
   list_all2 (\<lambda>t x. i128_range (factor_int t + factor_int x)) ts xs \<Longrightarrow> \<exists>us. add_factors ts xs = Ok us"
proof (induction ts xs rule: add_factors.induct)
  case (1 t ts x xs)
  then obtain us where us: "add_factors ts xs = Ok us" by (auto simp: factor_key_def)
  have "\<exists>v. fd_checked_add (fx_value t) (fx_value x) = Ok v"
    using 1(3) by (simp add: fd_checked_add_def checked_i128_def factor_int_def)
  with us 1(2) show ?case by (auto simp: factor_key_def)
qed auto

lemma add_position_exposures_Ok:
  assumes "add_position_exposures p ts = Ok us"
  shows "map factor_key (pk_exposures p) = map factor_key ts" "map factor_key us = map factor_key ts"
    "length us = length ts"
    "k < length ts \<Longrightarrow> factor_int (us ! k) = factor_int (ts ! k) + factor_int (pk_exposures p ! k)"
proof -
  from assms have len: "length ts = length (pk_exposures p)" and "add_factors ts (pk_exposures p) = Ok us"
    by (auto simp: add_position_exposures_def split: if_splits)
  note added = add_factors_Ok [OF this]
  then show "map factor_key (pk_exposures p) = map factor_key ts" "map factor_key us = map factor_key ts" by simp_all
  then show us: "length us = length ts" by (metis length_map)
  assume k: "k < length ts"
  have "map factor_int us ! k = map2 (+) (map factor_int ts) (map factor_int (pk_exposures p)) ! k"
    using added by simp
  with k len us show "factor_int (us ! k) = factor_int (ts ! k) + factor_int (pk_exposures p ! k)" by simp
qed

lemma totals_fold_Ok:
  "try_fold add_position_exposures ps ts = Ok us \<Longrightarrow>
   (\<forall>p \<in> set ps. map factor_key (pk_exposures p) = map factor_key ts) \<and> map factor_key us = map factor_key ts \<and>
   (\<forall>k < length ts. factor_int (us ! k) = factor_int (ts ! k) + (\<Sum>p \<leftarrow> ps. factor_int (pk_exposures p ! k)))"
proof (induction ps arbitrary: ts)
  case (Cons p ps)
  then obtain ss where step: "add_position_exposures p ts = Ok ss" and rest: "try_fold add_position_exposures ps ss = Ok us"
    by (auto simp: result_simps)
  with Cons.IH [OF rest] add_position_exposures_Ok [OF step] show ?case by simp
qed simp

lemma totals_fold_total:
  assumes "\<forall>p \<in> set ps. map factor_key (pk_exposures p) = map factor_key ts"
    and "\<forall>k < length ts. \<bar>factor_int (ts ! k)\<bar> + (\<Sum>p \<leftarrow> ps. \<bar>factor_int (pk_exposures p ! k)\<bar>) < 2 ^ 127"
  shows "\<exists>us. try_fold add_position_exposures ps ts = Ok us"
  using assms
proof (induction ps arbitrary: ts)
  case (Cons p ps)
  have key: "map factor_key (pk_exposures p) = map factor_key ts" using Cons.prems(1) by simp
  then have len: "length (pk_exposures p) = length ts" by (metis length_map)
  have nonneg: "0 \<le> (\<Sum>p \<leftarrow> ps. \<bar>factor_int (pk_exposures p ! k)\<bar>)" for k by (rule sum_list_nonneg) auto
  have small: "\<bar>factor_int (ts ! k)\<bar> + \<bar>factor_int (pk_exposures p ! k)\<bar>
      + (\<Sum>p \<leftarrow> ps. \<bar>factor_int (pk_exposures p ! k)\<bar>) < 2 ^ 127" if "k < length ts" for k
    using Cons.prems(2) that by (simp add: add.assoc)
  have "i128_range (factor_int (ts ! k) + factor_int (pk_exposures p ! k))" if "k < length ts" for k
    using small [OF that] nonneg [of k] unfolding i128_range_def by linarith
  then obtain ss where "add_factors ts (pk_exposures p) = Ok ss"
    using add_factors_total [OF key] len by (auto simp: list_all2_conv_all_nth)
  then have ss: "add_position_exposures p ts = Ok ss" using len by (simp add: add_position_exposures_def)
  note added = add_position_exposures_Ok [OF ss]
  have "\<bar>factor_int (ss ! k)\<bar> + (\<Sum>p \<leftarrow> ps. \<bar>factor_int (pk_exposures p ! k)\<bar>) < 2 ^ 127" if "k < length ts" for k
    using small [OF that] unfolding added(4) [OF that] by linarith
  then have "\<exists>us. try_fold add_position_exposures ps ss = Ok us"
    using Cons.prems(1) added(2,3) by (intro Cons.IH) simp_all
  then show ?case using ss by simp
qed simp

text \<open>
  C23: the totals of a portfolio are the sums of its positions, factor by factor. A total exists
  only when all positions have the same factors in the same order, with the same definitions
  and units; it then has these factors, and each value is the sum of the positions' values. And
  positions with the same factors always have a total when, for each factor, the absolute
  values add up below the range of the 128-bit value.
\<close>

theorem exposure_totals:
  "(\<forall>totals. aggregate_bond_key_rate_exposures ps = Ok totals \<longrightarrow>
      ps \<noteq> [] \<and> (\<forall>p \<in> set ps. map factor_key (pk_exposures p) = map factor_key totals) \<and>
      (\<forall>k < length totals. factor_int (totals ! k) = (\<Sum>p \<leftarrow> ps. factor_int (pk_exposures p ! k)))) \<and>
   (ps \<noteq> [] \<and> (\<forall>p \<in> set ps. map factor_key (pk_exposures p) = keys) \<and>
      (\<forall>k < length keys. (\<Sum>p \<leftarrow> ps. \<bar>factor_int (pk_exposures p ! k)\<bar>) < 2 ^ 127) \<longrightarrow>
      (\<exists>totals. aggregate_bond_key_rate_exposures ps = Ok totals \<and> map factor_key totals = keys))"
proof (cases ps)
  case Nil
  then show ?thesis by (simp add: aggregate_bond_key_rate_exposures_def)
next
  case (Cons p qs)
  have agg: "aggregate_bond_key_rate_exposures ps = try_fold add_position_exposures qs (pk_exposures p)"
    by (simp add: Cons aggregate_bond_key_rate_exposures_def)
  have "ps \<noteq> [] \<and> (\<forall>p \<in> set ps. map factor_key (pk_exposures p) = map factor_key us) \<and>
      (\<forall>k < length us. factor_int (us ! k) = (\<Sum>p \<leftarrow> ps. factor_int (pk_exposures p ! k)))"
    if us: "try_fold add_position_exposures qs (pk_exposures p) = Ok us" for us
  proof -
    note sums = totals_fold_Ok [OF us]
    then have "length us = length (pk_exposures p)" by (metis length_map)
    with sums show ?thesis by (simp add: Cons)
  qed
  moreover have "\<exists>us. try_fold add_position_exposures qs (pk_exposures p) = Ok us \<and> map factor_key us = keys"
    if same: "\<forall>p \<in> set ps. map factor_key (pk_exposures p) = keys"
      "\<forall>k < length keys. (\<Sum>p \<leftarrow> ps. \<bar>factor_int (pk_exposures p ! k)\<bar>) < 2 ^ 127"
  proof -
    have keys: "map factor_key (pk_exposures p) = keys" using same by (simp add: Cons)
    then have "length (pk_exposures p) = length keys" by (metis length_map)
    then obtain us where us: "try_fold add_position_exposures qs (pk_exposures p) = Ok us"
      using totals_fold_total [of qs "pk_exposures p"] same keys by (auto simp: Cons)
    then show ?thesis using totals_fold_Ok [OF us] keys by metis
  qed
  ultimately show ?thesis unfolding agg by blast
qed

section \<open>Blocks of the payloads\<close>

definition factor_blocks :: "factor_dv01 \<Rightarrow> bytes list" where
  "factor_blocks x =
     [as_bytes (fx_factor_id x), hash_bytes (fx_factor_definition_hash x), to_be_bytes (scaled (fx_value x)),
      as_bytes (ulid_str (ur_unit_id (fx_unit x))), to_be_bytes (version_get (ur_version (fx_unit x)))]"

definition lineage_blocks :: "lineage_ref \<Rightarrow> bytes list" where
  "lineage_blocks l =
     [as_bytes (ulid_str (lr_object_id l)),
      to_be_bytes (case lr_version l of Some v \<Rightarrow> version_get v | None \<Rightarrow> 0),
      case lr_content_hash l of Some hash \<Rightarrow> hash_bytes hash | None \<Rightarrow> []]"

lemma append_factor_blocks: "append_factor = (\<lambda>x. concat (map push_bytes (factor_blocks x)))"
  by (rule ext) (simp add: append_factor_def factor_blocks_def)

lemma append_lineage_blocks: "exposure_append_lineage = (\<lambda>l. concat (map push_bytes (lineage_blocks l)))"
  by (rule ext) (simp add: exposure_append_lineage_def lineage_blocks_def split: option.split)

text \<open>Parts as their constructors leave them: ULIDs of 26 characters, versions from 1.\<close>

definition lineage_wf :: "(string \<Rightarrow> string option) \<Rightarrow> lineage_ref \<Rightarrow> bool" where
  "lineage_wf p l \<longleftrightarrow> ulid_ok p (lr_object_id l) \<and> (\<forall>v \<in> set_option (lr_version l). version_get v \<noteq> 0)"

definition factor_wf :: "(string \<Rightarrow> string option) \<Rightarrow> factor_dv01 \<Rightarrow> bool" where
  "factor_wf p x \<longleftrightarrow> ulid_ok p (ur_unit_id (fx_unit x))"

lemma factor_blocks_inject: "inj_on factor_blocks A"
  by (rule inj_onI)
    (auto simp: factor_blocks_def intro!: factor_dv01.equality unit_ref.equality fixed_decimal.expand
      ulid.expand version.expand)

lemma lineage_blocks_inject: "inj_on lineage_blocks (Collect (lineage_wf p))"
proof (rule inj_onI)
  fix x y
  assume wf: "x \<in> Collect (lineage_wf p)" "y \<in> Collect (lineage_wf p)" and eq: "lineage_blocks x = lineage_blocks y"
  have "hash_bytes h \<noteq> []" for h using length_hash_bytes [of h] by (metis list.size(3) zero_neq_numeral)
  then have hash: "hash_bytes h \<noteq> []" "[] \<noteq> hash_bytes h" for h by (simp, metis)
  have "lr_version x = lr_version y"
    using eq wf by (auto simp: lineage_blocks_def lineage_wf_def split: option.splits intro: version.expand)
  moreover have "lr_content_hash x = lr_content_hash y"
    using eq hash by (auto simp: lineage_blocks_def split: option.splits)
  ultimately show "x = y" using eq by (auto simp: lineage_blocks_def intro!: lineage_ref.equality ulid.expand)
qed

lemma lineage_sequence:
  assumes "concat (map lineage_blocks xs) = concat (map lineage_blocks ys)" "list_all (lineage_wf p) xs" "list_all (lineage_wf p) ys"
  shows "xs = ys"
  using block_sequence [OF lineage_blocks_inject, of 3 "\<lambda>_. True" "\<lambda>r. r \<noteq> []" "[]" "[]" xs p ys] assms
  by (auto simp: lineage_blocks_def list_all_iff)

lemma hash_sequence:
  assumes "map hash_bytes hs @ r = map hash_bytes gs @ s"
    and "r = [] \<or> length (hd r) \<noteq> 32" "s = [] \<or> length (hd s) \<noteq> 32"
  shows "hs = gs \<and> r = s"
proof -
  have "concat (map (\<lambda>h. [hash_bytes h]) hs) = map hash_bytes hs" for hs by (induction hs) simp_all
  then show ?thesis
    using block_sequence [of "\<lambda>h. [hash_bytes h]" UNIV 1 "\<lambda>_. True" "\<lambda>r. r \<noteq> [] \<and> length (hd r) = 32" r s hs gs] assms
    by (auto simp: inj_def)
qed

text \<open>The second block of a factor has 32 bytes, the third 16; a rest where one has not starts no factor.\<close>

lemma factor_sequence:
  assumes "concat (map factor_blocks xs) @ r = concat (map factor_blocks ys) @ s"
    and "(k, n) \<in> {(1, 32), (2, 16)}" "length (r ! k) \<noteq> n" "length (s ! k) \<noteq> n"
  shows "xs = ys \<and> r = s"
proof (rule block_sequence [OF factor_blocks_inject [of UNIV], of 5 "\<lambda>_. True" "\<lambda>r. length (r ! k) = n"])
  show "concat (map factor_blocks xs) @ r = concat (map factor_blocks ys) @ s" by (fact assms(1))
qed (use assms(2-4) in \<open>auto simp: factor_blocks_def\<close>)

section \<open>The hash of a position's exposures\<close>

definition position_exposure_payload :: "position_key_rate_exposure \<Rightarrow> bytes" where
  "position_exposure_payload e =
     position_exposure_bytes (pk_position_id e) (pk_instrument e) (pk_exposures e) (pk_input_evidence_hashes e) (pk_lineage e)"

definition position_exposure_blocks :: "position_key_rate_exposure \<Rightarrow> bytes list" where
  "position_exposure_blocks e =
     [as_bytes (ulid_str (pk_position_id e)), as_bytes (ulid_str (vr_id (pk_instrument e))),
      to_be_bytes (version_get (vr_version (pk_instrument e)))]
     @ concat (map factor_blocks (pk_exposures e)) @ map hash_bytes (pk_input_evidence_hashes e)
     @ concat (map lineage_blocks (pk_lineage e))"

lemma position_payload_blocks: "position_exposure_payload e = concat (map push_bytes (position_exposure_blocks e))"
  by (simp add: position_exposure_payload_def position_exposure_bytes_def position_exposure_blocks_def
      append_factor_blocks append_lineage_blocks concat_map_concat comp_def)

text \<open>An exposure built by the constructor from parts their constructors built.\<close>

definition position_exposure_built ::
  "sha256_fn \<Rightarrow> (string \<Rightarrow> string option) \<Rightarrow> position_key_rate_exposure \<Rightarrow> bool" where
  "position_exposure_built sha256 p e \<longleftrightarrow>
     position_exposure_new sha256 (pk_position_id e) (pk_instrument e) (pk_exposures e)
       (pk_input_evidence_hashes e) (pk_lineage e) = Ok e \<and>
     list_all (factor_wf p) (pk_exposures e) \<and> list_all (lineage_wf p) (pk_lineage e)"

lemma position_exposure_builtD:
  assumes "position_exposure_built sha256 p e"
  shows "pk_exposures e \<noteq> []" "pk_input_evidence_hashes e \<noteq> []" "pk_lineage e \<noteq> []"
    "list_all (factor_wf p) (pk_exposures e)" "list_all (lineage_wf p) (pk_lineage e)"
    "pk_content_hash e = sha256 (position_exposure_payload e)"
  using assms
  by (auto simp: position_exposure_built_def position_exposure_new_def hash_position_def position_exposure_payload_def
      split: if_splits dest: arg_cong [of _ _ pk_content_hash])

lemma lineage_blocks_hd:
  assumes "ls \<noteq> []" "list_all (lineage_wf p) ls"
  obtains i v rest where "concat (map lineage_blocks ls) = i # v # rest" "length i = 26" "length v = 8"
  using assms by (cases ls) (auto simp: lineage_blocks_def lineage_wf_def ulid_ok_iff)

lemma evidence_no_factor:
  assumes "hs \<noteq> []" "ls \<noteq> []" "list_all (lineage_wf p) ls"
  shows "length ((map hash_bytes hs @ concat (map lineage_blocks ls)) ! 2) \<noteq> 16"
proof -
  obtain i v rest where "concat (map lineage_blocks ls) = i # v # rest" "length i = 26" "length v = 8"
    using lineage_blocks_hd [OF assms(2,3)] .
  then show ?thesis using assms(1)
    by (cases hs rule: remdups_adj.cases) (auto simp: nth_append nth_Cons' numeral_2_eq_2)
qed

lemma position_blocks_inject:
  assumes eq: "position_exposure_blocks d = position_exposure_blocks e"
    and built: "position_exposure_built sha256 p d" "position_exposure_built sha256 p e"
  shows "d = e"
proof -
  note d = position_exposure_builtD [OF built(1)] and e = position_exposure_builtD [OF built(2)]
  have ids: "pk_position_id d = pk_position_id e" "pk_instrument d = pk_instrument e"
    and rest: "concat (map factor_blocks (pk_exposures d)) @ map hash_bytes (pk_input_evidence_hashes d)
        @ concat (map lineage_blocks (pk_lineage d)) =
      concat (map factor_blocks (pk_exposures e)) @ map hash_bytes (pk_input_evidence_hashes e)
        @ concat (map lineage_blocks (pk_lineage e))"
    using eq by (auto simp: position_exposure_blocks_def intro!: version_ref.equality ulid.expand version.expand)
  from factor_sequence [OF rest, of 2 16] evidence_no_factor [OF d(2,3,5)] evidence_no_factor [OF e(2,3,5)]
  have factors: "pk_exposures d = pk_exposures e"
    and rest2: "map hash_bytes (pk_input_evidence_hashes d) @ concat (map lineage_blocks (pk_lineage d)) =
      map hash_bytes (pk_input_evidence_hashes e) @ concat (map lineage_blocks (pk_lineage e))" by simp_all
  have "length (hd (concat (map lineage_blocks ls))) \<noteq> 32" if "ls \<noteq> []" "list_all (lineage_wf p) ls" for ls
    using that by (rule lineage_blocks_hd) simp
  then have "pk_input_evidence_hashes d = pk_input_evidence_hashes e"
    and "concat (map lineage_blocks (pk_lineage d)) = concat (map lineage_blocks (pk_lineage e))"
    using hash_sequence [OF rest2] d(3,5) e(3,5) by blast+
  moreover from this(2) have "pk_lineage d = pk_lineage e" using lineage_sequence d(5) e(5) by blast
  ultimately show ?thesis using ids factors d(6) e(6)
    by (intro position_key_rate_exposure.equality) (simp_all add: position_exposure_payload_def)
qed

lemma position_hash_identifies:
  assumes "position_exposure_built sha256 p d" "position_exposure_built sha256 p e"
    and "pk_content_hash d = pk_content_hash e" "length (position_exposure_payload d) < usize_limit"
  shows "d = e \<or> collision sha256 (position_exposure_payload d) (position_exposure_payload e)"
proof (cases "position_exposure_payload d = position_exposure_payload e")
  case True
  then have "position_exposure_blocks d = position_exposure_blocks e"
    using assms(4) blocks_inject unfolding position_payload_blocks by blast
  then show ?thesis using position_blocks_inject assms(1,2) by blast
next
  case False
  then show ?thesis
    using assms(3) position_exposure_builtD(6) [OF assms(1)] position_exposure_builtD(6) [OF assms(2)]
    by (simp add: collision_def)
qed

section \<open>The hash of a portfolio's exposures\<close>

definition portfolio_exposure_blocks :: "portfolio_key_rate_exposure \<Rightarrow> bytes list" where
  "portfolio_exposure_blocks x =
     [as_bytes (ulid_str (px_position_snapshot_id x)), as_bytes (ulid_str (px_curve_snapshot_id x))]
     @ (case px_futures_data_snapshot_id x of
          Some v \<Rightarrow> [as_bytes ''futures_data_snapshot_id'', as_bytes (ulid_str v)]
        | None \<Rightarrow> [])
     @ map hash_bytes (map pk_content_hash (px_positions x))
     @ concat (map factor_blocks (px_totals x))
     @ [as_bytes (ra_algorithm_id (px_algorithm x)), to_be_bytes (ra_algorithm_version (px_algorithm x)),
        as_bytes (ra_convention_profile (px_algorithm x))]
     @ concat (map source_blocks (pss_counts (px_source_confidence x)))
     @ coverage_canonical_bytes (px_coverage x) # concat (map lineage_blocks (px_lineage x))"

lemma portfolio_bytes_blocks: "portfolio_exposure_bytes x = concat (map push_bytes (portfolio_exposure_blocks x))"
proof -
  have "append_source_count = (\<lambda>c. concat (map push_bytes (source_blocks c)))"
    by (rule ext) (simp add: append_source_count_def source_blocks_def)
  then show ?thesis
    by (simp add: portfolio_exposure_bytes_def portfolio_exposure_blocks_def append_factor_blocks append_lineage_blocks
        concat_map_concat comp_def split: option.split)
qed

text \<open>The position hashes end where a factor starts, whatever its name is.\<close>

definition factor_start :: "bytes list \<Rightarrow> bool" where
  "factor_start r \<longleftrightarrow> 3 < length r \<and> length (r ! 1) = 32 \<and> length (r ! 2) = 16 \<and> length (r ! 3) = 26"

lemma factor_start_blocks:
  "xs \<noteq> [] \<Longrightarrow> list_all (factor_wf p) xs \<Longrightarrow> factor_start (concat (map factor_blocks xs) @ r)"
  by (cases xs) (simp_all add: factor_start_def factor_blocks_def factor_wf_def ulid_ok_iff)

lemma no_factor_start: "factor_start r \<Longrightarrow> \<not> factor_start (hash_bytes h # map hash_bytes hs @ r)"
  by (cases hs rule: remdups_adj.cases) (auto simp: factor_start_def nth_Cons' nth_append numeral_2_eq_2 numeral_3_eq_3)

lemma hashes_then_factors:
  assumes "map hash_bytes hs @ r = map hash_bytes gs @ s" "factor_start r" "factor_start s"
  shows "hs = gs \<and> r = s"
proof -
  let ?e = "\<lambda>h. [hash_bytes h]" and ?R = "\<lambda>r. \<exists>hs t. r = map hash_bytes hs @ t \<and> factor_start t"
  have seq: "concat (map ?e hs) = map hash_bytes hs" for hs by (induction hs) simp_all
  have step: "?R (?e h @ r) \<and> \<not> factor_start (?e h @ r)" if R: "?R r" for h r
  proof -
    obtain hs t where r: "r = map hash_bytes hs @ t" and t: "factor_start t" using R by blast
    have "?e h @ r = map hash_bytes (h # hs) @ t" by (simp add: r)
    with t no_factor_start [OF t, of h hs] show ?thesis by (metis Cons_eq_appendI append_Nil list.simps(9))
  qed
  have rests: "?R r" "?R s" using assms(2,3) by (metis append_Nil list.simps(8))+
  have "inj_on ?e UNIV" by (simp add: inj_def)
  from block_sequence [OF this, of 1 ?R "\<lambda>r. \<not> factor_start r" r s hs gs] step rests assms seq
  show ?thesis by simp
qed

lemma source_sequence:
  assumes "concat (map source_blocks xs) @ b # r = concat (map source_blocks ys) @ c # s"
    and "length b \<noteq> 1" "length c \<noteq> 1"
  shows "xs = ys \<and> b # r = c # s"
proof -
  have "inj_on source_blocks UNIV"
    by (rule inj_onI) (auto simp: source_blocks_def intro!: price_source_count.equality)
  from block_sequence [OF this, of 2 "\<lambda>_. True" "\<lambda>r. length (hd r) = 1" "b # r" "c # s" xs ys] assms
  show ?thesis by (simp add: source_blocks_def)
qed

lemma coverage_bytes_long: "length (coverage_canonical_bytes c) \<noteq> 1"
  by (simp add: coverage_canonical_bytes_def)

text \<open>An exposure built by one of the two constructors, from parts their constructors built.\<close>

definition portfolio_exposure_built ::
  "sha256_fn \<Rightarrow> (string \<Rightarrow> string option) \<Rightarrow> portfolio_key_rate_exposure \<Rightarrow> bool" where
  "portfolio_exposure_built sha256 p x \<longleftrightarrow>
     (case px_futures_data_snapshot_id x of
        None \<Rightarrow>
          portfolio_exposure_new sha256 (px_position_snapshot_id x) (px_curve_snapshot_id x) (px_positions x)
            (px_algorithm x) (px_source_confidence x, px_coverage x) (px_lineage x) = Ok x
      | Some f \<Rightarrow>
          portfolio_exposure_new_with_futures sha256 (px_position_snapshot_id x) (px_curve_snapshot_id x) f
            (px_positions x) (px_algorithm x) (px_source_confidence x, px_coverage x) (px_lineage x) = Ok x) \<and>
     list_all (position_exposure_built sha256 p) (px_positions x) \<and> list_all (lineage_wf p) (px_lineage x)"

lemma portfolio_exposure_inner:
  assumes "portfolio_exposure_built sha256 p x"
  shows "portfolio_exposure_new_inner sha256 (px_position_snapshot_id x) (px_curve_snapshot_id x)
      (px_futures_data_snapshot_id x) (px_positions x) (px_algorithm x)
      (px_source_confidence x, px_coverage x) (px_lineage x) = Ok x"
  using assms
  by (auto simp: portfolio_exposure_built_def portfolio_exposure_new_def portfolio_exposure_new_with_futures_def
      Let_def result_simps split: option.splits if_splits)

lemma portfolio_exposure_builtD:
  assumes "portfolio_exposure_built sha256 p x"
  shows "px_positions x \<noteq> []" "aggregate_bond_key_rate_exposures (px_positions x) = Ok (px_totals x)"
    "px_content_hash x = sha256 (portfolio_exposure_bytes x)"
    "list_all (position_exposure_built sha256 p) (px_positions x)" "list_all (lineage_wf p) (px_lineage x)"
proof -
  note inner = portfolio_exposure_inner [OF assms]
  then show "px_positions x \<noteq> []"
    by (auto simp: portfolio_exposure_new_inner_def Let_def result_simps split: if_splits)
  obtain totals where totals: "aggregate_bond_key_rate_exposures (px_positions x) = Ok totals"
    and x: "x = (let y = \<lparr>px_position_snapshot_id = px_position_snapshot_id x, px_curve_snapshot_id = px_curve_snapshot_id x,
        px_futures_data_snapshot_id = px_futures_data_snapshot_id x, px_positions = px_positions x,
        px_totals = totals, px_algorithm = px_algorithm x, px_source_confidence = px_source_confidence x,
        px_coverage = px_coverage x, px_content_hash = zero_hash, px_lineage = px_lineage x\<rparr>
      in y\<lparr>px_content_hash := sha256 (portfolio_exposure_bytes y)\<rparr>)"
    using inner by (auto simp: portfolio_exposure_new_inner_def Let_def result_simps split: if_splits)
  from x have "px_totals x = totals" by (metis (no_types, lifting) portfolio_key_rate_exposure.select_convs(5)
        portfolio_key_rate_exposure.update_convs(9))
  with totals show "aggregate_bond_key_rate_exposures (px_positions x) = Ok (px_totals x)" by simp
  show "list_all (position_exposure_built sha256 p) (px_positions x)" "list_all (lineage_wf p) (px_lineage x)"
    using assms by (simp_all add: portfolio_exposure_built_def)
  have "portfolio_exposure_bytes (y\<lparr>px_content_hash := h\<rparr>) = portfolio_exposure_bytes y" for y h
    by (simp add: portfolio_exposure_bytes_def)
  with x show "px_content_hash x = sha256 (portfolio_exposure_bytes x)"
    by (metis (no_types, lifting) portfolio_key_rate_exposure.select_convs(9) portfolio_key_rate_exposure.update_convs(9))
qed

lemma totals_wf:
  assumes "portfolio_exposure_built sha256 p x"
  shows "px_totals x \<noteq> []" "list_all (factor_wf p) (px_totals x)"
proof -
  note x = portfolio_exposure_builtD [OF assms]
  obtain e es where es: "px_positions x = e # es" using x(1) by (cases "px_positions x") auto
  then have "try_fold add_position_exposures es (pk_exposures e) = Ok (px_totals x)"
    using x(2) by (simp add: aggregate_bond_key_rate_exposures_def)
  then have keys: "map factor_key (px_totals x) = map factor_key (pk_exposures e)" using totals_fold_Ok by blast
  have e: "pk_exposures e \<noteq> []" "list_all (factor_wf p) (pk_exposures e)"
    using x(4) es position_exposure_builtD [of sha256 p e] by simp_all
  show "px_totals x \<noteq> []" using e(1) keys by auto
  have "map (ur_unit_id \<circ> snd \<circ> snd) (map factor_key (px_totals x)) =
      map (ur_unit_id \<circ> snd \<circ> snd) (map factor_key (pk_exposures e))" by (simp only: keys)
  then have "map (\<lambda>t. ur_unit_id (fx_unit t)) (px_totals x) = map (\<lambda>t. ur_unit_id (fx_unit t)) (pk_exposures e)"
    by (simp add: factor_key_def comp_def)
  moreover have "list_all (factor_wf p) ts \<longleftrightarrow> list_all (ulid_ok p) (map (\<lambda>t. ur_unit_id (fx_unit t)) ts)" for ts
    by (simp add: list.pred_map factor_wf_def [abs_def] comp_def)
  ultimately show "list_all (factor_wf p) (px_totals x)" using e(2) by metis
qed

lemma optional_snapshot:
  assumes "(case f of Some v \<Rightarrow> [as_bytes ''futures_data_snapshot_id'', as_bytes (ulid_str v)] | None \<Rightarrow> []) @ h # r =
      (case g of Some v \<Rightarrow> [as_bytes ''futures_data_snapshot_id'', as_bytes (ulid_str v)] | None \<Rightarrow> []) @ k # s"
    and "length h = 32" "length k = 32"
  shows "f = g \<and> h # r = k # s"
  using assms by (auto split: option.splits intro: ulid.expand)

lemma portfolio_blocks_split:
  assumes eq: "portfolio_exposure_blocks x = portfolio_exposure_blocks y"
    and built: "portfolio_exposure_built sha256 p x" "portfolio_exposure_built sha256 p y"
  shows "px_position_snapshot_id x = px_position_snapshot_id y \<and> px_curve_snapshot_id x = px_curve_snapshot_id y \<and>
    px_futures_data_snapshot_id x = px_futures_data_snapshot_id y \<and>
    map pk_content_hash (px_positions x) = map pk_content_hash (px_positions y) \<and> px_totals x = px_totals y \<and>
    px_algorithm x = px_algorithm y \<and> px_source_confidence x = px_source_confidence y \<and>
    coverage_canonical_bytes (px_coverage x) = coverage_canonical_bytes (px_coverage y) \<and> px_lineage x = px_lineage y"
proof -
  define tail where "tail z = coverage_canonical_bytes (px_coverage z) # concat (map lineage_blocks (px_lineage z))"
    for z :: portfolio_key_rate_exposure
  define alg where "alg z = [as_bytes (ra_algorithm_id (px_algorithm z)), to_be_bytes (ra_algorithm_version (px_algorithm z)),
      as_bytes (ra_convention_profile (px_algorithm z))] @ concat (map source_blocks (pss_counts (px_source_confidence z))) @ tail z"
    for z :: portfolio_key_rate_exposure
  define body where "body z = map hash_bytes (map pk_content_hash (px_positions z)) @ concat (map factor_blocks (px_totals z)) @ alg z"
    for z :: portfolio_key_rate_exposure
  have blocks: "portfolio_exposure_blocks z =
      [as_bytes (ulid_str (px_position_snapshot_id z)), as_bytes (ulid_str (px_curve_snapshot_id z))]
      @ (case px_futures_data_snapshot_id z of
          Some v \<Rightarrow> [as_bytes ''futures_data_snapshot_id'', as_bytes (ulid_str v)]
        | None \<Rightarrow> []) @ body z" for z
    by (simp add: portfolio_exposure_blocks_def body_def alg_def tail_def)
  have ids: "px_position_snapshot_id x = px_position_snapshot_id y" "px_curve_snapshot_id x = px_curve_snapshot_id y"
    using eq unfolding blocks by (auto intro: ulid.expand)
  have first: "\<exists>h r. body z = h # r \<and> length h = 32" if "portfolio_exposure_built sha256 p z" for z
    using portfolio_exposure_builtD(1) [OF that] by (cases "px_positions z") (simp_all add: body_def)
  obtain h r k s where hk: "body x = h # r" "length h = 32" "body y = k # s" "length k = 32" using first built by meson
  have futures: "px_futures_data_snapshot_id x = px_futures_data_snapshot_id y" and body: "body x = body y"
    using optional_snapshot [of _ h r _ k s] hk eq unfolding blocks by auto
  have "factor_start (concat (map factor_blocks (px_totals z)) @ alg z)" if "portfolio_exposure_built sha256 p z" for z
    using factor_start_blocks totals_wf [OF that] by blast
  with hashes_then_factors [OF body [unfolded body_def]] built
  have hashes: "map pk_content_hash (px_positions x) = map pk_content_hash (px_positions y)"
    and rest: "concat (map factor_blocks (px_totals x)) @ alg x = concat (map factor_blocks (px_totals y)) @ alg y" by blast+
  from factor_sequence [OF rest, of 1 32] have totals: "px_totals x = px_totals y" and alg: "alg x = alg y"
    by (simp_all add: alg_def)
  have algorithm: "px_algorithm x = px_algorithm y"
    and sources: "concat (map source_blocks (pss_counts (px_source_confidence x))) @ tail x =
      concat (map source_blocks (pss_counts (px_source_confidence y))) @ tail y"
    using alg by (auto simp: alg_def intro!: risk_algorithm_binding.equality)
  have "pss_counts (px_source_confidence x) = pss_counts (px_source_confidence y)" and tail: "tail x = tail y"
    using source_sequence [OF sources [unfolded tail_def] coverage_bytes_long coverage_bytes_long] by (simp_all add: tail_def)
  then have "px_source_confidence x = px_source_confidence y" by (intro price_source_summary.equality) simp_all
  moreover have "concat (map lineage_blocks (px_lineage x)) = concat (map lineage_blocks (px_lineage y))"
    using tail by (simp add: tail_def)
  then have "px_lineage x = px_lineage y"
    using portfolio_exposure_builtD(5) [OF built(1)] portfolio_exposure_builtD(5) [OF built(2)] by (rule lineage_sequence)
  ultimately show ?thesis using ids futures hashes totals algorithm tail by (simp add: tail_def)
qed

lemma positions_of_hashes:
  assumes "map pk_content_hash ds = map pk_content_hash es"
    and "list_all (position_exposure_built sha256 p) ds" "list_all (position_exposure_built sha256 p) es"
    and "\<forall>d \<in> set ds. length (position_exposure_payload d) < usize_limit"
  shows "ds = es \<or> (\<exists>d \<in> set ds. \<exists>e \<in> set es. collision sha256 (position_exposure_payload d) (position_exposure_payload e))"
proof -
  have "length ds = length es" using assms(1) by (metis length_map)
  then show ?thesis using assms
  proof (induction ds es rule: list_induct2)
    case (Cons d ds e es)
    then have "d = e \<or> collision sha256 (position_exposure_payload d) (position_exposure_payload e)"
      by (intro position_hash_identifies [of sha256 p]) simp_all
    with Cons show ?case by auto
  qed simp
qed

text \<open>
  C24: the content hash of a portfolio's exposures identifies the whole result. Two exposures
  built by the constructors with the same hash are equal in every field, the positions, the
  totals, the algorithm, the coverage and the lineage included, unless SHA-256 collides on the
  payloads of the portfolios or of two of their positions. This holds although position hashes,
  factors, source counts and lineage are written one after the other without counts, and factor
  names are arbitrary. Sums of gross values that exist are exact.
\<close>

theorem exposure_hash_identifies:
  assumes "portfolio_exposure_built sha256 p x" "portfolio_exposure_built sha256 p y"
    and "exact_sums ops" "coverage_constructed ops (px_coverage x)" "coverage_constructed ops (px_coverage y)"
    and "px_content_hash x = px_content_hash y" "length (portfolio_exposure_bytes x) < usize_limit"
    and "\<forall>d \<in> set (px_positions x). length (position_exposure_payload d) < usize_limit"
  shows "x = y \<or> collision sha256 (portfolio_exposure_bytes x) (portfolio_exposure_bytes y) \<or>
    (\<exists>d \<in> set (px_positions x). \<exists>e \<in> set (px_positions y).
       collision sha256 (position_exposure_payload d) (position_exposure_payload e))"
proof (cases "portfolio_exposure_bytes x = portfolio_exposure_bytes y")
  case True
  then have "portfolio_exposure_blocks x = portfolio_exposure_blocks y"
    using assms(7) blocks_inject unfolding portfolio_bytes_blocks by blast
  note parts = portfolio_blocks_split [OF this assms(1,2)]
  have "length (coverage_canonical_bytes (px_coverage x)) < usize_limit"
    using assms(7) by (simp add: portfolio_exposure_bytes_def)
  then have coverage: "px_coverage x = px_coverage y"
    using coverage_bytes_inject coverage_constructed_wf parts assms(3,4,5) by blast
  have "px_positions x = px_positions y \<or> (\<exists>d \<in> set (px_positions x). \<exists>e \<in> set (px_positions y).
       collision sha256 (position_exposure_payload d) (position_exposure_payload e))"
    using parts portfolio_exposure_builtD(4) assms(1,2,8) by (intro positions_of_hashes [of _ _ sha256 p]) blast+
  moreover have "x = y" if "px_positions x = px_positions y"
    using that coverage parts assms(6) by (intro portfolio_key_rate_exposure.equality) simp_all
  ultimately show ?thesis by blast
next
  case False
  then show ?thesis
    using assms(6) portfolio_exposure_builtD(3) [OF assms(1)] portfolio_exposure_builtD(3) [OF assms(2)]
    by (simp add: collision_def)
qed

text \<open>Witnesses: two positions in one factor.\<close>

definition sample_factor :: "i128 \<Rightarrow> factor_dv01" where
  "sample_factor v = \<lparr>fx_factor_id = ''CNY-1Y'', fx_factor_definition_hash = zero_hash, fx_value = FixedDecimal v, fx_unit = sample_unit\<rparr>"

definition sample_exposure_lineage :: lineage_ref where
  "sample_exposure_lineage = \<lparr>lr_object_id = Ulid (replicate 26 CHR ''5''), lr_version = Some (Version 1), lr_content_hash = None\<rparr>"

definition sample_exposure :: "char \<Rightarrow> i128 \<Rightarrow> position_key_rate_exposure" where
  "sample_exposure c v =
     \<lparr>pk_position_id = Ulid (replicate 26 c), pk_instrument = \<lparr>vr_id = Ulid (replicate 26 CHR ''7''), vr_version = Version 1\<rparr>,
      pk_exposures = [sample_factor v], pk_input_evidence_hashes = [zero_hash], pk_content_hash = zero_hash,
      pk_lineage = [sample_exposure_lineage]\<rparr>"

definition sample_summary :: price_source_summary where
  "sample_summary = \<lparr>pss_counts = [\<lparr>psc_source_type = CurveInterpolation, psc_record_count = 1\<rparr>]\<rparr>"

definition sample_portfolio_exposure :: "i128 \<Rightarrow> portfolio_key_rate_exposure" where
  "sample_portfolio_exposure v =
     \<lparr>px_position_snapshot_id = Ulid (replicate 26 CHR ''1''), px_curve_snapshot_id = Ulid (replicate 26 CHR ''2''),
      px_futures_data_snapshot_id = None, px_positions = [sample_exposure CHR ''1'' v], px_totals = [sample_factor v],
      px_algorithm = \<lparr>ra_algorithm_id = ''krd'', ra_algorithm_version = 1, ra_convention_profile = ''cgb''\<rparr>,
      px_source_confidence = sample_summary, px_coverage = sample_coverage\<lparr>cd_source_confidence := Some sample_summary\<rparr>,
      px_content_hash = zero_hash, px_lineage = [sample_exposure_lineage]\<rparr>"

lemma exposure_totals_witness:
  "\<exists>totals. aggregate_bond_key_rate_exposures [sample_exposure CHR ''1'' 5, sample_exposure CHR ''2'' (- 3)] = Ok totals \<and>
     map factor_key totals = [factor_key (sample_factor 5)] \<and> factor_int (totals ! 0) = 2"
proof -
  let ?ps = "[sample_exposure CHR ''1'' 5, sample_exposure CHR ''2'' (- 3)]"
  note totals = exposure_totals [of ?ps "[factor_key (sample_factor 5)]"]
  then obtain ts where ts: "aggregate_bond_key_rate_exposures ?ps = Ok ts" "map factor_key ts = [factor_key (sample_factor 5)]"
    by (auto simp: sample_exposure_def sample_factor_def factor_key_def factor_int_def)
  then have "length ts = 1" by (auto dest: arg_cong [of _ _ length])
  then have "factor_int (ts ! 0) = (\<Sum>p \<leftarrow> ?ps. factor_int (pk_exposures p ! 0))"
    using conjunct1 [OF totals, rule_format, OF ts(1), THEN conjunct2, THEN conjunct2] by (metis zero_less_one)
  also have "\<dots> = 2" by (simp add: sample_exposure_def sample_factor_def factor_int_def)
  finally show ?thesis using ts by (intro exI [of _ ts] conjI)
qed

lemma sample_exposure_built: "position_exposure_built (\<lambda>_. zero_hash) Some (sample_exposure c v)"
  by (simp add: position_exposure_built_def position_exposure_new_def sample_exposure_def hash_position_def
      factor_wf_def lineage_wf_def sample_factor_def sample_exposure_lineage_def sample_unit_def ulid_ok_iff is_ascii_def list_all_iff)

lemma sample_portfolio_built: "portfolio_exposure_built (\<lambda>_. zero_hash) Some (sample_portfolio_exposure v)"
  using sample_exposure_built [of "CHR ''1''" v]
  by (simp add: portfolio_exposure_built_def sample_portfolio_exposure_def portfolio_exposure_new_def
      portfolio_exposure_new_inner_def u64_of_len_def price_source_count_new_def price_source_summary_new_def
      sample_summary_def sample_coverage_def aggregate_bond_key_rate_exposures_def lineage_wf_def sample_exposure_lineage_def
      ulid_ok_iff is_ascii_def list_all_iff) (simp add: sample_exposure_def)

lemma sample_portfolio_coverage: "coverage_constructed checked_ops (px_coverage (sample_portfolio_exposure v))"
proof -
  have "for_complete_positions checked_ops sample_positions sample_ids (Some sample_summary) 0 =
      Some (Ok (px_coverage (sample_portfolio_exposure v)))"
    using sample_complete
    by (simp add: for_complete_positions_Ok [OF exact_checked_ops sample_distinct] sample_portfolio_exposure_def
        validate_source_confidence_def sample_summary_def)
  then show ?thesis unfolding coverage_constructed_def using sample_distinct by blast
qed

lemma exposure_hash_identifies_witness:
  "sample_portfolio_exposure 5 = sample_portfolio_exposure 7 \<or>
   collision (\<lambda>_. zero_hash) (portfolio_exposure_bytes (sample_portfolio_exposure 5)) (portfolio_exposure_bytes (sample_portfolio_exposure 7)) \<or>
   (\<exists>d \<in> set (px_positions (sample_portfolio_exposure 5)). \<exists>e \<in> set (px_positions (sample_portfolio_exposure 7)).
      collision (\<lambda>_. zero_hash) (position_exposure_payload d) (position_exposure_payload e))"
proof (rule exposure_hash_identifies [OF sample_portfolio_built sample_portfolio_built exact_checked_ops
      sample_portfolio_coverage sample_portfolio_coverage])
  note samples = append_factor_def exposure_append_lineage_def sample_factor_def sample_unit_def
    sample_exposure_lineage_def sample_exposure_def sample_portfolio_exposure_def
  show "px_content_hash (sample_portfolio_exposure 5) = px_content_hash (sample_portfolio_exposure 7)" by (simp add: samples)
  show "length (portfolio_exposure_bytes (sample_portfolio_exposure 5)) < usize_limit"
    by (simp add: samples portfolio_exposure_bytes_def sample_summary_def sample_coverage_def append_source_count_def
        coverage_canonical_bytes_def append_amounts_def append_amount_def sample_amount_def)
  show "\<forall>d \<in> set (px_positions (sample_portfolio_exposure 5)). length (position_exposure_payload d) < usize_limit"
    by (simp add: samples position_exposure_payload_def position_exposure_bytes_def)
qed

end
