(* ===== verification/Data_Health.thy ===== *)
theory Data_Health
  imports Coverage "HOL-Library.Option_ord"
begin

text \<open>
  Data health (\<open>ficant-domain/src/research/data_health.rs\<close>): threshold profiles, the evaluation of a
  position snapshot against a profile, and the health report with its canonical bytes. The theory
  shows which issues a report raises, that the evaluation of a verified snapshot returns, and for
  which thresholds it panics.

  The durations of the \<open>chrono\<close> crate are the parameter \<open>duration_ops\<close>; a duration js its number
  of nanoseconds. \<open>ds\<close> js the text form of a date.
\<close>

section \<open>Durations\<close>

text \<open>
  \<open>signed_duration_since\<close> (the later instant first), \<open>num_seconds\<close>, and \<open>TimeDelta::seconds\<close>, which
  panics out of bounds (\<open>None\<close>).
\<close>

record duration_ops =
  du_since :: "utc_instant \<Rightarrow> utc_instant \<Rightarrow> int"
  du_num_seconds :: "int \<Rightarrow> int"
  du_seconds :: "int \<Rightarrow> int option"

record measured_age =
  ea_duration :: int
  ea_display_seconds :: u64

definition elapsed_age :: "duration_ops \<Rightarrow> market_time \<Rightarrow> market_time \<Rightarrow> measured_age run" where
  "elapsed_age du earlier later =
     (let duration = du_since du (mt_instant later) (mt_instant earlier) in
      if duration < 0 then Some (Err InvalidEffectiveTime)
      else
        let floor_seconds = du_num_seconds du duration in
        case du_seconds du floor_seconds of
          None \<Rightarrow> None
        | Some floor_duration \<Rightarrow>
            let display = floor_seconds + (if duration > floor_duration then 1 else 0) in
            if display < 2 ^ 63 \<and> 0 \<le> display
            then Some (Ok \<lparr>ea_duration = duration, ea_display_seconds = word_of_int display\<rparr>)
            else Some (Err InvalidEffectiveTime))"

text \<open>\<open>exceeds\<close> js \<open>None\<close> when \<open>TimeDelta::seconds\<close> panics.\<close>

definition age_exceeds :: "duration_ops \<Rightarrow> measured_age \<Rightarrow> u64 \<Rightarrow> bool run" where
  "age_exceeds du age threshold_seconds =
     (if unat threshold_seconds < 2 ^ 63
      then map_option (\<lambda>d. Ok (ea_duration age > d)) (du_seconds du (int (unat threshold_seconds)))
      else Some (Ok False))"

section \<open>Threshold profiles\<close>

record threshold_profile =
  tp_profile_snapshot_id :: ulid
  tp_owner :: owner_ref
  tp_profile_ref :: version_ref
  tp_visible_at :: market_time
  tp_effective_from :: market_time
  tp_effective_to :: market_time
  tp_max_position_snapshot_age_seconds :: u64
  tp_unknown_accounting_warning_basis_points :: u32
  tp_max_data_snapshot_age_seconds :: u64
  tp_model_valuation_warning_basis_points :: u32
  tp_content_hash :: content_hash
  tp_lineage :: "lineage_ref list"

definition health_append_owner :: "owner_ref \<Rightarrow> bytes" where
  "health_append_owner owner =
     push_bytes (as_bytes (ulid_str (tenant_id owner))) @ push_bytes (as_bytes (ulid_str (owner_id owner)))"

definition health_append_version_ref :: "version_ref \<Rightarrow> bytes" where
  "health_append_version_ref r =
     push_bytes (as_bytes (ulid_str (vr_id r))) @ push_bytes (to_be_bytes (version_get (vr_version r)))"

definition append_optional_version_ref :: "version_ref option \<Rightarrow> bytes" where
  "append_optional_version_ref r =
     (case r of Some reference \<Rightarrow> push_bytes [1] @ health_append_version_ref reference | None \<Rightarrow> push_bytes [0])"

definition append_optional_id :: "ulid option \<Rightarrow> bytes" where
  "append_optional_id v =
     (case v of Some i \<Rightarrow> push_bytes [1] @ push_bytes (as_bytes (ulid_str i)) | None \<Rightarrow> push_bytes [0])"

definition append_optional_hash :: "content_hash option \<Rightarrow> bytes" where
  "append_optional_hash v =
     (case v of Some h \<Rightarrow> push_bytes [1] @ push_bytes (hash_bytes h) | None \<Rightarrow> push_bytes [0])"

definition append_time :: "(naive_date \<Rightarrow> string) \<Rightarrow> market_time \<Rightarrow> bytes" where
  "append_time ds t =
     push_bytes (to_be_bytes (timestamp (mt_instant t)))
     @ push_bytes (to_be_bytes (timestamp_subsec_nanos (mt_instant t)))
     @ push_bytes (as_bytes (mt_timezone t)) @ push_bytes (as_bytes (ds (mt_local_date t)))"

definition health_append_lineage :: "lineage_ref \<Rightarrow> bytes" where
  "health_append_lineage l =
     push_bytes (as_bytes (ulid_str (lr_object_id l)))
     @ (case lr_version l of
          Some v \<Rightarrow> push_bytes [1] @ push_bytes (to_be_bytes (version_get v))
        | None \<Rightarrow> push_bytes [0])
     @ append_optional_hash (lr_content_hash l)"

text \<open>
  The input of the constructor has the fields of the profile, the claimed content hash included;
  the bytes do not depend on it.
\<close>

definition profile_canonical_bytes :: "(naive_date \<Rightarrow> string) \<Rightarrow> threshold_profile \<Rightarrow> bytes" where
  "profile_canonical_bytes ds input =
     push_bytes (as_bytes ''ficant.research.data-health-threshold-profile.v1'')
     @ push_bytes (as_bytes (ulid_str (tp_profile_snapshot_id input)))
     @ health_append_owner (tp_owner input)
     @ health_append_version_ref (tp_profile_ref input)
     @ append_time ds (tp_visible_at input)
     @ append_time ds (tp_effective_from input)
     @ append_time ds (tp_effective_to input)
     @ push_bytes (to_be_bytes (tp_max_position_snapshot_age_seconds input))
     @ push_bytes (to_be_bytes (tp_unknown_accounting_warning_basis_points input))
     @ push_bytes (to_be_bytes (tp_max_data_snapshot_age_seconds input))
     @ push_bytes (to_be_bytes (tp_model_valuation_warning_basis_points input))
     @ concat (map health_append_lineage (tp_lineage input))"

definition threshold_profile_new ::
  "sha256_fn \<Rightarrow> (naive_date \<Rightarrow> string) \<Rightarrow> threshold_profile \<Rightarrow> threshold_profile domain_result" where
  "threshold_profile_new sha256 ds input =
     (if \<not> (1 \<le> tp_unknown_accounting_warning_basis_points input
              \<and> tp_unknown_accounting_warning_basis_points input \<le> 10000)
        \<or> \<not> (1 \<le> tp_model_valuation_warning_basis_points input
              \<and> tp_model_valuation_warning_basis_points input \<le> 10000)
        \<or> mt_instant (tp_effective_from input) \<ge> mt_instant (tp_effective_to input)
        \<or> mt_instant (tp_visible_at input) \<ge> mt_instant (tp_effective_to input)
      then Err InvalidValue
      else if sha256 (profile_canonical_bytes ds input) \<noteq> tp_content_hash input then Err ContentHashMismatch
      else Ok input)"

section \<open>Issues\<close>

datatype data_health_state = Healthy | Warning

datatype position_set_state = NonEmpty | VerifiedEmpty

datatype data_health_issue_code =
    EmptyPositions
  | UnknownAccountingClassification
  | StalePositionSnapshot
  | UntypedPriceSource
  | ModelValuationShare
  | StaleDataSnapshot

fun issue_code :: "data_health_issue_code \<Rightarrow> u8" where
  "issue_code EmptyPositions = 1"
| "issue_code UnknownAccountingClassification = 2"
| "issue_code StalePositionSnapshot = 3"
| "issue_code UntypedPriceSource = 4"
| "issue_code ModelValuationShare = 5"
| "issue_code StaleDataSnapshot = 6"

record data_health_issue =
  di_code :: data_health_issue_code
  di_affected_position_ids :: "ulid list"
  di_data_source_ref :: "version_ref option"
  di_record_count :: u64
  di_ratio_basis_points :: u32
  di_observed_age_seconds :: u64

definition data_health_issue_new ::
  "data_health_issue_code \<Rightarrow> ulid list \<Rightarrow> version_ref option \<Rightarrow> u64 \<Rightarrow> u32 \<Rightarrow> u64 \<Rightarrow>
   data_health_issue domain_result" where
  "data_health_issue_new code ids source record_count ratio age =
     (if windows2_any (\<lambda>a b. a \<ge> b) ids then Err InvalidValue
      else
        and_then (case code of
            EmptyPositions \<Rightarrow>
              require (ids = [] \<and> source = None \<and> record_count = 0 \<and> ratio = 0 \<and> age = 0) InvalidValue
          | UnknownAccountingClassification \<Rightarrow>
              and_then (require (ids \<noteq> [] \<and> source = None) InvalidValue) (\<lambda>_.
              and_then (u64_of_len (length ids)) (\<lambda>n.
              require (record_count = n \<and> ratio \<noteq> 0 \<and> age = 0) InvalidValue))
          | StalePositionSnapshot \<Rightarrow>
              require (ids = [] \<and> source = None \<and> record_count = 0 \<and> ratio = 0 \<and> age \<noteq> 0) InvalidValue
          | UntypedPriceSource \<Rightarrow>
              require (ids = [] \<and> source \<noteq> None \<and> record_count \<noteq> 0 \<and> ratio = 0 \<and> age = 0) InvalidValue
          | ModelValuationShare \<Rightarrow>
              require (ids = [] \<and> source \<noteq> None \<and> record_count \<noteq> 0 \<and> ratio \<noteq> 0 \<and> age = 0) InvalidValue
          | StaleDataSnapshot \<Rightarrow>
              require (ids = [] \<and> source \<noteq> None \<and> record_count = 0 \<and> ratio = 0 \<and> age \<noteq> 0) InvalidValue) (\<lambda>_.
        Ok \<lparr>di_code = code, di_affected_position_ids = ids, di_data_source_ref = source,
            di_record_count = record_count, di_ratio_basis_points = ratio, di_observed_age_seconds = age\<rparr>))"

text \<open>The comparators as keys: \<open>sort_by\<close> js a stable sort.\<close>

definition issue_key ::
  "data_health_issue \<Rightarrow> u8 \<times> string list \<times> (string \<times> u64) option" where
  "issue_key i =
     (issue_code (di_code i), map ulid_str (di_affected_position_ids i),
      map_option (\<lambda>r. (ulid_str (vr_id r), version_get (vr_version r))) (di_data_source_ref i))"

definition lineage_key :: "lineage_ref \<Rightarrow> string \<times> u64 option \<times> bytes option" where
  "lineage_key l =
     (ulid_str (lr_object_id l), map_option version_get (lr_version l), map_option hash_bytes (lr_content_hash l))"

section \<open>Ratios\<close>

definition BASIS_POINTS_DENOMINATOR :: nat where
  "BASIS_POINTS_DENOMINATOR = 10000"

definition checked_mul_u64 :: "nat \<Rightarrow> nat \<Rightarrow> nat option" where
  "checked_mul_u64 a b = (if a * b < 2 ^ 64 then Some (a * b) else None)"

definition ratio_reaches_threshold :: "nat \<Rightarrow> nat \<Rightarrow> u32 \<Rightarrow> bool domain_result" where
  "ratio_reaches_threshold record_count total_count threshold =
     (if total_count = 0 then Err InvalidValue
      else
        and_then (u64_of_len record_count) (\<lambda>c.
        and_then (u64_of_len total_count) (\<lambda>t.
        and_then (ok_or (checked_mul_u64 (unat c) BASIS_POINTS_DENOMINATOR) InvalidValue) (\<lambda>left.
        and_then (ok_or (checked_mul_u64 (unat t) (unat threshold)) InvalidValue) (\<lambda>right.
        Ok (left \<ge> right))))))"

text \<open>The division panics for a total of 0.\<close>

definition ratio_basis_points :: "nat \<Rightarrow> nat \<Rightarrow> u32 run" where
  "ratio_basis_points record_count total_count =
     run_then (Some (u64_of_len record_count)) (\<lambda>c.
     run_then (Some (u64_of_len total_count)) (\<lambda>t.
     run_then (Some (ok_or (checked_mul_u64 (unat c) BASIS_POINTS_DENOMINATOR) InvalidValue)) (\<lambda>product.
     if t = 0 then None
     else
       let v = product div unat t in
       if v < 2 ^ 32 then Some (Ok (word_of_nat v)) else Some (Err InvalidValue))))"

section \<open>The evaluation of a position snapshot\<close>

record position_health_evaluation =
  he_position_snapshot_hash :: content_hash
  he_evaluated_at :: market_time
  he_threshold_profile_ref :: version_ref
  he_threshold_profile_hash :: content_hash
  he_position_set_state :: position_set_state
  he_issues :: "data_health_issue list"
  he_coverage :: coverage_declaration

definition unknown_position_ids :: "position_snapshot \<Rightarrow> ulid list" where
  "unknown_position_ids snapshot =
     map po_position_id
       (filter (\<lambda>p. ac_state (po_accounting_classification p) = UnknownState) (ps_positions snapshot))"

text \<open>The first part: the set state, the coverage and the issues about the positions themselves.\<close>

definition evaluate_position_set ::
  "'d sum_ops \<Rightarrow> position_snapshot \<Rightarrow> threshold_profile \<Rightarrow>
   (position_set_state \<times> coverage_declaration \<times> data_health_issue list) run" where
  "evaluate_position_set ops snapshot profile =
     (if ps_positions snapshot = []
      then
        run_then (Some (data_health_issue_new EmptyPositions [] None 0 0 0)) (\<lambda>issue.
        Some (Ok (VerifiedEmpty, for_verified_empty \<lparr>ve_content_hash = ps_content_hash snapshot\<rparr>, [issue])))
      else
        let position_ids = map po_position_id (ps_positions snapshot);
            unknown_ids = unknown_position_ids snapshot
        in
          run_then (if unknown_ids = [] then Some (Ok False)
                    else Some (ratio_reaches_threshold (length unknown_ids) (length (ps_positions snapshot))
                           (tp_unknown_accounting_warning_basis_points profile))) (\<lambda>reached.
          run_then (if reached
                    then
                      run_then (Some (u64_of_len (length unknown_ids))) (\<lambda>count.
                      run_then (ratio_basis_points (length unknown_ids) (length (ps_positions snapshot))) (\<lambda>ratio.
                      run_then (Some (data_health_issue_new UnknownAccountingClassification unknown_ids None count ratio 0))
                        (\<lambda>issue. Some (Ok [issue]))))
                    else Some (Ok [])) (\<lambda>issues.
          run_then (for_complete_positions ops (ps_positions snapshot) position_ids None 0) (\<lambda>coverage.
          Some (Ok (NonEmpty, coverage, issues))))))"

text \<open>One more issue when an age exceeds a threshold.\<close>

definition stale_issue ::
  "duration_ops \<Rightarrow> data_health_issue_code \<Rightarrow> version_ref option \<Rightarrow> measured_age \<Rightarrow> u64 \<Rightarrow>
   data_health_issue list run" where
  "stale_issue du code source age threshold =
     run_then (age_exceeds du age threshold) (\<lambda>stale.
     if stale
     then run_then (Some (data_health_issue_new code [] source 0 0 (ea_display_seconds age))) (\<lambda>issue. Some (Ok [issue]))
     else Some (Ok []))"

definition evaluate_position_snapshot ::
  "'d sum_ops \<Rightarrow> duration_ops \<Rightarrow> sha256_fn \<Rightarrow> (naive_date \<Rightarrow> string) \<Rightarrow>
   position_snapshot \<Rightarrow> threshold_profile \<Rightarrow> market_time \<Rightarrow> position_health_evaluation run" where
  "evaluate_position_snapshot ops du sha256 ds snapshot profile evaluated_at =
     (if sha256 (canonical_payload ds snapshot) \<noteq> ps_content_hash snapshot then Some (Err ContentHashMismatch)
      else if mt_instant evaluated_at < mt_instant (ps_visible_at snapshot)
        \<or> mt_instant evaluated_at < mt_instant (ps_observed_at snapshot)
      then Some (Err InvalidEffectiveTime)
      else
        run_then (evaluate_position_set ops snapshot profile) (\<lambda>(set_state, coverage, issues).
        run_then (elapsed_age du (ps_observed_at snapshot) evaluated_at) (\<lambda>age.
        run_then (stale_issue du StalePositionSnapshot None age (tp_max_position_snapshot_age_seconds profile)) (\<lambda>stale.
        Some (Ok
          \<lparr>he_position_snapshot_hash = ps_content_hash snapshot, he_evaluated_at = evaluated_at,
           he_threshold_profile_ref = tp_profile_ref profile, he_threshold_profile_hash = tp_content_hash profile,
           he_position_set_state = set_state, he_issues = sort_key issue_key (issues @ stale),
           he_coverage = coverage\<rparr>)))))"

section \<open>Price evidence and the report\<close>

record price_evidence =
  pe_data_snapshot_id :: ulid
  pe_owner :: owner_ref
  pe_data_snapshot_content_hash :: content_hash
  pe_data_snapshot_manifest_hash :: content_hash
  pe_data_source_ref :: version_ref
  pe_source_type :: "price_source_type option"
  pe_record_count :: u64
  pe_visible_at :: market_time
  pe_as_of :: market_time
  pe_lineage :: "lineage_ref list"

definition price_evidence_new :: "price_evidence \<Rightarrow> price_evidence domain_result" where
  "price_evidence_new input =
     (if pe_record_count input = 0 \<or> pe_lineage input = [] then Err InvalidValue
      else if mt_instant (pe_visible_at input) < mt_instant (pe_as_of input) then Err InvalidEffectiveTime
      else Ok input)"

definition source_type_issues :: "price_evidence \<Rightarrow> threshold_profile \<Rightarrow> data_health_issue list run" where
  "source_type_issues evidence profile =
     run_then (if pe_source_type evidence = None
               then run_then (Some (data_health_issue_new UntypedPriceSource [] (Some (pe_data_source_ref evidence))
                      (pe_record_count evidence) 0 0)) (\<lambda>issue. Some (Ok [issue]))
               else Some (Ok [])) (\<lambda>untyped.
     run_then (if pe_source_type evidence = Some ModelValuation
               then Some (ratio_reaches_threshold (unat (pe_record_count evidence)) (unat (pe_record_count evidence))
                      (tp_model_valuation_warning_basis_points profile))
               else Some (Ok False)) (\<lambda>reached.
     run_then (if reached
               then run_then (Some (data_health_issue_new ModelValuationShare [] (Some (pe_data_source_ref evidence))
                      (pe_record_count evidence) 10000 0)) (\<lambda>issue. Some (Ok [issue]))
               else Some (Ok [])) (\<lambda>model.
     Some (Ok (untyped @ model)))))"

definition price_evidence_issues ::
  "duration_ops \<Rightarrow> price_evidence option \<Rightarrow> owner_ref \<Rightarrow> market_time \<Rightarrow> threshold_profile \<Rightarrow>
   data_health_issue list run" where
  "price_evidence_issues du evidence snapshot_owner evaluated_at profile =
     (case evidence of
        None \<Rightarrow> Some (Ok [])
      | Some e \<Rightarrow>
          if pe_owner e \<noteq> snapshot_owner then Some (Err InvalidValue)
          else if mt_instant evaluated_at < mt_instant (pe_visible_at e) then Some (Err InvalidEffectiveTime)
          else
            run_then (elapsed_age du (pe_as_of e) evaluated_at) (\<lambda>age.
            run_then (source_type_issues e profile) (\<lambda>typed.
            run_then (stale_issue du StaleDataSnapshot (Some (pe_data_source_ref e)) age
                (tp_max_data_snapshot_age_seconds profile)) (\<lambda>stale.
            Some (Ok (typed @ stale))))))"

record data_health_report =
  hr_owner :: owner_ref
  hr_subject_ref :: version_ref
  hr_evaluated_at :: market_time
  hr_position_snapshot_id :: ulid
  hr_position_snapshot_hash :: content_hash
  hr_data_snapshot_id :: "ulid option"
  hr_data_snapshot_manifest_hash :: "content_hash option"
  hr_data_source_ref :: "version_ref option"
  hr_threshold_profile :: threshold_profile
  hr_state :: data_health_state
  hr_issues :: "data_health_issue list"
  hr_price_evidence_evaluated :: bool
  hr_position_set_state :: position_set_state
  hr_coverage :: coverage_declaration
  hr_request_fingerprint :: content_hash
  hr_content_hash :: content_hash
  hr_lineage :: "lineage_ref list"

definition validate_position_pair :: "position_set_state \<Rightarrow> coverage_declaration \<Rightarrow> unit domain_result" where
  "validate_position_pair set_state coverage =
     (case set_state of
        VerifiedEmpty \<Rightarrow>
          require (cd_imported_position_count coverage = 0 \<and> cd_participating_position_count coverage = 0
            \<and> cd_imported_gross_by_unit coverage = [] \<and> cd_participating_gross_by_unit coverage = []) InvalidValue
      | NonEmpty \<Rightarrow>
          require (cd_imported_position_count coverage \<noteq> 0 \<and> cd_participating_position_count coverage \<noteq> 0) InvalidValue)"

fun health_state_code :: "data_health_state \<Rightarrow> u8" where
  "health_state_code Healthy = 1"
| "health_state_code Warning = 2"

fun position_set_state_code :: "position_set_state \<Rightarrow> u8" where
  "position_set_state_code NonEmpty = 1"
| "position_set_state_code VerifiedEmpty = 2"

definition append_issue :: "data_health_issue \<Rightarrow> bytes" where
  "append_issue i =
     push_bytes [issue_code (di_code i)]
     @ concat (map (\<lambda>u. push_bytes (as_bytes (ulid_str u))) (di_affected_position_ids i))
     @ append_optional_version_ref (di_data_source_ref i)
     @ push_bytes (to_be_bytes (di_record_count i))
     @ push_bytes (to_be_bytes (di_ratio_basis_points i))
     @ push_bytes (to_be_bytes (di_observed_age_seconds i))"

definition report_canonical_bytes :: "(naive_date \<Rightarrow> string) \<Rightarrow> data_health_report \<Rightarrow> bytes" where
  "report_canonical_bytes ds r =
     push_bytes (as_bytes ''ficant.research.data-health-report.v1'')
     @ health_append_owner (hr_owner r)
     @ health_append_version_ref (hr_subject_ref r)
     @ append_time ds (hr_evaluated_at r)
     @ push_bytes (as_bytes (ulid_str (hr_position_snapshot_id r)))
     @ push_bytes (hash_bytes (hr_position_snapshot_hash r))
     @ append_optional_id (hr_data_snapshot_id r)
     @ append_optional_hash (hr_data_snapshot_manifest_hash r)
     @ append_optional_version_ref (hr_data_source_ref r)
     @ push_bytes (profile_canonical_bytes ds (hr_threshold_profile r))
     @ push_bytes [health_state_code (hr_state r)]
     @ concat (map append_issue (hr_issues r))
     @ push_bytes [if hr_price_evidence_evaluated r then 1 else 0]
     @ push_bytes [position_set_state_code (hr_position_set_state r)]
     @ push_bytes (coverage_canonical_bytes (hr_coverage r))
     @ push_bytes (hash_bytes (hr_request_fingerprint r))
     @ concat (map health_append_lineage (hr_lineage r))"

definition data_health_request_fingerprint ::
  "sha256_fn \<Rightarrow> (naive_date \<Rightarrow> string) \<Rightarrow> version_ref \<Rightarrow> ulid \<Rightarrow> ulid option \<Rightarrow> market_time \<Rightarrow> threshold_profile \<Rightarrow>
   content_hash" where
  "data_health_request_fingerprint sha256 ds subject_ref position_snapshot_id data_snapshot_id evaluated_at profile =
     sha256
       (push_bytes (as_bytes ''ficant.operation.data-health-report.v1'')
        @ health_append_version_ref subject_ref
        @ push_bytes (as_bytes (ulid_str position_snapshot_id))
        @ append_optional_id data_snapshot_id
        @ append_time ds evaluated_at
        @ push_bytes (profile_canonical_bytes ds profile)
        @ push_bytes (hash_bytes (tp_content_hash profile)))"

text \<open>\<open>lineage.sort_by(compare_lineage); lineage.dedup()\<close> of the collected references.\<close>

definition report_lineage :: "position_snapshot \<Rightarrow> price_evidence option \<Rightarrow> threshold_profile \<Rightarrow> lineage_ref \<Rightarrow> lineage_ref list" where
  "report_lineage snapshot evidence profile profile_reference =
     (let collected =
        ps_lineage snapshot @ [lineage_ref_content_addressed (ps_snapshot_id snapshot) (ps_content_hash snapshot)]
        @ (case evidence of
             Some e \<Rightarrow> pe_lineage e
               @ [lineage_ref_content_addressed (pe_data_snapshot_id e) (pe_data_snapshot_content_hash e)]
           | None \<Rightarrow> [])
        @ tp_lineage profile @ [lineage_ref_content_addressed (tp_profile_snapshot_id profile) (tp_content_hash profile)];
        completed = (if profile_reference \<in> set collected then collected else collected @ [profile_reference])
      in remdups_adj (sort_key lineage_key completed))"

record data_health_report_input =
  hi_position_snapshot :: position_snapshot
  hi_evaluated_at :: market_time
  hi_position_evaluation :: position_health_evaluation
  hi_threshold_profile :: threshold_profile
  hi_price_evidence :: "price_evidence option"

definition data_health_report_new ::
  "duration_ops \<Rightarrow> sha256_fn \<Rightarrow> (naive_date \<Rightarrow> string) \<Rightarrow> data_health_report_input \<Rightarrow> data_health_report run" where
  "data_health_report_new du sha256 ds input =
     (let snapshot = hi_position_snapshot input; evaluation = hi_position_evaluation input;
          profile = hi_threshold_profile input; evidence = hi_price_evidence input in
      if ps_lineage snapshot = [] then Some (Err BrokenLineage)
      else if he_position_snapshot_hash evaluation \<noteq> ps_content_hash snapshot
        \<or> he_evaluated_at evaluation \<noteq> hi_evaluated_at input
        \<or> he_threshold_profile_ref evaluation \<noteq> tp_profile_ref profile
        \<or> he_threshold_profile_hash evaluation \<noteq> tp_content_hash profile
      then Some (Err ContentHashMismatch)
      else
        run_then (price_evidence_issues du evidence (ps_owner snapshot) (hi_evaluated_at input) profile) (\<lambda>priced.
        let issues = sort_key issue_key (he_issues evaluation @ priced) in
        run_then (Some (lineage_ref_new (vr_id (tp_profile_ref profile)) (Some (vr_version (tp_profile_ref profile)))
            (Some (tp_content_hash profile)))) (\<lambda>profile_reference.
        let r =
          \<lparr>hr_owner = ps_owner snapshot, hr_subject_ref = ps_subject_ref snapshot,
           hr_evaluated_at = hi_evaluated_at input, hr_position_snapshot_id = ps_snapshot_id snapshot,
           hr_position_snapshot_hash = he_position_snapshot_hash evaluation,
           hr_data_snapshot_id = map_option pe_data_snapshot_id evidence,
           hr_data_snapshot_manifest_hash = map_option pe_data_snapshot_manifest_hash evidence,
           hr_data_source_ref = map_option pe_data_source_ref evidence,
           hr_threshold_profile = profile, hr_state = (if issues = [] then Healthy else Warning),
           hr_issues = issues, hr_price_evidence_evaluated = (evidence \<noteq> None),
           hr_position_set_state = he_position_set_state evaluation, hr_coverage = he_coverage evaluation,
           hr_request_fingerprint = data_health_request_fingerprint sha256 ds (ps_subject_ref snapshot)
             (ps_snapshot_id snapshot) (map_option pe_data_snapshot_id evidence) (hi_evaluated_at input) profile,
           hr_content_hash = sha256 (as_bytes ''pending''),
           hr_lineage = report_lineage snapshot evidence profile profile_reference\<rparr>
        in
          run_then (Some (validate_position_pair (hr_position_set_state r) (hr_coverage r))) (\<lambda>_.
          Some (Ok (r\<lparr>hr_content_hash := sha256 (report_canonical_bytes ds r)\<rparr>))))))"

section \<open>Ages\<close>

text \<open>
  What \<open>chrono\<close> documents: a duration js at most \<open>i64::MAX\<close> milliseconds, \<open>num_seconds\<close> rounds
  towards zero, \<open>TimeDelta::seconds\<close> panics beyond \<open>i64::MAX / 1_000\<close> seconds, and an instant
  js not before an earlier one.
\<close>

definition max_seconds :: int where
  "max_seconds = (2 ^ 63 - 1) div 1000"

definition documented_durations :: "duration_ops \<Rightarrow> bool" where
  "documented_durations du \<longleftrightarrow>
     (\<forall>a b. \<bar>du_since du a b\<bar> \<le> (2 ^ 63 - 1) * 1000000) \<and>
     (\<forall>a b. b \<le> a \<longrightarrow> 0 \<le> du_since du a b) \<and>
     (\<forall>n \<ge> 0. du_num_seconds du n = n div 1000000000) \<and>
     (\<forall>s. du_seconds du s = (if \<bar>s\<bar> \<le> max_seconds then Some (s * 1000000000) else None))"

lemma documented_durationsD:
  assumes "documented_durations du"
  shows "\<bar>du_since du a b\<bar> \<le> (2 ^ 63 - 1) * 1000000" "b \<le> a \<Longrightarrow> 0 \<le> du_since du a b"
    "0 \<le> n \<Longrightarrow> du_num_seconds du n = n div 1000000000"
    "du_seconds du s = (if \<bar>s\<bar> \<le> max_seconds then Some (s * 1000000000) else None)"
  using assms unfolding documented_durations_def by blast+

text \<open>The thresholds between the two limits, for which the comparison panics.\<close>

definition threshold_gap :: "u64 \<Rightarrow> bool" where
  "threshold_gap t \<longleftrightarrow> max_seconds < int (unat t) \<and> unat t < 2 ^ 63"

lemma elapsed_age_Ok:
  assumes du: "documented_durations du" and nonneg: "0 \<le> du_since du (mt_instant later) (mt_instant earlier)"
  obtains age where "elapsed_age du earlier later = Some (Ok age)"
    "ea_duration age = du_since du (mt_instant later) (mt_instant earlier)"
    "0 < ea_duration age \<Longrightarrow> ea_display_seconds age \<noteq> 0"
proof -
  define d where "d = du_since du (mt_instant later) (mt_instant earlier)"
  define q where "q = d div 1000000000"
  have d: "0 \<le> d" "d \<le> (2 ^ 63 - 1) * 1000000"
    using nonneg documented_durationsD(1) [OF du, of "mt_instant later" "mt_instant earlier"] by (simp_all add: d_def)
  then have q: "0 \<le> q" "q \<le> max_seconds" unfolding q_def max_seconds_def by simp_all
  then have secs: "du_seconds du q = Some (q * 1000000000)" using documented_durationsD(4) [OF du] by simp
  define display where "display = q + (if d > q * 1000000000 then 1 else 0)"
  have display: "0 \<le> display" "display < 2 ^ 63" using q by (auto simp: display_def max_seconds_def)
  have "elapsed_age du earlier later = Some (Ok \<lparr>ea_duration = d, ea_display_seconds = word_of_int display\<rparr>)"
    using d(1) secs display documented_durationsD(3) [OF du d(1)]
    unfolding elapsed_age_def Let_def d_def [symmetric] q_def [symmetric] display_def [symmetric]
    by (simp add: display_def)
  moreover have "(word_of_int display :: u64) \<noteq> 0" if "0 < d"
  proof
    assume "(word_of_int display :: u64) = 0"
    then have "uint (word_of_int display :: u64) = 0" by simp
    then have "display = 0" using display by (simp add: uint_word_of_int)
    then have "q = 0" "\<not> d > q * 1000000000" using q by (auto simp: display_def split: if_splits)
    with that show False by simp
  qed
  ultimately show ?thesis using that by (simp add: d_def)
qed

lemma elapsed_age_nonneg:
  "elapsed_age du earlier later = Some (Ok age) \<Longrightarrow> 0 \<le> du_since du (mt_instant later) (mt_instant earlier)"
  by (auto simp: elapsed_age_def Let_def split: if_splits)

lemma age_exceeds_eq:
  assumes du: "documented_durations du" and age: "ea_duration age = du_since du a b"
  shows "age_exceeds du age t =
    (if threshold_gap t then None else Some (Ok (ea_duration age > int (unat t) * 1000000000)))"
proof (cases "unat t < 2 ^ 63")
  case True
  then show ?thesis
    using documented_durationsD(4) [OF du, of "int (unat t)"] by (auto simp: age_exceeds_def threshold_gap_def)
next
  case False
  have "ea_duration age \<le> (2 ^ 63 - 1) * 1000000"
    using documented_durationsD(1) [OF du, of a b] age by simp
  also have "\<dots> < int (unat t) * 1000000000"
  proof -
    have "int (2 ^ 63) \<le> int (unat t)" using False by (simp only: of_nat_le_iff not_less)
    then have "int (2 ^ 63) * 1000000000 \<le> int (unat t) * 1000000000" by (rule mult_right_mono) simp
    then show ?thesis by simp
  qed
  finally show ?thesis using False by (simp add: age_exceeds_def threshold_gap_def)
qed

lemma stale_issue_eq:
  assumes du: "documented_durations du" and age: "ea_duration age = du_since du a b"
    and display: "0 < ea_duration age \<Longrightarrow> ea_display_seconds age \<noteq> 0"
    and code: "code = StalePositionSnapshot \<and> source = None \<or> code = StaleDataSnapshot \<and> source \<noteq> None"
  shows "stale_issue du code source age t =
    (if threshold_gap t then None
     else Some (Ok (if ea_duration age > int (unat t) * 1000000000
       then [\<lparr>di_code = code, di_affected_position_ids = [], di_data_source_ref = source, di_record_count = 0,
              di_ratio_basis_points = 0, di_observed_age_seconds = ea_display_seconds age\<rparr>] else [])))"
proof -
  have "0 < ea_duration age" if "ea_duration age > int (unat t) * 1000000000"
    using that by (rule le_less_trans [rotated]) simp
  then show ?thesis
    using code display unfolding stale_issue_def age_exceeds_eq [OF du age]
    by (auto simp: data_health_issue_new_def)
qed

section \<open>Ratios\<close>

lemma ratio_reaches_Ok:
  "ratio_reaches_threshold n m t = Ok b \<Longrightarrow> b \<longleftrightarrow> m * unat t \<le> n * 10000"
  by (auto simp: ratio_reaches_threshold_def result_simps checked_mul_u64_def BASIS_POINTS_DENOMINATOR_def split: if_splits)

lemma ratio_reaches_total:
  assumes "m \<noteq> 0" "n \<le> m" "m * 10000 < 2 ^ 64" "unat t \<le> 10000"
  shows "ratio_reaches_threshold n m t = Ok (m * unat t \<le> n * 10000)"
proof -
  have "m * unat t \<le> m * 10000" using assms(4) by simp
  then have "m * unat t < 2 ^ 64" "n * 10000 < 2 ^ 64" "n < usize_limit" "m < usize_limit" using assms(2,3) by linarith+
  with assms(1) show ?thesis
    by (simp add: ratio_reaches_threshold_def u64_of_len_def unat_of_nat checked_mul_u64_def BASIS_POINTS_DENOMINATOR_def)
qed

lemma ratio_basis_points_total:
  assumes "m \<noteq> 0" "n \<le> m" "m * 10000 < 2 ^ 64"
  shows "ratio_basis_points n m = Some (Ok (word_of_nat (n * 10000 div m)))"
proof -
  have "n * 10000 < 2 ^ 64" "n < usize_limit" "m < usize_limit" using assms(2,3) by linarith+
  moreover have "n * 10000 div m \<le> 10000"
    using assms(1,2) by (metis div_le_mono mult.commute mult_le_mono1 nonzero_mult_div_cancel_left)
  moreover have "(word_of_nat m :: u64) \<noteq> 0"
    using assms(1) \<open>m < usize_limit\<close> word64_of_nat_inject [of m 0] by simp
  ultimately show ?thesis
    by (simp add: ratio_basis_points_def u64_of_len_def unat_of_nat checked_mul_u64_def BASIS_POINTS_DENOMINATOR_def)
qed

section \<open>Which issues are raised\<close>

definition all_codes :: "data_health_issue_code list" where
  "all_codes = [EmptyPositions, UnknownAccountingClassification, StalePositionSnapshot, UntypedPriceSource,
     ModelValuationShare, StaleDataSnapshot]"

text \<open>The condition of each issue, in terms of the snapshot, the profile, the time and the evidence.\<close>

fun raised ::
  "duration_ops \<Rightarrow> position_snapshot \<Rightarrow> threshold_profile \<Rightarrow> market_time \<Rightarrow> price_evidence option \<Rightarrow>
   data_health_issue_code \<Rightarrow> bool" where
  "raised du s p t ev EmptyPositions \<longleftrightarrow> ps_positions s = []"
| "raised du s p t ev UnknownAccountingClassification \<longleftrightarrow>
     unknown_position_ids s \<noteq> [] \<and>
     length (ps_positions s) * unat (tp_unknown_accounting_warning_basis_points p) \<le> length (unknown_position_ids s) * 10000"
| "raised du s p t ev StalePositionSnapshot \<longleftrightarrow>
     du_since du (mt_instant t) (mt_instant (ps_observed_at s)) > int (unat (tp_max_position_snapshot_age_seconds p)) * 1000000000"
| "raised du s p t ev UntypedPriceSource \<longleftrightarrow> (case ev of None \<Rightarrow> False | Some e \<Rightarrow> pe_source_type e = None)"
| "raised du s p t ev ModelValuationShare \<longleftrightarrow> (case ev of None \<Rightarrow> False | Some e \<Rightarrow> pe_source_type e = Some ModelValuation)"
| "raised du s p t ev StaleDataSnapshot \<longleftrightarrow>
     (case ev of None \<Rightarrow> False
      | Some e \<Rightarrow> du_since du (mt_instant t) (mt_instant (pe_as_of e)) > int (unat (tp_max_data_snapshot_age_seconds p)) * 1000000000)"

lemma issue_new_code: "data_health_issue_new code ids source n r a = Ok i \<Longrightarrow> di_code i = code"
  by (auto simp: data_health_issue_new_def result_simps split: if_splits)

text \<open>Issues with strictly ascending codes are sorted already.\<close>

lemma sort_ascending_codes:
  assumes "sorted_wrt (<) (map (issue_code \<circ> di_code) js)"
  shows "sort_key issue_key js = js"
proof (rule sort_key_id_if_sorted)
  show "sorted (map issue_key js)"
    using assms unfolding sorted_map sorted_wrt_map
    by (rule sorted_wrt_mono_rel [rotated]) (simp add: issue_key_def)
qed

lemma sort_filtered_codes:
  assumes "map di_code js = filter P codes" "sorted_wrt (<) (map issue_code codes)"
  shows "sort_key issue_key js = js"
proof (rule sort_ascending_codes)
  have "map (issue_code \<circ> di_code) js = map issue_code (filter P codes)" using assms(1) by (simp flip: map_map)
  then show "sorted_wrt (<) (map (issue_code \<circ> di_code) js)"
    using assms(2) by (simp add: sorted_wrt_map sorted_wrt_filter)
qed

lemma position_set_codes:
  assumes "evaluate_position_set ops s p = Some (Ok (st, c, js))"
  shows "map di_code js = filter (raised du s p t ev) [EmptyPositions, UnknownAccountingClassification]"
proof (cases "ps_positions s = []")
  case True
  then have "unknown_position_ids s = []" by (simp add: unknown_position_ids_def)
  then show ?thesis using True assms
    by (auto simp: evaluate_position_set_def result_simps dest: issue_new_code)
next
  case False
  let ?n = "length (unknown_position_ids s)" and ?m = "length (ps_positions s)"
  obtain reached where reached: "(if unknown_position_ids s = [] then Some (Ok False)
      else Some (ratio_reaches_threshold ?n ?m (tp_unknown_accounting_warning_basis_points p))) = Some (Ok reached)"
    and codes: "map di_code js = (if reached then [UnknownAccountingClassification] else [])"
    using False assms by (auto simp: evaluate_position_set_def Let_def result_simps split: if_splits dest: issue_new_code)
  have "reached \<longleftrightarrow> raised du s p t ev UnknownAccountingClassification"
    using reached by (auto split: if_splits dest: ratio_reaches_Ok)
  with codes False show ?thesis by simp
qed

lemma stale_codes:
  assumes du: "documented_durations du" and age: "elapsed_age du earlier later = Some (Ok age)"
    and stale: "stale_issue du code source age t = Some (Ok js)"
    and code: "code = StalePositionSnapshot \<and> source = None \<or> code = StaleDataSnapshot \<and> source \<noteq> None"
  shows "map di_code js =
    (if du_since du (mt_instant later) (mt_instant earlier) > int (unat t) * 1000000000 then [code] else [])"
proof -
  obtain a where a: "elapsed_age du earlier later = Some (Ok a)"
    "ea_duration a = du_since du (mt_instant later) (mt_instant earlier)"
    "0 < ea_duration a \<Longrightarrow> ea_display_seconds a \<noteq> 0"
    using elapsed_age_Ok [OF du elapsed_age_nonneg [OF age]] by blast
  then have "a = age" using age by simp
  then show ?thesis
    using stale stale_issue_eq [OF du, of age _ _ code source t] a code by (auto split: if_splits)
qed

lemma source_type_codes:
  assumes "source_type_issues e p = Some (Ok js)" "unat (tp_model_valuation_warning_basis_points p) \<le> 10000"
  shows "map di_code js = filter (raised du s p t (Some e)) [UntypedPriceSource, ModelValuationShare]"
proof -
  have "unat (pe_record_count e) * unat (tp_model_valuation_warning_basis_points p) \<le> unat (pe_record_count e) * 10000"
    using assms(2) by simp
  then have reached: "b" if "ratio_reaches_threshold (unat (pe_record_count e)) (unat (pe_record_count e))
      (tp_model_valuation_warning_basis_points p) = Ok b" for b
    using ratio_reaches_Ok [OF that] by simp
  show ?thesis
    using assms(1) by (auto simp: source_type_issues_def result_simps split: if_splits dest: issue_new_code reached)
qed

lemma price_evidence_codes:
  assumes du: "documented_durations du" and "unat (tp_model_valuation_warning_basis_points p) \<le> 10000"
    and "price_evidence_issues du ev own t p = Some (Ok js)"
  shows "map di_code js = filter (raised du s p t ev) [UntypedPriceSource, ModelValuationShare, StaleDataSnapshot]"
proof (cases ev)
  case None
  then show ?thesis using assms(3) by (simp add: price_evidence_issues_def)
next
  case (Some e)
  then obtain age typed stale where age: "elapsed_age du (pe_as_of e) t = Some (Ok age)"
    and typed: "source_type_issues e p = Some (Ok typed)"
    and stale: "stale_issue du StaleDataSnapshot (Some (pe_data_source_ref e)) age (tp_max_data_snapshot_age_seconds p) = Some (Ok stale)"
    and js: "js = typed @ stale"
    using assms(3) by (auto simp: price_evidence_issues_def result_simps split: if_splits)
  have "filter (raised du s p t ev) [UntypedPriceSource, ModelValuationShare, StaleDataSnapshot] =
      filter (raised du s p t ev) [UntypedPriceSource, ModelValuationShare] @ filter (raised du s p t ev) [StaleDataSnapshot]"
    by simp
  then show ?thesis
    using source_type_codes [OF typed assms(2), of du s t] stale_codes [OF du age stale] Some by (simp add: js)
qed

lemma evaluation_codes:
  assumes du: "documented_durations du"
    and ev: "evaluate_position_snapshot ops du sha256 ds s p t = Some (Ok e)"
  shows "map di_code (he_issues e) =
    filter (raised du s p t ev') [EmptyPositions, UnknownAccountingClassification, StalePositionSnapshot]"
proof -
  obtain st c js age stale where set: "evaluate_position_set ops s p = Some (Ok (st, c, js))"
    and age: "elapsed_age du (ps_observed_at s) t = Some (Ok age)"
    and stale: "stale_issue du StalePositionSnapshot None age (tp_max_position_snapshot_age_seconds p) = Some (Ok stale)"
    and e: "he_issues e = sort_key issue_key (js @ stale)"
    using ev by (auto simp: evaluate_position_snapshot_def result_simps split: if_splits)
  have codes: "map di_code (js @ stale) =
      filter (raised du s p t ev') [EmptyPositions, UnknownAccountingClassification, StalePositionSnapshot]"
    using position_set_codes [OF set, of du t ev'] stale_codes [OF du age stale] by simp
  have "sort_key issue_key (js @ stale) = js @ stale"
    by (rule sort_filtered_codes [OF codes]) simp
  with codes e show ?thesis by simp
qed

text \<open>
  C21: a health report raises exactly the issues whose conditions hold, each once and in the order
  of the codes: an empty snapshot; unknown classifications whose share reaches the threshold; a
  snapshot, or a data snapshot, strictly older than the profile allows, to the nanosecond; a
  price source without a type; a price source of model valuations, whatever threshold the
  profile sets for their share. The report is a warning exactly when there is an issue.
\<close>

theorem health_report_issues:
  assumes "documented_durations du" "threshold_profile_new sha256 ds p = Ok p"
    and "evaluate_position_snapshot ops du sha256 ds s p t = Some (Ok e)"
    and "data_health_report_new du sha256 ds
      \<lparr>hi_position_snapshot = s, hi_evaluated_at = t, hi_position_evaluation = e, hi_threshold_profile = p,
       hi_price_evidence = ev\<rparr> = Some (Ok r)"
  shows "map di_code (hr_issues r) = filter (raised du s p t ev) all_codes \<and>
    (hr_state r = Warning \<longleftrightarrow> (\<exists>c. raised du s p t ev c))"
proof -
  have "tp_model_valuation_warning_basis_points p \<le> 10000"
    using assms(2) by (auto simp: threshold_profile_new_def split: if_splits)
  then have model: "unat (tp_model_valuation_warning_basis_points p) \<le> 10000" by (simp add: word_le_nat_alt)
  obtain priced where priced: "price_evidence_issues du ev (ps_owner s) t p = Some (Ok priced)"
    and r: "hr_issues r = sort_key issue_key (he_issues e @ priced)"
      "hr_state r = (if hr_issues r = [] then Healthy else Warning)"
    using assms(4) by (auto simp: data_health_report_new_def Let_def result_simps split: if_splits)
  have codes: "map di_code (he_issues e @ priced) = filter (raised du s p t ev) all_codes"
    using evaluation_codes [OF assms(1,3), of ev] price_evidence_codes [OF assms(1) model priced, of s]
    unfolding all_codes_def by simp
  have "sort_key issue_key (he_issues e @ priced) = he_issues e @ priced"
    by (rule sort_filtered_codes [OF codes]) (simp add: all_codes_def)
  then have issues: "map di_code (hr_issues r) = filter (raised du s p t ev) all_codes" using codes r by simp
  have "hr_issues r \<noteq> [] \<longleftrightarrow> (\<exists>c \<in> set all_codes. raised du s p t ev c)"
    using issues by (metis (mono_tags, lifting) empty_filter_conv map_is_Nil_conv)
  moreover have "c \<in> set all_codes" for c by (cases c) (simp_all add: all_codes_def)
  ultimately show ?thesis using issues r(2) by auto
qed

section \<open>The evaluation returns or panics\<close>

lemma windows2_any_key:
  "windows2_any (\<lambda>a b. f a \<ge> f b) xs \<longleftrightarrow> windows2_any (\<lambda>a b. a \<ge> b) (map f xs)"
  by (induction xs rule: induct_list012) simp_all

text \<open>All positions of a snapshot take part: the coverage exists when the sums do.\<close>

lemma complete_coverage:
  assumes exact: "exact_sums ops" and ps: "ps \<noteq> []" and sorted: "sorted_wrt (<) (map po_position_id ps)"
    and len: "length ps < usize_limit" and agg: "aggregate_gross ops ps = Some (Ok vs)"
  shows "\<exists>c. for_complete_positions ops ps (map po_position_id ps) None 0 = Some (Ok c)"
proof -
  have dist: "distinct (map po_position_id ps)" using sorted by (simp add: strict_sorted_iff)
  have all: "participating_positions ps (map po_position_id ps) = ps" by (simp add: participating_positions_def)
  show ?thesis
    unfolding for_complete_positions_Ok [OF exact dist] all using ps sorted len agg
    by (intro exI [of _ "\<lparr>cd_imported_position_count = word_of_nat (length ps),
        cd_participating_position_count = word_of_nat (length ps),
        cd_imported_gross_by_unit = vs, cd_participating_gross_by_unit = vs,
        cd_missing_critical_field_record_count = 0, cd_source_confidence = None,
        cd_distinct_external_version_count = 0\<rparr>"])
      (simp add: unat_of_nat validate_source_confidence_def)
qed

text \<open>A reached threshold gives a share of at least one basis point, so the issue is accepted.\<close>

lemma unknown_issue_accepted:
  assumes "m \<noteq> 0" "n \<noteq> 0" "n \<le> m" "m * 10000 < 2 ^ 64" "m * unat t \<le> n * 10000" "1 \<le> t"
    and "sorted_wrt (<) ids" "length ids = n"
  shows "\<exists>i. data_health_issue_new UnknownAccountingClassification ids None (word_of_nat n)
    (word_of_nat (n * 10000 div m)) 0 = Ok i"
proof -
  have "1 \<le> unat t" using assms(6) by (simp add: word_le_nat_alt)
  then have "m \<le> n * 10000" using assms(5) by (metis le_trans mult.right_neutral mult_le_mono2)
  then have "1 \<le> n * 10000 div m" using assms(1) by (simp add: Suc_le_eq div_greater_zero_iff)
  moreover have "n * 10000 div m \<le> 10000"
    using assms(1,3) by (metis div_le_mono mult.commute mult_le_mono1 nonzero_mult_div_cancel_left)
  ultimately have "unat (word_of_nat (n * 10000 div m) :: u32) \<noteq> 0" by (simp add: unat_of_nat)
  then have "(word_of_nat (n * 10000 div m) :: u32) \<noteq> 0" by (metis unat_0)
  moreover have "n < usize_limit" using assms(3,4) by linarith
  ultimately show ?thesis
    using assms(2,7,8) by (auto simp: data_health_issue_new_def windows2_any_strict u64_of_len_def require_def)
qed

lemma evaluate_position_set_total:
  assumes exact: "exact_sums ops" and sorted: "sorted_wrt (<) (map po_position_id (ps_positions s))"
    and len: "length (ps_positions s) * 10000 < 2 ^ 64"
    and bps: "1 \<le> tp_unknown_accounting_warning_basis_points p" "tp_unknown_accounting_warning_basis_points p \<le> 10000"
    and agg: "ps_positions s = [] \<or> (\<exists>vs. aggregate_gross ops (ps_positions s) = Some (Ok vs))"
  shows "\<exists>st c js. evaluate_position_set ops s p = Some (Ok (st, c, js))"
proof (cases "ps_positions s = []")
  case True
  then show ?thesis by (simp add: evaluate_position_set_def data_health_issue_new_def)
next
  case False
  let ?n = "length (unknown_position_ids s)" and ?m = "length (ps_positions s)" and ?t = "tp_unknown_accounting_warning_basis_points p"
  have m: "?m \<noteq> 0" and n: "?n \<le> ?m" using False by (simp_all add: unknown_position_ids_def)
  have ids: "sorted_wrt (<) (unknown_position_ids s)"
    using sorted unfolding unknown_position_ids_def sorted_wrt_map by (rule sorted_wrt_filter)
  have "unat ?t \<le> 10000" using bps(2) by (simp add: word_le_nat_alt)
  note reach = ratio_reaches_total [OF m n len this] and ratio = ratio_basis_points_total [OF m n len]
  have limit: "?n < usize_limit" "?m < usize_limit" using n len by linarith+
  obtain c where c: "for_complete_positions ops (ps_positions s) (map po_position_id (ps_positions s)) None 0 = Some (Ok c)"
    using complete_coverage [OF exact False sorted limit(2)] agg False by blast
  show ?thesis
  proof (cases "unknown_position_ids s \<noteq> [] \<and> ?m * unat ?t \<le> ?n * 10000")
    case True
    then obtain i where "data_health_issue_new UnknownAccountingClassification (unknown_position_ids s) None
        (word_of_nat ?n) (word_of_nat (?n * 10000 div ?m)) 0 = Ok i"
      using unknown_issue_accepted [OF m _ n len _ bps(1) ids] by auto
    with True False c limit(1) show ?thesis
      by (simp add: evaluate_position_set_def Let_def reach ratio u64_of_len_def)
  next
    case none: False
    with False c show ?thesis by (auto simp: evaluate_position_set_def Let_def reach)
  qed
qed

text \<open>
  C22: the evaluation of a verified snapshot answers, except for some thresholds. For a snapshot
  and a profile that their constructors accepted, evaluated no earlier than the snapshot is
  visible, and whose gross values can be summed, the evaluation returns a result, unless the
  maximal age of a position snapshot lies above the seconds a \<open>TimeDelta\<close> holds and still fits an
  \<open>i64\<close>: then it panics, for every such snapshot and every such time. Sums that exist are exact.
\<close>

theorem health_evaluation_returns:
  assumes "documented_durations du" "exact_sums ops"
    and "position_snapshot_new sha256 ds i = Ok s" "threshold_profile_new sha256 ds p = Ok p"
    and "mt_instant (ps_visible_at s) \<le> mt_instant t" "length (ps_positions s) * 10000 < 2 ^ 64"
    and "ps_positions s = [] \<or> (\<exists>vs. aggregate_gross ops (ps_positions s) = Some (Ok vs))"
  shows "if threshold_gap (tp_max_position_snapshot_age_seconds p)
    then evaluate_position_snapshot ops du sha256 ds s p t = None
    else (\<exists>e. evaluate_position_snapshot ops du sha256 ds s p t = Some (Ok e))"
proof -
  have hash: "sha256 (canonical_payload ds s) = ps_content_hash s"
    using canonical_payload_of_new [OF assms(3)] by simp
  have observed: "mt_instant (ps_observed_at s) \<le> mt_instant (ps_visible_at s)"
    and sorted: "sorted_wrt (<) (map po_position_id (ps_positions s))"
    using assms(3) windows2_any_key [of po_position_id "psi_positions i"] by (auto simp: result_simps windows2_any_strict)
  have bps: "1 \<le> tp_unknown_accounting_warning_basis_points p" "tp_unknown_accounting_warning_basis_points p \<le> 10000"
    using assms(4) by (auto simp: threshold_profile_new_def split: if_splits)
  obtain st c js where set: "evaluate_position_set ops s p = Some (Ok (st, c, js))"
    using evaluate_position_set_total [OF assms(2) sorted assms(6) bps assms(7)] by blast
  have "0 \<le> du_since du (mt_instant t) (mt_instant (ps_observed_at s))"
    using documented_durationsD(2) [OF assms(1)] observed assms(5) by (meson order_trans)
  then obtain age where age: "elapsed_age du (ps_observed_at s) t = Some (Ok age)"
    "ea_duration age = du_since du (mt_instant t) (mt_instant (ps_observed_at s))"
    "0 < ea_duration age \<Longrightarrow> ea_display_seconds age \<noteq> 0"
    using elapsed_age_Ok [OF assms(1)] by blast
  have times: "\<not> (mt_instant t < mt_instant (ps_visible_at s) \<or> mt_instant t < mt_instant (ps_observed_at s))"
    using assms(5) observed by auto
  show ?thesis
    using stale_issue_eq [OF assms(1) age(2,3), of StalePositionSnapshot None "tp_max_position_snapshot_age_seconds p"]
    by (auto simp: evaluate_position_snapshot_def hash times set age(1))
qed

text \<open>
  Witnesses: an empty snapshot observed at the epoch and evaluated two minutes later; durations in
  whole seconds.
\<close>

definition sample_durations :: duration_ops where
  "sample_durations =
     \<lparr>du_since = (\<lambda>a b. max (- ((2 ^ 63 - 1) * 1000000)) (min ((2 ^ 63 - 1) * 1000000)
        ((sint (timestamp a) - sint (timestamp b)) * 1000000000))),
      du_num_seconds = (\<lambda>n. n div 1000000000),
      du_seconds = (\<lambda>s. if \<bar>s\<bar> \<le> max_seconds then Some (s * 1000000000) else None)\<rparr>"

lemma sample_durations_documented: "documented_durations sample_durations"
proof -
  have "sint (timestamp b) \<le> sint (timestamp a)" if "b \<le> a" for a b :: utc_instant
    using that by (auto simp: less_eq_utc_instant_def)
  moreover have "\<bar>max (- B) (min B x)\<bar> \<le> B" if "0 \<le> B" for B x :: int using that by auto
  ultimately show ?thesis by (simp add: documented_durations_def sample_durations_def le_max_iff_disj)
qed

definition sample_profile :: "u64 \<Rightarrow> threshold_profile" where
  "sample_profile max_age =
     \<lparr>tp_profile_snapshot_id = Ulid (replicate 26 CHR ''6''),
      tp_owner = \<lparr>tenant_id = Ulid (replicate 26 CHR ''2''), owner_id = Ulid (replicate 26 CHR ''3'')\<rparr>,
      tp_profile_ref = \<lparr>vr_id = Ulid (replicate 26 CHR ''8''), vr_version = Version 1\<rparr>,
      tp_visible_at = utc_time 0 (NaiveDate 1970 1 1), tp_effective_from = utc_time 0 (NaiveDate 1970 1 1),
      tp_effective_to = utc_time 1000 (NaiveDate 1970 1 1),
      tp_max_position_snapshot_age_seconds = max_age, tp_unknown_accounting_warning_basis_points = 5000,
      tp_max_data_snapshot_age_seconds = 100, tp_model_valuation_warning_basis_points = 5000,
      tp_content_hash = zero_hash, tp_lineage = []\<rparr>"

lemma sample_profile_accepted:
  "threshold_profile_new (\<lambda>_. zero_hash) ds (sample_profile n) = Ok (sample_profile n)"
  by (simp add: threshold_profile_new_def sample_profile_def utc_time_def less_eq_utc_instant_def less_utc_instant_def)

abbreviation evaluation_time :: market_time where
  "evaluation_time \<equiv> utc_time 120 (NaiveDate 1970 1 1)"

abbreviation sample_empty :: position_snapshot where
  "sample_empty \<equiv> sample_snapshot (utc_time 60 (NaiveDate 1970 1 1))"

lemma sample_empty_fields:
  "ps_positions sample_empty = []" "ps_content_hash sample_empty = zero_hash" "ps_lineage sample_empty \<noteq> []"
  "ps_observed_at sample_empty = utc_time 0 (NaiveDate 1970 1 1)" "ps_visible_at sample_empty = utc_time 60 (NaiveDate 1970 1 1)"
  by (simp_all add: sample_snapshot_def sample_snapshot_input_def utc_time_def)

lemma sample_since:
  "du_since sample_durations (mt_instant evaluation_time) (mt_instant (utc_time 0 (NaiveDate 1970 1 1))) = 120000000000"
  by (simp add: sample_durations_def utc_time_def)

lemma sample_age:
  "elapsed_age sample_durations (utc_time 0 (NaiveDate 1970 1 1)) evaluation_time =
     Some (Ok \<lparr>ea_duration = 120000000000, ea_display_seconds = 120\<rparr>)"
  unfolding elapsed_age_def Let_def sample_since by (simp add: sample_durations_def max_seconds_def)

lemma sample_stale:
  "stale_issue sample_durations StalePositionSnapshot None \<lparr>ea_duration = 120000000000, ea_display_seconds = 120\<rparr> 100 =
     Some (Ok [\<lparr>di_code = StalePositionSnapshot, di_affected_position_ids = [], di_data_source_ref = None,
       di_record_count = 0, di_ratio_basis_points = 0, di_observed_age_seconds = 120\<rparr>])"
  by (simp add: stale_issue_def age_exceeds_def sample_durations_def max_seconds_def data_health_issue_new_def)

lemma health_evaluation_returns_witness:
  "(\<exists>e. evaluate_position_snapshot checked_ops sample_durations (\<lambda>_. zero_hash) sample_date_text sample_empty
      (sample_profile 100) evaluation_time = Some (Ok e)) \<and>
   evaluate_position_snapshot checked_ops sample_durations (\<lambda>_. zero_hash) sample_date_text sample_empty
      (sample_profile 10000000000000000) evaluation_time = None"
proof -
  have built: "position_snapshot_new (\<lambda>_. zero_hash) sample_date_text (sample_snapshot_input (utc_time 60 (NaiveDate 1970 1 1))) = Ok sample_empty"
    by (rule sample_snapshot_ok) simp
  have later: "mt_instant (ps_visible_at sample_empty) \<le> mt_instant evaluation_time"
    unfolding sample_empty_fields by (simp add: utc_time_def less_eq_utc_instant_def)
  note eval = health_evaluation_returns [OF sample_durations_documented exact_checked_ops built sample_profile_accepted later]
  have "threshold_gap (tp_max_position_snapshot_age_seconds (sample_profile 10000000000000000))"
    "\<not> threshold_gap (tp_max_position_snapshot_age_seconds (sample_profile 100))"
    by (simp_all add: sample_profile_def threshold_gap_def max_seconds_def)
  with eval [of 100] eval [of 10000000000000000] show ?thesis by (simp add: sample_empty_fields)
qed

lemma health_report_issues_witness:
  "\<exists>e r. evaluate_position_snapshot checked_ops sample_durations (\<lambda>_. zero_hash) sample_date_text sample_empty
      (sample_profile 100) evaluation_time = Some (Ok e) \<and>
    data_health_report_new sample_durations (\<lambda>_. zero_hash) sample_date_text
      \<lparr>hi_position_snapshot = sample_empty, hi_evaluated_at = evaluation_time, hi_position_evaluation = e,
       hi_threshold_profile = sample_profile 100, hi_price_evidence = None\<rparr> = Some (Ok r) \<and>
    map di_code (hr_issues r) = [EmptyPositions, StalePositionSnapshot] \<and> hr_state r = Warning"
proof -
  have times: "\<not> mt_instant evaluation_time < mt_instant (utc_time 60 (NaiveDate 1970 1 1))"
    "\<not> mt_instant evaluation_time < mt_instant (utc_time 0 (NaiveDate 1970 1 1))"
    by (simp_all add: utc_time_def less_utc_instant_def)
  have profile: "tp_max_position_snapshot_age_seconds (sample_profile 100) = 100"
    "tp_content_hash (sample_profile 100) = zero_hash" by (simp_all add: sample_profile_def)
  note evaluation = evaluate_position_snapshot_def sample_empty_fields times evaluate_position_set_def
    data_health_issue_new_def [of EmptyPositions] sample_age profile sample_stale
  obtain e where e: "evaluate_position_snapshot checked_ops sample_durations (\<lambda>_. zero_hash) sample_date_text sample_empty
      (sample_profile 100) evaluation_time = Some (Ok e)" by (simp add: evaluation)
  then have fields: "he_position_snapshot_hash e = zero_hash" "he_evaluated_at e = evaluation_time"
      "he_threshold_profile_ref e = tp_profile_ref (sample_profile 100)" "he_threshold_profile_hash e = zero_hash"
      "he_position_set_state e = VerifiedEmpty" "he_coverage e = for_verified_empty \<lparr>ve_content_hash = zero_hash\<rparr>"
    by (auto simp: evaluation)
  obtain r where r: "data_health_report_new sample_durations (\<lambda>_. zero_hash) sample_date_text
      \<lparr>hi_position_snapshot = sample_empty, hi_evaluated_at = evaluation_time, hi_position_evaluation = e,
       hi_threshold_profile = sample_profile 100, hi_price_evidence = None\<rparr> = Some (Ok r)"
    by (simp add: data_health_report_new_def Let_def sample_empty_fields fields price_evidence_issues_def lineage_ref_new_def
        validate_position_pair_def for_verified_empty_def profile)
  have "raised sample_durations sample_empty (sample_profile 100) evaluation_time None EmptyPositions"
    by (simp add: sample_empty_fields)
  moreover have "filter (raised sample_durations sample_empty (sample_profile 100) evaluation_time None) all_codes =
      [EmptyPositions, StalePositionSnapshot]"
    by (simp add: all_codes_def sample_empty_fields unknown_position_ids_def sample_since) (simp add: sample_profile_def)
  ultimately show ?thesis
    using health_report_issues [OF sample_durations_documented sample_profile_accepted e r] e r by metis
qed

end
