(* ===== verification/Simulated_Book.thy ===== *)
theory Simulated_Book
  imports Market_Bar
begin

text \<open>
  The values a policy reads and writes (\<open>ficant-domain/src/replay/mod.rs\<close>): the point-in-time
  view, whose constructor refuses a bar that is not visible yet, the target exposure, and the
  simulated book of positions and cash. A position that becomes zero leaves the book, so a book
  reached by trades holds no zero position.
\<close>

section \<open>Definitions\<close>

record point_in_time_view =
  pit_decision_time :: utc_instant
  pit_bars :: "bar list"

definition point_in_time_view_new :: "utc_instant \<Rightarrow> bar list \<Rightarrow> point_in_time_view domain_result" where
  "point_in_time_view_new decision_time bars =
     (if \<exists>b \<in> set bars. bar_visible_at b > decision_time then Err InvalidEffectiveTime
      else Ok \<lparr>pit_decision_time = decision_time, pit_bars = bars\<rparr>)"

text \<open>\<open>Iterator::max_by_key\<close> returns the last element with the greatest key.\<close>

definition max_by_key :: "('a \<Rightarrow> 'k::linorder) \<Rightarrow> 'a list \<Rightarrow> 'a option" where
  "max_by_key key xs =
     fold (\<lambda>x best. case best of None \<Rightarrow> Some x | Some b \<Rightarrow> if key x < key b then Some b else Some x) xs None"

definition latest_with_yield ::
  "point_in_time_view \<Rightarrow> version_ref \<Rightarrow> bar_frequency \<Rightarrow> bar_settlement \<Rightarrow> bar option" where
  "latest_with_yield view instrument frequency settlement =
     max_by_key (\<lambda>b. (bar_end b, source_record_id b))
       (filter (\<lambda>b. bar_instrument b = instrument \<and> bar_frequency b = frequency \<and>
          bar_settlement b = settlement \<and> bar_close_yield b \<noteq> None) (pit_bars view))"

type_synonym 'd target_exposure = "(version_ref, 'd) btree_map"

definition target_set :: "version_ref \<Rightarrow> 'd \<Rightarrow> 'd target_exposure \<Rightarrow> 'd target_exposure" where
  "target_set instrument face target = bt_insert instrument face target"

record 'd simulated_book =
  sb_positions :: "(version_ref, 'd) btree_map"
  sb_cash :: 'd

definition empty_book :: "'d decimal_ops \<Rightarrow> 'd simulated_book" where
  "empty_book ops = \<lparr>sb_positions = [], sb_cash = d_zero ops\<rparr>"

definition position_of :: "'d decimal_ops \<Rightarrow> 'd simulated_book \<Rightarrow> version_ref \<Rightarrow> 'd" where
  "position_of ops book instrument =
     (case map_of (sb_positions book) instrument of None \<Rightarrow> d_zero ops | Some face \<Rightarrow> face)"

definition add_position :: "'d decimal_ops \<Rightarrow> version_ref \<Rightarrow> 'd \<Rightarrow> 'd simulated_book \<Rightarrow> 'd simulated_book" where
  "add_position ops instrument face book =
     (let position = d_add ops (position_of ops book instrument) face in
      if d_is_zero ops position then book\<lparr>sb_positions := bt_remove instrument (sb_positions book)\<rparr>
      else book\<lparr>sb_positions := bt_insert instrument (d_normalize ops position) (sb_positions book)\<rparr>)"

definition add_cash :: "'d decimal_ops \<Rightarrow> 'd \<Rightarrow> 'd simulated_book \<Rightarrow> 'd simulated_book" where
  "add_cash ops amount book = book\<lparr>sb_cash := d_normalize ops (d_add ops (sb_cash book) amount)\<rparr>"

definition with_pending ::
  "'d decimal_ops \<Rightarrow> (version_ref \<times> 'd) list \<Rightarrow> 'd simulated_book \<Rightarrow> 'd simulated_book" where
  "with_pending ops intents book =
     fold (\<lambda>(instrument, face) projected. add_position ops instrument face projected) intents book"

definition deltas_toward ::
  "'d decimal_ops \<Rightarrow> 'd simulated_book \<Rightarrow> 'd target_exposure \<Rightarrow> (version_ref \<times> 'd) list" where
  "deltas_toward ops book target =
     List.map_filter (\<lambda>(instrument, face).
       let delta = d_sub ops face (position_of ops book instrument)
       in if d_is_zero ops delta then None else Some (instrument, d_normalize ops delta)) target"

section \<open>The book\<close>

lemma add_position_cash [simp]: "sb_cash (add_position ops i f b) = sb_cash b"
  by (simp add: add_position_def Let_def)

lemma add_cash_positions [simp]: "sb_positions (add_cash ops a b) = sb_positions b"
  by (simp add: add_cash_def)

lemma position_add_cash [simp]: "position_of ops (add_cash ops a b) i = position_of ops b i"
  by (simp add: position_of_def)

text \<open>A book as trades leave it: ordered, and without zero positions.\<close>

definition book_ok :: "'d decimal_ops \<Rightarrow> 'd simulated_book \<Rightarrow> bool" where
  "book_ok ops book \<longleftrightarrow> bt_ok (sb_positions book) \<and>
     (\<forall>(instrument, face) \<in> set (sb_positions book). \<not> d_is_zero ops face)"

lemma book_ok_empty [simp]: "book_ok ops (empty_book ops)"
  by (simp add: book_ok_def empty_book_def)

lemma book_ok_cash [simp]: "book_ok ops (add_cash ops a b) \<longleftrightarrow> book_ok ops b"
  by (simp add: book_ok_def)

lemma book_ok_position:
  "book_ok ops b \<Longrightarrow> map_of (sb_positions b) i = Some f \<Longrightarrow> \<not> d_is_zero ops f"
  by (auto simp: book_ok_def dest: map_of_SomeD)

lemma set_bt_insert_subset: "set (bt_insert k v m) \<subseteq> insert (k, v) (set m)"
  by (induction k v m rule: bt_insert.induct) auto

lemma rat_book_ok_add_position:
  "book_ok rat_ops b \<Longrightarrow> book_ok rat_ops (add_position rat_ops i f b)"
  using set_bt_insert_subset [of i "position_of rat_ops b i + f" "sb_positions b"]
  by (auto simp: book_ok_def add_position_def Let_def bt_ok_insert bt_ok_remove) (auto simp: bt_remove_def)

lemma rat_position_add:
  "position_of rat_ops (add_position rat_ops i f b) j = position_of rat_ops b j + (if j = i then f else 0)"
  by (auto simp: add_position_def Let_def position_of_def)

lemma rat_with_pending:
  "position_of rat_ops (with_pending rat_ops intents b) j =
     position_of rat_ops b j + (\<Sum>(i, f) \<leftarrow> intents. if i = j then f else 0)"
  unfolding with_pending_def
  by (induction intents arbitrary: b) (auto simp: rat_position_add)

lemma rat_deltas:
  "(i, q) \<in> set (deltas_toward rat_ops b target) \<longleftrightarrow>
     (\<exists>f. (i, f) \<in> set target \<and> q = f - position_of rat_ops b i \<and> q \<noteq> 0)"
  by (auto simp: deltas_toward_def List.map_filter_def Let_def split: if_splits intro!: rev_image_eqI)

end
