(* ===== verification/Subject_Constraints.thy ===== *)
theory Subject_Constraints
  imports Simulated_Book
begin

text \<open>
  Subjects and their constraint sets (\<open>ficant-domain/src/subject.rs\<close> and
  \<open>ficant-domain/src/constraint.rs\<close>): who trades, under which funding tier and limits, the state
  snapshot that carries the ceilings of the limits, and the join of the two by limit code. The
  theory shows when the join succeeds and what it yields.
\<close>

section \<open>Subjects\<close>

definition require_text :: "string \<Rightarrow> unit domain_result" where
  "require_text value = (if blank_or_padded value then Err InvalidValue else Ok ())"

record subject =
  sj_subject_id :: ulid
  sj_display_name :: string
  sj_owner :: "owner_ref option"

definition subject_build :: "ulid \<Rightarrow> string \<Rightarrow> owner_ref option \<Rightarrow> subject domain_result" where
  "subject_build subject_id display_name owner =
     and_then (require_text display_name) (\<lambda>_.
     if length display_name > 256 then Err InvalidValue
     else Ok \<lparr>sj_subject_id = subject_id, sj_display_name = display_name, sj_owner = owner\<rparr>)"

definition subject_new :: "ulid \<Rightarrow> string \<Rightarrow> subject domain_result" where
  "subject_new subject_id display_name = subject_build subject_id display_name None"

definition subject_new_owned :: "ulid \<Rightarrow> owner_ref \<Rightarrow> string \<Rightarrow> subject domain_result" where
  "subject_new_owned subject_id owner display_name = subject_build subject_id display_name (Some owner)"

fun require_texts :: "string list \<Rightarrow> unit domain_result" where
  "require_texts [] = Ok ()"
| "require_texts (v # vs) = and_then (require_text v) (\<lambda>_. require_texts vs)"

definition canonical_codes :: "string list \<Rightarrow> string list domain_result" where
  "canonical_codes values =
     and_then (require_texts values) (\<lambda>_. Ok (remdups_adj (sort values)))"

record access_set =
  as_market_codes :: "string list"
  as_tool_codes :: "string list"

definition access_set_new :: "string list \<Rightarrow> string list \<Rightarrow> access_set domain_result" where
  "access_set_new markets tools =
     and_then (canonical_codes markets) (\<lambda>market_codes.
     and_then (canonical_codes tools) (\<lambda>tool_codes.
     Ok \<lparr>as_market_codes = market_codes, as_tool_codes = tool_codes\<rparr>))"

datatype funding_tier = DrAvailable | ROnly

record tax_treatment =
  tt_value_added_tax_profile :: string
  tt_income_tax_profile :: string

definition tax_treatment_new :: "string \<Rightarrow> string \<Rightarrow> tax_treatment domain_result" where
  "tax_treatment_new value_added_tax_profile income_tax_profile =
     and_then (require_text value_added_tax_profile) (\<lambda>_.
     and_then (require_text income_tax_profile) (\<lambda>_.
     Ok \<lparr>tt_value_added_tax_profile = value_added_tax_profile, tt_income_tax_profile = income_tax_profile\<rparr>))"

record subject_version =
  sv_reference :: version_ref
  sv_access_set :: access_set
  sv_funding_tier :: funding_tier
  sv_tax_treatment :: tax_treatment
  sv_assessment_mechanism :: string
  sv_liability_profile :: string
  sv_constraint_set_ref :: "version_ref option"

definition subject_version_new ::
  "version_ref \<Rightarrow> access_set \<Rightarrow> funding_tier \<Rightarrow> tax_treatment \<Rightarrow> string \<Rightarrow> string \<Rightarrow> version_ref option \<Rightarrow>
   subject_version domain_result" where
  "subject_version_new reference access funding_tier tax assessment_mechanism liability_profile constraint_set_ref =
     and_then (require_text assessment_mechanism) (\<lambda>_.
     and_then (require_text liability_profile) (\<lambda>_.
     Ok \<lparr>sv_reference = reference, sv_access_set = access, sv_funding_tier = funding_tier,
         sv_tax_treatment = tax, sv_assessment_mechanism = assessment_mechanism,
         sv_liability_profile = liability_profile, sv_constraint_set_ref = constraint_set_ref\<rparr>))"

record subject_record =
  sr_subject :: subject
  sr_version :: subject_version

definition subject_record_new :: "subject \<Rightarrow> subject_version \<Rightarrow> subject_record domain_result" where
  "subject_record_new sj version =
     (if sj_subject_id sj \<noteq> vr_id (sv_reference version) then Err VersionConflict
      else Ok \<lparr>sr_subject = sj, sr_version = version\<rparr>)"

section \<open>State snapshots\<close>

record limit_ceiling =
  lc_limit_code :: string
  lc_ceiling :: decimal_value

definition limit_ceiling_new :: "string \<Rightarrow> decimal_value \<Rightarrow> limit_ceiling domain_result" where
  "limit_ceiling_new limit_code value =
     and_then (require_text limit_code) (\<lambda>_. Ok \<lparr>lc_limit_code = limit_code, lc_ceiling = value\<rparr>)"

record subject_state_snapshot =
  ss_snapshot_id :: ulid
  ss_subject_ref :: version_ref
  ss_net_capital :: decimal_value
  ss_limit_ceilings :: "limit_ceiling list"
  ss_observed_at :: utc_instant
  ss_visible_at :: utc_instant
  ss_market_timezone :: string
  ss_owner :: "owner_ref option"

text \<open>The loop that inserts every code into a set and stops at the first one already there.\<close>

fun codes_unique :: "string btree_set \<Rightarrow> limit_ceiling list \<Rightarrow> unit domain_result" where
  "codes_unique codes [] = Ok ()"
| "codes_unique codes (c # cs) =
     (if lc_limit_code c \<in> set codes then Err InvalidValue
      else codes_unique (bset_insert (lc_limit_code c) codes) cs)"

definition state_snapshot_build ::
  "chrono_ops \<Rightarrow> ulid \<Rightarrow> version_ref \<Rightarrow> decimal_value \<Rightarrow> limit_ceiling list \<Rightarrow> utc_instant \<Rightarrow> utc_instant \<Rightarrow>
   string \<Rightarrow> owner_ref option \<Rightarrow> subject_state_snapshot domain_result" where
  "state_snapshot_build ch snapshot_id subject_ref net_capital limit_ceilings observed_at visible_at
     market_timezone owner =
     (if ch_parse_zone ch market_timezone = None then Err InvalidEffectiveTime
      else if observed_at > visible_at then Err InvalidEffectiveTime
      else
        let limit_ceilings = sort_key lc_limit_code limit_ceilings in
        and_then (codes_unique [] limit_ceilings) (\<lambda>_.
        Ok \<lparr>ss_snapshot_id = snapshot_id, ss_subject_ref = subject_ref, ss_net_capital = net_capital,
            ss_limit_ceilings = limit_ceilings, ss_observed_at = observed_at, ss_visible_at = visible_at,
            ss_market_timezone = market_timezone, ss_owner = owner\<rparr>))"

definition state_snapshot_new ::
  "chrono_ops \<Rightarrow> ulid \<Rightarrow> version_ref \<Rightarrow> decimal_value \<Rightarrow> limit_ceiling list \<Rightarrow> utc_instant \<Rightarrow> utc_instant \<Rightarrow>
   string \<Rightarrow> subject_state_snapshot domain_result" where
  "state_snapshot_new ch snapshot_id subject_ref net_capital limit_ceilings observed_at visible_at market_timezone =
     state_snapshot_build ch snapshot_id subject_ref net_capital limit_ceilings observed_at visible_at
       market_timezone None"

definition state_snapshot_new_owned ::
  "chrono_ops \<Rightarrow> ulid \<Rightarrow> version_ref \<Rightarrow> decimal_value \<Rightarrow> limit_ceiling list \<Rightarrow> utc_instant \<Rightarrow> utc_instant \<Rightarrow>
   string \<Rightarrow> owner_ref \<Rightarrow> subject_state_snapshot domain_result" where
  "state_snapshot_new_owned ch snapshot_id subject_ref net_capital limit_ceilings observed_at visible_at
     market_timezone owner =
     state_snapshot_build ch snapshot_id subject_ref net_capital limit_ceilings observed_at visible_at
       market_timezone (Some owner)"

section \<open>Constraint sets\<close>

datatype constraint_measure = InstrumentFace | PortfolioFace | BorrowedCash

fun measure_code :: "constraint_measure \<Rightarrow> string" where
  "measure_code InstrumentFace = ''INSTRUMENT_FACE''"
| "measure_code PortfolioFace = ''PORTFOLIO_FACE''"
| "measure_code BorrowedCash = ''BORROWED_CASH''"

text \<open>The derived order of the enumeration.\<close>

fun measure_index :: "constraint_measure \<Rightarrow> nat" where
  "measure_index InstrumentFace = 0"
| "measure_index PortfolioFace = 1"
| "measure_index BorrowedCash = 2"

record constraint_definition =
  cd_limit_code :: string
  cd_measure :: constraint_measure

definition constraint_definition_new ::
  "string \<Rightarrow> constraint_measure \<Rightarrow> constraint_definition domain_result" where
  "constraint_definition_new limit_code measured =
     (if blank_or_padded limit_code then Err InvalidValue
      else Ok \<lparr>cd_limit_code = limit_code, cd_measure = measured\<rparr>)"

record constraint_set =
  cs_rule_pack :: version_ref
  cs_definitions :: "constraint_definition list"

definition constraint_set_new ::
  "version_ref \<Rightarrow> constraint_definition list \<Rightarrow> constraint_set domain_result" where
  "constraint_set_new rule_pack definitions =
     (let definitions = sort_key (\<lambda>d. (cd_limit_code d, measure_index (cd_measure d))) definitions in
      if definitions = [] \<or> windows2_any (\<lambda>a b. cd_limit_code a = cd_limit_code b) definitions
      then Err InvalidValue
      else Ok \<lparr>cs_rule_pack = rule_pack, cs_definitions = definitions\<rparr>)"

record bound_constraint =
  bc_definition :: constraint_definition
  bc_ceiling :: decimal_value

definition bind_definition ::
  "subject_state_snapshot \<Rightarrow> constraint_definition \<Rightarrow> bound_constraint domain_result" where
  "bind_definition state d =
     and_then (ok_or (find (\<lambda>c. lc_limit_code c = cd_limit_code d) (ss_limit_ceilings state)) BrokenLineage) (\<lambda>c.
     if dv_is_negative (lc_ceiling c) then Err InvalidValue
     else Ok \<lparr>bc_definition = d, bc_ceiling = lc_ceiling c\<rparr>)"

definition constraint_set_bind ::
  "constraint_set \<Rightarrow> version_ref \<Rightarrow> subject_state_snapshot \<Rightarrow> bound_constraint list domain_result" where
  "constraint_set_bind self sj state =
     (if ss_subject_ref state \<noteq> sj then Err BrokenLineage
      else try_map (bind_definition state) (cs_definitions self))"

section \<open>What the constructors establish\<close>

lemma codes_unique_Ok:
  "codes_unique codes cs = Ok u \<longleftrightarrow>
     distinct (map lc_limit_code cs) \<and> set codes \<inter> lc_limit_code ` set cs = {}"
  by (induction codes cs rule: codes_unique.induct) auto

text \<open>
  A snapshot is accepted exactly when the zone is known, it was observed before it was visible
  and no limit has two ceilings; the order in which the ceilings were given is forgotten.
\<close>

lemma state_snapshot_Ok:
  "state_snapshot_build ch i r n cs t v z ow = Ok s \<longleftrightarrow>
     ch_parse_zone ch z \<noteq> None \<and> t \<le> v \<and> distinct (map lc_limit_code cs) \<and>
     s = \<lparr>ss_snapshot_id = i, ss_subject_ref = r, ss_net_capital = n,
          ss_limit_ceilings = sort_key lc_limit_code cs, ss_observed_at = t, ss_visible_at = v,
          ss_market_timezone = z, ss_owner = ow\<rparr>"
proof -
  have "distinct (map lc_limit_code (sort_key lc_limit_code cs)) \<longleftrightarrow> distinct (map lc_limit_code cs)"
    by (metis mset_eq_imp_distinct_iff mset_map mset_sort)
  then show ?thesis
    by (auto simp: state_snapshot_build_def Let_def result_simps codes_unique_Ok)
qed

lemma constraint_set_Ok:
  assumes "constraint_set_new rp ds = Ok self"
  shows "cs_rule_pack self = rp" "cs_definitions self \<noteq> []"
    "sorted_wrt (\<lambda>a b. cd_limit_code a < cd_limit_code b) (cs_definitions self)"
    "mset (cs_definitions self) = mset ds"
proof -
  let ?key = "\<lambda>d. (cd_limit_code d, measure_index (cd_measure d))"
  have self: "self = \<lparr>cs_rule_pack = rp, cs_definitions = sort_key ?key ds\<rparr>" and ne: "ds \<noteq> []"
    and un: "\<not> windows2_any (\<lambda>a b. cd_limit_code a = cd_limit_code b) (sort_key ?key ds)"
    using assms by (auto simp: constraint_set_new_def Let_def split: if_splits)
  have "sorted (map cd_limit_code (sort_key ?key ds))"
  proof -
    have "sorted (map ?key (sort_key ?key ds))" by simp
    then show ?thesis by (auto simp: sorted_wrt_map elim!: sorted_wrt_mono_rel [rotated])
  qed
  with un show "sorted_wrt (\<lambda>a b. cd_limit_code a < cd_limit_code b) (cs_definitions self)"
    unfolding self using windows2_any_sorted [of cd_limit_code] by (auto simp: strict_sorted_iff simp flip: sorted_wrt_map)
  show "cs_rule_pack self = rp" "cs_definitions self \<noteq> []" "mset (cs_definitions self) = mset ds"
    by (simp_all add: self ne)
qed

end
