(* ===== verification/Governance.thy ===== *)
theory Governance
  imports Subject_Constraints Position_Snapshot
begin

text \<open>
  Governed changes (\<open>ficant-domain/src/governance.rs\<close>): the evidence a change cites, the resource it
  touches, the record of the change, and the identity derived for an idempotent change. The
  theory shows that this identity fixes the actor, the resource and the idempotency key, up to
  a collision of the first 128 bits of SHA-256, and does not depend on the clock.

  \<open>ulid_text\<close> is \<open>ulid::Ulid::from_bytes(..).to_string()\<close>, \<open>ulid_reparse\<close> parsing followed by printing.
\<close>

section \<open>Justifications\<close>

datatype platform_role = PlatformAdmin | Researcher

record source_document_ref =
  sd_uri :: string
  sd_sha256 :: content_hash

text \<open>
  \<open>chars().any(char::is_control)\<close> on UTF-8: the ASCII controls and \<open>U+0080\<close> to \<open>U+009F\<close>, which are
  written \<open>0xC2\<close> and a byte from \<open>0x80\<close> to \<open>0x9F\<close>.
\<close>

fun any_control :: "string \<Rightarrow> bool" where
  "any_control [] = False"
| "any_control (c # cs) =
     ((of_char c :: nat) < 32 \<or> (of_char c :: nat) = 127
      \<or> ((of_char c :: nat) = 194 \<and> (case cs of d # _ \<Rightarrow> 128 \<le> (of_char d :: nat) \<and> (of_char d :: nat) < 160 | [] \<Rightarrow> False))
      \<or> any_control cs)"

definition source_document_ref_new :: "string \<Rightarrow> content_hash \<Rightarrow> source_document_ref domain_result" where
  "source_document_ref_new uri sha =
     and_then (require_text uri) (\<lambda>_.
     if length uri > 2048 \<or> any_control uri then Err InvalidValue
     else Ok \<lparr>sd_uri = uri, sd_sha256 = sha\<rparr>)"

record change_justification =
  cj_reason :: string
  cj_sources :: "source_document_ref list"

definition validate_reason :: "string \<Rightarrow> string domain_result" where
  "validate_reason reason =
     and_then (require_text reason) (\<lambda>_.
     if length reason > 1024 \<or> any_control reason then Err InvalidValue else Ok reason)"

definition change_justification_new ::
  "string \<Rightarrow> source_document_ref list \<Rightarrow> change_justification domain_result" where
  "change_justification_new reason sources =
     and_then (validate_reason reason) (\<lambda>reason.
     let sources = remdups_adj (sort_key (\<lambda>d. (sd_uri d, sd_sha256 d)) sources) in
     if sources = [] then Err InvalidValue
     else Ok \<lparr>cj_reason = reason, cj_sources = sources\<rparr>)"

definition for_authorized_import :: "string \<Rightarrow> change_justification domain_result" where
  "for_authorized_import reason =
     and_then (validate_reason reason) (\<lambda>reason. Ok \<lparr>cj_reason = reason, cj_sources = []\<rparr>)"

definition is_authorized_import_reason :: "change_justification \<Rightarrow> bool" where
  "is_authorized_import_reason c \<longleftrightarrow> cj_sources c = []"

section \<open>Resources\<close>

datatype foundation_resource_kind =
    DataSource
  | DataSourceAuthorization
  | MarketDefinition
  | MarketFact
  | CurveSnapshot
  | DataSnapshot
  | UniverseSnapshot
  | SubjectKind
  | SubjectState
  | PositionSnapshot
  | DataHealthThresholdProfile

fun kind_text :: "foundation_resource_kind \<Rightarrow> string" where
  "kind_text DataSource = ''data-source''"
| "kind_text DataSourceAuthorization = ''data-source-authorization''"
| "kind_text MarketDefinition = ''market-definition''"
| "kind_text MarketFact = ''market-fact''"
| "kind_text CurveSnapshot = ''curve-snapshot''"
| "kind_text DataSnapshot = ''data-snapshot''"
| "kind_text UniverseSnapshot = ''universe-snapshot''"
| "kind_text SubjectKind = ''subject''"
| "kind_text SubjectState = ''subject-state''"
| "kind_text PositionSnapshot = ''position-snapshot''"
| "kind_text DataHealthThresholdProfile = ''data-health-threshold-profile''"

definition is_versioned :: "foundation_resource_kind \<Rightarrow> bool" where
  "is_versioned k \<longleftrightarrow>
     k \<in> {DataSource, DataSourceAuthorization, MarketDefinition, SubjectKind, DataHealthThresholdProfile}"

record foundation_resource_ref =
  fr_kind :: foundation_resource_kind
  fr_id :: ulid
  fr_version :: "version option"

definition resource_versioned :: "foundation_resource_kind \<Rightarrow> version_ref \<Rightarrow> foundation_resource_ref" where
  "resource_versioned kind reference =
     \<lparr>fr_kind = kind, fr_id = vr_id reference, fr_version = Some (vr_version reference)\<rparr>"

definition resource_unversioned :: "foundation_resource_kind \<Rightarrow> ulid \<Rightarrow> foundation_resource_ref" where
  "resource_unversioned kind i = \<lparr>fr_kind = kind, fr_id = i, fr_version = None\<rparr>"

definition canonical_ref :: "foundation_resource_ref \<Rightarrow> string" where
  "canonical_ref r =
     (case fr_version r of
        None \<Rightarrow> kind_text (fr_kind r) @ '':'' @ ulid_str (fr_id r)
      | Some version \<Rightarrow> kind_text (fr_kind r) @ '':'' @ ulid_str (fr_id r) @ ''@'' @ version_text version)"

section \<open>The identity of a change\<close>

definition change_record_bytes :: "ulid \<Rightarrow> foundation_resource_ref \<Rightarrow> string \<Rightarrow> bytes" where
  "change_record_bytes actor_id resource idempotency_key =
     as_bytes ''ficant.foundation-change-record.v1''
     @ push_bytes (as_bytes (ulid_str actor_id))
     @ push_bytes (as_bytes (canonical_ref resource))
     @ push_bytes (as_bytes idempotency_key)"

definition deterministic_change_record_id ::
  "sha256_fn \<Rightarrow> (bytes \<Rightarrow> string) \<Rightarrow> (string \<Rightarrow> string option) \<Rightarrow>
   market_time \<Rightarrow> ulid \<Rightarrow> foundation_resource_ref \<Rightarrow> string \<Rightarrow> ulid domain_result" where
  "deterministic_change_record_id sha256 ulid_text ulid_reparse occurred_at actor_id resource idempotency_key =
     and_then (require_text idempotency_key) (\<lambda>_.
     if length idempotency_key > 256 then Err InvalidValue
     else
       let digest = hash_bytes (sha256 (change_record_bytes actor_id resource idempotency_key)) in
       ulid_new ulid_reparse (ulid_text (take 16 digest)))"

section \<open>The record of a change\<close>

datatype foundation_change_operation =
    RegisterDataSource
  | PublishDataSourceAuthorization
  | AppendMarketDefinition
  | AppendMarketFact
  | CorrectMarketFact
  | PublishCurveSnapshot
  | ImportCanonicalQuoteSnapshot
  | PublishUniverseSnapshot
  | RegisterSubject
  | PublishSubjectState
  | PublishPositionSnapshot
  | ConfigureDataHealthThreshold

fun operation_text :: "foundation_change_operation \<Rightarrow> string" where
  "operation_text RegisterDataSource = ''data-source.register''"
| "operation_text PublishDataSourceAuthorization = ''data-source-authorization.publish''"
| "operation_text AppendMarketDefinition = ''market-definition.append''"
| "operation_text AppendMarketFact = ''market-fact.append''"
| "operation_text CorrectMarketFact = ''market-fact.correct''"
| "operation_text PublishCurveSnapshot = ''curve-snapshot.publish''"
| "operation_text ImportCanonicalQuoteSnapshot = ''data-snapshot.import-canonical-quotes''"
| "operation_text PublishUniverseSnapshot = ''universe-snapshot.publish''"
| "operation_text RegisterSubject = ''subject.register''"
| "operation_text PublishSubjectState = ''subject-state.publish''"
| "operation_text PublishPositionSnapshot = ''position-snapshot.publish''"
| "operation_text ConfigureDataHealthThreshold = ''data-health-threshold.configure''"

fun resource_kind :: "foundation_change_operation \<Rightarrow> foundation_resource_kind" where
  "resource_kind RegisterDataSource = DataSource"
| "resource_kind PublishDataSourceAuthorization = DataSourceAuthorization"
| "resource_kind AppendMarketDefinition = MarketDefinition"
| "resource_kind AppendMarketFact = MarketFact"
| "resource_kind CorrectMarketFact = MarketFact"
| "resource_kind PublishCurveSnapshot = CurveSnapshot"
| "resource_kind ImportCanonicalQuoteSnapshot = DataSnapshot"
| "resource_kind PublishUniverseSnapshot = UniverseSnapshot"
| "resource_kind RegisterSubject = SubjectKind"
| "resource_kind PublishSubjectState = SubjectState"
| "resource_kind PublishPositionSnapshot = PositionSnapshot"
| "resource_kind ConfigureDataHealthThreshold = DataHealthThresholdProfile"

text \<open>The record has the fields of its input.\<close>

record foundation_change_record =
  fc_record_id :: ulid
  fc_actor_id :: ulid
  fc_owner :: owner_ref
  fc_active_role :: platform_role
  fc_operation :: foundation_change_operation
  fc_resource :: foundation_resource_ref
  fc_before_hash :: "content_hash option"
  fc_after_hash :: content_hash
  fc_change :: change_justification
  fc_request_fingerprint :: content_hash
  fc_occurred_at :: market_time
  fc_authorization_ref :: "version_ref option"

definition foundation_change_record_new ::
  "foundation_change_record \<Rightarrow> foundation_change_record domain_result" where
  "foundation_change_record_new input =
     (let is_import = (fc_operation input = ImportCanonicalQuoteSnapshot) in
      if is_authorized_import_reason (fc_change input) \<noteq> is_import
        \<or> is_import \<noteq> (fc_authorization_ref input \<noteq> None)
        \<or> is_import \<and> fc_active_role input \<noteq> Researcher
        \<or> \<not> is_import \<and> fc_active_role input \<noteq> PlatformAdmin
        \<or> fr_kind (fc_resource input) \<noteq> resource_kind (fc_operation input)
        \<or> (fr_version (fc_resource input) \<noteq> None) \<noteq> is_versioned (fr_kind (fc_resource input))
      then Err InvalidValue else Ok input)"

section \<open>References determine their resource\<close>

lemma kind_text_no_colon: "CHR '':'' \<notin> set (kind_text k)"
  by (cases k) simp_all

lemma kind_text_inject [simp]: "kind_text k = kind_text l \<longleftrightarrow> k = l"
  by (cases k; cases l) simp_all

lemma split_at_char: "c \<notin> set a \<Longrightarrow> c \<notin> set b \<Longrightarrow> a @ c # r = b @ c # s \<longleftrightarrow> a = b \<and> r = s"
proof (induction a arbitrary: b)
  case Nil
  then show ?case by (cases b) auto
next
  case (Cons x a)
  then show ?case by (cases b) auto
qed

lemma canonical_ref_inject:
  assumes eq: "canonical_ref r = canonical_ref s" and ok: "ulid_ok p (fr_id r)" "ulid_ok p (fr_id s)"
  shows "r = s"
proof -
  define tail where "tail r = (case fr_version r of None \<Rightarrow> [] | Some v \<Rightarrow> CHR ''@'' # version_text v)"
    for r :: foundation_resource_ref
  have shape: "canonical_ref r = kind_text (fr_kind r) @ CHR '':'' # ulid_str (fr_id r) @ tail r" for r
    by (simp add: canonical_ref_def tail_def split: option.split)
  have kinds: "fr_kind r = fr_kind s" and rest: "ulid_str (fr_id r) @ tail r = ulid_str (fr_id s) @ tail s"
    using eq unfolding shape split_at_char [OF kind_text_no_colon kind_text_no_colon] by simp_all
  have "length (ulid_str (fr_id r)) = length (ulid_str (fr_id s))" using ok by (simp add: ulid_ok_iff)
  with rest have "fr_id r = fr_id s" and "tail r = tail s" by (simp_all add: ulid.expand)
  moreover from this(2) have "fr_version r = fr_version s" by (auto simp: tail_def split: option.splits)
  ultimately show ?thesis using kinds by (intro foundation_resource_ref.equality) simp_all
qed

lemma change_record_bytes_inject:
  assumes "change_record_bytes a r k = change_record_bytes b s l"
    and "length (change_record_bytes a r k) < usize_limit" "ulid_ok p (fr_id r)" "ulid_ok p (fr_id s)"
  shows "a = b \<and> r = s \<and> k = l"
proof -
  let ?blocks = "\<lambda>a r k. [as_bytes (ulid_str a), as_bytes (canonical_ref r), as_bytes k]"
  have bytes: "change_record_bytes a r k =
      as_bytes ''ficant.foundation-change-record.v1'' @ concat (map push_bytes (?blocks a r k))" for a r k
    by (simp add: change_record_bytes_def)
  have "concat (map push_bytes (?blocks a r k)) = concat (map push_bytes (?blocks b s l))"
    using assms(1) unfolding bytes by (rule same_append_eq [THEN iffD1])
  moreover have "length (concat (map push_bytes (?blocks a r k))) < usize_limit"
    using assms(2) unfolding bytes by simp
  ultimately have "?blocks a r k = ?blocks b s l" by (rule blocks_inject)
  then show ?thesis using canonical_ref_inject assms(3,4) by (auto intro: ulid.expand)
qed

text \<open>
  C40: the identity of an idempotent change fixes the change. Two changes given the same record
  identity, whatever the clock said, have the same actor, the same resource in kind, identifier
  and version, and the same idempotency key, or the first 16 bytes of two different SHA-256
  inputs agree.
\<close>

theorem change_record_id_identifies:
  assumes "deterministic_change_record_id sha256 ulid_text ulid_reparse t a r k = Ok u"
    and "deterministic_change_record_id sha256 ulid_text ulid_reparse t' b s l = Ok u"
    and "inj_on ulid_text {bs. length bs = 16}" "ulid_ok p (fr_id r)" "ulid_ok p (fr_id s)"
    and "length (change_record_bytes a r k) < usize_limit"
  shows "(a = b \<and> r = s \<and> k = l) \<or>
    (change_record_bytes a r k \<noteq> change_record_bytes b s l \<and>
     take 16 (hash_bytes (sha256 (change_record_bytes a r k))) = take 16 (hash_bytes (sha256 (change_record_bytes b s l))))"
proof -
  let ?x = "change_record_bytes a r k" and ?y = "change_record_bytes b s l"
  have "ulid_text (take 16 (hash_bytes (sha256 ?x))) = ulid_str u" "ulid_text (take 16 (hash_bytes (sha256 ?y))) = ulid_str u"
    using assms(1,2) by (auto simp: deterministic_change_record_id_def Let_def result_simps split: if_splits)
  then have "take 16 (hash_bytes (sha256 ?x)) = take 16 (hash_bytes (sha256 ?y))"
    using assms(3) by (intro inj_onD [of ulid_text "{bs. length bs = 16}"]) simp_all
  then show ?thesis using change_record_bytes_inject assms(4-6) by blast
qed

definition sample_resource :: "u64 \<Rightarrow> foundation_resource_ref" where
  "sample_resource v = \<lparr>fr_kind = DataSource, fr_id = Ulid (replicate 26 CHR ''D''), fr_version = Some (Version v)\<rparr>"

text \<open>Base-32 digits of the 128-bit number, least significant first, as the letters from A on.\<close>

definition sample_ulid_text :: "bytes \<Rightarrow> string" where
  "sample_ulid_text bs = map (\<lambda>i. char_of (65 + be_nat bs div 32 ^ i mod 32)) [0..<26]"

lemma base32_unique:
  "\<forall>i < k. n div 32 ^ i mod 32 = m div 32 ^ i mod (32 :: nat) \<Longrightarrow> n < 32 ^ k \<Longrightarrow> m < 32 ^ k \<Longrightarrow> n = m"
proof (induction k arbitrary: n m)
  case (Suc k)
  have "n mod 32 = m mod 32" using Suc.prems(1) by (metis div_by_1 power_0 zero_less_Suc)
  moreover have "n div 32 = m div 32"
  proof (rule Suc.IH)
    show "\<forall>i < k. n div 32 div 32 ^ i mod 32 = m div 32 div 32 ^ i mod 32"
      using Suc.prems(1) by (metis Suc_less_eq div_mult2_eq power_Suc)
    show "n div 32 < 32 ^ k" "m div 32 < 32 ^ k"
      using Suc.prems(2,3) by (simp_all add: less_mult_imp_div_less mult.commute)
  qed
  ultimately show ?case by (metis div_mult_mod_eq)
qed simp

lemma inj_sample_ulid_text: "inj_on sample_ulid_text {bs. length bs = 16}"
proof (rule inj_onI)
  fix x y :: bytes
  assume len: "x \<in> {bs. length bs = 16}" "y \<in> {bs. length bs = 16}" and eq: "sample_ulid_text x = sample_ulid_text y"
  have digit: "char_of (65 + a mod 32 :: nat) = char_of (65 + b mod 32) \<Longrightarrow> a mod 32 = b mod 32" for a b :: nat
    by (drule arg_cong [of _ _ "of_char :: char \<Rightarrow> nat"]) simp
  have "\<forall>i < 26. be_nat x div 32 ^ i mod 32 = be_nat y div 32 ^ i mod 32"
    using eq digit by (auto simp: sample_ulid_text_def)
  moreover have "be_nat x < 32 ^ 26" "be_nat y < 32 ^ 26"
    using be_nat_less [of x] be_nat_less [of y] len by simp_all
  ultimately have "be_nat x = be_nat y" by (rule base32_unique)
  then show "x = y" using be_bytes_be_nat [of x] be_bytes_be_nat [of y] len by simp
qed

lemma sample_change_id:
  "deterministic_change_record_id (\<lambda>_. zero_hash) sample_ulid_text Some t (Ulid (replicate 26 CHR ''A'')) (sample_resource v) ''key'' =
     Ok (Ulid (sample_ulid_text (replicate 16 0)))"
proof -
  have "n mod 32 < 63" for n :: nat using mod_less_divisor [of 32 n] by linarith
  then have "list_all (\<lambda>c. of_char c < (128 :: nat)) (sample_ulid_text bs)" for bs
    by (simp add: sample_ulid_text_def list_all_iff)
  moreover have "require_text ''key'' = Ok ()" by code_simp
  moreover have "take 16 (hash_bytes zero_hash) = replicate 16 0" by (simp add: zero_hash_def)
  ultimately show ?thesis
    by (simp add: deterministic_change_record_id_def result_simps is_ascii_def) (simp add: sample_ulid_text_def)
qed

lemma change_record_id_identifies_witness:
  "change_record_bytes (Ulid (replicate 26 CHR ''A'')) (sample_resource 1) ''key'' \<noteq>
     change_record_bytes (Ulid (replicate 26 CHR ''A'')) (sample_resource 12) ''key''"
proof -
  have ids: "ulid_ok Some (fr_id (sample_resource v))" for v
    by (simp add: sample_resource_def ulid_ok_iff is_ascii_def list_all_iff)
  have len: "length (change_record_bytes (Ulid (replicate 26 CHR ''A'')) (sample_resource 1) ''key'') < usize_limit"
    by (simp add: change_record_bytes_def canonical_ref_def sample_resource_def version_text_def nat_to_digits.simps)
  have "sample_resource 1 \<noteq> sample_resource 12" by (simp add: sample_resource_def)
  with change_record_id_identifies [OF sample_change_id [of "utc_time 0 (NaiveDate 1970 1 1)"]
      sample_change_id [of "utc_time 60 (NaiveDate 1970 1 1)"]
      inj_sample_ulid_text ids ids len, of 12] show ?thesis by blast
qed

end
