(* ===== verification/Portfolio_Catalog.thy ===== *)
theory Portfolio_Catalog
  imports Primitives
begin

text \<open>
  The portfolio catalogue (\<open>ficant-domain/src/portfolio/mod.rs\<close>): books, groups, portfolios,
  benchmarks and metric conventions, immutable definitions that refer to each other by exact
  reference and carry a content hash over their canonical bytes. The theory shows that every
  one of them satisfies the contract \<open>hash_addressed\<close>.

  An accepted object has the fields of its input, so one record stands for both structs.
  \<open>ds\<close> is the text form of a date (the \<open>chrono\<close> crate's \<open>Display\<close> of \<open>NaiveDate\<close>).
\<close>

section \<open>Definitions\<close>

definition PORTFOLIO_METRIC_CONVENTION_SCHEMA_V1 :: string where
  "PORTFOLIO_METRIC_CONVENTION_SCHEMA_V1 = ''ficant.portfolio-metric-convention.v1''"

datatype portfolio_status = Active | Suspended | Closed

fun status_code :: "portfolio_status \<Rightarrow> byte" where
  "status_code Active = 1"
| "status_code Suspended = 2"
| "status_code Closed = 3"

datatype metric_weighting =
  WeightingUnspecified | MarketValue | MarketValueTimesModifiedDuration | Notional

fun weighting_code :: "metric_weighting \<Rightarrow> byte" where
  "weighting_code WeightingUnspecified = 0"
| "weighting_code MarketValue = 1"
| "weighting_code MarketValueTimesModifiedDuration = 2"
| "weighting_code Notional = 3"

datatype decimal_rounding = RoundingUnspecified | TiesToEven

fun rounding_code :: "decimal_rounding \<Rightarrow> byte" where
  "rounding_code RoundingUnspecified = 0"
| "rounding_code TiesToEven = 1"

record snapshot_binding =
  sb_snapshot_id :: ulid
  sb_content_hash :: content_hash
  sb_observed_at :: market_time
  sb_visible_at :: market_time

definition snapshot_binding_new ::
  "ulid \<Rightarrow> content_hash \<Rightarrow> market_time \<Rightarrow> market_time \<Rightarrow> snapshot_binding domain_result" where
  "snapshot_binding_new snapshot_id content_hash observed_at visible_at =
     (if mt_instant observed_at > mt_instant visible_at then Err InvalidEffectiveTime
      else Ok \<lparr>sb_snapshot_id = snapshot_id, sb_content_hash = content_hash,
               sb_observed_at = observed_at, sb_visible_at = visible_at\<rparr>)"

record benchmark_ref =
  br_reference :: version_ref
  br_content_hash :: content_hash

record metric_convention_ref =
  mr_reference :: version_ref
  mr_content_hash :: content_hash

record benchmark =
  bm_benchmark :: version_ref
  bm_owner :: owner_ref
  bm_subject_ref :: version_ref
  bm_code :: string
  bm_display_name :: string
  bm_position_snapshot :: snapshot_binding
  bm_effective_from :: market_time
  bm_effective_to :: market_time
  bm_content_hash :: content_hash

record book =
  bk_book :: version_ref
  bk_owner :: owner_ref
  bk_subject_ref :: version_ref
  bk_code :: string
  bk_display_name :: string
  bk_status :: portfolio_status
  bk_effective_from :: market_time
  bk_effective_to :: market_time
  bk_content_hash :: content_hash

record portfolio_group =
  pg_group :: version_ref
  pg_owner :: owner_ref
  pg_subject_ref :: version_ref
  pg_book :: lineage_ref
  pg_parent_group :: "lineage_ref option"
  pg_code :: string
  pg_display_name :: string
  pg_status :: portfolio_status
  pg_effective_from :: market_time
  pg_effective_to :: market_time
  pg_content_hash :: content_hash

record portfolio =
  pf_portfolio :: version_ref
  pf_owner :: owner_ref
  pf_subject_ref :: version_ref
  pf_book :: lineage_ref
  pf_group :: lineage_ref
  pf_code :: string
  pf_display_name :: string
  pf_status :: portfolio_status
  pf_position_snapshot :: snapshot_binding
  pf_benchmark :: benchmark_ref
  pf_metric_convention :: metric_convention_ref
  pf_effective_from :: market_time
  pf_effective_to :: market_time
  pf_content_hash :: content_hash

record metric_convention =
  mc_convention :: version_ref
  mc_owner :: owner_ref
  mc_schema_id :: string
  mc_ytm_weighting :: metric_weighting
  mc_duration_weighting :: metric_weighting
  mc_convexity_weighting :: metric_weighting
  mc_coupon_weighting :: metric_weighting
  mc_remaining_life_weighting :: metric_weighting
  mc_rounding :: decimal_rounding
  mc_freshness_limit_seconds :: u64
  mc_effective_from :: market_time
  mc_effective_to :: market_time
  mc_content_hash :: content_hash

text \<open>Validation.\<close>

definition validate_code :: "string \<Rightarrow> unit domain_result" where
  "validate_code value =
     (if value = [] \<or> value \<noteq> trim value \<or> length value > 64 \<or> \<not> is_ascii value
        \<or> \<not> list_all (\<lambda>byte. is_ascii_uppercase byte \<or> is_ascii_digit byte
              \<or> byte \<in> {CHR ''-'', CHR ''_'', CHR ''.''}) value
      then Err InvalidValue else Ok ())"

definition validate_display_name :: "string \<Rightarrow> unit domain_result" where
  "validate_display_name value =
     (if value = [] \<or> value \<noteq> trim value \<or> length value > 256 then Err InvalidValue else Ok ())"

definition validate_effective_period :: "market_time \<Rightarrow> market_time \<Rightarrow> unit domain_result" where
  "validate_effective_period from to =
     (if mt_instant from \<ge> mt_instant to then Err InvalidEffectiveTime else Ok ())"

definition require_exact_ref :: "lineage_ref \<Rightarrow> unit domain_result" where
  "require_exact_ref reference =
     (if lr_version reference = None \<or> lr_content_hash reference = None then Err BrokenLineage else Ok ())"

definition verify_content_hash :: "sha256_fn \<Rightarrow> content_hash \<Rightarrow> bytes \<Rightarrow> unit domain_result" where
  "verify_content_hash sha256 expected canonical =
     (if expected \<noteq> sha256 canonical then Err ContentHashMismatch else Ok ())"

text \<open>Canonical bytes; \<open>append\<close> writes a length-prefixed field.\<close>

definition append_owner :: "owner_ref \<Rightarrow> bytes" where
  "append_owner owner =
     push_bytes (as_bytes (ulid_str (tenant_id owner))) @ push_bytes (as_bytes (ulid_str (owner_id owner)))"

definition append_version_ref :: "version_ref \<Rightarrow> bytes" where
  "append_version_ref reference =
     push_bytes (as_bytes (ulid_str (vr_id reference)))
     @ push_bytes (to_be_bytes (version_get (vr_version reference)))"

definition append_exact_ref :: "lineage_ref \<Rightarrow> bytes" where
  "append_exact_ref reference =
     push_bytes (as_bytes (ulid_str (lr_object_id reference)))
     @ push_bytes (to_be_bytes (case lr_version reference of Some v \<Rightarrow> version_get v | None \<Rightarrow> 0))
     @ push_bytes (case lr_content_hash reference of Some hash \<Rightarrow> hash_bytes hash | None \<Rightarrow> [])"

definition append_market_time :: "(naive_date \<Rightarrow> string) \<Rightarrow> market_time \<Rightarrow> bytes" where
  "append_market_time ds value =
     push_bytes (to_be_bytes (timestamp (mt_instant value)))
     @ push_bytes (to_be_bytes (timestamp_subsec_nanos (mt_instant value)))
     @ push_bytes (as_bytes (mt_timezone value))
     @ push_bytes (as_bytes (ds (mt_local_date value)))"

text \<open>The four fields of a snapshot binding, as every canonical form writes them.\<close>

definition append_snapshot_binding :: "(naive_date \<Rightarrow> string) \<Rightarrow> snapshot_binding \<Rightarrow> bytes" where
  "append_snapshot_binding ds value =
     push_bytes (as_bytes (ulid_str (sb_snapshot_id value)))
     @ push_bytes (hash_bytes (sb_content_hash value))
     @ append_market_time ds (sb_observed_at value)
     @ append_market_time ds (sb_visible_at value)"

definition canonical_book :: "(naive_date \<Rightarrow> string) \<Rightarrow> book \<Rightarrow> bytes" where
  "canonical_book ds input =
     append_version_ref (bk_book input) @ append_owner (bk_owner input)
     @ append_version_ref (bk_subject_ref input)
     @ push_bytes (as_bytes (bk_code input)) @ push_bytes (as_bytes (bk_display_name input))
     @ push_bytes [status_code (bk_status input)]
     @ append_market_time ds (bk_effective_from input)
     @ append_market_time ds (bk_effective_to input)"

definition canonical_benchmark :: "(naive_date \<Rightarrow> string) \<Rightarrow> benchmark \<Rightarrow> bytes" where
  "canonical_benchmark ds input =
     append_version_ref (bm_benchmark input) @ append_owner (bm_owner input)
     @ append_version_ref (bm_subject_ref input)
     @ push_bytes (as_bytes (bm_code input)) @ push_bytes (as_bytes (bm_display_name input))
     @ append_snapshot_binding ds (bm_position_snapshot input)
     @ append_market_time ds (bm_effective_from input)
     @ append_market_time ds (bm_effective_to input)"

definition canonical_group :: "(naive_date \<Rightarrow> string) \<Rightarrow> portfolio_group \<Rightarrow> bytes" where
  "canonical_group ds input =
     append_version_ref (pg_group input) @ append_owner (pg_owner input)
     @ append_version_ref (pg_subject_ref input)
     @ append_exact_ref (pg_book input)
     @ (case pg_parent_group input of
          Some parent \<Rightarrow> push_bytes [1] @ append_exact_ref parent
        | None \<Rightarrow> push_bytes [0])
     @ push_bytes (as_bytes (pg_code input)) @ push_bytes (as_bytes (pg_display_name input))
     @ push_bytes [status_code (pg_status input)]
     @ append_market_time ds (pg_effective_from input)
     @ append_market_time ds (pg_effective_to input)"

definition canonical_portfolio :: "(naive_date \<Rightarrow> string) \<Rightarrow> portfolio \<Rightarrow> bytes" where
  "canonical_portfolio ds input =
     append_version_ref (pf_portfolio input) @ append_owner (pf_owner input)
     @ append_version_ref (pf_subject_ref input)
     @ append_exact_ref (pf_book input) @ append_exact_ref (pf_group input)
     @ push_bytes (as_bytes (pf_code input)) @ push_bytes (as_bytes (pf_display_name input))
     @ push_bytes [status_code (pf_status input)]
     @ append_snapshot_binding ds (pf_position_snapshot input)
     @ append_version_ref (br_reference (pf_benchmark input))
     @ push_bytes (hash_bytes (br_content_hash (pf_benchmark input)))
     @ append_version_ref (mr_reference (pf_metric_convention input))
     @ push_bytes (hash_bytes (mr_content_hash (pf_metric_convention input)))
     @ append_market_time ds (pf_effective_from input)
     @ append_market_time ds (pf_effective_to input)"

definition canonical_convention :: "(naive_date \<Rightarrow> string) \<Rightarrow> metric_convention \<Rightarrow> bytes" where
  "canonical_convention ds input =
     append_version_ref (mc_convention input) @ append_owner (mc_owner input)
     @ push_bytes (as_bytes (mc_schema_id input))
     @ push_bytes [weighting_code (mc_ytm_weighting input)]
     @ push_bytes [weighting_code (mc_duration_weighting input)]
     @ push_bytes [weighting_code (mc_convexity_weighting input)]
     @ push_bytes [weighting_code (mc_coupon_weighting input)]
     @ push_bytes [weighting_code (mc_remaining_life_weighting input)]
     @ push_bytes [rounding_code (mc_rounding input)]
     @ push_bytes (to_be_bytes (mc_freshness_limit_seconds input))
     @ append_market_time ds (mc_effective_from input)
     @ append_market_time ds (mc_effective_to input)"

text \<open>Constructors.\<close>

definition benchmark_new ::
  "(naive_date \<Rightarrow> string) \<Rightarrow> sha256_fn \<Rightarrow> benchmark \<Rightarrow> benchmark domain_result" where
  "benchmark_new ds sha256 input =
     and_then (validate_code (bm_code input)) (\<lambda>_.
     and_then (validate_display_name (bm_display_name input)) (\<lambda>_.
     and_then (validate_effective_period (bm_effective_from input) (bm_effective_to input)) (\<lambda>_.
     and_then (verify_content_hash sha256 (bm_content_hash input) (canonical_benchmark ds input)) (\<lambda>_.
     Ok input))))"

definition book_new :: "(naive_date \<Rightarrow> string) \<Rightarrow> sha256_fn \<Rightarrow> book \<Rightarrow> book domain_result" where
  "book_new ds sha256 input =
     and_then (validate_code (bk_code input)) (\<lambda>_.
     and_then (validate_display_name (bk_display_name input)) (\<lambda>_.
     and_then (validate_effective_period (bk_effective_from input) (bk_effective_to input)) (\<lambda>_.
     and_then (verify_content_hash sha256 (bk_content_hash input) (canonical_book ds input)) (\<lambda>_.
     Ok input))))"

definition portfolio_group_new ::
  "(naive_date \<Rightarrow> string) \<Rightarrow> sha256_fn \<Rightarrow> portfolio_group \<Rightarrow> portfolio_group domain_result" where
  "portfolio_group_new ds sha256 input =
     and_then (validate_code (pg_code input)) (\<lambda>_.
     and_then (validate_display_name (pg_display_name input)) (\<lambda>_.
     and_then (validate_effective_period (pg_effective_from input) (pg_effective_to input)) (\<lambda>_.
     and_then (require_exact_ref (pg_book input)) (\<lambda>_.
     and_then
       (case pg_parent_group input of
          Some parent \<Rightarrow>
            and_then (require_exact_ref parent) (\<lambda>_.
            if lr_object_id parent = vr_id (pg_group input) then Err BrokenLineage else Ok ())
        | None \<Rightarrow> Ok ()) (\<lambda>_.
     and_then (verify_content_hash sha256 (pg_content_hash input) (canonical_group ds input)) (\<lambda>_.
     Ok input))))))"

definition portfolio_new ::
  "(naive_date \<Rightarrow> string) \<Rightarrow> sha256_fn \<Rightarrow> portfolio \<Rightarrow> portfolio domain_result" where
  "portfolio_new ds sha256 input =
     and_then (validate_code (pf_code input)) (\<lambda>_.
     and_then (validate_display_name (pf_display_name input)) (\<lambda>_.
     and_then (validate_effective_period (pf_effective_from input) (pf_effective_to input)) (\<lambda>_.
     and_then (require_exact_ref (pf_book input)) (\<lambda>_.
     and_then (require_exact_ref (pf_group input)) (\<lambda>_.
     and_then (verify_content_hash sha256 (pf_content_hash input) (canonical_portfolio ds input)) (\<lambda>_.
     Ok input))))))"

definition metric_convention_new ::
  "(naive_date \<Rightarrow> string) \<Rightarrow> sha256_fn \<Rightarrow> metric_convention \<Rightarrow> metric_convention domain_result" where
  "metric_convention_new ds sha256 input =
     and_then (validate_effective_period (mc_effective_from input) (mc_effective_to input)) (\<lambda>_.
     if mc_schema_id input \<noteq> PORTFOLIO_METRIC_CONVENTION_SCHEMA_V1
       \<or> mc_ytm_weighting input \<noteq> MarketValueTimesModifiedDuration
       \<or> mc_duration_weighting input \<noteq> MarketValue
       \<or> mc_convexity_weighting input \<noteq> MarketValue
       \<or> mc_coupon_weighting input \<noteq> Notional
       \<or> mc_remaining_life_weighting input \<noteq> Notional
       \<or> mc_rounding input \<noteq> TiesToEven
       \<or> mc_freshness_limit_seconds input = 0
     then Err InvalidValue
     else
       and_then (verify_content_hash sha256 (mc_content_hash input) (canonical_convention ds input)) (\<lambda>_.
       Ok input))"

section \<open>Canonical bytes\<close>

lemma determines_append_owner [code_intros]: "determines (\<lambda>x. append_owner (f x)) (\<lambda>x. f x :: owner_ref)"
proof -
  have "determines append_owner (\<lambda>v. (as_bytes (ulid_str (tenant_id v)), as_bytes (ulid_str (owner_id v))))"
    unfolding append_owner_def by (intro code_intros)
  then have "prefix_code append_owner" by (rule determines.weaken) (simp add: owner_ref.equality)
  then show ?thesis by (rule prefix_code_of)
qed

lemma determines_append_version_ref [code_intros]:
  "determines (\<lambda>x. append_version_ref (f x)) (\<lambda>x. f x :: version_ref)"
proof -
  have "determines append_version_ref (\<lambda>v. (as_bytes (ulid_str (vr_id v)), to_be_bytes (version_get (vr_version v))))"
    unfolding append_version_ref_def by (intro code_intros)
  then have "prefix_code append_version_ref" by (rule determines.weaken) (simp add: version_ref.equality)
  then show ?thesis by (rule prefix_code_of)
qed

lemma determines_append_market_time:
  assumes "inj ds"
  shows "determines (\<lambda>x. append_market_time ds (f x)) (\<lambda>x. f x :: market_time)"
proof -
  have "determines (append_market_time ds) (\<lambda>t. (to_be_bytes (timestamp (mt_instant t)),
      to_be_bytes (timestamp_subsec_nanos (mt_instant t)), as_bytes (mt_timezone t), as_bytes (ds (mt_local_date t))))"
    unfolding append_market_time_def by (intro code_intros)
  then have "prefix_code (append_market_time ds)"
    by (rule determines.weaken) (use assms in \<open>auto intro: market_time_eqI dest: injD\<close>)
  then show ?thesis by (rule prefix_code_of)
qed

lemma determines_append_snapshot_binding:
  assumes "inj ds"
  shows "determines (\<lambda>x. append_snapshot_binding ds (f x)) (\<lambda>x. f x :: snapshot_binding)"
proof -
  have "determines (append_snapshot_binding ds) (\<lambda>b. (as_bytes (ulid_str (sb_snapshot_id b)),
      hash_bytes (sb_content_hash b), sb_observed_at b, sb_visible_at b))"
    unfolding append_snapshot_binding_def by (intro code_intros determines_append_market_time assms)
  then have "prefix_code (append_snapshot_binding ds)"
    by (rule determines.weaken) (simp add: snapshot_binding.equality)
  then show ?thesis by (rule prefix_code_of)
qed

text \<open>A reference is written completely when it is exact.\<close>

definition exact_content :: "lineage_ref \<Rightarrow> string \<times> u64 \<times> bytes" where
  "exact_content r = (ulid_str (lr_object_id r), case lr_version r of Some v \<Rightarrow> version_get v | None \<Rightarrow> 0,
     case lr_content_hash r of Some hash \<Rightarrow> hash_bytes hash | None \<Rightarrow> [])"

lemma determines_append_exact_ref [code_intros]:
  "determines (\<lambda>x. append_exact_ref (f x)) (\<lambda>x. exact_content (f x))"
proof -
  have "determines append_exact_ref (\<lambda>r. (as_bytes (ulid_str (lr_object_id r)),
      to_be_bytes (case lr_version r of Some v \<Rightarrow> version_get v | None \<Rightarrow> 0),
      case lr_content_hash r of Some hash \<Rightarrow> hash_bytes hash | None \<Rightarrow> []))"
    unfolding append_exact_ref_def by (intro code_intros)
  then have "determines append_exact_ref exact_content"
    by (rule determines.weaken) (simp add: exact_content_def)
  then show ?thesis by (rule determines.precompose)
qed

lemma exact_content_inject:
  assumes "require_exact_ref r = Ok u" "require_exact_ref s = Ok v"
  shows "exact_content r = exact_content s \<longleftrightarrow> r = s"
  using assms by (auto simp: require_exact_ref_def exact_content_def lineage_ref.equality split: if_splits)

lemmas market_codes = code_intros determines_append_market_time determines_append_snapshot_binding

lemma status_code_inject [simp]: "status_code a = status_code b \<longleftrightarrow> a = b"
  by (cases a; cases b) simp_all

lemma weighting_code_inject [simp]: "weighting_code a = weighting_code b \<longleftrightarrow> a = b"
  by (cases a; cases b) simp_all

lemma rounding_code_inject [simp]: "rounding_code a = rounding_code b \<longleftrightarrow> a = b"
  by (cases a; cases b) simp_all

section \<open>Constructors\<close>

lemma validate_code_Ok [result_simps]:
  "validate_code v = Ok u \<longleftrightarrow> v \<noteq> [] \<and> length v \<le> 64 \<and>
     list_all (\<lambda>byte. is_ascii_uppercase byte \<or> is_ascii_digit byte \<or> byte \<in> {CHR ''-'', CHR ''_'', CHR ''.''}) v"
proof -
  let ?ok = "\<lambda>byte. is_ascii_uppercase byte \<or> is_ascii_digit byte \<or> byte \<in> {CHR ''-'', CHR ''_'', CHR ''.''}"
  have printable: "32 < (of_char c :: nat) \<and> (of_char c :: nat) < 128" if "?ok c" for c
    using that by (auto simp: is_ascii_uppercase_def is_ascii_digit_def)
  have "trim v = v \<and> is_ascii v" if "v \<noteq> []" "list_all ?ok v"
    using that printable trim_printable [of v] by (auto simp: list_all_iff is_ascii_def)
  then show ?thesis by (auto simp: validate_code_def not_less)
qed

lemma verify_content_hash_Ok [result_simps]:
  "verify_content_hash sha256 expected canonical = Ok u \<longleftrightarrow> expected = sha256 canonical"
  by (simp add: verify_content_hash_def)

lemma validate_effective_period_Ok [result_simps]:
  "validate_effective_period a b = Ok u \<longleftrightarrow> mt_instant a < mt_instant b"
  by (auto simp: validate_effective_period_def)

section \<open>Content hashes\<close>

lemmas construction = and_then_eq_Ok verify_content_hash_Ok exact_content_inject

lemma book_code:
  assumes "inj ds"
  shows "determines (canonical_book ds)
    (\<lambda>v. (bk_book v, bk_owner v, bk_subject_ref v, as_bytes (bk_code v), as_bytes (bk_display_name v),
      [status_code (bk_status v)], bk_effective_from v, bk_effective_to v))"
  unfolding canonical_book_def by (intro market_codes assms)

lemma book_addressed:
  assumes "inj ds"
  shows "hash_addressed (book_new ds) (canonical_book ds) bk_content_hash"
  by (rule hash_addressedI [OF book_code [OF assms]])
    (auto simp: book_new_def construction intro!: book.equality split: if_splits option.splits)

lemma benchmark_code:
  assumes "inj ds"
  shows "determines (canonical_benchmark ds)
    (\<lambda>v. (bm_benchmark v, bm_owner v, bm_subject_ref v, as_bytes (bm_code v),
      as_bytes (bm_display_name v), bm_position_snapshot v, bm_effective_from v, bm_effective_to v))"
  unfolding canonical_benchmark_def by (intro market_codes assms)

lemma benchmark_addressed:
  assumes "inj ds"
  shows "hash_addressed (benchmark_new ds) (canonical_benchmark ds) bm_content_hash"
  by (rule hash_addressedI [OF benchmark_code [OF assms]])
    (auto simp: benchmark_new_def construction intro!: benchmark.equality split: if_splits option.splits)

lemma portfolio_code:
  assumes "inj ds"
  shows "determines (canonical_portfolio ds)
    (\<lambda>v. (pf_portfolio v, pf_owner v, pf_subject_ref v, exact_content (pf_book v), exact_content (pf_group v),
      as_bytes (pf_code v), as_bytes (pf_display_name v), [status_code (pf_status v)], pf_position_snapshot v,
      br_reference (pf_benchmark v), hash_bytes (br_content_hash (pf_benchmark v)), mr_reference (pf_metric_convention v),
      hash_bytes (mr_content_hash (pf_metric_convention v)), pf_effective_from v, pf_effective_to v))"
  unfolding canonical_portfolio_def by (intro market_codes assms)

lemma portfolio_addressed:
  assumes "inj ds"
  shows "hash_addressed (portfolio_new ds) (canonical_portfolio ds) pf_content_hash"
  by (rule hash_addressedI [OF portfolio_code [OF assms]])
    (auto simp: portfolio_new_def construction intro!: portfolio.equality split: if_splits option.splits)

lemma portfolio_group_code:
  assumes "inj ds"
  shows "determines (canonical_group ds)
    (\<lambda>v. (pg_group v, pg_owner v, pg_subject_ref v, exact_content (pg_book v),
      map_option exact_content (pg_parent_group v), as_bytes (pg_code v), as_bytes (pg_display_name v),
      [status_code (pg_status v)], pg_effective_from v, pg_effective_to v))"
  unfolding canonical_group_def by (intro market_codes assms determines_tagged_option determines_append_exact_ref [of "\<lambda>r. r"])

lemma portfolio_group_addressed:
  assumes "inj ds"
  shows "hash_addressed (portfolio_group_new ds) (canonical_group ds) pg_content_hash"
  by (rule hash_addressedI [OF portfolio_group_code [OF assms]])
    (auto simp: portfolio_group_new_def construction intro!: portfolio_group.equality split: if_splits option.splits)

lemma metric_convention_code:
  assumes "inj ds"
  shows "determines (canonical_convention ds)
    (\<lambda>v. (mc_convention v, mc_owner v, as_bytes (mc_schema_id v),
      [weighting_code (mc_ytm_weighting v)], [weighting_code (mc_duration_weighting v)],
      [weighting_code (mc_convexity_weighting v)], [weighting_code (mc_coupon_weighting v)],
      [weighting_code (mc_remaining_life_weighting v)], [rounding_code (mc_rounding v)],
      to_be_bytes (mc_freshness_limit_seconds v), mc_effective_from v, mc_effective_to v))"
  unfolding canonical_convention_def by (intro market_codes assms)

lemma metric_convention_addressed:
  assumes "inj ds"
  shows "hash_addressed (metric_convention_new ds) (canonical_convention ds) mc_content_hash"
  by (rule hash_addressedI [OF metric_convention_code [OF assms]])
    (auto simp: metric_convention_new_def construction intro!: metric_convention.equality split: if_splits option.splits)

text \<open>Accepted catalogue objects with the ones a portfolio refers to.\<close>

definition resolved ::
  "(naive_date \<Rightarrow> string) \<Rightarrow> sha256_fn \<Rightarrow> portfolio \<Rightarrow> portfolio_group \<Rightarrow> book \<Rightarrow> benchmark \<Rightarrow> metric_convention \<Rightarrow> bool" where
  "resolved ds sha256 p g b m k \<longleftrightarrow>
     portfolio_new ds sha256 p = Ok p \<and> portfolio_group_new ds sha256 g = Ok g \<and> book_new ds sha256 b = Ok b \<and>
     benchmark_new ds sha256 m = Ok m \<and> metric_convention_new ds sha256 k = Ok k \<and>
     lr_content_hash (pf_group p) = Some (pg_content_hash g) \<and> lr_content_hash (pf_book p) = Some (bk_content_hash b) \<and>
     br_content_hash (pf_benchmark p) = bm_content_hash m \<and>
     mr_content_hash (pf_metric_convention p) = mc_content_hash k"

text \<open>Every canonical form fits a byte vector.\<close>

definition catalogue_fits ::
  "(naive_date \<Rightarrow> string) \<Rightarrow> portfolio \<Rightarrow> portfolio_group \<Rightarrow> book \<Rightarrow> benchmark \<Rightarrow> metric_convention \<Rightarrow> bool" where
  "catalogue_fits ds p g b m k \<longleftrightarrow>
     length (canonical_portfolio ds p) < usize_limit \<and> length (canonical_group ds g) < usize_limit \<and>
     length (canonical_book ds b) < usize_limit \<and> length (canonical_benchmark ds m) < usize_limit \<and>
     length (canonical_convention ds k) < usize_limit"

text \<open>
  C38: the content hash of a portfolio fixes the whole catalogue entry. Two portfolios with
  the same hash are the same portfolio, and the group, book, benchmark and metric convention their
  references resolve to by content hash are the same objects, unless one of the five pairs of
  canonical bytes collides under SHA-256.
\<close>

theorem portfolio_hash_fixes_catalogue:
  assumes "inj ds" "resolved ds sha256 p g b m k" "resolved ds sha256 p' g' b' m' k'"
    and "pf_content_hash p = pf_content_hash p'" "catalogue_fits ds p g b m k"
  shows "(p, g, b, m, k) = (p', g', b', m', k') \<or>
    collision sha256 (canonical_portfolio ds p) (canonical_portfolio ds p') \<or>
    collision sha256 (canonical_group ds g) (canonical_group ds g') \<or>
    collision sha256 (canonical_book ds b) (canonical_book ds b') \<or>
    collision sha256 (canonical_benchmark ds m) (canonical_benchmark ds m') \<or>
    collision sha256 (canonical_convention ds k) (canonical_convention ds k')"
proof -
  note accepted = assms(2,3) [unfolded resolved_def] and fits = assms(5) [unfolded catalogue_fits_def]
  have p: "p = p' \<or> collision sha256 (canonical_portfolio ds p) (canonical_portfolio ds p')"
    using hash_addressed.hash_identifies [OF portfolio_addressed [OF assms(1)]] accepted assms(4) fits by blast
  have g: "g = g' \<or> collision sha256 (canonical_group ds g) (canonical_group ds g')" if "p = p'"
    using hash_addressed.hash_identifies [OF portfolio_group_addressed [OF assms(1)]] accepted fits that
    by (metis option.inject)
  have b: "b = b' \<or> collision sha256 (canonical_book ds b) (canonical_book ds b')" if "p = p'"
    using hash_addressed.hash_identifies [OF book_addressed [OF assms(1)]] accepted fits that
    by (metis option.inject)
  have m: "m = m' \<or> collision sha256 (canonical_benchmark ds m) (canonical_benchmark ds m')" if "p = p'"
    using hash_addressed.hash_identifies [OF benchmark_addressed [OF assms(1)]] accepted fits that by metis
  have k: "k = k' \<or> collision sha256 (canonical_convention ds k) (canonical_convention ds k')" if "p = p'"
    using hash_addressed.hash_identifies [OF metric_convention_addressed [OF assms(1)]] accepted fits that by metis
  from p g b m k show ?thesis by blast
qed

definition sample_ref :: version_ref where
  "sample_ref = \<lparr>vr_id = Ulid (replicate 26 CHR ''1''), vr_version = Version 1\<rparr>"

definition sample_owner :: owner_ref where
  "sample_owner = \<lparr>tenant_id = Ulid (replicate 26 CHR ''2''), owner_id = Ulid (replicate 26 CHR ''3'')\<rparr>"

definition sample_lineage :: lineage_ref where
  "sample_lineage = \<lparr>lr_object_id = Ulid (replicate 26 CHR ''4''), lr_version = Some (Version 1),
     lr_content_hash = Some zero_hash\<rparr>"

definition sample_time :: "i64 \<Rightarrow> market_time" where
  "sample_time seconds = \<lparr>mt_instant = UtcInstant seconds 0, mt_timezone = ''UTC'', mt_local_date = NaiveDate 1970 1 1\<rparr>"

definition sample_binding :: snapshot_binding where
  "sample_binding = \<lparr>sb_snapshot_id = Ulid (replicate 26 CHR ''5''), sb_content_hash = zero_hash,
     sb_observed_at = sample_time 0, sb_visible_at = sample_time 0\<rparr>"

definition sample_portfolio :: "string \<Rightarrow> portfolio" where
  "sample_portfolio code = \<lparr>pf_portfolio = sample_ref, pf_owner = sample_owner, pf_subject_ref = sample_ref,
     pf_book = sample_lineage, pf_group = sample_lineage, pf_code = code, pf_display_name = ''P'', pf_status = Active,
     pf_position_snapshot = sample_binding, pf_benchmark = \<lparr>br_reference = sample_ref, br_content_hash = zero_hash\<rparr>,
     pf_metric_convention = \<lparr>mr_reference = sample_ref, mr_content_hash = zero_hash\<rparr>,
     pf_effective_from = sample_time 0, pf_effective_to = sample_time 1, pf_content_hash = zero_hash\<rparr>"

definition sample_group :: portfolio_group where
  "sample_group = \<lparr>pg_group = sample_ref, pg_owner = sample_owner, pg_subject_ref = sample_ref,
     pg_book = sample_lineage, pg_parent_group = Some sample_lineage, pg_code = ''G'', pg_display_name = ''G'', pg_status = Active,
     pg_effective_from = sample_time 0, pg_effective_to = sample_time 1, pg_content_hash = zero_hash\<rparr>"

definition sample_book :: book where
  "sample_book = \<lparr>bk_book = sample_ref, bk_owner = sample_owner, bk_subject_ref = sample_ref,
     bk_code = ''B'', bk_display_name = ''B'', bk_status = Active,
     bk_effective_from = sample_time 0, bk_effective_to = sample_time 1, bk_content_hash = zero_hash\<rparr>"

definition sample_benchmark :: benchmark where
  "sample_benchmark = \<lparr>bm_benchmark = sample_ref, bm_owner = sample_owner, bm_subject_ref = sample_ref,
     bm_code = ''M'', bm_display_name = ''M'', bm_position_snapshot = sample_binding,
     bm_effective_from = sample_time 0, bm_effective_to = sample_time 1, bm_content_hash = zero_hash\<rparr>"

definition sample_convention :: metric_convention where
  "sample_convention = \<lparr>mc_convention = sample_ref, mc_owner = sample_owner,
     mc_schema_id = PORTFOLIO_METRIC_CONVENTION_SCHEMA_V1,
     mc_ytm_weighting = MarketValueTimesModifiedDuration, mc_duration_weighting = MarketValue,
     mc_convexity_weighting = MarketValue, mc_coupon_weighting = Notional, mc_remaining_life_weighting = Notional,
     mc_rounding = TiesToEven, mc_freshness_limit_seconds = 60,
     mc_effective_from = sample_time 0, mc_effective_to = sample_time 1, mc_content_hash = zero_hash\<rparr>"

lemma validate_display_name_letter:
  "32 < (of_char c :: nat) \<Longrightarrow> (of_char c :: nat) < 128 \<Longrightarrow> validate_display_name [c] = Ok ()"
  using trim_printable [of "[c]"] by (simp add: validate_display_name_def)

lemmas sample_defs = sample_portfolio_def sample_group_def sample_book_def sample_benchmark_def sample_convention_def
  sample_binding_def sample_lineage_def sample_owner_def sample_ref_def

lemma sample_resolved:
  assumes "code \<in> {''A'', ''B''}"
  shows "resolved ds (\<lambda>_. zero_hash) (sample_portfolio code) sample_group sample_book sample_benchmark sample_convention"
proof -
  have period: "validate_effective_period (sample_time 0) (sample_time 1) = Ok ()"
    by (simp add: validate_effective_period_Ok sample_time_def less_utc_instant_def)
  have code: "validate_code c = Ok ()" if "c \<in> {''A'', ''B'', ''G'', ''M''}" for c
    using that by (auto simp: validate_code_Ok is_ascii_uppercase_def)
  show ?thesis
    using assms unfolding resolved_def
    by (auto simp: portfolio_new_def portfolio_group_new_def book_new_def benchmark_new_def metric_convention_new_def
        sample_defs and_then_eq_Ok verify_content_hash_Ok period code validate_display_name_letter require_exact_ref_def)
qed

lemma portfolio_hash_fixes_catalogue_witness:
  "resolved sample_date_text (\<lambda>_. zero_hash) (sample_portfolio ''A'') sample_group sample_book sample_benchmark sample_convention \<and>
   resolved sample_date_text (\<lambda>_. zero_hash) (sample_portfolio ''B'') sample_group sample_book sample_benchmark sample_convention \<and>
   collision (\<lambda>_. zero_hash) (canonical_portfolio sample_date_text (sample_portfolio ''A''))
     (canonical_portfolio sample_date_text (sample_portfolio ''B''))"
proof -
  have fits: "catalogue_fits sample_date_text (sample_portfolio ''A'') sample_group sample_book sample_benchmark sample_convention"
    by (simp add: catalogue_fits_def canonical_portfolio_def canonical_group_def canonical_book_def canonical_benchmark_def
        canonical_convention_def append_version_ref_def append_owner_def append_exact_ref_def append_market_time_def
        append_snapshot_binding_def sample_defs sample_time_def sample_date_text_def PORTFOLIO_METRIC_CONVENTION_SCHEMA_V1_def)
  have r: "resolved sample_date_text (\<lambda>_. zero_hash) (sample_portfolio c) sample_group sample_book sample_benchmark sample_convention"
    if "c \<in> {''A'', ''B''}" for c using that by (rule sample_resolved)
  have "sample_portfolio ''A'' \<noteq> sample_portfolio ''B''" by (simp add: sample_portfolio_def)
  then show ?thesis
    using portfolio_hash_fixes_catalogue [OF inj_sample_date_text r r _ fits, of "''B''"] r
    by (simp add: sample_portfolio_def collision_def)
qed

end
