(* ===== verification/Portfolio_Performance.thy ===== *)
theory Portfolio_Performance
  imports Complex_Main Portfolio_Catalog Factor_Topology
begin

text \<open>
  Portfolio valuation and performance (\<open>ficant-domain/src/portfolio/performance.rs\<close>): the
  performance convention, the valuation and benchmark snapshots with their content hashes, and
  \<open>calculate_daily_performance\<close>, the daily time-weighted return with end-of-day flows compounded
  in fixed decimals. The theory reconciles the reported profit with the change of the net asset
  value and bounds the distance of the compounded return from the exact time-weighted return.

  As in \<open>Portfolio_Catalog\<close>, one record stands for an object and its input; \<open>append_unit\<close> is the
  function of the same name there. \<open>ds\<close> is the text form of a date.
\<close>

section \<open>Definitions\<close>

definition PORTFOLIO_PERFORMANCE_CONVENTION_SCHEMA_V1 :: string where
  "PORTFOLIO_PERFORMANCE_CONVENTION_SCHEMA_V1 = ''ficant.portfolio-performance-convention.v1''"

datatype return_method = DailyTimeWeighted

datatype external_flow_timing = EndOfDay

datatype valuation_frequency = CalendarSessionClose

fun return_method_code :: "return_method \<Rightarrow> byte" where
  "return_method_code DailyTimeWeighted = 1"

fun flow_timing_code :: "external_flow_timing \<Rightarrow> byte" where
  "flow_timing_code EndOfDay = 1"

fun valuation_frequency_code :: "valuation_frequency \<Rightarrow> byte" where
  "valuation_frequency_code CalendarSessionClose = 1"

record performance_convention_ref =
  pr_reference :: version_ref
  pr_content_hash :: content_hash

record performance_convention =
  pc_convention :: version_ref
  pc_owner :: owner_ref
  pc_schema_id :: string
  pc_calendar :: lineage_ref
  pc_return_method :: return_method
  pc_flow_timing :: external_flow_timing
  pc_valuation_frequency :: valuation_frequency
  pc_rounding :: decimal_rounding
  pc_effective_from :: market_time
  pc_effective_to :: market_time
  pc_content_hash :: content_hash

record valuation_snapshot =
  vs_snapshot_id :: ulid
  vs_owner :: owner_ref
  vs_subject_ref :: version_ref
  vs_portfolio :: lineage_ref
  vs_position_snapshot :: snapshot_binding
  vs_performance_convention :: performance_convention_ref
  vs_valuation_at :: market_time
  vs_visible_at :: market_time
  vs_currency_unit :: unit_ref
  vs_gross_assets :: fixed_decimal
  vs_liabilities :: fixed_decimal
  vs_net_asset_value :: fixed_decimal
  vs_net_external_flow :: fixed_decimal
  vs_content_hash :: content_hash

record benchmark_level_snapshot =
  bl_snapshot_id :: ulid
  bl_owner :: owner_ref
  bl_subject_ref :: version_ref
  bl_benchmark :: lineage_ref
  bl_valuation_at :: market_time
  bl_visible_at :: market_time
  bl_level_unit :: unit_ref
  bl_level :: fixed_decimal
  bl_content_hash :: content_hash

record session_aggregate =
  sa_valuation_at :: market_time
  sa_net_asset_value :: fixed_decimal
  sa_net_external_flow :: fixed_decimal

record benchmark_session_level =
  bs_valuation_at :: market_time
  bs_level :: fixed_decimal

record daily_performance_point =
  dp_valuation_at :: market_time
  dp_opening_nav :: fixed_decimal
  dp_ending_nav :: fixed_decimal
  dp_net_external_flow :: fixed_decimal
  dp_economic_pnl :: fixed_decimal
  dp_daily_return :: fixed_decimal
  dp_benchmark_return :: fixed_decimal
  dp_active_return :: fixed_decimal
  dp_cumulative_return :: fixed_decimal
  dp_benchmark_cumulative_return :: fixed_decimal
  dp_active_cumulative_return :: fixed_decimal

definition canonical_performance_convention ::
  "(naive_date \<Rightarrow> string) \<Rightarrow> performance_convention \<Rightarrow> bytes" where
  "canonical_performance_convention ds input =
     append_version_ref (pc_convention input) @ append_owner (pc_owner input)
     @ push_bytes (as_bytes (pc_schema_id input))
     @ append_exact_ref (pc_calendar input)
     @ push_bytes [return_method_code (pc_return_method input)]
     @ push_bytes [flow_timing_code (pc_flow_timing input)]
     @ push_bytes [valuation_frequency_code (pc_valuation_frequency input)]
     @ push_bytes [rounding_code (pc_rounding input)]
     @ append_market_time ds (pc_effective_from input)
     @ append_market_time ds (pc_effective_to input)"

definition canonical_valuation_snapshot ::
  "(naive_date \<Rightarrow> string) \<Rightarrow> valuation_snapshot \<Rightarrow> bytes" where
  "canonical_valuation_snapshot ds input =
     push_bytes (as_bytes (ulid_str (vs_snapshot_id input)))
     @ append_owner (vs_owner input) @ append_version_ref (vs_subject_ref input)
     @ append_exact_ref (vs_portfolio input)
     @ append_snapshot_binding ds (vs_position_snapshot input)
     @ append_version_ref (pr_reference (vs_performance_convention input))
     @ push_bytes (hash_bytes (pr_content_hash (vs_performance_convention input)))
     @ append_market_time ds (vs_valuation_at input)
     @ append_market_time ds (vs_visible_at input)
     @ append_unit (vs_currency_unit input)
     @ push_bytes (to_be_bytes (scaled (vs_gross_assets input)))
     @ push_bytes (to_be_bytes (scaled (vs_liabilities input)))
     @ push_bytes (to_be_bytes (scaled (vs_net_asset_value input)))
     @ push_bytes (to_be_bytes (scaled (vs_net_external_flow input)))"

definition canonical_benchmark_level ::
  "(naive_date \<Rightarrow> string) \<Rightarrow> benchmark_level_snapshot \<Rightarrow> bytes" where
  "canonical_benchmark_level ds input =
     push_bytes (as_bytes (ulid_str (bl_snapshot_id input)))
     @ append_owner (bl_owner input) @ append_version_ref (bl_subject_ref input)
     @ append_exact_ref (bl_benchmark input)
     @ append_market_time ds (bl_valuation_at input)
     @ append_market_time ds (bl_visible_at input)
     @ append_unit (bl_level_unit input)
     @ push_bytes (to_be_bytes (scaled (bl_level input)))"

definition performance_convention_new ::
  "(naive_date \<Rightarrow> string) \<Rightarrow> sha256_fn \<Rightarrow> performance_convention \<Rightarrow> performance_convention domain_result" where
  "performance_convention_new ds sha256 input =
     and_then (validate_effective_period (pc_effective_from input) (pc_effective_to input)) (\<lambda>_.
     and_then (require_exact_ref (pc_calendar input)) (\<lambda>_.
     if pc_schema_id input \<noteq> PORTFOLIO_PERFORMANCE_CONVENTION_SCHEMA_V1
       \<or> pc_return_method input \<noteq> DailyTimeWeighted
       \<or> pc_flow_timing input \<noteq> EndOfDay
       \<or> pc_valuation_frequency input \<noteq> CalendarSessionClose
       \<or> pc_rounding input \<noteq> TiesToEven
     then Err InvalidValue
     else
       and_then (verify_content_hash sha256 (pc_content_hash input) (canonical_performance_convention ds input)) (\<lambda>_.
       Ok input)))"

text \<open>The subtraction is evaluated only when none of the earlier conditions refuses the input.\<close>

definition valuation_snapshot_new ::
  "(naive_date \<Rightarrow> string) \<Rightarrow> sha256_fn \<Rightarrow> valuation_snapshot \<Rightarrow> valuation_snapshot domain_result" where
  "valuation_snapshot_new ds sha256 input =
     and_then (require_exact_ref (vs_portfolio input)) (\<lambda>_.
     if mt_instant (vs_visible_at input) < mt_instant (vs_valuation_at input)
       \<or> mt_instant (sb_observed_at (vs_position_snapshot input)) > mt_instant (vs_valuation_at input)
       \<or> mt_instant (sb_visible_at (vs_position_snapshot input)) > mt_instant (vs_visible_at input)
       \<or> \<not> fd_is_non_negative (vs_gross_assets input)
       \<or> \<not> fd_is_non_negative (vs_liabilities input)
       \<or> \<not> fd_is_positive (vs_net_asset_value input)
     then Err InvalidValue
     else
       and_then (fd_checked_sub (vs_gross_assets input) (vs_liabilities input)) (\<lambda>net.
       if net \<noteq> vs_net_asset_value input then Err InvalidValue
       else
         and_then (verify_content_hash sha256 (vs_content_hash input) (canonical_valuation_snapshot ds input)) (\<lambda>_.
         Ok input)))"

definition benchmark_level_snapshot_new ::
  "(naive_date \<Rightarrow> string) \<Rightarrow> sha256_fn \<Rightarrow> benchmark_level_snapshot \<Rightarrow> benchmark_level_snapshot domain_result" where
  "benchmark_level_snapshot_new ds sha256 input =
     and_then (require_exact_ref (bl_benchmark input)) (\<lambda>_.
     if mt_instant (bl_visible_at input) < mt_instant (bl_valuation_at input) \<or> \<not> fd_is_positive (bl_level input)
     then Err InvalidValue
     else
       and_then (verify_content_hash sha256 (bl_content_hash input) (canonical_benchmark_level ds input)) (\<lambda>_.
       Ok input))"

definition session_aggregate_new ::
  "market_time \<Rightarrow> fixed_decimal \<Rightarrow> fixed_decimal \<Rightarrow> session_aggregate domain_result" where
  "session_aggregate_new valuation_at net_asset_value net_external_flow =
     (if \<not> fd_is_positive net_asset_value then Err InvalidValue
      else Ok \<lparr>sa_valuation_at = valuation_at, sa_net_asset_value = net_asset_value,
               sa_net_external_flow = net_external_flow\<rparr>)"

definition benchmark_session_level_new ::
  "market_time \<Rightarrow> fixed_decimal \<Rightarrow> benchmark_session_level domain_result" where
  "benchmark_session_level_new valuation_at level =
     (if \<not> fd_is_positive level then Err InvalidValue
      else Ok \<lparr>bs_valuation_at = valuation_at, bs_level = level\<rparr>)"

text \<open>
  The body of the loop over the sessions: the state is the pair of cumulative factors, the result
  the new state and the point of the session.
\<close>

definition performance_step ::
  "session_aggregate list \<Rightarrow> benchmark_session_level list \<Rightarrow> nat \<Rightarrow> fixed_decimal \<times> fixed_decimal \<Rightarrow>
   ((fixed_decimal \<times> fixed_decimal) \<times> daily_performance_point) domain_result" where
  "performance_step portfolio benchmark index st =
     (case st of (cumulative_factor, benchmark_cumulative_factor) \<Rightarrow>
      let opening_nav = sa_net_asset_value (portfolio ! (index - 1));
          ending_nav = sa_net_asset_value (portfolio ! index);
          flow = sa_net_external_flow (portfolio ! index) in
      and_then (fd_checked_sub ending_nav flow) (\<lambda>net.
      and_then (fd_checked_sub net opening_nav) (\<lambda>economic_pnl.
      and_then (fd_checked_div_round_ties_even economic_pnl opening_nav) (\<lambda>daily_return.
      and_then (fd_checked_add fd_one daily_return) (\<lambda>daily_factor.
      if \<not> fd_is_positive daily_factor then Err InvalidValue
      else
        let opening_level = bs_level (benchmark ! (index - 1)) in
        and_then (fd_checked_sub (bs_level (benchmark ! index)) opening_level) (\<lambda>benchmark_pnl.
        and_then (fd_checked_div_round_ties_even benchmark_pnl opening_level) (\<lambda>benchmark_return.
        and_then (fd_checked_add fd_one benchmark_return) (\<lambda>benchmark_factor.
        if \<not> fd_is_positive benchmark_factor then Err InvalidValue
        else
          and_then (fd_checked_mul_round_ties_even cumulative_factor daily_factor) (\<lambda>cumulative_factor.
          and_then (fd_checked_mul_round_ties_even benchmark_cumulative_factor benchmark_factor) (\<lambda>benchmark_cumulative_factor.
          and_then (fd_checked_sub cumulative_factor fd_one) (\<lambda>cumulative_return.
          and_then (fd_checked_sub benchmark_cumulative_factor fd_one) (\<lambda>benchmark_cumulative_return.
          and_then (fd_checked_sub daily_return benchmark_return) (\<lambda>active_return.
          and_then (fd_checked_sub cumulative_return benchmark_cumulative_return) (\<lambda>active_cumulative_return.
          Ok ((cumulative_factor, benchmark_cumulative_factor),
              \<lparr>dp_valuation_at = sa_valuation_at (portfolio ! index),
               dp_opening_nav = opening_nav, dp_ending_nav = ending_nav,
               dp_net_external_flow = flow, dp_economic_pnl = economic_pnl,
               dp_daily_return = daily_return, dp_benchmark_return = benchmark_return,
               dp_active_return = active_return, dp_cumulative_return = cumulative_return,
               dp_benchmark_cumulative_return = benchmark_cumulative_return,
               dp_active_cumulative_return = active_cumulative_return\<rparr>)))))))))))))))"

fun performance_loop ::
  "session_aggregate list \<Rightarrow> benchmark_session_level list \<Rightarrow> nat list \<Rightarrow> fixed_decimal \<times> fixed_decimal \<Rightarrow>
   daily_performance_point list domain_result" where
  "performance_loop portfolio benchmark [] st = Ok []"
| "performance_loop portfolio benchmark (index # rest) st =
     and_then (performance_step portfolio benchmark index st) (\<lambda>(st', point).
     and_then (performance_loop portfolio benchmark rest st') (\<lambda>points. Ok (point # points)))"

definition calculate_daily_performance ::
  "session_aggregate list \<Rightarrow> benchmark_session_level list \<Rightarrow> daily_performance_point list domain_result" where
  "calculate_daily_performance portfolio benchmark =
     (if length portfolio < 2 \<or> length portfolio \<noteq> length benchmark then Err InvalidValue
      else if list_ex (\<lambda>index. sa_valuation_at (portfolio ! index) \<noteq> bs_valuation_at (benchmark ! index)
                \<or> (index > 0 \<and> mt_instant (sa_valuation_at (portfolio ! (index - 1)))
                     \<ge> mt_instant (sa_valuation_at (portfolio ! index)))) [0..<length portfolio]
      then Err InvalidEffectiveTime
      else performance_loop portfolio benchmark [1..<length portfolio] (fd_one, fd_one))"

section \<open>Content hashes\<close>

lemma performance_convention_code:
  assumes "inj ds"
  shows "determines (canonical_performance_convention ds)
    (\<lambda>v. (pc_convention v, pc_owner v, as_bytes (pc_schema_id v), exact_content (pc_calendar v),
      [return_method_code (pc_return_method v)], [flow_timing_code (pc_flow_timing v)],
      [valuation_frequency_code (pc_valuation_frequency v)], [rounding_code (pc_rounding v)],
      pc_effective_from v, pc_effective_to v))"
  unfolding canonical_performance_convention_def by (intro market_codes assms)

lemma valuation_snapshot_code:
  assumes "inj ds"
  shows "determines (canonical_valuation_snapshot ds)
    (\<lambda>v. (as_bytes (ulid_str (vs_snapshot_id v)), vs_owner v, vs_subject_ref v, exact_content (vs_portfolio v),
      vs_position_snapshot v, pr_reference (vs_performance_convention v),
      hash_bytes (pr_content_hash (vs_performance_convention v)), vs_valuation_at v, vs_visible_at v, vs_currency_unit v,
      to_be_bytes (scaled (vs_gross_assets v)), to_be_bytes (scaled (vs_liabilities v)),
      to_be_bytes (scaled (vs_net_asset_value v)), to_be_bytes (scaled (vs_net_external_flow v))))"
  unfolding canonical_valuation_snapshot_def by (intro market_codes determines_append_unit assms)

lemma benchmark_level_code:
  assumes "inj ds"
  shows "determines (canonical_benchmark_level ds)
    (\<lambda>v. (as_bytes (ulid_str (bl_snapshot_id v)), bl_owner v, bl_subject_ref v, exact_content (bl_benchmark v),
      bl_valuation_at v, bl_visible_at v, bl_level_unit v, to_be_bytes (scaled (bl_level v))))"
  unfolding canonical_benchmark_level_def by (intro market_codes determines_append_unit assms)

lemma scaled_inject [simp]: "scaled a = scaled b \<longleftrightarrow> a = b"
  by (auto intro: fixed_decimal.expand)

lemma performance_convention_addressed:
  assumes "inj ds"
  shows "hash_addressed (performance_convention_new ds) (canonical_performance_convention ds) pc_content_hash"
  by (rule hash_addressedI [OF performance_convention_code [OF assms]])
    (auto simp: performance_convention_new_def construction intro!: performance_convention.equality split: if_splits)

lemma valuation_snapshot_addressed:
  assumes "inj ds"
  shows "hash_addressed (valuation_snapshot_new ds) (canonical_valuation_snapshot ds) vs_content_hash"
  by (rule hash_addressedI [OF valuation_snapshot_code [OF assms]])
    (auto simp: valuation_snapshot_new_def construction intro!: valuation_snapshot.equality split: if_splits)

lemma benchmark_level_addressed:
  assumes "inj ds"
  shows "hash_addressed (benchmark_level_snapshot_new ds) (canonical_benchmark_level ds) bl_content_hash"
  by (rule hash_addressedI [OF benchmark_level_code [OF assms]])
    (auto simp: benchmark_level_snapshot_new_def construction intro!: benchmark_level_snapshot.equality split: if_splits)

section \<open>One session\<close>

abbreviation units :: "fixed_decimal \<Rightarrow> int" where
  "units x \<equiv> sint (scaled x)"

text \<open>What the step makes of opening value, closing value net of flows, and a cumulative factor.\<close>

definition compounds :: "fixed_decimal \<Rightarrow> int \<Rightarrow> fixed_decimal \<Rightarrow> fixed_decimal \<Rightarrow> fixed_decimal \<Rightarrow> bool" where
  "compounds opening closing ret factor factor' \<longleftrightarrow>
     nearest_even (units ret) ((closing - units opening) * FIXED_DECIMAL_FACTOR) (units opening) \<and>
     0 < FIXED_DECIMAL_FACTOR + units ret \<and>
     nearest_even (units factor') (units factor * (FIXED_DECIMAL_FACTOR + units ret)) FIXED_DECIMAL_FACTOR"

lemma units_one [simp]: "units fd_one = FIXED_DECIMAL_FACTOR"
  unfolding fd_one_def fixed_decimal.sel
  by (rule sint_of_i128_range) (simp add: i128_range_def FIXED_DECIMAL_FACTOR_def)

lemma performance_step_point:
  assumes "performance_step portfolio benchmark index (C, B) = Ok ((C', B'), pt)"
  shows "dp_valuation_at pt = sa_valuation_at (portfolio ! index)"
    "dp_opening_nav pt = sa_net_asset_value (portfolio ! (index - 1))"
    "dp_ending_nav pt = sa_net_asset_value (portfolio ! index)"
    "dp_net_external_flow pt = sa_net_external_flow (portfolio ! index)"
    "units (dp_economic_pnl pt) = units (dp_ending_nav pt) - units (dp_net_external_flow pt) - units (dp_opening_nav pt)"
    "compounds (dp_opening_nav pt) (units (dp_ending_nav pt) - units (dp_net_external_flow pt)) (dp_daily_return pt) C C'"
    "compounds (bs_level (benchmark ! (index - 1))) (units (bs_level (benchmark ! index))) (dp_benchmark_return pt) B B'"
    "units (dp_active_return pt) = units (dp_daily_return pt) - units (dp_benchmark_return pt)"
    "units (dp_cumulative_return pt) = units C' - FIXED_DECIMAL_FACTOR"
    "units (dp_benchmark_cumulative_return pt) = units B' - FIXED_DECIMAL_FACTOR"
    "units (dp_active_cumulative_return pt) = units C' - units B'"
  using assms
  by (auto simp: performance_step_def Let_def and_then_eq_Ok fd_checked_sub_Ok fd_checked_add_Ok fd_div_round_Ok
      fd_mul_round_Ok fd_is_positive_def compounds_def split: if_splits)

section \<open>The exact time-weighted return\<close>

definition fd_real :: "fixed_decimal \<Rightarrow> real" where
  "fd_real x = real_of_int (units x) / 10 ^ 12"

text \<open>Half a unit in the last place, the error of one rounding.\<close>

definition half_unit :: real where
  "half_unit = 1 / (2 * 10 ^ 12)"

lemma half_unit_pos: "0 < half_unit"
  by (simp add: half_unit_def)

lemma nearest_even_real:
  assumes "nearest_even q n d" "d \<noteq> 0"
  shows "\<bar>real_of_int q - real_of_int n / real_of_int d\<bar> \<le> 1 / 2"
proof -
  have "2 * \<bar>q * d - n\<bar> \<le> \<bar>d\<bar>" using assms(1) by (simp add: nearest_even_def)
  then have "2 * \<bar>real_of_int q * real_of_int d - real_of_int n\<bar> \<le> \<bar>real_of_int d\<bar>"
    by (metis (mono_tags, lifting) of_int_abs of_int_diff of_int_le_iff of_int_mult of_int_numeral)
  moreover have "real_of_int q - real_of_int n / real_of_int d = (real_of_int q * real_of_int d - real_of_int n) / real_of_int d"
    using assms(2) by (simp add: diff_divide_distrib)
  ultimately show ?thesis using assms(2) by (simp add: abs_divide divide_le_eq)
qed

lemma half_unit_scaled:
  assumes "\<bar>x - y * 10 ^ 12\<bar> \<le> 1 / 2"
  shows "\<bar>x / 10 ^ 12 - y\<bar> \<le> half_unit"
  using assms by (auto simp: half_unit_def abs_le_iff field_simps)

lemma compounds_error:
  assumes compounds: "compounds opening closing ret C C'" and positive: "0 < units opening"
    and C: "\<bar>fd_real C - P\<bar> \<le> E" and P: "0 \<le> P"
  defines "F \<equiv> real_of_int closing / real_of_int (units opening)"
  shows "0 < F" and "\<bar>fd_real C' - P * F\<bar> \<le> E * (F + half_unit) + (P + 1) * half_unit"
proof -
  let ?K = "10 ^ 12 :: real"
  define f where "f = 1 + fd_real ret"
  have K: "real_of_int FIXED_DECIMAL_FACTOR = ?K" by (simp add: FIXED_DECIMAL_FACTOR_def)
  have "\<bar>real_of_int (units ret) - real_of_int ((closing - units opening) * FIXED_DECIMAL_FACTOR) / real_of_int (units opening)\<bar> \<le> 1 / 2"
    by (rule nearest_even_real) (use compounds positive in \<open>simp_all add: compounds_def\<close>)
  moreover have "real_of_int ((c - a) * FIXED_DECIMAL_FACTOR) / real_of_int a = (real_of_int c / real_of_int a - 1) * ?K"
    if "0 < a" for c a using that by (simp add: K field_simps)
  ultimately have "\<bar>real_of_int (units ret) - (F - 1) * ?K\<bar> \<le> 1 / 2" using positive by (simp only: F_def)
  from half_unit_scaled [OF this] have fF: "\<bar>f - F\<bar> \<le> half_unit" by (simp add: f_def fd_real_def)
  have "1 \<le> FIXED_DECIMAL_FACTOR + units ret" using compounds by (simp add: compounds_def)
  then have "1 \<le> ?K + real_of_int (units ret)" by (metis K of_int_1 of_int_add of_int_le_iff)
  then have ff: "2 * half_unit \<le> f" by (simp add: f_def fd_real_def half_unit_def field_simps)
  with fF show F: "0 < F" using half_unit_pos by linarith
  have f: "0 < f" "f \<le> F + half_unit" using fF ff half_unit_pos by linarith+
  have "\<bar>real_of_int (units C') - real_of_int (units C * (FIXED_DECIMAL_FACTOR + units ret)) / real_of_int FIXED_DECIMAL_FACTOR\<bar> \<le> 1 / 2"
    by (rule nearest_even_real) (use compounds in \<open>simp_all add: compounds_def FIXED_DECIMAL_FACTOR_def\<close>)
  moreover have "real_of_int (a * (FIXED_DECIMAL_FACTOR + b)) / real_of_int FIXED_DECIMAL_FACTOR =
      (real_of_int a / ?K * (1 + real_of_int b / ?K)) * ?K" for a b by (simp add: K field_simps)
  ultimately have "\<bar>real_of_int (units C') - (fd_real C * f) * ?K\<bar> \<le> 1 / 2" by (simp only: f_def fd_real_def)
  from half_unit_scaled [OF this] have mul: "\<bar>fd_real C' - fd_real C * f\<bar> \<le> half_unit" by (simp only: fd_real_def)
  have "fd_real C' - P * F = (fd_real C' - fd_real C * f) + (fd_real C - P) * f + P * (f - F)" by (simp add: algebra_simps)
  then have "\<bar>fd_real C' - P * F\<bar> \<le> \<bar>fd_real C' - fd_real C * f\<bar> + \<bar>(fd_real C - P) * f\<bar> + \<bar>P * (f - F)\<bar>" by linarith
  also have "\<bar>(fd_real C - P) * f\<bar> \<le> E * (F + half_unit)"
    using C f by (simp add: abs_mult mult_mono')
  also have "\<bar>P * (f - F)\<bar> \<le> P * half_unit" using fF P by (simp add: abs_mult mult_left_mono)
  finally show "\<bar>fd_real C' - P * F\<bar> \<le> E * (F + half_unit) + (P + 1) * half_unit"
    using mul by (simp add: algebra_simps)
qed

section \<open>The sessions in order\<close>

text \<open>The states the loop goes through, one step per point.\<close>

lemma performance_loop_steps:
  "performance_loop portfolio benchmark is st = Ok points \<Longrightarrow>
     length points = length is \<and>
     (\<exists>sts. sts 0 = st \<and> (\<forall>k < length is.
        performance_step portfolio benchmark (is ! k) (sts k) = Ok (sts (Suc k), points ! k)))"
proof (induction "is" arbitrary: st points)
  case Nil
  then show ?case by auto
next
  case (Cons i "is")
  then obtain st' pt pts where step: "performance_step portfolio benchmark i st = Ok (st', pt)"
    and loop: "performance_loop portfolio benchmark is st' = Ok pts" and points: "points = pt # pts"
    by (auto simp: and_then_eq_Ok)
  from Cons.IH [OF loop] obtain sts where len: "length pts = length is" and first: "sts 0 = st'"
    and steps: "\<forall>k < length is. performance_step portfolio benchmark (is ! k) (sts k) = Ok (sts (Suc k), pts ! k)"
    by blast
  have "\<forall>k < length (i # is). performance_step portfolio benchmark ((i # is) ! k) (case_nat st sts k) =
      Ok (case_nat st sts (Suc k), points ! k)"
    using step first steps points by (auto simp: less_Suc_eq_0_disj)
  then show ?case using len points by (intro conjI exI [of _ "case_nat st sts"]) simp_all
qed

lemma calculate_daily_performance_steps:
  assumes "calculate_daily_performance portfolio benchmark = Ok points"
  obtains Cs Bs where "length points = length portfolio - 1" "length portfolio = length benchmark"
    "Cs 0 = fd_one" "Bs 0 = fd_one"
    "\<And>k. k < length points \<Longrightarrow>
       performance_step portfolio benchmark (Suc k) (Cs k, Bs k) = Ok ((Cs (Suc k), Bs (Suc k)), points ! k)"
proof -
  have loop: "performance_loop portfolio benchmark [1..<length portfolio] (fd_one, fd_one) = Ok points"
    and len: "length portfolio = length benchmark"
    using assms by (auto simp: calculate_daily_performance_def split: if_splits)
  obtain sts where sts: "length points = length portfolio - 1" "sts 0 = (fd_one, fd_one)"
    "\<And>k. k < length points \<Longrightarrow> performance_step portfolio benchmark (Suc k) (sts k) = Ok (sts (Suc k), points ! k)"
    using performance_loop_steps [OF loop] by auto
  show thesis by (rule that [of "\<lambda>k. fst (sts k)" "\<lambda>k. snd (sts k)"]) (use sts len in simp_all)
qed

text \<open>Exact growth of a session net of flows, its compounding, and the error of compounding in decimals.\<close>

definition growth :: "session_aggregate list \<Rightarrow> nat \<Rightarrow> real" where
  "growth portfolio i =
     real_of_int (units (sa_net_asset_value (portfolio ! Suc i)) - units (sa_net_external_flow (portfolio ! Suc i)))
     / real_of_int (units (sa_net_asset_value (portfolio ! i)))"

definition benchmark_growth :: "benchmark_session_level list \<Rightarrow> nat \<Rightarrow> real" where
  "benchmark_growth benchmark i =
     real_of_int (units (bs_level (benchmark ! Suc i))) / real_of_int (units (bs_level (benchmark ! i)))"

definition compounded :: "(nat \<Rightarrow> real) \<Rightarrow> nat \<Rightarrow> real" where
  "compounded g n = (\<Prod>i<n. g i)"

primrec compounding_error :: "(nat \<Rightarrow> real) \<Rightarrow> nat \<Rightarrow> real" where
  "compounding_error g 0 = 0"
| "compounding_error g (Suc n) =
     compounding_error g n * (g n + half_unit) + (compounded g n + 1) * half_unit"

lemma compounded_simps [simp]: "compounded g 0 = 1" "compounded g (Suc n) = compounded g n * g n"
  by (simp_all add: compounded_def)

text \<open>A sequence of factors, each compounded from the one before, stays within the error.\<close>

lemma compounding_error_bound:
  assumes start: "Cs 0 = fd_one"
    and steps: "\<And>k. k < n \<Longrightarrow> compounds (base k) (closing k) (ret k) (Cs k) (Cs (Suc k)) \<and> 0 < units (base k) \<and>
      g k = real_of_int (closing k) / real_of_int (units (base k))"
  shows "k \<le> n \<Longrightarrow> 0 \<le> compounded g k \<and> \<bar>fd_real (Cs k) - compounded g k\<bar> \<le> compounding_error g k"
proof (induction k)
  case 0
  then show ?case by (simp add: start fd_real_def FIXED_DECIMAL_FACTOR_def)
next
  case (Suc k)
  then have IH: "\<bar>fd_real (Cs k) - compounded g k\<bar> \<le> compounding_error g k" "0 \<le> compounded g k" by simp_all
  have k: "compounds (base k) (closing k) (ret k) (Cs k) (Cs (Suc k))" "0 < units (base k)"
    "g k = real_of_int (closing k) / real_of_int (units (base k))" using steps Suc.prems by simp_all
  from compounds_error [OF k(1,2) IH] IH(2) show ?case unfolding k(3) [symmetric] by simp
qed

definition series_ok :: "session_aggregate list \<Rightarrow> benchmark_session_level list \<Rightarrow> bool" where
  "series_ok portfolio benchmark \<longleftrightarrow>
     list_all (\<lambda>s. session_aggregate_new (sa_valuation_at s) (sa_net_asset_value s) (sa_net_external_flow s) = Ok s) portfolio \<and>
     list_all (\<lambda>s. benchmark_session_level_new (bs_valuation_at s) (bs_level s) = Ok s) benchmark"

lemma series_positive:
  assumes "series_ok portfolio benchmark"
  shows "i < length portfolio \<Longrightarrow> 0 < units (sa_net_asset_value (portfolio ! i))"
    "i < length benchmark \<Longrightarrow> 0 < units (bs_level (benchmark ! i))"
  using assms by (auto simp: series_ok_def list_all_length session_aggregate_new_def benchmark_session_level_new_def
      fd_is_positive_def split: if_splits)

text \<open>
  C39: the reported cumulative returns are the exact time-weighted returns up to the
  roundings. With end-of-day flows, the cumulative return after each session differs from the
  product of the exact session growths (closing value net of flow over opening value) minus one by
  at most the accumulated half units in the twelfth decimal, each carried forward by the later
  growths; the same holds for the benchmark.
\<close>

theorem cumulative_return_error:
  assumes "calculate_daily_performance portfolio benchmark = Ok points" "series_ok portfolio benchmark"
    and "k < length points"
  shows "\<bar>fd_real (dp_cumulative_return (points ! k)) - (compounded (growth portfolio) (Suc k) - 1)\<bar>
      \<le> compounding_error (growth portfolio) (Suc k) \<and>
    \<bar>fd_real (dp_benchmark_cumulative_return (points ! k)) - (compounded (benchmark_growth benchmark) (Suc k) - 1)\<bar>
      \<le> compounding_error (benchmark_growth benchmark) (Suc k)"
proof -
  from assms(1) obtain Cs Bs where len: "length points = length portfolio - 1" "length portfolio = length benchmark"
    and start: "Cs 0 = fd_one" "Bs 0 = fd_one"
    and steps: "\<And>k. k < length points \<Longrightarrow>
       performance_step portfolio benchmark (Suc k) (Cs k, Bs k) = Ok ((Cs (Suc k), Bs (Suc k)), points ! k)"
    by (rule calculate_daily_performance_steps) blast
  have returns: "fd_real (dp_cumulative_return (points ! k)) = fd_real (Cs (Suc k)) - 1"
    "fd_real (dp_benchmark_cumulative_return (points ! k)) = fd_real (Bs (Suc k)) - 1"
    using performance_step_point(9,10) [OF steps [OF assms(3)]]
    by (simp_all add: fd_real_def FIXED_DECIMAL_FACTOR_def diff_divide_distrib)
  have "\<bar>fd_real (Cs (Suc k)) - compounded (growth portfolio) (Suc k)\<bar> \<le> compounding_error (growth portfolio) (Suc k)"
    using compounding_error_bound [where Cs = Cs and n = "length points" and g = "growth portfolio"
        and base = "\<lambda>k. sa_net_asset_value (portfolio ! k)"
        and closing = "\<lambda>k. units (sa_net_asset_value (portfolio ! Suc k)) - units (sa_net_external_flow (portfolio ! Suc k))"
        and ret = "\<lambda>k. dp_daily_return (points ! k)" and k = "Suc k", OF start(1)]
      performance_step_point(2,3,4,6) [OF steps] series_positive(1) [OF assms(2)] len assms(3) by (simp add: growth_def)
  moreover have "\<bar>fd_real (Bs (Suc k)) - compounded (benchmark_growth benchmark) (Suc k)\<bar> \<le> compounding_error (benchmark_growth benchmark) (Suc k)"
    using compounding_error_bound [where Cs = Bs and n = "length points" and g = "benchmark_growth benchmark"
        and base = "\<lambda>k. bs_level (benchmark ! k)" and closing = "\<lambda>k. units (bs_level (benchmark ! Suc k))"
        and ret = "\<lambda>k. dp_benchmark_return (points ! k)" and k = "Suc k", OF start(2)]
      performance_step_point(7) [OF steps] series_positive(2) [OF assms(2)] len assms(3) by (simp add: benchmark_growth_def)
  ultimately show ?thesis using returns by simp
qed

lemma sum_list_telescope:
  fixes f :: "'a \<Rightarrow> int"
  shows "length points = length xs - 1 \<Longrightarrow> xs \<noteq> [] \<Longrightarrow>
    (\<And>k. k < length points \<Longrightarrow> p (points ! k) = f (xs ! Suc k) - h (xs ! Suc k) - f (xs ! k)) \<Longrightarrow>
    sum_list (map p points) = f (last xs) - f (hd xs) - sum_list (map h (tl xs))"
proof (induction xs arbitrary: points rule: induct_list012)
  case (3 x y xs)
  then obtain pt pts where points: "points = pt # pts" by (cases points) auto
  have "sum_list (map p pts) = f (last (y # xs)) - f (hd (y # xs)) - sum_list (map h (tl (y # xs)))"
    by (rule 3(2)) (use 3(3) 3(5) [of "Suc k" for k] points in force)+
  moreover have "p pt = f y - h y - f x" using 3(5) [of 0] points by simp
  ultimately show ?case using points by simp
qed auto

text \<open>
  C27: the reported profits reconcile. Over the whole series the economic profits of the
  sessions add up exactly to the change of the net asset value less the external flows; each daily
  return is the profit over the opening value rounded to the nearest decimal, ties to even, and each
  active return is exactly the difference to the benchmark's.
\<close>

theorem economic_pnl_reconciles:
  assumes "calculate_daily_performance portfolio benchmark = Ok points"
  shows "(\<Sum>pt\<leftarrow>points. units (dp_economic_pnl pt)) =
      units (sa_net_asset_value (last portfolio)) - units (sa_net_asset_value (hd portfolio))
      - (\<Sum>s\<leftarrow>tl portfolio. units (sa_net_external_flow s)) \<and>
    (\<forall>pt \<in> set points.
      nearest_even (units (dp_daily_return pt)) (units (dp_economic_pnl pt) * FIXED_DECIMAL_FACTOR) (units (dp_opening_nav pt)) \<and>
      units (dp_active_return pt) = units (dp_daily_return pt) - units (dp_benchmark_return pt) \<and>
      units (dp_active_cumulative_return pt) = units (dp_cumulative_return pt) - units (dp_benchmark_cumulative_return pt))"
proof -
  from assms obtain Cs Bs where len: "length points = length portfolio - 1"
    and steps: "\<And>k. k < length points \<Longrightarrow>
       performance_step portfolio benchmark (Suc k) (Cs k, Bs k) = Ok ((Cs (Suc k), Bs (Suc k)), points ! k)"
    by (rule calculate_daily_performance_steps) blast
  note point = performance_step_point [OF steps]
  have "portfolio \<noteq> []" using assms by (auto simp: calculate_daily_performance_def)
  then have "(\<Sum>pt\<leftarrow>points. units (dp_economic_pnl pt)) =
      units (sa_net_asset_value (last portfolio)) - units (sa_net_asset_value (hd portfolio))
      - (\<Sum>s\<leftarrow>tl portfolio. units (sa_net_external_flow s))"
    by (rule sum_list_telescope [OF len]) (simp add: point(2,3,4,5))
  moreover have "nearest_even (units (dp_daily_return (points ! k))) (units (dp_economic_pnl (points ! k)) * FIXED_DECIMAL_FACTOR)
        (units (dp_opening_nav (points ! k))) \<and>
      units (dp_active_return (points ! k)) = units (dp_daily_return (points ! k)) - units (dp_benchmark_return (points ! k)) \<and>
      units (dp_active_cumulative_return (points ! k)) =
        units (dp_cumulative_return (points ! k)) - units (dp_benchmark_cumulative_return (points ! k))" if "k < length points" for k
    using point(5,6,8,9,10,11) [OF that] by (simp add: compounds_def)
  ultimately show ?thesis by (simp add: all_set_conv_all_nth)
qed

text \<open>A series of two sessions: 2 to 3 with a flow of a half, against a benchmark from 4 to 6.\<close>

definition fd_of :: "int \<Rightarrow> fixed_decimal" where
  "fd_of n = FixedDecimal (word_of_int n)"

lemma units_fd_of: "i128_range n \<Longrightarrow> units (fd_of n) = n"
  by (simp add: fd_of_def sint_of_i128_range)

lemma fd_one_eq: "fd_one = fd_of 1000000000000"
  by (simp add: fd_one_def fd_of_def FIXED_DECIMAL_FACTOR_def)

definition sample_sessions :: "session_aggregate list" where
  "sample_sessions =
     [\<lparr>sa_valuation_at = sample_time 0, sa_net_asset_value = fd_of 2000000000000, sa_net_external_flow = fd_of 0\<rparr>,
      \<lparr>sa_valuation_at = sample_time 1, sa_net_asset_value = fd_of 3000000000000, sa_net_external_flow = fd_of 500000000000\<rparr>]"

definition sample_levels :: "benchmark_session_level list" where
  "sample_levels =
     [\<lparr>bs_valuation_at = sample_time 0, bs_level = fd_of 4000000000000\<rparr>,
      \<lparr>bs_valuation_at = sample_time 1, bs_level = fd_of 6000000000000\<rparr>]"

definition sample_point :: daily_performance_point where
  "sample_point =
     \<lparr>dp_valuation_at = sample_time 1, dp_opening_nav = fd_of 2000000000000, dp_ending_nav = fd_of 3000000000000,
      dp_net_external_flow = fd_of 500000000000, dp_economic_pnl = fd_of 500000000000,
      dp_daily_return = fd_of 250000000000, dp_benchmark_return = fd_of 500000000000,
      dp_active_return = fd_of (- 250000000000), dp_cumulative_return = fd_of 250000000000,
      dp_benchmark_cumulative_return = fd_of 500000000000, dp_active_cumulative_return = fd_of (- 250000000000)\<rparr>"

lemma sample_performance: "calculate_daily_performance sample_sessions sample_levels = Ok [sample_point]"
proof -
  have sub: "fd_checked_sub (fd_of a) (fd_of b) = Ok (fd_of (a - b))" if "i128_range a" "i128_range b" "i128_range (a - b)" for a b
    using that by (simp add: fd_checked_sub_Ok units_fd_of)
  have add: "fd_checked_add (fd_of a) (fd_of b) = Ok (fd_of (a + b))" if "i128_range a" "i128_range b" "i128_range (a + b)" for a b
    using that by (simp add: fd_checked_add_Ok units_fd_of)
  have div: "fd_checked_div_round_ties_even (fd_of 500000000000) (fd_of 2000000000000) = Ok (fd_of 250000000000)"
    "fd_checked_div_round_ties_even (fd_of 2000000000000) (fd_of 4000000000000) = Ok (fd_of 500000000000)"
    by (simp_all add: fd_div_round_Ok units_fd_of i128_range_def nearest_even_def FIXED_DECIMAL_FACTOR_def) (simp_all add: fd_of_def)
  have mul: "fd_checked_mul_round_ties_even (fd_of 1000000000000) (fd_of a) = Ok (fd_of a)" if "a \<in> {1250000000000, 1500000000000}" for a
    using that by (auto simp: fd_mul_round_Ok units_fd_of i128_range_def nearest_even_def FIXED_DECIMAL_FACTOR_def)
  have pos: "fd_is_positive (fd_of a)" if "0 < a" "i128_range a" for a using that by (simp add: fd_is_positive_def units_fd_of)
  have "performance_step sample_sessions sample_levels 1 (fd_one, fd_one) =
      Ok ((fd_of 1250000000000, fd_of 1500000000000), sample_point)"
    by (simp add: performance_step_def sample_sessions_def sample_levels_def sample_point_def sub add div mul pos fd_one_eq i128_range_def)
  then have "performance_loop sample_sessions sample_levels [1..<length sample_sessions] (fd_one, fd_one) = Ok [sample_point]"
    by (simp add: sample_sessions_def [unfolded One_nat_def] upt_conv_Cons)
  moreover have "length sample_sessions = 2" "length sample_levels = 2" "[0..<2] = [0, Suc 0]"
    by (simp_all add: sample_sessions_def sample_levels_def upt_conv_Cons)
  ultimately show ?thesis
    by (simp add: calculate_daily_performance_def) (simp add: sample_sessions_def sample_levels_def sample_time_def less_eq_utc_instant_def)
qed

lemma sample_series_ok: "series_ok sample_sessions sample_levels"
  by (simp add: series_ok_def sample_sessions_def sample_levels_def session_aggregate_new_def
      benchmark_session_level_new_def fd_is_positive_def units_fd_of i128_range_def)

lemma cumulative_return_error_witness:
  "\<bar>fd_real (dp_cumulative_return sample_point) - (compounded (growth sample_sessions) 1 - 1)\<bar>
      \<le> compounding_error (growth sample_sessions) 1 \<and>
   \<bar>fd_real (dp_benchmark_cumulative_return sample_point) - (compounded (benchmark_growth sample_levels) 1 - 1)\<bar>
      \<le> compounding_error (benchmark_growth sample_levels) 1"
  using cumulative_return_error [OF sample_performance sample_series_ok, of 0] by simp

lemma economic_pnl_reconciles_witness:
  "units (dp_economic_pnl sample_point) = units (fd_of 3000000000000) - units (fd_of 2000000000000) - units (fd_of 500000000000) \<and>
   units (dp_active_return sample_point) = units (dp_daily_return sample_point) - units (dp_benchmark_return sample_point)"
  using economic_pnl_reconciles [OF sample_performance] by (simp add: sample_sessions_def)

end
