(* ===== verification/Replay_Execution.thy ===== *)
theory Replay_Execution
  imports Simulated_Book
begin

text \<open>
  Simulated execution (\<open>ficant-domain/src/replay/execution.rs\<close>): one attempt fills at most the
  traded face of its bar times the participation cap, less what earlier attempts in the same bar
  used; a constraint decision may shrink it further. The theory shows that an attempt, constrained
  or not, splits the requested face into what executed and what it reports as left, never turns
  around and never exceeds its bar's limit.
\<close>

section \<open>Definitions\<close>

datatype remainder_handling = Cancel | Carry

fun remainder_handling_code :: "remainder_handling \<Rightarrow> string" where
  "remainder_handling_code Cancel = ''CANCEL''"
| "remainder_handling_code Carry = ''CARRY''"

record 'd execution_rules =
  er_participation_cap :: 'd
  er_remainder :: remainder_handling

definition execution_rules_new ::
  "'d decimal_ops \<Rightarrow> 'd \<Rightarrow> remainder_handling \<Rightarrow> 'd execution_rules domain_result" where
  "execution_rules_new ops participation_cap remainder =
     (if d_le ops participation_cap (d_zero ops) \<or> d_lt ops (d_int ops 1) participation_cap
      then Err InvalidValue
      else Ok \<lparr>er_participation_cap = participation_cap, er_remainder = remainder\<rparr>)"

datatype fill_price_basis = Vwap | Close

fun basis_code :: "fill_price_basis \<Rightarrow> string" where
  "basis_code Vwap = ''VWAP''"
| "basis_code Close = ''CLOSE''"

datatype no_fill_reason = NoPriceInBar | NoLaterBar | ParticipationCap | Constraint

fun no_fill_code :: "no_fill_reason \<Rightarrow> string" where
  "no_fill_code NoPriceInBar = ''NO_PRICE_IN_BAR''"
| "no_fill_code NoLaterBar = ''NO_LATER_BAR''"
| "no_fill_code ParticipationCap = ''PARTICIPATION_CAP''"
| "no_fill_code Constraint = ''CONSTRAINT''"

datatype remainder_outcome = CancelledRemainder | CarriedRemainder

fun remainder_outcome_code :: "remainder_outcome \<Rightarrow> string" where
  "remainder_outcome_code CancelledRemainder = ''CANCELLED''"
| "remainder_outcome_code CarriedRemainder = ''CARRIED''"

record 'd remainder =
  rm_quantity :: 'd
  rm_reason :: no_fill_reason
  rm_outcome :: remainder_outcome

text \<open>From \<open>constraints.rs\<close>: how constraints changed an attempt.\<close>

datatype constraint_action = ActionRejected | ActionReduced

fun constraint_action_code :: "constraint_action \<Rightarrow> string" where
  "constraint_action_code ActionRejected = ''REJECTED''"
| "constraint_action_code ActionReduced = ''REDUCED''"

record 'd constraint_outcome =
  co_unconstrained :: 'd
  co_triggered :: "string list"
  co_action :: constraint_action

record 'd simulated_fill =
  sf_decision_time :: utc_instant
  sf_instrument :: version_ref
  sf_requested :: 'd
  sf_quantity :: 'd
  sf_limit :: "'d option"
  sf_effective_at :: utc_instant
  sf_execution_bar :: "string option"
  sf_price :: "'d option"
  sf_basis :: "fill_price_basis option"
  sf_price_source :: price_source_type
  sf_no_fill :: "no_fill_reason option"
  sf_remainder :: "'d remainder option"
  sf_constraint :: "'d constraint_outcome option"

definition filled :: "'d simulated_fill \<Rightarrow> bool" where
  "filled f \<longleftrightarrow> sf_no_fill f = None"

definition signed_like :: "'d decimal_ops \<Rightarrow> 'd \<Rightarrow> 'd \<Rightarrow> 'd" where
  "signed_like ops sign_of magnitude =
     (if d_is_sign_negative ops sign_of then d_neg ops magnitude else magnitude)"

definition priced :: "'d decimal_ops \<Rightarrow> bar \<Rightarrow> ('d \<times> fill_price_basis) option" where
  "priced ops b =
     (case (bar_vwap b, bar_prices b) of
        (Some vwap, _) \<Rightarrow> Some (amount_of ops vwap, Vwap)
      | (None, Some prices) \<Rightarrow> Some (amount_of ops (bp_close prices), Close)
      | (None, None) \<Rightarrow> None)"

definition attempt_limit :: "'d decimal_ops \<Rightarrow> bar \<Rightarrow> 'd \<Rightarrow> 'd execution_rules \<Rightarrow> 'd" where
  "attempt_limit ops b used rules =
     d_max ops (d_sub ops (d_mul ops (amount_of ops (bar_volume b)) (er_participation_cap rules)) used) (d_zero ops)"

definition attempt_in_bar ::
  "'d decimal_ops \<Rightarrow> utc_instant \<Rightarrow> version_ref \<Rightarrow> 'd \<Rightarrow> bar \<Rightarrow> 'd \<Rightarrow> 'd execution_rules \<Rightarrow>
   price_source_type \<Rightarrow> 'd simulated_fill" where
  "attempt_in_bar ops decision_time instrument remaining b used rules price_source =
     (let pr = priced ops b;
          limit = attempt_limit ops b used rules;
          executed = (if pr \<noteq> None then signed_like ops remaining (d_min ops (d_abs ops remaining) limit)
                      else d_zero ops);
          left = d_sub ops remaining executed;
          shortfall_reason = (if pr \<noteq> None then ParticipationCap else NoPriceInBar);
          outcome = (case er_remainder rules of Cancel \<Rightarrow> CancelledRemainder | Carry \<Rightarrow> CarriedRemainder)
      in \<lparr>sf_decision_time = decision_time,
          sf_instrument = instrument,
          sf_requested = amount_from_decimal ops remaining,
          sf_quantity = amount_from_decimal ops executed,
          sf_limit = Some (amount_from_decimal ops limit),
          sf_effective_at = bar_end b,
          sf_execution_bar = Some (source_record_id b),
          sf_price = map_option fst pr,
          sf_basis = map_option snd pr,
          sf_price_source = price_source,
          sf_no_fill = (if d_is_zero ops executed then Some shortfall_reason else None),
          sf_remainder =
            (if d_is_zero ops left then None
             else Some \<lparr>rm_quantity = amount_from_decimal ops left, rm_reason = shortfall_reason,
                        rm_outcome = outcome\<rparr>),
          sf_constraint = None\<rparr>)"

definition no_later_bar ::
  "'d decimal_ops \<Rightarrow> utc_instant \<Rightarrow> version_ref \<Rightarrow> 'd \<Rightarrow> utc_instant \<Rightarrow> price_source_type \<Rightarrow> 'd simulated_fill" where
  "no_later_bar ops decision_time instrument remaining effective_at price_source =
     \<lparr>sf_decision_time = decision_time,
      sf_instrument = instrument,
      sf_requested = remaining,
      sf_quantity = d_zero ops,
      sf_limit = None,
      sf_effective_at = effective_at,
      sf_execution_bar = None,
      sf_price = None,
      sf_basis = None,
      sf_price_source = price_source,
      sf_no_fill = Some NoLaterBar,
      sf_remainder =
        Some \<lparr>rm_quantity = remaining, rm_reason = NoLaterBar, rm_outcome = CancelledRemainder\<rparr>,
      sf_constraint = None\<rparr>"

definition constrain ::
  "'d decimal_ops \<Rightarrow> 'd \<Rightarrow> 'd constraint_outcome \<Rightarrow> 'd simulated_fill \<Rightarrow> 'd simulated_fill" where
  "constrain ops allowed outcome fill =
     (let left = amount_minus ops (sf_requested fill) allowed in
      fill\<lparr>sf_quantity := allowed,
           sf_no_fill := (if d_is_zero ops allowed then Some Constraint else None),
           sf_remainder :=
             (if d_is_zero ops left then None
              else Some \<lparr>rm_quantity = left, rm_reason = Constraint, rm_outcome = CancelledRemainder\<rparr>),
           sf_constraint := Some outcome\<rparr>)"

section \<open>Shape of an attempt\<close>

lemma attempt_in_bar_simps [simp]:
  "sf_decision_time (attempt_in_bar ops t i r b u rules ps) = t"
  "sf_instrument (attempt_in_bar ops t i r b u rules ps) = i"
  "sf_effective_at (attempt_in_bar ops t i r b u rules ps) = bar_end b"
  "sf_execution_bar (attempt_in_bar ops t i r b u rules ps) = Some (source_record_id b)"
  "sf_price (attempt_in_bar ops t i r b u rules ps) = map_option fst (priced ops b)"
  by (simp_all add: attempt_in_bar_def Let_def)

lemma no_later_bar_simps [simp]:
  "sf_effective_at (no_later_bar ops t i r e ps) = e"
  "sf_instrument (no_later_bar ops t i r e ps) = i"
  "sf_quantity (no_later_bar ops t i r e ps) = d_zero ops"
  by (simp_all add: no_later_bar_def)

lemma constrain_simps [simp]:
  "sf_quantity (constrain ops a oc f) = a"
  "sf_decision_time (constrain ops a oc f) = sf_decision_time f"
  "sf_instrument (constrain ops a oc f) = sf_instrument f"
  "sf_requested (constrain ops a oc f) = sf_requested f"
  "sf_effective_at (constrain ops a oc f) = sf_effective_at f"
  "sf_execution_bar (constrain ops a oc f) = sf_execution_bar f"
  "sf_price (constrain ops a oc f) = sf_price f"
  "sf_limit (constrain ops a oc f) = sf_limit f"
  by (simp_all add: constrain_def Let_def)

text \<open>
  An execution of face \<open>x\<close> within a request \<open>r\<close>: in the same direction and no larger.
\<close>

definition part_of :: "rat \<Rightarrow> rat \<Rightarrow> bool" where
  "part_of x r \<longleftrightarrow> 0 \<le> x \<and> x \<le> r \<or> r \<le> x \<and> x \<le> 0"

lemma part_of_trans: "part_of x y \<Longrightarrow> part_of y z \<Longrightarrow> part_of x z"
  by (auto simp: part_of_def)

lemma part_of_abs: "part_of x r \<Longrightarrow> \<bar>x\<bar> \<le> \<bar>r\<bar>"
  by (auto simp: part_of_def)

lemma part_of_signed_like:
  "0 \<le> m \<Longrightarrow> m \<le> \<bar>r\<bar> \<Longrightarrow> part_of (signed_like rat_ops r m) r"
  by (auto simp: part_of_def signed_like_def)

lemma attempt_limit_nonneg [simp]: "0 \<le> attempt_limit rat_ops b used rules"
  by (simp add: attempt_limit_def)

lemma attempt_part_of:
  assumes "a = attempt_in_bar rat_ops t i r b used rules ps"
  shows "sf_requested a = r" "part_of (sf_quantity a) r" "\<bar>sf_quantity a\<bar> \<le> attempt_limit rat_ops b used rules"
  by (auto simp: assms attempt_in_bar_def Let_def part_of_def signed_like_def min_def)

text \<open>What an attempt reports: the parts add up to the request, and the flags say which are zero.\<close>

definition reported :: "rat simulated_fill \<Rightarrow> bool" where
  "reported f \<longleftrightarrow>
     sf_requested f = sf_quantity f + (case sf_remainder f of None \<Rightarrow> 0 | Some r \<Rightarrow> rm_quantity r) \<and>
     (filled f \<longleftrightarrow> sf_quantity f \<noteq> 0) \<and>
     (\<forall>r \<in> set_option (sf_remainder f). rm_quantity r \<noteq> 0)"

lemma reported_attempt: "reported (attempt_in_bar rat_ops t i r b used rules ps)"
  by (auto simp: reported_def filled_def attempt_in_bar_def Let_def)

lemma reported_constrain: "reported (constrain rat_ops a oc f)"
  by (auto simp: reported_def filled_def constrain_def Let_def)

lemma reported_no_later_bar: "r \<noteq> 0 \<Longrightarrow> reported (no_later_bar rat_ops t i r e ps)"
  by (auto simp: reported_def filled_def no_later_bar_def)

end
