(* ===== verification/Replay_Constraints.thy ===== *)
theory Replay_Constraints
  imports Replay_Execution Subject_Constraints
begin

text \<open>
  Constraint checks on simulated executions (\<open>ficant-domain/src/replay/constraints.rs\<close>). A
  constraint is breached when the measure of the book after an execution exceeds its ceiling and
  what it was before. The theory shows, in exact arithmetic, that the face the check lets through
  breaches no constraint, lies within the request, and is the request itself unless a constraint
  is breached at full size; and that a reduction under a single limit on face is the largest
  the platform's decimal scale can express.
\<close>

section \<open>Definitions\<close>

datatype constraint_handling = Reject | Reduce

fun handling_code :: "constraint_handling \<Rightarrow> string" where
  "handling_code Reject = ''REJECT''"
| "handling_code Reduce = ''REDUCE''"

record 'd replay_constraint =
  rc_limit_code :: string
  rc_measure :: constraint_measure
  rc_ceiling :: 'd
  rc_handling :: constraint_handling

definition bind_constraint ::
  "'d decimal_ops \<Rightarrow> (string, constraint_handling) btree_map \<Rightarrow> bound_constraint \<Rightarrow>
   'd replay_constraint domain_result" where
  "bind_constraint ops declared bound =
     and_then (ok_or (map_of declared (cd_limit_code (bc_definition bound))) InvalidValue) (\<lambda>handling.
     Ok \<lparr>rc_limit_code = cd_limit_code (bc_definition bound),
         rc_measure = cd_measure (bc_definition bound),
         rc_ceiling = amount_of ops (bc_ceiling bound),
         rc_handling = handling\<rparr>)"

definition bind_constraints ::
  "'d decimal_ops \<Rightarrow> constraint_set \<Rightarrow> version_ref \<Rightarrow> subject_state_snapshot \<Rightarrow>
   (string, constraint_handling) btree_map \<Rightarrow> 'd replay_constraint list domain_result" where
  "bind_constraints ops self sj state declared =
     and_then (constraint_set_bind self sj state) (try_map (bind_constraint ops declared))"

record 'd execution_context =
  ec_book :: "'d simulated_book"
  ec_instrument :: version_ref
  ec_dirty_per_face :: 'd
  ec_cost_per_face :: 'd
  ec_fee_per_fill :: 'd

definition cash_after :: "'d decimal_ops \<Rightarrow> 'd execution_context \<Rightarrow> 'd \<Rightarrow> 'd" where
  "cash_after ops ctx face =
     (let cost = (if d_is_zero ops face then d_zero ops
                  else d_add ops (d_mul ops (d_abs ops face) (ec_cost_per_face ctx)) (ec_fee_per_fill ctx))
      in d_sub ops (d_sub ops (sb_cash (ec_book ctx)) (d_mul ops face (ec_dirty_per_face ctx))) cost)"

definition book_measure :: "'d decimal_ops \<Rightarrow> 'd execution_context \<Rightarrow> constraint_measure \<Rightarrow> 'd \<Rightarrow> 'd" where
  "book_measure ops ctx m face =
     (let position = position_of ops (ec_book ctx) (ec_instrument ctx) in
      case m of
        InstrumentFace \<Rightarrow> d_abs ops (d_add ops position face)
      | PortfolioFace \<Rightarrow>
          let total = d_sum ops (map (\<lambda>(_, face). d_abs ops face) (sb_positions (ec_book ctx)))
          in d_add ops (d_sub ops total (d_abs ops position)) (d_abs ops (d_add ops position face))
      | BorrowedCash \<Rightarrow> d_max ops (d_neg ops (cash_after ops ctx face)) (d_zero ops))"

definition breaches :: "'d decimal_ops \<Rightarrow> 'd execution_context \<Rightarrow> 'd replay_constraint \<Rightarrow> 'd \<Rightarrow> bool" where
  "breaches ops ctx c face \<longleftrightarrow>
     (let after = book_measure ops ctx (rc_measure c) face in
      d_lt ops (rc_ceiling c) after \<and>
      d_lt ops (book_measure ops ctx (rc_measure c) (d_zero ops)) after)"

definition face_allowance :: "'d decimal_ops \<Rightarrow> 'd \<Rightarrow> 'd \<Rightarrow> 'd \<Rightarrow> 'd \<Rightarrow> 'd" where
  "face_allowance ops position face limit before =
     (let unwinding = \<not> d_is_zero ops position \<and>
            d_is_sign_negative ops position \<noteq> d_is_sign_negative ops face;
          freed = (if unwinding then d_mul ops (d_abs ops position) (d_int ops 2) else d_zero ops)
      in d_add ops (d_sub ops limit before) freed)"

definition cash_allowance :: "'d decimal_ops \<Rightarrow> 'd execution_context \<Rightarrow> 'd \<Rightarrow> 'd \<Rightarrow> 'd" where
  "cash_allowance ops ctx face limit =
     (let per_face = d_add ops (ec_dirty_per_face ctx) (ec_cost_per_face ctx) in
      if d_is_sign_negative ops face \<or> d_le ops per_face (d_zero ops) then d_zero ops
      else d_div ops (d_sub ops (d_add ops limit (sb_cash (ec_book ctx))) (ec_fee_per_fill ctx)) per_face)"

definition allowed_magnitude ::
  "'d decimal_ops \<Rightarrow> 'd execution_context \<Rightarrow> 'd replay_constraint \<Rightarrow> 'd \<Rightarrow> 'd" where
  "allowed_magnitude ops ctx c face =
     (let before = book_measure ops ctx (rc_measure c) (d_zero ops);
          limit = d_max ops (rc_ceiling c) before;
          position = position_of ops (ec_book ctx) (ec_instrument ctx);
          allowed =
            (case rc_measure c of
               BorrowedCash \<Rightarrow> cash_allowance ops ctx face limit
             | _ \<Rightarrow> face_allowance ops position face limit before)
      in d_round_to_zero ops (d_max ops allowed (d_zero ops)))"

definition rejected ::
  "'d decimal_ops \<Rightarrow> 'd \<Rightarrow> string list \<Rightarrow> 'd \<times> 'd constraint_outcome option" where
  "rejected ops face triggered =
     (d_zero ops,
      Some \<lparr>co_unconstrained = amount_from_decimal ops face, co_triggered = triggered,
            co_action = ActionRejected\<rparr>)"

definition check_execution ::
  "'d decimal_ops \<Rightarrow> 'd replay_constraint list \<Rightarrow> 'd execution_context \<Rightarrow> 'd \<Rightarrow>
   'd \<times> 'd constraint_outcome option" where
  "check_execution ops constraints ctx face =
     (if d_is_zero ops face then (d_zero ops, None)
      else
        let breached = filter (\<lambda>c. breaches ops ctx c face) constraints in
        if breached = [] then (amount_from_decimal ops face, None)
        else
          let triggered = remdups_adj (sort (map rc_limit_code breached)) in
          if \<exists>c \<in> set breached. rc_handling c = Reject then rejected ops face triggered
          else
            let magnitude = fold (\<lambda>m best. d_min ops best m)
                  (map (\<lambda>c. allowed_magnitude ops ctx c face) breached) (d_abs ops face);
                allowed = signed_like ops face magnitude
            in if d_is_zero ops allowed \<or> (\<exists>c \<in> set constraints. breaches ops ctx c allowed)
               then rejected ops face triggered
               else (amount_from_decimal ops allowed,
                     Some \<lparr>co_unconstrained = amount_from_decimal ops face, co_triggered = triggered,
                           co_action = ActionReduced\<rparr>))"

section \<open>Measures in exact arithmetic\<close>

abbreviation rat_position :: "rat execution_context \<Rightarrow> rat" where
  "rat_position ctx \<equiv> position_of rat_ops (ec_book ctx) (ec_instrument ctx)"

lemma not_breaches_zero [simp]: "\<not> breaches rat_ops ctx c 0"
  by (simp add: breaches_def Let_def)

lemma measure_face:
  assumes "rc_measure c \<noteq> BorrowedCash"
  shows "book_measure rat_ops ctx (rc_measure c) x =
    book_measure rat_ops ctx (rc_measure c) 0 - \<bar>rat_position ctx\<bar> + \<bar>rat_position ctx + x\<bar>"
  using assms by (cases "rc_measure c") (simp_all add: book_measure_def Let_def)

lemma measure_cash:
  assumes "x \<noteq> 0"
  shows "book_measure rat_ops ctx BorrowedCash x =
    max (x * ec_dirty_per_face ctx + \<bar>x\<bar> * ec_cost_per_face ctx + ec_fee_per_fill ctx - sb_cash (ec_book ctx)) 0"
  using assms by (simp add: book_measure_def cash_after_def Let_def algebra_simps)

lemma allowed_magnitude_nonneg: "0 \<le> allowed_magnitude rat_ops ctx c face"
  by (simp add: allowed_magnitude_def Let_def rat_truncate_nonneg)

text \<open>More than the allowed magnitude, by one unit of the decimal scale, is a breach.\<close>

lemma face_beyond_allowance:
  assumes m: "rc_measure c \<noteq> BorrowedCash" and x: "part_of x face" "x \<noteq> 0"
    and before: "before = book_measure rat_ops ctx (rc_measure c) 0"
    and big: "max (face_allowance rat_ops (rat_position ctx) face (max (rc_ceiling c) before) before) 0 < \<bar>x\<bar>"
  shows "breaches rat_ops ctx c x"
proof -
  have "max (rc_ceiling c) before < before - \<bar>rat_position ctx\<bar> + \<bar>rat_position ctx + x\<bar>"
    using x big
    by (auto simp: face_allowance_def Let_def part_of_def abs_if max_def split: if_splits)
  then show ?thesis
    using measure_face [OF m, of ctx x] by (simp add: breaches_def Let_def before)
qed

lemma cash_beyond_allowance:
  assumes m: "rc_measure c = BorrowedCash" and x: "part_of x face" "x \<noteq> 0"
    and before: "before = book_measure rat_ops ctx BorrowedCash 0"
    and buy: "0 \<le> face" "0 < ec_dirty_per_face ctx + ec_cost_per_face ctx"
    and big: "cash_allowance rat_ops ctx face (max (rc_ceiling c) before) < \<bar>x\<bar>"
  shows "breaches rat_ops ctx c x"
proof -
  have pos: "0 < x" using x buy(1) by (auto simp: part_of_def)
  have "max (rc_ceiling c) before + sb_cash (ec_book ctx) - ec_fee_per_fill ctx
      < x * (ec_dirty_per_face ctx + ec_cost_per_face ctx)"
    using big buy pos by (simp add: cash_allowance_def Let_def not_less pos_divide_less_eq)
  then have "max (rc_ceiling c) before < book_measure rat_ops ctx BorrowedCash x"
    using measure_cash [OF x(2), of ctx] pos by (simp add: algebra_simps less_max_iff_disj)
  then show ?thesis by (simp add: breaches_def Let_def m before)
qed

lemma beyond_allowed_magnitude:
  assumes x: "part_of x face" and pos: "0 < allowed_magnitude rat_ops ctx c face"
    and big: "allowed_magnitude rat_ops ctx c face + 1 / rat_scale \<le> \<bar>x\<bar>"
  shows "breaches rat_ops ctx c x"
proof -
  define before where "before = book_measure rat_ops ctx (rc_measure c) 0"
  define allowed where "allowed = (case rc_measure c of
      BorrowedCash \<Rightarrow> cash_allowance rat_ops ctx face (max (rc_ceiling c) before)
    | _ \<Rightarrow> face_allowance rat_ops (rat_position ctx) face (max (rc_ceiling c) before) before)"
  have mag: "allowed_magnitude rat_ops ctx c face = rat_truncate (max allowed 0)"
    unfolding allowed_magnitude_def allowed_def before_def Let_def rat_derived_simps rat_ops_simps ..
  have less: "max allowed 0 < \<bar>x\<bar>"
    using rat_truncate_less [of "max allowed 0"] big unfolding mag by linarith
  then have "x \<noteq> 0" by auto
  show ?thesis
  proof (cases "rc_measure c = BorrowedCash")
    case True
    have "allowed \<noteq> 0" using pos mag by (auto simp: rat_truncate_def rat_scale_def)
    then have "0 \<le> face" "0 < ec_dirty_per_face ctx + ec_cost_per_face ctx"
      using True by (auto simp: allowed_def cash_allowance_def Let_def split: if_splits)
    with True x \<open>x \<noteq> 0\<close> less show ?thesis
      by (intro cash_beyond_allowance [where before = before]) (simp_all add: allowed_def before_def)
  next
    case False
    then have "allowed = face_allowance rat_ops (rat_position ctx) face (max (rc_ceiling c) before) before"
      by (auto simp: allowed_def split: constraint_measure.splits)
    with False x \<open>x \<noteq> 0\<close> less show ?thesis
      by (intro face_beyond_allowance [where before = before]) (simp_all add: before_def)
  qed
qed

section \<open>The check\<close>

lemma fold_min_le:
  fixes a :: rat
  shows "fold (\<lambda>m best. min best m) ms a \<le> a" "m \<in> set ms \<Longrightarrow> fold (\<lambda>m best. min best m) ms a \<le> m"
    "0 \<le> a \<Longrightarrow> \<forall>m \<in> set ms. 0 \<le> m \<Longrightarrow> 0 \<le> fold (\<lambda>m best. min best m) ms a"
    "fold (\<lambda>m best. min best m) ms a = a \<or> fold (\<lambda>m best. min best m) ms a \<in> set ms"
proof (induction ms arbitrary: a)
  case (Cons x ms)
  { case 1 then show ?case using Cons.IH(1) [of "min a x"] by simp }
  { case 2 then show ?case using Cons.IH(1) [of "min a x"] Cons.IH(2) [of "min a x"] by (auto simp: min_def split: if_splits) }
  { case 3 then show ?case using Cons.IH(3) [of "min a x"] by simp }
  { case 4 then show ?case using Cons.IH(4) [of "min a x"] by (auto simp: min_def split: if_splits) }
qed simp_all

text \<open>The three ways the check ends.\<close>

lemma check_execution_cases:
  assumes "check_execution rat_ops cs ctx face = (allowed, outcome)" "face \<noteq> 0"
  obtains (full) "allowed = face" "outcome = None" "\<forall>c \<in> set cs. \<not> breaches rat_ops ctx c face"
  | (rejected) oc where "allowed = 0" "outcome = Some oc" "co_action oc = ActionRejected"
      "\<exists>c \<in> set cs. breaches rat_ops ctx c face"
  | (reduced) oc m where "outcome = Some oc" "co_action oc = ActionReduced" "allowed = signed_like rat_ops face m"
      "m = fold (\<lambda>m best. min best m)
         (map (\<lambda>c. allowed_magnitude rat_ops ctx c face) (filter (\<lambda>c. breaches rat_ops ctx c face) cs)) \<bar>face\<bar>"
      "allowed \<noteq> 0" "\<forall>c \<in> set cs. \<not> breaches rat_ops ctx c allowed"
      "\<exists>c \<in> set cs. breaches rat_ops ctx c face"
  using assms
  by (auto simp: check_execution_def rejected_def Let_def filter_empty_conv split: if_splits)


text \<open>What may execute goes in the direction of the request and no further.\<close>

lemma check_execution_part_of:
  assumes "check_execution rat_ops constraints ctx face = (allowed, outcome)" "face \<noteq> 0"
  shows "part_of allowed face"
  using assms
proof (cases rule: check_execution_cases)
  case (reduced oc m)
  have "0 \<le> m" "m \<le> \<bar>face\<bar>"
    unfolding reduced(4) using fold_min_le(1,3) allowed_magnitude_nonneg by auto
  with reduced show ?thesis using part_of_signed_like by auto
qed (auto simp: part_of_def)

text \<open>
  C16: The face that the constraint check lets execute lies between zero and
  the requested face and breaches none of the constraints on the book it starts from; it is the
  whole request exactly when no constraint is breached at full size, and an outcome is recorded
  exactly otherwise. Amounts are exact rationals.
\<close>

theorem check_execution_safe:
  assumes "check_execution rat_ops constraints ctx face = (allowed, outcome)" "face \<noteq> 0"
  shows "part_of allowed face \<and> (\<forall>c \<in> set constraints. \<not> breaches rat_ops ctx c allowed) \<and>
    (outcome = None \<longleftrightarrow> allowed = face) \<and>
    (outcome = None \<longleftrightarrow> (\<forall>c \<in> set constraints. \<not> breaches rat_ops ctx c face))"
  using assms check_execution_part_of [OF assms]
  by (cases rule: check_execution_cases [OF assms]) auto

text \<open>
  C17: in exact arithmetic, a reduced execution is the largest one that breaches nothing: any
  execution in the same direction, within the request and larger by one unit of the decimal
  scale, breaches some constraint. The division of the allowance is exact here;
  \<open>rust_decimal\<close> keeps about 28 digits, so there a large allowance may be cut at fewer decimals than
  the scale.
\<close>

theorem check_execution_largest:
  assumes "check_execution rat_ops constraints ctx face = (allowed, Some outcome)" "face \<noteq> 0"
    and "co_action outcome = ActionReduced"
    and larger: "part_of x face" "\<bar>allowed\<bar> + 1 / rat_scale \<le> \<bar>x\<bar>"
  shows "\<exists>c \<in> set constraints. breaches rat_ops ctx c x"
  using assms(1,2)
proof (cases rule: check_execution_cases)
  case (reduced oc m)
  let ?ms = "map (\<lambda>c. allowed_magnitude rat_ops ctx c face) (filter (\<lambda>c. breaches rat_ops ctx c face) constraints)"
  have m0: "0 \<le> m" unfolding reduced(4) using fold_min_le(3) allowed_magnitude_nonneg by auto
  then have abs: "\<bar>allowed\<bar> = m" using reduced(3) by (simp add: signed_like_def)
  have "m \<noteq> \<bar>face\<bar>" using larger part_of_abs [OF larger(1)] abs by (auto simp: rat_scale_def)
  then obtain c where c: "c \<in> set constraints" "m = allowed_magnitude rat_ops ctx c face"
    using fold_min_le(4) [of ?ms "\<bar>face\<bar>"] unfolding reduced(4) by auto
  have "0 < m" using m0 abs reduced(5) by auto
  then show ?thesis using beyond_allowed_magnitude [OF larger(1)] larger(2) abs c by auto
qed (use assms(3) in auto)


section \<open>Witnesses\<close>

text \<open>Long four, ceiling six: a sale of fifteen is cut to ten, ending six short.\<close>

definition sample_bond :: version_ref where
  "sample_bond = \<lparr>vr_id = Ulid ''01ARZ3NDEKTSV4RRFFQ69G5F20'', vr_version = Version 1\<rparr>"

definition sample_limit :: "rat replay_constraint" where
  "sample_limit = \<lparr>rc_limit_code = ''FACE'', rc_measure = InstrumentFace, rc_ceiling = 6, rc_handling = Reduce\<rparr>"

definition sample_context :: "rat execution_context" where
  "sample_context = \<lparr>ec_book = \<lparr>sb_positions = [(sample_bond, 4)], sb_cash = 0\<rparr>,
     ec_instrument = sample_bond, ec_dirty_per_face = 1, ec_cost_per_face = 0, ec_fee_per_fill = 0\<rparr>"

definition sample_reduction :: "rat constraint_outcome" where
  "sample_reduction = \<lparr>co_unconstrained = - 15, co_triggered = [''FACE''], co_action = ActionReduced\<rparr>"

lemma sample_check: "check_execution rat_ops [sample_limit] sample_context (- 15) = (- 10, Some sample_reduction)"
  by (simp add: check_execution_def sample_limit_def sample_context_def breaches_def book_measure_def
      position_of_def allowed_magnitude_def face_allowance_def signed_like_def rat_truncate_def
      rat_scale_def sample_reduction_def)

theorem check_execution_safe_witness:
  "part_of (- 10) (- 15) \<and> \<not> breaches rat_ops sample_context sample_limit (- 10) \<and>
   breaches rat_ops sample_context sample_limit (- 15)"
  using check_execution_safe [OF sample_check] by simp

theorem check_execution_largest_witness: "breaches rat_ops sample_context sample_limit (- 11)"
  using check_execution_largest [OF sample_check, of "- 11"] by (simp add: part_of_def rat_scale_def sample_reduction_def)

end
