(* ===== verification/Replay_Ledger.thy ===== *)
theory Replay_Ledger
  imports Replay_Constraints
begin

text \<open>
  Replay accounting (\<open>ficant-domain/src/replay/ledger.rs\<close>): the book, equity and the profit of
  every step split into price change, coupon, funding and transaction cost. The code computes the
  equity change and the four components separately and fails the step when they do not add up.
  The theory shows that in exact arithmetic this check never fails: the attribution is right.

  The \<open>BondCarry\<close> trait (coupon data of a domain pack) is the record \<open>bond_carry\<close>. The methods
  take \<open>&mut self\<close>; a method that fails ends the replay, so the ledger it leaves is not modelled.
\<close>

section \<open>Terms\<close>

definition COST_NONE :: string where
  "COST_NONE = ''ficant.cost.none''"

definition COST_RATE_PLUS_FIXED :: string where
  "COST_RATE_PLUS_FIXED = ''ficant.cost.rate-plus-fixed''"

definition basis_points :: "'d decimal_ops \<Rightarrow> 'd" where
  "basis_points ops = d_int ops 10000"

datatype 'd cost_model = NoCost | RatePlusFixed (face_rate_bp: 'd) (fee_per_fill: 'd)

text \<open>The keys of the map are compared before they are looked up, so the lookups succeed.\<close>

definition cost_model_from_declaration ::
  "'d decimal_ops \<Rightarrow> string \<Rightarrow> (string, 'd) btree_map \<Rightarrow> 'd cost_model domain_result" where
  "cost_model_from_declaration ops name parameters =
     (if name = COST_NONE then Ok NoCost
      else if name = COST_RATE_PLUS_FIXED then
        (if bt_keys parameters \<noteq> [''face_rate_bp'', ''fee_per_fill''] then Err InvalidValue
         else case (map_of parameters ''face_rate_bp'', map_of parameters ''fee_per_fill'') of
           (Some rate, Some fee) \<Rightarrow>
             if d_is_sign_negative ops rate \<or> d_is_sign_negative ops fee then Err InvalidValue
             else Ok (RatePlusFixed rate fee)
         | _ \<Rightarrow> Err InvalidValue)
      else Err InvalidValue)"

definition execution_cost :: "'d decimal_ops \<Rightarrow> 'd cost_model \<Rightarrow> 'd \<Rightarrow> 'd" where
  "execution_cost ops costs executed =
     (case costs of
        NoCost \<Rightarrow> d_zero ops
      | RatePlusFixed rate fee \<Rightarrow>
          if d_is_zero ops executed then d_zero ops
          else amount_from_decimal ops
            (d_neg ops (d_add ops (d_div ops (d_mul ops (d_abs ops executed) rate) (basis_points ops)) fee)))"

record 'd replay_funding =
  rf_rule_pack :: version_ref
  rf_tier :: funding_tier
  rf_annual_rate :: 'd
  rf_day_basis :: u32

definition replay_funding_new ::
  "version_ref \<Rightarrow> funding_tier \<Rightarrow> 'd \<Rightarrow> u32 \<Rightarrow> 'd replay_funding domain_result" where
  "replay_funding_new rule_pack tier annual_rate day_basis =
     (if day_basis = 0 then Err InvalidValue
      else Ok \<lparr>rf_rule_pack = rule_pack, rf_tier = tier, rf_annual_rate = annual_rate, rf_day_basis = day_basis\<rparr>)"

record 'd bond_carry =
  cy_source :: version_ref
  cy_identity :: content_hash
  cy_accrued_interest :: "version_ref \<Rightarrow> bar_settlement \<Rightarrow> naive_date \<Rightarrow> 'd option"
  cy_coupon_paid :: "version_ref \<Rightarrow> bar_settlement \<Rightarrow> naive_date \<Rightarrow> naive_date \<Rightarrow> 'd option"

section \<open>State\<close>

record 'd instrument_pnl =
  ip_position_start :: 'd
  ip_position_end :: 'd
  ip_mark :: 'd
  ip_accrued_interest :: 'd
  ip_price :: 'd
  ip_coupon :: 'd
  ip_transaction_cost :: 'd

record 'd bar_pnl =
  pl_bar_start :: utc_instant
  pl_bar_end :: utc_instant
  pl_known_at :: utc_instant
  pl_trading_date :: naive_date
  pl_instruments :: "(version_ref, 'd instrument_pnl) btree_map"
  pl_funding :: 'd
  pl_total :: 'd
  pl_cash :: 'd
  pl_equity :: 'd

definition pnl_sum :: "'d decimal_ops \<Rightarrow> ('d instrument_pnl \<Rightarrow> 'd) \<Rightarrow> 'd bar_pnl \<Rightarrow> 'd" where
  "pnl_sum ops field row = amount_from_decimal ops (d_sum ops (map (\<lambda>(_, item). field item) (pl_instruments row)))"

definition components_total :: "'d decimal_ops \<Rightarrow> 'd bar_pnl \<Rightarrow> 'd" where
  "components_total ops row =
     amount_from_decimal ops
       (d_add ops (d_add ops (d_add ops (pnl_sum ops ip_price row) (pnl_sum ops ip_coupon row)) (pl_funding row))
          (pnl_sum ops ip_transaction_cost row))"

record 'd parts =
  pa_price :: 'd
  pa_coupon :: 'd
  pa_cost :: 'd

definition parts_default :: "'d decimal_ops \<Rightarrow> 'd parts" where
  "parts_default ops = \<lparr>pa_price = d_zero ops, pa_coupon = d_zero ops, pa_cost = d_zero ops\<rparr>"

text \<open>\<open>parts.entry(instrument).or_default()\<close>, then an assignment through it.\<close>

definition parts_update ::
  "'d decimal_ops \<Rightarrow> version_ref \<Rightarrow> ('d parts \<Rightarrow> 'd parts) \<Rightarrow> (version_ref, 'd parts) btree_map \<Rightarrow>
   (version_ref, 'd parts) btree_map" where
  "parts_update ops instrument f m =
     bt_insert instrument (f (case map_of m instrument of None \<Rightarrow> parts_default ops | Some p \<Rightarrow> p)) m"

record 'd opened_step =
  os_bar_start :: utc_instant
  os_bar_end :: utc_instant
  os_date :: naive_date
  os_known_at :: utc_instant
  os_records :: "(version_ref \<times> string) list"
  os_start :: "(version_ref, 'd) btree_map"
  os_parts :: "(version_ref, 'd parts) btree_map"
  os_funding :: 'd
  os_closes :: "(version_ref, 'd) btree_map"

record 'd replay_ledger =
  lg_carry :: "'d bond_carry"
  lg_funding :: "'d replay_funding"
  lg_costs :: "'d cost_model"
  lg_settlement :: bar_settlement
  lg_book :: "'d simulated_book"
  lg_marks :: "(version_ref, 'd) btree_map"
  lg_accrued :: "(version_ref, 'd) btree_map"
  lg_date :: "naive_date option"
  lg_equity :: 'd
  lg_rows :: "'d bar_pnl list"
  lg_open :: "'d opened_step option"

definition ledger_new ::
  "'d decimal_ops \<Rightarrow> 'd bond_carry \<Rightarrow> 'd replay_funding \<Rightarrow> 'd cost_model \<Rightarrow> bar_settlement \<Rightarrow> 'd replay_ledger" where
  "ledger_new ops carry funding costs settlement =
     \<lparr>lg_carry = carry, lg_funding = funding, lg_costs = costs, lg_settlement = settlement,
      lg_book = empty_book ops, lg_marks = [], lg_accrued = [], lg_date = None,
      lg_equity = d_zero ops, lg_rows = [], lg_open = None\<rparr>"

section \<open>Operations\<close>

text \<open>One held position over a date change: accrued interest before and after, coupon paid.\<close>

definition roll_position ::
  "'d decimal_ops \<Rightarrow> naive_date \<Rightarrow> naive_date \<Rightarrow> version_ref \<times> 'd \<Rightarrow>
   'd replay_ledger \<times> (version_ref, 'd parts) btree_map \<Rightarrow>
   ('d replay_ledger \<times> (version_ref, 'd parts) btree_map) domain_result" where
  "roll_position ops previous date held s =
     (case (held, s) of ((instrument, face), (l, parts)) \<Rightarrow>
       and_then (ok_or (map_of (lg_accrued l) instrument) BrokenLineage) (\<lambda>before.
       and_then (ok_or (cy_accrued_interest (lg_carry l) instrument (lg_settlement l) date) BrokenLineage) (\<lambda>after.
       and_then (ok_or (cy_coupon_paid (lg_carry l) instrument (lg_settlement l) previous date) BrokenLineage) (\<lambda>paid.
       Ok (l\<lparr>lg_book := add_cash ops (d_div ops (d_mul ops face paid) (d_hundred ops)) (lg_book l),
             lg_accrued := bt_insert instrument after (lg_accrued l)\<rparr>,
           parts_update ops instrument (\<lambda>p. p\<lparr>pa_coupon :=
             d_add ops (pa_coupon p)
               (d_div ops (d_mul ops face (d_add ops (d_sub ops after before) paid)) (d_hundred ops))\<rparr>) parts)))))"

definition funding_charge ::
  "'d decimal_ops \<Rightarrow> chrono_ops \<Rightarrow> 'd replay_ledger \<Rightarrow> naive_date \<Rightarrow> naive_date \<Rightarrow> 'd" where
  "funding_charge ops ch l previous date =
     (let days = d_int ops (ch_num_days ch previous date);
          borrowed = d_max ops (d_neg ops (sb_cash (lg_book l))) (d_zero ops)
      in d_round_nearest_even ops (d_neg ops
           (d_div ops (d_mul ops (d_mul ops borrowed (rf_annual_rate (lg_funding l))) days)
              (d_int ops (int (unat (rf_day_basis (lg_funding l))))))))"

definition roll_date ::
  "'d decimal_ops \<Rightarrow> chrono_ops \<Rightarrow> naive_date \<Rightarrow> (version_ref, 'd) btree_map \<Rightarrow>
   'd replay_ledger \<times> (version_ref, 'd parts) btree_map \<Rightarrow>
   ('d \<times> 'd replay_ledger \<times> (version_ref, 'd parts) btree_map) domain_result" where
  "roll_date ops ch date start s =
     (case s of (l, parts) \<Rightarrow>
       let previous = lg_date l; l = l\<lparr>lg_date := Some date\<rparr> in
       case previous of
         None \<Rightarrow> Ok (d_zero ops, l, parts)
       | Some previous \<Rightarrow>
           if previous = date then Ok (d_zero ops, l, parts)
           else
             let funding = funding_charge ops ch l previous date;
                 l = l\<lparr>lg_book := add_cash ops funding (lg_book l)\<rparr>
             in and_then (try_fold (roll_position ops previous date) start (l, parts)) (\<lambda>(l, parts).
                Ok (funding, l, parts)))"

text \<open>The price change of one position held into the step.\<close>

definition mark_position ::
  "'d decimal_ops \<Rightarrow> 'd replay_ledger \<Rightarrow> (version_ref, 'd) btree_map \<Rightarrow> version_ref \<times> 'd \<Rightarrow>
   (version_ref, 'd parts) btree_map \<Rightarrow> (version_ref, 'd parts) btree_map domain_result" where
  "mark_position ops l closes held parts =
     (case held of (instrument, face) \<Rightarrow>
       and_then (ok_or (map_of (lg_marks l) instrument) BrokenLineage) (\<lambda>previous.
       let mark = (case map_of closes instrument of Some c \<Rightarrow> c | None \<Rightarrow> previous) in
       Ok (parts_update ops instrument (\<lambda>p. p\<lparr>pa_price :=
             d_add ops (pa_price p) (d_div ops (d_mul ops face (d_sub ops mark previous)) (d_hundred ops))\<rparr>) parts)))"

definition closes_of :: "'d decimal_ops \<Rightarrow> bar list \<Rightarrow> (version_ref, 'd) btree_map" where
  "closes_of ops bars =
     bt_collect (List.map_filter
       (\<lambda>b. map_option (\<lambda>prices. (bar_instrument b, amount_of ops (bp_close prices))) (bar_prices b)) bars)"

definition open_step ::
  "'d decimal_ops \<Rightarrow> chrono_ops \<Rightarrow> bar list \<Rightarrow> 'd replay_ledger \<Rightarrow> 'd replay_ledger domain_result" where
  "open_step ops ch bars l =
     (case bars of
        [] \<Rightarrow> Err InvalidValue
      | first # _ \<Rightarrow>
          if lg_open l \<noteq> None
            \<or> (\<exists>b \<in> set bars. bar_end b \<noteq> bar_end first \<or> bar_start b \<noteq> bar_start first
                 \<or> local_trading_date b \<noteq> local_trading_date first)
            \<or> (\<exists>previous \<in> set_option (lg_date l). previous > local_trading_date first)
          then Err InvalidValue
          else
            let date = local_trading_date first;
                known_at = Max (bar_visible_at ` set bars);
                start = sb_positions (lg_book l)
            in and_then (roll_date ops ch date start (l, [])) (\<lambda>(funding, l, parts).
               let closes = closes_of ops bars in
               and_then (try_fold (mark_position ops l closes) start parts) (\<lambda>parts.
               Ok (l\<lparr>lg_open := Some
                 \<lparr>os_bar_start = bar_start first, os_bar_end = bar_end first, os_date = date,
                  os_known_at = known_at,
                  os_records = map (\<lambda>b. (bar_instrument b, source_record_id b)) bars,
                  os_start = start, os_parts = parts, os_funding = funding, os_closes = closes\<rparr>\<rparr>))))"

definition ledger_context ::
  "'d decimal_ops \<Rightarrow> version_ref \<Rightarrow> 'd \<Rightarrow> 'd replay_ledger \<Rightarrow> 'd execution_context domain_result" where
  "ledger_context ops instrument price l =
     and_then (ok_or (lg_open l) InvalidValue) (\<lambda>step.
     and_then (ok_or (cy_accrued_interest (lg_carry l) instrument (lg_settlement l) (os_date step)) BrokenLineage) (\<lambda>accrued.
     let (cost_per_face, fee) =
       (case lg_costs l of
          NoCost \<Rightarrow> (d_zero ops, d_zero ops)
        | RatePlusFixed rate fee \<Rightarrow> (d_div ops rate (basis_points ops), fee))
     in Ok \<lparr>ec_book = lg_book l, ec_instrument = instrument,
            ec_dirty_per_face = d_div ops (d_add ops price accrued) (d_hundred ops),
            ec_cost_per_face = cost_per_face, ec_fee_per_fill = fee\<rparr>))"

definition execute_fill ::
  "'d decimal_ops \<Rightarrow> 'd simulated_fill \<Rightarrow> 'd opened_step \<Rightarrow> 'd replay_ledger \<Rightarrow> 'd replay_ledger domain_result" where
  "execute_fill ops fill step l =
     (let in_step = (\<exists>(instrument, record) \<in> set (os_records step).
            instrument = sf_instrument fill \<and> Some record = sf_execution_bar fill) in
      and_then (ok_or (sf_price fill) InvalidValue) (\<lambda>price.
      if sf_effective_at fill \<noteq> os_bar_end step \<or> \<not> in_step then Err InvalidValue
      else
        and_then (ok_or (cy_accrued_interest (lg_carry l) (sf_instrument fill) (lg_settlement l) (os_date step)) BrokenLineage) (\<lambda>accrued.
        let face = sf_quantity fill;
            mark = (case map_of (os_closes step) (sf_instrument fill) of Some c \<Rightarrow> c | None \<Rightarrow> price);
            cost = execution_cost ops (lg_costs l) (sf_quantity fill);
            book = add_cash ops
              (d_add ops (d_neg ops (d_div ops (d_mul ops face (d_add ops price accrued)) (d_hundred ops))) cost)
              (lg_book l);
            book = add_position ops (sf_instrument fill) face book;
            marks = (case map_of (lg_marks l) (sf_instrument fill) of
                       Some _ \<Rightarrow> lg_marks l
                     | None \<Rightarrow> bt_insert (sf_instrument fill) mark (lg_marks l));
            parts = parts_update ops (sf_instrument fill) (\<lambda>p. p\<lparr>
              pa_price := d_add ops (pa_price p) (d_div ops (d_mul ops face (d_sub ops mark price)) (d_hundred ops)),
              pa_cost := d_add ops (pa_cost p) cost\<rparr>) (os_parts step)
        in Ok (l\<lparr>lg_book := book, lg_accrued := bt_insert (sf_instrument fill) accrued (lg_accrued l),
                 lg_marks := marks, lg_open := Some (step\<lparr>os_parts := parts\<rparr>)\<rparr>))))"

definition settle ::
  "'d decimal_ops \<Rightarrow> 'd simulated_fill \<Rightarrow> 'd replay_ledger \<Rightarrow> 'd replay_ledger domain_result" where
  "settle ops fill l =
     and_then (ok_or (lg_open l) InvalidValue) (\<lambda>step.
     if d_is_zero ops (sf_quantity fill) then Ok l else execute_fill ops fill step l)"

text \<open>One position of \<open>equity_now\<close>.\<close>

definition add_value ::
  "'d decimal_ops \<Rightarrow> 'd replay_ledger \<Rightarrow> version_ref \<times> 'd \<Rightarrow> 'd \<Rightarrow> 'd domain_result" where
  "add_value ops l held equity =
     (case held of (instrument, face) \<Rightarrow>
       and_then (ok_or (map_of (lg_marks l) instrument) BrokenLineage) (\<lambda>mark.
       and_then (ok_or (map_of (lg_accrued l) instrument) BrokenLineage) (\<lambda>accrued.
       Ok (d_add ops equity (d_div ops (d_mul ops face (d_add ops mark accrued)) (d_hundred ops))))))"

definition equity_now :: "'d decimal_ops \<Rightarrow> 'd replay_ledger \<Rightarrow> 'd domain_result" where
  "equity_now ops l = try_fold (add_value ops l) (sb_positions (lg_book l)) (sb_cash (lg_book l))"

definition get_or_zero :: "'d decimal_ops \<Rightarrow> (version_ref, 'd) btree_map \<Rightarrow> version_ref \<Rightarrow> 'd" where
  "get_or_zero ops values instrument =
     amount_from_decimal ops (case map_of values instrument of None \<Rightarrow> d_zero ops | Some v \<Rightarrow> v)"

text \<open>The row of one instrument; accrued interest of an instrument that is now flat is forgotten.\<close>

definition instrument_row ::
  "'d decimal_ops \<Rightarrow> (version_ref, 'd) btree_map \<Rightarrow> version_ref \<times> 'd parts \<Rightarrow>
   (version_ref, 'd instrument_pnl) btree_map \<times> 'd replay_ledger \<Rightarrow>
   (version_ref, 'd instrument_pnl) btree_map \<times> 'd replay_ledger" where
  "instrument_row ops start traded s =
     (case (traded, s) of ((instrument, part), (rows, l)) \<Rightarrow>
       (bt_insert instrument
          \<lparr>ip_position_start = get_or_zero ops start instrument,
           ip_position_end = position_of ops (lg_book l) instrument,
           ip_mark = get_or_zero ops (lg_marks l) instrument,
           ip_accrued_interest = get_or_zero ops (lg_accrued l) instrument,
           ip_price = amount_from_decimal ops (pa_price part),
           ip_coupon = amount_from_decimal ops (pa_coupon part),
           ip_transaction_cost = amount_from_decimal ops (pa_cost part)\<rparr> rows,
        if d_is_zero ops (position_of ops (lg_book l) instrument)
        then l\<lparr>lg_accrued := bt_remove instrument (lg_accrued l)\<rparr> else l))"

definition instrument_rows ::
  "'d decimal_ops \<Rightarrow> (version_ref, 'd) btree_map \<Rightarrow> (version_ref, 'd parts) btree_map \<Rightarrow> 'd replay_ledger \<Rightarrow>
   (version_ref, 'd instrument_pnl) btree_map \<times> 'd replay_ledger" where
  "instrument_rows ops start parts l = fold (instrument_row ops start) parts ([], l)"

definition finish_step :: "'d decimal_ops \<Rightarrow> 'd replay_ledger \<Rightarrow> 'd replay_ledger domain_result" where
  "finish_step ops l =
     and_then (ok_or (lg_open l) InvalidValue) (\<lambda>step.
     let l = l\<lparr>lg_open := None,
               lg_marks := fold (\<lambda>(instrument, close) m. bt_insert instrument close m) (os_closes step) (lg_marks l)\<rparr>
     in and_then (equity_now ops l) (\<lambda>equity.
        let total = d_sub ops equity (lg_equity l);
            components = d_add ops (os_funding step)
              (d_sum ops (map (\<lambda>(_, p). d_add ops (d_add ops (pa_price p) (pa_coupon p)) (pa_cost p)) (os_parts step)))
        in if \<not> d_eq ops total components then Err InvalidValue
           else case instrument_rows ops (os_start step) (os_parts step) l of (instruments, l) \<Rightarrow>
             Ok (l\<lparr>lg_equity := equity,
                   lg_rows := lg_rows l @
                     [\<lparr>pl_bar_start = os_bar_start step, pl_bar_end = os_bar_end step,
                       pl_known_at = os_known_at step, pl_trading_date = os_date step,
                       pl_instruments = instruments,
                       pl_funding = amount_from_decimal ops (os_funding step),
                       pl_total = amount_from_decimal ops total,
                       pl_cash = sb_cash (lg_book l),
                       pl_equity = amount_from_decimal ops equity\<rparr>]\<rparr>)))"

definition close_step ::
  "'d decimal_ops \<Rightarrow> chrono_ops \<Rightarrow> bar list \<Rightarrow> 'd simulated_fill list \<Rightarrow> 'd replay_ledger \<Rightarrow>
   'd replay_ledger domain_result" where
  "close_step ops ch bars fills l =
     and_then (open_step ops ch bars l) (\<lambda>l.
     and_then (try_fold (settle ops) fills l) (finish_step ops))"

section \<open>Values in exact arithmetic\<close>

text \<open>The sum of face times a weight over positions.\<close>

definition weighted :: "(version_ref \<Rightarrow> rat) \<Rightarrow> (version_ref \<times> rat) list \<Rightarrow> rat" where
  "weighted g xs = (\<Sum>(i, f) \<leftarrow> xs. f * g i)"

lemma weighted_Nil [simp]: "weighted g [] = 0"
  and weighted_Cons [simp]: "weighted g ((i, f) # xs) = f * g i + weighted g xs"
  by (simp_all add: weighted_def)

lemma weighted_add: "weighted (\<lambda>i. g i + h i) xs = weighted g xs + weighted h xs"
  by (induction xs) (auto simp: algebra_simps)

lemma weighted_diff: "weighted (\<lambda>i. g i - h i) xs = weighted g xs - weighted h xs"
  by (induction xs) (auto simp: algebra_simps)

lemma weighted_cong: "(\<And>i. i \<in> fst ` set xs \<Longrightarrow> g i = h i) \<Longrightarrow> weighted g xs = weighted h xs"
  by (induction xs) auto

lemma weighted_positions:
  assumes "bt_ok (sb_positions b)" "finite K" "fst ` set (sb_positions b) \<subseteq> K"
  shows "weighted g (sb_positions b) = (\<Sum>i \<in> K. position_of rat_ops b i * g i)"
proof -
  have "weighted g (sb_positions b) = (\<Sum>i \<in> dom (map_of (sb_positions b)). the (map_of (sb_positions b) i) * g i)"
    unfolding weighted_def by (rule sum_list_bt [OF assms(1)])
  also have "\<dots> = (\<Sum>i \<in> dom (map_of (sb_positions b)). position_of rat_ops b i * g i)"
    by (rule sum.cong) (auto simp: position_of_def)
  also have "\<dots> = (\<Sum>i \<in> K. position_of rat_ops b i * g i)"
    using assms(2,3) by (intro sum.mono_neutral_left)
      (auto simp: dom_map_of_conv_image_fst position_of_def split: option.splits intro: rev_image_eqI dest: map_of_SomeD)
  finally show ?thesis .
qed

lemma weighted_add_position:
  assumes "bt_ok (sb_positions b)"
  shows "weighted g (sb_positions (add_position rat_ops i f b)) = weighted g (sb_positions b) + f * g i"
proof -
  let ?b = "add_position rat_ops i f b" and ?K = "insert i (fst ` set (sb_positions b))"
  have ok: "bt_ok (sb_positions ?b)"
    using assms by (auto simp: add_position_def Let_def bt_ok_insert bt_ok_remove)
  have keys: "fst ` set (sb_positions ?b) \<subseteq> ?K"
    by (auto simp: add_position_def Let_def bt_remove_def set_bt_insert_keys rev_image_eqI split: if_splits)
  have "weighted g (sb_positions ?b) = (\<Sum>j \<in> ?K. position_of rat_ops ?b j * g j)"
    using ok keys by (intro weighted_positions) auto
  also have "\<dots> = (\<Sum>j \<in> ?K. position_of rat_ops b j * g j + (if j = i then f * g i else 0))"
    by (rule sum.cong) (auto simp: rat_position_add algebra_simps)
  also have "\<dots> = weighted g (sb_positions b) + f * g i"
    using weighted_positions [OF assms, of ?K g] by (simp add: sum.distrib subset_insertI del: sum.insert)
  finally show ?thesis .
qed

definition book_value ::
  "(version_ref \<rightharpoonup> rat) \<Rightarrow> (version_ref \<rightharpoonup> rat) \<Rightarrow> rat simulated_book \<Rightarrow> rat" where
  "book_value mk ac b = sb_cash b + weighted (\<lambda>i. the (mk i) + the (ac i)) (sb_positions b) / 100"

text \<open>The total of the components booked so far.\<close>

definition parts_sum :: "(version_ref, rat parts) btree_map \<Rightarrow> rat" where
  "parts_sum m = (\<Sum>(i, p) \<leftarrow> m. pa_price p + pa_coupon p + pa_cost p)"

lemma parts_sum_update:
  assumes "bt_ok m" "\<And>p. pa_price (f p) + pa_coupon (f p) + pa_cost (f p) = pa_price p + pa_coupon p + pa_cost p + d"
  shows "parts_sum (parts_update rat_ops i f m) = parts_sum m + d"
  unfolding parts_sum_def parts_update_def
  by (subst sum_list_bt_insert [OF assms(1), where h = "\<lambda>p. pa_price p + pa_coupon p + pa_cost p"])
    (auto simp: assms(2) parts_default_def split: option.splits)

lemma parts_sum_Nil [simp]: "parts_sum [] = 0"
  by (simp add: parts_sum_def)

lemma parts_ok_update: "bt_ok m \<Longrightarrow> bt_ok (parts_update ops i f m)"
  by (simp add: parts_update_def bt_ok_insert)


section \<open>The ledger between steps and within a step\<close>

text \<open>
  Every held bond has a mark and the accrued interest of the ledger's date; the equity on record
  is the value of the book.
\<close>

definition carried :: "'d replay_ledger \<Rightarrow> naive_date \<Rightarrow> version_ref \<Rightarrow> bool" where
  "carried l date i \<longleftrightarrow> map_of (lg_accrued l) i \<noteq> None \<and>
     map_of (lg_accrued l) i = cy_accrued_interest (lg_carry l) i (lg_settlement l) date"

definition held :: "'d replay_ledger \<Rightarrow> version_ref set" where
  "held l = fst ` set (sb_positions (lg_book l))"

definition ledger_ok :: "rat replay_ledger \<Rightarrow> bool" where
  "ledger_ok l \<longleftrightarrow> lg_open l = None \<and> book_ok rat_ops (lg_book l) \<and>
     (\<forall>i \<in> held l. map_of (lg_marks l) i \<noteq> None \<and> (\<exists>d. lg_date l = Some d \<and> carried l d i)) \<and>
     lg_equity l = book_value (map_of (lg_marks l)) (map_of (lg_accrued l)) (lg_book l)"

text \<open>Within a step the closing prices of its bars take precedence over older marks.\<close>

abbreviation step_marks :: "rat replay_ledger \<Rightarrow> rat opened_step \<Rightarrow> version_ref \<rightharpoonup> rat" where
  "step_marks l s \<equiv> map_of (lg_marks l) ++ map_of (os_closes s)"

definition step_ok :: "rat replay_ledger \<Rightarrow> rat opened_step \<Rightarrow> bool" where
  "step_ok l s \<longleftrightarrow> lg_open l = Some s \<and> book_ok rat_ops (lg_book l) \<and> lg_date l = Some (os_date s) \<and>
     bt_ok (os_parts s) \<and> bt_ok (os_closes s) \<and>
     (\<forall>i \<in> held l. step_marks l s i \<noteq> None \<and> carried l (os_date s) i) \<and>
     os_funding s + parts_sum (os_parts s) =
       book_value (step_marks l s) (map_of (lg_accrued l)) (lg_book l) - lg_equity l"

lemma step_ok_held:
  "step_ok l s \<Longrightarrow> i \<in> held l \<Longrightarrow> step_marks l s i \<noteq> None"
  "step_ok l s \<Longrightarrow> i \<in> held l \<Longrightarrow> carried l (os_date s) i"
  unfolding step_ok_def by metis+

lemma ledger_ok_new: "ledger_ok (ledger_new rat_ops carry funding costs settlement)"
  by (simp add: ledger_ok_def ledger_new_def held_def book_value_def empty_book_def book_ok_def)

section \<open>Opening a step\<close>

lemma add_cash_add_cash: "add_cash rat_ops a (add_cash rat_ops b book) = add_cash rat_ops (a + b) book"
  by (simp add: add_cash_def)

lemma roll_positions:
  assumes "try_fold (roll_position rat_ops previous date) xs (l, parts) = Ok (l', parts')"
    and "distinct (map fst xs)" "bt_ok parts"
    and after: "after = (\<lambda>i. cy_accrued_interest (lg_carry l) i (lg_settlement l) date)"
    and paid: "paid = (\<lambda>i. the (cy_coupon_paid (lg_carry l) i (lg_settlement l) previous date))"
  shows "\<exists>accrued. l' = l\<lparr>lg_book := add_cash rat_ops (weighted paid xs / 100) (lg_book l), lg_accrued := accrued\<rparr> \<and>
    map_of accrued = (\<lambda>i. if i \<in> fst ` set xs then after i else map_of (lg_accrued l) i) \<and>
    (\<forall>i \<in> fst ` set xs. after i \<noteq> None) \<and> bt_ok parts' \<and>
    parts_sum parts' = parts_sum parts +
      weighted (\<lambda>i. the (after i) - the (map_of (lg_accrued l) i) + paid i) xs / 100"
  using assms
proof (induction xs arbitrary: l parts)
  case Nil
  then show ?case by (auto simp: add_cash_def fun_eq_iff intro!: exI [of _ "lg_accrued l"])
next
  case (Cons x xs)
  obtain i f where x: "x = (i, f)" by (cases x)
  from Cons.prems(1) obtain s where s: "roll_position rat_ops previous date (i, f) (l, parts) = Ok s"
    "try_fold (roll_position rat_ops previous date) xs s = Ok (l', parts')"
    by (auto simp: x result_simps)
  then obtain a where a: "after i = Some a" and before: "map_of (lg_accrued l) i \<noteq> None"
    and rest: "try_fold (roll_position rat_ops previous date) xs
      (l\<lparr>lg_book := add_cash rat_ops (f * paid i / 100) (lg_book l), lg_accrued := bt_insert i a (lg_accrued l)\<rparr>,
       parts_update rat_ops i (\<lambda>p. p\<lparr>pa_coupon :=
         pa_coupon p + f * (a - the (map_of (lg_accrued l) i) + paid i) / 100\<rparr>) parts) = Ok (l', parts')"
    unfolding roll_position_def by (auto simp: result_simps Cons.prems(4,5))
  define m where "m = l\<lparr>lg_book := add_cash rat_ops (f * paid i / 100) (lg_book l), lg_accrued := bt_insert i a (lg_accrued l)\<rparr>"
  define q where "q = parts_update rat_ops i (\<lambda>p. p\<lparr>pa_coupon :=
      pa_coupon p + f * (a - the (map_of (lg_accrued l) i) + paid i) / 100\<rparr>) parts"
  let ?g = "\<lambda>l i. the (after i) - the (map_of (lg_accrued l) i) + paid i"
  have "\<exists>accrued. l' = m\<lparr>lg_book := add_cash rat_ops (weighted paid xs / 100) (lg_book m), lg_accrued := accrued\<rparr> \<and>
    map_of accrued = (\<lambda>i. if i \<in> fst ` set xs then after i else map_of (lg_accrued m) i) \<and>
    (\<forall>i \<in> fst ` set xs. after i \<noteq> None) \<and> bt_ok parts' \<and>
    parts_sum parts' = parts_sum q + weighted (?g m) xs / 100"
    by (rule Cons.IH) (use rest Cons.prems in \<open>simp_all add: m_def q_def parts_ok_update\<close>)
  then obtain accrued where l': "l' = m\<lparr>lg_book := add_cash rat_ops (weighted paid xs / 100) (lg_book m), lg_accrued := accrued\<rparr>"
    and acc: "map_of accrued = (\<lambda>i. if i \<in> fst ` set xs then after i else map_of (lg_accrued m) i)"
    and some: "\<forall>i \<in> fst ` set xs. after i \<noteq> None" and ok: "bt_ok parts'"
    and sum: "parts_sum parts' = parts_sum q + weighted (?g m) xs / 100"
    by blast
  have new: "i \<notin> fst ` set xs" using Cons.prems(2) x by simp
  then have "weighted (?g m) xs = weighted (?g l) xs" by (intro weighted_cong) (auto simp: m_def)
  moreover have "parts_sum q = parts_sum parts + f * ?g l i / 100"
    unfolding q_def by (rule parts_sum_update [OF Cons.prems(3)]) (simp add: a)
  moreover have "map_of accrued = (\<lambda>j. if j \<in> fst ` set (x # xs) then after j else map_of (lg_accrued l) j)"
    using new by (auto simp: acc x a m_def fun_eq_iff)
  ultimately show ?case
    using l' some ok sum a
    by (intro exI [of _ accrued]) (simp add: x m_def add_cash_add_cash add_divide_distrib add.commute)
qed

lemma mark_positions:
  assumes "try_fold (mark_position rat_ops l closes) xs parts = Ok parts'" "bt_ok parts"
  shows "(\<forall>i \<in> fst ` set xs. map_of (lg_marks l) i \<noteq> None) \<and> bt_ok parts' \<and>
    parts_sum parts' = parts_sum parts +
      weighted (\<lambda>i. the ((map_of (lg_marks l) ++ map_of closes) i) - the (map_of (lg_marks l) i)) xs / 100"
  using assms
proof (induction xs arbitrary: parts)
  case (Cons x xs)
  obtain i f where x: "x = (i, f)" by (cases x)
  let ?g = "\<lambda>i. the ((map_of (lg_marks l) ++ map_of closes) i) - the (map_of (lg_marks l) i)"
  from Cons.prems(1) obtain s where s: "mark_position rat_ops l closes (i, f) parts = Ok s"
    "try_fold (mark_position rat_ops l closes) xs s = Ok parts'"
    by (auto simp: x result_simps)
  then obtain previous where marked: "map_of (lg_marks l) i = Some previous"
    and rest: "try_fold (mark_position rat_ops l closes) xs
      (parts_update rat_ops i (\<lambda>p. p\<lparr>pa_price := pa_price p + f * ?g i / 100\<rparr>) parts) = Ok parts'"
    unfolding mark_position_def
    by (auto simp: result_simps Let_def map_add_def option.case_distrib [of the] cong: option.case_cong)
  have "parts_sum (parts_update rat_ops i (\<lambda>p. p\<lparr>pa_price := pa_price p + f * ?g i / 100\<rparr>) parts) =
      parts_sum parts + f * ?g i / 100"
    by (rule parts_sum_update [OF Cons.prems(2)]) simp
  with Cons.IH [OF rest] Cons.prems(2) marked show ?case
    by (simp add: x parts_ok_update add_divide_distrib)
qed simp


text \<open>
  Rolling the date books the change of cash and accrued interest, so that afterwards the
  components account for the value at the old marks.
\<close>

lemma roll_date_value:
  assumes ok: "ledger_ok l" and roll: "roll_date rat_ops ch date (sb_positions (lg_book l)) (l, []) = Ok (funding, l', parts)"
  shows "bt_ok parts \<and> lg_marks l' = lg_marks l \<and> lg_equity l' = lg_equity l \<and> lg_rows l' = lg_rows l \<and>
    lg_date l' = Some date \<and> lg_open l' = None \<and> sb_positions (lg_book l') = sb_positions (lg_book l) \<and>
    lg_carry l' = lg_carry l \<and> lg_costs l' = lg_costs l \<and> lg_settlement l' = lg_settlement l \<and> lg_funding l' = lg_funding l \<and>
    (\<forall>i \<in> held l. carried l' date i) \<and>
    funding + parts_sum parts = book_value (map_of (lg_marks l)) (map_of (lg_accrued l')) (lg_book l') - lg_equity l"
proof (cases "\<exists>d. lg_date l = Some d \<and> d \<noteq> date")
  case False
  then have "l' = l\<lparr>lg_date := Some date\<rparr>" "funding = 0" "parts = []"
    using roll by (auto simp: roll_date_def Let_def split: option.splits if_splits)
  moreover have "\<forall>i \<in> held l. carried l date i" using ok False by (auto simp: ledger_ok_def)
  ultimately show ?thesis using ok by (auto simp: ledger_ok_def parts_sum_def carried_def)
next
  case True
  then obtain d where d: "lg_date l = Some d" "d \<noteq> date" by blast
  define m where "m = l\<lparr>lg_date := Some date, lg_book := add_cash rat_ops funding (lg_book l)\<rparr>"
  have fold: "try_fold (roll_position rat_ops d date) (sb_positions (lg_book l)) (m, []) = Ok (l', parts)"
    and funding: "funding = funding_charge rat_ops ch (l\<lparr>lg_date := Some date\<rparr>) d date"
    using roll d by (auto simp: roll_date_def Let_def result_simps m_def)
  have dist: "distinct (map fst (sb_positions (lg_book l)))"
    using ok by (simp add: ledger_ok_def book_ok_def bt_ok_def strict_sorted_iff)
  let ?after = "\<lambda>i. cy_accrued_interest (lg_carry m) i (lg_settlement m) date"
  let ?paid = "\<lambda>i. the (cy_coupon_paid (lg_carry m) i (lg_settlement m) d date)"
  let ?xs = "sb_positions (lg_book l)"
  obtain accrued where l': "l' = m\<lparr>lg_book := add_cash rat_ops (weighted ?paid ?xs / 100) (lg_book m), lg_accrued := accrued\<rparr>"
    and acc: "map_of accrued = (\<lambda>i. if i \<in> fst ` set ?xs then ?after i else map_of (lg_accrued m) i)"
    and some: "\<forall>i \<in> fst ` set ?xs. ?after i \<noteq> None" and parts: "bt_ok parts"
    and sum: "parts_sum parts = parts_sum [] +
      weighted (\<lambda>i. the (?after i) - the (map_of (lg_accrued m) i) + ?paid i) ?xs / 100"
    using roll_positions [OF fold dist bt_ok_Nil refl refl] by blast
  let ?m = "\<lambda>i. the (map_of (lg_marks l) i)"
  have "weighted (\<lambda>i. ?m i + the (map_of accrued i)) ?xs = weighted ?m ?xs + weighted (\<lambda>i. the (?after i)) ?xs"
    unfolding weighted_add [symmetric] by (rule weighted_cong) (auto simp: acc)
  moreover have "lg_equity l = sb_cash (lg_book l) + (weighted ?m ?xs + weighted (\<lambda>i. the (map_of (lg_accrued l) i)) ?xs) / 100"
    using ok by (simp add: ledger_ok_def book_value_def weighted_add)
  ultimately have "funding + parts_sum parts = book_value (map_of (lg_marks l)) (map_of (lg_accrued l')) (lg_book l') - lg_equity l"
    by (simp add: sum l' m_def book_value_def add_cash_def weighted_add weighted_diff field_simps)
  moreover have "lg_open l = None" using ok by (simp add: ledger_ok_def)
  ultimately show ?thesis using some acc parts by (auto simp: l' m_def carried_def held_def)
qed

lemma open_step_Ok:
  assumes "open_step ops ch bars l = Ok l'"
  obtains first rest funding m parts s where "bars = first # rest" "lg_open l = None"
    "\<forall>b \<in> set bars. bar_end b = bar_end first \<and> bar_start b = bar_start first \<and> local_trading_date b = local_trading_date first"
    "roll_date ops ch (local_trading_date first) (sb_positions (lg_book l)) (l, []) = Ok (funding, m, parts)"
    "try_fold (mark_position ops m (closes_of ops bars)) (sb_positions (lg_book l)) parts = Ok (os_parts s)"
    "l' = m\<lparr>lg_open := Some s\<rparr>" "os_bar_start s = bar_start first" "os_bar_end s = bar_end first"
    "os_date s = local_trading_date first" "os_known_at s = Max (bar_visible_at ` set bars)"
    "os_records s = map (\<lambda>b. (bar_instrument b, source_record_id b)) bars"
    "os_start s = sb_positions (lg_book l)" "os_funding s = funding" "os_closes s = closes_of ops bars"
proof (cases bars)
  case Nil
  then show ?thesis using assms by (simp add: open_step_def)
next
  case (Cons first rest)
  let ?odd = "lg_open l \<noteq> None
    \<or> (\<exists>b \<in> set bars. bar_end b \<noteq> bar_end first \<or> bar_start b \<noteq> bar_start first
         \<or> local_trading_date b \<noteq> local_trading_date first)
    \<or> (\<exists>previous \<in> set_option (lg_date l). previous > local_trading_date first)"
  have even: "\<not> ?odd"
  proof
    assume "?odd"
    then have "open_step ops ch bars l = Err InvalidValue" unfolding open_step_def Cons list.case by (rule if_P)
    then show False using assms by simp
  qed
  have "\<exists>r. roll_date ops ch (local_trading_date first) (sb_positions (lg_book l)) (l, []) = Ok r \<and>
    (case r of (funding, m, parts) \<Rightarrow>
       and_then (try_fold (mark_position ops m (closes_of ops bars)) (sb_positions (lg_book l)) parts) (\<lambda>parts'.
       Ok (m\<lparr>lg_open := Some
         \<lparr>os_bar_start = bar_start first, os_bar_end = bar_end first, os_date = local_trading_date first,
          os_known_at = Max (bar_visible_at ` set bars),
          os_records = map (\<lambda>b. (bar_instrument b, source_record_id b)) bars,
          os_start = sb_positions (lg_book l), os_parts = parts', os_funding = funding,
          os_closes = closes_of ops bars\<rparr>\<rparr>))) = Ok l'"
    using assms even unfolding open_step_def Cons list.case Let_def if_not_P [OF even, unfolded Cons]
    by (simp only: and_then_eq_Ok)
  then show ?thesis using even by (auto simp: and_then_eq_Ok intro!: that [OF Cons])
qed

lemma open_step_ok:
  assumes ok: "ledger_ok l" and opened: "open_step rat_ops ch bars l = Ok l'"
  obtains s where "step_ok l' s" "lg_rows l' = lg_rows l" "lg_equity l' = lg_equity l"
    "os_closes s = closes_of rat_ops bars"
proof -
  obtain first :: bar and funding m parts s where
    roll: "roll_date rat_ops ch (local_trading_date first) (sb_positions (lg_book l)) (l, []) = Ok (funding, m, parts)"
    and marks: "try_fold (mark_position rat_ops m (closes_of rat_ops bars)) (sb_positions (lg_book l)) parts = Ok (os_parts s)"
    and s: "l' = m\<lparr>lg_open := Some s\<rparr>" "os_date s = local_trading_date first"
    "os_funding s = funding" "os_closes s = closes_of rat_ops bars"
    using opened by (rule open_step_Ok) blast
  note rolled = roll_date_value [OF ok roll]
  note marked = mark_positions [OF marks]
  have "book_value (step_marks l' s) (map_of (lg_accrued m)) (lg_book m) =
      book_value (map_of (lg_marks m)) (map_of (lg_accrued m)) (lg_book m) +
      weighted (\<lambda>i. the (step_marks l' s i) - the (map_of (lg_marks m) i)) (sb_positions (lg_book m)) / 100"
    by (simp add: book_value_def weighted_add weighted_diff field_simps s(1))
  then have "step_ok l' s"
    using rolled marked ok
    by (auto simp: step_ok_def s held_def carried_def closes_of_def bt_ok_collect ledger_ok_def book_ok_def map_add_def
        split: option.splits)
  then show ?thesis using that rolled s by simp
qed


lemma closes_of_closed:
  assumes "b \<in> set bars" "bar_instrument b = i" "bar_prices b \<noteq> None"
  shows "map_of (closes_of ops bars) i \<noteq> None"
proof -
  have "i \<in> set (bt_keys (closes_of ops bars))"
    unfolding closes_of_def bt_collect_keys_set using assms
    by (fastforce simp: List.map_filter_def image_iff)
  then show ?thesis by (simp only: bt_keys_get not_False_eq_True)
qed

section \<open>Executions\<close>

lemma execute_fill_Ok:
  assumes "execute_fill ops fill s l = Ok l'"
  obtains price accrued mark cost where "sf_price fill = Some price"
    "cy_accrued_interest (lg_carry l) (sf_instrument fill) (lg_settlement l) (os_date s) = Some accrued"
    "sf_effective_at fill = os_bar_end s"
    "mark = (case map_of (os_closes s) (sf_instrument fill) of Some c \<Rightarrow> c | None \<Rightarrow> price)"
    "cost = execution_cost ops (lg_costs l) (sf_quantity fill)"
    "l' = l\<lparr>lg_book := add_position ops (sf_instrument fill) (sf_quantity fill)
        (add_cash ops (d_add ops (d_neg ops (d_div ops (d_mul ops (sf_quantity fill) (d_add ops price accrued)) (d_hundred ops))) cost)
          (lg_book l)),
      lg_accrued := bt_insert (sf_instrument fill) accrued (lg_accrued l),
      lg_marks := (case map_of (lg_marks l) (sf_instrument fill) of
        Some _ \<Rightarrow> lg_marks l | None \<Rightarrow> bt_insert (sf_instrument fill) mark (lg_marks l)),
      lg_open := Some (s\<lparr>os_parts := parts_update ops (sf_instrument fill) (\<lambda>p. p\<lparr>
          pa_price := d_add ops (pa_price p) (d_div ops (d_mul ops (sf_quantity fill) (d_sub ops mark price)) (d_hundred ops)),
          pa_cost := d_add ops (pa_cost p) cost\<rparr>) (os_parts s)\<rparr>)\<rparr>"
  using assms unfolding execute_fill_def Let_def
  by (auto simp only: and_then_eq_Ok ok_or_eq_Ok result.inject split: if_splits intro: that)

text \<open>An execution at a bar that closed keeps the components in line with the value.\<close>

lemma execute_fill_ok:
  assumes ok: "step_ok l s" and exec: "execute_fill rat_ops fill s l = Ok l'"
    and closed: "map_of (os_closes s) (sf_instrument fill) \<noteq> None"
  obtains s' where "step_ok l' s'" "lg_rows l' = lg_rows l" "lg_equity l' = lg_equity l" "os_closes s' = os_closes s"
proof -
  let ?i = "sf_instrument fill" and ?f = "sf_quantity fill"
  from exec obtain price accrued mark cost where
    acc: "cy_accrued_interest (lg_carry l) ?i (lg_settlement l) (os_date s) = Some accrued"
    and "mark = (case map_of (os_closes s) ?i of Some c \<Rightarrow> c | None \<Rightarrow> price)"
    and l': "l' = l\<lparr>lg_book := add_position rat_ops ?i ?f (add_cash rat_ops (- (?f * (price + accrued) / 100) + cost) (lg_book l)),
      lg_accrued := bt_insert ?i accrued (lg_accrued l),
      lg_marks := (case map_of (lg_marks l) ?i of Some _ \<Rightarrow> lg_marks l | None \<Rightarrow> bt_insert ?i mark (lg_marks l)),
      lg_open := Some (s\<lparr>os_parts := parts_update rat_ops ?i (\<lambda>p. p\<lparr>
          pa_price := pa_price p + ?f * (mark - price) / 100, pa_cost := pa_cost p + cost\<rparr>) (os_parts s)\<rparr>)\<rparr>"
    by (rule execute_fill_Ok) (simp only: rat_ops_simps rat_derived_simps)
  then have mark: "map_of (os_closes s) ?i = Some mark" using closed by auto
  define s' where "s' = s\<lparr>os_parts := parts_update rat_ops ?i (\<lambda>p. p\<lparr>
      pa_price := pa_price p + ?f * (mark - price) / 100, pa_cost := pa_cost p + cost\<rparr>) (os_parts s)\<rparr>"
  have book: "book_ok rat_ops (lg_book l)" and parts: "bt_ok (os_parts s)" using ok by (auto simp: step_ok_def)
  have marks: "step_marks l' s' = step_marks l s"
    using mark by (auto simp: l' s'_def map_add_def fun_eq_iff split: option.splits)
  let ?g = "\<lambda>i. the (step_marks l s i) + the (map_of (lg_accrued l') i)"
  have weights: "weighted (\<lambda>i. the (step_marks l s i) + the (map_of (lg_accrued l) i)) (sb_positions (lg_book l)) =
      weighted ?g (sb_positions (lg_book l))"
    by (rule weighted_cong) (use ok acc in \<open>auto simp: step_ok_def held_def carried_def l'\<close>)
  have at: "?g ?i = mark + accrued" using mark by (simp add: l' map_add_def)
  have "book_value (step_marks l' s') (map_of (lg_accrued l')) (lg_book l') =
      sb_cash (lg_book l) - ?f * (price + accrued) / 100 + cost +
      (weighted ?g (sb_positions (lg_book l)) + ?f * (mark + accrued)) / 100"
    unfolding book_value_def marks using book
    by (simp add: l' weighted_add_position book_ok_def add_cash_def at [unfolded l', simplified])
  also have "\<dots> = book_value (step_marks l s) (map_of (lg_accrued l)) (lg_book l) + ?f * (mark - price) / 100 + cost"
    unfolding book_value_def weights by (simp add: field_simps)
  also have "\<dots> = os_funding s' + parts_sum (os_parts s') + lg_equity l'"
    using ok parts_sum_update [OF parts, of "\<lambda>p. p\<lparr>pa_price := pa_price p + ?f * (mark - price) / 100, pa_cost := pa_cost p + cost\<rparr>"
        "?f * (mark - price) / 100 + cost" ?i]
    by (simp add: step_ok_def s'_def l')
  finally have balance: "os_funding s' + parts_sum (os_parts s') =
      book_value (step_marks l' s') (map_of (lg_accrued l')) (lg_book l') - lg_equity l'" by simp
  have held': "held l' \<subseteq> insert ?i (held l)"
    by (auto simp: held_def l' add_position_def Let_def bt_remove_def set_bt_insert_keys rev_image_eqI split: if_splits)
  have "step_ok l' s'"
    unfolding step_ok_def marks
  proof (intro conjI ballI)
    show "lg_open l' = Some s'" by (simp add: l' s'_def)
    show "book_ok rat_ops (lg_book l')" using book by (simp add: l' rat_book_ok_add_position)
    show "lg_date l' = Some (os_date s')" "bt_ok (os_closes s')" "bt_ok (os_parts s')"
      using ok by (simp_all add: step_ok_def l' s'_def parts_ok_update)
    show "step_marks l s i \<noteq> None" if "i \<in> held l'" for i
    proof (cases "i = ?i")
      case True
      then show ?thesis using mark by (simp add: map_add_def)
    next
      case False
      then have "i \<in> held l" using that held' by blast
      then show ?thesis by (rule step_ok_held [OF ok])
    qed
    show "carried l' (os_date s') i" if "i \<in> held l'" for i
      using ok that held' acc by (auto simp: step_ok_def carried_def l' s'_def)
    show "os_funding s' + parts_sum (os_parts s') = book_value (step_marks l s) (map_of (lg_accrued l')) (lg_book l') - lg_equity l'"
      using balance unfolding marks .
  qed
  then show ?thesis using that by (simp add: l' s'_def)
qed


lemma settle_ok:
  assumes ok: "step_ok l s" and settled: "settle rat_ops fill l = Ok l'"
    and closed: "sf_quantity fill \<noteq> 0 \<Longrightarrow> map_of (os_closes s) (sf_instrument fill) \<noteq> None"
  obtains s' where "step_ok l' s'" "lg_rows l' = lg_rows l" "lg_equity l' = lg_equity l" "os_closes s' = os_closes s"
proof (cases "sf_quantity fill = 0")
  case True
  then have "l' = l" using ok settled by (auto simp: settle_def step_ok_def)
  then show ?thesis using that ok by simp
next
  case False
  then have "execute_fill rat_ops fill s l = Ok l'" using ok settled by (simp add: settle_def step_ok_def)
  from execute_fill_ok [OF ok this closed [OF False]] show ?thesis using that by blast
qed

section \<open>Closing a step\<close>

lemma add_values:
  assumes "\<forall>i \<in> fst ` set xs. map_of (lg_marks l) i \<noteq> None \<and> map_of (lg_accrued l) i \<noteq> None"
  shows "try_fold (add_value rat_ops l) xs e =
    Ok (e + weighted (\<lambda>i. the (map_of (lg_marks l) i) + the (map_of (lg_accrued l) i)) xs / 100)"
  using assms
proof (induction xs arbitrary: e)
  case (Cons x xs)
  then show ?case by (cases x) (auto simp: add_value_def field_simps)
qed simp

lemma equity_now_value:
  assumes "\<forall>i \<in> held l. map_of (lg_marks l) i \<noteq> None \<and> map_of (lg_accrued l) i \<noteq> None"
  shows "equity_now rat_ops l = Ok (book_value (map_of (lg_marks l)) (map_of (lg_accrued l)) (lg_book l))"
  using assms unfolding equity_now_def held_def book_value_def by (rule add_values)

text \<open>
  The rows carry the booked parts, one per instrument, and only the accrued interest of flat
  instruments is forgotten.
\<close>

definition same_parts :: "'d decimal_ops \<Rightarrow> version_ref \<times> 'd parts \<Rightarrow> version_ref \<times> 'd instrument_pnl \<Rightarrow> bool" where
  "same_parts ops = (\<lambda>(i, p) (j, q). j = i \<and> ip_price q = amount_from_decimal ops (pa_price p) \<and>
     ip_coupon q = amount_from_decimal ops (pa_coupon p) \<and>
     ip_transaction_cost q = amount_from_decimal ops (pa_cost p))"

lemma instrument_rows_fold:
  assumes "bt_ok parts" "\<forall>x \<in> fst ` set rows. \<forall>y \<in> fst ` set parts. x < y"
  shows "\<exists>new accrued. fold (instrument_row ops start) parts (rows, l) = (rows @ new, l\<lparr>lg_accrued := accrued\<rparr>) \<and>
    list_all2 (same_parts ops) parts new \<and>
    (\<forall>i. \<not> d_is_zero ops (position_of ops (lg_book l) i) \<longrightarrow> map_of accrued i = map_of (lg_accrued l) i)"
  using assms
proof (induction parts arbitrary: rows l)
  case Nil
  then show ?case by (auto intro!: exI [of _ "lg_accrued l"])
next
  case (Cons x parts)
  obtain i p where x: "x = (i, p)" by (cases x)
  have less: "\<forall>x \<in> fst ` set rows. x < i" using Cons.prems(2) x by simp
  obtain q m accrued where step: "instrument_row ops start x (rows, l) = (rows @ [(i, q)], m)"
    and q: "same_parts ops x (i, q)" and m: "m = l\<lparr>lg_accrued := accrued\<rparr>"
    and kept: "\<forall>i. \<not> d_is_zero ops (position_of ops (lg_book l) i) \<longrightarrow> map_of accrued i = map_of (lg_accrued l) i"
  proof (cases "d_is_zero ops (position_of ops (lg_book l) i)")
    case True
    then show ?thesis
      using bt_insert_last [OF less] by (intro that [of _ _ "bt_remove i (lg_accrued l)"]) (auto simp: x instrument_row_def same_parts_def)
  next
    case False
    then show ?thesis
      using bt_insert_last [OF less] by (intro that [of _ l "lg_accrued l"]) (auto simp: x instrument_row_def same_parts_def)
  qed
  have "\<exists>new accrued. fold (instrument_row ops start) parts (rows @ [(i, q)], m) = ((rows @ [(i, q)]) @ new, m\<lparr>lg_accrued := accrued\<rparr>) \<and>
    list_all2 (same_parts ops) parts new \<and>
    (\<forall>i. \<not> d_is_zero ops (position_of ops (lg_book m) i) \<longrightarrow> map_of accrued i = map_of (lg_accrued m) i)"
    using Cons.prems by (intro Cons.IH) (auto simp: x bt_ok_Cons)
  then obtain new accrued' where
    "fold (instrument_row ops start) parts (rows @ [(i, q)], m) = ((rows @ [(i, q)]) @ new, m\<lparr>lg_accrued := accrued'\<rparr>)"
    "list_all2 (same_parts ops) parts new"
    "\<forall>i. \<not> d_is_zero ops (position_of ops (lg_book m) i) \<longrightarrow> map_of accrued' i = map_of (lg_accrued m) i"
    by blast
  with step q kept show ?case by (intro exI [of _ "(i, q) # new"] exI [of _ accrued']) (simp add: m)
qed

lemma rows_sum:
  assumes "list_all2 (same_parts rat_ops) parts rows"
  shows "(\<Sum>(_, q) \<leftarrow> rows. ip_price q) + (\<Sum>(_, q) \<leftarrow> rows. ip_coupon q) + (\<Sum>(_, q) \<leftarrow> rows. ip_transaction_cost q) =
    parts_sum parts"
  using assms
proof (induction parts rows rule: list_all2_induct)
  case (Cons p ps q qs)
  then show ?case by (cases p; cases q) (auto simp: parts_sum_def same_parts_def)
qed simp

text \<open>A step whose components are in line closes, and its row reconciles.\<close>

lemma finish_step_ok:
  assumes ok: "step_ok l s"
  obtains l' row where "finish_step rat_ops l = Ok l'" "ledger_ok l'" "lg_rows l' = lg_rows l @ [row]"
    "pl_total row = components_total rat_ops row" "pl_equity row = lg_equity l + pl_total row" "pl_equity row = lg_equity l'"
    "pl_bar_end row = os_bar_end s" "pl_known_at row = os_known_at s"
proof -
  define m where "m = l\<lparr>lg_open := None,
      lg_marks := fold (\<lambda>(instrument, close) m. bt_insert instrument close m) (os_closes s) (lg_marks l)\<rparr>"
  have facts: "lg_open l = Some s" "book_ok rat_ops (lg_book l)" "bt_ok (os_parts s)" "bt_ok (os_closes s)"
    "lg_date l = Some (os_date s)"
    and balance: "os_funding s + parts_sum (os_parts s) = book_value (step_marks l s) (map_of (lg_accrued l)) (lg_book l) - lg_equity l"
    using ok by (auto simp: step_ok_def)
  have marks: "map_of (lg_marks m) = step_marks l s"
    unfolding m_def by (simp add: fold_bt_insert facts(4))
  let ?e = "book_value (step_marks l s) (map_of (lg_accrued l)) (lg_book l)"
  have same: "lg_accrued m = lg_accrued l" "lg_book m = lg_book l" by (simp_all add: m_def)
  have "\<forall>i \<in> held m. map_of (lg_marks m) i \<noteq> None \<and> map_of (lg_accrued m) i \<noteq> None"
  proof (intro ballI conjI)
    fix i assume "i \<in> held m"
    then have i: "i \<in> held l" by (simp add: held_def same)
    show "map_of (lg_marks m) i \<noteq> None" unfolding marks by (rule step_ok_held(1) [OF ok i])
    show "map_of (lg_accrued m) i \<noteq> None" using step_ok_held(2) [OF ok i] unfolding carried_def same ..
  qed
  then have equity: "equity_now rat_ops m = Ok ?e" using equity_now_value marks same by metis
  obtain rows accrued where rows: "instrument_rows rat_ops (os_start s) (os_parts s) m = (rows, m\<lparr>lg_accrued := accrued\<rparr>)"
    and parts: "list_all2 (same_parts rat_ops) (os_parts s) rows"
    and kept: "\<forall>i. position_of rat_ops (lg_book m) i \<noteq> 0 \<longrightarrow> map_of accrued i = map_of (lg_accrued m) i"
    using instrument_rows_fold [OF facts(3), of "[]" rat_ops "os_start s" m] by (auto simp: instrument_rows_def)
  define row where "row = \<lparr>pl_bar_start = os_bar_start s, pl_bar_end = os_bar_end s, pl_known_at = os_known_at s,
      pl_trading_date = os_date s, pl_instruments = rows, pl_funding = os_funding s, pl_total = ?e - lg_equity l,
      pl_cash = sb_cash (lg_book l), pl_equity = ?e\<rparr>"
  define l' where "l' = m\<lparr>lg_accrued := accrued, lg_equity := ?e, lg_rows := lg_rows l @ [row]\<rparr>"
  have components: "?e - lg_equity l = os_funding s +
      (\<Sum>(_, p) \<leftarrow> os_parts s. pa_price p + pa_coupon p + pa_cost p)"
    using balance by (simp add: parts_sum_def)
  have finished: "finish_step rat_ops l = Ok l'"
    unfolding finish_step_def facts(1) ok_or.simps and_then.simps Let_def m_def [symmetric] equity rows prod.case
    using components by (simp add: l'_def row_def m_def)
  have nonzero: "position_of rat_ops (lg_book l) i \<noteq> 0" if i: "i \<in> held l" for i
  proof -
    obtain f where "map_of (sb_positions (lg_book l)) i = Some f"
      using i by (cases "map_of (sb_positions (lg_book l)) i") (simp_all add: held_def map_of_eq_None_iff)
    then show ?thesis using book_ok_position [OF facts(2)] by (simp add: position_of_def)
  qed
  have "weighted (\<lambda>i. the (step_marks l s i) + the (map_of accrued i)) (sb_positions (lg_book l)) =
      weighted (\<lambda>i. the (step_marks l s i) + the (map_of (lg_accrued l) i)) (sb_positions (lg_book l))"
    using kept nonzero by (intro weighted_cong) (simp add: held_def same)
  then have "lg_equity l' = book_value (map_of (lg_marks l')) (map_of (lg_accrued l')) (lg_book l')"
    by (simp add: l'_def book_value_def same marks)
  moreover have "map_of (lg_marks l') i \<noteq> None \<and> (\<exists>d. lg_date l' = Some d \<and> carried l' d i)" if "i \<in> held l'" for i
  proof -
    have i: "i \<in> held l" using that by (simp add: held_def l'_def same)
    have "map_of (lg_marks l') i \<noteq> None"
      using step_ok_held(1) [OF ok i] unfolding marks [symmetric] by (simp only: l'_def) simp
    moreover have "carried l' (os_date s) i"
      using step_ok_held(2) [OF ok i] kept nonzero [OF i] by (auto simp: carried_def l'_def m_def intro: sym)
    ultimately show ?thesis using facts(5) by (simp add: l'_def m_def)
  qed
  ultimately have "ledger_ok l'"
    using facts(2) unfolding ledger_ok_def by (simp add: l'_def m_def)
  moreover have "pl_total row = components_total rat_ops row"
    using rows_sum [OF parts] balance by (simp add: row_def components_total_def pnl_sum_def)
  ultimately show ?thesis
    using that [OF finished, of row] by (simp add: l'_def m_def row_def)
qed


section \<open>A whole step\<close>

lemma settle_all_ok:
  assumes "step_ok l s" "try_fold (settle rat_ops) fills l = Ok l'"
    and "\<And>f. f \<in> set fills \<Longrightarrow> sf_quantity f \<noteq> 0 \<Longrightarrow> map_of (os_closes s) (sf_instrument f) \<noteq> None"
  obtains s' where "step_ok l' s'" "lg_rows l' = lg_rows l" "lg_equity l' = lg_equity l" "os_closes s' = os_closes s"
  using assms
proof (induction fills arbitrary: l s thesis)
  case (Cons f fills)
  obtain m where m: "settle rat_ops f l = Ok m" "try_fold (settle rat_ops) fills m = Ok l'"
    using Cons.prems(3) by (auto simp: result_simps)
  obtain s1 where s1: "step_ok m s1" "lg_rows m = lg_rows l" "lg_equity m = lg_equity l" "os_closes s1 = os_closes s"
    using settle_ok [OF Cons.prems(2) m(1)] Cons.prems(4) by (metis list.set_intros(1))
  show ?case
  proof (rule Cons.IH [OF _ s1(1) m(2)])
    show "map_of (os_closes s1) (sf_instrument g) \<noteq> None" if "g \<in> set fills" "sf_quantity g \<noteq> 0" for g
      using Cons.prems(4) that by (simp add: s1(4))
    show thesis if "step_ok l' s'" "lg_rows l' = lg_rows m" "lg_equity l' = lg_equity m" "os_closes s' = os_closes s1" for s'
      using Cons.prems(1) that s1 by simp
  qed
qed auto

text \<open>
  C13: In exact arithmetic a step that opens, and whose executions settle in
  bars that closed, always closes: the equity change computed from the book equals the sum of price
  change, coupon, funding and transaction cost, so the ledger's own check never fails. The new
  row reconciles, its equity continues the previous one, and the ledger stays consistent.
\<close>

theorem close_step_balances:
  assumes "ledger_ok l" "open_step rat_ops ch bars l = Ok opened" "try_fold (settle rat_ops) fills opened = Ok settled"
    and "\<forall>f \<in> set fills. sf_quantity f = 0 \<or>
      (\<exists>b \<in> set bars. bar_instrument b = sf_instrument f \<and> bar_prices b \<noteq> None)"
  shows "\<exists>l' row. close_step rat_ops ch bars fills l = Ok l' \<and> ledger_ok l' \<and> lg_rows l' = lg_rows l @ [row] \<and>
    pl_total row = components_total rat_ops row \<and> pl_equity row = lg_equity l + pl_total row \<and>
    lg_equity l' = pl_equity row"
proof -
  obtain s where s: "step_ok opened s" "lg_rows opened = lg_rows l" "lg_equity opened = lg_equity l"
    "os_closes s = closes_of rat_ops bars"
    using open_step_ok [OF assms(1,2)] .
  have "map_of (os_closes s) (sf_instrument f) \<noteq> None" if "f \<in> set fills" "sf_quantity f \<noteq> 0" for f
    using assms(4) that closes_of_closed unfolding s(4) by metis
  then obtain s' where s': "step_ok settled s'" "lg_rows settled = lg_rows l" "lg_equity settled = lg_equity l"
    using settle_all_ok [OF s(1) assms(3)] s(2,3) by metis
  show ?thesis
    by (rule finish_step_ok [OF s'(1)]) (auto simp: close_step_def assms(2,3) s')
qed


section \<open>Rows and times, in any arithmetic\<close>

definition open_times :: "'d replay_ledger \<Rightarrow> (utc_instant \<times> utc_instant) option" where
  "open_times l = map_option (\<lambda>s. (os_bar_end s, os_known_at s)) (lg_open l)"

lemma roll_date_rows:
  assumes "roll_date ops ch date start (l, parts) = Ok (funding, l', parts')"
  shows "lg_rows l' = lg_rows l"
proof -
  have "lg_rows (fst y) = lg_rows l"
    if "try_fold (roll_position ops previous date) xs x = Ok y" "lg_rows (fst x) = lg_rows l" for previous xs x y
    using that
    by (rule try_fold_invariant) (auto simp: roll_position_def result_simps split: prod.splits)
  with assms show ?thesis
    by (fastforce simp: roll_date_def Let_def result_simps split: option.splits if_splits)
qed

lemma open_step_times:
  assumes "open_step ops ch bars l = Ok l'"
  shows "lg_rows l' = lg_rows l" "bars \<noteq> []" "\<forall>b \<in> set bars. open_times l' = Some (bar_end b, Max (bar_visible_at ` set bars))"
  using assms by (elim open_step_Ok; force simp: open_times_def dest: roll_date_rows)+

lemma settle_times:
  assumes "settle ops f l = Ok l'"
  shows "lg_rows l' = lg_rows l" "open_times l' = open_times l"
proof -
  obtain s where s: "lg_open l = Some s" using assms by (auto simp: settle_def result_simps)
  show "lg_rows l' = lg_rows l" "open_times l' = open_times l"
    using assms by (cases "d_is_zero ops (sf_quantity f)"; auto simp: settle_def s open_times_def elim!: execute_fill_Ok)+
qed

lemma instrument_rows_rows: "lg_rows (snd (instrument_rows ops start parts l)) = lg_rows l"
proof -
  have "lg_rows (snd (fold (instrument_row ops start) parts (rows, l))) = lg_rows l" for rows
    by (induction parts arbitrary: rows l) (auto simp: instrument_row_def split: if_splits)
  then show ?thesis by (simp add: instrument_rows_def)
qed

lemma finish_step_times:
  assumes "finish_step ops l = Ok l'" "open_times l = Some (e, k)"
  shows "\<exists>row. lg_rows l' = lg_rows l @ [row] \<and> pl_bar_end row = e \<and> pl_known_at row = k"
proof -
  obtain s where s: "lg_open l = Some s" "os_bar_end s = e" "os_known_at s = k"
    using assms(2) by (auto simp: open_times_def)
  then obtain m instruments m' where rows: "instrument_rows ops (os_start s) (os_parts s) m = (instruments, m')"
    "lg_rows m = lg_rows l" and l': "\<exists>row. lg_rows l' = lg_rows m' @ [row] \<and> pl_bar_end row = e \<and> pl_known_at row = k"
    using assms(1) by (fastforce simp: finish_step_def Let_def result_simps split: if_splits prod.splits)
  have "lg_rows m' = lg_rows m" using instrument_rows_rows [of ops "os_start s" "os_parts s" m] rows by simp
  with rows l' show ?thesis by simp
qed

section \<open>Witnesses\<close>

definition sample_carry :: "rat bond_carry" where
  "sample_carry = \<lparr>cy_source = sample_bond, cy_identity = zero_hash, cy_accrued_interest = \<lambda>_ _ _. Some 1,
     cy_coupon_paid = \<lambda>_ _ _ _. Some 0\<rparr>"

definition sample_funding :: "rat replay_funding" where
  "sample_funding = \<lparr>rf_rule_pack = sample_bond, rf_tier = DrAvailable, rf_annual_rate = 1 / 50, rf_day_basis = 365\<rparr>"

definition sample_ledger :: "rat replay_ledger" where
  "sample_ledger = ledger_new rat_ops sample_carry sample_funding (RatePlusFixed 1 2) T1"

definition sample_fill :: "rat simulated_fill" where
  "sample_fill = attempt_in_bar rat_ops (UtcInstant 0 0) sample_bond 1000 (sample_bar sample_bond ''r1'' 0 ''99'' ''5000'' ''2'') 0
     \<lparr>er_participation_cap = 1 / 10, er_remainder = Cancel\<rparr> RealTrade"

lemma sample_step:
  "\<exists>opened settled. open_step rat_ops sample_chrono [sample_bar sample_bond ''r1'' 0 ''99'' ''5000'' ''2''] sample_ledger = Ok opened \<and>
     try_fold (settle rat_ops) [sample_fill] opened = Ok settled \<and> sf_quantity sample_fill = 500"
  by (simp add: open_step_def sample_ledger_def ledger_new_def empty_book_def roll_date_def sample_fill_def
      sample_bar_def attempt_in_bar_def priced_def attempt_limit_def settle_def execute_fill_def sample_carry_def
      signed_like_def Let_def)

theorem close_step_balances_witness:
  "\<exists>l' row. close_step rat_ops sample_chrono [sample_bar sample_bond ''r1'' 0 ''99'' ''5000'' ''2''] [sample_fill] sample_ledger = Ok l' \<and>
    ledger_ok l' \<and> lg_rows l' = lg_rows sample_ledger @ [row] \<and> pl_total row = components_total rat_ops row \<and>
    pl_equity row = lg_equity sample_ledger + pl_total row \<and> lg_equity l' = pl_equity row"
proof -
  obtain opened settled where run:
    "open_step rat_ops sample_chrono [sample_bar sample_bond ''r1'' 0 ''99'' ''5000'' ''2''] sample_ledger = Ok opened"
    "try_fold (settle rat_ops) [sample_fill] opened = Ok settled"
    using sample_step by blast
  show ?thesis
    by (rule close_step_balances [OF _ run])
      (simp_all add: sample_ledger_def ledger_ok_new sample_fill_def sample_bar_def)
qed

end
