(* ===== verification/Calibration_Record.thy ===== *)
theory Calibration_Record
  imports Replay_Amount Primitives
begin

text \<open>
  Calibration records (\<open>ficant-domain/src/replay/calibration.rs\<close>): the parameter grid and its
  candidates, the windows, and the selection of the best training candidate. The theory shows
  that the candidates of an accepted grid are every combination of its values over the base
  parameters exactly once and at most 1024, and that the selected candidate is the first one with
  the greatest training objective.
\<close>

section \<open>Definitions\<close>

definition MAX_CALIBRATION_CANDIDATES :: nat where
  "MAX_CALIBRATION_CANDIDATES = 1024"

datatype calibration_objective = TotalPnl

fun objective_code :: "calibration_objective \<Rightarrow> string" where
  "objective_code TotalPnl = ''ficant.objective.total-pnl''"

definition objective_from_code :: "string \<Rightarrow> calibration_objective option" where
  "objective_from_code code = (if code = objective_code TotalPnl then Some TotalPnl else None)"

type_synonym 'd parameters = "(string, 'd) btree_map"
type_synonym 'd parameter_grid = "(string, 'd list) btree_map"

text \<open>\<open>sort\<close> and \<open>dedup\<close> by the order of decimals.\<close>

fun d_insort :: "'d decimal_ops \<Rightarrow> 'd \<Rightarrow> 'd list \<Rightarrow> 'd list" where
  "d_insort ops x [] = [x]"
| "d_insort ops x (y # ys) = (if d_le ops x y then x # y # ys else y # d_insort ops x ys)"

definition d_sort :: "'d decimal_ops \<Rightarrow> 'd list \<Rightarrow> 'd list" where
  "d_sort ops xs = foldr (d_insort ops) xs []"

fun d_dedup :: "'d decimal_ops \<Rightarrow> 'd list \<Rightarrow> 'd list" where
  "d_dedup ops (x # y # zs) = (if d_eq ops x y then d_dedup ops (x # zs) else x # d_dedup ops (y # zs))"
| "d_dedup ops xs = xs"

text \<open>
  One axis: the checks, then the running number of combinations. A product that overflows
  \<open>usize\<close> is above the limit as well.
\<close>

definition check_axis :: "'d decimal_ops \<Rightarrow> string \<times> 'd list \<Rightarrow> nat \<Rightarrow> nat domain_result" where
  "check_axis ops axis combinations =
     (case axis of (name, values) \<Rightarrow>
       if blank_or_padded name \<or> values = [] \<or> length (d_dedup ops (d_sort ops values)) \<noteq> length values
       then Err InvalidValue
       else if combinations * length values \<le> MAX_CALIBRATION_CANDIDATES
       then Ok (combinations * length values) else Err InvalidValue)"

definition parameter_grid_new :: "'d decimal_ops \<Rightarrow> 'd parameter_grid \<Rightarrow> 'd parameter_grid domain_result" where
  "parameter_grid_new ops axes =
     and_then (try_fold (check_axis ops) axes 1) (\<lambda>_.
     if axes = [] then Err InvalidValue else Ok axes)"

definition extend_candidates :: "string \<times> 'd list \<Rightarrow> 'd parameters list \<Rightarrow> 'd parameters list" where
  "extend_candidates axis candidates =
     (case axis of (name, values) \<Rightarrow>
       concat (map (\<lambda>candidate. map (\<lambda>v. bt_insert name v candidate) values) candidates))"

definition grid_candidates :: "'d parameter_grid \<Rightarrow> 'd parameters \<Rightarrow> 'd parameters list" where
  "grid_candidates grid base = fold extend_candidates grid [base]"

record 'd window_result =
  wr_result_id :: content_hash
  wr_objective :: 'd

record 'd candidate_result =
  cr_parameters :: "'d parameters"
  cr_training :: "'d window_result"
  cr_validation :: "'d window_result"

record 'd calibration_record =
  cb_base_policy :: content_hash
  cb_training :: effective_period
  cb_validation :: effective_period
  cb_objective :: calibration_objective
  cb_grid :: "'d parameter_grid"
  cb_candidates :: "'d candidate_result list"
  cb_selected :: nat

definition check_windows :: "effective_period \<Rightarrow> effective_period \<Rightarrow> unit domain_result" where
  "check_windows training validation =
     (if mt_instant (ep_from training) \<ge> mt_instant (ep_to training)
        \<or> mt_instant (ep_from validation) \<ge> mt_instant (ep_to validation)
        \<or> mt_instant (ep_to training) > mt_instant (ep_from validation)
      then Err InvalidEffectiveTime else Ok ())"

definition better_candidate ::
  "'d decimal_ops \<Rightarrow> nat \<times> 'd candidate_result \<Rightarrow> (nat \<times> 'd) option \<Rightarrow> (nat \<times> 'd) option" where
  "better_candidate ops entry best =
     (case entry of (index, candidate) \<Rightarrow>
       case best of
         Some (i, v) \<Rightarrow>
           if d_le ops (wr_objective (cr_training candidate)) v then Some (i, v)
           else Some (index, wr_objective (cr_training candidate))
       | None \<Rightarrow> Some (index, wr_objective (cr_training candidate)))"

definition best_training_candidate :: "'d decimal_ops \<Rightarrow> 'd candidate_result list \<Rightarrow> nat option" where
  "best_training_candidate ops candidates =
     map_option fst (fold (better_candidate ops) (enumerate 0 candidates) None)"

definition calibration_record_new ::
  "'d decimal_ops \<Rightarrow> content_hash \<Rightarrow> effective_period \<Rightarrow> effective_period \<Rightarrow> calibration_objective \<Rightarrow>
   'd parameter_grid \<Rightarrow> 'd candidate_result list \<Rightarrow> nat \<Rightarrow> 'd calibration_record domain_result" where
  "calibration_record_new ops base_policy training validation objective grid candidates selected =
     and_then (check_windows training validation) (\<lambda>_.
     if best_training_candidate ops candidates \<noteq> Some selected then Err InvalidValue
     else Ok \<lparr>cb_base_policy = base_policy, cb_training = training, cb_validation = validation,
              cb_objective = objective, cb_grid = grid, cb_candidates = candidates, cb_selected = selected\<rparr>)"

text \<open>The index is in range for a record that the constructor accepted.\<close>

definition selected_candidate :: "'d calibration_record \<Rightarrow> 'd candidate_result" where
  "selected_candidate r = cb_candidates r ! cb_selected r"

section \<open>The selection\<close>

abbreviation training_objective :: "'d candidate_result \<Rightarrow> 'd" where
  "training_objective c \<equiv> wr_objective (cr_training c)"

text \<open>\<open>k\<close> is the first index with the greatest objective.\<close>

definition first_best :: "rat candidate_result list \<Rightarrow> nat \<Rightarrow> bool" where
  "first_best cs k \<longleftrightarrow> k < length cs \<and>
     (\<forall>j < length cs. training_objective (cs ! j) \<le> training_objective (cs ! k)) \<and>
     (\<forall>j < k. training_objective (cs ! j) < training_objective (cs ! k))"

lemma better_candidate_simps [simp]:
  "better_candidate rat_ops (i, c) None = Some (i, training_objective c)"
  "better_candidate rat_ops (i, c) (Some (j, v)) = (if training_objective c \<le> v then Some (j, v) else Some (i, training_objective c))"
  by (simp_all add: better_candidate_def)

lemma best_fold_spec:
  assumes "cs \<noteq> []"
  shows "\<exists>k. first_best cs k \<and>
    fold (better_candidate rat_ops) (enumerate 0 cs) None = Some (k, training_objective (cs ! k))"
  using assms
proof (induction cs rule: rev_nonempty_induct)
  case (single c)
  then show ?case by (auto simp: first_best_def)
next
  case (snoc c cs)
  then obtain k where k: "first_best cs k"
    and fold: "fold (better_candidate rat_ops) (enumerate 0 cs) None = Some (k, training_objective (cs ! k))"
    by blast
  show ?case
  proof (cases "training_objective c \<le> training_objective (cs ! k)")
    case True
    then show ?thesis
      using k fold by (intro exI [of _ k])
        (auto simp: first_best_def enumerate_append_eq nth_append less_Suc_eq)
  next
    case False
    then have "first_best (cs @ [c]) (length cs)"
      using k by (auto simp: first_best_def nth_append less_Suc_eq not_le intro: le_less_trans less_imp_le)
    with False show ?thesis
      using fold by (intro exI [of _ "length cs"]) (auto simp: enumerate_append_eq)
  qed
qed

lemma first_best_unique: "first_best cs k \<Longrightarrow> first_best cs m \<Longrightarrow> k = m"
  unfolding first_best_def by (metis leD linorder_neqE_nat)

lemma best_first_best: "best_training_candidate rat_ops candidates = Some k \<longleftrightarrow> first_best candidates k"
proof (cases "candidates = []")
  case True
  then show ?thesis by (simp add: best_training_candidate_def first_best_def)
next
  case False
  then obtain m where m: "first_best candidates m" "best_training_candidate rat_ops candidates = Some m"
    using best_fold_spec [of candidates] by (auto simp: best_training_candidate_def)
  then show ?thesis using first_best_unique by auto
qed

text \<open>
  The candidate that calibration selects is the first one whose training
  objective is greatest; without candidates there is none. Validation results play no part.
\<close>

theorem best_training_first:
  "best_training_candidate rat_ops candidates = Some k \<longleftrightarrow>
     k < length candidates \<and>
     (\<forall>j < length candidates. wr_objective (cr_training (candidates ! j)) \<le> wr_objective (cr_training (candidates ! k))) \<and>
     (\<forall>j < k. wr_objective (cr_training (candidates ! j)) < wr_objective (cr_training (candidates ! k)))"
  unfolding best_first_best first_best_def ..

text \<open>In any arithmetic the choice is an index of the list and reads the training objectives only.\<close>

lemma best_training_range: "best_training_candidate ops cs = Some k \<Longrightarrow> k < length cs"
proof -
  have "i < n + length cs"
    if "fold (better_candidate ops) (enumerate n cs) best = Some (i, v)" "\<forall>(j, w) \<in> set_option best. j < n" for n best i v
    using that
  proof (induction cs arbitrary: n best)
    case (Cons c cs)
    have "\<forall>(j, w) \<in> set_option (better_candidate ops (n, c) best). j < Suc n"
      using Cons.prems(2) by (auto simp: better_candidate_def split: option.splits)
    then show ?case using Cons.IH [of "Suc n" "better_candidate ops (n, c) best"] Cons.prems(1) by simp
  qed auto
  from this [of 0 None] show "best_training_candidate ops cs = Some k \<Longrightarrow> k < length cs"
    by (auto simp: best_training_candidate_def)
qed

lemma best_training_cong:
  assumes "map cr_training cs = map cr_training cs'"
  shows "best_training_candidate ops cs = best_training_candidate ops cs'"
proof -
  have "fold (better_candidate ops) (enumerate n cs) best = fold (better_candidate ops) (enumerate n cs') best" for n best
    using assms
  proof (induction cs arbitrary: cs' n best)
    case (Cons c cs)
    then obtain c' ds where cs': "cs' = c' # ds" "cr_training c' = cr_training c" "map cr_training cs = map cr_training ds"
      by (cases cs') auto
    then have "better_candidate ops (n, c') best = better_candidate ops (n, c) best"
      by (simp add: better_candidate_def split: option.split)
    with Cons.IH [OF cs'(3)] show ?case by (simp add: cs'(1))
  qed simp
  then show ?thesis by (simp add: best_training_candidate_def)
qed

section \<open>The candidates\<close>

text \<open>The base parameters with one value assigned to every name.\<close>

definition overlay :: "'d parameters \<Rightarrow> string list \<Rightarrow> 'd list \<Rightarrow> 'd parameters" where
  "overlay base names values = fold (\<lambda>(n, v) m. bt_insert n v m) (zip names values) base"

lemma extend_all:
  "fold extend_candidates grid cs =
     concat (map (\<lambda>c. map (overlay c (map fst grid)) (product_lists (map snd grid))) cs)"
proof (induction grid arbitrary: cs)
  case Nil
  then show ?case by (simp add: overlay_def)
next
  case (Cons axis grid)
  obtain name vs where axis: "axis = (name, vs)" by (cases axis)
  have each: "concat (map F (concat (map G cs))) = concat (map (\<lambda>c. concat (map F (G c))) cs)"
    for F :: "'a parameters \<Rightarrow> 'a parameters list" and G :: "'a parameters \<Rightarrow> 'a parameters list"
    by (induction cs) auto
  have one: "concat (map (\<lambda>v. map (overlay (bt_insert name v c) (map fst grid)) ps) ws) =
      map (overlay c (name # map fst grid)) (concat (map (\<lambda>v. map ((#) v) ps) ws))" for c ws ps
    by (induction ws) (auto simp: overlay_def)
  have "extend_candidates axis cs = concat (map (\<lambda>c. map (\<lambda>v. bt_insert name v c) vs) cs)"
    by (simp add: axis extend_candidates_def)
  then show ?case by (simp add: Cons.IH axis each comp_def one)
qed

lemma overlay_inject:
  assumes "distinct names" "length vs = length names" "length ws = length names"
    and "overlay base names vs = overlay base names ws"
  shows "vs = ws"
proof -
  have get: "map_of (overlay base names xs) = map_of base ++ map_of (rev (zip names xs))" for xs
    unfolding overlay_def
    by (induction names xs arbitrary: base rule: list_induct2')
      (auto simp: map_of_append fun_eq_iff map_add_def split: option.splits)
  have "map_of (overlay base names xs) (names ! i) = Some (xs ! i)" if "i < length names" "length xs = length names" for xs i
  proof -
    have "map_of (rev (zip names xs)) (names ! i) = Some (xs ! i)"
      using that assms(1) by (intro map_of_is_SomeI) (auto simp: set_zip rev_map [symmetric])
    then show ?thesis by (simp add: get)
  qed
  then show ?thesis using assms by (intro nth_equalityI) (metis option.inject)+
qed


lemma distinct_remdups_adj_sorted: "sorted xs \<Longrightarrow> distinct (remdups_adj (xs :: 'a::linorder list))"
  by (induction xs rule: remdups_adj.induct) auto

lemma rat_unique_values:
  "length (d_dedup rat_ops (d_sort rat_ops vs)) = length vs \<longleftrightarrow> distinct vs"
proof -
  have insort: "d_insort rat_ops x ys = insort x ys" for x ys by (induction ys) auto
  then have sort: "d_sort rat_ops vs = sort vs" by (simp add: d_sort_def sort_key_def insort [abs_def])
  have dedup: "d_dedup rat_ops ys = remdups_adj ys" for ys
    by (induction ys rule: remdups_adj.induct) auto
  have "distinct (remdups_adj (sort vs))" by (rule distinct_remdups_adj_sorted) simp
  then have "length (remdups_adj (sort vs)) = card (set vs)" by (metis distinct_card remdups_adj_set set_sort)
  then show ?thesis unfolding sort dedup by (metis card_distinct distinct_card)
qed

lemma check_axes_Ok:
  assumes "try_fold (check_axis rat_ops) axes n = Ok m" "n \<le> MAX_CALIBRATION_CANDIDATES"
  shows "m = n * prod_list (map (\<lambda>(_, vs). length vs) axes) \<and> m \<le> MAX_CALIBRATION_CANDIDATES \<and>
    (\<forall>(_, vs) \<in> set axes. vs \<noteq> [] \<and> distinct vs)"
  using assms
proof (induction axes arbitrary: n)
  case (Cons axis axes)
  obtain name vs where axis: "axis = (name, vs)" by (cases axis)
  have step: "check_axis rat_ops (name, vs) n = Ok k \<longleftrightarrow> \<not> blank_or_padded name \<and> vs \<noteq> [] \<and> distinct vs \<and>
      k = n * length vs \<and> k \<le> MAX_CALIBRATION_CANDIDATES" for k
    by (auto simp: check_axis_def rat_unique_values)
  have "vs \<noteq> []" "distinct vs" "n * length vs \<le> MAX_CALIBRATION_CANDIDATES"
    and rest: "try_fold (check_axis rat_ops) axes (n * length vs) = Ok m"
    using Cons.prems(1) by (auto simp: axis and_then_eq_Ok step)
  with Cons.IH [OF rest] show ?case by (simp add: axis mult.assoc)
qed simp

text \<open>
  The candidates of an accepted grid are the cartesian product of its
  axes, in name order with the values in the given order, each laid over the base parameters;
  they are all different, at least one and at most 1024.
\<close>

theorem grid_candidates_exact:
  assumes "parameter_grid_new rat_ops axes = Ok grid" "bt_ok axes"
  shows "grid_candidates grid base = map (overlay base (bt_keys grid)) (product_lists (map snd grid)) \<and>
    distinct (grid_candidates grid base) \<and>
    0 < length (grid_candidates grid base) \<and> length (grid_candidates grid base) \<le> MAX_CALIBRATION_CANDIDATES"
proof -
  have grid: "grid = axes" and fold: "\<exists>m. try_fold (check_axis rat_ops) axes 1 = Ok m"
    using assms(1) by (auto simp: parameter_grid_new_def result_simps split: if_splits)
  then obtain m where m: "try_fold (check_axis rat_ops) axes 1 = Ok m" by blast
  note axes = check_axes_Ok [OF m]
  have eq: "grid_candidates grid base = map (overlay base (bt_keys grid)) (product_lists (map snd grid))"
    by (simp add: grid_candidates_def extend_all bt_keys_def)
  have len: "length (product_lists (map snd axes)) = prod_list (map (\<lambda>(_, vs). length vs) axes)" for axes :: "(string \<times> rat list) list"
    by (induction axes) (auto simp: length_concat comp_def sum_list_triv)
  have "distinct (product_lists (map snd grid))"
    using axes by (intro distinct_product_lists) (auto simp: grid MAX_CALIBRATION_CANDIDATES_def)
  moreover have "inj_on (overlay base (bt_keys grid)) (set (product_lists (map snd grid)))"
  proof (rule inj_onI)
    fix vs ws assume vs: "vs \<in> set (product_lists (map snd grid))" and ws: "ws \<in> set (product_lists (map snd grid))"
      and "overlay base (bt_keys grid) vs = overlay base (bt_keys grid) ws"
    moreover have "distinct (bt_keys grid)" using assms(2) by (simp add: grid bt_keys_def bt_ok_def strict_sorted_iff)
    moreover have "length vs = length (bt_keys grid)" "length ws = length (bt_keys grid)"
      using in_set_product_lists_length [OF vs] in_set_product_lists_length [OF ws] by (simp_all add: bt_keys_def)
    ultimately show "vs = ws" using overlay_inject by blast
  qed
  ultimately have "distinct (grid_candidates grid base)" by (simp add: eq distinct_map)
  moreover have "0 < prod_list (map (\<lambda>(_, vs). length vs) axes)"
    if "\<forall>(_, vs) \<in> set axes. vs \<noteq> []" for axes :: "(string \<times> rat list) list"
    using that by (induction axes) auto
  ultimately show ?thesis
    using axes eq len [of axes] by (fastforce simp: grid MAX_CALIBRATION_CANDIDATES_def)
qed

theorem grid_candidates_exact_witness:
  "grid_candidates [(''a'', [1, 2]), (''b'', [3, 4 :: rat])] [(''z'', 0)] =
     map (overlay [(''z'', 0)] (bt_keys [(''a'', [1, 2]), (''b'', [3, 4 :: rat])])) (product_lists (map snd [(''a'', [1, 2]), (''b'', [3, 4])])) \<and>
   distinct (grid_candidates [(''a'', [1, 2]), (''b'', [3, 4 :: rat])] [(''z'', 0)]) \<and>
   0 < length (grid_candidates [(''a'', [1, 2]), (''b'', [3, 4 :: rat])] [(''z'', 0)]) \<and>
   length (grid_candidates [(''a'', [1, 2]), (''b'', [3, 4 :: rat])] [(''z'', 0)]) \<le> MAX_CALIBRATION_CANDIDATES"
proof (rule grid_candidates_exact)
  have "\<not> blank_or_padded ''a''" "\<not> blank_or_padded ''b''" by code_simp+
  then show "parameter_grid_new rat_ops [(''a'', [1, 2]), (''b'', [3, 4 :: rat])] = Ok [(''a'', [1, 2]), (''b'', [3, 4])]"
    by (simp add: parameter_grid_new_def check_axis_def d_sort_def MAX_CALIBRATION_CANDIDATES_def)
qed (simp add: bt_ok_def)

end
