(* ===== verification/Replay_Policy.thy ===== *)
theory Replay_Policy
  imports Replay_Ledger Calibration_Record
begin

text \<open>
  Policies and simulation results (\<open>ficant-domain/src/replay/mod.rs\<close>): the policy artifact, the
  shared evaluator interface and the built-in yield threshold policy, the result of a replay with
  its order checks, and the canonical bytes behind the policy hash and the result identity.

  The \<open>PolicyEvaluator\<close> trait is the record \<open>policy_evaluator\<close>. \<open>ds\<close> is the text form of a date.
\<close>

section \<open>Policies\<close>

record 'd policy_artifact_input =
  pi_policy_artifact_id :: ulid
  pi_owner :: owner_ref
  pi_family :: string
  pi_family_version :: u32
  pi_parameters :: "'d parameters"
  pi_universe :: "version_ref list"
  pi_frequency :: bar_frequency
  pi_settlement :: bar_settlement
  pi_valid :: effective_period
  pi_execution :: "'d execution_rules"
  pi_constraints :: "(string, constraint_handling) btree_map"
  pi_calibration :: "'d calibration_record option"

record 'd policy_artifact =
  pa_input :: "'d policy_artifact_input"
  pa_content_hash :: content_hash

text \<open>The writer \<open>Canonical\<close>: \<open>text\<close> and \<open>number\<close> are \<open>push_str\<close> and \<open>push_u64\<close>.\<close>

definition timestamp_micros :: "utc_instant \<Rightarrow> i64" where
  "timestamp_micros t = word_of_int (sint (timestamp t) * 1000000 + int (unat (timestamp_subsec_nanos t) div 1000))"

definition write_time :: "utc_instant \<Rightarrow> bytes" where
  "write_time t = to_be_bytes (timestamp_micros t)"

definition write_version_ref :: "version_ref \<Rightarrow> bytes" where
  "write_version_ref r = push_str (ulid_str (vr_id r)) @ push_u64 (version_get (vr_version r))"

definition write_amount :: "'d decimal_ops \<Rightarrow> 'd \<Rightarrow> bytes" where
  "write_amount ops a = push_str (amount_canonical ops a)"

definition write_parameter :: "'d decimal_ops \<Rightarrow> string \<times> 'd \<Rightarrow> bytes" where
  "write_parameter ops p = push_str (fst p) @ write_amount ops (snd p)"

definition write_window :: "effective_period \<Rightarrow> bytes" where
  "write_window w = write_time (mt_instant (ep_from w)) @ write_time (mt_instant (ep_to w))"

definition write_axis :: "'d decimal_ops \<Rightarrow> string \<times> 'd list \<Rightarrow> bytes" where
  "write_axis ops axis = push_str (fst axis) @ push_each (write_amount ops) (snd axis)"

definition write_window_result :: "'d decimal_ops \<Rightarrow> 'd window_result \<Rightarrow> bytes" where
  "write_window_result ops w = hash_bytes (wr_result_id w) @ write_amount ops (wr_objective w)"

definition write_candidate :: "'d decimal_ops \<Rightarrow> 'd candidate_result \<Rightarrow> bytes" where
  "write_candidate ops c =
     push_each (write_parameter ops) (cr_parameters c)
     @ write_window_result ops (cr_training c) @ write_window_result ops (cr_validation c)"

definition calibration_bytes :: "'d decimal_ops \<Rightarrow> 'd calibration_record \<Rightarrow> bytes" where
  "calibration_bytes ops record =
     hash_bytes (cb_base_policy record)
     @ write_window (cb_training record) @ write_window (cb_validation record)
     @ push_str (objective_code (cb_objective record))
     @ push_each (write_axis ops) (cb_grid record)
     @ push_each (write_candidate ops) (cb_candidates record)
     @ push_u64 (word_of_nat (cb_selected record))"

definition write_handling :: "string \<times> constraint_handling \<Rightarrow> bytes" where
  "write_handling c = push_str (fst c) @ push_str (handling_code (snd c))"

definition policy_bytes :: "'d decimal_ops \<Rightarrow> 'd policy_artifact_input \<Rightarrow> bytes" where
  "policy_bytes ops input =
     push_str ''ficant-policy-artifact/v4''
     @ push_str (ulid_str (pi_policy_artifact_id input))
     @ push_str (ulid_str (tenant_id (pi_owner input)))
     @ push_str (ulid_str (owner_id (pi_owner input)))
     @ push_str (pi_family input)
     @ push_u64 (ucast (pi_family_version input))
     @ push_each (write_parameter ops) (pi_parameters input)
     @ push_each write_version_ref (pi_universe input)
     @ push_str (frequency_code (pi_frequency input))
     @ push_str (settlement_code (pi_settlement input))
     @ write_window (pi_valid input)
     @ write_amount ops (er_participation_cap (pi_execution input))
     @ push_str (remainder_handling_code (er_remainder (pi_execution input)))
     @ push_each write_handling (pi_constraints input)
     @ push_optional (calibration_bytes ops) (pi_calibration input)"

text \<open>
  Equality of parameter maps, as \<open>BTreeMap<String, ReplayAmount>\<close> compares them: the same names
  in order, numerically equal values.
\<close>

definition parameters_eq :: "'d decimal_ops \<Rightarrow> 'd parameters \<Rightarrow> 'd parameters \<Rightarrow> bool" where
  "parameters_eq ops a b \<longleftrightarrow> list_all2 (\<lambda>x y. fst x = fst y \<and> d_eq ops (snd x) (snd y)) a b"

definition policy_artifact_new ::
  "'d decimal_ops \<Rightarrow> sha256_fn \<Rightarrow> 'd policy_artifact_input \<Rightarrow> 'd policy_artifact domain_result" where
  "policy_artifact_new ops sha256 input =
     (let input = input\<lparr>pi_universe := remdups_adj (sort (pi_universe input))\<rparr> in
      if blank_or_padded (pi_family input)
        \<or> pi_family_version input = 0
        \<or> pi_universe input = []
        \<or> (\<exists>key \<in> set (bt_keys (pi_parameters input) @ bt_keys (pi_constraints input)). blank_or_padded key)
      then Err InvalidValue
      else if \<exists>record \<in> set_option (pi_calibration input).
          \<not> parameters_eq ops (cr_parameters (selected_candidate record)) (pi_parameters input)
      then Err InvalidValue
      else Ok \<lparr>pa_input = input, pa_content_hash = sha256 (policy_bytes ops input)\<rparr>)"

definition policy_parameter :: "'d policy_artifact \<Rightarrow> string \<Rightarrow> 'd option" where
  "policy_parameter p name = map_of (pi_parameters (pa_input p)) name"

text \<open>\<open>binary_search\<close> on the sorted universe finds exactly its members.\<close>

definition policy_covers :: "'d policy_artifact \<Rightarrow> bar \<Rightarrow> bool" where
  "policy_covers p b \<longleftrightarrow>
     bar_frequency b = pi_frequency (pa_input p) \<and> bar_settlement b = pi_settlement (pa_input p) \<and>
     bar_instrument b \<in> set (pi_universe (pa_input p))"

definition policy_period_contains :: "'d policy_artifact \<Rightarrow> utc_instant \<Rightarrow> bool" where
  "policy_period_contains p instant \<longleftrightarrow>
     mt_instant (ep_from (pi_valid (pa_input p))) \<le> instant \<and> instant < mt_instant (ep_to (pi_valid (pa_input p)))"

section \<open>Evaluators\<close>

datatype policy_error = MissingParameter string | UnsupportedFamily

record 'd policy_evaluator =
  pe_family :: string
  pe_family_version :: u32
  pe_decide :: "'d policy_artifact \<Rightarrow> point_in_time_view \<Rightarrow> 'd simulated_book \<Rightarrow>
    ('d target_exposure, policy_error) result"

definition YIELD_THRESHOLD_FAMILY :: string where
  "YIELD_THRESHOLD_FAMILY = ''ficant.policy.yield-threshold''"

definition yield_threshold_face ::
  "'d decimal_ops \<Rightarrow> 'd policy_artifact \<Rightarrow> point_in_time_view \<Rightarrow> 'd simulated_book \<Rightarrow> 'd \<Rightarrow> 'd \<Rightarrow> 'd \<Rightarrow>
   version_ref \<Rightarrow> 'd" where
  "yield_threshold_face ops policy view book entry exit target_face instrument =
     (let current = position_of ops book instrument in
      case latest_with_yield view instrument (pi_frequency (pa_input policy)) (pi_settlement (pa_input policy)) of
        None \<Rightarrow> current
      | Some b \<Rightarrow>
          let yield_now = (case bar_close_yield b of None \<Rightarrow> d_zero ops | Some y \<Rightarrow> amount_of ops y) in
          if d_le ops entry yield_now then target_face
          else if d_le ops yield_now exit then d_zero ops
          else current)"

definition yield_threshold_decide ::
  "'d decimal_ops \<Rightarrow> 'd policy_artifact \<Rightarrow> point_in_time_view \<Rightarrow> 'd simulated_book \<Rightarrow>
   ('d target_exposure, policy_error) result" where
  "yield_threshold_decide ops policy view book =
     (if pi_family (pa_input policy) \<noteq> YIELD_THRESHOLD_FAMILY \<or> pi_family_version (pa_input policy) \<noteq> 1
      then Err UnsupportedFamily
      else
        let parameter = (\<lambda>name. ok_or (policy_parameter policy name) (MissingParameter name)) in
        and_then (parameter ''entry_yield'') (\<lambda>entry.
        and_then (parameter ''exit_yield'') (\<lambda>exit.
        and_then (parameter ''target_face'') (\<lambda>target_face.
        Ok (fold (\<lambda>instrument target.
              target_set instrument (yield_threshold_face ops policy view book entry exit target_face instrument) target)
            (pi_universe (pa_input policy)) [])))))"

definition yield_threshold_policy :: "'d decimal_ops \<Rightarrow> 'd policy_evaluator" where
  "yield_threshold_policy ops =
     \<lparr>pe_family = YIELD_THRESHOLD_FAMILY, pe_family_version = 1, pe_decide = yield_threshold_decide ops\<rparr>"

section \<open>Results\<close>

record 'd replay_decision =
  rd_decision_time :: utc_instant
  rd_inputs_visible_through :: "utc_instant option"
  rd_input_bar_count :: nat
  rd_target :: "'d target_exposure"

datatype lineage_role =
  PolicyRole | DataSnapshotRole | SubjectRole | SubjectStateRole | ConstraintSetRole | FundingRulePackRole | CouponDataRole

record replay_lineage =
  rl_role :: lineage_role
  rl_reference :: lineage_ref

definition write_ceiling :: "limit_ceiling \<Rightarrow> bytes" where
  "write_ceiling c = push_str (lc_limit_code c) @ push_str (dv_coefficient (lc_ceiling c)) @ push_u64 (ucast (dv_scale (lc_ceiling c)))"

definition subject_state_bytes :: "subject_state_snapshot \<Rightarrow> bytes" where
  "subject_state_bytes state =
     push_str ''ficant-subject-state-snapshot/v1''
     @ push_str (ulid_str (ss_snapshot_id state))
     @ write_version_ref (ss_subject_ref state)
     @ push_str (dv_coefficient (ss_net_capital state))
     @ push_u64 (ucast (dv_scale (ss_net_capital state)))
     @ push_each write_ceiling (sort_key lc_limit_code (ss_limit_ceilings state))
     @ write_time (ss_observed_at state)
     @ write_time (ss_visible_at state)
     @ push_str (ss_market_timezone state)"

definition subject_state_hash :: "sha256_fn \<Rightarrow> subject_state_snapshot \<Rightarrow> content_hash" where
  "subject_state_hash sha256 state = sha256 (subject_state_bytes state)"

record 'd replay_identity =
  ri_policy_id :: ulid
  ri_policy :: content_hash
  ri_data_snapshot :: ulid
  ri_data_snapshot_content :: content_hash
  ri_subject :: version_ref
  ri_subject_state :: ulid
  ri_subject_state_content :: content_hash
  ri_constraint_set :: "version_ref option"
  ri_constraints :: "'d replay_constraint list"
  ri_funding :: "'d replay_funding"
  ri_carry_source :: version_ref
  ri_carry :: content_hash
  ri_cost_model :: string
  ri_cost_parameters :: "'d parameters"
  ri_seed :: u64
  ri_code :: content_hash
  ri_runtime :: content_hash

record 'd simulation_result =
  sm_result_id :: content_hash
  sm_identity :: "'d replay_identity"
  sm_decisions :: "'d replay_decision list"
  sm_fills :: "'d simulated_fill list"
  sm_pnl :: "'d bar_pnl list"
  sm_book :: "'d simulated_book"

fun tier_code :: "funding_tier \<Rightarrow> string" where
  "tier_code DrAvailable = ''DR_AVAILABLE''"
| "tier_code ROnly = ''R_ONLY''"

fun price_source_code :: "price_source_type \<Rightarrow> string" where
  "price_source_code RealTrade = ''REAL_TRADE''"
| "price_source_code ActiveQuote = ''ACTIVE_QUOTE''"
| "price_source_code ModelValuation = ''MODEL_VALUATION''"
| "price_source_code CurveInterpolation = ''CURVE_INTERPOLATION''"

definition write_constraint :: "'d decimal_ops \<Rightarrow> 'd replay_constraint \<Rightarrow> bytes" where
  "write_constraint ops c =
     push_str (rc_limit_code c) @ push_str (measure_code (rc_measure c))
     @ write_amount ops (rc_ceiling c) @ push_str (handling_code (rc_handling c))"

definition identity_bytes :: "'d decimal_ops \<Rightarrow> 'd replay_identity \<Rightarrow> bytes" where
  "identity_bytes ops i =
     push_str (ulid_str (ri_policy_id i)) @ hash_bytes (ri_policy i)
     @ push_str (ulid_str (ri_data_snapshot i)) @ hash_bytes (ri_data_snapshot_content i)
     @ write_version_ref (ri_subject i)
     @ push_str (ulid_str (ri_subject_state i)) @ hash_bytes (ri_subject_state_content i)
     @ push_optional write_version_ref (ri_constraint_set i)
     @ push_each (write_constraint ops) (ri_constraints i)
     @ write_version_ref (rf_rule_pack (ri_funding i))
     @ push_str (tier_code (rf_tier (ri_funding i)))
     @ write_amount ops (rf_annual_rate (ri_funding i))
     @ push_u64 (ucast (rf_day_basis (ri_funding i)))
     @ write_version_ref (ri_carry_source i) @ hash_bytes (ri_carry i)
     @ push_str (ri_cost_model i)
     @ push_each (write_parameter ops) (ri_cost_parameters i)
     @ push_u64 (ri_seed i) @ hash_bytes (ri_code i) @ hash_bytes (ri_runtime i)"

definition write_holding :: "'d decimal_ops \<Rightarrow> version_ref \<times> 'd \<Rightarrow> bytes" where
  "write_holding ops p = write_version_ref (fst p) @ write_amount ops (snd p)"

definition decision_bytes :: "'d decimal_ops \<Rightarrow> 'd replay_decision \<Rightarrow> bytes" where
  "decision_bytes ops d =
     write_time (rd_decision_time d) @ push_optional write_time (rd_inputs_visible_through d)
     @ push_u64 (word_of_nat (rd_input_bar_count d)) @ push_each (write_holding ops) (rd_target d)"

definition remainder_bytes :: "'d decimal_ops \<Rightarrow> 'd remainder \<Rightarrow> bytes" where
  "remainder_bytes ops r =
     write_amount ops (rm_quantity r) @ push_str (no_fill_code (rm_reason r))
     @ push_str (remainder_outcome_code (rm_outcome r))"

definition outcome_bytes :: "'d decimal_ops \<Rightarrow> 'd constraint_outcome \<Rightarrow> bytes" where
  "outcome_bytes ops oc =
     write_amount ops (co_unconstrained oc) @ push_each push_str (co_triggered oc)
     @ push_str (constraint_action_code (co_action oc))"

definition fill_bytes :: "'d decimal_ops \<Rightarrow> 'd simulated_fill \<Rightarrow> bytes" where
  "fill_bytes ops f =
     write_time (sf_decision_time f) @ write_version_ref (sf_instrument f)
     @ write_amount ops (sf_requested f) @ write_amount ops (sf_quantity f)
     @ push_optional (write_amount ops) (sf_limit f) @ write_time (sf_effective_at f)
     @ push_optional push_str (sf_execution_bar f) @ push_optional (write_amount ops) (sf_price f)
     @ push_optional (\<lambda>b. push_str (basis_code b)) (sf_basis f)
     @ push_str (price_source_code (sf_price_source f))
     @ push_optional (\<lambda>r. push_str (no_fill_code r)) (sf_no_fill f)
     @ push_optional (remainder_bytes ops) (sf_remainder f)
     @ push_optional (outcome_bytes ops) (sf_constraint f)"

definition instrument_pnl_bytes :: "'d decimal_ops \<Rightarrow> version_ref \<times> 'd instrument_pnl \<Rightarrow> bytes" where
  "instrument_pnl_bytes ops entry =
     (case entry of (instrument, item) \<Rightarrow>
       write_version_ref instrument @ write_amount ops (ip_position_start item)
       @ write_amount ops (ip_position_end item) @ write_amount ops (ip_mark item)
       @ write_amount ops (ip_accrued_interest item) @ write_amount ops (ip_price item)
       @ write_amount ops (ip_coupon item) @ write_amount ops (ip_transaction_cost item))"

definition pnl_bytes :: "(naive_date \<Rightarrow> string) \<Rightarrow> 'd decimal_ops \<Rightarrow> 'd bar_pnl \<Rightarrow> bytes" where
  "pnl_bytes ds ops row =
     write_time (pl_bar_start row) @ write_time (pl_bar_end row) @ write_time (pl_known_at row)
     @ push_str (ds (pl_trading_date row))
     @ push_each (instrument_pnl_bytes ops) (pl_instruments row)
     @ write_amount ops (pl_funding row) @ write_amount ops (pl_total row)
     @ write_amount ops (pl_cash row) @ write_amount ops (pl_equity row)"

definition simulation_bytes ::
  "(naive_date \<Rightarrow> string) \<Rightarrow> 'd decimal_ops \<Rightarrow> 'd replay_identity \<Rightarrow> 'd replay_decision list \<Rightarrow>
   'd simulated_fill list \<Rightarrow> 'd bar_pnl list \<Rightarrow> 'd simulated_book \<Rightarrow> bytes" where
  "simulation_bytes ds ops identity decisions fills pnl book =
     push_str ''ficant-simulation-result/v3''
     @ identity_bytes ops identity
     @ push_each (decision_bytes ops) decisions
     @ push_each (fill_bytes ops) fills
     @ push_each (pnl_bytes ds ops) pnl
     @ push_each (write_holding ops) (sb_positions book)
     @ write_amount ops (sb_cash book)"

definition simulation_result_new ::
  "(naive_date \<Rightarrow> string) \<Rightarrow> 'd decimal_ops \<Rightarrow> sha256_fn \<Rightarrow> 'd replay_identity \<Rightarrow> 'd replay_decision list \<Rightarrow>
   'd simulated_fill list \<Rightarrow> 'd bar_pnl list \<Rightarrow> 'd simulated_book \<Rightarrow> 'd simulation_result domain_result" where
  "simulation_result_new ds ops sha256 identity decisions fills pnl book =
     (let ordered =
            \<not> windows2_any (\<lambda>a b. \<not> rd_decision_time a < rd_decision_time b) decisions \<and>
            \<not> windows2_any (\<lambda>a b. \<not> (sf_effective_at a, sf_instrument a) \<le> (sf_effective_at b, sf_instrument b)) fills \<and>
            \<not> windows2_any (\<lambda>a b. \<not> pl_bar_end a < pl_bar_end b) pnl;
          visible = (\<forall>d \<in> set decisions. \<forall>time \<in> set_option (rd_inputs_visible_through d). time \<le> rd_decision_time d)
      in if \<not> ordered \<or> \<not> visible then Err InvalidValue
         else Ok \<lparr>sm_result_id = sha256 (simulation_bytes ds ops identity decisions fills pnl book),
                  sm_identity = identity, sm_decisions = decisions, sm_fills = fills, sm_pnl = pnl,
                  sm_book = book\<rparr>)"

definition result_lineage :: "'d simulation_result \<Rightarrow> replay_lineage list" where
  "result_lineage r =
     (let i = sm_identity r;
          versioned = (\<lambda>v. lineage_ref_versioned (vr_id v) (vr_version v))
      in [\<lparr>rl_role = PolicyRole, rl_reference = lineage_ref_content_addressed (ri_policy_id i) (ri_policy i)\<rparr>,
          \<lparr>rl_role = DataSnapshotRole,
           rl_reference = lineage_ref_content_addressed (ri_data_snapshot i) (ri_data_snapshot_content i)\<rparr>,
          \<lparr>rl_role = SubjectRole, rl_reference = versioned (ri_subject i)\<rparr>,
          \<lparr>rl_role = SubjectStateRole,
           rl_reference = lineage_ref_content_addressed (ri_subject_state i) (ri_subject_state_content i)\<rparr>]
         @ (case ri_constraint_set i of
              Some c \<Rightarrow> [\<lparr>rl_role = ConstraintSetRole, rl_reference = versioned c\<rparr>] | None \<Rightarrow> [])
         @ [\<lparr>rl_role = FundingRulePackRole, rl_reference = versioned (rf_rule_pack (ri_funding i))\<rparr>,
            \<lparr>rl_role = CouponDataRole,
             rl_reference =
               (case lineage_ref_new (vr_id (ri_carry_source i)) (Some (vr_version (ri_carry_source i))) (Some (ri_carry i)) of
                  Ok r \<Rightarrow> r | Err _ \<Rightarrow> versioned (ri_carry_source i))\<rparr>])"

text \<open>The part of a result fixed by time \<open>t\<close>.\<close>

definition result_through ::
  "utc_instant \<Rightarrow> 'd simulation_result \<Rightarrow> 'd replay_decision list \<times> 'd simulated_fill list \<times> 'd bar_pnl list" where
  "result_through t r =
     (filter (\<lambda>d. rd_decision_time d \<le> t) (sm_decisions r),
      filter (\<lambda>f. sf_effective_at f \<le> t) (sm_fills r),
      filter (\<lambda>row. pl_known_at row \<le> t) (sm_pnl r))"

end
