(* ===== verification/Bar_Replay.thy ===== *)
theory Bar_Replay
  imports Replay_Policy
begin

text \<open>
  The replay loop (\<open>ficant-application/src/use_cases/bar_replay.rs\<close>): decisions at the visibility
  times of the covered bars, trades that execute bar by bar from the first bar that starts at or
  after the decision, and one ledger step per bar end.

  The data port (\<open>PointInTimeBars\<close>) is the record \<open>point_in_time_bars\<close>. \<open>InvalidRequest\<close> is the
  error \<open>invalid()\<close> of the module, \<open>PortError\<close> an error of the port passed through. Methods that
  take \<open>&mut self\<close> return the changed state; after an error the replay is abandoned.
\<close>

section \<open>Requests\<close>

datatype 'e bar_replay_error = InvalidRequest | PortError 'e

record 'e point_in_time_bars =
  pb_snapshot :: "ulid \<times> content_hash"
  pb_price_source_type :: price_source_type
  pb_all_bars :: "bar list"
  pb_visible_at :: "utc_instant \<Rightarrow> (bar list, 'e) result"

record ('d, 'e) bar_replay_request =
  rq_policy :: "'d policy_artifact"
  rq_evaluator :: "'d policy_evaluator"
  rq_data :: "'e point_in_time_bars"
  rq_subject :: subject_version
  rq_subject_state :: subject_state_snapshot
  rq_constraints :: "constraint_set option"
  rq_funding :: "'d replay_funding"
  rq_carry :: "'d bond_carry"
  rq_cost_model :: string
  rq_cost_parameters :: "'d parameters"
  rq_seed :: u64
  rq_code :: content_hash
  rq_runtime :: content_hash

abbreviation or_invalid :: "('a, 'x) result \<Rightarrow> ('a, 'e bar_replay_error) result" where
  "or_invalid r \<equiv> map_err (\<lambda>_. InvalidRequest) r"

definition enforced_constraints ::
  "'d decimal_ops \<Rightarrow> ('d, 'e) bar_replay_request \<Rightarrow> utc_instant \<Rightarrow>
   ('d replay_constraint list, 'e bar_replay_error) result" where
  "enforced_constraints ops request first_decision =
     (let bound = sv_constraint_set_ref (rq_subject request); state = rq_subject_state request in
      if ss_subject_ref state \<noteq> sv_reference (rq_subject request)
        \<or> ss_visible_at state > first_decision
        \<or> bound \<noteq> map_option cs_rule_pack (rq_constraints request)
      then Err InvalidRequest
      else case rq_constraints request of
        None \<Rightarrow> Ok []
      | Some s \<Rightarrow> or_invalid (bind_constraints ops s (sv_reference (rq_subject request)) state
                    (pi_constraints (pa_input (rq_policy request)))))"

definition replay_identity_of ::
  "sha256_fn \<Rightarrow> ('d, 'e) bar_replay_request \<Rightarrow> 'd replay_constraint list \<Rightarrow> 'd replay_identity" where
  "replay_identity_of sha256 request constraints =
     \<lparr>ri_policy_id = pi_policy_artifact_id (pa_input (rq_policy request)),
      ri_policy = pa_content_hash (rq_policy request),
      ri_data_snapshot = fst (pb_snapshot (rq_data request)),
      ri_data_snapshot_content = snd (pb_snapshot (rq_data request)),
      ri_subject = sv_reference (rq_subject request),
      ri_subject_state = ss_snapshot_id (rq_subject_state request),
      ri_subject_state_content = subject_state_hash sha256 (rq_subject_state request),
      ri_constraint_set = map_option cs_rule_pack (rq_constraints request),
      ri_constraints = constraints,
      ri_funding = rq_funding request,
      ri_carry_source = cy_source (rq_carry request),
      ri_carry = cy_identity (rq_carry request),
      ri_cost_model = rq_cost_model request,
      ri_cost_parameters = rq_cost_parameters request,
      ri_seed = rq_seed request,
      ri_code = rq_code request,
      ri_runtime = rq_runtime request\<rparr>"

section \<open>The loop\<close>

record 'd pending_trade =
  pt_decision_time :: utc_instant
  pt_instrument :: version_ref
  pt_intent :: 'd
  pt_remaining :: 'd
  pt_bars :: "bar list"

record 'd replay_state =
  rs_ledger :: "'d replay_ledger"
  rs_steps :: "(utc_instant \<times> bar list) list"
  rs_pending :: "'d pending_trade list"
  rs_fills :: "'d simulated_fill list"
  rs_constraints :: "'d replay_constraint list"
  rs_rules :: "'d execution_rules"
  rs_price_source :: price_source_type

definition register ::
  "'d decimal_ops \<Rightarrow> utc_instant \<Rightarrow> version_ref \<Rightarrow> 'd \<Rightarrow> bar list \<Rightarrow> 'd replay_state \<Rightarrow> 'd replay_state" where
  "register ops decision_time instrument quantity bars s =
     (if bars = [] then
        s\<lparr>rs_fills := rs_fills s @ [no_later_bar ops decision_time instrument quantity decision_time (rs_price_source s)]\<rparr>
      else
        s\<lparr>rs_pending := rs_pending s @
          [\<lparr>pt_decision_time = decision_time, pt_instrument = instrument, pt_intent = quantity,
            pt_remaining = quantity, pt_bars = bars\<rparr>]\<rparr>)"

text \<open>The attempt of \<open>execute_due\<close>: participation cap first, then the constraints on the current book.\<close>

definition constrained_attempt ::
  "'d decimal_ops \<Rightarrow> 'd pending_trade \<Rightarrow> bar \<Rightarrow> 'd \<Rightarrow> 'd replay_state \<Rightarrow> 'd simulated_fill domain_result" where
  "constrained_attempt ops trade b used s =
     (let attempt = attempt_in_bar ops (pt_decision_time trade) (pt_instrument trade) (pt_remaining trade) b used
            (rs_rules s) (rs_price_source s) in
      case (sf_price attempt, d_is_zero ops (sf_quantity attempt)) of
        (Some price, False) \<Rightarrow>
          and_then (ledger_context ops (pt_instrument trade) price (rs_ledger s)) (\<lambda>context.
          case check_execution ops (rs_constraints s) context (sf_quantity attempt) of
            (allowed, Some outcome) \<Rightarrow> Ok (constrain ops allowed outcome attempt)
          | (_, None) \<Rightarrow> Ok attempt)
      | _ \<Rightarrow> Ok attempt)"

definition used_in :: "'d decimal_ops \<Rightarrow> (string, 'd) btree_map \<Rightarrow> string \<Rightarrow> 'd" where
  "used_in ops used record = (case map_of used record of None \<Rightarrow> d_zero ops | Some u \<Rightarrow> u)"

definition execute_due ::
  "'d decimal_ops \<Rightarrow> utc_instant \<Rightarrow> 'd pending_trade \<Rightarrow> (string, 'd) btree_map \<Rightarrow> 'd replay_state \<Rightarrow>
   ('d pending_trade \<times> (string, 'd) btree_map \<times> 'd replay_state) domain_result" where
  "execute_due ops step_end trade used s =
     (case pt_bars trade of
        [] \<Rightarrow> Ok (trade, used, s)
      | b # bars \<Rightarrow>
          if bar_end b \<noteq> step_end \<or> d_is_zero ops (pt_remaining trade) then Ok (trade, used, s)
          else
            and_then (constrained_attempt ops trade b (used_in ops used (source_record_id b)) s) (\<lambda>attempt.
            and_then (settle ops attempt (rs_ledger s)) (\<lambda>ledger.
            let used = bt_insert (source_record_id b)
                  (amount_plus ops (used_in ops used (source_record_id b)) (d_abs ops (sf_quantity attempt))) used;
                remaining = amount_minus ops (pt_remaining trade) (sf_quantity attempt);
                carried = (\<exists>r \<in> set_option (sf_remainder attempt). rm_outcome r = CarriedRemainder);
                fills = rs_fills s @ [attempt] @
                  (if carried \<and> bars = []
                   then [no_later_bar ops (pt_decision_time trade) (pt_instrument trade) remaining
                           (sf_effective_at attempt) (rs_price_source s)] else []);
                trade =
                  (if carried \<and> bars \<noteq> []
                   then trade\<lparr>pt_intent := remaining, pt_remaining := remaining, pt_bars := bars\<rparr>
                   else trade\<lparr>pt_intent := d_zero ops, pt_remaining := d_zero ops, pt_bars := []\<rparr>)
            in Ok (trade, used, s\<lparr>rs_ledger := ledger, rs_fills := fills\<rparr>))))"

definition execute_pending ::
  "'d decimal_ops \<Rightarrow> utc_instant \<Rightarrow> 'd pending_trade \<Rightarrow>
   'd pending_trade list \<times> (string, 'd) btree_map \<times> 'd replay_state \<Rightarrow>
   ('d pending_trade list \<times> (string, 'd) btree_map \<times> 'd replay_state) domain_result" where
  "execute_pending ops step_end trade acc =
     (case acc of (executed, used, s) \<Rightarrow>
       and_then (execute_due ops step_end trade used s) (\<lambda>(trade, used, s).
       Ok (executed @ [trade], used, s)))"

text \<open>One iteration of \<open>advance\<close>: opens the step, executes what is due in it, books its row.\<close>

definition advance_step ::
  "'d decimal_ops \<Rightarrow> chrono_ops \<Rightarrow> utc_instant \<Rightarrow> bar list \<Rightarrow> 'd replay_state \<Rightarrow> 'd replay_state domain_result" where
  "advance_step ops ch step_end bars s =
     and_then (open_step ops ch bars (rs_ledger s)) (\<lambda>ledger.
     and_then (try_fold (execute_pending ops step_end) (rs_pending s) ([], [], s\<lparr>rs_ledger := ledger, rs_pending := []\<rparr>))
       (\<lambda>(pending, _, s).
     and_then (finish_step ops (rs_ledger s)) (\<lambda>ledger.
     Ok (s\<lparr>rs_ledger := ledger, rs_pending := filter (\<lambda>t. \<not> d_is_zero ops (pt_remaining t)) pending\<rparr>))))"

text \<open>The loop of \<open>advance\<close> over the steps left: stops before a step that ends after \<open>until\<close>.\<close>

fun advance_steps ::
  "'d decimal_ops \<Rightarrow> chrono_ops \<Rightarrow> utc_instant option \<Rightarrow> (utc_instant \<times> bar list) list \<Rightarrow> 'd replay_state \<Rightarrow>
   'd replay_state domain_result" where
  "advance_steps ops ch until [] s = Ok s"
| "advance_steps ops ch until ((step_end, bars) # steps) s =
     (if \<exists>limit \<in> set_option until. step_end > limit then Ok s
      else and_then (advance_step ops ch step_end bars (s\<lparr>rs_steps := steps\<rparr>)) (advance_steps ops ch until steps))"

definition advance ::
  "'d decimal_ops \<Rightarrow> chrono_ops \<Rightarrow> utc_instant option \<Rightarrow> 'd replay_state \<Rightarrow> 'd replay_state domain_result" where
  "advance ops ch until s = advance_steps ops ch until (rs_steps s) s"

definition fill_key :: "'d simulated_fill \<Rightarrow> utc_instant \<times> version_ref \<times> utc_instant" where
  "fill_key f = (sf_effective_at f, sf_instrument f, sf_decision_time f)"

definition replay_finish ::
  "'d replay_state \<Rightarrow> 'd simulated_fill list \<times> 'd simulated_book \<times> 'd bar_pnl list" where
  "replay_finish s = (sort_key fill_key (rs_fills s), lg_book (rs_ledger s), lg_rows (rs_ledger s))"

section \<open>The data port\<close>

text \<open>
  The contract of the port: a read at a decision time returns the bars visible by then, in the
  snapshot's order, or fails. \<open>VerifiedBarSnapshot\<close> of \<open>ficant-data\<close> provides it.
\<close>

locale point_in_time_port =
  fixes data :: "'e point_in_time_bars"
  assumes serves: "pb_visible_at data d = Ok bars \<Longrightarrow> bars = filter (\<lambda>b. bar_visible_at b \<le> d) (pb_all_bars data)"
begin

text \<open>The view of a decision accepts whatever part of the read a policy covers.\<close>

lemma view_accepts:
  "pb_visible_at data d = Ok bars \<Longrightarrow>
     point_in_time_view_new d (filter P bars) = Ok \<lparr>pit_decision_time = d, pit_bars = filter P bars\<rparr>"
  using serves by (fastforce simp: point_in_time_view_new_def)

lemma inputs_visible:
  assumes "pb_visible_at data d = Ok bars" "filter P bars \<noteq> []"
  shows "Max (bar_visible_at ` set (filter P bars)) \<le> d"
proof -
  have "bar_visible_at ` set (filter P bars) \<noteq> {}" using assms(2) by (simp only: image_is_empty set_empty not_False_eq_True)
  moreover have "\<forall>t \<in> bar_visible_at ` set (filter P bars). t \<le> d" using serves [OF assms(1)] by auto
  ultimately show ?thesis using Max_in [of "bar_visible_at ` set (filter P bars)"] by blast
qed

end

record verified_bar_snapshot =
  vb_snapshot :: "ulid \<times> content_hash"
  vb_visible_at :: utc_instant
  vb_bars :: "bar list"
  vb_price_source_type :: price_source_type

datatype data_error = PointInTimeViolation

definition snapshot_visible_at :: "verified_bar_snapshot \<Rightarrow> utc_instant \<Rightarrow> (bar list, data_error) result" where
  "snapshot_visible_at v decision_time =
     (if decision_time > vb_visible_at v then Err PointInTimeViolation
      else Ok (filter (\<lambda>b. bar_visible_at b \<le> decision_time) (vb_bars v)))"

definition snapshot_port :: "verified_bar_snapshot \<Rightarrow> data_error point_in_time_bars" where
  "snapshot_port v =
     \<lparr>pb_snapshot = vb_snapshot v, pb_price_source_type = vb_price_source_type v, pb_all_bars = vb_bars v,
      pb_visible_at = snapshot_visible_at v\<rparr>"

interpretation verified: point_in_time_port "snapshot_port v" for v
  by unfold_locales (auto simp: snapshot_port_def snapshot_visible_at_def split: if_splits)

section \<open>The use case\<close>

definition covered_bars :: "('d, 'e) bar_replay_request \<Rightarrow> bar list" where
  "covered_bars request =
     filter (\<lambda>b. policy_covers (rq_policy request) b \<and> policy_period_contains (rq_policy request) (bar_start b))
       (pb_all_bars (rq_data request))"

definition add_to_step :: "bar \<Rightarrow> (utc_instant, bar list) btree_map \<Rightarrow> (utc_instant, bar list) btree_map" where
  "add_to_step b m = bt_insert (bar_end b) ((case map_of m (bar_end b) of None \<Rightarrow> [] | Some bs \<Rightarrow> bs) @ [b]) m"

definition steps_of :: "bar list \<Rightarrow> (utc_instant \<times> bar list) list" where
  "steps_of bars = fold add_to_step bars []"

definition decision_times_of :: "bar list \<Rightarrow> utc_instant btree_set" where
  "decision_times_of bars = fold bset_insert (map bar_visible_at bars) []"

text \<open>The bars a trade of \<open>instrument\<close> decided at \<open>decision_time\<close> may execute in, in order.\<close>

definition execution_bars :: "bar list \<Rightarrow> version_ref \<Rightarrow> utc_instant \<Rightarrow> bar list" where
  "execution_bars covered instrument decision_time =
     sort_key (\<lambda>b. (bar_start b, source_record_id b))
       (filter (\<lambda>b. bar_instrument b = instrument \<and> bar_start b \<ge> decision_time) covered)"

definition projected_book :: "'d decimal_ops \<Rightarrow> 'd replay_state \<Rightarrow> 'd simulated_book" where
  "projected_book ops s =
     with_pending ops (map (\<lambda>t. (pt_instrument t, pt_intent t)) (rs_pending s)) (lg_book (rs_ledger s))"

definition decide_at ::
  "'d decimal_ops \<Rightarrow> chrono_ops \<Rightarrow> ('d, 'e) bar_replay_request \<Rightarrow> bar list \<Rightarrow> utc_instant \<Rightarrow>
   'd replay_state \<times> 'd replay_decision list \<Rightarrow>
   ('d replay_state \<times> 'd replay_decision list, 'e bar_replay_error) result" where
  "decide_at ops ch request covered decision_time acc =
     (case acc of (s, decisions) \<Rightarrow>
       and_then (or_invalid (advance ops ch (Some decision_time) s)) (\<lambda>s.
       and_then (map_err PortError (pb_visible_at (rq_data request) decision_time)) (\<lambda>visible.
       let inputs = filter (policy_covers (rq_policy request)) visible;
           inputs_visible_through = (if inputs = [] then None else Some (Max (bar_visible_at ` set inputs)))
       in and_then (or_invalid (point_in_time_view_new decision_time inputs)) (\<lambda>view.
          let projected = projected_book ops s in
          and_then (or_invalid (pe_decide (rq_evaluator request) (rq_policy request) view projected)) (\<lambda>target.
          Ok (fold (\<lambda>(instrument, quantity). register ops decision_time instrument quantity
                (execution_bars covered instrument decision_time)) (deltas_toward ops projected target) s,
              decisions @ [\<lparr>rd_decision_time = decision_time, rd_inputs_visible_through = inputs_visible_through,
                            rd_input_bar_count = length inputs, rd_target = target\<rparr>]))))))"

definition initial_state ::
  "'d decimal_ops \<Rightarrow> ('d, 'e) bar_replay_request \<Rightarrow> 'd cost_model \<Rightarrow> 'd replay_constraint list \<Rightarrow> 'd replay_state" where
  "initial_state ops request costs constraints =
     \<lparr>rs_ledger = ledger_new ops (rq_carry request) (rq_funding request) costs (pi_settlement (pa_input (rq_policy request))),
      rs_steps = steps_of (covered_bars request), rs_pending = [], rs_fills = [],
      rs_constraints = constraints, rs_rules = pi_execution (pa_input (rq_policy request)),
      rs_price_source = pb_price_source_type (rq_data request)\<rparr>"

definition replay_bars ::
  "(naive_date \<Rightarrow> string) \<Rightarrow> 'd decimal_ops \<Rightarrow> chrono_ops \<Rightarrow> sha256_fn \<Rightarrow> ('d, 'e) bar_replay_request \<Rightarrow>
   ('d simulation_result, 'e bar_replay_error) result" where
  "replay_bars ds ops ch sha256 request =
     (let policy = rq_policy request; covered = covered_bars request in
      if pe_family (rq_evaluator request) \<noteq> pi_family (pa_input policy)
        \<or> pe_family_version (rq_evaluator request) \<noteq> pi_family_version (pa_input policy)
        \<or> rf_tier (rq_funding request) \<noteq> sv_funding_tier (rq_subject request)
      then Err InvalidRequest
      else
        and_then (or_invalid (cost_model_from_declaration ops (rq_cost_model request) (rq_cost_parameters request))) (\<lambda>costs.
        case decision_times_of covered of
          [] \<Rightarrow> Err InvalidRequest
        | first_decision # _ \<Rightarrow>
            and_then (enforced_constraints ops request first_decision) (\<lambda>constraints.
            and_then (try_fold (decide_at ops ch request covered) (decision_times_of covered)
                (initial_state ops request costs constraints, [])) (\<lambda>(s, decisions).
            and_then (or_invalid (advance ops ch None s)) (\<lambda>s.
            case replay_finish s of (fills, book, pnl) \<Rightarrow>
              or_invalid (simulation_result_new ds ops sha256 (replay_identity_of sha256 request constraints)
                decisions fills pnl book))))))"


section \<open>Shape of an attempt\<close>

text \<open>An attempt is left as the bar gave it, or replaced by what the constraints allow.\<close>

lemma constrained_attempt_cases:
  assumes "constrained_attempt ops p b used s = Ok a"
    and attempt: "attempt = attempt_in_bar ops (pt_decision_time p) (pt_instrument p) (pt_remaining p) b used
      (rs_rules s) (rs_price_source s)"
  obtains (plain) "a = attempt"
  | (constrained) price ctx allowed outcome where "sf_price attempt = Some price" "\<not> d_is_zero ops (sf_quantity attempt)"
      "ledger_context ops (pt_instrument p) price (rs_ledger s) = Ok ctx"
      "check_execution ops (rs_constraints s) ctx (sf_quantity attempt) = (allowed, Some outcome)"
      "a = constrain ops allowed outcome attempt"
proof (cases "\<exists>price. sf_price attempt = Some price \<and> \<not> d_is_zero ops (sf_quantity attempt)")
  case False
  then have "a = attempt"
    using assms unfolding constrained_attempt_def Let_def attempt [symmetric] by (auto split: option.splits)
  then show ?thesis by (rule plain)
next
  case True
  then obtain price where price: "sf_price attempt = Some price" "\<not> d_is_zero ops (sf_quantity attempt)" by blast
  then obtain ctx where ctx: "ledger_context ops (pt_instrument p) price (rs_ledger s) = Ok ctx"
    and check: "(case check_execution ops (rs_constraints s) ctx (sf_quantity attempt) of
        (allowed, Some outcome) \<Rightarrow> Ok (constrain ops allowed outcome attempt) | (_, None) \<Rightarrow> Ok attempt) = (Ok a :: _ domain_result)"
    using assms(1) unfolding constrained_attempt_def Let_def attempt [symmetric] by (auto simp: and_then_eq_Ok)
  obtain allowed outcome where "check_execution ops (rs_constraints s) ctx (sf_quantity attempt) = (allowed, outcome)"
    by (cases "check_execution ops (rs_constraints s) ctx (sf_quantity attempt)")
  with check price ctx show ?thesis by (cases outcome) (auto intro: plain constrained)
qed


section \<open>Shape of a replay\<close>

lemma replay_bars_Ok:
  assumes "replay_bars ds ops ch sha256 request = Ok r"
  obtains costs constraints s s' decisions where
    "cost_model_from_declaration ops (rq_cost_model request) (rq_cost_parameters request) = Ok costs"
    "decision_times_of (covered_bars request) \<noteq> []"
    "enforced_constraints ops request (hd (decision_times_of (covered_bars request))) = Ok constraints"
    "try_fold (decide_at ops ch request (covered_bars request)) (decision_times_of (covered_bars request))
       (initial_state ops request costs constraints, []) = Ok (s, decisions)"
    "advance ops ch None s = Ok s'"
    "simulation_result_new ds ops sha256 (replay_identity_of sha256 request constraints) decisions
       (sort_key fill_key (rs_fills s')) (lg_rows (rs_ledger s')) (lg_book (rs_ledger s')) = Ok r"
proof (cases "decision_times_of (covered_bars request)")
  case Nil
  then show ?thesis
    using assms unfolding replay_bars_def Let_def by (auto simp: and_then_eq_Ok split: if_splits)
next
  case (Cons first_decision rest)
  then show ?thesis
    using assms unfolding replay_bars_def Let_def
    by (auto simp: and_then_eq_Ok map_err_eq_Ok replay_finish_def simp del: try_fold.simps split: if_splits intro: that)
qed

lemma simulation_result_Ok:
  assumes "simulation_result_new ds ops sha256 i decisions fills pnl book = Ok r"
  shows "sm_decisions r = decisions" "sm_fills r = fills" "sm_pnl r = pnl" "sm_book r = book" "sm_identity r = i"
  using assms by (auto simp: simulation_result_new_def Let_def split: if_splits)

lemma set_decision_times: "set (decision_times_of bars) = bar_visible_at ` set bars"
  by (simp add: decision_times_of_def set_fold_bset_insert)

lemma sorted_decision_times: "sorted_wrt (<) (decision_times_of bars)"
proof -
  have "sorted_wrt (<) (fold bset_insert ts s)" if "sorted_wrt (<) s" for ts s :: "utc_instant list"
    using that by (induction ts arbitrary: s) (auto simp: sorted_bset_insert)
  then show ?thesis by (simp add: decision_times_of_def)
qed

text \<open>The steps are the covered bars grouped by their end, in order.\<close>

lemma steps_of_ok: "bt_ok (steps_of bars)"
proof -
  have "bt_ok (fold add_to_step bars m)" if "bt_ok m" for m
    using that by (induction bars arbitrary: m) (auto simp: add_to_step_def bt_ok_insert)
  then show ?thesis by (simp add: steps_of_def)
qed

lemma steps_of_get:
  "map_of (steps_of bars) e = (if \<exists>b \<in> set bars. bar_end b = e then Some (filter (\<lambda>b. bar_end b = e) bars) else None)"
proof -
  have "map_of (fold add_to_step bars m) e =
      (if \<exists>b \<in> set bars. bar_end b = e
       then Some ((case map_of m e of None \<Rightarrow> [] | Some bs \<Rightarrow> bs) @ filter (\<lambda>b. bar_end b = e) bars) else map_of m e)" for m
    by (induction bars arbitrary: m) (auto simp: add_to_step_def split: option.splits)
  then show ?thesis by (simp add: steps_of_def)
qed

lemma steps_of_set:
  assumes "(e, bs) \<in> set (steps_of bars)"
  shows "bs = filter (\<lambda>b. bar_end b = e) bars" "\<exists>b \<in> set bars. bar_end b = e"
proof -
  have "map_of (steps_of bars) e = Some bs"
    using steps_of_ok assms by (intro map_of_is_SomeI) (auto simp: bt_ok_def strict_sorted_iff)
  then show "bs = filter (\<lambda>b. bar_end b = e) bars" "\<exists>b \<in> set bars. bar_end b = e"
    by (auto simp: steps_of_get split: if_splits)
qed

end
