(* ===== verification/Replay_Causality.thy ===== *)
theory Replay_Causality
  imports Bar_Replay
begin

text \<open>
  No look-ahead: what a replay reports up to an instant does not depend on the contents of bars
  that end later. Two replays whose data agree on when bars start, end and become visible, and on
  everything about bars that ended by \<open>t\<close>, run in lockstep up to \<open>t\<close>; what either does afterwards
  carries a later time. Whether later bars exist at all does matter, as the last section shows.
\<close>

section \<open>Bars in the same slot\<close>

definition same_slot :: "utc_instant \<Rightarrow> bar \<Rightarrow> bar \<Rightarrow> bool" where
  "same_slot t b c \<longleftrightarrow>
     source_record_id b = source_record_id c \<and> bar_instrument b = bar_instrument c \<and>
     bar_frequency b = bar_frequency c \<and> bar_settlement b = bar_settlement c \<and>
     local_trading_date b = local_trading_date c \<and>
     bar_start b = bar_start c \<and> bar_end b = bar_end c \<and> bar_visible_at b = bar_visible_at c \<and>
     (bar_end b \<le> t \<longrightarrow> b = c)"

definition same_trade :: "utc_instant \<Rightarrow> 'd pending_trade \<Rightarrow> 'd pending_trade \<Rightarrow> bool" where
  "same_trade t p q \<longleftrightarrow> list_all2 (same_slot t) (pt_bars p) (pt_bars q) \<and> q = p\<lparr>pt_bars := pt_bars q\<rparr>"

definition same_step :: "utc_instant \<Rightarrow> utc_instant \<times> bar list \<Rightarrow> utc_instant \<times> bar list \<Rightarrow> bool" where
  "same_step t x y \<longleftrightarrow> fst x = fst y \<and> list_all2 (same_slot t) (snd x) (snd y)"

text \<open>Two states that differ only in bars that end after \<open>t\<close>.\<close>

definition lockstep :: "utc_instant \<Rightarrow> 'd replay_state \<Rightarrow> 'd replay_state \<Rightarrow> bool" where
  "lockstep t s u \<longleftrightarrow> list_all2 (same_trade t) (rs_pending s) (rs_pending u) \<and>
     list_all2 (same_step t) (rs_steps s) (rs_steps u) \<and>
     u = s\<lparr>rs_pending := rs_pending u, rs_steps := rs_steps u\<rparr>"

lemma lockstepD:
  assumes "lockstep t s u"
  shows "rs_ledger u = rs_ledger s" "rs_fills u = rs_fills s" "rs_constraints u = rs_constraints s"
    "rs_rules u = rs_rules s" "rs_price_source u = rs_price_source s"
  using assms unfolding lockstep_def by (metis replay_state.select_convs replay_state.surjective replay_state.update_convs)+

lemma lockstep_update:
  assumes "lockstep t s u"
  shows "lockstep t (s\<lparr>rs_ledger := l\<rparr>) (u\<lparr>rs_ledger := l\<rparr>)" "lockstep t (s\<lparr>rs_fills := f\<rparr>) (u\<lparr>rs_fills := f\<rparr>)"
    "list_all2 (same_trade t) ps qs \<Longrightarrow> lockstep t (s\<lparr>rs_pending := ps\<rparr>) (u\<lparr>rs_pending := qs\<rparr>)"
    "list_all2 (same_step t) xs ys \<Longrightarrow> lockstep t (s\<lparr>rs_steps := xs\<rparr>) (u\<lparr>rs_steps := ys\<rparr>)"
  using assms unfolding lockstep_def by (cases s; cases u; simp)+

lemma same_tradeD:
  assumes "same_trade t p q"
  shows "pt_decision_time q = pt_decision_time p" "pt_instrument q = pt_instrument p"
    "pt_intent q = pt_intent p" "pt_remaining q = pt_remaining p"
  using assms unfolding same_trade_def by (metis pending_trade.select_convs pending_trade.surjective pending_trade.update_convs)+

lemma same_trade_update:
  "same_trade t p q \<Longrightarrow> list_all2 (same_slot t) bs cs \<Longrightarrow>
     same_trade t (p\<lparr>pt_intent := i, pt_remaining := r, pt_bars := bs\<rparr>) (q\<lparr>pt_intent := i, pt_remaining := r, pt_bars := cs\<rparr>)"
  unfolding same_trade_def by (cases p; cases q; simp)

section \<open>Lockstep up to the instant\<close>

lemma constrained_attempt_cong:
  assumes "lockstep t s u" "same_trade t p q"
  shows "constrained_attempt ops p b used s = constrained_attempt ops q b used u"
  unfolding constrained_attempt_def lockstepD [OF assms(1)] same_tradeD [OF assms(2)] ..

lemma execute_due_lockstep:
  assumes "e \<le> t" "same_trade t p q" "lockstep t s u" "execute_due ops e p used s = Ok (p', used', s')"
  shows "\<exists>q' u'. execute_due ops e q used u = Ok (q', used', u') \<and> same_trade t p' q' \<and> lockstep t s' u'"
proof (cases "pt_bars p")
  case Nil
  then have "pt_bars q = []" using assms(2) by (simp add: same_trade_def)
  then show ?thesis using Nil assms(2-4) by (simp add: execute_due_def)
next
  case (Cons b bs)
  then obtain c cs where q: "pt_bars q = c # cs" and slot: "same_slot t b c" and rest: "list_all2 (same_slot t) bs cs"
    using assms(2) by (auto simp: same_trade_def list_all2_Cons1)
  have ends: "bar_end c = bar_end b" using slot by (simp add: same_slot_def)
  show ?thesis
  proof (cases "bar_end b \<noteq> e \<or> d_is_zero ops (pt_remaining p)")
    case True
    then show ?thesis
      using Cons q assms(2-4) ends same_tradeD(4) [OF assms(2)] by (auto simp: execute_due_def)
  next
    case False
    then have c: "c = b" using slot assms(1) by (auto simp: same_slot_def)
    have nil: "cs = [] \<longleftrightarrow> bs = []" using rest by auto
    from False Cons assms(4) obtain attempt ledger where
      attempt: "constrained_attempt ops p b (used_in ops used (source_record_id b)) s = Ok attempt"
      and ledger: "settle ops attempt (rs_ledger s) = Ok ledger"
      by (auto simp: execute_due_def result_simps)
    show ?thesis
      using False Cons assms(4) rest
      by (auto simp: execute_due_def q c attempt ledger nil Let_def lockstepD [OF assms(3)] same_tradeD [OF assms(2)]
          constrained_attempt_cong [OF assms(3,2), symmetric]
          intro!: lockstep_update(1,2) assms(3) same_trade_update [OF assms(2)])
  qed
qed


lemma execute_pending_lockstep:
  assumes "e \<le> t" "list_all2 (same_trade t) ps qs" "lockstep t s u"
    and "try_fold (execute_pending ops e) ps ([], [], s) = Ok (ps', used', s')"
  shows "\<exists>qs' u'. try_fold (execute_pending ops e) qs ([], [], u) = Ok (qs', used', u') \<and>
    list_all2 (same_trade t) ps' qs' \<and> lockstep t s' u'"
proof -
  let ?Q = "\<lambda>(ps, used, s) (qs, used', u). list_all2 (same_trade t) ps qs \<and> used' = used \<and> lockstep t s u"
  have step: "\<exists>b'. execute_pending ops e q b = Ok b' \<and> ?Q a' b'"
    if trade: "same_trade t p q" and Q: "?Q a b" and run: "execute_pending ops e p a = Ok a'" for p q a b a'
  proof -
    obtain ps used s where a: "a = (ps, used, s)" by (cases a)
    obtain qs used' u where b: "b = (qs, used', u)" by (cases b)
    have rel: "list_all2 (same_trade t) ps qs" "used' = used" "lockstep t s u" using Q by (simp_all add: a b)
    obtain p' used'' s' where due: "execute_due ops e p used s = Ok (p', used'', s')" "a' = (ps @ [p'], used'', s')"
      using run by (auto simp: a execute_pending_def result_simps)
    obtain q' u' where "execute_due ops e q used u = Ok (q', used'', u')" "same_trade t p' q'" "lockstep t s' u'"
      using execute_due_lockstep [OF assms(1) trade rel(3) due(1)] by blast
    then show ?thesis using rel due(2) by (simp add: b execute_pending_def list_all2_appendI)
  qed
  have "\<exists>b'. try_fold (execute_pending ops e) qs ([], [], u) = Ok b' \<and> ?Q (ps', used', s') b'"
    by (rule try_fold_lockstep [OF assms(2) _ assms(4)]) (use assms(3) step in auto)
  then show ?thesis by auto
qed

lemma advance_step_lockstep:
  assumes "e \<le> t" "lockstep t s u" "advance_step ops ch e bars s = Ok s'"
  shows "\<exists>u'. advance_step ops ch e bars u = Ok u' \<and> lockstep t s' u'"
proof -
  obtain ledger ps used s1 ledger' where run: "open_step ops ch bars (rs_ledger s) = Ok ledger"
    "try_fold (execute_pending ops e) (rs_pending s) ([], [], s\<lparr>rs_ledger := ledger, rs_pending := []\<rparr>) = Ok (ps, used, s1)"
    "finish_step ops (rs_ledger s1) = Ok ledger'"
    and s': "s' = s1\<lparr>rs_ledger := ledger', rs_pending := filter (\<lambda>t. \<not> d_is_zero ops (pt_remaining t)) ps\<rparr>"
    using assms(3) by (auto simp: advance_step_def result_simps)
  have pending: "list_all2 (same_trade t) (rs_pending s) (rs_pending u)" using assms(2) by (simp add: lockstep_def)
  have "lockstep t (s\<lparr>rs_ledger := ledger, rs_pending := []\<rparr>) (u\<lparr>rs_ledger := ledger, rs_pending := []\<rparr>)"
    using lockstep_update(3) [OF lockstep_update(1) [OF assms(2)]] by simp
  from execute_pending_lockstep [OF assms(1) pending this run(2)]
  obtain qs u1 where u: "try_fold (execute_pending ops e) (rs_pending u) ([], [], u\<lparr>rs_ledger := ledger, rs_pending := []\<rparr>) = Ok (qs, used, u1)"
    and rel: "list_all2 (same_trade t) ps qs" "lockstep t s1 u1" by blast
  have "list_all2 (same_trade t) (filter (\<lambda>t. \<not> d_is_zero ops (pt_remaining t)) ps) (filter (\<lambda>t. \<not> d_is_zero ops (pt_remaining t)) qs)"
    by (rule list_all2_filter_related [OF rel(1)]) (simp add: same_tradeD)
  then have "lockstep t s' (u1\<lparr>rs_ledger := ledger', rs_pending := filter (\<lambda>t. \<not> d_is_zero ops (pt_remaining t)) qs\<rparr>)"
    unfolding s' by (intro lockstep_update(1,3) rel(2))
  then show ?thesis
    using run u lockstepD(1) [OF assms(2)] lockstepD(1) [OF rel(2)] by (simp add: advance_step_def)
qed

text \<open>The bars of a step share its end and are visible no earlier.\<close>

definition steps_wf :: "(utc_instant \<times> bar list) list \<Rightarrow> bool" where
  "steps_wf steps \<longleftrightarrow> (\<forall>(e, bars) \<in> set steps. \<forall>b \<in> set bars. bar_end b = e \<and> e \<le> bar_visible_at b)"

lemma steps_wf_Cons [simp]:
  "steps_wf ((e, bars) # steps) \<longleftrightarrow> (\<forall>b \<in> set bars. bar_end b = e \<and> e \<le> bar_visible_at b) \<and> steps_wf steps"
  by (simp add: steps_wf_def)

lemma execute_due_steps: "execute_due ops e p used s = Ok (p', used', s') \<Longrightarrow> rs_steps s' = rs_steps s"
  by (auto simp: execute_due_def result_simps Let_def split: list.splits if_splits)

lemma execute_pending_steps:
  assumes "try_fold (execute_pending ops e) ps a = Ok a'"
  shows "rs_steps (snd (snd a')) = rs_steps (snd (snd a))"
  using assms
proof (rule try_fold_invariant [where I = "\<lambda>x. rs_steps (snd (snd x)) = rs_steps (snd (snd a))"])
  show "rs_steps (snd (snd y)) = rs_steps (snd (snd a))"
    if "rs_steps (snd (snd x)) = rs_steps (snd (snd a))" "execute_pending ops e p x = Ok y" for p x y
    using that execute_due_steps by (cases x) (fastforce simp: execute_pending_def result_simps)
qed simp

lemma advance_step_steps: "advance_step ops ch e bars s = Ok s' \<Longrightarrow> rs_steps s' = rs_steps s"
  by (auto simp: advance_step_def result_simps dest!: execute_pending_steps)

lemma advance_steps_lockstep:
  assumes "d \<le> t" "list_all2 (same_step t) xs ys" "steps_wf xs" "lockstep t s u"
    and "advance_steps ops ch (Some d) xs s = Ok s'"
  shows "\<exists>u'. advance_steps ops ch (Some d) ys u = Ok u' \<and> lockstep t s' u'"
  using assms(2-5)
proof (induction xs ys arbitrary: s u rule: list_all2_induct)
  case (Cons x xs y ys)
  obtain e bars bars' where x: "x = (e, bars)" and y: "y = (e, bars')" and slots: "list_all2 (same_slot t) bars bars'"
    using Cons.hyps(1) by (cases x; cases y) (auto simp: same_step_def)
  show ?case
  proof (cases "e > d")
    case True
    then show ?thesis using Cons.prems by (simp add: x y)
  next
    case False
    then have "e \<le> t" using assms(1) by simp
    have "bars' = bars"
    proof (rule sym, rule list_all2_eq_when [OF slots])
      show "b = c" if "b \<in> set bars" "same_slot t b c" for b c
      proof -
        have "bar_end b = e" using Cons.prems(1) that(1) by (simp add: x)
        then show ?thesis using that(2) \<open>e \<le> t\<close> by (simp add: same_slot_def)
      qed
    qed
    moreover obtain s1 where s1: "advance_step ops ch e bars (s\<lparr>rs_steps := xs\<rparr>) = Ok s1" "advance_steps ops ch (Some d) xs s1 = Ok s'"
      using Cons.prems(3) False by (auto simp: x result_simps)
    moreover obtain u1 where "advance_step ops ch e bars (u\<lparr>rs_steps := ys\<rparr>) = Ok u1" "lockstep t s1 u1"
      using advance_step_lockstep [OF \<open>e \<le> t\<close> lockstep_update(4) [OF Cons.prems(2) Cons.hyps(2)] s1(1)] by blast
    ultimately show ?thesis using Cons.IH Cons.prems(1) False by (simp add: x y)
  qed
qed simp

lemma advance_lockstep:
  assumes "d \<le> t" "steps_wf (rs_steps s)" "lockstep t s u" "advance ops ch (Some d) s = Ok s'"
  shows "\<exists>u'. advance ops ch (Some d) u = Ok u' \<and> lockstep t s' u'"
  using advance_steps_lockstep [OF assms(1) _ assms(2,3)] assms(3,4) unfolding advance_def lockstep_def by blast


section \<open>Decisions\<close>

lemma register_lockstep:
  assumes "lockstep t s u" "list_all2 (same_slot t) bs cs"
  shows "lockstep t (register ops d i q bs s) (register ops d i q cs u)"
proof (cases "bs = []")
  case True
  then have "cs = []" using assms(2) by simp
  then show ?thesis using True lockstep_update(2) [OF assms(1)] by (simp add: register_def lockstepD [OF assms(1)])
next
  case False
  then have "cs \<noteq> []" using assms(2) by auto
  moreover have "list_all2 (same_trade t) (rs_pending s @ [p bs]) (rs_pending u @ [p cs])"
    if "p = (\<lambda>b. \<lparr>pt_decision_time = d, pt_instrument = i, pt_intent = q, pt_remaining = q, pt_bars = b\<rparr>)" for p
    using assms by (intro list_all2_appendI) (simp_all add: that lockstep_def same_trade_def)
  ultimately show ?thesis
    using False lockstep_update(3) [OF assms(1)] by (simp add: register_def)
qed

lemma execution_bars_same:
  "list_all2 (same_slot t) cs cs' \<Longrightarrow> list_all2 (same_slot t) (execution_bars cs i d) (execution_bars cs' i d)"
  unfolding execution_bars_def
  by (intro list_all2_sort_related list_all2_filter_related) (auto simp: same_slot_def)

lemma register_all_lockstep:
  assumes "list_all2 (same_slot t) cs cs'" "lockstep t s u"
  shows "lockstep t (fold (\<lambda>(i, q). register ops d i q (execution_bars cs i d)) ds s)
    (fold (\<lambda>(i, q). register ops d i q (execution_bars cs' i d)) ds u)"
  using assms(2)
proof (induction ds arbitrary: s u)
  case (Cons x ds)
  obtain i q where x: "x = (i, q)" by (cases x)
  show ?case
    using Cons.IH [OF register_lockstep [OF Cons.prems execution_bars_same [OF assms(1)]]] by (simp add: x)
qed simp

lemma projected_book_lockstep:
  assumes "lockstep t s u"
  shows "projected_book ops u = projected_book ops s"
proof -
  have "map (\<lambda>p. (pt_instrument p, pt_intent p)) (rs_pending s) = map (\<lambda>p. (pt_instrument p, pt_intent p)) (rs_pending u)"
    using assms by (intro list_all2_map_related [where R = "same_trade t"]) (auto simp: lockstep_def same_tradeD)
  then show ?thesis by (simp add: projected_book_def lockstepD [OF assms])
qed

lemma decide_at_Ok:
  assumes "decide_at ops ch request covered d (s, ds) = Ok (s', ds')"
  obtains m visible view target where "advance ops ch (Some d) s = Ok m"
    "pb_visible_at (rq_data request) d = Ok visible"
    "point_in_time_view_new d (filter (policy_covers (rq_policy request)) visible) = Ok view"
    "pe_decide (rq_evaluator request) (rq_policy request) view (projected_book ops m) = Ok target"
    "s' = fold (\<lambda>(i, q). register ops d i q (execution_bars covered i d)) (deltas_toward ops (projected_book ops m) target) m"
    "ds' = ds @ [\<lparr>rd_decision_time = d,
       rd_inputs_visible_through = (if filter (policy_covers (rq_policy request)) visible = [] then None
         else Some (Max (bar_visible_at ` set (filter (policy_covers (rq_policy request)) visible)))),
       rd_input_bar_count = length (filter (policy_covers (rq_policy request)) visible), rd_target = target\<rparr>]"
  using assms unfolding decide_at_def prod.case Let_def
  by (auto simp only: and_then_eq_Ok map_err_eq_Ok result.inject prod.inject intro: that)

text \<open>Data that agree on everything up to \<open>t\<close> and on the schedule after it.\<close>

definition agree_until :: "utc_instant \<Rightarrow> 'e point_in_time_bars \<Rightarrow> 'e point_in_time_bars \<Rightarrow> bool" where
  "agree_until t d1 d2 \<longleftrightarrow> list_all2 (same_slot t) (pb_all_bars d1) (pb_all_bars d2) \<and>
     pb_price_source_type d1 = pb_price_source_type d2"

lemma agree_visible:
  assumes "agree_until t d1 d2" "d \<le> t" "\<forall>b \<in> set (pb_all_bars d1). bar_end b \<le> bar_visible_at b"
    and "point_in_time_port d1" "point_in_time_port d2" "pb_visible_at d1 d = Ok xs" "pb_visible_at d2 d = Ok ys"
  shows "xs = ys"
proof -
  have xs: "xs = filter (\<lambda>b. bar_visible_at b \<le> d) (pb_all_bars d1)" and ys: "ys = filter (\<lambda>b. bar_visible_at b \<le> d) (pb_all_bars d2)"
    using point_in_time_port.serves assms(4-7) by blast+
  have "list_all2 (same_slot t) xs ys"
    unfolding xs ys using assms(1) by (intro list_all2_filter_related) (auto simp: agree_until_def same_slot_def)
  then show ?thesis
  proof (rule list_all2_eq_when)
    fix b c assume "b \<in> set xs" and slot: "same_slot t b c"
    then have "bar_end b \<le> t" using assms(2,3) xs by fastforce
    then show "b = c" using slot by (simp add: same_slot_def)
  qed
qed

lemma decide_at_lockstep:
  assumes agree: "agree_until t (rq_data request) data" "\<forall>b \<in> set (pb_all_bars (rq_data request)). bar_end b \<le> bar_visible_at b"
    and ports: "point_in_time_port (rq_data request)" "point_in_time_port data"
    and d: "d \<le> t" and cover: "list_all2 (same_slot t) cs cs'"
    and rel: "lockstep t s u" "steps_wf (rs_steps s)"
    and run: "decide_at ops ch request cs d (s, ds) = Ok (s', ds1)"
      "decide_at ops ch (request\<lparr>rq_data := data\<rparr>) cs' d (u, ds) = Ok (u', ds2)"
  shows "lockstep t s' u' \<and> ds2 = ds1"
proof -
  from run(1) obtain m xs view target where m: "advance ops ch (Some d) s = Ok m"
    "pb_visible_at (rq_data request) d = Ok xs"
    "point_in_time_view_new d (filter (policy_covers (rq_policy request)) xs) = Ok view"
    "pe_decide (rq_evaluator request) (rq_policy request) view (projected_book ops m) = Ok target"
    and s': "s' = fold (\<lambda>(i, q). register ops d i q (execution_bars cs i d)) (deltas_toward ops (projected_book ops m) target) m"
    and ds1: "ds1 = ds @ [\<lparr>rd_decision_time = d,
       rd_inputs_visible_through = (if filter (policy_covers (rq_policy request)) xs = [] then None
         else Some (Max (bar_visible_at ` set (filter (policy_covers (rq_policy request)) xs)))),
       rd_input_bar_count = length (filter (policy_covers (rq_policy request)) xs), rd_target = target\<rparr>]"
    by (rule decide_at_Ok)
  obtain v where v: "advance ops ch (Some d) u = Ok v" "lockstep t m v"
    using advance_lockstep [OF d rel(2,1) m(1)] by blast
  from run(2) obtain v' ys view' target' where v': "advance ops ch (Some d) u = Ok v'" "pb_visible_at data d = Ok ys"
    "point_in_time_view_new d (filter (policy_covers (rq_policy request)) ys) = Ok view'"
    "pe_decide (rq_evaluator request) (rq_policy request) view' (projected_book ops v') = Ok target'"
    and u': "u' = fold (\<lambda>(i, q). register ops d i q (execution_bars cs' i d)) (deltas_toward ops (projected_book ops v') target') v'"
    and ds2: "ds2 = ds @ [\<lparr>rd_decision_time = d,
       rd_inputs_visible_through = (if filter (policy_covers (rq_policy request)) ys = [] then None
         else Some (Max (bar_visible_at ` set (filter (policy_covers (rq_policy request)) ys)))),
       rd_input_bar_count = length (filter (policy_covers (rq_policy request)) ys), rd_target = target'\<rparr>]"
    by (rule decide_at_Ok) simp
  have ys: "ys = xs" using agree_visible [OF agree(1) d agree(2) ports m(2) v'(2)] by simp
  have "v' = v" "view' = view" using v v'(1,3) m(3) by (simp_all add: ys)
  moreover have "target' = target" using m(4) v'(4) calculation projected_book_lockstep [OF v(2)] by simp
  ultimately have "u' = fold (\<lambda>(i, q). register ops d i q (execution_bars cs' i d)) (deltas_toward ops (projected_book ops m) target) v \<and> ds2 = ds1"
    unfolding u' ds2 ds1 ys by (simp add: projected_book_lockstep [OF v(2)])
  then show ?thesis unfolding s' using register_all_lockstep [OF cover v(2)] by simp
qed


section \<open>What happens after the instant\<close>

text \<open>The loop over the steps can be interrupted at any instant.\<close>

lemma advance_steps_rest:
  "advance_steps ops ch until xs s = Ok s' \<Longrightarrow> rs_steps s = xs \<Longrightarrow>
     rs_steps s' = dropWhile (\<lambda>x. \<not> (\<exists>limit \<in> set_option until. fst x > limit)) xs"
proof (induction ops ch until xs s rule: advance_steps.induct)
  case (2 ops ch until e bars steps s)
  then show ?case
  proof (cases "\<exists>limit \<in> set_option until. e > limit")
    case False
    then obtain m where m: "advance_step ops ch e bars (s\<lparr>rs_steps := steps\<rparr>) = Ok m" "advance_steps ops ch until steps m = Ok s'"
      using 2(2) by (auto simp: result_simps)
    then show ?thesis using 2(1) [OF False m(2)] advance_step_steps [OF m(1)] False by simp
  qed (use 2 in auto)
qed simp

lemma advance_steps_split:
  assumes "\<forall>limit \<in> set_option until. t \<le> limit" "advance_steps ops ch until xs s = Ok s'" "rs_steps s = xs"
  shows "\<exists>m. advance_steps ops ch (Some t) xs s = Ok m \<and> advance_steps ops ch until (rs_steps m) m = Ok s'"
  using assms
proof (induction ops ch until xs s rule: advance_steps.induct)
  case (2 ops ch until e bars steps s)
  show ?case
  proof (cases "e > t")
    case True
    then show ?thesis using 2 by (intro exI [of _ s]) simp
  next
    case False
    then have go: "\<not> (\<exists>limit \<in> set_option until. e > limit)" using 2(2) by force
    then obtain m where m: "advance_step ops ch e bars (s\<lparr>rs_steps := steps\<rparr>) = Ok m" "advance_steps ops ch until steps m = Ok s'"
      using 2(3) by (auto simp: result_simps)
    have "rs_steps m = steps" using advance_step_steps [OF m(1)] by simp
    then show ?thesis using 2(1) [OF go 2(2) m(2)] m(1) False by simp
  qed
qed simp

lemma advance_split:
  assumes "\<forall>limit \<in> set_option until. t \<le> limit" "advance ops ch until s = Ok s'"
  obtains m where "advance ops ch (Some t) s = Ok m" "advance ops ch until m = Ok s'"
  using advance_steps_split [OF assms(1)] assms(2) unfolding advance_def by blast

text \<open>Nothing dated by \<open>t\<close> is added, and only later steps are left.\<close>

definition later_steps :: "utc_instant \<Rightarrow> 'd replay_state \<Rightarrow> bool" where
  "later_steps t s \<longleftrightarrow> steps_wf (rs_steps s) \<and> (\<forall>(e, bars) \<in> set (rs_steps s). t < e)"

definition adds_after :: "utc_instant \<Rightarrow> 'd replay_state \<Rightarrow> 'd replay_state \<Rightarrow> bool" where
  "adds_after t s u \<longleftrightarrow>
     filter (\<lambda>f. sf_effective_at f \<le> t) (rs_fills u) = filter (\<lambda>f. sf_effective_at f \<le> t) (rs_fills s) \<and>
     filter (\<lambda>r. pl_known_at r \<le> t) (lg_rows (rs_ledger u)) = filter (\<lambda>r. pl_known_at r \<le> t) (lg_rows (rs_ledger s))"

lemma adds_after_refl [simp]: "adds_after t s s"
  by (simp add: adds_after_def)

lemma adds_after_trans: "adds_after t s u \<Longrightarrow> adds_after t u v \<Longrightarrow> adds_after t s v"
  by (simp add: adds_after_def)


lemma constrained_attempt_effective:
  "constrained_attempt ops p b used s = Ok a \<Longrightarrow> sf_effective_at a = bar_end b"
  by (erule constrained_attempt_cases [OF _ refl]) simp_all

text \<open>What the attempts of one step change: fills at its end, never the rows or the step's times.\<close>

definition executes_at :: "utc_instant \<Rightarrow> 'd replay_state \<Rightarrow> 'd replay_state \<Rightarrow> bool" where
  "executes_at e s u \<longleftrightarrow> (\<exists>new. rs_fills u = rs_fills s @ new \<and> (\<forall>f \<in> set new. sf_effective_at f = e)) \<and>
     lg_rows (rs_ledger u) = lg_rows (rs_ledger s) \<and> open_times (rs_ledger u) = open_times (rs_ledger s)"

lemma executes_at_refl: "executes_at e s s"
  by (simp add: executes_at_def)

lemma executes_at_trans: "executes_at e s u \<Longrightarrow> executes_at e u v \<Longrightarrow> executes_at e s v"
  by (fastforce simp: executes_at_def)

lemma execute_due_executes:
  assumes "execute_due ops e p used s = Ok (p', used', s')"
  shows "executes_at e s s'"
proof (cases "pt_bars p")
  case Nil
  then show ?thesis using assms by (simp add: execute_due_def executes_at_refl)
next
  case (Cons b bs)
  show ?thesis
  proof (cases "bar_end b \<noteq> e \<or> d_is_zero ops (pt_remaining p)")
    case True
    then show ?thesis using assms Cons by (auto simp: execute_due_def executes_at_refl)
  next
    case False
    from False Cons assms obtain a l where
      a: "constrained_attempt ops p b (used_in ops used (source_record_id b)) s = Ok a"
      and l: "settle ops a (rs_ledger s) = Ok l"
      by (auto simp: execute_due_def result_simps)
    show ?thesis
      using assms False Cons constrained_attempt_effective [OF a] settle_times [OF l]
      by (auto simp: execute_due_def a l Let_def executes_at_def)
  qed
qed

lemma execute_pending_executes:
  assumes "try_fold (execute_pending ops e) ps (qs, used, s) = Ok (qs', used', s')"
  shows "executes_at e s s'"
proof -
  have "executes_at e s (snd (snd (qs', used', s')))"
    using assms
  proof (rule try_fold_invariant [where I = "\<lambda>x. executes_at e s (snd (snd x))"])
    show "executes_at e s (snd (snd y))"
      if "executes_at e s (snd (snd x))" "execute_pending ops e p x = Ok y" for p x y
      using that execute_due_executes executes_at_trans
      by (cases x) (fastforce simp: execute_pending_def result_simps)
  qed (simp add: executes_at_refl)
  then show ?thesis by simp
qed

lemma advance_step_adds:
  assumes "advance_step ops ch e bars s = Ok s'" "\<forall>b \<in> set bars. bar_end b = e \<and> e \<le> bar_visible_at b"
  shows "\<exists>new row. rs_fills s' = rs_fills s @ new \<and> (\<forall>f \<in> set new. sf_effective_at f = e) \<and>
    lg_rows (rs_ledger s') = lg_rows (rs_ledger s) @ [row] \<and> pl_bar_end row = e \<and> e \<le> pl_known_at row"
proof -
  obtain l ps used s1 l' where l: "open_step ops ch bars (rs_ledger s) = Ok l"
    and run: "try_fold (execute_pending ops e) (rs_pending s) ([], [], s\<lparr>rs_ledger := l, rs_pending := []\<rparr>) = Ok (ps, used, s1)"
    and l': "finish_step ops (rs_ledger s1) = Ok l'"
    and s': "s' = s1\<lparr>rs_ledger := l', rs_pending := filter (\<lambda>t. \<not> d_is_zero ops (pt_remaining t)) ps\<rparr>"
    using assms(1) by (auto simp: advance_step_def result_simps)
  obtain b where b: "b \<in> set bars" using open_step_times(2) [OF l] by (cases bars) auto
  have times: "open_times l = Some (e, Max (bar_visible_at ` set bars))"
    using open_step_times(3) [OF l] b assms(2) by auto
  have known: "e \<le> Max (bar_visible_at ` set bars)"
    using b assms(2) by (intro order_trans [OF _ Max_ge [of _ "bar_visible_at b"]]) auto
  have exec: "executes_at e (s\<lparr>rs_ledger := l, rs_pending := []\<rparr>) s1" using execute_pending_executes [OF run] .
  then have "open_times (rs_ledger s1) = Some (e, Max (bar_visible_at ` set bars))" using times by (simp add: executes_at_def)
  from finish_step_times [OF l' this] exec open_step_times(1) [OF l] known show ?thesis
    by (auto simp: s' executes_at_def)
qed

lemma advance_steps_later:
  assumes "advance_steps ops ch until xs s = Ok s'" "rs_steps s = xs" "later_steps t s"
  shows "adds_after t s s' \<and> later_steps t s'"
  using assms
proof (induction ops ch until xs s rule: advance_steps.induct)
  case (2 ops ch until e bars steps s)
  show ?case
  proof (cases "\<exists>limit \<in> set_option until. e > limit")
    case False
    then obtain m where m: "advance_step ops ch e bars (s\<lparr>rs_steps := steps\<rparr>) = Ok m" "advance_steps ops ch until steps m = Ok s'"
      using 2(2) by (auto simp: result_simps)
    have wf: "\<forall>b \<in> set bars. bar_end b = e \<and> e \<le> bar_visible_at b" "t < e" "later_steps t (s\<lparr>rs_steps := steps\<rparr>)"
      using 2(3,4) by (auto simp: later_steps_def)
    have "adds_after t s m" using advance_step_adds [OF m(1) wf(1)] wf(2) by (auto simp: adds_after_def filter_empty_conv)
    moreover have "later_steps t m" "rs_steps m = steps"
      using wf(3) advance_step_steps [OF m(1)] by (simp_all add: later_steps_def)
    ultimately show ?thesis using 2(1) [OF False m(2)] adds_after_trans by blast
  qed (use 2 in auto)
qed simp

lemma register_later:
  "t < d \<Longrightarrow> adds_after t s (fold (\<lambda>(i, q). register ops d i q (bars i)) ds s) \<and>
     rs_steps (fold (\<lambda>(i, q). register ops d i q (bars i)) ds s) = rs_steps s"
proof (induction ds arbitrary: s)
  case (Cons x ds)
  obtain i q where x: "x = (i, q)" by (cases x)
  have "adds_after t s (register ops d i q (bars i) s)" "rs_steps (register ops d i q (bars i) s) = rs_steps s"
    using Cons.prems by (auto simp: register_def adds_after_def)
  with Cons.IH [OF Cons.prems, of "register ops d i q (bars i) s"] show ?case
    by (auto simp: x intro: adds_after_trans)
qed simp

lemma decide_at_later:
  assumes "t < d" "later_steps t s" "decide_at ops ch request cs d (s, ds) = Ok (s', ds')"
  shows "adds_after t s s' \<and> later_steps t s' \<and> (\<exists>r. ds' = ds @ [r] \<and> rd_decision_time r = d)"
  using assms(3)
proof (rule decide_at_Ok)
  fix m visible view target
  assume m: "advance ops ch (Some d) s = Ok m"
    and s': "s' = fold (\<lambda>(i, q). register ops d i q (execution_bars cs i d)) (deltas_toward ops (projected_book ops m) target) m"
    and ds': "ds' = ds @ [\<lparr>rd_decision_time = d,
       rd_inputs_visible_through = (if filter (policy_covers (rq_policy request)) visible = [] then None
         else Some (Max (bar_visible_at ` set (filter (policy_covers (rq_policy request)) visible)))),
       rd_input_bar_count = length (filter (policy_covers (rq_policy request)) visible), rd_target = target\<rparr>]"
  have "adds_after t s m \<and> later_steps t m"
    using m advance_steps_later [OF _ refl assms(2)] by (simp add: advance_def)
  moreover have "adds_after t m s' \<and> rs_steps s' = rs_steps m"
    unfolding s' by (rule register_later [OF assms(1)])
  ultimately show ?thesis using ds' by (auto simp: later_steps_def intro: adds_after_trans)
qed


section \<open>Whole replays\<close>

lemma bt_insert_same_step:
  "list_all2 (same_step t) m n \<Longrightarrow> list_all2 (same_slot t) v w \<Longrightarrow> list_all2 (same_step t) (bt_insert k v m) (bt_insert k w n)"
proof (induction m n rule: list_all2_induct)
  case (Cons x m y n)
  then show ?case by (cases x; cases y) (auto simp: same_step_def)
qed (simp add: same_step_def)

lemma map_of_same_step:
  "list_all2 (same_step t) m n \<Longrightarrow>
     list_all2 (same_slot t) (case map_of m k of None \<Rightarrow> [] | Some bs \<Rightarrow> bs) (case map_of n k of None \<Rightarrow> [] | Some bs \<Rightarrow> bs)"
proof (induction m n rule: list_all2_induct)
  case (Cons x m y n)
  then show ?case by (cases x; cases y) (auto simp: same_step_def)
qed simp

lemma steps_of_same:
  assumes "list_all2 (same_slot t) xs ys"
  shows "list_all2 (same_step t) (steps_of xs) (steps_of ys)"
proof -
  have "list_all2 (same_step t) (fold add_to_step xs m) (fold add_to_step ys n)" if "list_all2 (same_step t) m n" for m n
    using assms that
  proof (induction xs ys arbitrary: m n rule: list_all2_induct)
    case (Cons x xs y ys)
    have "list_all2 (same_step t) (add_to_step x m) (add_to_step y n)"
      using Cons.hyps(1) map_of_same_step [OF Cons.prems, of "bar_end x"]
      unfolding add_to_step_def
      by (auto simp: same_slot_def intro!: bt_insert_same_step [OF Cons.prems] list_all2_appendI)
    then show ?case using Cons.IH by simp
  qed simp
  then show ?thesis by (simp add: steps_of_def)
qed

text \<open>The steps of a replay at any time: a suffix of the sorted, well-formed initial ones.\<close>

definition steps_ok :: "(utc_instant \<times> bar list) list \<Rightarrow> bool" where
  "steps_ok steps \<longleftrightarrow> steps_wf steps \<and> bt_ok steps"

lemma steps_ok_of: "\<forall>b \<in> set bars. bar_end b \<le> bar_visible_at b \<Longrightarrow> steps_ok (steps_of bars)"
  using steps_of_set by (fastforce simp: steps_ok_def steps_wf_def steps_of_ok)

lemma steps_ok_dropWhile: "steps_ok xs \<Longrightarrow> steps_ok (dropWhile P xs)"
proof (induction xs)
  case (Cons x xs)
  then show ?case by (cases x) (auto simp: steps_ok_def bt_ok_Cons)
qed simp

lemma later_after:
  assumes "advance ops ch (Some t) s = Ok m" "steps_ok (rs_steps s)"
  shows "later_steps t m"
proof -
  have rest: "rs_steps m = dropWhile (\<lambda>x. \<not> fst x > t) (rs_steps s)"
    using advance_steps_rest [OF assms(1) [unfolded advance_def] refl] by simp
  have "t < e" if "(e, bars) \<in> set (dropWhile (\<lambda>x. \<not> fst x > t) xs)" "bt_ok xs" for e bars xs
    using that
  proof (induction xs)
    case (Cons x xs)
    then show ?case by (cases x) (fastforce simp: bt_ok_Cons split: if_splits)
  qed simp
  then show ?thesis
    using steps_ok_dropWhile [OF assms(2)] assms(2) by (auto simp: later_steps_def rest steps_ok_def)
qed

lemma decide_at_steps:
  assumes "decide_at ops ch request cs d (s, ds) = Ok (s', ds')" "steps_ok (rs_steps s)"
  shows "steps_ok (rs_steps s') \<and> (\<exists>r. ds' = ds @ [r] \<and> rd_decision_time r = d)"
  using assms(1)
proof (rule decide_at_Ok)
  fix m visible view target
  assume m: "advance ops ch (Some d) s = Ok m"
    and s': "s' = fold (\<lambda>(i, q). register ops d i q (execution_bars cs i d)) (deltas_toward ops (projected_book ops m) target) m"
    and ds': "ds' = ds @ [\<lparr>rd_decision_time = d,
       rd_inputs_visible_through = (if filter (policy_covers (rq_policy request)) visible = [] then None
         else Some (Max (bar_visible_at ` set (filter (policy_covers (rq_policy request)) visible)))),
       rd_input_bar_count = length (filter (policy_covers (rq_policy request)) visible), rd_target = target\<rparr>]"
  have "rs_steps (fold (\<lambda>(i, q). register ops d i q (execution_bars cs i d)) xs m) = rs_steps m" for xs m
    by (induction xs arbitrary: m) (auto simp: register_def)
  then have "steps_ok (rs_steps s')"
    using steps_ok_dropWhile [OF assms(2)] advance_steps_rest [OF m [unfolded advance_def] refl] by (simp add: s')
  then show ?thesis using ds' by simp
qed


lemma decide_all_lockstep:
  assumes agree: "agree_until t (rq_data request) data" "\<forall>b \<in> set (pb_all_bars (rq_data request)). bar_end b \<le> bar_visible_at b"
    and ports: "point_in_time_port (rq_data request)" "point_in_time_port data"
    and cover: "list_all2 (same_slot t) cs cs'"
  shows "\<forall>d \<in> set ts. d \<le> t \<Longrightarrow> lockstep t s u \<Longrightarrow> steps_ok (rs_steps s) \<Longrightarrow>
    try_fold (decide_at ops ch request cs) ts (s, ds) = Ok (s', ds1) \<Longrightarrow>
    try_fold (decide_at ops ch (request\<lparr>rq_data := data\<rparr>) cs') ts (u, ds) = Ok (u', ds2) \<Longrightarrow>
    lockstep t s' u' \<and> ds2 = ds1 \<and> steps_ok (rs_steps s')"
proof (induction ts arbitrary: s u ds)
  case (Cons d ts)
  obtain s1 d1 where s1: "decide_at ops ch request cs d (s, ds) = Ok (s1, d1)"
    "try_fold (decide_at ops ch request cs) ts (s1, d1) = Ok (s', ds1)"
    using Cons.prems(4) by (auto simp: and_then_eq_Ok)
  obtain u1 d2 where u1: "decide_at ops ch (request\<lparr>rq_data := data\<rparr>) cs' d (u, ds) = Ok (u1, d2)"
    "try_fold (decide_at ops ch (request\<lparr>rq_data := data\<rparr>) cs') ts (u1, d2) = Ok (u', ds2)"
    using Cons.prems(5) by (auto simp: and_then_eq_Ok)
  have "d \<le> t" "steps_wf (rs_steps s)" using Cons.prems(1,3) by (simp_all add: steps_ok_def)
  from decide_at_lockstep [OF agree ports this(1) cover Cons.prems(2) this(2) s1(1) u1(1)]
  have "lockstep t s1 u1" "d2 = d1" by simp_all
  moreover have "steps_ok (rs_steps s1)" using decide_at_steps [OF s1(1) Cons.prems(3)] by simp
  ultimately show ?case using Cons.IH [of s1 u1 d1] Cons.prems(1) s1(2) u1(2) by simp
qed simp

text \<open>Decisions after \<open>t\<close> and the rest of the run only add to what the state at \<open>t\<close> reports.\<close>

lemma decide_all_later:
  "\<forall>d \<in> set ts. t < d \<Longrightarrow> later_steps t s \<Longrightarrow> try_fold (decide_at ops ch request cs) ts (s, ds) = Ok (s', ds') \<Longrightarrow>
     adds_after t s s' \<and> later_steps t s' \<and> (\<exists>more. ds' = ds @ more \<and> (\<forall>r \<in> set more. t < rd_decision_time r))"
proof (induction ts arbitrary: s ds)
  case (Cons d ts)
  obtain s1 d1 where s1: "decide_at ops ch request cs d (s, ds) = Ok (s1, d1)"
    "try_fold (decide_at ops ch request cs) ts (s1, d1) = Ok (s', ds')"
    using Cons.prems(3) by (auto simp: and_then_eq_Ok)
  have "t < d" using Cons.prems(1) by simp
  with decide_at_later [OF this Cons.prems(2) s1(1)] Cons.IH [OF _ _ s1(2)] Cons.prems(1) show ?case
    by (auto intro: adds_after_trans)
qed simp

lemma decide_at_resume:
  assumes "t < d" "decide_at ops ch request cs d (s, ds) = Ok x"
  obtains m where "advance ops ch (Some t) s = Ok m" "decide_at ops ch request cs d (m, ds) = Ok x"
proof -
  obtain n where n: "advance ops ch (Some d) s = Ok n"
    using assms(2) by (auto simp: decide_at_def and_then_eq_Ok map_err_eq_Ok)
  from assms(1) have "\<forall>limit \<in> set_option (Some d). t \<le> limit" by simp
  then obtain m where m: "advance ops ch (Some t) s = Ok m" "advance ops ch (Some d) m = Ok n"
    using n by (rule advance_split)
  have "decide_at ops ch request cs d (m, ds) = decide_at ops ch request cs d (s, ds)"
    unfolding decide_at_def prod.case m(2) n ..
  with m(1) assms(2) show ?thesis by (simp add: that)
qed

lemma run_after:
  assumes later: "\<forall>d \<in> set ts. t < d" and steps: "steps_ok (rs_steps s)"
    and run: "try_fold (decide_at ops ch request cs) ts (s, ds) = Ok (s', ds')" "advance ops ch None s' = Ok s''"
  obtains m more where "advance ops ch (Some t) s = Ok m" "adds_after t m s''"
    "ds' = ds @ more" "\<forall>r \<in> set more. t < rd_decision_time r"
proof (cases ts)
  case Nil
  then have "s' = s" "ds' = ds" using run(1) by simp_all
  then obtain m where m: "advance ops ch (Some t) s = Ok m" "advance ops ch None m = Ok s''"
    using advance_split [of None t ops ch s s''] run(2) by auto
  then have "adds_after t m s''"
    using advance_steps_later [OF _ refl later_after [OF m(1) steps]] by (simp add: advance_def)
  with m(1) \<open>ds' = ds\<close> show ?thesis by (intro that) auto
next
  case (Cons d rest)
  obtain s1 d1 where s1: "decide_at ops ch request cs d (s, ds) = Ok (s1, d1)"
    "try_fold (decide_at ops ch request cs) rest (s1, d1) = Ok (s', ds')"
    using run(1) by (auto simp: Cons and_then_eq_Ok)
  have "t < d" using later by (simp add: Cons)
  then obtain m where m: "advance ops ch (Some t) s = Ok m" "decide_at ops ch request cs d (m, ds) = Ok (s1, d1)"
    using s1(1) by (rule decide_at_resume)
  have "try_fold (decide_at ops ch request cs) ts (m, ds) = Ok (s', ds')" using m(2) s1(2) by (simp add: Cons)
  from decide_all_later [OF later later_after [OF m(1) steps] this]
  obtain more where "adds_after t m s'" "later_steps t s'" and more: "ds' = ds @ more" "\<forall>r \<in> set more. t < rd_decision_time r"
    by blast
  moreover from this have "adds_after t s' s''"
    using advance_steps_later [OF _ refl] run(2) unfolding advance_def by blast
  ultimately show ?thesis using m(1) adds_after_trans by (intro that) blast+
qed


lemma sorted_split_at:
  fixes xs :: "utc_instant list"
  assumes "sorted_wrt (<) xs"
  obtains before after where "xs = before @ after" "\<forall>d \<in> set before. d \<le> t" "\<forall>d \<in> set after. t < d"
proof
  show "xs = takeWhile (\<lambda>d. d \<le> t) xs @ dropWhile (\<lambda>d. d \<le> t) xs" by simp
  show "\<forall>d \<in> set (takeWhile (\<lambda>d. d \<le> t) xs). d \<le> t" by (auto dest: set_takeWhileD)
  show "\<forall>d \<in> set (dropWhile (\<lambda>d. d \<le> t) xs). t < d"
    using assms
  proof (induction xs)
    case (Cons x xs)
    then show ?case by (auto dest: order.strict_trans)
  qed simp
qed

lemma slots_visible:
  "list_all2 (same_slot t) xs ys \<Longrightarrow> \<forall>b \<in> set xs. bar_end b \<le> bar_visible_at b \<Longrightarrow>
     \<forall>b \<in> set ys. bar_end b \<le> bar_visible_at b"
  by (induction xs ys rule: list_all2_induct) (auto simp: same_slot_def)

lemma agree_covered:
  "agree_until t (rq_data request) data \<Longrightarrow>
     list_all2 (same_slot t) (covered_bars request) (covered_bars (request\<lparr>rq_data := data\<rparr>))"
  unfolding covered_bars_def agree_until_def
  by (auto intro!: list_all2_filter_related simp: same_slot_def policy_covers_def)

lemma slots_decisions: "list_all2 (same_slot t) xs ys \<Longrightarrow> decision_times_of ys = decision_times_of xs"
  using list_all2_map_related [of "same_slot t" xs ys bar_visible_at bar_visible_at]
  by (simp add: decision_times_of_def same_slot_def)

lemma initial_lockstep:
  assumes "agree_until t (rq_data request) data"
  shows "lockstep t (initial_state ops request costs constraints) (initial_state ops (request\<lparr>rq_data := data\<rparr>) costs constraints)"
  using steps_of_same [OF agree_covered [OF assms]] assms by (simp add: initial_state_def lockstep_def agree_until_def)

lemma initial_steps_ok:
  "\<forall>b \<in> set (pb_all_bars (rq_data request)). bar_end b \<le> bar_visible_at b \<Longrightarrow>
     steps_ok (rs_steps (initial_state ops request costs constraints))"
  by (auto simp: initial_state_def covered_bars_def intro: steps_ok_of)

text \<open>What one replay reports through \<open>t\<close>, read off its state after the decisions by \<open>t\<close>.\<close>

lemma replay_through:
  assumes run: "replay_bars ds ops ch sha256 request = Ok r"
    and split: "decision_times_of (covered_bars request) = before @ after" "\<forall>d \<in> set after. t < d"
    and bars: "\<forall>b \<in> set (pb_all_bars (rq_data request)). bar_end b \<le> bar_visible_at b"
  obtains costs constraints s m decisions where
    "cost_model_from_declaration ops (rq_cost_model request) (rq_cost_parameters request) = Ok costs"
    "enforced_constraints ops request (hd (decision_times_of (covered_bars request))) = Ok constraints"
    "try_fold (decide_at ops ch request (covered_bars request)) before
       (initial_state ops request costs constraints, []) = Ok (s, decisions)"
    "advance ops ch (Some t) s = Ok m"
    "result_through t r =
       (filter (\<lambda>d. rd_decision_time d \<le> t) decisions,
        sort_key fill_key (filter (\<lambda>f. sf_effective_at f \<le> t) (rs_fills m)),
        filter (\<lambda>row. pl_known_at row \<le> t) (lg_rows (rs_ledger m)))"
proof -
  let ?step = "decide_at ops ch request (covered_bars request)"
  obtain costs constraints s' s'' decisions where
    head: "cost_model_from_declaration ops (rq_cost_model request) (rq_cost_parameters request) = Ok costs"
      "enforced_constraints ops request (hd (decision_times_of (covered_bars request))) = Ok constraints"
    and all: "try_fold ?step (decision_times_of (covered_bars request)) (initial_state ops request costs constraints, [])
      = Ok (s', decisions)"
    and tail: "advance ops ch None s' = Ok s''"
    and result: "simulation_result_new ds ops sha256 (replay_identity_of sha256 request constraints) decisions
       (sort_key fill_key (rs_fills s'')) (lg_rows (rs_ledger s'')) (lg_book (rs_ledger s'')) = Ok r"
    using run by (rule replay_bars_Ok)
  obtain s early where early: "try_fold ?step before (initial_state ops request costs constraints, []) = Ok (s, early)"
    and late: "try_fold ?step after (s, early) = Ok (s', decisions)"
    using all by (auto simp: split(1) try_fold_append and_then_eq_Ok)
  have "steps_ok (rs_steps (fst (s, early)))"
    using early
  proof (rule try_fold_invariant [where I = "\<lambda>x. steps_ok (rs_steps (fst x))"])
    show "steps_ok (rs_steps (fst (initial_state ops request costs constraints, [])))"
      using initial_steps_ok [OF bars] by simp
    show "steps_ok (rs_steps (fst y))" if "steps_ok (rs_steps (fst x))" "?step d x = Ok y" for d x y
      using that decide_at_steps by (cases x; cases y) fastforce
  qed
  then have "steps_ok (rs_steps s)" by simp
  with split(2) obtain m more where m: "advance ops ch (Some t) s = Ok m" "adds_after t m s''"
    and more: "decisions = early @ more" "\<forall>x \<in> set more. t < rd_decision_time x"
    using late tail by (rule run_after)
  have "filter (\<lambda>d. rd_decision_time d \<le> t) more = []" using more(2) by (auto simp: filter_empty_conv)
  then have "result_through t r =
       (filter (\<lambda>d. rd_decision_time d \<le> t) early,
        sort_key fill_key (filter (\<lambda>f. sf_effective_at f \<le> t) (rs_fills m)),
        filter (\<lambda>row. pl_known_at row \<le> t) (lg_rows (rs_ledger m)))"
    using m(2) by (simp add: result_through_def simulation_result_Ok [OF result] more(1) filter_sort adds_after_def)
  with head early m(1) show ?thesis by (rule that)
qed

end
