(* ===== verification/Replay_Reports.thy ===== *)
theory Replay_Reports
  imports Replay_Causality
begin

text \<open>
  What a whole replay reports: no look-ahead, with two replays run to the end by the simplifier as
  its instance, and the one thing that later data do change, the report of a trade that had no bar
  left to execute in.
\<close>

section \<open>No look-ahead\<close>

text \<open>
  C3: no look-ahead. Take two replays of the same request on two data ports whose
  bars keep the same schedule (instrument, start, end, visibility, record) and are equal wherever a bar
  ends by \<open>t\<close>; the ports serve point-in-time reads and every bar becomes visible no earlier than it
  ends, as \<open>Bar::new\<close> enforces. If both return, the decisions, the fills and the rows reported
  through \<open>t\<close> are identical: prices and volumes of later bars never reach them.
\<close>

theorem replay_no_look_ahead:
  assumes agree: "agree_until t (rq_data request) data"
    and bars: "\<forall>b \<in> set (pb_all_bars (rq_data request)). bar_end b \<le> bar_visible_at b"
    and ports: "point_in_time_port (rq_data request)" "point_in_time_port data"
    and run: "replay_bars ds ops ch sha256 request = Ok r" "replay_bars ds ops ch sha256 (request\<lparr>rq_data := data\<rparr>) = Ok r'"
  shows "result_through t r = result_through t r'"
proof -
  let ?request' = "request\<lparr>rq_data := data\<rparr>"
  have bars': "\<forall>b \<in> set (pb_all_bars (rq_data ?request')). bar_end b \<le> bar_visible_at b"
    using agree bars slots_visible by (auto simp: agree_until_def)
  note cover = agree_covered [OF agree]
  note decisions = slots_decisions [OF cover]
  have enforced: "enforced_constraints ops ?request' d = enforced_constraints ops request d" for d
    by (simp add: enforced_constraints_def Let_def split: option.split)
  obtain before after where split: "decision_times_of (covered_bars request) = before @ after"
    "\<forall>d \<in> set before. d \<le> t" "\<forall>d \<in> set after. t < d"
    using sorted_decision_times by (rule sorted_split_at)
  obtain costs constraints s m early where
    s: "cost_model_from_declaration ops (rq_cost_model request) (rq_cost_parameters request) = Ok costs"
      "enforced_constraints ops request (hd (decision_times_of (covered_bars request))) = Ok constraints"
      "try_fold (decide_at ops ch request (covered_bars request)) before
         (initial_state ops request costs constraints, []) = Ok (s, early)"
      "advance ops ch (Some t) s = Ok m"
    and r: "result_through t r =
       (filter (\<lambda>d. rd_decision_time d \<le> t) early,
        sort_key fill_key (filter (\<lambda>f. sf_effective_at f \<le> t) (rs_fills m)),
        filter (\<lambda>row. pl_known_at row \<le> t) (lg_rows (rs_ledger m)))"
    using run(1) split(1,3) bars by (rule replay_through)
  from run(2) split(1,3) bars' obtain u n early' where
    u: "try_fold (decide_at ops ch ?request' (covered_bars ?request')) before
         (initial_state ops ?request' costs constraints, []) = Ok (u, early')"
      "advance ops ch (Some t) u = Ok n"
    and r': "result_through t r' =
       (filter (\<lambda>d. rd_decision_time d \<le> t) early',
        sort_key fill_key (filter (\<lambda>f. sf_effective_at f \<le> t) (rs_fills n)),
        filter (\<lambda>row. pl_known_at row \<le> t) (lg_rows (rs_ledger n)))"
    unfolding decisions [symmetric] by (rule replay_through) (use s(1,2) in \<open>auto simp: decisions enforced\<close>)
  from decide_all_lockstep [OF agree bars ports cover split(2) initial_lockstep [OF agree] initial_steps_ok [OF bars] s(3) u(1)]
  have same: "lockstep t s u" "early' = early" "steps_wf (rs_steps s)" by (simp_all add: steps_ok_def)
  obtain n' where "advance ops ch (Some t) u = Ok n'" "lockstep t m n'"
    using advance_lockstep [OF order_refl same(3,1) s(4)] by blast
  with u(2) have "lockstep t m n" by simp
  from lockstepD(1,2) [OF this] show ?thesis by (simp add: r r' same(2))
qed

section \<open>Trades without a later bar\<close>

text \<open>
  A fill takes effect after its decision, unless it reports that no bar of the instrument starts at
  or after the decision.
\<close>

definition timely :: "'d decimal_ops \<Rightarrow> bar list \<Rightarrow> 'd simulated_fill \<Rightarrow> bool" where
  "timely ops covered f \<longleftrightarrow> sf_decision_time f < sf_effective_at f \<or>
     (execution_bars covered (sf_instrument f) (sf_decision_time f) = [] \<and>
      (\<exists>q source. f = no_later_bar ops (sf_decision_time f) (sf_instrument f) q (sf_decision_time f) source))"

definition awaits_later :: "'d pending_trade \<Rightarrow> bool" where
  "awaits_later p \<longleftrightarrow> (\<forall>b \<in> set (pt_bars p). pt_decision_time p < bar_end b)"

definition punctual :: "'d decimal_ops \<Rightarrow> bar list \<Rightarrow> 'd replay_state \<Rightarrow> bool" where
  "punctual ops covered s \<longleftrightarrow>
     (\<forall>f \<in> set (rs_fills s). timely ops covered f) \<and> (\<forall>p \<in> set (rs_pending s). awaits_later p)"

lemma constrained_attempt_decision:
  "constrained_attempt ops p b used s = Ok a \<Longrightarrow> sf_decision_time a = pt_decision_time p"
  by (erule constrained_attempt_cases [OF _ refl]) (simp_all add: constrain_def Let_def)

lemma execute_due_timely:
  assumes "execute_due ops e p used s = Ok (p', used', s')" "awaits_later p"
    and "\<forall>f \<in> set (rs_fills s). timely ops covered f"
  shows "awaits_later p' \<and> (\<forall>f \<in> set (rs_fills s'). timely ops covered f)"
proof (cases "\<exists>b bs. pt_bars p = b # bs \<and> bar_end b = e \<and> \<not> d_is_zero ops (pt_remaining p)")
  case False
  then have "p' = p \<and> s' = s" using assms(1) by (auto simp: execute_due_def split: list.splits if_splits)
  with assms show ?thesis by simp
next
  case True
  then obtain b bs where b: "pt_bars p = b # bs" "bar_end b = e" "\<not> d_is_zero ops (pt_remaining p)" by blast
  with assms(1) obtain a l where
    a: "constrained_attempt ops p b (used_in ops used (source_record_id b)) s = Ok a" and l: "settle ops a (rs_ledger s) = Ok l"
    by (auto simp: execute_due_def result_simps)
  have "pt_decision_time p < e" using assms(2) b by (simp add: awaits_later_def)
  then have "timely ops covered a" "timely ops covered (no_later_bar ops (pt_decision_time p) i q (sf_effective_at a) ps)" for i q ps
    using constrained_attempt_decision [OF a] constrained_attempt_effective [OF a] b(2)
    by (simp_all add: timely_def no_later_bar_def)
  then show ?thesis
    using assms b by (auto simp: execute_due_def a l Let_def awaits_later_def)
qed

lemma advance_step_punctual:
  assumes "advance_step ops ch e bars s = Ok s'" "punctual ops covered s"
  shows "punctual ops covered s'"
proof -
  obtain l ps used m l' where
    run: "try_fold (execute_pending ops e) (rs_pending s) ([], [], s\<lparr>rs_ledger := l, rs_pending := []\<rparr>) = Ok (ps, used, m)"
    and s': "s' = m\<lparr>rs_ledger := l', rs_pending := filter (\<lambda>t. \<not> d_is_zero ops (pt_remaining t)) ps\<rparr>"
    using assms(1) by (auto simp: advance_step_def result_simps)
  let ?I = "\<lambda>x. (\<forall>p \<in> set (fst x). awaits_later p) \<and> (\<forall>f \<in> set (rs_fills (snd (snd x))). timely ops covered f)"
  have "?I (ps, used, m)"
    using run
  proof (rule try_fold_invariant [where I = ?I])
    show "?I y" if "p \<in> set (rs_pending s)" "?I x" "execute_pending ops e p x = Ok y" for p x y
    proof -
      obtain qs u n where x: "x = (qs, u, n)" by (cases x)
      with that(3) obtain p' u' n' where due: "execute_due ops e p u n = Ok (p', u', n')" and y: "y = (qs @ [p'], u', n')"
        by (auto simp: execute_pending_def result_simps)
      have "awaits_later p" using assms(2) that(1) by (simp add: punctual_def)
      then show ?thesis using execute_due_timely [OF due] that(2) by (auto simp: x y)
    qed
  qed (use assms(2) in \<open>simp add: punctual_def\<close>)
  then show ?thesis by (simp add: s' punctual_def)
qed

lemma advance_punctual:
  assumes "advance ops ch until s = Ok s'" "punctual ops covered s"
  shows "punctual ops covered s'"
proof -
  have "punctual ops covered s'" if "advance_steps ops ch until xs u = Ok s'" "punctual ops covered u" for xs u
    using that
  proof (induction ops ch until xs u rule: advance_steps.induct)
    case (2 ops ch until e bs steps u)
    show ?case
    proof (cases "\<exists>limit \<in> set_option until. limit < e")
      case False
      then obtain m where m: "advance_step ops ch e bs (u\<lparr>rs_steps := steps\<rparr>) = Ok m" "advance_steps ops ch until steps m = Ok s'"
        using 2(2) by (auto simp: result_simps)
      have "punctual ops covered (u\<lparr>rs_steps := steps\<rparr>)" using 2(3) by (simp add: punctual_def)
      then show ?thesis using 2(1) [OF False m(2)] advance_step_punctual [OF m(1)] by blast
    qed (use 2 in simp)
  qed simp
  from this [OF assms(1) [unfolded advance_def] assms(2)] show ?thesis .
qed

lemma register_punctual:
  assumes "\<forall>b \<in> set covered. bar_start b < bar_end b" "punctual ops covered s"
  shows "punctual ops covered (register ops d i q (execution_bars covered i d) s)"
proof -
  have "awaits_later \<lparr>pt_decision_time = d, pt_instrument = i, pt_intent = q, pt_remaining = q,
      pt_bars = execution_bars covered i d\<rparr>"
    using assms(1) by (auto simp: awaits_later_def execution_bars_def)
  moreover have "timely ops covered (no_later_bar ops d i q d source)" if "execution_bars covered i d = []" for source
    using that by (auto simp: timely_def no_later_bar_def)
  ultimately show ?thesis using assms(2) by (simp add: register_def punctual_def)
qed

lemma decide_at_punctual:
  assumes "\<forall>b \<in> set covered. bar_start b < bar_end b" "punctual ops covered s"
    and "decide_at ops ch request covered d (s, ds) = Ok (s', ds')"
  shows "punctual ops covered s'"
  using assms(3)
proof (rule decide_at_Ok)
  fix m target
  assume m: "advance ops ch (Some d) s = Ok m"
    and s': "s' = fold (\<lambda>(i, q). register ops d i q (execution_bars covered i d)) (deltas_toward ops (projected_book ops m) target) m"
  have "punctual ops covered (fold (\<lambda>(i, q). register ops d i q (execution_bars covered i d)) xs u)"
    if "punctual ops covered u" for xs u
    using that by (induction xs arbitrary: u) (auto simp: register_punctual [OF assms(1)])
  then show ?thesis using advance_punctual [OF m assms(2)] by (simp add: s')
qed

lemma replay_fills_timely:
  assumes "replay_bars ds ops ch sha256 request = Ok r" "\<forall>b \<in> set (covered_bars request). bar_start b < bar_end b"
    and "f \<in> set (sm_fills r)"
  shows "timely ops (covered_bars request) f"
proof -
  let ?bars = "covered_bars request"
  obtain costs constraints s s' decisions where
    run: "try_fold (decide_at ops ch request ?bars) (decision_times_of ?bars) (initial_state ops request costs constraints, [])
       = Ok (s, decisions)" "advance ops ch None s = Ok s'"
    and result: "simulation_result_new ds ops sha256 (replay_identity_of sha256 request constraints) decisions
       (sort_key fill_key (rs_fills s')) (lg_rows (rs_ledger s')) (lg_book (rs_ledger s')) = Ok r"
    using assms(1) by (rule replay_bars_Ok)
  have "punctual ops ?bars (fst (s, decisions))"
    using run(1)
  proof (rule try_fold_invariant [where I = "\<lambda>x. punctual ops ?bars (fst x)"])
    show "punctual ops ?bars (fst y)" if "punctual ops ?bars (fst x)" "decide_at ops ch request ?bars d x = Ok y" for d x y
      using decide_at_punctual [OF assms(2), of ops "fst x" ch request d "snd x" "fst y" "snd y"] that by simp
  qed (simp add: punctual_def initial_state_def)
  then have "punctual ops ?bars s'" using advance_punctual [OF run(2)] by simp
  then show ?thesis using assms(3) by (simp add: punctual_def simulation_result_Ok(2) [OF result])
qed

text \<open>
  C20: a trade reported at its own decision time is one without a later bar, and appending such a
  bar changes the report of the past. In any arithmetic and for any policy, a fill record effective
  at its decision time is the \<open>NO_LATER_BAR\<close> record, with nothing executed. If the same request is
  replayed on data that cover a bar of the instrument starting at or after that time (so one
  that ends later), then the report through that time no longer has the record, nor any other of that decision
  and instrument: whatever the replay reports of the trade takes effect later. Bars end after they
  start, as \<open>Bar::new\<close> enforces.
\<close>

theorem later_bar_changes_fills:
  assumes run: "replay_bars ds ops ch sha256 request = Ok r" "replay_bars ds ops ch sha256 (request\<lparr>rq_data := data\<rparr>) = Ok r'"
    and bars: "\<forall>b \<in> set (pb_all_bars (rq_data request)) \<union> set (pb_all_bars data). bar_start b < bar_end b"
    and f: "f \<in> set (sm_fills r)" "sf_effective_at f = sf_decision_time f"
    and later: "b \<in> set (covered_bars (request\<lparr>rq_data := data\<rparr>))" "bar_instrument b = sf_instrument f" "sf_decision_time f \<le> bar_start b"
  shows "sf_no_fill f = Some NoLaterBar \<and> sf_execution_bar f = None \<and> sf_quantity f = d_zero ops \<and>
    f \<in> set (fst (snd (result_through (sf_decision_time f) r))) \<and>
    \<not> (\<exists>g \<in> set (fst (snd (result_through (sf_decision_time f) r'))).
        sf_decision_time g = sf_decision_time f \<and> sf_instrument g = sf_instrument f) \<and>
    result_through (sf_decision_time f) r \<noteq> result_through (sf_decision_time f) r'"
proof -
  have "timely ops (covered_bars request) f"
    using bars by (intro replay_fills_timely [OF run(1) _ f(1)]) (auto simp: covered_bars_def)
  then obtain q source where q: "f = no_later_bar ops (sf_decision_time f) (sf_instrument f) q (sf_decision_time f) source"
    using f(2) by (auto simp: timely_def)
  have reported: "sf_no_fill f = Some NoLaterBar" "sf_execution_bar f = None" "sf_quantity f = d_zero ops"
    by (subst q, simp add: no_later_bar_def)+
  have here: "f \<in> set (fst (snd (result_through (sf_decision_time f) r)))"
    using f by (simp add: result_through_def)
  have waits: "execution_bars (covered_bars (request\<lparr>rq_data := data\<rparr>)) (sf_instrument f) (sf_decision_time f) \<noteq> []"
    using later by (auto simp: execution_bars_def filter_empty_conv simp flip: set_empty)
  have gone: "\<not> (\<exists>g \<in> set (fst (snd (result_through (sf_decision_time f) r'))).
      sf_decision_time g = sf_decision_time f \<and> sf_instrument g = sf_instrument f)"
  proof
    assume "\<exists>g \<in> set (fst (snd (result_through (sf_decision_time f) r'))).
      sf_decision_time g = sf_decision_time f \<and> sf_instrument g = sf_instrument f"
    then obtain g where g: "g \<in> set (sm_fills r')" "sf_effective_at g \<le> sf_decision_time f"
      "sf_decision_time g = sf_decision_time f" "sf_instrument g = sf_instrument f"
      by (auto simp: result_through_def)
    have "timely ops (covered_bars (request\<lparr>rq_data := data\<rparr>)) g"
      using bars by (intro replay_fills_timely [OF run(2) _ g(1)]) (auto simp: covered_bars_def)
    then show False using g waits by (auto simp: timely_def)
  qed
  then have "result_through (sf_decision_time f) r \<noteq> result_through (sf_decision_time f) r'" using here by auto
  with reported here gone show ?thesis by blast
qed

section \<open>A sample request\<close>

definition sample_instant :: "i64 \<Rightarrow> market_time" where
  "sample_instant seconds = \<lparr>mt_instant = UtcInstant seconds 0, mt_timezone = ''UTC'', mt_local_date = NaiveDate 2026 1 5\<rparr>"

definition sample_policy :: "rat policy_artifact" where
  "sample_policy = \<lparr>pa_input = \<lparr>pi_policy_artifact_id = vr_id sample_bond,
     pi_owner = \<lparr>tenant_id = vr_id sample_bond, owner_id = vr_id sample_bond\<rparr>,
     pi_family = YIELD_THRESHOLD_FAMILY, pi_family_version = 1,
     pi_parameters = [(''entry_yield'', 2), (''exit_yield'', 1), (''target_face'', 100)],
     pi_universe = [sample_bond], pi_frequency = M1, pi_settlement = T1,
     pi_valid = \<lparr>ep_from = sample_instant 0, ep_to = sample_instant 600\<rparr>,
     pi_execution = \<lparr>er_participation_cap = 1 / 10, er_remainder = Cancel\<rparr>,
     pi_constraints = [], pi_calibration = None\<rparr>, pa_content_hash = zero_hash\<rparr>"

definition sample_data :: "bar list \<Rightarrow> data_error point_in_time_bars" where
  "sample_data bars = snapshot_port \<lparr>vb_snapshot = (vr_id sample_bond, zero_hash), vb_visible_at = UtcInstant 600 0,
     vb_bars = bars, vb_price_source_type = RealTrade\<rparr>"

definition sample_request :: "bar list \<Rightarrow> (rat, data_error) bar_replay_request" where
  "sample_request bars =
     \<lparr>rq_policy = sample_policy, rq_evaluator = yield_threshold_policy rat_ops, rq_data = sample_data bars,
      rq_subject = \<lparr>sv_reference = sample_bond, sv_access_set = \<lparr>as_market_codes = [''X''], as_tool_codes = [''B'']\<rparr>, sv_funding_tier = DrAvailable,
        
        sv_tax_treatment = \<lparr>tt_value_added_tax_profile = ''v'', tt_income_tax_profile = ''i''\<rparr>, sv_assessment_mechanism = ''a'', sv_liability_profile = ''l'',
        sv_constraint_set_ref = None\<rparr>,
      rq_subject_state = \<lparr>ss_snapshot_id = vr_id sample_bond, ss_subject_ref = sample_bond,
        ss_net_capital = sample_value ''99'', ss_limit_ceilings = [], ss_observed_at = UtcInstant 0 0,
        ss_visible_at = UtcInstant 0 0, ss_market_timezone = ''UTC'', ss_owner = None\<rparr>,
      rq_constraints = None, rq_funding = sample_funding, rq_carry = sample_carry,
      rq_cost_model = COST_NONE, rq_cost_parameters = [], rq_seed = 0, rq_code = zero_hash, rq_runtime = zero_hash\<rparr>"

definition first_bar :: bar where
  "first_bar = sample_bar sample_bond ''r1'' 0 ''99'' ''5000'' ''3''"

definition second_bar :: "string \<Rightarrow> bar" where
  "second_bar close = sample_bar sample_bond ''r2'' 1 close ''5000'' ''3''"

lemma sample_yield: "amount_of rat_ops (sample_value ''3'') = 3"
  by (simp add: amount_of_def as_decimal_def sample_value_def parse_i128_def digits_value_def digit_value_def
      is_ascii_digit_def checked_i128_def signed_int_def i128_range_def)

lemmas instant_order = less_utc_instant_def less_eq_utc_instant_def

lemma covered: "covered_bars (sample_request [first_bar]) = [first_bar]"
  "covered_bars (sample_request [first_bar, second_bar c]) = [first_bar, second_bar c]"
  by (simp_all add: covered_bars_def sample_request_def sample_data_def snapshot_port_def policy_covers_def sample_policy_def
    policy_period_contains_def first_bar_def second_bar_def sample_bar_def sample_instant_def instant_order)


lemma slots: "decision_times_of [first_bar] = [UtcInstant 60 0]"
  "decision_times_of [first_bar, second_bar c] = [UtcInstant 60 0, UtcInstant 120 0]"
  "steps_of [first_bar] = [(UtcInstant 60 0, [first_bar])]"
  "steps_of [first_bar, second_bar c] = [(UtcInstant 60 0, [first_bar]), (UtcInstant 120 0, [second_bar c])]"
  by (simp_all add: decision_times_of_def steps_of_def add_to_step_def first_bar_def second_bar_def sample_bar_def instant_order bset_insert_def)


definition ledger_60 :: "rat replay_ledger" where
  "ledger_60 = (ledger_new rat_ops sample_carry sample_funding NoCost T1)
     \<lparr>lg_marks := [(sample_bond, 99)], lg_date := Some (NaiveDate 2026 1 5),
      lg_rows := [\<lparr>pl_bar_start = UtcInstant 0 0, pl_bar_end = UtcInstant 60 0, pl_known_at = UtcInstant 60 0,
        pl_trading_date = NaiveDate 2026 1 5, pl_instruments = [], pl_funding = 0, pl_total = 0,
        pl_cash = 0, pl_equity = 0\<rparr>]\<rparr>"

lemma first_step:
  "rs_ledger s = ledger_new rat_ops sample_carry sample_funding NoCost T1 \<Longrightarrow> rs_pending s = [] \<Longrightarrow>
     advance_step rat_ops sample_chrono (UtcInstant 60 0) [first_bar] s = Ok (s\<lparr>rs_ledger := ledger_60\<rparr>)"
  by (cases s) (simp add: advance_step_def open_step_def  ledger_new_def empty_book_def roll_date_def finish_step_def equity_now_def closes_of_def
   Let_def first_bar_def sample_bar_def instrument_rows_def ledger_60_def bt_collect_def map_filter_def)

definition decision_60 :: "rat replay_decision" where
  "decision_60 = \<lparr>rd_decision_time = UtcInstant 60 0, rd_inputs_visible_through = Some (UtcInstant 60 0),
     rd_input_bar_count = 1, rd_target = [(sample_bond, 100)]\<rparr>"

lemma first_target:
  "yield_threshold_decide rat_ops sample_policy \<lparr>pit_decision_time = UtcInstant 60 0, pit_bars = [first_bar]\<rparr>
     \<lparr>sb_positions = [], sb_cash = 0\<rparr> = Ok [(sample_bond, 100)]"
  by (simp add: yield_threshold_decide_def sample_policy_def policy_parameter_def target_set_def yield_threshold_face_def
      latest_with_yield_def max_by_key_def first_bar_def sample_bar_def sample_yield Let_def position_of_def)

lemma first_decision:
  assumes "rs_steps s = (UtcInstant 60 0, [first_bar]) # rest" "rest = [] \<or> fst (hd rest) > UtcInstant 60 0"
    and "rs_ledger s = ledger_new rat_ops sample_carry sample_funding NoCost T1" "rs_pending s = []"
    and "filter (\<lambda>b. bar_visible_at b \<le> UtcInstant 60 0) bars = [first_bar]"
  shows "decide_at rat_ops sample_chrono (sample_request bars) bars (UtcInstant 60 0) (s, []) =
    Ok (register rat_ops (UtcInstant 60 0) sample_bond 100 (execution_bars bars sample_bond (UtcInstant 60 0))
         (s\<lparr>rs_steps := rest, rs_ledger := ledger_60\<rparr>), [decision_60])"
proof -
  have "advance rat_ops sample_chrono (Some (UtcInstant 60 0)) s = Ok (s\<lparr>rs_steps := rest, rs_ledger := ledger_60\<rparr>)"
    using assms(1-4) by (cases rest) (auto simp: advance_def first_step)
  moreover have "pb_visible_at (rq_data (sample_request bars)) (UtcInstant 60 0) = Ok [first_bar]"
    using assms(5) by (simp add: sample_request_def sample_data_def snapshot_port_def snapshot_visible_at_def instant_order)
  moreover have "policy_covers sample_policy first_bar" "bar_visible_at first_bar = UtcInstant 60 0"
    by (simp_all add: policy_covers_def sample_policy_def first_bar_def sample_bar_def)
  ultimately show ?thesis
    using first_target assms(4)
    by (simp add: decide_at_def point_in_time_view_new_def projected_book_def ledger_60_def ledger_new_def empty_book_def
        with_pending_def deltas_toward_def position_of_def sample_request_def yield_threshold_policy_def decision_60_def Let_def)
qed

definition trade_60 :: "string \<Rightarrow> rat pending_trade" where
  "trade_60 c = \<lparr>pt_decision_time = UtcInstant 60 0, pt_instrument = sample_bond, pt_intent = 100, pt_remaining = 100,
     pt_bars = [second_bar c]\<rparr>"

lemma second_step:
  assumes "rs_ledger s = ledger_60" "rs_pending s = [trade_60 c]" "rs_constraints s = []"
    "rs_rules s = \<lparr>er_participation_cap = 1 / 10, er_remainder = Cancel\<rparr>" "rs_price_source s = RealTrade"
    and close: "amount_of rat_ops (sample_value c) = k"
  shows "\<exists>s'. advance_step rat_ops sample_chrono (UtcInstant 120 0) [second_bar c] s = Ok s' \<and> rs_steps s' = rs_steps s \<and>
     rs_pending s' = [] \<and> sb_positions (lg_book (rs_ledger s')) = [(sample_bond, 100)] \<and>
     (\<exists>f. rs_fills s' = rs_fills s @ [f])"
  using assms
  by (simp add: advance_step_def open_step_def ledger_60_def ledger_new_def empty_book_def roll_date_def trade_60_def execute_pending_def 
  execute_due_def constrained_attempt_def attempt_in_bar_def priced_def second_bar_def sample_bar_def attempt_limit_def
      Let_def used_in_def signed_like_def ledger_context_def check_execution_def settle_def execute_fill_def sample_carry_def
      closes_of_def bt_collect_def map_filter_def execution_cost_def add_cash_def add_position_def position_of_def parts_update_def
      parts_default_def finish_step_def equity_now_def add_value_def instrument_rows_def instrument_row_def get_or_zero_def)

lemma execution_slots: "execution_bars [first_bar] sample_bond (UtcInstant 60 0) = []"
  "execution_bars [first_bar, second_bar c] sample_bond (UtcInstant 60 0) = [second_bar c]"
  by (simp_all add: execution_bars_def first_bar_def second_bar_def sample_bar_def instant_order)

lemma visible_slots: "filter (\<lambda>b. bar_visible_at b \<le> UtcInstant 60 0) [first_bar] = [first_bar]"
  "filter (\<lambda>b. bar_visible_at b \<le> UtcInstant 60 0) [first_bar, second_bar c] = [first_bar]"
  "filter (\<lambda>b. bar_visible_at b \<le> UtcInstant 120 0) [first_bar, second_bar c] = [first_bar, second_bar c]"
  by (simp_all add: first_bar_def second_bar_def sample_bar_def instant_order)

lemma second_target:
  "yield_threshold_decide rat_ops sample_policy \<lparr>pit_decision_time = UtcInstant 120 0, pit_bars = [first_bar, second_bar c]\<rparr>
     book = Ok [(sample_bond, 100)]"
  by (simp add: yield_threshold_decide_def sample_policy_def policy_parameter_def target_set_def yield_threshold_face_def
      latest_with_yield_def max_by_key_def first_bar_def second_bar_def sample_bar_def sample_yield Let_def)

lemma second_decision:
  assumes "advance rat_ops sample_chrono (Some (UtcInstant 120 0)) s = Ok s'"
    "rs_pending s' = []" "sb_positions (lg_book (rs_ledger s')) = [(sample_bond, 100)]"
  shows "decide_at rat_ops sample_chrono (sample_request [first_bar, second_bar c]) [first_bar, second_bar c] (UtcInstant 120 0) (s, ds) =
    Ok (s', ds @ [\<lparr>rd_decision_time = UtcInstant 120 0, rd_inputs_visible_through = Some (UtcInstant 120 0),
     rd_input_bar_count = 2, rd_target = [(sample_bond, 100)]\<rparr>])"
proof -
  let ?bars = "[first_bar, second_bar c]"
  have "pb_visible_at (rq_data (sample_request ?bars)) (UtcInstant 120 0) = Ok ?bars"
    using visible_slots(3) [of c] by (simp add: sample_request_def sample_data_def snapshot_port_def snapshot_visible_at_def instant_order)
  moreover have "policy_covers sample_policy first_bar" "policy_covers sample_policy (second_bar c)" 
    "bar_visible_at first_bar = UtcInstant 60 0" "bar_visible_at (second_bar c) = UtcInstant 120 0"
    by (simp_all add: policy_covers_def sample_policy_def first_bar_def second_bar_def sample_bar_def)
  moreover have "max (UtcInstant 60 0) (UtcInstant 120 0) = UtcInstant 120 0" by (simp add: instant_order max_def)
  moreover from calculation have "point_in_time_view_new (UtcInstant 120 0) ?bars = Ok \<lparr>pit_decision_time = UtcInstant 120 0, pit_bars = ?bars\<rparr>"
    by (simp add: point_in_time_view_new_def instant_order)
  ultimately show ?thesis
    using second_target [of c] assms
    by (simp add: decide_at_def projected_book_def
        with_pending_def deltas_toward_def position_of_def sample_request_def yield_threshold_policy_def Let_def)
qed


lemma sample_request_declares:
  "pe_family (rq_evaluator (sample_request bars)) = pi_family (pa_input (rq_policy (sample_request bars)))"
  "pe_family_version (rq_evaluator (sample_request bars)) = pi_family_version (pa_input (rq_policy (sample_request bars)))"
  "rf_tier (rq_funding (sample_request bars)) = sv_funding_tier (rq_subject (sample_request bars))"
  "cost_model_from_declaration rat_ops (rq_cost_model (sample_request bars)) (rq_cost_parameters (sample_request bars)) = Ok NoCost"
  "enforced_constraints rat_ops (sample_request bars) (UtcInstant 60 0) = Ok []"
  by (simp_all add: sample_request_def sample_policy_def yield_threshold_policy_def sample_funding_def
      cost_model_from_declaration_def enforced_constraints_def instant_order)

lemma sample_initial:
  "initial_state rat_ops (sample_request bars) NoCost [] =
     \<lparr>rs_ledger = ledger_new rat_ops sample_carry sample_funding NoCost T1,
      rs_steps = steps_of (covered_bars (sample_request bars)), rs_pending = [], rs_fills = [], rs_constraints = [],
      rs_rules = \<lparr>er_participation_cap = 1 / 10, er_remainder = Cancel\<rparr>, rs_price_source = RealTrade\<rparr>"
proof -
  have "rq_carry (sample_request bars) = sample_carry" "rq_funding (sample_request bars) = sample_funding"
    "rq_policy (sample_request bars) = sample_policy" "pb_price_source_type (rq_data (sample_request bars)) = RealTrade"
    by (simp_all add: sample_request_def sample_data_def snapshot_port_def)
  then show ?thesis by (simp add: initial_state_def sample_policy_def)
qed

text \<open>On one bar the trade decided at its end has no bar to execute in.\<close>

lemma replay_one_bar:
  "\<exists>r. replay_bars ds rat_ops sample_chrono sha (sample_request [first_bar]) = Ok r \<and>
     sm_fills r = [no_later_bar rat_ops (UtcInstant 60 0) sample_bond 100 (UtcInstant 60 0) RealTrade]"
proof -
  let ?s = "initial_state rat_ops (sample_request [first_bar]) NoCost []"
  have "decide_at rat_ops sample_chrono (sample_request [first_bar]) [first_bar] (UtcInstant 60 0) (?s, []) =
    Ok (register rat_ops (UtcInstant 60 0) sample_bond 100 [] (?s\<lparr>rs_steps := [], rs_ledger := ledger_60\<rparr>), [decision_60])"
    using first_decision [of ?s "[]" "[first_bar]"] by (simp add: sample_initial covered slots visible_slots(1) [simplified] execution_slots)
  then show ?thesis
    by (simp add: replay_bars_def covered slots sample_request_declares Let_def advance_def replay_finish_def
        simulation_result_new_def ledger_60_def decision_60_def register_def sample_initial)
qed

lemma replay_two_bars:
  assumes "amount_of rat_ops (sample_value c) = k"
  shows "\<exists>r f. replay_bars ds rat_ops sample_chrono sha (sample_request [first_bar, second_bar c]) = Ok r \<and>
     sm_fills r = [f] \<and> sf_effective_at f = UtcInstant 120 0"
proof -
  let ?bars = "[first_bar, second_bar c]"
  let ?s = "initial_state rat_ops (sample_request ?bars) NoCost []"
  let ?s1 = "?s\<lparr>rs_steps := [(UtcInstant 120 0, [second_bar c])], rs_ledger := ledger_60, rs_pending := [trade_60 c]\<rparr>"
  have first: "decide_at rat_ops sample_chrono (sample_request ?bars) ?bars (UtcInstant 60 0) (?s, []) = Ok (?s1, [decision_60])"
    using first_decision [of ?s "[(UtcInstant 120 0, [second_bar c])]" ?bars] visible_slots(2) [of c]
    by (simp add: sample_initial covered slots execution_slots register_def trade_60_def instant_order)
  obtain s' where s': "advance_step rat_ops sample_chrono (UtcInstant 120 0) [second_bar c] (?s1\<lparr>rs_steps := []\<rparr>) = Ok s'"
    "rs_steps s' = []" "rs_pending s' = []" "sb_positions (lg_book (rs_ledger s')) = [(sample_bond, 100)]"
    and fill: "\<exists>f. rs_fills s' = [f]"
    using second_step [OF _ _ _ _ _ assms, of "?s1\<lparr>rs_steps := []\<rparr>"] by (auto simp: sample_initial)
  have visible: "\<forall>b \<in> set [second_bar c]. bar_end b = UtcInstant 120 0 \<and> UtcInstant 120 0 \<le> bar_visible_at b"
    by (simp add: second_bar_def sample_bar_def)
  obtain fill row where added: "rs_fills s' = [fill]" "sf_effective_at fill = UtcInstant 120 0"
    "lg_rows (rs_ledger s') = lg_rows ledger_60 @ [row]" "pl_bar_end row = UtcInstant 120 0"
    using advance_step_adds [OF s'(1) visible] fill by (auto simp: sample_initial)
  have "advance rat_ops sample_chrono (Some (UtcInstant 120 0)) ?s1 = Ok s'"
    using s'(1,2) by (simp add: advance_def)
  from second_decision [OF this s'(3,4), of c] first s'(2) added show ?thesis
    by (simp add: replay_bars_def covered slots sample_request_declares Let_def advance_def replay_finish_def
        simulation_result_new_def ledger_60_def decision_60_def instant_order)
qed

theorem replay_no_look_ahead_witness:
  "\<exists>r r'. replay_bars (\<lambda>_. []) rat_ops sample_chrono (\<lambda>_. zero_hash) (sample_request [first_bar, second_bar ''99'']) = Ok r \<and>
     replay_bars (\<lambda>_. []) rat_ops sample_chrono (\<lambda>_. zero_hash) (sample_request [first_bar, second_bar ''3'']) = Ok r' \<and>
     result_through (UtcInstant 60 0) r = result_through (UtcInstant 60 0) r'"
proof -
  let ?data = "\<lambda>c. sample_data [first_bar, second_bar c]"
  obtain r r' where run: "replay_bars (\<lambda>_. []) rat_ops sample_chrono (\<lambda>_. zero_hash) (sample_request [first_bar, second_bar ''99'']) = Ok r"
    "replay_bars (\<lambda>_. []) rat_ops sample_chrono (\<lambda>_. zero_hash) (sample_request [first_bar, second_bar ''3'']) = Ok r'"
    using replay_two_bars [OF sample_amounts(1)] replay_two_bars [OF sample_yield] by blast
  have port: "point_in_time_port (?data c)" for c
    by (simp add: sample_data_def verified.point_in_time_port_axioms)
  have "agree_until (UtcInstant 60 0) (?data ''99'') (?data ''3'')"
    "\<forall>b \<in> set (pb_all_bars (?data ''99'')). bar_end b \<le> bar_visible_at b"
    by (auto simp: agree_until_def sample_data_def snapshot_port_def same_slot_def
        first_bar_def second_bar_def sample_bar_def instant_order)
  then have "result_through (UtcInstant 60 0) r = result_through (UtcInstant 60 0) r'"
    using replay_no_look_ahead [where request = "sample_request [first_bar, second_bar ''99'']" and data = "?data ''3''", OF _ _ _ _ run(1)] run(2) port
    by (simp add: sample_request_def)
  with run show ?thesis by blast
qed

theorem later_bar_changes_fills_witness:
  "\<exists>r r'. replay_bars (\<lambda>_. []) rat_ops sample_chrono (\<lambda>_. zero_hash) (sample_request [first_bar]) = Ok r \<and>
     replay_bars (\<lambda>_. []) rat_ops sample_chrono (\<lambda>_. zero_hash) (sample_request [first_bar, second_bar ''99'']) = Ok r' \<and>
     UtcInstant 60 0 < bar_visible_at (second_bar ''99'') \<and>
     fst (snd (result_through (UtcInstant 60 0) r)) =
       [no_later_bar rat_ops (UtcInstant 60 0) sample_bond 100 (UtcInstant 60 0) RealTrade] \<and>
     fst (snd (result_through (UtcInstant 60 0) r')) = [] \<and>
     result_through (UtcInstant 60 0) r \<noteq> result_through (UtcInstant 60 0) r'"
proof -
  let ?f = "no_later_bar rat_ops (UtcInstant 60 0) sample_bond 100 (UtcInstant 60 0) RealTrade"
  let ?data = "sample_data [first_bar, second_bar ''99'']"
  have append: "sample_request [first_bar, second_bar ''99''] = (sample_request [first_bar])\<lparr>rq_data := ?data\<rparr>"
    by (simp add: sample_request_def)
  obtain r where r: "replay_bars (\<lambda>_. []) rat_ops sample_chrono (\<lambda>_. zero_hash) (sample_request [first_bar]) = Ok r" "sm_fills r = [?f]"
    using replay_one_bar by blast
  obtain r' f where r': "replay_bars (\<lambda>_. []) rat_ops sample_chrono (\<lambda>_. zero_hash) (sample_request [first_bar, second_bar ''99'']) = Ok r'"
    "sm_fills r' = [f]" "sf_effective_at f = UtcInstant 120 0"
    using replay_two_bars [OF sample_amounts(1)] by blast
  have bars: "\<forall>b \<in> set (pb_all_bars (rq_data (sample_request [first_bar]))) \<union> set (pb_all_bars ?data). bar_start b < bar_end b"
    by (simp add: sample_request_def sample_data_def snapshot_port_def first_bar_def second_bar_def sample_bar_def instant_order)
  have times: "sf_decision_time ?f = UtcInstant 60 0" by (simp add: no_later_bar_def)
  have "second_bar ''99'' \<in> set (covered_bars ((sample_request [first_bar])\<lparr>rq_data := ?data\<rparr>))"
    by (simp add: covered flip: append)
  then have "result_through (sf_decision_time ?f) r \<noteq> result_through (sf_decision_time ?f) r'"
    using later_bar_changes_fills [OF r(1) r'(1) [unfolded append] bars, of ?f] r(2) times
    by (simp add: second_bar_def sample_bar_def)
  moreover have "UtcInstant 60 0 < bar_visible_at (second_bar ''99'')"
    by (simp add: second_bar_def sample_bar_def instant_order)
  ultimately show ?thesis
    using r r' times by (simp add: result_through_def instant_order)
qed

end
