(* ===== verification/Replay_Accounting.thy ===== *)
theory Replay_Accounting
  imports Replay_Reports
begin

text \<open>
  A replay in exact arithmetic returns: on a request whose declarations fit together, whose carry
  source answers and whose bars form steps in date order, no step fails, in particular not by the
  ledger's reconciliation check, and the result has one decision per visibility time and one row
  per bar end. The rows reconcile and add up to the equity, and all fills in one bar stay
  within its participation cap.
\<close>

section \<open>The ledger does not fail\<close>

text \<open>A carry source that knows every bond on every date.\<close>

definition carry_total :: "'d bond_carry \<Rightarrow> bool" where
  "carry_total c \<longleftrightarrow> (\<forall>i s d. cy_accrued_interest c i s d \<noteq> None) \<and> (\<forall>i s a b. cy_coupon_paid c i s a b \<noteq> None)"

lemma carry_total_Some:
  assumes "carry_total c"
  shows "cy_accrued_interest c i s d = Some (the (cy_accrued_interest c i s d))"
    "cy_coupon_paid c i s a b = Some (the (cy_coupon_paid c i s a b))"
  using assms by (simp_all add: carry_total_def)

lemma roll_positions_total:
  assumes "carry_total (lg_carry l)" "\<forall>i \<in> fst ` set xs. map_of (lg_accrued l) i \<noteq> None"
  shows "\<exists>r. try_fold (roll_position ops previous date) xs (l, parts) = Ok r"
  using assms
proof (induction xs arbitrary: l parts)
  case (Cons x xs)
  obtain i f where x: "x = (i, f)" by (cases x)
  obtain before where before: "map_of (lg_accrued l) i = Some before" using Cons.prems(2) by (auto simp: x)
  obtain after paid where carry: "cy_accrued_interest (lg_carry l) i (lg_settlement l) date = Some after"
    "cy_coupon_paid (lg_carry l) i (lg_settlement l) previous date = Some paid"
    using carry_total_Some [OF Cons.prems(1)] by blast
  obtain m q where step: "roll_position ops previous date (i, f) (l, parts) = Ok (m, q)"
    and m: "lg_carry m = lg_carry l" "lg_accrued m = bt_insert i after (lg_accrued l)"
    by (simp add: roll_position_def before carry)
  have "\<forall>j \<in> fst ` set xs. map_of (lg_accrued m) j \<noteq> None" using Cons.prems(2) by (simp add: m(2))
  from Cons.IH [OF _ this] Cons.prems(1) m(1) step show ?case by (simp add: x)
qed simp

lemma mark_positions_total:
  assumes "\<forall>i \<in> fst ` set xs. map_of (lg_marks l) i \<noteq> None"
  shows "\<exists>r. try_fold (mark_position ops l closes) xs parts = Ok r"
  using assms
proof (induction xs arbitrary: parts)
  case (Cons x xs)
  then show ?case by (cases x) (auto simp: mark_position_def Let_def)
qed simp

lemma roll_date_total:
  assumes "ledger_ok l" "carry_total (lg_carry l)"
  shows "\<exists>r. roll_date rat_ops ch date (sb_positions (lg_book l)) (l, []) = Ok r"
proof (cases "\<exists>previous. lg_date l = Some previous \<and> previous \<noteq> date")
  case True
  then obtain previous where previous: "lg_date l = Some previous" "previous \<noteq> date" by blast
  define m where "m = l\<lparr>lg_date := Some date, lg_book := add_cash rat_ops (funding_charge rat_ops ch (l\<lparr>lg_date := Some date\<rparr>) previous date) (lg_book l)\<rparr>"
  have "map_of (lg_accrued l) i \<noteq> None" if "i \<in> held l" for i
    using assms(1) that unfolding ledger_ok_def carried_def by blast
  then obtain r where "try_fold (roll_position rat_ops previous date) (sb_positions (lg_book l)) (m, []) = Ok r"
    using roll_positions_total [of m "sb_positions (lg_book l)" rat_ops previous date "[]"] assms(2)
    by (auto simp: held_def m_def)
  then show ?thesis using previous by (cases r) (simp add: roll_date_def Let_def m_def)
next
  case False
  then show ?thesis by (cases "lg_date l") (simp_all add: roll_date_def Let_def)
qed

text \<open>Bars that form one step, not before the ledger's date.\<close>

definition one_step :: "bar list \<Rightarrow> bool" where
  "one_step bars \<longleftrightarrow> bars \<noteq> [] \<and> (\<forall>b \<in> set bars. \<forall>c \<in> set bars.
     bar_end b = bar_end c \<and> bar_start b = bar_start c \<and> local_trading_date b = local_trading_date c)"

definition not_before :: "'d replay_ledger \<Rightarrow> bar list \<Rightarrow> bool" where
  "not_before l bars \<longleftrightarrow> (\<forall>d \<in> set_option (lg_date l). \<forall>b \<in> set bars. d \<le> local_trading_date b)"

lemma open_step_total:
  assumes ok: "ledger_ok l" and carry: "carry_total (lg_carry l)" and bars: "one_step bars" "not_before l bars"
  shows "\<exists>l'. open_step rat_ops ch bars l = Ok l'"
proof -
  obtain first rest where first: "bars = first # rest" using bars(1) by (cases bars) (auto simp: one_step_def)
  obtain funding m parts where roll: "roll_date rat_ops ch (local_trading_date first) (sb_positions (lg_book l)) (l, []) = Ok (funding, m, parts)"
    using roll_date_total [OF ok carry] by (metis prod_cases3)
  have "\<forall>i \<in> fst ` set (sb_positions (lg_book l)). map_of (lg_marks m) i \<noteq> None"
    using ok roll_date_value [OF ok roll] by (simp add: ledger_ok_def held_def)
  then obtain parts' where "try_fold (mark_position rat_ops m (closes_of rat_ops bars)) (sb_positions (lg_book l)) parts = Ok parts'"
    using mark_positions_total by blast
  moreover have "\<not> (lg_open l \<noteq> None
      \<or> (\<exists>b \<in> set bars. bar_end b \<noteq> bar_end first \<or> bar_start b \<noteq> bar_start first \<or> local_trading_date b \<noteq> local_trading_date first)
      \<or> (\<exists>previous \<in> set_option (lg_date l). previous > local_trading_date first))"
  proof -
    have "lg_open l = None" using ok by (simp add: ledger_ok_def)
    moreover have "bar_end b = bar_end first \<and> bar_start b = bar_start first \<and> local_trading_date b = local_trading_date first"
      if "b \<in> set bars" for b
      using bars(1) that unfolding one_step_def first by auto
    moreover have "d \<le> local_trading_date first" if "d \<in> set_option (lg_date l)" for d
      using bars(2) that unfolding not_before_def first by simp
    ultimately show ?thesis using not_less by blast
  qed
  ultimately show ?thesis using roll unfolding open_step_def first list.case by (simp only: if_False simp_thms Let_def) simp
qed

section \<open>Within a step\<close>

text \<open>The ledger while a step over \<open>bars\<close> that ends at \<open>e\<close> is open, and what no execution changes.\<close>

definition trading :: "bar list \<Rightarrow> utc_instant \<Rightarrow> rat replay_ledger \<Rightarrow> bool" where
  "trading bars e l \<longleftrightarrow> (\<exists>s. step_ok l s \<and> os_bar_end s = e \<and> os_closes s = closes_of rat_ops bars \<and>
     os_records s = map (\<lambda>b. (bar_instrument b, source_record_id b)) bars)"

definition same_history :: "'d replay_ledger \<Rightarrow> 'd replay_ledger \<Rightarrow> bool" where
  "same_history l m \<longleftrightarrow> lg_rows m = lg_rows l \<and> lg_equity m = lg_equity l \<and> lg_carry m = lg_carry l \<and> lg_date m = lg_date l"

lemma same_history_refl [simp]: "same_history l l"
  by (simp add: same_history_def)

lemma same_history_trans: "same_history l m \<Longrightarrow> same_history m n \<Longrightarrow> same_history l n"
  by (simp add: same_history_def)

lemma open_step_trading:
  assumes ok: "ledger_ok l" and opened: "open_step rat_ops ch bars l = Ok l'" and ends: "\<forall>b \<in> set bars. bar_end b = e"
  shows "trading bars e l'" "lg_rows l' = lg_rows l" "lg_equity l' = lg_equity l" "lg_carry l' = lg_carry l"
    "\<forall>b \<in> set bars. lg_date l' = Some (local_trading_date b)"
proof -
  obtain s where s: "step_ok l' s" "lg_rows l' = lg_rows l" "lg_equity l' = lg_equity l" "os_closes s = closes_of rat_ops bars"
    using open_step_ok [OF ok opened] by blast
  from opened obtain first :: bar and rest funding m parts s' where first: "bars = first # rest"
    and same: "\<forall>b \<in> set bars. bar_end b = bar_end first \<and> bar_start b = bar_start first \<and> local_trading_date b = local_trading_date first"
    and roll: "roll_date rat_ops ch (local_trading_date first) (sb_positions (lg_book l)) (l, []) = Ok (funding, m, parts)"
    and l': "l' = m\<lparr>lg_open := Some s'\<rparr>" "os_bar_end s' = bar_end first"
      "os_records s' = map (\<lambda>b. (bar_instrument b, source_record_id b)) bars"
    by (rule open_step_Ok)
  have "s' = s" using s(1) l'(1) by (simp add: step_ok_def)
  then show "trading bars e l'" using s(1,4) l'(2,3) ends first by (auto simp: trading_def)
  show "lg_rows l' = lg_rows l" "lg_equity l' = lg_equity l" by (fact s(2), fact s(3))
  show "lg_carry l' = lg_carry l" "\<forall>b \<in> set bars. lg_date l' = Some (local_trading_date b)"
    using roll_date_value [OF ok roll] l'(1) same by simp_all
qed

lemma settle_keeps:
  assumes "settle ops f l = Ok l'" "lg_open l = Some s"
  shows "lg_carry l' = lg_carry l \<and> lg_date l' = lg_date l \<and>
    (\<exists>s'. lg_open l' = Some s' \<and> os_records s' = os_records s \<and> os_bar_end s' = os_bar_end s)"
  using assms by (cases "d_is_zero ops (sf_quantity f)") (auto simp: settle_def elim!: execute_fill_Ok)

lemma settle_trading:
  assumes t: "trading bars e l" and settled: "settle rat_ops f l = Ok l'"
    and closed: "sf_quantity f \<noteq> 0 \<Longrightarrow> \<exists>b \<in> set bars. bar_instrument b = sf_instrument f \<and> bar_prices b \<noteq> None"
  shows "trading bars e l' \<and> same_history l l'"
proof -
  obtain s where s: "step_ok l s" "os_bar_end s = e" "os_closes s = closes_of rat_ops bars"
    "os_records s = map (\<lambda>b. (bar_instrument b, source_record_id b)) bars"
    using t by (auto simp: trading_def)
  have "map_of (os_closes s) (sf_instrument f) \<noteq> None" if "sf_quantity f \<noteq> 0"
    unfolding s(3) using closed [OF that] closes_of_closed by metis
  then obtain s' where s': "step_ok l' s'" "lg_rows l' = lg_rows l" "lg_equity l' = lg_equity l" "os_closes s' = os_closes s"
    using settle_ok [OF s(1) settled] by metis
  have "lg_open l = Some s" "lg_open l' = Some s'" using s(1) s'(1) by (simp_all add: step_ok_def)
  with settle_keeps [OF settled] s s' show ?thesis by (auto simp: trading_def same_history_def)
qed

lemma settle_total:
  assumes t: "trading bars e l" and carry: "carry_total (lg_carry l)"
    and fill: "sf_effective_at f = e" "sf_quantity f \<noteq> 0 \<Longrightarrow> sf_price f \<noteq> None"
      "b \<in> set bars" "bar_instrument b = sf_instrument f" "sf_execution_bar f = Some (source_record_id b)"
  shows "\<exists>l'. settle rat_ops f l = Ok l'"
proof -
  obtain s where s: "lg_open l = Some s" "os_bar_end s = e" "os_records s = map (\<lambda>b. (bar_instrument b, source_record_id b)) bars"
    using t by (auto simp: trading_def step_ok_def)
  show ?thesis
  proof (cases "sf_quantity f = 0")
    case False
    then obtain price where "sf_price f = Some price" using fill(2) by auto
    moreover obtain accrued where "cy_accrued_interest (lg_carry l) (sf_instrument f) (lg_settlement l) (os_date s) = Some accrued"
      using carry_total_Some(1) [OF carry] by blast
    moreover have "\<exists>(instrument, r) \<in> set (os_records s). instrument = sf_instrument f \<and> Some r = sf_execution_bar f"
      using fill(3-5) s(3) by force
    ultimately show ?thesis using s fill(1) False by (auto simp: settle_def execute_fill_def Let_def)
  qed (simp add: settle_def s(1))
qed

lemma instrument_rows_ledger: "\<exists>rows accrued. instrument_rows ops start parts l = (rows, l\<lparr>lg_accrued := accrued\<rparr>)"
proof -
  have "\<exists>rows' accrued. fold (instrument_row ops start) parts (rows, l) = (rows', l\<lparr>lg_accrued := accrued\<rparr>)" for rows
  proof (induction parts arbitrary: rows l)
    case Nil
    then show ?case by (auto intro: exI [of _ "lg_accrued l"])
  next
    case (Cons x parts)
    obtain i p where x: "x = (i, p)" by (cases x)
    obtain rows' accrued where "instrument_row ops start x (rows, l) = (rows', l\<lparr>lg_accrued := accrued\<rparr>)"
      by (cases "d_is_zero ops (position_of ops (lg_book l) i)")
        (auto simp: x instrument_row_def intro: that [of _ "lg_accrued l"])
    then show ?case using Cons.IH [of rows' "l\<lparr>lg_accrued := accrued\<rparr>"] by auto
  qed
  then show ?thesis by (simp add: instrument_rows_def)
qed

lemma finish_step_keeps:
  assumes "finish_step ops l = Ok l'"
  shows "lg_carry l' = lg_carry l \<and> lg_date l' = lg_date l"
proof -
  obtain s where s: "lg_open l = Some s" using assms by (auto simp: finish_step_def result_simps)
  define m where "m = l\<lparr>lg_open := None,
    lg_marks := fold (\<lambda>(instrument, close) m. bt_insert instrument close m) (os_closes s) (lg_marks l)\<rparr>"
  obtain rows accrued where rows: "instrument_rows ops (os_start s) (os_parts s) m = (rows, m\<lparr>lg_accrued := accrued\<rparr>)"
    using instrument_rows_ledger by blast
  show ?thesis
    using assms rows by (auto simp: finish_step_def s Let_def result_simps m_def split: if_splits)
qed

lemma finish_step_trading:
  assumes "trading bars e l"
  obtains l' row where "finish_step rat_ops l = Ok l'" "ledger_ok l'" "lg_rows l' = lg_rows l @ [row]"
    "pl_total row = components_total rat_ops row" "pl_equity row = lg_equity l + pl_total row" "lg_equity l' = pl_equity row"
    "pl_bar_end row = e" "lg_carry l' = lg_carry l" "lg_date l' = lg_date l"
proof -
  obtain s where s: "step_ok l s" "os_bar_end s = e" using assms by (auto simp: trading_def)
  obtain l' row where "finish_step rat_ops l = Ok l'" "ledger_ok l'" "lg_rows l' = lg_rows l @ [row]"
    "pl_total row = components_total rat_ops row" "pl_equity row = lg_equity l + pl_total row" "pl_equity row = lg_equity l'"
    "pl_bar_end row = os_bar_end s"
    using s(1) by (rule finish_step_ok)
  moreover from this(1) have "lg_carry l' = lg_carry l" "lg_date l' = lg_date l" using finish_step_keeps by blast+
  ultimately show ?thesis using that [of l' row] s(2) by simp
qed

text \<open>Bars with an average price have a close, as \<open>Bar::new\<close> enforces.\<close>

definition bars_priced :: "bar list \<Rightarrow> bool" where
  "bars_priced bars \<longleftrightarrow> (\<forall>b \<in> set bars. bar_vwap b \<noteq> None \<longrightarrow> bar_prices b \<noteq> None)"

definition trade_in :: "bar list \<Rightarrow> 'd pending_trade \<Rightarrow> bool" where
  "trade_in bars p \<longleftrightarrow> (\<forall>b \<in> set (pt_bars p). b \<in> set bars \<and> bar_instrument b = pt_instrument p)"

lemma constrained_attempt_shape:
  assumes "constrained_attempt rat_ops p b used s = Ok a"
  shows "sf_instrument a = pt_instrument p" "sf_effective_at a = bar_end b" "sf_execution_bar a = Some (source_record_id b)"
    "sf_quantity a \<noteq> 0 \<Longrightarrow> sf_price a \<noteq> None" "sf_price a = map_option fst (priced rat_ops b)"
proof -
  have plain: "sf_quantity (attempt_in_bar rat_ops t i r b used rules ps) \<noteq> 0 \<Longrightarrow> priced rat_ops b \<noteq> None" for t i r rules ps
    by (cases "priced rat_ops b") (simp_all add: attempt_in_bar_def Let_def)
  show "sf_instrument a = pt_instrument p" "sf_effective_at a = bar_end b" "sf_execution_bar a = Some (source_record_id b)"
    "sf_quantity a \<noteq> 0 \<Longrightarrow> sf_price a \<noteq> None" "sf_price a = map_option fst (priced rat_ops b)"
    using assms plain by (auto elim!: constrained_attempt_cases [OF _ refl])
qed

lemma constrained_attempt_total:
  assumes "trading bars e (rs_ledger s)" "carry_total (lg_carry (rs_ledger s))"
  shows "\<exists>a. constrained_attempt rat_ops p b used s = Ok a"
proof -
  obtain st where "lg_open (rs_ledger s) = Some st" using assms(1) by (auto simp: trading_def step_ok_def)
  then have ctx: "\<exists>ctx. ledger_context rat_ops (pt_instrument p) price (rs_ledger s) = Ok ctx" for price
    using carry_total_Some(1) [OF assms(2), of "pt_instrument p" "lg_settlement (rs_ledger s)" "os_date st"]
    by (cases "cy_accrued_interest (lg_carry (rs_ledger s)) (pt_instrument p) (lg_settlement (rs_ledger s)) (os_date st)")
      (simp_all add: ledger_context_def Let_def case_prod_beta)
  define attempt where "attempt = attempt_in_bar rat_ops (pt_decision_time p) (pt_instrument p) (pt_remaining p) b used (rs_rules s) (rs_price_source s)"
  show ?thesis
  proof (cases "sf_price attempt")
    case (Some price)
    obtain c where "ledger_context rat_ops (pt_instrument p) price (rs_ledger s) = Ok c" using ctx by blast
    then show ?thesis
      unfolding constrained_attempt_def Let_def attempt_def [symmetric] Some
      by (cases "check_execution rat_ops (rs_constraints s) c (sf_quantity attempt)")
        (auto split: bool.split option.split)
  qed (simp add: constrained_attempt_def Let_def attempt_def [symmetric])
qed

text \<open>The bars of the step that ends at \<open>e\<close>.\<close>

abbreviation step_bars :: "bar list \<Rightarrow> utc_instant \<Rightarrow> bar list" where
  "step_bars bars e \<equiv> filter (\<lambda>b. bar_end b = e) bars"

lemma execute_due_trading:
  assumes priced: "bars_priced bars" and p: "trade_in bars p" and t: "trading (step_bars bars e) e (rs_ledger s)"
    and run: "execute_due rat_ops e p used s = Ok (p', used', s')"
  shows "trading (step_bars bars e) e (rs_ledger s') \<and> same_history (rs_ledger s) (rs_ledger s') \<and> trade_in bars p'"
proof (cases "pt_bars p = [] \<or> bar_end (hd (pt_bars p)) \<noteq> e \<or> pt_remaining p = 0")
  case True
  then show ?thesis using run p t by (cases "pt_bars p") (auto simp: execute_due_def)
next
  case False
  then obtain b rest where b: "pt_bars p = b # rest" "bar_end b = e" "pt_remaining p \<noteq> 0" by (cases "pt_bars p") auto
  from b run obtain a l where
    a: "constrained_attempt rat_ops p b (used_in rat_ops used (source_record_id b)) s = Ok a"
    and l: "settle rat_ops a (rs_ledger s) = Ok l"
    by (auto simp: execute_due_def result_simps)
  have in_step: "b \<in> set (step_bars bars e)" "bar_instrument b = sf_instrument a"
    using p b constrained_attempt_shape(1) [OF a] by (auto simp: trade_in_def)
  have "bar_prices b \<noteq> None" if "sf_quantity a \<noteq> 0"
    using constrained_attempt_shape(4,5) [OF a] that priced in_step(1)
    by (auto simp: bars_priced_def priced_def split: option.splits)
  then have "trading (step_bars bars e) e l \<and> same_history (rs_ledger s) l"
    using settle_trading [OF t l] in_step by blast
  moreover have "rs_ledger s' = l \<and> trade_in bars p'"
    using run b p by (auto simp: execute_due_def a l Let_def trade_in_def split: if_splits)
  ultimately show ?thesis by simp
qed

lemma execute_due_total:
  assumes p: "trade_in bars p" and t: "trading (step_bars bars e) e (rs_ledger s)" and carry: "carry_total (lg_carry (rs_ledger s))"
  shows "\<exists>r. execute_due rat_ops e p used s = Ok r"
proof (cases "pt_bars p = [] \<or> bar_end (hd (pt_bars p)) \<noteq> e \<or> pt_remaining p = 0")
  case True
  then show ?thesis by (cases "pt_bars p") (auto simp: execute_due_def)
next
  case False
  then obtain b rest where b: "pt_bars p = b # rest" "bar_end b = e" "pt_remaining p \<noteq> 0" by (cases "pt_bars p") auto
  obtain a where a: "constrained_attempt rat_ops p b (used_in rat_ops used (source_record_id b)) s = Ok a"
    using constrained_attempt_total [OF t carry] by blast
  note shape = constrained_attempt_shape [OF a]
  have "b \<in> set (step_bars bars e)" "bar_instrument b = sf_instrument a" using p b shape(1) by (auto simp: trade_in_def)
  then obtain l where "settle rat_ops a (rs_ledger s) = Ok l"
    using settle_total [OF t carry _ shape(4)] shape(2,3) b(2) by blast
  then show ?thesis using a b by (simp add: execute_due_def Let_def)
qed

text \<open>All pending trades of a step.\<close>

definition executing :: "bar list \<Rightarrow> utc_instant \<Rightarrow> rat replay_ledger \<Rightarrow>
  rat pending_trade list \<times> (string, rat) btree_map \<times> rat replay_state \<Rightarrow> bool" where
  "executing bars e l x \<longleftrightarrow> trading (step_bars bars e) e (rs_ledger (snd (snd x))) \<and>
     same_history l (rs_ledger (snd (snd x))) \<and> (\<forall>p \<in> set (fst x). trade_in bars p)"

lemma execute_pending_executing:
  assumes "bars_priced bars" "trade_in bars p" "executing bars e l x" "execute_pending rat_ops e p x = Ok y"
  shows "executing bars e l y"
proof -
  obtain qs used s where x: "x = (qs, used, s)" by (cases x)
  obtain p' used' s' where run: "execute_due rat_ops e p used s = Ok (p', used', s')" "y = (qs @ [p'], used', s')"
    using assms(4) by (auto simp: x execute_pending_def result_simps)
  show ?thesis
    using execute_due_trading [OF assms(1,2) _ run(1)] assms(3) same_history_trans by (auto simp: executing_def x run(2))
qed

lemma execute_pending_total:
  assumes "trade_in bars p" "executing bars e l x" "carry_total (lg_carry l)"
  shows "\<exists>y. execute_pending rat_ops e p x = Ok y"
proof -
  obtain qs used s where x: "x = (qs, used, s)" by (cases x)
  have "carry_total (lg_carry (rs_ledger s))" using assms(2,3) by (simp add: executing_def x same_history_def)
  moreover have "trading (step_bars bars e) e (rs_ledger s)" using assms(2) by (simp add: executing_def x)
  ultimately obtain r where "execute_due rat_ops e p used s = Ok r" using execute_due_total [OF assms(1)] by blast
  then show ?thesis by (cases r) (simp add: x execute_pending_def)
qed

section \<open>Steps\<close>

text \<open>
  The rows so far reconcile: every total is the sum of its components, every equity the sum of
  the totals up to it, and the equity on record the sum of all.
\<close>

definition reconciled :: "rat bar_pnl list \<Rightarrow> bool" where
  "reconciled rows \<longleftrightarrow> (\<forall>k < length rows. pl_total (rows ! k) = components_total rat_ops (rows ! k) \<and>
     pl_equity (rows ! k) = sum_list (map pl_total (take (Suc k) rows)))"

lemma reconciled_snoc:
  "reconciled (rows @ [row]) \<longleftrightarrow> reconciled rows \<and> pl_total row = components_total rat_ops row \<and>
     pl_equity row = sum_list (map pl_total rows) + pl_total row"
  by (auto simp: reconciled_def nth_append less_Suc_eq)

definition accounts :: "bar list \<Rightarrow> rat replay_state \<Rightarrow> bool" where
  "accounts bars s \<longleftrightarrow> ledger_ok (rs_ledger s) \<and> (\<forall>p \<in> set (rs_pending s). trade_in bars p) \<and>
     (\<forall>(e, bs) \<in> set (rs_steps s). bs = step_bars bars e) \<and>
     reconciled (lg_rows (rs_ledger s)) \<and> lg_equity (rs_ledger s) = sum_list (map pl_total (lg_rows (rs_ledger s)))"

lemma advance_step_accounts:
  assumes priced: "bars_priced bars" and ok: "accounts bars s"
    and run: "advance_step rat_ops ch e (step_bars bars e) s = Ok s'"
  shows "accounts bars s' \<and> map pl_bar_end (lg_rows (rs_ledger s')) = map pl_bar_end (lg_rows (rs_ledger s)) @ [e] \<and>
    lg_carry (rs_ledger s') = lg_carry (rs_ledger s) \<and>
    (\<forall>b \<in> set (step_bars bars e). lg_date (rs_ledger s') = Some (local_trading_date b))"
proof -
  obtain l ps used m l' where l: "open_step rat_ops ch (step_bars bars e) (rs_ledger s) = Ok l"
    and pending: "try_fold (execute_pending rat_ops e) (rs_pending s) ([], [], s\<lparr>rs_ledger := l, rs_pending := []\<rparr>) = Ok (ps, used, m)"
    and l': "finish_step rat_ops (rs_ledger m) = Ok l'"
    and s': "s' = m\<lparr>rs_ledger := l', rs_pending := filter (\<lambda>t. pt_remaining t \<noteq> 0) ps\<rparr>"
    using run by (auto simp: advance_step_def result_simps)
  have "\<forall>b \<in> set (step_bars bars e). bar_end b = e" by simp
  note opened = open_step_trading [OF _ l this]
  have ledger: "ledger_ok (rs_ledger s)" using ok by (simp add: accounts_def)
  have "executing bars e l (ps, used, m)"
    using pending
  proof (rule try_fold_invariant [where I = "executing bars e l"])
    show "executing bars e l ([], [], s\<lparr>rs_ledger := l, rs_pending := []\<rparr>)" using opened(1) [OF ledger] by (simp add: executing_def)
    show "executing bars e l y" if "p \<in> set (rs_pending s)" "executing bars e l x" "execute_pending rat_ops e p x = Ok y" for p x y
      using execute_pending_executing [OF priced _ that(2,3)] ok that(1) by (simp add: accounts_def)
  qed
  then have m: "trading (step_bars bars e) e (rs_ledger m)" "same_history l (rs_ledger m)" "\<forall>p \<in> set ps. trade_in bars p"
    by (simp_all add: executing_def)
  obtain row where row: "ledger_ok l'" "lg_rows l' = lg_rows (rs_ledger m) @ [row]" "pl_total row = components_total rat_ops row"
    "pl_equity row = lg_equity (rs_ledger m) + pl_total row" "lg_equity l' = pl_equity row" "pl_bar_end row = e"
    "lg_carry l' = lg_carry (rs_ledger m)" "lg_date l' = lg_date (rs_ledger m)"
    using l' by (auto intro: finish_step_trading [OF m(1)])
  have steps: "rs_steps s' = rs_steps s" using advance_step_steps [OF run] .
  show ?thesis
    using ok row m(2,3) opened(2-5) [OF ledger] steps
    by (auto simp: accounts_def s' same_history_def reconciled_snoc)
qed

lemma advance_step_total:
  assumes priced: "bars_priced bars" and ok: "accounts bars s" and carry: "carry_total (lg_carry (rs_ledger s))"
    and step: "one_step (step_bars bars e)" "not_before (rs_ledger s) (step_bars bars e)"
  shows "\<exists>s'. advance_step rat_ops ch e (step_bars bars e) s = Ok s'"
proof -
  have ledger: "ledger_ok (rs_ledger s)" using ok by (simp add: accounts_def)
  obtain l where l: "open_step rat_ops ch (step_bars bars e) (rs_ledger s) = Ok l"
    using open_step_total [OF ledger carry step] by blast
  have "\<forall>b \<in> set (step_bars bars e). bar_end b = e" by simp
  note opened = open_step_trading [OF ledger l this]
  let ?x = "([], [], s\<lparr>rs_ledger := l, rs_pending := []\<rparr>) :: rat pending_trade list \<times> (string, rat) btree_map \<times> rat replay_state"
  have start: "executing bars e l ?x" using opened(1) by (simp add: executing_def)
  have trades: "trade_in bars p" if "p \<in> set (rs_pending s)" for p using ok that by (simp add: accounts_def)
  have keeps: "executing bars e l y" if "p \<in> set (rs_pending s)" "executing bars e l x" "execute_pending rat_ops e p x = Ok y" for p x y
    using execute_pending_executing [OF priced trades that(2,3)] that(1) by simp
  have progress: "\<exists>y. execute_pending rat_ops e p x = Ok y" if "p \<in> set (rs_pending s)" "executing bars e l x" for p x
    using execute_pending_total [OF trades [OF that(1)] that(2)] carry opened(4) by simp
  have "\<exists>y. try_fold (execute_pending rat_ops e) (rs_pending s) ?x = Ok y"
    by (rule try_fold_progress [where I = "executing bars e l"]) (fact start, fact progress, fact keeps)
  then obtain ps used m where pending: "try_fold (execute_pending rat_ops e) (rs_pending s) ?x = Ok (ps, used, m)" by auto
  have "executing bars e l (ps, used, m)"
    using pending start by (rule try_fold_invariant [where I = "executing bars e l"]) (fact keeps)
  then obtain l' where "finish_step rat_ops (rs_ledger m) = Ok l'"
    by (auto simp: executing_def elim: finish_step_trading)
  with l pending show ?thesis by (simp add: advance_step_def)
qed

section \<open>The loop\<close>

text \<open>The ends of the rows booked and of the steps left are the ends of all steps, in order.\<close>

definition booked :: "bar list \<Rightarrow> rat replay_state \<Rightarrow> bool" where
  "booked bars s \<longleftrightarrow> map pl_bar_end (lg_rows (rs_ledger s)) @ map fst (rs_steps s) = map fst (steps_of bars)"

lemma advance_steps_accounts:
  assumes "bars_priced bars"
  shows "advance_steps rat_ops ch until xs s = Ok s' \<Longrightarrow> rs_steps s = xs \<Longrightarrow> accounts bars s \<Longrightarrow> booked bars s \<Longrightarrow>
    accounts bars s' \<and> booked bars s'"
proof (induction "rat_ops :: rat decimal_ops" ch until xs s rule: advance_steps.induct)
  case (2 ch until e bs steps s)
  show ?case
  proof (cases "\<exists>limit \<in> set_option until. e > limit")
    case True
    then show ?thesis using 2 by simp
  next
    case False
    then obtain m where m: "advance_step rat_ops ch e bs (s\<lparr>rs_steps := steps\<rparr>) = Ok m" "advance_steps rat_ops ch until steps m = Ok s'"
      using 2(2) by (auto simp: result_simps)
    have bs: "bs = step_bars bars e" and ok: "accounts bars (s\<lparr>rs_steps := steps\<rparr>)"
      using 2(3,4) by (auto simp: accounts_def)
    from advance_step_accounts [OF assms ok m(1) [unfolded bs]] advance_step_steps [OF m(1)] 2(3,5)
    have "accounts bars m" "booked bars m" "rs_steps m = steps" by (simp_all add: booked_def)
    then show ?thesis using 2(1) [OF False m(2)] by simp
  qed
qed simp

text \<open>Bars that form steps in date order.\<close>

definition calendar :: "bar list \<Rightarrow> bool" where
  "calendar bars \<longleftrightarrow> (\<forall>b \<in> set bars. \<forall>c \<in> set bars.
     (bar_end b = bar_end c \<longrightarrow> bar_start b = bar_start c \<and> local_trading_date b = local_trading_date c) \<and>
     (bar_end b \<le> bar_end c \<longrightarrow> local_trading_date b \<le> local_trading_date c))"

lemma calendarD:
  assumes "calendar bars" "b \<in> set bars" "c \<in> set bars"
  shows "bar_end b \<le> bar_end c \<Longrightarrow> local_trading_date b \<le> local_trading_date c"
    "bar_end b = bar_end c \<Longrightarrow> bar_start b = bar_start c \<and> local_trading_date b = local_trading_date c"
  using assms unfolding calendar_def by blast+

definition ready :: "bar list \<Rightarrow> rat replay_state \<Rightarrow> bool" where
  "ready bars s \<longleftrightarrow> accounts bars s \<and> booked bars s \<and> carry_total (lg_carry (rs_ledger s)) \<and> bt_ok (rs_steps s) \<and>
     (\<forall>(e, bs) \<in> set (rs_steps s). bs \<noteq> [] \<and> not_before (rs_ledger s) bs)"

lemma advance_steps_ready:
  assumes bars: "bars_priced bars" "calendar bars"
  shows "rs_steps s = xs \<Longrightarrow> ready bars s \<Longrightarrow> \<exists>s'. advance_steps rat_ops ch until xs s = Ok s' \<and> ready bars s'"
proof (induction xs arbitrary: s)
  case (Cons x xs)
  obtain e bs where x: "x = (e, bs)" by (cases x)
  show ?case
  proof (cases "\<exists>limit \<in> set_option until. e > limit")
    case True
    then show ?thesis using Cons.prems by (simp add: x)
  next
    case False
    let ?s = "s\<lparr>rs_steps := xs\<rparr>"
    have bs: "bs = step_bars bars e" "bs \<noteq> []" "not_before (rs_ledger s) bs" and ok: "accounts bars ?s"
      using Cons.prems by (auto simp: x ready_def accounts_def)
    have "one_step bs" using bs(1,2) calendarD(2) [OF bars(2)] by (fastforce simp: one_step_def)
    then obtain m where m: "advance_step rat_ops ch e bs ?s = Ok m"
      using advance_step_total [OF bars(1) ok, of e] bs(3) Cons.prems(2) by (auto simp: bs(1) ready_def)
    note kept = advance_step_accounts [OF bars(1) ok m [unfolded bs(1)]]
    have steps: "rs_steps m = xs" using advance_step_steps [OF m] by simp
    have "not_before (rs_ledger m) cs" if "(e', cs) \<in> set xs" for e' cs
    proof -
      have later: "e < e'" using Cons.prems that by (force simp: x ready_def bt_ok_Cons)
      have cs: "cs = step_bars bars e'" using Cons.prems that by (auto simp: x ready_def accounts_def)
      obtain b where "b \<in> set (step_bars bars e)" using bs(1,2) by (metis list.set_intros(1) neq_Nil_conv)
      then have b: "lg_date (rs_ledger m) = Some (local_trading_date b)" "b \<in> set bars" "bar_end b = e" using kept by auto
      have "local_trading_date b \<le> local_trading_date c" if "c \<in> set cs" for c
        by (rule calendarD(1) [OF bars(2)]) (use that b(2,3) later in \<open>auto simp: cs\<close>)
      then show ?thesis by (simp add: not_before_def b(1))
    qed
    then have "ready bars m"
      using kept steps Cons.prems by (auto simp: x ready_def booked_def bt_ok_Cons)
    then show ?thesis using Cons.IH [OF steps] m False by (simp add: x)
  qed
qed auto

lemma advance_all_steps: "advance ops ch None s = Ok s' \<Longrightarrow> rs_steps s' = []"
  using advance_steps_rest [of ops ch None "rs_steps s" s s'] by (simp add: advance_def dropWhile_eq_Nil_conv)

lemma register_one:
  fixes s :: "rat replay_state"
  shows "rs_ledger (register rat_ops d i q bs s) = rs_ledger s" "rs_steps (register rat_ops d i q bs s) = rs_steps s"
    "\<forall>p \<in> set (rs_pending s). trade_in bars p \<Longrightarrow>
     \<forall>p \<in> set (rs_pending (register rat_ops d i q (execution_bars bars i d) s)). trade_in bars p"
  by (auto simp: register_def trade_in_def execution_bars_def)

lemma register_all:
  fixes s :: "rat replay_state"
  assumes "u = fold (\<lambda>(i, q). register rat_ops d i q (execution_bars bars i d)) ds s"
  shows "rs_ledger u = rs_ledger s \<and> rs_steps u = rs_steps s \<and>
    ((\<forall>p \<in> set (rs_pending s). trade_in bars p) \<longrightarrow> (\<forall>p \<in> set (rs_pending u). trade_in bars p))"
  using assms
proof (induction ds arbitrary: s)
  case (Cons x ds)
  obtain i q where x: "x = (i, q)" by (cases x)
  have "u = fold (\<lambda>(i, q). register rat_ops d i q (execution_bars bars i d)) ds (register rat_ops d i q (execution_bars bars i d) s)"
    using Cons.prems by (simp add: x)
  from Cons.IH [OF this] register_one(3) show ?case unfolding register_one(1,2) by blast
qed simp

lemma register_accounts:
  assumes "u = fold (\<lambda>(i, q). register rat_ops d i q (execution_bars bars i d)) ds s"
  shows "accounts bars s \<Longrightarrow> accounts bars u" "booked bars s \<Longrightarrow> booked bars u" "ready bars s \<Longrightarrow> ready bars u"
  using register_all [OF assms] by (simp_all add: accounts_def booked_def ready_def)

lemma decide_at_accounts:
  assumes "bars_priced bars" "accounts bars s" "booked bars s" "decide_at rat_ops ch request bars d (s, ds) = Ok (s', ds')"
  shows "accounts bars s' \<and> booked bars s'"
  using assms(4)
proof (rule decide_at_Ok)
  fix m target
  assume m: "advance rat_ops ch (Some d) s = Ok m"
    and s': "s' = fold (\<lambda>(i, q). register rat_ops d i q (execution_bars bars i d)) (deltas_toward rat_ops (projected_book rat_ops m) target) m"
  show ?thesis
    using advance_steps_accounts [OF assms(1) m [unfolded advance_def] refl assms(2,3)] register_accounts [OF s'] by simp
qed

text \<open>A decision of a request whose port answers and whose evaluator decides goes through.\<close>

lemma decide_at_ready:
  assumes bars: "bars_priced bars" "calendar bars" and ok: "ready bars s"
    and port: "point_in_time_port (rq_data request)" "pb_visible_at (rq_data request) d = Ok visible"
    and decides: "\<And>view book. \<exists>target. pe_decide (rq_evaluator request) (rq_policy request) view book = Ok target"
  shows "\<exists>s' r. decide_at rat_ops ch request bars d (s, ds) = Ok (s', ds @ [r]) \<and> ready bars s' \<and>
    rd_decision_time r = d \<and> (\<forall>t \<in> set_option (rd_inputs_visible_through r). t \<le> d)"
proof -
  obtain m where m: "advance rat_ops ch (Some d) s = Ok m" "ready bars m"
    using advance_steps_ready [OF bars refl ok] by (auto simp: advance_def)
  let ?inputs = "filter (policy_covers (rq_policy request)) visible"
  let ?through = "if ?inputs = [] then None else Some (Max (bar_visible_at ` set ?inputs))"
  have view: "point_in_time_view_new d ?inputs = Ok \<lparr>pit_decision_time = d, pit_bars = ?inputs\<rparr>"
    using point_in_time_port.view_accepts [OF port] .
  obtain target where target: "pe_decide (rq_evaluator request) (rq_policy request) \<lparr>pit_decision_time = d, pit_bars = ?inputs\<rparr>
      (projected_book rat_ops m) = Ok target"
    using decides by blast
  define s' where "s' = fold (\<lambda>(i, q). register rat_ops d i q (execution_bars bars i d)) (deltas_toward rat_ops (projected_book rat_ops m) target) m"
  define r where "r = \<lparr>rd_decision_time = d, rd_inputs_visible_through = ?through, rd_input_bar_count = length ?inputs, rd_target = target\<rparr>"
  have "decide_at rat_ops ch request bars d (s, ds) = Ok (s', ds @ [r])"
    using m(1) port(2) view target by (simp add: decide_at_def s'_def r_def Let_def)
  moreover have "ready bars s'" using register_accounts(3) [OF s'_def m(2)] .
  moreover have "\<forall>t \<in> set_option (rd_inputs_visible_through r). t \<le> d"
    using point_in_time_port.inputs_visible [OF port] by (simp add: r_def)
  moreover have "rd_decision_time r = d" by (simp add: r_def)
  ultimately show ?thesis by blast
qed

section \<open>Whole replays\<close>

lemma windows2_sorted: "sorted_wrt P xs \<Longrightarrow> \<not> windows2_any (\<lambda>a b. \<not> P a b) xs"
  by (induction "\<lambda>a b. \<not> P a b" xs rule: windows2_any.induct) auto

lemma fills_ordered: "\<not> windows2_any (\<lambda>a b. \<not> (sf_effective_at a, sf_instrument a) \<le> (sf_effective_at b, sf_instrument b)) (sort_key fill_key fills)"
proof (rule windows2_sorted)
  have "sorted_wrt (\<lambda>a b. fill_key a \<le> fill_key b) (sort_key fill_key fills)"
    using sorted_sort_key [of fill_key fills] by (simp only: sorted_map)
  then show "sorted_wrt (\<lambda>a b. (sf_effective_at a, sf_instrument a) \<le> (sf_effective_at b, sf_instrument b)) (sort_key fill_key fills)"
    by (rule sorted_wrt_mono_rel [rotated]) (auto simp: fill_key_def less_eq_prod_def)
qed

lemma initial_accounts:
  "accounts (covered_bars request) (initial_state rat_ops request costs constraints)"
  "booked (covered_bars request) (initial_state rat_ops request costs constraints)"
  using ledger_ok_new by (auto simp: accounts_def booked_def initial_state_def reconciled_def ledger_new_def steps_of_set(1))

lemma initial_state_ready:
  assumes "carry_total (rq_carry request)"
  shows "ready (covered_bars request) (initial_state rat_ops request costs constraints)"
proof -
  have "bs \<noteq> []" if "(e, bs) \<in> set (steps_of (covered_bars request))" for e bs
    using steps_of_set [OF that] by (auto simp: filter_empty_conv)
  then show ?thesis
    using initial_accounts [of request costs constraints] assms
    by (auto simp: ready_def initial_state_def ledger_new_def not_before_def steps_of_ok)
qed

text \<open>
  C14: In exact arithmetic the rows of a replay account for every step and add up.
  There is one row per distinct bar end, in order; in each, the total equals price change plus
  coupon plus funding plus transaction cost, and the equity is the sum of all totals up to it.
\<close>

theorem replay_reconciles:
  assumes "replay_bars ds rat_ops ch sha256 request = Ok r"
    and "\<forall>b \<in> set (covered_bars request). bar_vwap b \<noteq> None \<longrightarrow> bar_prices b \<noteq> None"
  shows "map pl_bar_end (sm_pnl r) = map fst (steps_of (covered_bars request)) \<and>
    (\<forall>k < length (sm_pnl r). pl_total (sm_pnl r ! k) = components_total rat_ops (sm_pnl r ! k) \<and>
       pl_equity (sm_pnl r ! k) = sum_list (map pl_total (take (Suc k) (sm_pnl r))))"
proof -
  let ?bars = "covered_bars request"
  have priced: "bars_priced ?bars" using assms(2) by (simp add: bars_priced_def)
  obtain costs constraints s s' decisions where
    run: "try_fold (decide_at rat_ops ch request ?bars) (decision_times_of ?bars) (initial_state rat_ops request costs constraints, [])
       = Ok (s, decisions)" "advance rat_ops ch None s = Ok s'"
    and result: "simulation_result_new ds rat_ops sha256 (replay_identity_of sha256 request constraints) decisions
       (sort_key fill_key (rs_fills s')) (lg_rows (rs_ledger s')) (lg_book (rs_ledger s')) = Ok r"
    using assms(1) by (rule replay_bars_Ok)
  have "accounts ?bars (fst (s, decisions)) \<and> booked ?bars (fst (s, decisions))"
    using run(1)
  proof (rule try_fold_invariant [where I = "\<lambda>x. accounts ?bars (fst x) \<and> booked ?bars (fst x)"])
    show "accounts ?bars (fst y) \<and> booked ?bars (fst y)"
      if "accounts ?bars (fst x) \<and> booked ?bars (fst x)" "decide_at rat_ops ch request ?bars d x = Ok y" for d x y
      using decide_at_accounts [OF priced, of "fst x" ch request d "snd x" "fst y" "snd y"] that by simp
  qed (simp add: initial_accounts)
  then have "accounts ?bars s' \<and> booked ?bars s'"
    using advance_steps_accounts [OF priced run(2) [unfolded advance_def] refl] by simp
  then show ?thesis
    using advance_all_steps [OF run(2)]
    by (simp add: simulation_result_Ok(3) [OF result] accounts_def booked_def reconciled_def)
qed

text \<open>
  Requests whose parts fit together: the checks of the use case pass, the carry source knows every
  bond, the port answers at the decision times, the evaluator always decides, and the bars form
  steps in date order.
\<close>

definition request_fits :: "(rat, 'e) bar_replay_request \<Rightarrow> bool" where
  "request_fits request \<longleftrightarrow>
     pe_family (rq_evaluator request) = pi_family (pa_input (rq_policy request)) \<and>
     pe_family_version (rq_evaluator request) = pi_family_version (pa_input (rq_policy request)) \<and>
     rf_tier (rq_funding request) = sv_funding_tier (rq_subject request) \<and>
     (\<exists>costs. cost_model_from_declaration rat_ops (rq_cost_model request) (rq_cost_parameters request) = Ok costs) \<and>
     covered_bars request \<noteq> [] \<and>
     (\<exists>constraints. enforced_constraints rat_ops request (hd (decision_times_of (covered_bars request))) = Ok constraints)"

definition services_answer :: "('d, 'e) bar_replay_request \<Rightarrow> bool" where
  "services_answer request \<longleftrightarrow> carry_total (rq_carry request) \<and>
     (\<forall>d \<in> set (decision_times_of (covered_bars request)). \<exists>bars. pb_visible_at (rq_data request) d = Ok bars) \<and>
     (\<forall>view book. \<exists>target. pe_decide (rq_evaluator request) (rq_policy request) view book = Ok target)"

lemma decisions_ready:
  assumes bars: "bars_priced bars" "calendar bars" and port: "point_in_time_port (rq_data request)"
    and decides: "\<And>view book. \<exists>target. pe_decide (rq_evaluator request) (rq_policy request) view book = Ok target"
  shows "ready bars s \<Longrightarrow> \<forall>d \<in> set ts. \<exists>visible. pb_visible_at (rq_data request) d = Ok visible \<Longrightarrow>
    \<exists>s' new. try_fold (decide_at rat_ops ch request bars) ts (s, ds) = Ok (s', ds @ new) \<and> ready bars s' \<and>
      map rd_decision_time new = ts \<and> (\<forall>r \<in> set new. \<forall>t \<in> set_option (rd_inputs_visible_through r). t \<le> rd_decision_time r)"
proof (induction ts arbitrary: s ds)
  case (Cons d ts)
  obtain visible where "pb_visible_at (rq_data request) d = Ok visible" using Cons.prems(2) by auto
  from decide_at_ready [OF bars Cons.prems(1) port this decides, of ch ds]
  obtain m r where m: "decide_at rat_ops ch request bars d (s, ds) = Ok (m, ds @ [r])" "ready bars m"
    "rd_decision_time r = d" "\<forall>t \<in> set_option (rd_inputs_visible_through r). t \<le> d" by blast
  obtain s' new where "try_fold (decide_at rat_ops ch request bars) ts (m, ds @ [r]) = Ok (s', (ds @ [r]) @ new)" "ready bars s'"
    "map rd_decision_time new = ts" "\<forall>r \<in> set new. \<forall>t \<in> set_option (rd_inputs_visible_through r). t \<le> rd_decision_time r"
    using Cons.IH [OF m(2), of "ds @ [r]"] Cons.prems(2) by auto
  with m show ?case by (intro exI [of _ s'] exI [of _ "r # new"]) simp
qed simp

text \<open>
  C4: A replay returns. In exact arithmetic, for a request whose parts fit together,
  with a point-in-time port and an evaluator that answer, a carry source that knows every bond and
  bars that form steps in date order, no check inside the replay fails; the result has exactly one
  decision per visibility time and one row per bar end, in order.
\<close>

theorem replay_returns:
  assumes "request_fits request" "services_answer request" "point_in_time_port (rq_data request)"
    and "bars_priced (covered_bars request)" "calendar (covered_bars request)"
  shows "\<exists>r. replay_bars ds rat_ops ch sha256 request = Ok r \<and>
    map rd_decision_time (sm_decisions r) = decision_times_of (covered_bars request) \<and>
    map pl_bar_end (sm_pnl r) = map fst (steps_of (covered_bars request))"
proof -
  let ?bars = "covered_bars request"
  obtain costs constraints where fits: "cost_model_from_declaration rat_ops (rq_cost_model request) (rq_cost_parameters request) = Ok costs"
    "enforced_constraints rat_ops request (hd (decision_times_of ?bars)) = Ok constraints"
    using assms(1) by (auto simp: request_fits_def)
  have "set (decision_times_of ?bars) \<noteq> {}" using assms(1) by (simp add: set_decision_times request_fits_def)
  then obtain first rest where first: "decision_times_of ?bars = first # rest" by (cases "decision_times_of ?bars") auto
  have "ready ?bars (initial_state rat_ops request costs constraints)"
    using assms(2) by (intro initial_state_ready) (simp add: services_answer_def)
  then obtain s decisions where run: "try_fold (decide_at rat_ops ch request ?bars) (decision_times_of ?bars)
      (initial_state rat_ops request costs constraints, []) = Ok (s, decisions)" "ready ?bars s"
    "map rd_decision_time decisions = decision_times_of ?bars"
    "\<forall>r \<in> set decisions. \<forall>t \<in> set_option (rd_inputs_visible_through r). t \<le> rd_decision_time r"
    using decisions_ready [OF assms(4,5,3), of _ "decision_times_of ?bars" ch "[]"] assms(2)
    unfolding services_answer_def by (metis append_Nil)
  obtain s' where s': "advance rat_ops ch None s = Ok s'" "ready ?bars s'"
    using advance_steps_ready [OF assms(4,5) refl run(2)] by (auto simp: advance_def)
  have rows: "map pl_bar_end (lg_rows (rs_ledger s')) = map fst (steps_of ?bars)"
    using s'(2) advance_all_steps [OF s'(1)] by (simp add: ready_def booked_def)
  have sorted: "sorted_wrt (\<lambda>a b. rd_decision_time a < rd_decision_time b) decisions"
    using sorted_decision_times [of ?bars] unfolding run(3) [symmetric] by (simp add: sorted_wrt_map)
  have ends: "sorted_wrt (\<lambda>a b. pl_bar_end a < pl_bar_end b) (lg_rows (rs_ledger s'))"
    using steps_of_ok [of ?bars] rows by (simp add: bt_ok_def sorted_wrt_map [symmetric])
  obtain r where r: "simulation_result_new ds rat_ops sha256 (replay_identity_of sha256 request constraints) decisions
      (sort_key fill_key (rs_fills s')) (lg_rows (rs_ledger s')) (lg_book (rs_ledger s')) = Ok r"
    using windows2_sorted [OF sorted] windows2_sorted [OF ends] fills_ordered [of "rs_fills s'"] run(4)
    by (simp add: simulation_result_new_def Let_def)
  have "replay_bars ds rat_ops ch sha256 request = Ok r"
    using assms(1) fits run(1) s'(1) r
    by (simp add: replay_bars_def Let_def request_fits_def first replay_finish_def del: try_fold.simps)
  then show ?thesis using simulation_result_Ok(1,3) [OF r] run(3) rows by simp
qed

section \<open>The participation cap\<close>

text \<open>The face executed in the bar of one record, and the most that the cap allows in a bar.\<close>

definition executed_in :: "rat simulated_fill list \<Rightarrow> string \<Rightarrow> rat" where
  "executed_in fills r = (\<Sum>f \<leftarrow> filter (\<lambda>f. sf_execution_bar f = Some r) fills. \<bar>sf_quantity f\<bar>)"

definition cap_of :: "rat execution_rules \<Rightarrow> bar \<Rightarrow> rat" where
  "cap_of rules b = max 0 (amount_of rat_ops (bar_volume b) * er_participation_cap rules)"

lemma executed_in_simps [simp]:
  "executed_in [] r = 0"
  "executed_in (f # fs) r = (if sf_execution_bar f = Some r then \<bar>sf_quantity f\<bar> else 0) + executed_in fs r"
  "executed_in (xs @ ys) r = executed_in xs r + executed_in ys r"
  by (simp_all add: executed_in_def)

lemma no_later_bar_execution [simp]: "sf_execution_bar (no_later_bar ops t i q e ps) = None"
  by (simp add: no_later_bar_def)

lemma used_in_insert: "used_in rat_ops (bt_insert k v used) r = (if r = k then v else used_in rat_ops used r)"
  by (simp add: used_in_def)

lemma constrained_attempt_limit:
  assumes "constrained_attempt rat_ops p b used s = Ok a"
  shows "\<bar>sf_quantity a\<bar> \<le> attempt_limit rat_ops b used (rs_rules s)"
proof -
  define attempt where "attempt = attempt_in_bar rat_ops (pt_decision_time p) (pt_instrument p) (pt_remaining p) b used (rs_rules s) (rs_price_source s)"
  have bound: "\<bar>sf_quantity attempt\<bar> \<le> attempt_limit rat_ops b used (rs_rules s)" using attempt_part_of(3) [OF attempt_def] .
  from assms attempt_def show ?thesis
  proof (cases rule: constrained_attempt_cases)
    case (constrained price ctx allowed outcome)
    then have "part_of (sf_quantity a) (sf_quantity attempt)" using check_execution_part_of by simp
    with part_of_abs bound show ?thesis by (blast intro: order_trans)
  qed (use bound in simp)
qed

text \<open>While the trades of the step ending at \<open>e\<close> execute.\<close>

definition within_cap ::
  "rat execution_rules \<Rightarrow> bar list \<Rightarrow> utc_instant \<Rightarrow> rat simulated_fill list \<Rightarrow> (string, rat) btree_map \<times> rat replay_state \<Rightarrow> bool" where
  "within_cap rules bars e fills x \<longleftrightarrow> rs_rules (snd x) = rules \<and>
     (\<forall>r. executed_in (rs_fills (snd x)) r = executed_in fills r + used_in rat_ops (fst x) r) \<and>
     (\<forall>b \<in> set bars. used_in rat_ops (fst x) (source_record_id b) \<le> (if bar_end b = e then cap_of rules b else 0))"

lemma execute_due_within_cap:
  assumes records: "inj_on source_record_id (set bars)" and p: "trade_in bars p" and ok: "within_cap rules bars e fills (used, s)"
    and run: "execute_due rat_ops e p used s = Ok (p', used', s')"
  shows "within_cap rules bars e fills (used', s')"
proof (cases "pt_bars p = [] \<or> bar_end (hd (pt_bars p)) \<noteq> e \<or> pt_remaining p = 0")
  case True
  then show ?thesis using run ok by (cases "pt_bars p") (auto simp: execute_due_def)
next
  case False
  then obtain b rest where b: "pt_bars p = b # rest" "bar_end b = e" "pt_remaining p \<noteq> 0" by (cases "pt_bars p") auto
  let ?r = "source_record_id b"
  from b run obtain a l where a: "constrained_attempt rat_ops p b (used_in rat_ops used ?r) s = Ok a" and l: "settle rat_ops a (rs_ledger s) = Ok l"
    by (auto simp: execute_due_def result_simps)
  have member: "b \<in> set bars" using p b(1) by (simp add: trade_in_def)
  have used': "used' = bt_insert ?r (used_in rat_ops used ?r + \<bar>sf_quantity a\<bar>) used"
    and rules: "rs_rules s' = rs_rules s"
    and fills: "executed_in (rs_fills s') r = executed_in (rs_fills s) r + executed_in [a] r" for r
    using run b by (auto simp: execute_due_def a l Let_def)
  note bar = constrained_attempt_shape(3) [OF a]
  have "used_in rat_ops used ?r + \<bar>sf_quantity a\<bar> \<le> cap_of rules b"
    using constrained_attempt_limit [OF a] ok member b(2) by (auto simp: within_cap_def attempt_limit_def cap_of_def)
  moreover have "c = b" if "c \<in> set bars" "source_record_id c = ?r" for c
    using records that member by (meson inj_onD)
  ultimately show ?thesis
    using ok b(2) by (auto simp: within_cap_def rules fills bar used' used_in_insert)
qed

text \<open>Between steps: nothing has executed in the bars of the steps left.\<close>

definition capped :: "rat execution_rules \<Rightarrow> bar list \<Rightarrow> rat replay_state \<Rightarrow> bool" where
  "capped rules bars s \<longleftrightarrow> rs_rules s = rules \<and> (\<forall>b \<in> set bars.
     executed_in (rs_fills s) (source_record_id b) \<le> (if bar_end b \<in> fst ` set (rs_steps s) then 0 else cap_of rules b))"

lemma advance_step_capped:
  assumes records: "inj_on source_record_id (set bars)" and trades: "\<forall>p \<in> set (rs_pending s). trade_in bars p"
    and cap: "capped rules bars s" "rs_steps s = (e, bs) # steps" "bt_ok (rs_steps s)"
    and run: "advance_step rat_ops ch e bs (s\<lparr>rs_steps := steps\<rparr>) = Ok s'"
  shows "capped rules bars s'"
proof -
  obtain l ps used m l' where
    pending: "try_fold (execute_pending rat_ops e) (rs_pending s) ([], [], s\<lparr>rs_steps := steps, rs_ledger := l, rs_pending := []\<rparr>) = Ok (ps, used, m)"
    and s': "s' = m\<lparr>rs_ledger := l', rs_pending := filter (\<lambda>t. pt_remaining t \<noteq> 0) ps\<rparr>"
    using run by (auto simp: advance_step_def result_simps)
  have "within_cap rules bars e (rs_fills s) (snd (ps, used, m))"
    using pending
  proof (rule try_fold_invariant [where I = "\<lambda>x. within_cap rules bars e (rs_fills s) (snd x)"])
    show "within_cap rules bars e (rs_fills s) (snd ([], [], s\<lparr>rs_steps := steps, rs_ledger := l, rs_pending := []\<rparr>))"
      using cap(1) by (auto simp: within_cap_def capped_def used_in_def cap_of_def)
    show "within_cap rules bars e (rs_fills s) (snd y)"
      if "p \<in> set (rs_pending s)" "within_cap rules bars e (rs_fills s) (snd x)" "execute_pending rat_ops e p x = Ok y" for p x y
      using that trades execute_due_within_cap [OF records, of p] by (cases x) (auto simp: execute_pending_def result_simps)
  qed
  then have m: "rs_rules m = rules" "\<And>r. executed_in (rs_fills m) r = executed_in (rs_fills s) r + used_in rat_ops used r"
    "\<And>b. b \<in> set bars \<Longrightarrow> used_in rat_ops used (source_record_id b) \<le> (if bar_end b = e then cap_of rules b else 0)"
    by (simp_all add: within_cap_def)
  have left: "rs_steps s' = steps" "e \<notin> fst ` set steps"
    using advance_step_steps [OF run] cap(2,3) by (auto simp: bt_ok_Cons)
  have "executed_in (rs_fills m) (source_record_id b) \<le> (if bar_end b \<in> fst ` set steps then 0 else cap_of rules b)"
    if b: "b \<in> set bars" for b
  proof -
    have "executed_in (rs_fills s) (source_record_id b) \<le> (if bar_end b \<in> insert e (fst ` set steps) then 0 else cap_of rules b)"
      using cap(1,2) b by (simp add: capped_def)
    then show ?thesis using m(2) [of "source_record_id b"] m(3) [OF b] left(2) by (auto split: if_splits)
  qed
  then show ?thesis using m(1) left(1) by (simp add: capped_def s')
qed

lemma advance_steps_capped:
  assumes priced: "bars_priced bars" and records: "inj_on source_record_id (set bars)"
  shows "advance_steps rat_ops ch until xs s = Ok s' \<Longrightarrow> rs_steps s = xs \<Longrightarrow> accounts bars s \<Longrightarrow> bt_ok xs \<Longrightarrow> capped rules bars s \<Longrightarrow>
    capped rules bars s'"
proof (induction "rat_ops :: rat decimal_ops" ch until xs s rule: advance_steps.induct)
  case (2 ch until e bs steps s)
  show ?case
  proof (cases "\<exists>limit \<in> set_option until. e > limit")
    case True
    then show ?thesis using 2 by simp
  next
    case False
    then obtain m where m: "advance_step rat_ops ch e bs (s\<lparr>rs_steps := steps\<rparr>) = Ok m" "advance_steps rat_ops ch until steps m = Ok s'"
      using 2(2) by (auto simp: result_simps)
    have bs: "bs = step_bars bars e" and ok: "accounts bars (s\<lparr>rs_steps := steps\<rparr>)"
      using 2(3,4) by (auto simp: accounts_def)
    have "accounts bars m" using advance_step_accounts [OF priced ok m(1) [unfolded bs]] by simp
    moreover have "rs_steps m = steps" using advance_step_steps [OF m(1)] by simp
    moreover have "capped rules bars m"
      using 2(3-6) by (intro advance_step_capped [OF records _ 2(6) 2(3) _ m(1)]) (simp_all add: accounts_def)
    ultimately show ?thesis using 2(1) [OF False m(2)] 2(5) by (simp add: bt_ok_Cons)
  qed
qed simp

lemma register_capped:
  assumes "capped rules bars s"
  shows "capped rules bars (fold (\<lambda>(i, q). register rat_ops d i q (f i)) ds s)"
  using assms
proof (induction ds arbitrary: s)
  case (Cons x ds)
  have "capped rules bars (register rat_ops d i q bs s)" for i q bs
    using Cons.prems by (simp add: capped_def register_def)
  then show ?case using Cons.IH by (cases x) simp
qed simp

lemma bt_ok_dropWhile: "bt_ok xs \<Longrightarrow> bt_ok (dropWhile P xs)"
  unfolding bt_ok_def by (metis dropWhile_eq_drop drop_map sorted_wrt_drop)

lemma decide_at_capped:
  assumes "bars_priced bars" "inj_on source_record_id (set bars)"
    and ok: "accounts bars s \<and> booked bars s \<and> bt_ok (rs_steps s) \<and> capped rules bars s"
    and run: "decide_at rat_ops ch request bars d (s, ds) = Ok (s', ds')"
  shows "accounts bars s' \<and> booked bars s' \<and> bt_ok (rs_steps s') \<and> capped rules bars s'"
  using run
proof (rule decide_at_Ok)
  fix m target
  assume m: "advance rat_ops ch (Some d) s = Ok m"
    and s': "s' = fold (\<lambda>(i, q). register rat_ops d i q (execution_bars bars i d)) (deltas_toward rat_ops (projected_book rat_ops m) target) m"
  have "rs_steps m = dropWhile (\<lambda>x. \<not> fst x > d) (rs_steps s)" using advance_steps_rest [OF m [unfolded advance_def] refl] by simp
  then have "bt_ok (rs_steps m)" using ok by (simp add: bt_ok_dropWhile)
  moreover have "capped rules bars m"
    using advance_steps_capped [OF assms(1,2) m [unfolded advance_def] refl] ok by simp
  ultimately show ?thesis
    using decide_at_accounts [OF assms(1) _ _ run] ok register_capped register_all [OF s'] by (auto simp: s')
qed

lemma executed_in_sort: "executed_in (sort_key k fills) r = executed_in fills r"
proof -
  have "executed_in (insort_key k f fs) r = executed_in (f # fs) r" for f fs by (induction fs) auto
  then show ?thesis by (induction fills) simp_all
qed

text \<open>
  C15: All attempts in one bar share its participation cap. In exact arithmetic
  the face executed in a bar over the whole replay, summed over all trades and decisions, is at
  most the cap times the traded volume of the bar, when bars carry distinct record identifiers.
\<close>

theorem replay_respects_cap:
  assumes "replay_bars ds rat_ops ch sha256 request = Ok r" "inj_on source_record_id (set (covered_bars request))"
    and "\<forall>b \<in> set (covered_bars request). bar_vwap b \<noteq> None \<longrightarrow> bar_prices b \<noteq> None"
    and b: "b \<in> set (covered_bars request)"
      "0 \<le> amount_of rat_ops (bar_volume b) * er_participation_cap (pi_execution (pa_input (rq_policy request)))"
  shows "(\<Sum>f \<leftarrow> filter (\<lambda>f. sf_execution_bar f = Some (source_record_id b)) (sm_fills r). \<bar>sf_quantity f\<bar>) \<le>
    amount_of rat_ops (bar_volume b) * er_participation_cap (pi_execution (pa_input (rq_policy request)))"
proof -
  let ?bars = "covered_bars request" and ?rules = "pi_execution (pa_input (rq_policy request))"
  have priced: "bars_priced ?bars" using assms(3) by (simp add: bars_priced_def)
  let ?I = "\<lambda>s. accounts ?bars s \<and> booked ?bars s \<and> bt_ok (rs_steps s) \<and> capped ?rules ?bars s"
  obtain costs constraints s s' decisions where
    run: "try_fold (decide_at rat_ops ch request ?bars) (decision_times_of ?bars) (initial_state rat_ops request costs constraints, [])
       = Ok (s, decisions)" "advance rat_ops ch None s = Ok s'"
    and result: "simulation_result_new ds rat_ops sha256 (replay_identity_of sha256 request constraints) decisions
       (sort_key fill_key (rs_fills s')) (lg_rows (rs_ledger s')) (lg_book (rs_ledger s')) = Ok r"
    using assms(1) by (rule replay_bars_Ok)
  have "?I (fst (s, decisions))"
    using run(1)
  proof (rule try_fold_invariant [where I = "\<lambda>x. ?I (fst x)"])
    show "?I (fst (initial_state rat_ops request costs constraints, []))"
      using initial_accounts [of request costs constraints]
      by (auto simp: capped_def initial_state_def cap_of_def steps_of_ok)
    show "?I (fst y)" if "?I (fst x)" "decide_at rat_ops ch request ?bars d x = Ok y" for d x y
      using decide_at_capped [OF priced assms(2), of "fst x" ?rules ch request d "snd x" "fst y" "snd y"] that by simp
  qed
  then have "capped ?rules ?bars s'"
    using advance_steps_capped [OF priced assms(2) run(2) [unfolded advance_def] refl] by simp
  then have "executed_in (sm_fills r) (source_record_id b) \<le> cap_of ?rules b"
    using b(1) advance_all_steps [OF run(2)] by (simp add: simulation_result_Ok(2) [OF result] executed_in_sort capped_def)
  then show ?thesis using b(2) by (simp add: executed_in_def cap_of_def)
qed

section \<open>Witnesses\<close>

abbreviation sample_bars :: "bar list" where
  "sample_bars \<equiv> [first_bar, second_bar ''99'']"

lemma sample_bars_fit: "bars_priced sample_bars" "calendar sample_bars" "inj_on source_record_id (set sample_bars)"
  by (simp_all add: bars_priced_def calendar_def first_bar_def second_bar_def sample_bar_def instant_order)

lemma sample_request_fits: "request_fits (sample_request sample_bars)"
  using sample_request_declares [of sample_bars] by (simp add: request_fits_def covered slots)

lemma sample_services: "services_answer (sample_request sample_bars)"
proof -
  have "carry_total (rq_carry (sample_request sample_bars))"
    by (simp add: sample_request_def sample_carry_def carry_total_def)
  moreover have "\<exists>bars. pb_visible_at (rq_data (sample_request sample_bars)) d = Ok bars"
    if "d \<in> {UtcInstant 60 0, UtcInstant 120 0}" for d
    using that by (auto simp: sample_request_def sample_data_def snapshot_port_def snapshot_visible_at_def instant_order)
  moreover have "\<exists>target. pe_decide (rq_evaluator (sample_request sample_bars)) (rq_policy (sample_request sample_bars)) view book = Ok target"
    for view book
    by (simp add: sample_request_def yield_threshold_policy_def yield_threshold_decide_def sample_policy_def policy_parameter_def)
  ultimately show ?thesis by (simp add: services_answer_def covered slots)
qed

theorem replay_returns_witness:
  "\<exists>r. replay_bars (\<lambda>_. []) rat_ops sample_chrono (\<lambda>_. zero_hash) (sample_request sample_bars) = Ok r \<and>
     map rd_decision_time (sm_decisions r) = [UtcInstant 60 0, UtcInstant 120 0] \<and>
     map pl_bar_end (sm_pnl r) = [UtcInstant 60 0, UtcInstant 120 0]"
proof -
  have "point_in_time_port (rq_data (sample_request sample_bars))"
    by (simp add: sample_request_def sample_data_def verified.point_in_time_port_axioms)
  from replay_returns [OF sample_request_fits sample_services this] sample_bars_fit show ?thesis by (simp add: covered slots)
qed

theorem replay_reconciles_witness:
  "\<exists>r. replay_bars (\<lambda>_. []) rat_ops sample_chrono (\<lambda>_. zero_hash) (sample_request sample_bars) = Ok r \<and>
     map pl_bar_end (sm_pnl r) = [UtcInstant 60 0, UtcInstant 120 0] \<and>
     pl_total (sm_pnl r ! 1) = components_total rat_ops (sm_pnl r ! 1) \<and>
     pl_equity (sm_pnl r ! 1) = pl_total (sm_pnl r ! 0) + pl_total (sm_pnl r ! 1)"
proof -
  obtain r where r: "replay_bars (\<lambda>_. []) rat_ops sample_chrono (\<lambda>_. zero_hash) (sample_request sample_bars) = Ok r"
    using replay_two_bars [OF sample_amounts(1)] by blast
  have "\<forall>b \<in> set (covered_bars (sample_request sample_bars)). bar_vwap b \<noteq> None \<longrightarrow> bar_prices b \<noteq> None"
    using sample_bars_fit(1) by (simp add: covered bars_priced_def)
  note rows = replay_reconciles [OF r this]
  then have "map pl_bar_end (sm_pnl r) = [UtcInstant 60 0, UtcInstant 120 0]" by (simp add: covered slots)
  moreover from this obtain x y where "sm_pnl r = [x, y]" by (auto simp: map_eq_Cons_conv)
  ultimately show ?thesis using r conjunct2 [OF rows, rule_format, of 1] by simp
qed

theorem replay_respects_cap_witness:
  "\<exists>r. replay_bars (\<lambda>_. []) rat_ops sample_chrono (\<lambda>_. zero_hash) (sample_request sample_bars) = Ok r \<and>
     (\<Sum>f \<leftarrow> filter (\<lambda>f. sf_execution_bar f = Some ''r2'') (sm_fills r). \<bar>sf_quantity f\<bar>) \<le> 500"
proof -
  obtain r where r: "replay_bars (\<lambda>_. []) rat_ops sample_chrono (\<lambda>_. zero_hash) (sample_request sample_bars) = Ok r"
    using replay_two_bars [OF sample_amounts(1)] by blast
  have "\<forall>b \<in> set (covered_bars (sample_request sample_bars)). bar_vwap b \<noteq> None \<longrightarrow> bar_prices b \<noteq> None"
    "inj_on source_record_id (set (covered_bars (sample_request sample_bars)))"
    using sample_bars_fit(1,3) by (simp_all add: covered bars_priced_def)
  moreover have "pi_execution (pa_input (rq_policy (sample_request sample_bars))) = \<lparr>er_participation_cap = 1 / 10, er_remainder = Cancel\<rparr>"
    by (simp add: sample_request_def sample_policy_def)
  moreover have "amount_of rat_ops (bar_volume (second_bar ''99'')) = 5000" "source_record_id (second_bar ''99'') = ''r2''"
    by (simp_all add: second_bar_def sample_bar_def)
  ultimately show ?thesis using r replay_respects_cap [OF r, of "second_bar ''99''"] by (simp add: covered)
qed

end
