(* ===== verification/Policy_Calibration.thy ===== *)
theory Policy_Calibration
  imports Replay_Reports
begin

text \<open>
  Policy calibration (\<open>ficant-application/src/use_cases/policy_calibration.rs\<close>): every candidate of
  the grid is replayed over the training and over the validation window, the best training
  candidate is selected and the calibrated artifact carries the whole record. The theory shows
  what an artifact that comes out of it contains, and that the validation window has no influence
  on the parameters chosen.
\<close>

section \<open>Definitions\<close>

record ('d, 'e) calibration_request =
  kr_replay :: "('d, 'e) bar_replay_request"
  kr_grid :: "'d parameter_grid"
  kr_training :: effective_period
  kr_validation :: effective_period
  kr_objective :: string
  kr_output_id :: ulid
  kr_output_valid :: effective_period

text \<open>The total profit of a replay is the equity of its last row.\<close>

fun objective_value :: "'d decimal_ops \<Rightarrow> calibration_objective \<Rightarrow> 'd simulation_result \<Rightarrow> 'd" where
  "objective_value ops TotalPnl result = (if sm_pnl result = [] then d_zero ops else pl_equity (last (sm_pnl result)))"

definition replay_window ::
  "(naive_date \<Rightarrow> string) \<Rightarrow> 'd decimal_ops \<Rightarrow> chrono_ops \<Rightarrow> sha256_fn \<Rightarrow> ('d, 'e) calibration_request \<Rightarrow>
   'd parameters \<Rightarrow> effective_period \<Rightarrow> calibration_objective \<Rightarrow> ('d window_result, 'e bar_replay_error) result" where
  "replay_window ds ops ch sha256 request parameters window objective =
     (let input = (pa_input (rq_policy (kr_replay request)))
            \<lparr>pi_parameters := parameters, pi_valid := window, pi_calibration := None\<rparr>
      in and_then (or_invalid (policy_artifact_new ops sha256 input)) (\<lambda>policy.
         and_then (replay_bars ds ops ch sha256 ((kr_replay request)\<lparr>rq_policy := policy\<rparr>)) (\<lambda>result.
         Ok \<lparr>wr_result_id = sm_result_id result, wr_objective = objective_value ops objective result\<rparr>)))"

definition evaluate_candidate ::
  "(naive_date \<Rightarrow> string) \<Rightarrow> 'd decimal_ops \<Rightarrow> chrono_ops \<Rightarrow> sha256_fn \<Rightarrow> ('d, 'e) calibration_request \<Rightarrow>
   calibration_objective \<Rightarrow> 'd parameters \<Rightarrow> ('d candidate_result, 'e bar_replay_error) result" where
  "evaluate_candidate ds ops ch sha256 request objective parameters =
     and_then (replay_window ds ops ch sha256 request parameters (kr_training request) objective) (\<lambda>training.
     and_then (replay_window ds ops ch sha256 request parameters (kr_validation request) objective) (\<lambda>validation.
     Ok \<lparr>cr_parameters = parameters, cr_training = training, cr_validation = validation\<rparr>))"

definition calibrate_policy ::
  "(naive_date \<Rightarrow> string) \<Rightarrow> 'd decimal_ops \<Rightarrow> chrono_ops \<Rightarrow> sha256_fn \<Rightarrow> ('d, 'e) calibration_request \<Rightarrow>
   ('d policy_artifact, 'e bar_replay_error) result" where
  "calibrate_policy ds ops ch sha256 request =
     and_then (or_invalid (check_windows (kr_training request) (kr_validation request))) (\<lambda>_.
     and_then (ok_or (objective_from_code (kr_objective request)) InvalidRequest) (\<lambda>objective.
     let base = rq_policy (kr_replay request) in
     and_then (try_map (evaluate_candidate ds ops ch sha256 request objective)
         (grid_candidates (kr_grid request) (pi_parameters (pa_input base)))) (\<lambda>candidates.
     and_then (ok_or (best_training_candidate ops candidates) InvalidRequest) (\<lambda>selected.
     let parameters = cr_parameters (candidates ! selected) in
     and_then (or_invalid (calibration_record_new ops (pa_content_hash base) (kr_training request)
         (kr_validation request) objective (kr_grid request) candidates selected)) (\<lambda>record.
     or_invalid (policy_artifact_new ops sha256
       ((pa_input base)\<lparr>pi_policy_artifact_id := kr_output_id request, pi_parameters := parameters,
         pi_valid := kr_output_valid request, pi_calibration := Some record\<rparr>)))))))"

section \<open>The calibrated artifact\<close>

lemma replay_window_validation [simp]:
  "replay_window ds ops ch sha256 (request\<lparr>kr_validation := w\<rparr>) = replay_window ds ops ch sha256 request"
  by (simp add: replay_window_def fun_eq_iff)

lemma evaluate_candidate_Ok:
  "evaluate_candidate ds ops ch sha256 request objective parameters = Ok c \<longleftrightarrow>
     cr_parameters c = parameters \<and>
     replay_window ds ops ch sha256 request parameters (kr_training request) objective = Ok (cr_training c) \<and>
     replay_window ds ops ch sha256 request parameters (kr_validation request) objective = Ok (cr_validation c)"
  by (cases c) (auto simp: evaluate_candidate_def result_simps)

lemma calibrate_policy_Ok:
  assumes "calibrate_policy ds ops ch sha256 request = Ok p"
  obtains objective candidates selected r where
    "objective_from_code (kr_objective request) = Some objective"
    "try_map (evaluate_candidate ds ops ch sha256 request objective)
       (grid_candidates (kr_grid request) (pi_parameters (pa_input (rq_policy (kr_replay request))))) = Ok candidates"
    "best_training_candidate ops candidates = Some selected"
    "r = \<lparr>cb_base_policy = pa_content_hash (rq_policy (kr_replay request)), cb_training = kr_training request,
       cb_validation = kr_validation request, cb_objective = objective, cb_grid = kr_grid request,
       cb_candidates = candidates, cb_selected = selected\<rparr>"
    "pi_calibration (pa_input p) = Some r" "pi_parameters (pa_input p) = cr_parameters (candidates ! selected)"
    "pi_policy_artifact_id (pa_input p) = kr_output_id request" "pi_valid (pa_input p) = kr_output_valid request"
proof -
  obtain objective candidates selected r where run:
    "objective_from_code (kr_objective request) = Some objective"
    "try_map (evaluate_candidate ds ops ch sha256 request objective)
       (grid_candidates (kr_grid request) (pi_parameters (pa_input (rq_policy (kr_replay request))))) = Ok candidates"
    "best_training_candidate ops candidates = Some selected"
    "calibration_record_new ops (pa_content_hash (rq_policy (kr_replay request))) (kr_training request)
         (kr_validation request) objective (kr_grid request) candidates selected = Ok r"
    "policy_artifact_new ops sha256
       ((pa_input (rq_policy (kr_replay request)))\<lparr>pi_policy_artifact_id := kr_output_id request,
         pi_parameters := cr_parameters (candidates ! selected),
         pi_valid := kr_output_valid request, pi_calibration := Some r\<rparr>) = Ok p"
    using assms unfolding calibrate_policy_def Let_def by (auto simp: result_simps)
  from run(4) have r: "r = \<lparr>cb_base_policy = pa_content_hash (rq_policy (kr_replay request)), cb_training = kr_training request,
       cb_validation = kr_validation request, cb_objective = objective, cb_grid = kr_grid request,
       cb_candidates = candidates, cb_selected = selected\<rparr>"
    by (simp add: calibration_record_new_def result_simps split: if_splits)
  show ?thesis using run(5) by (intro that [OF run(1-3) r]) (auto simp: policy_artifact_new_def Let_def split: if_splits)
qed

lemma candidates_Ok:
  assumes "try_map (evaluate_candidate ds ops ch sha256 request objective) grid = Ok candidates"
  shows "map cr_parameters candidates = grid"
    "\<forall>c \<in> set candidates. replay_window ds ops ch sha256 request (cr_parameters c) (kr_training request) objective = Ok (cr_training c)"
    "\<forall>c \<in> set candidates. replay_window ds ops ch sha256 request (cr_parameters c) (kr_validation request) objective = Ok (cr_validation c)"
proof -
  have "list_all2 (\<lambda>g c. evaluate_candidate ds ops ch sha256 request objective g = Ok c) grid candidates"
    using assms by (simp add: try_map_Ok)
  then have "map cr_parameters candidates = grid \<and>
    (\<forall>c \<in> set candidates. replay_window ds ops ch sha256 request (cr_parameters c) (kr_training request) objective = Ok (cr_training c)) \<and>
    (\<forall>c \<in> set candidates. replay_window ds ops ch sha256 request (cr_parameters c) (kr_validation request) objective = Ok (cr_validation c))"
    by (induction grid candidates rule: list_all2_induct) (auto simp: evaluate_candidate_Ok)
  then show "map cr_parameters candidates = grid"
    "\<forall>c \<in> set candidates. replay_window ds ops ch sha256 request (cr_parameters c) (kr_training request) objective = Ok (cr_training c)"
    "\<forall>c \<in> set candidates. replay_window ds ops ch sha256 request (cr_parameters c) (kr_validation request) objective = Ok (cr_validation c)"
    by simp_all
qed

text \<open>
  C18: A calibrated artifact carries the record of every combination of the
  grid, in grid order, each with the outcome of its own replay over the training and over the
  validation window; its parameters are those of the first combination with the greatest
  training objective, under the identity and validity the request asks for. The replays compute in
  exact arithmetic.
\<close>

theorem calibrate_policy_record:
  assumes "calibrate_policy ds rat_ops ch sha256 request = Ok p"
  shows "\<exists>r k. pi_calibration (pa_input p) = Some r \<and> cb_selected r = k \<and>
    map cr_parameters (cb_candidates r) =
      grid_candidates (kr_grid request) (pi_parameters (pa_input (rq_policy (kr_replay request)))) \<and>
    (\<forall>c \<in> set (cb_candidates r).
       replay_window ds rat_ops ch sha256 request (cr_parameters c) (kr_training request) (cb_objective r) = Ok (cr_training c) \<and>
       replay_window ds rat_ops ch sha256 request (cr_parameters c) (kr_validation request) (cb_objective r) = Ok (cr_validation c)) \<and>
    first_best (cb_candidates r) k \<and> pi_parameters (pa_input p) = cr_parameters (cb_candidates r ! k) \<and>
    pi_policy_artifact_id (pa_input p) = kr_output_id request \<and> pi_valid (pa_input p) = kr_output_valid request"
proof -
  from assms obtain objective candidates selected r where
    run: "try_map (evaluate_candidate ds rat_ops ch sha256 request objective)
       (grid_candidates (kr_grid request) (pi_parameters (pa_input (rq_policy (kr_replay request))))) = Ok candidates"
    and best: "best_training_candidate rat_ops candidates = Some selected"
    and r: "r = \<lparr>cb_base_policy = pa_content_hash (rq_policy (kr_replay request)), cb_training = kr_training request,
       cb_validation = kr_validation request, cb_objective = objective, cb_grid = kr_grid request,
       cb_candidates = candidates, cb_selected = selected\<rparr>"
    and p: "pi_calibration (pa_input p) = Some r" "pi_parameters (pa_input p) = cr_parameters (candidates ! selected)"
      "pi_policy_artifact_id (pa_input p) = kr_output_id request" "pi_valid (pa_input p) = kr_output_valid request"
    by (rule calibrate_policy_Ok)
  have "first_best candidates selected" using best by (simp add: best_first_best)
  with candidates_Ok [OF run] p show ?thesis by (simp add: r)
qed

text \<open>
  C19: Validation never influences the choice. Two calibrations that differ
  only in the validation window, and both return, choose the same parameters, in any arithmetic.
\<close>

theorem validation_never_selects:
  assumes "calibrate_policy ds ops ch sha256 request = Ok p"
    and "calibrate_policy ds ops ch sha256 (request\<lparr>kr_validation := window\<rparr>) = Ok q"
  shows "pi_parameters (pa_input q) = pi_parameters (pa_input p)"
proof -
  let ?grid = "grid_candidates (kr_grid request) (pi_parameters (pa_input (rq_policy (kr_replay request))))"
  from assms(1) obtain objective cs k where
    p: "objective_from_code (kr_objective request) = Some objective"
      "try_map (evaluate_candidate ds ops ch sha256 request objective) ?grid = Ok cs"
      "best_training_candidate ops cs = Some k" "pi_parameters (pa_input p) = cr_parameters (cs ! k)"
    by (rule calibrate_policy_Ok)
  from assms(2) obtain cs' k' where
    q: "try_map (evaluate_candidate ds ops ch sha256 (request\<lparr>kr_validation := window\<rparr>) objective) ?grid = Ok cs'"
      "best_training_candidate ops cs' = Some k'" "pi_parameters (pa_input q) = cr_parameters (cs' ! k')"
    using p(1) by (auto elim!: calibrate_policy_Ok)
  have params: "map cr_parameters cs' = map cr_parameters cs"
    using candidates_Ok(1) [OF p(2)] candidates_Ok(1) [OF q(1)] by simp
  have "map cr_training cs' = map cr_training cs"
  proof (rule nth_equalityI)
    show "length (map cr_training cs') = length (map cr_training cs)" using params map_eq_imp_length_eq by fastforce
    fix i assume i: "i < length (map cr_training cs')"
    then have "i < length cs" using params map_eq_imp_length_eq by fastforce
    have same: "cr_parameters (cs' ! i) = cr_parameters (cs ! i)"
      using arg_cong [OF params, of "\<lambda>xs. xs ! i"] i \<open>i < length cs\<close> by simp
    have "replay_window ds ops ch sha256 request (cr_parameters (cs ! i)) (kr_training request) objective = Ok (cr_training (cs ! i))"
      using candidates_Ok(2) [OF p(2)] \<open>i < length cs\<close> by simp
    moreover have "replay_window ds ops ch sha256 request (cr_parameters (cs' ! i)) (kr_training request) objective = Ok (cr_training (cs' ! i))"
      using candidates_Ok(2) [OF q(1)] i by simp
    ultimately have "cr_training (cs' ! i) = cr_training (cs ! i)" by (simp add: same)
    then show "map cr_training cs' ! i = map cr_training cs ! i" using i \<open>i < length cs\<close> by simp
  qed
  then have "k' = k" using best_training_cong [of cs' cs ops] p(3) q(2) by simp
  moreover have "k < length cs" using best_training_range [OF p(3)] .
  ultimately show ?thesis
    using p(4) q(3) arg_cong [OF params, of "\<lambda>xs. xs ! k"] map_eq_imp_length_eq [OF params] by simp
qed

section \<open>A sample calibration\<close>

text \<open>Two windows of one bar each and a policy that stays flat.\<close>

definition flat_policy :: "rat policy_evaluator" where
  "flat_policy = \<lparr>pe_family = YIELD_THRESHOLD_FAMILY, pe_family_version = 1, pe_decide = \<lambda>_ _ _. Ok []\<rparr>"

definition sample_window :: "i64 \<Rightarrow> i64 \<Rightarrow> effective_period" where
  "sample_window a b = \<lparr>ep_from = sample_instant a, ep_to = sample_instant b\<rparr>"

definition sample_calibration :: "i64 \<Rightarrow> (rat, data_error) calibration_request" where
  "sample_calibration until =
     \<lparr>kr_replay = (sample_request [first_bar, second_bar ''99''])\<lparr>rq_evaluator := flat_policy\<rparr>,
      kr_grid = [(''target_face'', [100, 200])], kr_training = sample_window 0 60, kr_validation = sample_window 60 until,
      kr_objective = objective_code TotalPnl, kr_output_id = vr_id sample_bond, kr_output_valid = sample_window 120 600\<rparr>"

definition sample_parameters :: "rat \<Rightarrow> rat parameters" where
  "sample_parameters face = bt_insert ''target_face'' face (pi_parameters (pa_input sample_policy))"

definition sample_input :: "rat \<Rightarrow> effective_period \<Rightarrow> rat policy_artifact_input" where
  "sample_input face window = (pa_input sample_policy)\<lparr>pi_parameters := sample_parameters face,
     pi_valid := window, pi_calibration := None\<rparr>"

lemma sample_artifact:
  assumes "pi_parameters input = sample_parameters face" "pi_family input = YIELD_THRESHOLD_FAMILY" "pi_family_version input = 1"
    "pi_universe input = [sample_bond]" "pi_constraints input = []"
    "\<forall>r \<in> set_option (pi_calibration input). cr_parameters (selected_candidate r) = sample_parameters face"
  shows "policy_artifact_new rat_ops (\<lambda>_. zero_hash) input = Ok \<lparr>pa_input = input, pa_content_hash = zero_hash\<rparr>"
proof -
  have "\<not> blank_or_padded YIELD_THRESHOLD_FAMILY" "\<not> blank_or_padded ''entry_yield''" "\<not> blank_or_padded ''exit_yield''"
    "\<not> blank_or_padded ''target_face''" unfolding YIELD_THRESHOLD_FAMILY_def by code_simp+
  moreover have "parameters_eq rat_ops x x" for x by (auto simp: parameters_eq_def list.rel_refl)
  moreover have "input\<lparr>pi_universe := [sample_bond]\<rparr> = input" using assms(4) by (cases input) simp
  moreover have "sample_parameters face = [(''entry_yield'', 2), (''exit_yield'', 1), (''target_face'', face)]"
    by (simp add: sample_parameters_def sample_policy_def)
  ultimately show ?thesis using assms by (simp add: policy_artifact_new_def bt_keys_def Let_def)
qed

text \<open>A flat policy replays any one bar of the sample, with one row of zero profit.\<close>

lemma flat_step:
  assumes "rs_ledger s = ledger_new rat_ops sample_carry sample_funding NoCost T1" "rs_pending s = []"
    and b: "b = sample_bar sample_bond r m c v y"
  shows "\<exists>l row. advance_step rat_ops sample_chrono (bar_end b) [b] s = Ok (s\<lparr>rs_ledger := l\<rparr>) \<and> lg_rows l = [row]"
  using assms(1,2)
  by (cases s) (simp add: b advance_step_def open_step_def ledger_new_def empty_book_def roll_date_def finish_step_def
      equity_now_def Let_def sample_bar_def instrument_rows_def)

lemma flat_replay:
  assumes request: "request = (sample_request bars)\<lparr>rq_evaluator := flat_policy, rq_policy := \<lparr>pa_input = sample_input face window, pa_content_hash = h\<rparr>\<rparr>"
    and covered: "covered_bars request = [b]" and b: "b = sample_bar sample_bond r m c v y"
    and early: "bar_end b \<le> bar_visible_at b" "UtcInstant 0 0 \<le> bar_visible_at b" "bar_visible_at b \<le> UtcInstant 600 0"
  shows "\<exists>r. replay_bars ds rat_ops sample_chrono sha request = Ok r"
proof -
  let ?d = "bar_visible_at b" and ?s = "initial_state rat_ops request NoCost []"
  have slots: "decision_times_of [b] = [?d]" "steps_of [b] = [(bar_end b, [b])]"
    by (simp_all add: decision_times_of_def steps_of_def add_to_step_def bset_insert_def)
  have fields: "rq_carry request = sample_carry" "rq_funding request = sample_funding" "rq_evaluator request = flat_policy"
    "pa_input (rq_policy request) = sample_input face window" "rq_data request = sample_data bars"
    "rq_subject request = rq_subject (sample_request bars)" "rq_subject_state request = rq_subject_state (sample_request bars)"
    "rq_constraints request = None" "rq_cost_model request = COST_NONE"
    by (simp_all add: request sample_request_def)
  have input: "pi_family (sample_input face window) = YIELD_THRESHOLD_FAMILY" "pi_family_version (sample_input face window) = 1"
    "pi_settlement (sample_input face window) = T1"
    by (simp_all add: sample_input_def sample_policy_def)
  have declared: "pe_family (rq_evaluator request) = pi_family (pa_input (rq_policy request))"
    "pe_family_version (rq_evaluator request) = pi_family_version (pa_input (rq_policy request))"
    "rf_tier (rq_funding request) = sv_funding_tier (rq_subject request)"
    "cost_model_from_declaration rat_ops (rq_cost_model request) (rq_cost_parameters request) = Ok NoCost"
    "enforced_constraints rat_ops request ?d = Ok []"
    using early(2) by (simp_all add: fields input flat_policy_def sample_funding_def sample_request_def cost_model_from_declaration_def
        enforced_constraints_def not_less)
  have state: "rs_ledger ?s = ledger_new rat_ops sample_carry sample_funding NoCost T1" "rs_pending ?s = []" "rs_fills ?s = []"
    "rs_steps ?s = [(bar_end b, [b])]"
    by (simp_all add: initial_state_def fields input covered slots)
  obtain l row where step: "advance_step rat_ops sample_chrono (bar_end b) [b] (?s\<lparr>rs_steps := []\<rparr>) = Ok (?s\<lparr>rs_steps := [], rs_ledger := l\<rparr>)"
    and row: "lg_rows l = [row]"
    using flat_step [of "?s\<lparr>rs_steps := []\<rparr>" b, OF _ _ b] state by auto
  then have "advance rat_ops sample_chrono (Some ?d) ?s = Ok (?s\<lparr>rs_steps := [], rs_ledger := l\<rparr>)"
    using early(1) state(4) by (simp add: advance_def)
  moreover obtain visible where visible: "pb_visible_at (rq_data request) ?d = Ok visible"
    using early(3) by (simp add: fields sample_data_def snapshot_port_def snapshot_visible_at_def not_less [symmetric])
  moreover have "point_in_time_view_new ?d (filter P visible) = Ok \<lparr>pit_decision_time = ?d, pit_bars = filter P visible\<rparr>" for P
    using visible verified.view_accepts by (simp add: fields sample_data_def)
  ultimately obtain decision where run: "decide_at rat_ops sample_chrono request [b] ?d (?s, []) = Ok (?s\<lparr>rs_steps := [], rs_ledger := l\<rparr>, [decision])"
    and time: "rd_decision_time decision = ?d"
      "rd_inputs_visible_through decision = (if filter (policy_covers (rq_policy request)) visible = [] then None
         else Some (Max (bar_visible_at ` set (filter (policy_covers (rq_policy request)) visible))))"
    by (simp add: decide_at_def Let_def fields(3) flat_policy_def deltas_toward_def map_filter_def)
  have "\<forall>t \<in> set_option (rd_inputs_visible_through decision). t \<le> ?d"
    using visible time(2) verified.inputs_visible by (simp add: fields sample_data_def del: set_filter)
  with run row time(1) state(3) show ?thesis
    by (simp add: replay_bars_def Let_def declared covered slots advance_def replay_finish_def simulation_result_new_def)
qed

lemma sample_training_covered:
  assumes "request = (sample_request [first_bar, second_bar ''99''])\<lparr>rq_evaluator := flat_policy, rq_policy := \<lparr>pa_input = sample_input face window, pa_content_hash = h\<rparr>\<rparr>"
  shows "window = sample_window 0 60 \<Longrightarrow> covered_bars request = [first_bar]"
    "window = sample_window 60 120 \<or> window = sample_window 60 180 \<Longrightarrow> covered_bars request = [second_bar ''99'']"
  by (auto simp: assms covered_bars_def sample_request_def sample_data_def snapshot_port_def policy_covers_def
      policy_period_contains_def sample_input_def sample_policy_def sample_window_def sample_instant_def
      first_bar_def second_bar_def sample_bar_def instant_order)

lemma sample_replay_window:
  assumes "window \<in> {sample_window 0 60, sample_window 60 120, sample_window 60 180}"
  shows "\<exists>w. replay_window (\<lambda>_. []) rat_ops sample_chrono (\<lambda>_. zero_hash) (sample_calibration until)
    (sample_parameters face) window TotalPnl = Ok w"
proof -
  let ?request = "(sample_request [first_bar, second_bar ''99''])\<lparr>rq_evaluator := flat_policy,
    rq_policy := \<lparr>pa_input = sample_input face window, pa_content_hash = zero_hash\<rparr>\<rparr>"
  have "covered_bars ?request = [first_bar] \<or> covered_bars ?request = [second_bar ''99'']"
    using assms by (auto simp: sample_training_covered [OF refl])
  moreover have "bar_end b \<le> bar_visible_at b" "UtcInstant 0 0 \<le> bar_visible_at b" "bar_visible_at b \<le> UtcInstant 600 0"
    if "b = first_bar \<or> b = second_bar ''99''" for b
    using that by (auto simp: first_bar_def second_bar_def sample_bar_def instant_order)
  ultimately obtain r where "replay_bars (\<lambda>_. []) rat_ops sample_chrono (\<lambda>_. zero_hash) ?request = Ok r"
    using flat_replay [OF refl _ first_bar_def] flat_replay [OF refl _ second_bar_def] by metis
  moreover have "rq_policy (kr_replay (sample_calibration until)) = sample_policy"
    by (simp add: sample_calibration_def sample_request_def)
  moreover have "kr_replay (sample_calibration until)\<lparr>rq_policy := \<lparr>pa_input = sample_input face window, pa_content_hash = zero_hash\<rparr>\<rparr> = ?request"
    by (simp add: sample_calibration_def)
  ultimately show ?thesis
    using sample_artifact [of "sample_input face window" face]
    by (simp add: replay_window_def sample_input_def sample_policy_def)
qed

lemma sample_calibration_Ok:
  assumes "until \<in> {120, 180}"
  shows "\<exists>p. calibrate_policy (\<lambda>_. []) rat_ops sample_chrono (\<lambda>_. zero_hash) (sample_calibration until) = Ok p"
proof -
  let ?request = "sample_calibration until"
  let ?evaluate = "evaluate_candidate (\<lambda>_. []) rat_ops sample_chrono (\<lambda>_. zero_hash) ?request TotalPnl"
  have windows: "kr_training ?request = sample_window 0 60" "kr_validation ?request \<in> {sample_window 60 120, sample_window 60 180}"
    using assms by (auto simp: sample_calibration_def)
  have "\<exists>c. ?evaluate (sample_parameters face) = Ok c" for face
    using sample_replay_window [of "sample_window 0 60" until face] sample_replay_window [of "kr_validation ?request" until face] windows
    by (auto simp: evaluate_candidate_def)
  then obtain c1 c2 where cs: "?evaluate (sample_parameters 100) = Ok c1" "?evaluate (sample_parameters 200) = Ok c2" by metis
  obtain k where k: "best_training_candidate rat_ops [c1, c2] = Some k"
    using best_fold_spec [of "[c1, c2]"] by (auto simp: best_training_candidate_def)
  have "k < 2" using best_training_range [OF k] by simp
  then have chosen: "\<exists>face. cr_parameters ([c1, c2] ! k) = sample_parameters face"
    using cs by (auto simp: evaluate_candidate_Ok less_2_cases_iff)
  have base: "rq_policy (kr_replay ?request) = sample_policy" by (simp add: sample_calibration_def sample_request_def)
  have grid: "grid_candidates (kr_grid ?request) (pi_parameters (pa_input sample_policy)) = [sample_parameters 100, sample_parameters 200]"
    by (simp add: sample_calibration_def grid_candidates_def extend_candidates_def sample_parameters_def)
  have check: "check_windows (kr_training ?request) (kr_validation ?request) = Ok ()"
    "objective_from_code (kr_objective ?request) = Some TotalPnl"
    using assms by (auto simp: check_windows_def sample_calibration_def sample_window_def sample_instant_def instant_order objective_from_code_def)
  obtain face where "cr_parameters ([c1, c2] ! k) = sample_parameters face" using chosen by blast
  then show ?thesis
    using check cs k
    by (simp add: calibrate_policy_def base grid calibration_record_new_def) (simp add: sample_artifact [of _ face] selected_candidate_def sample_policy_def)
qed

theorem calibrate_policy_record_witness:
  "\<exists>p r k. calibrate_policy (\<lambda>_. []) rat_ops sample_chrono (\<lambda>_. zero_hash) (sample_calibration 120) = Ok p \<and>
     pi_calibration (pa_input p) = Some r \<and> first_best (cb_candidates r) k \<and>
     pi_parameters (pa_input p) = cr_parameters (cb_candidates r ! k)"
proof -
  obtain p where p: "calibrate_policy (\<lambda>_. []) rat_ops sample_chrono (\<lambda>_. zero_hash) (sample_calibration 120) = Ok p"
    using sample_calibration_Ok [of 120] by auto
  from calibrate_policy_record [OF this] p show ?thesis by blast
qed

theorem validation_never_selects_witness:
  "\<exists>p q. calibrate_policy (\<lambda>_. []) rat_ops sample_chrono (\<lambda>_. zero_hash) (sample_calibration 120) = Ok p \<and>
     calibrate_policy (\<lambda>_. []) rat_ops sample_chrono (\<lambda>_. zero_hash) (sample_calibration 180) = Ok q \<and>
     pi_parameters (pa_input q) = pi_parameters (pa_input p)"
proof -
  obtain p q where run: "calibrate_policy (\<lambda>_. []) rat_ops sample_chrono (\<lambda>_. zero_hash) (sample_calibration 120) = Ok p"
    "calibrate_policy (\<lambda>_. []) rat_ops sample_chrono (\<lambda>_. zero_hash) (sample_calibration 180) = Ok q"
    using sample_calibration_Ok [of 120] sample_calibration_Ok [of 180] by auto
  have "sample_calibration 180 = sample_calibration 120\<lparr>kr_validation := sample_window 60 180\<rparr>"
    by (simp add: sample_calibration_def)
  with run validation_never_selects [OF run(1), of "sample_window 60 180" q] show ?thesis by simp
qed

end
