(* ===== verification/Spec2Isabelle.thy ===== *)
theory Spec2Isabelle
  imports Graph_Execution Experiment_Comparison Key_Rate_Exposure Data_Health Governance Portfolio_Performance
    Replay_Accounting Policy_Calibration
begin

text \<open>
  A verification development for ficant, a research platform for fixed income, whose runs can be
  repeated, verified and compared. It covers the deterministic core, in Rust: the runtime
  (\<open>src/crates/ficant-runtime/src\<close>), the domain objects it and the portfolio services rest on
  (\<open>src/crates/ficant-domain/src\<close>) and the bar replay
  (\<open>src/crates/ficant-application/src/use_cases/bar_replay.rs\<close>, \<open>policy_calibration.rs\<close>).

  \<^bold>\<open>How the parts interact.\<close> A research graph (nodes with contracts, edges, external inputs) is
  validated and given a deterministic execution order. An execution identity freezes everything a
  run depends on; executing the graph against it gives artifacts and a result digest, and a repeated
  run is verified against that digest. While a run goes on, events are appended to its journal, a
  hash chain with idempotent appends behind a lock; replay of the journal recovers the state of the
  run and, for graph executions, the nodes already committed. Outputs carry formal evidence, the
  exact references of their inputs. Position snapshots, factors, key rate sensitivities, the
  portfolio catalogue and portfolio performance are the objects such runs consume and produce; all
  of them are identified by the SHA-256 digest of canonical bytes. Policies are tried on market
  bars: a replay decides at the times bars become visible, executes in later bars under a
  participation cap and the subject's constraints, and books every step in a ledger; calibration
  replays every candidate of a parameter grid and records the choice in the policy.

  \<^bold>\<open>Theories and the code they model.\<close>
  \<^item> \<open>Ficant_Prelude\<close>: machine integers as words, Rust's \<open>Result\<close> and its combinators, byte
    strings, big-endian integers, UTF-8, trimming, splitting, slices; the collections
    \<open>result_simps\<close> and others that carry the proofs.
  \<^item> \<open>Byte_Codes\<close>: the locale \<open>determines\<close>, encodings that determine a content and where it ends,
    with the rules by which encodings of records, counted and uncounted sequences and options
    compose (collection \<open>code_intros\<close>).
  \<^item> \<open>Transition_System\<close>: the locale \<open>guarded_steps\<close>, invariants and retained facts of histories.
  \<^item> \<open>Ordered_Map\<close>: \<open>BTreeMap\<close> and \<open>BTreeSet\<close> behind the locale \<open>ordered_map\<close>.
  \<^item> \<open>Primitives\<close>: \<open>primitives/*.rs\<close> and \<open>lib.rs\<close>; error codes, hashes, ULIDs, versions, lineage,
    market time; the locale \<open>hash_addressed\<close>, the contract of content-addressed objects.
  \<^item> \<open>Fixed_Decimal\<close>, \<open>Decimal_Value\<close>: \<open>primitives/fixed_decimal.rs\<close> and \<open>primitives/decimal.rs\<close>.
    The rounded operations compute the nearest decimal, ties to even, whenever it is representable;
    normalisation is canonical except for zero.
  \<^item> \<open>Node_Contract\<close>, \<open>Topological_Order\<close>, \<open>Research_Graph\<close>: \<open>research/research_graph.rs\<close>. The
    constructor accepts exactly the well-formed acyclic graphs, the order is the least topological
    order, digests identify graphs.
  \<^item> \<open>Run_Journal\<close>, \<open>Journal_Store\<close>: \<open>research/run_journal.rs\<close> and \<open>journal.rs\<close>. The reachable
    journals are hash chains whatever the interleaving of the callers, appends insert exactly the
    chain extensions, retries return the recorded event, stale writers are refused, and the last hash
    fixes the history.
  \<^item> \<open>Experiment_Run\<close>: \<open>research/experiment_run.rs\<close>, the guarded state machine of a run.
  \<^item> \<open>Replay\<close>, \<open>Graph_Execution\<close>: \<open>replay.rs\<close>, \<open>digest.rs\<close>, \<open>graph_execution.rs\<close>. Replay accepts
    exactly the complete chains; graph replay establishes which nodes are committed in the order of
    the graph, by induction over a relational form of its transitions; the replay digest identifies
    the journal.
  \<^item> \<open>Formal_Evidence\<close>, \<open>Execution_Identity\<close>, \<open>Output_Envelope\<close>, \<open>Native_Execution\<close>,
    \<open>Experiment_Comparison\<close>: \<open>native_execution.rs\<close>. Evidence and identities are accepted exactly
    when complete and exact, their digests identify them, the envelope decoder accepts exactly the
    canonical bytes, execution records the lineage of every artifact, does not depend on the order of
    its registries, succeeds for conforming nodes, and a repeated run verifies.
  \<^item> \<open>Factor_Topology\<close>, \<open>Key_Rate_Arithmetic\<close>: \<open>research/factor_topology.rs\<close> and the arithmetic of
    \<open>research/exposure.rs\<close>; a position's key rate sensitivity is rounded once, after exact
    cancellation.
  \<^item> \<open>Coverage\<close>, \<open>Key_Rate_Exposure\<close>: \<open>research/coverage.rs\<close> and the objects of
    \<open>research/exposure.rs\<close>. A declaration counts its positions and sums their absolute values per
    unit, the totals of a portfolio are the sums of its positions factor by factor, and the hash of
    its exposures identifies them although its sequences have no counts.
  \<^item> \<open>Data_Health\<close>: \<open>research/data_health.rs\<close>. A report raises exactly the issues whose conditions
    hold; the evaluation of a verified snapshot returns, except for a range of thresholds for which
    it panics.
  \<^item> \<open>Governance\<close>: \<open>governance.rs\<close>; the derived identity of a change fixes actor, resource and
    idempotency key.
  \<^item> \<open>Position_Snapshot\<close>: \<open>research/position_snapshot.rs\<close>; the hash identifies the snapshot for
    instants a nanosecond count holds, and for which instants it does not.
  \<^item> \<open>Portfolio_Catalog\<close>, \<open>Portfolio_Performance\<close>: \<open>portfolio/mod.rs\<close> and
    \<open>portfolio/performance.rs\<close>; hashes fix a portfolio with everything it refers to, reported
    profits reconcile, and compounded returns stay within a stated error of the exact ones.
  \<^item> \<open>Market_Bar\<close>, \<open>Subject_Constraints\<close>: \<open>market/bar.rs\<close>, \<open>subject.rs\<close>, \<open>constraint.rs\<close>; validated
    bars, subjects with their state, and constraint sets bound to ceilings.
  \<^item> \<open>Replay_Amount\<close>, \<open>Simulated_Book\<close>, \<open>Replay_Execution\<close>, \<open>Replay_Constraints\<close>, \<open>Replay_Ledger\<close>,
    \<open>Calibration_Record\<close>, \<open>Replay_Policy\<close>: \<open>replay/*.rs\<close>. An execution let through by the constraints
    breaches none of them and, in exact arithmetic, is the largest such one; a ledger step always
    reconciles in exact arithmetic, grids enumerate every combination once.
  \<^item> \<open>Bar_Replay\<close>, \<open>Replay_Causality\<close>, \<open>Replay_Reports\<close>, \<open>Replay_Accounting\<close>:
    \<open>use_cases/bar_replay.rs\<close>. The locale
    \<open>point_in_time_port\<close> is the contract of the data port, interpreted on the verified snapshot of
    \<open>ficant-data\<close>. What a replay reports through an instant does not depend on the contents of later
    bars, by a lockstep of two runs. It does depend on their existence: a trade without a later bar is
    reported at its decision time, and a later bar takes that record away (a finding). In exact
    arithmetic a replay of a request that fits together returns, its rows reconcile and add up, and
    the executions in a bar stay within its cap.
  \<^item> \<open>Policy_Calibration\<close>: \<open>use_cases/policy_calibration.rs\<close>; the record of a calibrated policy is
    complete, and validation never influences the choice.
  \<^item> this theory: journals, replay and the life of a run together; the state machine of the replay
    accepts exactly what the one of \<open>ExperimentRun\<close> does.

  \<^bold>\<open>Conventions.\<close> A struct is a record with a prefix of its own on the fields, an enum a datatype,
  fallible code returns \<open>('a, 'e) result\<close>, code that may also panic an option of it (\<open>None\<close> is the
  panic), a method that mutates returns the new state, machine
  integers are words of their width. Getters are the record fields. Where an accepted object has
  exactly the fields of its input struct, one record stands for both. Loops are recursive functions
  with termination proofs; no fuel is used.

  \<^bold>\<open>Parameters.\<close> Code outside the repository is an argument: \<open>sha256\<close> (\<open>sha2\<close>), the reparsing of
  ULIDs (\<open>ulid\<close>), time zones and the text of dates (\<open>chrono\<close>, \<open>chrono_tz\<close>; relied on only for
  different dates having different texts), the arithmetic of \<open>rust_decimal\<close> (the record \<open>decimal_ops\<close> in the
  replay theories, with exact rationals as the instance \<open>rat_ops\<close>, where the crate keeps about 28
  digits and panics on overflow; the record \<open>sum_ops\<close> in
  \<open>Coverage\<close>, with \<open>exact_sums\<close> the hypothesis that a sum is exact when it exists), durations of
  \<open>chrono\<close> (\<open>duration_ops\<close>, with \<open>documented_durations\<close> its documented limits), coupon data of a domain pack
  (\<open>bond_carry\<close>), and the node
  implementations, which are values of a record with an execution function. SHA-256 is never assumed
  injective: theorems about digests name the two byte strings that would collide.

  \<^bold>\<open>Bounds.\<close> Encodings are shown to identify values when the canonical bytes are shorter than
  \<open>usize_limit\<close>, \<open>2 ^ 64\<close>, as every Rust byte vector is; this keeps 64-bit length prefixes exact.

  \<^bold>\<open>Not modelled.\<close> Storage, API, data adapters, binaries and the asynchronous use cases are input
  and output over external services; generated contracts, the C++ kernel and the Python and web
  clients are outside the deterministic core. Not modelled in the domain crate:
  other market objects, curves, analytics and futures formulas, and the small snapshot records; of
  the use cases, those over repositories.
\<close>

section \<open>Journals, replay and the life of a run\<close>

lemma complete_run_final:
  assumes "complete_run ts st" "complete_run (ts @ us) st'"
  shows "us = []"
proof (rule ccontr)
  assume "us \<noteq> []"
  obtain ps f where ts: "ts = [RunCreated, RunStarted] @ ps @ [f]" and f: "final_state f = Some st"
    using assms(1) by (auto simp: complete_run_def)
  obtain qs h where "ts @ us = [RunCreated, RunStarted] @ qs @ [h]" and qs: "set qs \<subseteq> {ArtifactPublished, SignalSetPublished}"
    using assms(2) by (auto simp: complete_run_def)
  then have "ps @ [f] @ us = qs @ [h]" by (simp add: ts)
  then have "(ps @ [f]) @ butlast us = qs" using \<open>us \<noteq> []\<close> by (metis append.assoc butlast_append butlast_snoc)
  then have "f \<in> set qs" by auto
  with qs f show False by auto
qed

text \<open>
  Replay is final. However threads go on appending to a journal, once it replays no longer
  journal of the same history replays too: a later journal that replays is the same journal with the
  same result.
\<close>

theorem replay_is_final:
  assumes "(journal_step sha256)\<^sup>*\<^sup>* s t"
    "replay sha256 (pj_events (sj_inner s)) = Ok r" "replay sha256 (pj_events (sj_inner t)) = Ok r'"
  shows "pj_events (sj_inner t) = pj_events (sj_inner s) \<and> r' = r"
proof -
  obtain es where t: "pj_events (sj_inner t) = pj_events (sj_inner s) @ es"
    using journal_steps.history_retains [OF assms(1)] by (auto simp: shared_extends_def extends_def)
  have "complete_run (map rj_event_type (pj_events (sj_inner s))) (rr_terminal_state r)"
    "complete_run (map rj_event_type (pj_events (sj_inner s)) @ map rj_event_type es) (rr_terminal_state r')"
    using assms(2,3) by (auto simp: replay_Ok t)
  then have "es = []" using complete_run_final by blast
  then show ?thesis using assms(2,3) t by simp
qed

text \<open>
  C30: for a journal built by appends, whatever the calls and their interleaving,
  replay needs no further check: it succeeds exactly when the event types form a complete run, and
  then names the journal's own run and its length.
\<close>

theorem appended_journal_replays:
  assumes "(journal_step sha256)\<^sup>*\<^sup>* (shared_run_journal_new run_id) s"
  shows "replay sha256 (pj_events (sj_inner s)) = Ok r \<longleftrightarrow>
    complete_run (map rj_event_type (pj_events (sj_inner s))) (rr_terminal_state r) \<and>
    rr_run_id r = run_id \<and> rr_event_count r = length (pj_events (sj_inner s)) \<and>
    rr_digest r = replay_digest sha256 (pj_events (sj_inner s)) (rr_terminal_state r)"
proof -
  let ?es = "pj_events (sj_inner s)"
  have "journal_ok sha256 (sj_inner s)" "shared_extends (shared_run_journal_new run_id) s"
    using journal_steps.history_invariant [OF assms] journal_steps.history_retains [OF assms]
      journal_ok_new [of sha256 run_id] by (simp_all add: shared_run_journal_new_def)
  then have chain: "chain sha256 run_id ?es"
    by (auto simp: journal_ok_def shared_extends_def extends_def shared_run_journal_new_def per_run_journal_new_def)
  have first: "rj_run_id (hd ?es) = run_id" if "?es \<noteq> []"
    using chain that by (auto simp: chain_def hd_conv_nth)
  have ne: "?es \<noteq> []" if "complete_run (map rj_event_type ?es) st" for st
    using that by (auto simp: complete_run_def)
  show ?thesis unfolding replay_Ok by (cases r) (use chain first ne in auto)
qed

section \<open>Journals and the life of a run\<close>

text \<open>
  What the events of a journal ask of the run they record: a started or final event is a transition
  of \<open>ExperimentRun\<close>, at its current revision; a publication needs a running run and leaves it.
\<close>

definition event_target :: "journal_event_type \<Rightarrow> run_state option" where
  "event_target t = (if t = RunStarted then Some Running else final_state t)"

inductive run_lives :: "experiment_run \<Rightarrow> journal_event_type list \<Rightarrow> experiment_run \<Rightarrow> bool" where
  rests: "run_lives run [] run"
| moves: "event_target t = Some st \<Longrightarrow> run_transition run st (er_revision run) = Ok next_run \<Longrightarrow>
    run_lives next_run ts run' \<Longrightarrow> run_lives run (t # ts) run'"
| publishes: "t \<in> {ArtifactPublished, SignalSetPublished} \<Longrightarrow> er_state run = Running \<Longrightarrow>
    run_lives run ts run' \<Longrightarrow> run_lives run (t # ts) run'"

inductive_simps run_lives_simps: "run_lives run [] run'" "run_lives run (t # ts) run'"

lemma run_lives_steps: "run_lives run ts run' \<Longrightarrow> run_step\<^sup>*\<^sup>* run run'"
  by (induction rule: run_lives.induct) (auto intro: converse_rtranclp_into_rtranclp run_step.step)

text \<open>The replay's state machine and the domain's allow the same step.\<close>

lemma replay_transition_moves:
  assumes "run_ok run" "event_target t = Some st"
  shows "replay_transition (Some (er_state run)) t = Ok s \<longleftrightarrow>
    s = st \<and> (\<exists>next_run. run_transition run st (er_revision run) = Ok next_run \<and> er_state next_run = st)"
proof -
  have "\<exists>n. checked_add_u64 (er_revision run) 1 = Some n"
    using assms(1) by (cases "er_state run") (simp_all add: checked_add_u64_def run_ok_def)
  then have "(\<exists>next_run. run_transition run st (er_revision run) = Ok next_run \<and> er_state next_run = st) \<longleftrightarrow>
      transition_allowed (er_state run) st"
    by (auto simp: run_transition_def Let_def)
  then show ?thesis using assms(2) by (cases "er_state run"; cases t) (auto simp: event_target_def)
qed

lemma replay_transition_publishes:
  assumes "event_target t = None"
  shows "replay_transition (Some st) t = Ok s \<longleftrightarrow> t \<in> {ArtifactPublished, SignalSetPublished} \<and> st = Running \<and> s = Running"
  using assms by (cases st; cases t) (auto simp: event_target_def)

lemma run_types_lives:
  assumes "run_ok run"
  shows "run_types (Some (er_state run)) ts = Ok (Some st) \<longleftrightarrow> (\<exists>run'. run_lives run ts run' \<and> er_state run' = st)"
  using assms
proof (induction ts arbitrary: run)
  case Nil
  then show ?case by (auto simp: run_lives_simps)
next
  case (Cons t ts)
  show ?case
  proof (cases "event_target t")
    case None
    then show ?thesis
      using Cons.IH [OF Cons.prems] replay_transition_publishes [OF None] by (auto simp: run_lives_simps and_then_eq_Ok)
  next
    case (Some target)
    have IH: "run_types (Some target) ts = Ok (Some st) \<longleftrightarrow> (\<exists>run'. run_lives n ts run' \<and> er_state run' = st)"
      if "run_transition run target (er_revision run) = Ok n" "er_state n = target" for n
      using Cons.IH [of n] runs.step_invariant [OF run_step.step [OF that(1)] Cons.prems] that(2) by simp
    have "er_state n = target" if "run_transition run target (er_revision run) = Ok n" for n
      using that by (auto simp: run_transition_def Let_def result_simps split: if_splits)
    moreover have "t \<notin> {ArtifactPublished, SignalSetPublished}" using Some by (auto simp: event_target_def)
    ultimately show ?thesis
      using IH replay_transition_moves [OF Cons.prems Some] Some by (auto simp: run_lives_simps and_then_eq_Ok)
  qed
qed

text \<open>
  C35: replay accepts exactly the journals that record a legal life of their experiment run. For a
  fresh run, replaying a journal succeeds with that run's identifier exactly when the journal is a
  chain of events of this run, begins with its creation, and the remaining events, taken one by one
  from the fresh run, are transitions the run accepts at its current revision (publications only
  while it runs) and end in a final state. The replay then reports the state the run has reached,
  which is at revision 3 and differs from the fresh run in state and revision only.
\<close>

theorem replay_follows_run_lifecycle:
  assumes "experiment_run_new input = Ok run"
  shows "replay sha256 events = Ok result \<and> rr_run_id result = er_experiment_run_id run \<longleftrightarrow>
    chain sha256 (er_experiment_run_id run) events \<and>
    (\<exists>ts run'. map rj_event_type events = RunCreated # ts \<and> run_lives run ts run' \<and> run_terminal (er_state run') \<and>
       unat (er_revision run') = 3 \<and> run_identity run' = run_identity run \<and>
       result = \<lparr>rr_run_id = er_experiment_run_id run, rr_terminal_state = er_state run',
         rr_event_count = length events, rr_digest = replay_digest sha256 events (er_state run')\<rparr>)"
    (is "_ \<longleftrightarrow> ?lives")
proof -
  let ?id = "er_experiment_run_id run"
  have run: "er_state run = Created" "run_ok run"
    using assms by (auto simp: experiment_run_new_def Let_def run_ok_def split: if_splits)
  have later: "run_ok run'" "run_identity run' = run_identity run" if "run_lives run ts run'" for ts run'
    using runs.history_invariant [OF run_lives_steps [OF that] run(2)] runs.history_retains [OF run_lives_steps [OF that]]
    by (simp_all add: run_after_def)
  have final: "unat (er_revision run') = 3" if "run_lives run ts run'" "run_terminal (er_state run')" for ts run'
    using later(1) [OF that(1)] that(2) by (auto simp: run_ok_def run_terminal_def)
  have types: "complete_run (RunCreated # ts) st \<longleftrightarrow> (\<exists>run'. run_lives run ts run' \<and> er_state run' = st) \<and> run_terminal st" for ts st
    using run_types_lives [OF run(2), of ts st] run(1) run_types_complete [of "RunCreated # ts" st] by simp
  have created: "\<exists>ts. us = RunCreated # ts" if "complete_run us st" for us st
    using that by (auto simp: complete_run_def)
  have id: "events \<noteq> [] \<Longrightarrow> chain sha256 ?id events \<Longrightarrow> rj_run_id (hd events) = ?id"
    by (auto simp: chain_def hd_conv_nth)
  show ?thesis
  proof
    assume "replay sha256 events = Ok result \<and> rr_run_id result = ?id"
    then have "chain sha256 ?id events" and complete: "complete_run (map rj_event_type events) (rr_terminal_state result)"
      and result: "result = \<lparr>rr_run_id = ?id, rr_terminal_state = rr_terminal_state result, rr_event_count = length events,
        rr_digest = replay_digest sha256 events (rr_terminal_state result)\<rparr>"
      by (auto simp: replay_Ok)
    moreover obtain ts where ts: "map rj_event_type events = RunCreated # ts" using created [OF complete] by (elim exE)
    moreover obtain run' where "run_lives run ts run'" "er_state run' = rr_terminal_state result" "run_terminal (er_state run')"
      using complete types [of ts] by (auto simp: ts)
    ultimately show ?lives using later final by metis
  next
    assume ?lives
    then obtain ts run' where chain: "chain sha256 ?id events" and ts: "map rj_event_type events = RunCreated # ts"
      and "run_lives run ts run'" "run_terminal (er_state run')"
      and result: "result = \<lparr>rr_run_id = ?id, rr_terminal_state = er_state run', rr_event_count = length events,
        rr_digest = replay_digest sha256 events (er_state run')\<rparr>"
      by (elim conjE exE)
    then have "complete_run (map rj_event_type events) (er_state run')" using types [of ts] by (auto simp: ts)
    then show "replay sha256 events = Ok result \<and> rr_run_id result = ?id"
      using ts id chain by (auto simp: replay_Ok result)
  qed
qed

section \<open>Sample histories\<close>

abbreviation sample_stage :: "run_journal list \<Rightarrow> shared_run_journal" where
  "sample_stage es \<equiv> \<lparr>sj_inner = \<lparr>pj_run_id = Ulid ''r'', pj_events = es,
     pj_idempotency = zip [''k1'', ''k2'', ''k3''] es\<rparr>, sj_poisoned = False\<rparr>"

lemma sample_stage_step:
  assumes "journal_ok (\<lambda>_. zero_hash) (sj_inner (sample_stage es))"
    "chain (\<lambda>_. zero_hash) (Ulid ''r'') (es @ [sample_event n t])" "length es < 3" "unat n = length es + 1"
  shows "journal_step (\<lambda>_. zero_hash) (sample_stage es) (sample_stage (es @ [sample_event n t]))"
proof -
  let ?j = "sj_inner (sample_stage es)" and ?k = "[''k1'', ''k2'', ''k3''] ! length es"
  consider "es = []" | a where "es = [a]" | a b where "es = [a, b]"
    using assms(3) by (cases es rule: remdups_adj.cases) (auto simp: numeral_3_eq_3 less_Suc_eq length_Suc_conv)
  then have keys: "map_of (pj_idempotency ?j) ?k = None \<and>
      bt_insert ?k (sample_event n t) (pj_idempotency ?j) = zip [''k1'', ''k2'', ''k3''] (es @ [sample_event n t])"
    by cases auto
  have "per_run_append (\<lambda>_. zero_hash) ?j ?k n (sample_command n t) =
      (appended ?j ?k (sample_event n t), Ok \<lparr>ar_event = sample_event n t, ar_inserted = True\<rparr>)"
    unfolding append_inserts_iff [OF assms(1)] using keys assms(2,4) by (simp add: sample_event_input)
  then have "shared_append (\<lambda>_. zero_hash) (sample_stage es) ?k n (sample_command n t) =
      (sample_stage (es @ [sample_event n t]), Ok \<lparr>ar_event = sample_event n t, ar_inserted = True\<rparr>)"
    using keys by (simp add: shared_append_def appended_def)
  then show ?thesis by (rule journal_step.call)
qed

lemma sample_journal_ok_stage:
  "chain (\<lambda>_. zero_hash) (Ulid ''r'') es \<Longrightarrow> length es \<le> 3 \<Longrightarrow> journal_ok (\<lambda>_. zero_hash) (sj_inner (sample_stage es))"
proof -
  assume "chain (\<lambda>_. zero_hash) (Ulid ''r'') es" and len: "length es \<le> 3"
  moreover have "bt_ok (zip [''k1'', ''k2'', ''k3''] es)"
    using sorted_wrt_take [of "(<)" "[''k1'', ''k2'', ''k3'']" "length es"]
    by (simp add: bt_ok_def map_fst_zip_take)
  moreover have "map snd (zip [''k1'', ''k2'', ''k3''] es) = es"
    using len by (simp add: map_snd_zip_take)
  ultimately show ?thesis by (simp only: journal_ok_def simp_thms shared_run_journal.simps per_run_journal.simps)
qed

lemma sample_complete_history:
  assumes "final_state final = Some st"
  shows "(journal_step (\<lambda>_. zero_hash))\<^sup>*\<^sup>* (shared_run_journal_new (Ulid ''r'')) (sample_stage (sample_run final))"
proof -
  have "chain (\<lambda>_. zero_hash) (Ulid ''r'') (sample_run final)"
    using sample_run_replays [OF assms] unfolding replay_Ok by (simp add: sample_run_def)
  then have full: "chain (\<lambda>_. zero_hash) (Ulid ''r'') ([sample_event 1 RunCreated, sample_event 2 RunStarted] @ [sample_event 3 final])"
    by (simp add: sample_run_def)
  note two = sample_chain(2) [of RunCreated RunStarted] and one = sample_chain(1) [of RunCreated]
  have "journal_step (\<lambda>_. zero_hash) (sample_stage []) (sample_stage ([] @ [sample_event 1 RunCreated]))"
    by (rule sample_stage_step [OF sample_journal_ok_stage]) (simp_all add: one)
  moreover have "journal_step (\<lambda>_. zero_hash) (sample_stage [sample_event 1 RunCreated])
      (sample_stage ([sample_event 1 RunCreated] @ [sample_event 2 RunStarted]))"
    by (rule sample_stage_step [OF sample_journal_ok_stage]) (simp_all add: one two)
  moreover have "journal_step (\<lambda>_. zero_hash) (sample_stage [sample_event 1 RunCreated, sample_event 2 RunStarted])
      (sample_stage ([sample_event 1 RunCreated, sample_event 2 RunStarted] @ [sample_event 3 final]))"
    by (rule sample_stage_step [OF sample_journal_ok_stage [OF two]]) (use full in simp_all)
  moreover have "sample_stage [] = shared_run_journal_new (Ulid ''r'')"
    by (simp add: shared_run_journal_new_def per_run_journal_new_def)
  ultimately show ?thesis
    by (simp add: sample_run_def)
qed

lemma replay_is_final_witness:
  "replay (\<lambda>_. zero_hash) (pj_events (sj_inner (sample_stage (sample_run RunSucceeded)))) =
     Ok \<lparr>rr_run_id = Ulid ''r'', rr_terminal_state = Succeeded, rr_event_count = 3, rr_digest = zero_hash\<rparr> \<and>
   pj_events (sj_inner (sample_stage (sample_run RunSucceeded))) = sample_run RunSucceeded"
proof -
  have r: "replay (\<lambda>_. zero_hash) (pj_events (sj_inner (sample_stage (sample_run RunSucceeded)))) =
      Ok \<lparr>rr_run_id = Ulid ''r'', rr_terminal_state = Succeeded, rr_event_count = 3, rr_digest = zero_hash\<rparr>"
    using sample_run_replays [of RunSucceeded Succeeded] by simp
  from replay_is_final [OF rtranclp.rtrancl_refl r r] r show ?thesis by simp
qed

lemma appended_journal_replays_witness:
  "replay (\<lambda>_. zero_hash) (sample_run RunFailed) =
     Ok \<lparr>rr_run_id = Ulid ''r'', rr_terminal_state = Failed, rr_event_count = 3, rr_digest = zero_hash\<rparr>"
proof -
  have "complete_run [RunCreated, RunStarted, RunFailed] Failed"
    unfolding complete_run_def by (intro exI [of _ "[]"] exI [of _ RunFailed]) simp
  then show ?thesis
    using appended_journal_replays [OF sample_complete_history [of RunFailed Failed]]
    by (simp add: sample_run_def replay_digest_def)
qed

lemma replay_follows_run_lifecycle_witness:
  "\<exists>run run'. experiment_run_new (sample_run_input\<lparr>ei_experiment_run_id := Ulid ''r''\<rparr>) = Ok run \<and>
     run_lives run [RunStarted, RunCancelled] run' \<and> er_state run' = Cancelled \<and> unat (er_revision run') = 3"
proof -
  obtain run where run: "experiment_run_new (sample_run_input\<lparr>ei_experiment_run_id := Ulid ''r''\<rparr>) = Ok run"
    "er_experiment_run_id run = Ulid ''r''"
    by (auto simp: experiment_run_new_def sample_run_input_def Let_def)
  let ?result = "\<lparr>rr_run_id = Ulid ''r'', rr_terminal_state = Cancelled, rr_event_count = 3, rr_digest = zero_hash\<rparr>"
  have "replay (\<lambda>_. zero_hash) (sample_run RunCancelled) = Ok ?result \<and> rr_run_id ?result = er_experiment_run_id run"
    using sample_run_replays [of RunCancelled Cancelled] run(2) by simp
  from conjunct2 [OF this [unfolded replay_follows_run_lifecycle [OF run(1)]]] run(1) show ?thesis
    by (auto simp: sample_run_def simp del: One_nat_def)
qed

end
